(* ===== verification/Prelude.thy ===== *)
theory Prelude
  imports Main "HOL-Library.List_Lexorder" "HOL-Library.Char_ord" "HOL-Library.AList"
    "HOL-Library.Multiset"
begin

text \<open>
  Shared ground of the development: the exceptions the program raises and the result type that
  carries them, Python dictionaries as association lists in insertion order, Python's sorting and
  integer/string conversions, hexadecimal rendering of digests, and the small lemmas on them that
  the component theories use through the collections declared here.

  A Python \<open>str\<close> is the \<open>char list\<close> of its UTF-8 encoding. On well-formed text the byte-wise
  lexicographic order of UTF-8 is the code point order of Python's string comparison, and
  \<open>s.encode("utf-8")\<close> is the identity; both facts are what makes one type serve for
  \<open>str\<close> and \<open>bytes\<close>.
\<close>

named_theorems res_simps "equations of the result type"
named_theorems res_elims "inversion rules of the result type"
named_theorems dict_simps "equations of dictionaries"

subsection \<open>Exceptions and results\<close>

text \<open>
  The exception classes the modelled code raises (messages are dropped) and those that Python,
  SQLite or Git raise at the calls the code makes.
\<close>

datatype exn =
    CanonicalizationError | InvalidContractValue | UnknownContractField
  | UnsupportedContractVersion | CASConflict | ActivationError | LeaseError | StateError
  | CASError | MirrorError | GitError | IntegrityError | ProjectionContractError
  | UnknownSchema | UnsupportedSchemaVersion | SchemaValidationError | MigrationPathError
  | UnknownKind | KindRegistrationError | UnknownSigningKey | KeyUsageDenied
  | OperabilityError | ValueError | RuntimeError | KeyError | TypeError | AttributeError
  | UnicodeDecodeError | JSONDecodeError | HandlerException | AssertionError
  | AuditCapacityExceeded | TelemetryAuditUnavailable | ChangeSetIncomplete | ChangeSetRootMismatch
  | ChangeSetStaleParent | ChangeSetBindingMismatch | IndexError
  | OperationConflict string | StageClaimConflict | StageResultConflict | TransientStageError string | FatalStageError string
  | OperationCancelled | OperationDeadlineExceeded

type_synonym 'a res = "exn + 'a"
type_synonym bytes = string

definition bindR :: "'a res \<Rightarrow> ('a \<Rightarrow> 'b res) \<Rightarrow> 'b res" where
  "bindR r f = (case r of Inl e \<Rightarrow> Inl e | Inr a \<Rightarrow> f a)"

definition guardR :: "bool \<Rightarrow> exn \<Rightarrow> unit res" where
  "guardR b e = (if b then Inr () else Inl e)"

definition isOk :: "'a res \<Rightarrow> bool" where
  "isOk r = (case r of Inl _ \<Rightarrow> False | Inr _ \<Rightarrow> True)"

lemma bindR_simps [simp, res_simps]:
  "bindR (Inl e) f = Inl e"
  "bindR (Inr a) f = f a"
  by (simp_all add: bindR_def)

lemma bindR_Inr_iff [res_simps]: "bindR r f = Inr b \<longleftrightarrow> (\<exists>a. r = Inr a \<and> f a = Inr b)"
  by (cases r) auto

lemma bindR_Inl_iff [res_simps]:
  "bindR r f = Inl e \<longleftrightarrow> r = Inl e \<or> (\<exists>a. r = Inr a \<and> f a = Inl e)"
  by (cases r) auto

lemma bindR_InrE [res_elims]:
  assumes "bindR r f = Inr b"
  obtains a where "r = Inr a" "f a = Inr b"
  using assms by (auto simp: bindR_Inr_iff)

lemma guardR_simps [simp, res_simps]:
  "guardR True e = Inr ()"
  "guardR False e = Inl e"
  by (simp_all add: guardR_def)

lemma guardR_Inr_iff [simp, res_simps]: "guardR b e = Inr u \<longleftrightarrow> b"
  by (cases b) (auto simp: guardR_def)

lemma guardR_Inl_iff [simp, res_simps]: "guardR b e = Inl e' \<longleftrightarrow> \<not> b \<and> e' = e"
  by (cases b) (auto simp: guardR_def)

lemma isOk_simps [simp, res_simps]: "isOk (Inr a)" "\<not> isOk (Inl e)"
  by (simp_all add: isOk_def)

lemma isOk_iff: "isOk r \<longleftrightarrow> (\<exists>a. r = Inr a)"
  by (cases r) auto

lemma bindR_cong [fundef_cong]:
  "r = r' \<Longrightarrow> (\<And>a. r' = Inr a \<Longrightarrow> f a = g a) \<Longrightarrow> bindR r f = bindR r' g"
  by (cases r') auto

text \<open>A comprehension whose body may raise: the first exception wins.\<close>

fun mapR :: "('a \<Rightarrow> 'b res) \<Rightarrow> 'a list \<Rightarrow> 'b list res" where
  "mapR f [] = Inr []"
| "mapR f (x # xs) = bindR (f x) (\<lambda>y. bindR (mapR f xs) (\<lambda>ys. Inr (y # ys)))"

lemma mapR_Inr_iff: "mapR f xs = Inr ys \<longleftrightarrow> list_all2 (\<lambda>x y. f x = Inr y) xs ys"
  by (induction xs arbitrary: ys) (auto simp: res_simps list_all2_Cons1)

lemma mapR_all_Inr: "(\<And>x. x \<in> set xs \<Longrightarrow> f x = Inr (g x)) \<Longrightarrow> mapR f xs = Inr (map g xs)"
  by (induction xs) auto

lemma mapR_cong [fundef_cong]:
  "xs = ys \<Longrightarrow> (\<And>x. x \<in> set ys \<Longrightarrow> f x = g x) \<Longrightarrow> mapR f xs = mapR g ys"
proof (induction ys arbitrary: xs)
  case Nil
  then show ?case by simp
next
  case (Cons y ys)
  then show ?case by (simp cong: bindR_cong)
qed

subsection \<open>Dictionaries\<close>

text \<open>
  A Python dictionary keeps its keys in insertion order, and an assignment to a present key keeps
  the key's place: exactly \<open>AList.update\<close>. Lookup is \<open>map_of\<close>, \<open>pop(key, None)\<close> is
  \<open>AList.delete\<close>.
\<close>

type_synonym ('k, 'v) dict = "('k \<times> 'v) list"

abbreviation dict_set :: "'k \<Rightarrow> 'v \<Rightarrow> ('k, 'v) dict \<Rightarrow> ('k, 'v) dict" where
  "dict_set \<equiv> AList.update"

abbreviation dict_pop :: "'k \<Rightarrow> ('k, 'v) dict \<Rightarrow> ('k, 'v) dict" where
  "dict_pop \<equiv> AList.delete"

abbreviation dict_keys :: "('k, 'v) dict \<Rightarrow> 'k list" where
  "dict_keys d \<equiv> map fst d"

lemma dict_get_set [simp, dict_simps]:
  "map_of (dict_set k v d) k' = (if k' = k then Some v else map_of d k')"
  by (simp add: update_conv)

lemma dict_get_pop [simp, dict_simps]:
  "map_of (dict_pop k d) k' = (if k' = k then None else map_of d k')"
  by (simp add: delete_conv)

lemma dict_keys_set [dict_simps]: "set (dict_keys (dict_set k v d)) = insert k (set (dict_keys d))"
  by (induction d) auto

lemma distinct_keys_set: "distinct (dict_keys d) \<Longrightarrow> distinct (dict_keys (dict_set k v d))"
  by (rule distinct_update)

lemma distinct_keys_pop: "distinct (dict_keys d) \<Longrightarrow> distinct (dict_keys (dict_pop k d))"
  by (rule distinct_delete)

lemma dict_set_new: "k \<notin> set (dict_keys d) \<Longrightarrow> dict_set k v d = d @ [(k, v)]"
  by (induction d) auto

lemma length_dict_set:
  "length (dict_set k v d) = (if k \<in> set (dict_keys d) then length d else Suc (length d))"
  by (induction d) auto

text \<open>The store interface that every dictionary-backed component offers its client.\<close>

locale key_store =
  fixes get :: "'s \<Rightarrow> 'k \<Rightarrow> 'v option"
    and put :: "'k \<Rightarrow> 'v \<Rightarrow> 's \<Rightarrow> 's"
  assumes get_put: "get (put k v s) k' = (if k' = k then Some v else get s k')"
begin

lemma get_put_same: "get (put k v s) k = Some v"
  by (simp add: get_put)

lemma get_put_other: "k' \<noteq> k \<Longrightarrow> get (put k v s) k' = get s k'"
  by (simp add: get_put)

lemma put_mono: "get s k = None \<Longrightarrow> get s k' = Some w \<Longrightarrow> get (put k v s) k' = Some w"
  by (auto simp: get_put)

end

interpretation dict_store: key_store "map_of :: ('k, 'v) dict \<Rightarrow> 'k \<Rightarrow> 'v option" dict_set
  by unfold_locales simp

subsection \<open>Sorting\<close>

text \<open>\<open>sorted(set(xs))\<close>.\<close>

definition sorted_set :: "'a::linorder list \<Rightarrow> 'a list" where
  "sorted_set xs = sort (remdups xs)"

lemma sorted_set_simps [simp]:
  "set (sorted_set xs) = set xs" "sorted (sorted_set xs)" "distinct (sorted_set xs)"
  by (simp_all add: sorted_set_def)

lemma sorted_set_cong: "set xs = set ys \<Longrightarrow> sorted_set xs = sorted_set ys"
  by (metis finite_set sorted_list_of_set_sort_remdups sorted_set_def)

lemma sorted_set_eq_iff: "sorted_set xs = xs \<longleftrightarrow> sorted xs \<and> distinct xs"
  by (metis distinct_remdups_id sorted_set_def sorted_set_simps(2,3) sorted_sort_id)

lemma sorted_set_idem [simp]: "sorted_set (sorted_set xs) = sorted_set xs"
  by (simp add: sorted_set_eq_iff)

text \<open>A stable sort by a key that is injective on the list forgets the list's order.\<close>

lemma sort_key_permI:
  assumes "mset xs = mset ys" and "inj_on f (set xs)"
  shows "sort_key f xs = sort_key f ys"
proof (rule properties_for_sort_key)
  show "mset (sort_key f ys) = mset xs" using assms(1) by simp
  show "\<And>k. k \<in> set (sort_key f ys) \<Longrightarrow> filter (\<lambda>x. f k = f x) (sort_key f ys) = filter (\<lambda>x. f k = f x) xs"
  proof -
    fix k
    assume k: "k \<in> set (sort_key f ys)"
    have set_eq: "set xs = set ys" using assms(1) by (metis set_mset_mset)
    have eq_k: "(\<lambda>x. x \<in> set zs \<and> f k = f x) = (\<lambda>x. x \<in> set zs \<and> x = k)" if "set zs = set xs" for zs
      using assms(2) k set_eq that by (auto simp: inj_on_def)
    have flt: "filter (\<lambda>x. f k = f x) zs = filter (\<lambda>x. x = k) zs" if "set zs = set xs" for zs
      using fun_cong [OF eq_k [OF that]] by (auto intro: filter_cong)
    have cnt: "filter (\<lambda>x. x = k) zs = replicate (count (mset zs) k) k" for zs
      by (induction zs) auto
    show "filter (\<lambda>x. f k = f x) (sort_key f ys) = filter (\<lambda>x. f k = f x) xs"
      using assms(1) set_eq by (simp add: flt cnt)
  qed
  show "sorted (map f (sort_key f ys))" by simp
qed

lemma sort_key_map: "sort_key f (map g xs) = map g (sort_key (f \<circ> g) xs)"
proof -
  have "insort_key f (g x) (map g ys) = map g (insort_key (f \<circ> g) x ys)" for x ys by (induction ys) simp_all
  then show ?thesis by (induction xs) simp_all
qed

lemma sorted_le_last: "sorted xs \<Longrightarrow> x \<in> set xs \<Longrightarrow> x \<le> last xs"
  by (induction xs) auto

lemma distinct_map_sort_key [simp]: "distinct (map g (sort_key f xs)) \<longleftrightarrow> distinct (map g xs)"
  by (rule mset_eq_imp_distinct_iff) simp

lemma map_fst_map_prod [simp]: "map fst (map (map_prod id f) kvs) = map fst kvs"
  by (induction kvs) auto

lemma map_of_sort_key [dict_simps]:
  "distinct (map fst kvs) \<Longrightarrow> map_of (sort_key f kvs) = map_of kvs"
  by (subst map_of_inject_set) simp_all

lemma map_of_map_prod [dict_simps]:
  "map_of (map (map_prod id f) kvs) k = map_option f (map_of kvs k)"
  by (induction kvs) auto

subsection \<open>Consecutive numbering\<close>

text \<open>The numbers \<open>1, ..., n\<close> that a counter hands out.\<close>

definition numbered :: "nat \<Rightarrow> int list" where
  "numbered n = map int [1..<Suc n]"

lemma numbered_simps [simp]:
  "numbered 0 = []" "numbered (Suc n) = numbered n @ [int n + 1]" "length (numbered n) = n"
  by (simp_all add: numbered_def)

lemma numbered_distinct: "distinct (numbered n)"
  by (simp add: numbered_def distinct_map)

lemma numbered_sorted: "sorted (numbered n)"
  by (simp add: numbered_def sorted_map del: upt_Suc)

lemma foldr_max_snoc: "foldr max (xs @ [x]) (a::'a::linorder) = max x (foldr max xs a)"
  by (induction xs) (auto simp: max.left_commute)

lemma numbered_max: "foldr max (numbered n) 0 = int n"
  by (induction n) (simp_all only: numbered_simps foldr_max_snoc, simp_all)

lemma numbered_nth: "i < n \<Longrightarrow> numbered n ! i = int i + 1"
  by (simp add: numbered_def del: upt_Suc)

subsection \<open>Decimal strings\<close>

text \<open>\<open>str(n)\<close> and \<open>int(s)\<close> on non-negative integers.\<close>

definition digit_char :: "nat \<Rightarrow> char" where
  "digit_char n = char_of (48 + n)"

definition digit_val :: "char \<Rightarrow> nat" where
  "digit_val c = of_char c - 48"

definition is_digit :: "char \<Rightarrow> bool" where
  "is_digit c \<longleftrightarrow> 48 \<le> (of_char c :: nat) \<and> (of_char c :: nat) \<le> 57"

fun str_nat :: "nat \<Rightarrow> string" where
  "str_nat n = (if n < 10 then [digit_char n] else str_nat (n div 10) @ [digit_char (n mod 10)])"

declare str_nat.simps [simp del]

definition int_str :: "string \<Rightarrow> nat" where
  "int_str s = foldl (\<lambda>acc c. acc * 10 + digit_val c) 0 s"

text \<open>The regular expressions \<open>0|[1-9][0-9]*\<close> and \<open>[1-9][0-9]*\<close>.\<close>

definition canonical_pos :: "string \<Rightarrow> bool" where
  "canonical_pos s \<longleftrightarrow> s \<noteq> [] \<and> list_all is_digit s \<and> hd s \<noteq> CHR ''0''"

definition canonical_uint :: "string \<Rightarrow> bool" where
  "canonical_uint s \<longleftrightarrow> s = ''0'' \<or> canonical_pos s"

lemma digit_val_char: "n < 10 \<Longrightarrow> digit_val (digit_char n) = n"
  by (simp add: digit_val_def digit_char_def)

lemma is_digit_char: "n < 10 \<Longrightarrow> is_digit (digit_char n)"
  by (simp add: is_digit_def digit_char_def)

lemma int_str_snoc: "int_str (s @ [c]) = int_str s * 10 + digit_val c"
  by (simp add: int_str_def)

lemma int_str_nat [simp]: "int_str (str_nat n) = n"
proof (induction n rule: str_nat.induct)
  case (1 n)
  show ?case
  proof (cases "n < 10")
    case True
    then show ?thesis by (subst str_nat.simps) (simp add: int_str_def digit_val_char)
  next
    case False
    with 1 show ?thesis
      by (subst str_nat.simps) (simp add: int_str_snoc digit_val_char)
  qed
qed

lemma str_nat_inject [simp]: "str_nat m = str_nat n \<longleftrightarrow> m = n"
  by (metis int_str_nat)

lemma str_nat_nonempty [simp]: "str_nat n \<noteq> []"
  by (subst str_nat.simps) simp

lemma str_nat_digits: "list_all is_digit (str_nat n)"
proof (induction n rule: str_nat.induct)
  case (1 n)
  then show ?case by (subst str_nat.simps) (auto simp: is_digit_char)
qed

lemma str_nat_hd: "0 < n \<Longrightarrow> hd (str_nat n) \<noteq> CHR ''0''"
proof (induction n rule: str_nat.induct)
  case (1 n)
  show ?case
  proof (cases "n < 10")
    case True
    with "1.prems" have "(of_char (digit_char n) :: nat) \<noteq> of_char CHR ''0''"
      by (simp add: digit_char_def)
    with True show ?thesis by (subst str_nat.simps) auto
  next
    case False
    with 1 show ?thesis by (subst str_nat.simps) simp
  qed
qed

lemma canonical_pos_str_nat: "0 < n \<Longrightarrow> canonical_pos (str_nat n)"
  by (simp add: canonical_pos_def str_nat_digits str_nat_hd)

lemma digit_char_0: "digit_char 0 = CHR ''0''"
  unfolding digit_char_def by code_simp

lemma str_nat_0 [simp]: "str_nat 0 = ''0''"
  by (subst str_nat.simps) (simp add: digit_char_0)

lemma canonical_uint_str_nat: "canonical_uint (str_nat n)"
  by (cases "n = 0") (auto simp: canonical_uint_def canonical_pos_str_nat)

text \<open>A canonical numeral is the numeral of its value, so the value determines it.\<close>

lemma digit_char_val: "is_digit c \<Longrightarrow> digit_char (digit_val c) = c \<and> digit_val c < 10"
  by (auto simp: is_digit_def digit_char_def digit_val_def)

lemma canonical_pos_pos: "canonical_pos s \<Longrightarrow> 0 < int_str s"
proof (induction s rule: rev_induct)
  case (snoc c s)
  show ?case
  proof (cases "s = []")
    case True
    with snoc.prems have "is_digit c" "c \<noteq> CHR ''0''" by (auto simp: canonical_pos_def)
    then have "digit_val c \<noteq> 0" using digit_char_val [of c] digit_char_0 by metis
    with True show ?thesis by (simp add: int_str_def)
  next
    case False
    with snoc have "0 < int_str s" by (simp add: canonical_pos_def)
    then show ?thesis by (simp add: int_str_snoc)
  qed
qed (simp add: canonical_pos_def)

lemma str_int_canonical: "canonical_pos s \<Longrightarrow> str_nat (int_str s) = s"
proof (induction s rule: rev_induct)
  case (snoc c s)
  have d: "digit_char (digit_val c) = c" "digit_val c < 10"
    using snoc.prems digit_char_val by (auto simp: canonical_pos_def)
  show ?case
  proof (cases "s = []")
    case True
    with d show ?thesis by (simp add: int_str_def str_nat.simps)
  next
    case False
    with snoc have s: "canonical_pos s" by (simp add: canonical_pos_def)
    with canonical_pos_pos have "\<not> int_str s * 10 + digit_val c < 10" by fastforce
    with s snoc.IH d show ?thesis
      by (subst str_nat.simps) (simp add: int_str_snoc)
  qed
qed (simp add: canonical_pos_def)

lemma canonical_pos_inject: "canonical_pos s \<Longrightarrow> canonical_pos t \<Longrightarrow> int_str s = int_str t \<Longrightarrow> s = t"
  by (metis str_int_canonical)

subsection \<open>Hexadecimal digests\<close>

definition hex_digit :: "nat \<Rightarrow> char" where
  "hex_digit n = (if n < 10 then char_of (48 + n) else char_of (87 + n))"

definition hex_byte :: "char \<Rightarrow> string" where
  "hex_byte c = [hex_digit (of_char c div 16), hex_digit (of_char c mod 16)]"

text \<open>\<open>bytes.hex()\<close>, and \<open>hexdigest()\<close> of a digest.\<close>

definition hex :: "bytes \<Rightarrow> string" where
  "hex bs = concat (map hex_byte bs)"

lemma hex_digit_inject: "m < 16 \<Longrightarrow> n < 16 \<Longrightarrow> hex_digit m = hex_digit n \<longleftrightarrow> m = n"
proof -
  assume lt: "m < 16" "n < 16"
  have v: "(of_char (hex_digit k) :: nat) = (if k < 10 then 48 + k else 87 + k)" if "k < 16" for k
    using that by (auto simp: hex_digit_def)
  show ?thesis
  proof
    assume "hex_digit m = hex_digit n"
    then have "(of_char (hex_digit m) :: nat) = of_char (hex_digit n)" by simp
    with lt show "m = n" by (auto simp: v split: if_splits)
  qed simp
qed

lemma hex_byte_inject: "hex_byte c = hex_byte d \<longleftrightarrow> c = d"
proof
  assume eq: "hex_byte c = hex_byte d"
  have b: "(of_char c :: nat) < 256" "(of_char d :: nat) < 256"
    by simp_all
  then have "(of_char c :: nat) div 16 < 16" "(of_char d :: nat) div 16 < 16" by linarith+
  with eq have "(of_char c :: nat) div 16 = of_char d div 16" "(of_char c :: nat) mod 16 = of_char d mod 16"
    by (auto simp: hex_byte_def hex_digit_inject)
  then have "(of_char c :: nat) = of_char d" by (metis div_mult_mod_eq)
  then show "c = d" by simp
qed simp

lemma hex_simps [simp]: "hex [] = []" "hex (x # xs) = hex_byte x @ hex xs"
  by (simp_all add: hex_def)

lemma hex_byte_length [simp]: "length (hex_byte c) = 2"
  by (simp add: hex_byte_def)

lemma hex_inject [simp]: "hex xs = hex ys \<longleftrightarrow> xs = ys"
proof (induction xs arbitrary: ys)
  case Nil
  then show ?case by (cases ys) (simp_all add: hex_byte_def)
next
  case (Cons x xs)
  then show ?case
    by (cases ys) (simp_all add: hex_byte_inject, simp add: hex_byte_def)
qed

text \<open>The check \<open>[0-9a-f]{64}\<close>.\<close>

definition is_hex_char :: "char \<Rightarrow> bool" where
  "is_hex_char c \<longleftrightarrow> is_digit c \<or> (97 \<le> (of_char c :: nat) \<and> (of_char c :: nat) \<le> 102)"

definition is_hex64 :: "string \<Rightarrow> bool" where
  "is_hex64 s \<longleftrightarrow> length s = 64 \<and> list_all is_hex_char s"

lemma hex_digit_is_hex: "n < 16 \<Longrightarrow> is_hex_char (hex_digit n)"
  by (auto simp: is_hex_char_def hex_digit_def is_digit_def)

lemma hex_is_hex: "list_all is_hex_char (hex bs)"
proof (induction bs)
  case Nil
  then show ?case by simp
next
  case (Cons b bs)
  have "(of_char b :: nat) < 256" by simp
  then have "(of_char b :: nat) div 16 < 16" by linarith
  with Cons show ?case by (simp add: hex_byte_def hex_digit_is_hex)
qed

lemma length_hex [simp]: "length (hex bs) = 2 * length bs"
  by (induction bs) simp_all

subsection \<open>Text\<close>

text \<open>\<open>s.replace(old, new)\<close> for a non-empty \<open>old\<close>: left to right, without overlap.\<close>

function str_replace :: "string \<Rightarrow> string \<Rightarrow> string \<Rightarrow> string" where
  "str_replace old new s =
     (if s = [] then []
      else if old \<noteq> [] \<and> take (length old) s = old then new @ str_replace old new (drop (length old) s)
      else hd s # str_replace old new (tl s))"
  by pat_completeness auto
termination
  by (relation "measure (\<lambda>(old, new, s). length s)") auto

declare str_replace.simps [simp del]

text \<open>Replacing one character is a substitution.\<close>

lemma str_replace_char: "str_replace [c] new s = concat (map (\<lambda>x. if x = c then new else [x]) s)"
proof (induction s)
  case Nil
  then show ?case by (simp add: str_replace.simps)
next
  case (Cons x s)
  then show ?case by (subst str_replace.simps) simp
qed

text \<open>Strict UTF-8, as \<open>bytes.decode("utf-8")\<close> accepts it: no overlong forms, no surrogates, at most U+10FFFF.\<close>

abbreviation cont_byte :: "nat \<Rightarrow> bool" where
  "cont_byte n \<equiv> 128 \<le> n \<and> n < 192"

fun utf8_ok :: "nat list \<Rightarrow> bool" where
  "utf8_ok [] = True"
| "utf8_ok (a # s) =
     (if a < 128 then utf8_ok s
      else case s of
        [] \<Rightarrow> False
      | b # s1 \<Rightarrow>
          if 194 \<le> a \<and> a < 224 then cont_byte b \<and> utf8_ok s1
          else case s1 of
            [] \<Rightarrow> False
          | c # s2 \<Rightarrow>
              if 224 \<le> a \<and> a < 240
              then cont_byte b \<and> cont_byte c \<and> (a = 224 \<longrightarrow> 160 \<le> b) \<and> (a = 237 \<longrightarrow> b < 160) \<and> utf8_ok s2
              else case s2 of
                [] \<Rightarrow> False
              | d # s3 \<Rightarrow>
                  240 \<le> a \<and> a < 245 \<and> cont_byte b \<and> cont_byte c \<and> cont_byte d \<and>
                  (a = 240 \<longrightarrow> 144 \<le> b) \<and> (a = 244 \<longrightarrow> b < 144) \<and> utf8_ok s3)"

definition decode_utf8 :: "bytes \<Rightarrow> string res" where
  "decode_utf8 b = (if utf8_ok (map of_char b) then Inr b else Inl UnicodeDecodeError)"

lemma utf8_ok_ascii: "list_all (\<lambda>n. n < 128) ns \<Longrightarrow> utf8_ok ns"
  by (induction ns) simp_all

end
