(* ===== verification/Json.thy ===== *)
theory Json
  imports Prelude
begin

text \<open>
  What the program uses of Python's \<open>json\<close> module: the value type, \<open>json.dumps\<close> with
  \<open>ensure_ascii=False, separators=(",", ":")\<close> and with or without \<open>sort_keys\<close>, and
  \<open>json.loads\<close>. The main result is that a text written by \<open>dumps\<close> with sorted keys reads
  back as the same document with sorted keys, for every document without numbers and without
  repeated keys; so the serialisation is injective on such documents up to the order of keys.
  Numbers are kept as their literal text: the program forbids them in canonical payloads.
\<close>

datatype json =
    JNull
  | JBool bool
  | JStr string
  | JNum string
  | JList "json list"
  | JObj "(string \<times> json) list"

subsection \<open>dumps\<close>

text \<open>\<open>ESCAPE_DCT\<close> of the standard encoder: quote, backslash and the control characters.\<close>

definition esc_char :: "char \<Rightarrow> string" where
  "esc_char c =
     (if c = CHR 0x22 then [CHR 0x5C, CHR 0x22]
      else if c = CHR 0x5C then [CHR 0x5C, CHR 0x5C]
      else if c = CHR 0x0A then [CHR 0x5C, CHR ''n'']
      else if c = CHR 0x0D then [CHR 0x5C, CHR ''r'']
      else if c = CHR 0x09 then [CHR 0x5C, CHR ''t'']
      else if c = CHR 0x0C then [CHR 0x5C, CHR ''f'']
      else if c = CHR 0x08 then [CHR 0x5C, CHR ''b'']
      else if (of_char c :: nat) < 32 then CHR 0x5C # CHR ''u'' # CHR ''0'' # CHR ''0'' # hex_byte c
      else [c])"

definition quote :: "string \<Rightarrow> string" where
  "quote s = CHR 0x22 # concat (map esc_char s) @ [CHR 0x22]"

fun join :: "string \<Rightarrow> string list \<Rightarrow> string" where
  "join sep [] = []"
| "join sep [x] = x"
| "join sep (x # y # zs) = x @ sep @ join sep (y # zs)"

primrec dumps :: "json \<Rightarrow> string" where
  "dumps JNull = ''null''"
| "dumps (JBool b) = (if b then ''true'' else ''false'')"
| "dumps (JStr s) = quote s"
| "dumps (JNum n) = n"
| "dumps (JList xs) = ''['' @ join '','' (map dumps xs) @ '']''"
| "dumps (JObj kvs) =
     ''{'' @ join '','' (map (\<lambda>(k, t). quote k @ '':'' @ t) (map (map_prod id dumps) kvs)) @ ''}''"

primrec sort_keys :: "json \<Rightarrow> json" where
  "sort_keys JNull = JNull"
| "sort_keys (JBool b) = JBool b"
| "sort_keys (JStr s) = JStr s"
| "sort_keys (JNum n) = JNum n"
| "sort_keys (JList xs) = JList (map sort_keys xs)"
| "sort_keys (JObj kvs) = JObj (sort_key fst (map (map_prod id sort_keys) kvs))"

definition dumps_sorted :: "json \<Rightarrow> string" where
  "dumps_sorted v = dumps (sort_keys v)"

subsection \<open>loads\<close>

definition is_ws :: "char \<Rightarrow> bool" where
  "is_ws c \<longleftrightarrow> c = CHR 0x20 \<or> c = CHR 0x09 \<or> c = CHR 0x0A \<or> c = CHR 0x0D"

definition skip_ws :: "string \<Rightarrow> string" where
  "skip_ws s = dropWhile is_ws s"

definition hex_val :: "char \<Rightarrow> nat option" where
  "hex_val c =
     (let n = of_char c :: nat
      in if 48 \<le> n \<and> n \<le> 57 then Some (n - 48)
         else if 97 \<le> n \<and> n \<le> 102 then Some (n - 87)
         else if 65 \<le> n \<and> n \<le> 70 then Some (n - 55)
         else None)"

fun hex4 :: "string \<Rightarrow> (nat \<times> string) option" where
  "hex4 (a # b # c # d # rest) =
     (case (hex_val a, hex_val b, hex_val c, hex_val d) of
        (Some a', Some b', Some c', Some d') \<Rightarrow> Some (((a' * 16 + b') * 16 + c') * 16 + d', rest)
      | _ \<Rightarrow> None)"
| "hex4 _ = None"

text \<open>UTF-8 of a code point; a lone surrogate takes the three-byte form.\<close>

definition utf8 :: "nat \<Rightarrow> string" where
  "utf8 n =
     (if n < 128 then [char_of n]
      else if n < 2048 then [char_of (192 + n div 64), char_of (128 + n mod 64)]
      else if n < 65536 then
        [char_of (224 + n div 4096), char_of (128 + n div 64 mod 64), char_of (128 + n mod 64)]
      else
        [char_of (240 + n div 262144), char_of (128 + n div 4096 mod 64),
         char_of (128 + n div 64 mod 64), char_of (128 + n mod 64)])"

text \<open>The \<open>\\uXXXX\<close> escape, with a high surrogate joined to a following low one.\<close>

definition scan_u :: "string \<Rightarrow> (string \<times> string) option" where
  "scan_u s =
     (case hex4 s of
        None \<Rightarrow> None
      | Some (u, rest) \<Rightarrow>
          if 55296 \<le> u \<and> u \<le> 56319 \<and> take 2 rest = [CHR 0x5C, CHR ''u''] then
            (case hex4 (drop 2 rest) of
               None \<Rightarrow> None
             | Some (u2, rest2) \<Rightarrow>
                 if 56320 \<le> u2 \<and> u2 \<le> 57343
                 then Some (utf8 (65536 + (u - 55296) * 1024 + (u2 - 56320)), rest2)
                 else Some (utf8 u, rest))
          else Some (utf8 u, rest))"

definition scan_escape :: "char \<Rightarrow> char option" where
  "scan_escape c =
     (if c = CHR 0x22 then Some CHR 0x22
      else if c = CHR 0x5C then Some CHR 0x5C
      else if c = CHR ''/'' then Some CHR ''/''
      else if c = CHR ''b'' then Some CHR 0x08
      else if c = CHR ''f'' then Some CHR 0x0C
      else if c = CHR ''n'' then Some CHR 0x0A
      else if c = CHR ''r'' then Some CHR 0x0D
      else if c = CHR ''t'' then Some CHR 0x09
      else None)"

lemma hex4_length: "hex4 s = Some (u, rest) \<Longrightarrow> length rest < length s"
  by (induction s rule: hex4.induct) (auto split: option.splits)

lemma scan_u_length: "scan_u s = Some (t, rest) \<Longrightarrow> length rest < length s"
  by (auto simp: scan_u_def split: option.splits if_splits dest!: hex4_length)

text \<open>\<open>scanstring\<close> after the opening quote, strict: a control character is an error.\<close>

function scan_str :: "string \<Rightarrow> (string \<times> string) option" where
  "scan_str s =
     (case s of
        [] \<Rightarrow> None
      | c # cs \<Rightarrow>
          if c = CHR 0x22 then Some ([], cs)
          else if c = CHR 0x5C then
            (case cs of
               [] \<Rightarrow> None
             | e # es \<Rightarrow>
                 if e = CHR ''u'' then
                   (case scan_u es of
                      None \<Rightarrow> None
                    | Some (t, rest) \<Rightarrow> map_option (map_prod ((@) t) id) (scan_str rest))
                 else
                   (case scan_escape e of
                      None \<Rightarrow> None
                    | Some d \<Rightarrow> map_option (map_prod ((#) d) id) (scan_str es)))
          else if (of_char c :: nat) < 32 then None
          else map_option (map_prod ((#) c) id) (scan_str cs))"
  by pat_completeness auto
termination
  by (relation "measure length") (auto dest: scan_u_length)

declare scan_str.simps [simp del]

definition num_char :: "char \<Rightarrow> bool" where
  "num_char c \<longleftrightarrow> is_digit c \<or> c \<in> set ''+-.eE''"

definition digits1 :: "string \<Rightarrow> bool" where
  "digits1 s \<longleftrightarrow> s \<noteq> [] \<and> list_all is_digit s"

text \<open>\<open>(-?(?:0|[1-9]\d*))(\.\d+)?([eE][-+]?\d+)?\<close> on a whole token.\<close>

definition is_number :: "string \<Rightarrow> bool" where
  "is_number s =
     (let t = (case s of c # cs \<Rightarrow> if c = CHR ''-'' then cs else s | [] \<Rightarrow> []);
          ip = takeWhile is_digit t; r = dropWhile is_digit t;
          frac = (case r of c # cs \<Rightarrow> c = CHR ''.'' | [] \<Rightarrow> False);
          fp = (if frac then takeWhile is_digit (tl r) else []);
          r2 = (if frac then dropWhile is_digit (tl r) else r)
      in canonical_uint ip \<and> (frac \<longrightarrow> fp \<noteq> []) \<and>
         (case r2 of
            [] \<Rightarrow> True
          | e # es \<Rightarrow> e \<in> set ''eE'' \<and>
              (case es of
                 [] \<Rightarrow> False
               | sg # ds \<Rightarrow> if sg \<in> set ''+-'' then digits1 ds else digits1 es)))"

definition scan_literal :: "string \<Rightarrow> (json \<times> string) option" where
  "scan_literal s =
     (if take 4 s = ''null'' then Some (JNull, drop 4 s)
      else if take 4 s = ''true'' then Some (JBool True, drop 4 s)
      else if take 5 s = ''false'' then Some (JBool False, drop 5 s)
      else if take 3 s = ''NaN'' then Some (JNum ''NaN'', drop 3 s)
      else if take 8 s = ''Infinity'' then Some (JNum ''Infinity'', drop 8 s)
      else if take 9 s = ''-Infinity'' then Some (JNum ''-Infinity'', drop 9 s)
      else
        (let n = takeWhile num_char s
         in if is_number n then Some (JNum n, drop (length n) s) else None))"

text \<open>
  \<open>scan_once\<close>, \<open>JSONArray\<close> and \<open>JSONObject\<close> of the standard decoder. The nesting and the
  loops are bounded by a fuel argument; \<open>loads\<close> supplies more than the text can use, since each
  call but one in two consumes a character.
\<close>

fun scan_value :: "nat \<Rightarrow> string \<Rightarrow> (json \<times> string) option"
  and scan_items :: "nat \<Rightarrow> string \<Rightarrow> (json list \<times> string) option"
  and scan_members :: "nat \<Rightarrow> string \<Rightarrow> ((string, json) dict \<times> string) option" where
  "scan_value 0 s = None"
| "scan_value (Suc n) s =
     (case s of
        [] \<Rightarrow> None
      | c # cs \<Rightarrow>
          if c = CHR 0x22 then map_option (map_prod JStr id) (scan_str cs)
          else if c = CHR ''['' then
            (case skip_ws cs of
               [] \<Rightarrow> None
             | d # ds \<Rightarrow> if d = CHR '']'' then Some (JList [], ds)
                         else map_option (map_prod JList id) (scan_items n (d # ds)))
          else if c = CHR ''{'' then
            (case skip_ws cs of
               [] \<Rightarrow> None
             | d # ds \<Rightarrow> if d = CHR ''}'' then Some (JObj [], ds)
                         else map_option (map_prod (\<lambda>kvs. JObj (fold (\<lambda>(k, v). dict_set k v) kvs [])) id)
                                (scan_members n (d # ds)))
          else scan_literal s)"
| "scan_items 0 s = None"
| "scan_items (Suc n) s =
     (case scan_value n s of
        None \<Rightarrow> None
      | Some (v, r) \<Rightarrow>
          (case skip_ws r of
             [] \<Rightarrow> None
           | c # cs \<Rightarrow>
               if c = CHR '']'' then Some ([v], cs)
               else if c = CHR '','' then map_option (map_prod ((#) v) id) (scan_items n (skip_ws cs))
               else None))"
| "scan_members 0 s = None"
| "scan_members (Suc n) s =
     (case s of
        [] \<Rightarrow> None
      | q # qs \<Rightarrow>
          if q \<noteq> CHR 0x22 then None
          else
            (case scan_str qs of
               None \<Rightarrow> None
             | Some (k, r) \<Rightarrow>
                 (case skip_ws r of
                    [] \<Rightarrow> None
                  | col # cs \<Rightarrow>
                      if col \<noteq> CHR '':'' then None
                      else
                        (case scan_value n (skip_ws cs) of
                           None \<Rightarrow> None
                         | Some (v, r2) \<Rightarrow>
                             (case skip_ws r2 of
                                [] \<Rightarrow> None
                              | d # ds \<Rightarrow>
                                  if d = CHR ''}'' then Some ([(k, v)], ds)
                                  else if d = CHR '','' then
                                    map_option (map_prod ((#) (k, v)) id) (scan_members n (skip_ws ds))
                                  else None)))))"

definition loads :: "string \<Rightarrow> json option" where
  "loads s =
     (case scan_value (2 * length s + 2) (skip_ws s) of
        None \<Rightarrow> None
      | Some (v, r) \<Rightarrow> if skip_ws r = [] then Some v else None)"

subsection \<open>Reading back what dumps wrote\<close>

text \<open>The documents the canonical form admits: no number, no repeated key.\<close>

primrec jwf :: "json \<Rightarrow> bool" where
  "jwf JNull = True"
| "jwf (JBool b) = True"
| "jwf (JStr s) = True"
| "jwf (JNum n) = False"
| "jwf (JList xs) = list_all id (map jwf xs)"
| "jwf (JObj kvs) = (distinct (map fst kvs) \<and> list_all snd (map (map_prod id jwf) kvs))"

lemma jwf_JList [simp]: "jwf (JList xs) \<longleftrightarrow> (\<forall>x\<in>set xs. jwf x)"
  by (auto simp: list_all_iff)

lemma jwf_JObj [simp]: "jwf (JObj kvs) \<longleftrightarrow> distinct (map fst kvs) \<and> (\<forall>(k, v)\<in>set kvs. jwf v)"
  by (auto simp: list_all_iff split_beta)

declare jwf.simps(5,6) [simp del]

lemma skip_ws_simps [simp]:
  "skip_ws [] = []" "\<not> is_ws c \<Longrightarrow> skip_ws (c # cs) = c # cs"
  by (simp_all add: skip_ws_def)

lemma not_ws [simp]:
  "\<not> is_ws CHR '',''" "\<not> is_ws CHR '':''" "\<not> is_ws CHR '']''" "\<not> is_ws CHR ''}''"
  "\<not> is_ws CHR ''[''" "\<not> is_ws CHR ''{''" "\<not> is_ws CHR 0x22"
  "\<not> is_ws CHR ''n''" "\<not> is_ws CHR ''t''" "\<not> is_ws CHR ''f''"
  by (simp_all add: is_ws_def)

lemma hex_val_hex_digit: "n < 16 \<Longrightarrow> hex_val (hex_digit n) = Some n"
  by (auto simp: hex_val_def hex_digit_def Let_def)

lemma hex4_control:
  assumes "(of_char c :: nat) < 32"
  shows "hex4 (CHR ''0'' # CHR ''0'' # hex_byte c @ r) = Some (of_char c, r)"
proof -
  have h0: "hex_val CHR ''0'' = Some 0" by (simp add: hex_val_def)
  have "(of_char c :: nat) div 16 < 16" "(of_char c :: nat) mod 16 < 16" using assms by linarith+
  then show ?thesis by (simp add: hex_byte_def h0 hex_val_hex_digit)
qed

lemma scan_str_esc_char:
  "scan_str (esc_char c @ r) = map_option (map_prod ((#) c) id) (scan_str r)"
proof (cases "c \<in> {CHR 0x22, CHR 0x5C, CHR 0x0A, CHR 0x0D, CHR 0x09, CHR 0x0C, CHR 0x08}")
  case True
  then show ?thesis
    by (subst scan_str.simps) (auto simp: esc_char_def scan_escape_def)
next
  case False
  show ?thesis
  proof (cases "(of_char c :: nat) < 32")
    case True
    have "scan_u (CHR ''0'' # CHR ''0'' # hex_byte c @ r) = Some ([c], r)"
      using True by (simp add: scan_u_def hex4_control utf8_def)
    moreover have "(@) [c] = (#) c" by (rule ext) simp
    ultimately show ?thesis using False True
      by (subst scan_str.simps) (simp add: esc_char_def)
  next
    case f: False
    with False show ?thesis by (subst scan_str.simps) (simp add: esc_char_def)
  qed
qed

lemma scan_str_quote: "scan_str (concat (map esc_char s) @ CHR 0x22 # r) = Some (s, r)"
proof (induction s)
  case Nil
  show ?case by (subst scan_str.simps) simp
next
  case (Cons c s)
  then show ?case by (simp add: scan_str_esc_char)
qed

lemma dumps_nonempty: "jwf v \<Longrightarrow> \<exists>c cs. dumps v = c # cs \<and> \<not> is_ws c \<and> c \<noteq> CHR '']'' \<and> c \<noteq> CHR ''}''"
  by (cases v) (auto simp: quote_def)

lemma join_Cons:
  "join sep (x # xs) = x @ (if xs = [] then [] else sep @ join sep xs)"
  by (cases xs) auto

abbreviation dumps_member :: "string \<times> json \<Rightarrow> string" where
  "dumps_member kv \<equiv> quote (fst kv) @ '':'' @ dumps (snd kv)"

lemma dumps_JObj:
  "dumps (JObj kvs) = ''{'' @ join '','' (map dumps_member kvs) @ ''}''"
  by (simp add: comp_def split_beta)

text \<open>
  The array and object loops, given that every element reads back: the text of the loop is the
  joined elements, and fuel beyond its length is enough.
\<close>

lemma scan_items_dumps:
  assumes "\<And>x n r. x \<in> set xs \<Longrightarrow> length (dumps x) \<le> n \<Longrightarrow> scan_value n (dumps x @ r) = Some (x, r)"
    and "\<And>x. x \<in> set xs \<Longrightarrow> jwf x" and "xs \<noteq> []"
    and "length (join '','' (map dumps xs)) < n"
  shows "scan_items n (join '','' (map dumps xs) @ CHR '']'' # r) = Some (xs, r)"
  using assms
proof (induction xs arbitrary: n)
  case Nil
  then show ?case by simp
next
  case (Cons x xs)
  from Cons.prems(4) obtain m where n: "n = Suc m" by (cases n) auto
  have x: "\<And>r. scan_value m (dumps x @ r) = Some (x, r)"
    using Cons.prems(1) [of x m] Cons.prems(4) n by (auto simp: join_Cons split: if_splits)
  show ?case
  proof (cases "xs = []")
    case True
    with x n show ?thesis by simp
  next
    case False
    then obtain y ys where ys: "xs = y # ys" by (cases xs) auto
    then obtain c cs where d: "dumps y = c # cs" "\<not> is_ws c"
      using Cons.prems(2) dumps_nonempty [of y] by auto
    from Cons.prems(4) n False have len: "length (join '','' (map dumps xs)) < m"
      by (auto simp: join_Cons)
    have "scan_items m (join '','' (map dumps xs) @ CHR '']'' # r) = Some (xs, r)"
      using Cons.IH [OF _ _ False len] Cons.prems(1,2) by auto
    moreover have "skip_ws (join '','' (map dumps xs) @ CHR '']'' # r) = join '','' (map dumps xs) @ CHR '']'' # r"
      using d by (simp add: ys join_Cons)
    ultimately show ?thesis using x n False by (simp add: join_Cons)
  qed
qed

lemma scan_members_dumps:
  assumes "\<And>k x n r. (k, x) \<in> set kvs \<Longrightarrow> length (dumps x) \<le> n \<Longrightarrow> scan_value n (dumps x @ r) = Some (x, r)"
    and "\<And>k x. (k, x) \<in> set kvs \<Longrightarrow> jwf x" and "kvs \<noteq> []"
    and "length (join '','' (map dumps_member kvs)) < n"
  shows "scan_members n (join '','' (map dumps_member kvs) @ CHR ''}'' # r) = Some (kvs, r)"
  using assms
proof (induction kvs arbitrary: n)
  case Nil
  then show ?case by simp
next
  case (Cons kv kvs)
  obtain k x where kv: "kv = (k, x)" by (cases kv)
  from Cons.prems(4) obtain m where n: "n = Suc m" by (cases n) auto
  have x: "\<And>r. scan_value m (dumps x @ r) = Some (x, r)"
    using Cons.prems(1) [of k x m] Cons.prems(4) n kv by (auto simp: join_Cons split: if_splits)
  obtain c cs where d: "dumps x = c # cs" "\<not> is_ws c"
    using Cons.prems(2) [of k x] dumps_nonempty [of x] kv by auto
  then have ws: "\<And>r. skip_ws (dumps x @ r) = dumps x @ r" by simp
  have q: "\<And>t. scan_str (concat (map esc_char k) @ CHR 0x22 # t) = Some (k, t)"
    by (rule scan_str_quote)
  show ?case
  proof (cases "kvs = []")
    case True
    with x n kv q ws show ?thesis by (simp add: quote_def)
  next
    case False
    then obtain k' y ys where ys: "kvs = (k', y) # ys" by (cases kvs) auto
    from Cons.prems(4) n False have len: "length (join '','' (map dumps_member kvs)) < m"
      by (auto simp: join_Cons)
    have "scan_members m (join '','' (map dumps_member kvs) @ CHR ''}'' # r) = Some (kvs, r)"
    proof (rule Cons.IH [OF _ _ False len])
      show "scan_value n (dumps x @ r) = Some (x, r)"
        if "(k, x) \<in> set kvs" "length (dumps x) \<le> n" for k x n r
        using Cons.prems(1) [of k x n r] that by simp
      show "jwf x" if "(k, x) \<in> set kvs" for k x
        using Cons.prems(2) [of k x] that by simp
    qed
    moreover have "skip_ws (join '','' (map dumps_member kvs) @ CHR ''}'' # r) = join '','' (map dumps_member kvs) @ CHR ''}'' # r"
      by (simp add: ys join_Cons quote_def)
    ultimately show ?thesis using x n False kv q ws by (simp add: join_Cons quote_def)
  qed
qed

lemma fold_dict_set_distinct:
  "distinct (map fst (d @ kvs)) \<Longrightarrow> fold (\<lambda>(k, v). dict_set k v) kvs d = d @ kvs"
  by (induction kvs arbitrary: d) (auto simp: dict_set_new)

lemma scan_value_dumps:
  "jwf v \<Longrightarrow> length (dumps v) \<le> n \<Longrightarrow> scan_value n (dumps v @ r) = Some (v, r)"
proof (induction v arbitrary: n r)
  case JNull
  then show ?case by (cases n) (simp_all add: scan_literal_def)
next
  case (JBool b)
  then show ?case by (cases n; cases b) (simp_all add: scan_literal_def)
next
  case (JStr s)
  then show ?case by (cases n) (simp_all add: quote_def scan_str_quote)
next
  case (JList xs)
  from JList.prems(2) obtain m where n: "n = Suc m" by (cases n) auto
  show ?case
  proof (cases "xs = []")
    case True
    with n show ?thesis by simp
  next
    case False
    then obtain y ys c cs where ys: "xs = y # ys" and c: "dumps y = c # cs" "\<not> is_ws c" "c \<noteq> CHR '']''"
      using JList.prems(1) dumps_nonempty by (cases xs) fastforce+
    have "scan_items m (join '','' (map dumps xs) @ CHR '']'' # r) = Some (xs, r)"
      using JList n False by (intro scan_items_dumps) auto
    with c n show ?thesis by (simp add: ys join_Cons)
  qed
next
  case (JObj kvs)
  from JObj.prems(2) obtain m where n: "n = Suc m" by (cases n) auto
  show ?case
  proof (cases "kvs = []")
    case True
    with n show ?thesis by simp
  next
    case False
    then obtain k y ys where ys: "kvs = (k, y) # ys" by (cases kvs) auto
    have IH: "scan_value n (dumps x @ r) = Some (x, r)" if "(k, x) \<in> set kvs" "length (dumps x) \<le> n" for k x n r
      using JObj.IH [OF that(1), of x n r] JObj.prems(1) that by auto
    have "scan_members m (join '','' (map dumps_member kvs) @ CHR ''}'' # r) = Some (kvs, r)"
      by (rule scan_members_dumps [OF IH]) (use JObj.prems n False in \<open>auto simp: dumps_JObj simp del: dumps.simps\<close>)
    moreover have "fold (\<lambda>(k, v). dict_set k v) kvs [] = kvs"
      using JObj.prems(1) fold_dict_set_distinct [of "[]" kvs] by simp
    ultimately show ?thesis using n
      by (simp add: dumps_JObj ys join_Cons quote_def del: dumps.simps(6))
  qed
qed simp

theorem loads_dumps: "jwf v \<Longrightarrow> loads (dumps v) = Some v"
proof -
  assume v: "jwf v"
  then obtain c cs where c: "dumps v = c # cs" "\<not> is_ws c" using dumps_nonempty by blast
  have "scan_value (2 * length (dumps v) + 2) (dumps v @ []) = Some (v, [])"
    using v by (intro scan_value_dumps) auto
  with c show ?thesis by (simp add: loads_def)
qed

subsection \<open>Sorted keys\<close>

lemma jwf_sort_keys: "jwf v \<Longrightarrow> jwf (sort_keys v)"
proof (induction v)
  case (JObj kvs)
  have "distinct (map fst (sort_key fst (map (map_prod id sort_keys) kvs)))"
    using JObj.prems by (simp add: distinct_map_sort_key del: map_map)
  with JObj show ?case by fastforce
qed auto

lemma loads_dumps_sorted: "jwf v \<Longrightarrow> loads (dumps_sorted v) = Some (sort_keys v)"
  by (simp add: dumps_sorted_def loads_dumps jwf_sort_keys)

lemma dumps_sorted_inject:
  "jwf v \<Longrightarrow> jwf w \<Longrightarrow> dumps_sorted v = dumps_sorted w \<longleftrightarrow> sort_keys v = sort_keys w"
  by (metis dumps_sorted_def loads_dumps_sorted option.inject)

lemma sort_keys_JObj_perm:
  assumes "mset kvs = mset kvs'" and "distinct (map fst kvs)"
  shows "sort_keys (JObj kvs) = sort_keys (JObj kvs')"
proof -
  have "mset (map (map_prod id sort_keys) kvs) = mset (map (map_prod id sort_keys) kvs')"
    using assms(1) by simp
  moreover have "inj_on fst (set (map (map_prod id sort_keys) kvs))"
    using assms(2) by (auto simp: inj_on_def distinct_map)
  ultimately show ?thesis by (simp add: sort_key_permI)
qed

lemma sort_keys_JObj_cong:
  "map (map_prod id sort_keys) kvs = map (map_prod id sort_keys) kvs' \<Longrightarrow>
   sort_keys (JObj kvs) = sort_keys (JObj kvs')"
  by (simp only: sort_keys.simps)

text \<open>Lookup does not see the order of the keys.\<close>

definition jget :: "json \<Rightarrow> string \<Rightarrow> json option" where
  "jget v k = (case v of JObj kvs \<Rightarrow> map_of kvs k | _ \<Rightarrow> None)"

lemma jget_sort_keys:
  "jwf v \<Longrightarrow> jget (sort_keys v) k = map_option sort_keys (jget v k)"
  by (cases v) (simp_all add: jget_def dict_simps del: map_map)

end
