(* ===== verification/Canonical.thy ===== *)
theory Canonical
  imports Json
begin

text \<open>
  \<open>canonical.py\<close>, \<open>hashing.py\<close> and the canonicalisation half of \<open>memory_core/contracts.py\<close>:
  Python values, their normalisation (NFC strings, no raw numbers, string keys without collision),
  canonical bytes, canonical hashes and the sorted-leaf Merkle root.

  Unicode normalisation, Unicode lower-casing and SHA-256 are library code: they are the fields of the
  record \<open>lib\<close> that every definition using them takes as an argument.
\<close>

record lib =
  nfc :: "string \<Rightarrow> string"
  lower :: "string \<Rightarrow> string"
  sha256 :: "bytes \<Rightarrow> bytes"

text \<open>What the code relies on: ASCII text is already in NFC.\<close>

definition nfc_ascii :: "lib \<Rightarrow> bool" where
  "nfc_ascii L \<longleftrightarrow> (\<forall>s. list_all (\<lambda>c. (of_char c :: nat) < 128) s \<longrightarrow> nfc L s = s)"

lemma nfc_asciiD: "nfc_ascii L \<Longrightarrow> list_all (\<lambda>c. (of_char c :: nat) < 128) s \<Longrightarrow> nfc L s = s"
  by (simp add: nfc_ascii_def)

datatype pyval =
    PNone
  | PBool bool
  | PInt int
  | PFloat string
  | PStr string
  | PList "pyval list"
  | PTuple "pyval list"
  | PDict "(pyval \<times> pyval) list"
  | POther string

subsection \<open>canonical.py\<close>

definition norm_str :: "lib \<Rightarrow> string \<Rightarrow> string" where
  "norm_str L s = nfc L s"

fun normalize :: "lib \<Rightarrow> pyval \<Rightarrow> json res"
  and normalize_list :: "lib \<Rightarrow> pyval list \<Rightarrow> json list res"
  and normalize_items :: "lib \<Rightarrow> (string, json) dict \<Rightarrow> (pyval \<times> pyval) list \<Rightarrow> (string, json) dict res" where
  "normalize L (PBool b) = Inr (JBool b)"
| "normalize L (PInt i) = Inl CanonicalizationError"
| "normalize L (PFloat f) = Inl CanonicalizationError"
| "normalize L PNone = Inr JNull"
| "normalize L (PStr s) = Inr (JStr (norm_str L s))"
| "normalize L (PDict kvs) = bindR (normalize_items L [] kvs) (\<lambda>out. Inr (JObj out))"
| "normalize L (PList xs) = bindR (normalize_list L xs) (\<lambda>ys. Inr (JList ys))"
| "normalize L (PTuple xs) = bindR (normalize_list L xs) (\<lambda>ys. Inr (JList ys))"
| "normalize L (POther t) = Inl CanonicalizationError"
| "normalize_list L [] = Inr []"
| "normalize_list L (x # xs) =
     bindR (normalize L x) (\<lambda>y. bindR (normalize_list L xs) (\<lambda>ys. Inr (y # ys)))"
| "normalize_items L out [] = Inr out"
| "normalize_items L out ((k, v) # kvs) =
     (case k of
        PStr ks \<Rightarrow>
          let nk = norm_str L ks
          in if nk \<in> set (dict_keys out) then Inl CanonicalizationError
             else bindR (normalize L v) (\<lambda>w. normalize_items L (dict_set nk w out) kvs)
      | _ \<Rightarrow> Inl CanonicalizationError)"

definition canonical_bytes :: "lib \<Rightarrow> pyval \<Rightarrow> bytes res" where
  "canonical_bytes L v = bindR (normalize L v) (\<lambda>j. Inr (dumps_sorted j))"

subsection \<open>The canonical form of memory_core/contracts.py\<close>

text \<open>
  The second normaliser of the program: tuples are refused, keys come out sorted, and the error
  class differs.
\<close>

fun contract_normalize :: "lib \<Rightarrow> pyval \<Rightarrow> json res"
  and contract_normalize_list :: "lib \<Rightarrow> pyval list \<Rightarrow> json list res"
  and contract_normalize_items :: "lib \<Rightarrow> (string, json) dict \<Rightarrow> (pyval \<times> pyval) list \<Rightarrow> (string, json) dict res" where
  "contract_normalize L PNone = Inr JNull"
| "contract_normalize L (PBool b) = Inr (JBool b)"
| "contract_normalize L (PStr s) = Inr (JStr (nfc L s))"
| "contract_normalize L (PInt i) = Inl InvalidContractValue"
| "contract_normalize L (PFloat f) = Inl InvalidContractValue"
| "contract_normalize L (PList xs) = bindR (contract_normalize_list L xs) (\<lambda>ys. Inr (JList ys))"
| "contract_normalize L (PDict kvs) =
     bindR (contract_normalize_items L [] kvs) (\<lambda>out. Inr (JObj (sort_key fst out)))"
| "contract_normalize L (PTuple xs) = Inl InvalidContractValue"
| "contract_normalize L (POther t) = Inl InvalidContractValue"
| "contract_normalize_list L [] = Inr []"
| "contract_normalize_list L (x # xs) =
     bindR (contract_normalize L x) (\<lambda>y. bindR (contract_normalize_list L xs) (\<lambda>ys. Inr (y # ys)))"
| "contract_normalize_items L out [] = Inr out"
| "contract_normalize_items L out ((k, v) # kvs) =
     (case k of
        PStr ks \<Rightarrow>
          let nk = nfc L ks
          in if nk \<in> set (dict_keys out) then Inl InvalidContractValue
             else bindR (contract_normalize L v) (\<lambda>w. contract_normalize_items L (dict_set nk w out) kvs)
      | _ \<Rightarrow> Inl InvalidContractValue)"

definition contract_canonical_bytes :: "lib \<Rightarrow> pyval \<Rightarrow> bytes res" where
  "contract_canonical_bytes L v = bindR (contract_normalize L v) (\<lambda>j. Inr (dumps_sorted j))"

subsection \<open>hashing.py\<close>

definition sha256_hex :: "lib \<Rightarrow> bytes \<Rightarrow> string" where
  "sha256_hex L data = hex (sha256 L data)"

definition canonical_hash :: "lib \<Rightarrow> pyval \<Rightarrow> string res" where
  "canonical_hash L v = bindR (canonical_bytes L v) (\<lambda>b. Inr (sha256_hex L b))"

definition LEAF :: bytes where "LEAF = [CHR 0x00]"
definition NODE :: bytes where "NODE = [CHR 0x01]"
definition EMPTY :: bytes where "EMPTY = ''wiki.merkle.empty.v1''"

text \<open>The body of the \<open>while\<close> loop: neighbours are hashed together, an odd last node with itself.\<close>

fun merkle_level :: "lib \<Rightarrow> bytes list \<Rightarrow> bytes list" where
  "merkle_level L [] = []"
| "merkle_level L [l] = [sha256 L (NODE @ l @ l)]"
| "merkle_level L (l # r # rest) = sha256 L (NODE @ l @ r) # merkle_level L rest"

lemma length_merkle_level: "length (merkle_level L xs) = (length xs + 1) div 2"
  by (induction L xs rule: merkle_level.induct) auto

function merkle_loop :: "lib \<Rightarrow> bytes list \<Rightarrow> bytes" where
  "merkle_loop L nodes = (if 1 < length nodes then merkle_loop L (merkle_level L nodes) else hd nodes)"
  by pat_completeness auto
termination
  by (relation "measure (length \<circ> snd)") (auto simp: length_merkle_level)

declare merkle_loop.simps [simp del]

definition merkle_root :: "lib \<Rightarrow> bytes list \<Rightarrow> string" where
  "merkle_root L leaves =
     (if leaves = [] then sha256_hex L EMPTY
      else hex (merkle_loop L (sort (map (\<lambda>leaf. sha256 L (LEAF @ leaf)) leaves))))"

subsection \<open>The contract of a normaliser\<close>

text \<open>
  Which values have a canonical form, and what it is, said without the loops and accumulators of
  the code. The flag says whether tuples are accepted.
\<close>

fun key_str :: "pyval \<Rightarrow> string option" where
  "key_str (PStr s) = Some s"
| "key_str _ = None"

fun admissible :: "lib \<Rightarrow> bool \<Rightarrow> pyval \<Rightarrow> bool" where
  "admissible L tup PNone = True"
| "admissible L tup (PBool b) = True"
| "admissible L tup (PStr s) = True"
| "admissible L tup (PList xs) = list_all (admissible L tup) xs"
| "admissible L tup (PTuple xs) = (tup \<and> list_all (admissible L tup) xs)"
| "admissible L tup (PDict kvs) =
     (list_all (\<lambda>(k, v). key_str k \<noteq> None \<and> admissible L tup v) kvs \<and>
      distinct (map (\<lambda>(k, v). map_option (nfc L) (key_str k)) kvs))"
| "admissible L tup _ = False"

fun canonical_form_of :: "lib \<Rightarrow> pyval \<Rightarrow> json" where
  "canonical_form_of L (PBool b) = JBool b"
| "canonical_form_of L (PStr s) = JStr (nfc L s)"
| "canonical_form_of L (PList xs) = JList (map (canonical_form_of L) xs)"
| "canonical_form_of L (PTuple xs) = JList (map (canonical_form_of L) xs)"
| "canonical_form_of L (PDict kvs) =
     JObj (map (\<lambda>(k, v). (nfc L (the (key_str k)), canonical_form_of L v)) kvs)"
| "canonical_form_of L _ = JNull"

locale canonical_form =
  fixes norm :: "pyval \<Rightarrow> json res"
    and adm :: "pyval \<Rightarrow> bool"
    and form :: "pyval \<Rightarrow> json"
    and err :: exn
  assumes norm_eq: "norm v = (if adm v then Inr (form v) else Inl err)"
    and form_wf: "adm v \<Longrightarrow> jwf (form v)"
    and adm_perm: "mset kvs = mset kvs' \<Longrightarrow> adm (PDict kvs) = adm (PDict kvs')"
    and form_perm: "adm (PDict kvs) \<Longrightarrow> mset kvs = mset kvs' \<Longrightarrow>
           sort_keys (form (PDict kvs)) = sort_keys (form (PDict kvs'))"
begin

abbreviation to_bytes :: "pyval \<Rightarrow> bytes res" where
  "to_bytes v \<equiv> bindR (norm v) (\<lambda>j. Inr (dumps_sorted j))"

lemma to_bytes_eq: "to_bytes v = (if adm v then Inr (dumps_sorted (form v)) else Inl err)"
  by (simp add: norm_eq)

lemma to_bytes_Inr_iff: "to_bytes v = Inr b \<longleftrightarrow> adm v \<and> b = dumps_sorted (form v)"
  by (auto simp: to_bytes_eq)

lemma to_bytes_inject:
  "to_bytes v = Inr b \<Longrightarrow> to_bytes w = Inr b \<Longrightarrow> sort_keys (form v) = sort_keys (form w)"
  by (metis dumps_sorted_inject form_wf to_bytes_Inr_iff)

lemma to_bytes_loads: "to_bytes v = Inr b \<Longrightarrow> loads b = Some (sort_keys (form v))"
  by (metis form_wf loads_dumps_sorted to_bytes_Inr_iff)

lemma to_bytes_perm: "mset kvs = mset kvs' \<Longrightarrow> to_bytes (PDict kvs) = to_bytes (PDict kvs')"
  using adm_perm [of kvs kvs'] form_perm [of kvs kvs'] by (auto simp: norm_eq dumps_sorted_def)

end

lemma distinct_map_Some: "distinct (map Some xs) \<longleftrightarrow> distinct xs"
  by (simp add: distinct_map)

lemma admissible_PDict_perm:
  assumes "mset kvs = mset kvs'"
  shows "admissible L tup (PDict kvs) = admissible L tup (PDict kvs')"
proof -
  let ?g = "\<lambda>(k, v). map_option (nfc L) (key_str k)"
  have "mset (map ?g kvs) = mset (map ?g kvs')" using assms by simp
  then have "distinct (map ?g kvs) = distinct (map ?g kvs')" by (rule mset_eq_imp_distinct_iff)
  moreover have "set kvs = set kvs'" using assms by (rule mset_eq_setD)
  ultimately show ?thesis by (simp add: list_all_iff)
qed

text \<open>Keys of an admissible dictionary stay distinct after normalisation.\<close>

abbreviation nkey :: "lib \<Rightarrow> pyval \<times> pyval \<Rightarrow> string" where
  "nkey L kv \<equiv> nfc L (the (key_str (fst kv)))"

lemma canonical_form_PDict:
  "canonical_form_of L (PDict kvs) = JObj (map (\<lambda>kv. (nkey L kv, canonical_form_of L (snd kv))) kvs)"
  by (simp add: split_beta)

lemma admissible_PDict:
  "admissible L tup (PDict kvs) \<longleftrightarrow>
     (\<forall>kv\<in>set kvs. key_str (fst kv) \<noteq> None \<and> admissible L tup (snd kv)) \<and> distinct (map (nkey L) kvs)"
proof -
  have "distinct (map (\<lambda>(k, v). map_option (nfc L) (key_str k)) kvs) \<longleftrightarrow> distinct (map (nkey L) kvs)"
    if "\<forall>kv\<in>set kvs. key_str (fst kv) \<noteq> None"
  proof -
    have "map (\<lambda>(k, v). map_option (nfc L) (key_str k)) kvs = map Some (map (nkey L) kvs)"
      using that by auto
    then show ?thesis by (simp only: distinct_map_Some)
  qed
  then show ?thesis by (auto simp: list_all_iff split_beta simp del: not_None_eq)
qed

declare canonical_form_of.simps(5) [simp del] admissible.simps(6) [simp del]

lemma canonical_form_wf: "admissible L tup v \<Longrightarrow> jwf (canonical_form_of L v)"
proof (induction L tup v rule: admissible.induct)
  case (6 L tup kvs)
  from "6.prems" have "distinct (map (nkey L) kvs)" by (simp add: admissible_PDict)
  moreover have "\<forall>kv\<in>set kvs. jwf (canonical_form_of L (snd kv))"
    using "6.IH" "6.prems" by (auto simp: admissible_PDict)
  ultimately show ?case by (auto simp: canonical_form_PDict comp_def)
qed (auto simp: list_all_iff)

lemma canonical_form_perm:
  assumes "admissible L tup (PDict kvs)" and "mset kvs = mset kvs'"
  shows "sort_keys (canonical_form_of L (PDict kvs)) = sort_keys (canonical_form_of L (PDict kvs'))"
  unfolding canonical_form_PDict
  using assms by (intro sort_keys_JObj_perm) (simp_all add: admissible_PDict comp_def)

lemma key_str_None_cases: "key_str k = None \<Longrightarrow> (case k of PStr s \<Rightarrow> f s | _ \<Rightarrow> e) = e"
  by (cases k) auto

lemma key_str_SomeD: "key_str k = Some s \<Longrightarrow> k = PStr s"
  by (cases k) auto

lemma normalize_eq:
  "normalize L v = (if admissible L True v then Inr (canonical_form_of L v) else Inl CanonicalizationError)"
  "normalize_list L xs =
     (if list_all (admissible L True) xs then Inr (map (canonical_form_of L) xs) else Inl CanonicalizationError)"
  "distinct (dict_keys out) \<Longrightarrow> normalize_items L out kvs =
     (if admissible L True (PDict kvs) \<and> set (dict_keys out) \<inter> nkey L ` set kvs = {}
      then Inr (out @ map (\<lambda>kv. (nkey L kv, canonical_form_of L (snd kv))) kvs)
      else Inl CanonicalizationError)"
proof (induction L v and L xs and L out kvs rule: normalize_normalize_list_normalize_items.induct)
  case (13 L out k v kvs)
  show ?case
  proof (cases "key_str k")
    case None
    then show ?thesis by (simp add: key_str_None_cases admissible_PDict)
  next
    case (Some ks)
    then have k: "k = PStr ks" by (rule key_str_SomeD)
    show ?thesis
    proof (cases "nfc L ks \<in> set (dict_keys out)")
      case True
      then show ?thesis by (auto simp: k norm_str_def)
    next
      case False
      with 13 show ?thesis
        by (auto simp: k norm_str_def dict_set_new admissible_PDict Let_def)
    qed
  qed
qed (auto simp: canonical_form_PDict norm_str_def admissible.simps(6))

lemma contract_normalize_eq:
  "contract_normalize L v =
     (if admissible L False v then Inr (sort_keys (canonical_form_of L v)) else Inl InvalidContractValue)"
  "contract_normalize_list L xs =
     (if list_all (admissible L False) xs then Inr (map (\<lambda>x. sort_keys (canonical_form_of L x)) xs)
      else Inl InvalidContractValue)"
  "distinct (dict_keys out) \<Longrightarrow> contract_normalize_items L out kvs =
     (if admissible L False (PDict kvs) \<and> set (dict_keys out) \<inter> nkey L ` set kvs = {}
      then Inr (out @ map (\<lambda>kv. (nkey L kv, sort_keys (canonical_form_of L (snd kv)))) kvs)
      else Inl InvalidContractValue)"
proof (induction L v and L xs and L out kvs
    rule: contract_normalize_contract_normalize_list_contract_normalize_items.induct)
  case (13 L out k v kvs)
  show ?case
  proof (cases "key_str k")
    case None
    then show ?thesis by (simp add: key_str_None_cases admissible_PDict)
  next
    case (Some ks)
    then have k: "k = PStr ks" by (rule key_str_SomeD)
    show ?thesis
    proof (cases "nfc L ks \<in> set (dict_keys out)")
      case True
      then show ?thesis by (auto simp: k)
    next
      case False
      with 13 show ?thesis
        by (auto simp: k dict_set_new admissible_PDict Let_def)
    qed
  qed
qed (auto simp: canonical_form_PDict comp_def admissible.simps(6))

interpretation canon: canonical_form "normalize L" "admissible L True" "canonical_form_of L"
    CanonicalizationError for L
proof
  show "normalize L v = (if admissible L True v then Inr (canonical_form_of L v) else Inl CanonicalizationError)" for v
    by (rule normalize_eq(1))
qed (rule canonical_form_wf admissible_PDict_perm canonical_form_perm; assumption)+

lemma sort_keys_idem [simp]: "sort_keys (sort_keys v) = sort_keys v"
proof (induction v)
  case (JObj kvs)
  have e: "sort_key fst (map (map_prod id sort_keys) (sort_key fst (map (map_prod id sort_keys) kvs)))
     = sort_key fst (map (map_prod id sort_keys) kvs)"
  proof -
    have m: "map (map_prod id sort_keys) (sort_key fst (map (map_prod id sort_keys) kvs))
       = sort_key fst (map (map_prod id sort_keys) kvs)"
      by (rule map_idI) (use JObj in fastforce)
    show ?thesis by (subst m) (simp add: sort_key_id_if_sorted)
  qed
  then show ?case by (simp del: map_map)
qed (auto intro: map_idI)

interpretation contract: canonical_form "contract_normalize L" "admissible L False"
    "\<lambda>v. sort_keys (canonical_form_of L v)" InvalidContractValue for L
proof
  show "contract_normalize L v = (if admissible L False v then Inr (sort_keys (canonical_form_of L v))
     else Inl InvalidContractValue)" for v
    by (rule contract_normalize_eq(1))
  show "jwf (sort_keys (canonical_form_of L v))" if "admissible L False v" for v
    using that by (intro jwf_sort_keys canonical_form_wf)
  show "admissible L False (PDict kvs) = admissible L False (PDict kvs')" if "mset kvs = mset kvs'" for kvs kvs'
    using that by (rule admissible_PDict_perm)
  show "sort_keys (sort_keys (canonical_form_of L (PDict kvs))) = sort_keys (sort_keys (canonical_form_of L (PDict kvs')))"
    if "admissible L False (PDict kvs)" "mset kvs = mset kvs'" for kvs kvs'
    using canonical_form_perm [OF that] by simp
qed

subsection \<open>Properties of canonical bytes\<close>

text \<open>
  C35: canonical bytes determine the value up to Unicode normalisation, key order and the
  list/tuple distinction: two values with the same canonical bytes have the same sorted canonical
  form, and reading the bytes back as JSON gives exactly that form.
\<close>

theorem canonical_bytes_binding:
  assumes "canonical_bytes L v = Inr b" and "canonical_bytes L w = Inr b"
  shows "sort_keys (canonical_form_of L v) = sort_keys (canonical_form_of L w) \<and>
         loads b = Some (sort_keys (canonical_form_of L v))"
  using assms canon.to_bytes_inject [of L v b w] canon.to_bytes_loads [of L v b]
  by (simp add: canonical_bytes_def)

text \<open>
  canonicalisation is total on the admissible values and refuses every other one with
  \<open>CanonicalizationError\<close> (raw numbers, non-string keys, keys that collide after NFC, foreign
  types, at any depth), and the order of a dictionary's entries never changes the outcome.
\<close>

theorem canonical_bytes_total_and_order_free:
  "canonical_bytes L v =
     (if admissible L True v then Inr (dumps_sorted (canonical_form_of L v)) else Inl CanonicalizationError) \<and>
   (mset kvs = mset kvs' \<longrightarrow> canonical_bytes L (PDict kvs) = canonical_bytes L (PDict kvs'))"
  unfolding canonical_bytes_def
  using canon.to_bytes_eq [of L v] canon.to_bytes_perm [of kvs kvs' L] by blast

text \<open>A library for witnesses: text already in NFC, and the padded first 32 bytes as digest.\<close>

definition demo_lib :: lib where
  "demo_lib = \<lparr>nfc = id, lower = id, sha256 = (\<lambda>x. take 32 (x @ replicate 32 CHR 0x00))\<rparr>"

theorem canonical_bytes_binding_witness:
  "canonical_bytes demo_lib (PDict [(PStr ''b'', PNone), (PStr ''a'', PTuple [PBool True])])
     = Inr (dumps (JObj [(''a'', JList [JBool True]), (''b'', JNull)])) \<and>
   loads (dumps (JObj [(''a'', JList [JBool True]), (''b'', JNull)]))
     = Some (JObj [(''a'', JList [JBool True]), (''b'', JNull)])"
proof -
  let ?v = "PDict [(PStr ''b'', PNone), (PStr ''a'', PTuple [PBool True])]"
  let ?j = "JObj [(''a'', JList [JBool True]), (''b'', JNull)]"
  have b: "canonical_bytes demo_lib ?v = Inr (dumps ?j)" by code_simp
  have "sort_keys (canonical_form_of demo_lib ?v) = ?j" by code_simp
  with b canonical_bytes_binding [OF b b] show ?thesis by simp
qed

theorem canonical_bytes_total_and_order_free_witness:
  "canonical_bytes demo_lib (PList [PInt 1]) = Inl CanonicalizationError \<and>
   canonical_bytes demo_lib (PDict [(PStr ''a'', PNone), (PStr ''b'', PNone)])
     = canonical_bytes demo_lib (PDict [(PStr ''b'', PNone), (PStr ''a'', PNone)])"
proof -
  let ?x = "[(PStr ''a'', PNone), (PStr ''b'', PNone)]"
  let ?y = "[(PStr ''b'', PNone), (PStr ''a'', PNone)]"
  have "mset ?x = mset ?y" by simp
  moreover have "\<not> admissible demo_lib True (PList [PInt 1])" by simp
  ultimately show ?thesis
    using canonical_bytes_total_and_order_free [of demo_lib "PList [PInt 1]" ?x ?y] by simp
qed

end
