(* ===== verification/Merkle.thy ===== *)
theory Merkle
  imports Canonical
begin

text \<open>
  What the Merkle root of \<open>hashing.py\<close> commits to: it does not depend on the order of the leaves,
  and, as long as SHA-256 does not collide on the inputs the two computations hash, equal roots
  mean equal leaf sets for leaf lists without repetition. The list of the hashed inputs is part
  of the statement, so the hypothesis is about finitely many concrete byte strings. A repeated
  last leaf, on the other hand, can be dropped without changing the root.
\<close>

subsection \<open>The inputs a computation hashes\<close>

fun level_inputs :: "bytes list \<Rightarrow> bytes list" where
  "level_inputs [] = []"
| "level_inputs [l] = [NODE @ l @ l]"
| "level_inputs (l # r # rest) = (NODE @ l @ r) # level_inputs rest"

function loop_inputs :: "lib \<Rightarrow> bytes list \<Rightarrow> bytes list" where
  "loop_inputs L nodes =
     (if 1 < length nodes then level_inputs nodes @ loop_inputs L (merkle_level L nodes) else [])"
  by pat_completeness auto
termination
  by (relation "measure (length \<circ> snd)") (auto simp: length_merkle_level)

declare loop_inputs.simps [simp del]

definition leaf_nodes :: "lib \<Rightarrow> bytes list \<Rightarrow> bytes list" where
  "leaf_nodes L leaves = sort (map (\<lambda>leaf. sha256 L (LEAF @ leaf)) leaves)"

definition merkle_inputs :: "lib \<Rightarrow> bytes list \<Rightarrow> bytes list" where
  "merkle_inputs L leaves = map (\<lambda>leaf. LEAF @ leaf) leaves @ loop_inputs L (leaf_nodes L leaves)"

lemma merkle_level_map: "merkle_level L xs = map (sha256 L) (level_inputs xs)"
  by (induction xs rule: level_inputs.induct) auto

subsection \<open>Levels\<close>

text \<open>A node of height \<open>i\<close> over the hashed inputs \<open>S\<close>.\<close>

inductive node_at :: "lib \<Rightarrow> bytes set \<Rightarrow> nat \<Rightarrow> bytes \<Rightarrow> bool" for L S where
  leaf: "LEAF @ d \<in> S \<Longrightarrow> node_at L S 0 (sha256 L (LEAF @ d))"
| node: "NODE @ l @ r \<in> S \<Longrightarrow> node_at L S i l \<Longrightarrow> node_at L S i r \<Longrightarrow>
         node_at L S (Suc i) (sha256 L (NODE @ l @ r))"

inductive_cases node_at_0E: "node_at L S 0 x"
inductive_cases node_at_SucE: "node_at L S (Suc i) x"

text \<open>What is assumed of SHA-256: 32-byte digests, and no collision on the inputs \<open>S\<close>.\<close>

definition sha_ok :: "lib \<Rightarrow> bytes set \<Rightarrow> bool" where
  "sha_ok L S \<longleftrightarrow>
     (\<forall>x\<in>S. length (sha256 L x) = 32) \<and> (\<forall>x\<in>S. \<forall>y\<in>S. sha256 L x = sha256 L y \<longrightarrow> x = y)"

lemma sha_ok_inj_on: "sha_ok L S \<Longrightarrow> T \<subseteq> S \<Longrightarrow> inj_on (sha256 L) T"
  by (auto simp: sha_ok_def inj_on_def)

lemma sha_okD: "sha_ok L S \<Longrightarrow> x \<in> S \<Longrightarrow> y \<in> S \<Longrightarrow> sha256 L x = sha256 L y \<Longrightarrow> x = y"
  by (auto simp: sha_ok_def)

lemma node_at_length: "node_at L S i x \<Longrightarrow> sha_ok L S \<Longrightarrow> length x = 32"
  by (induction rule: node_at.induct) (auto simp: sha_ok_def)

lemma leaf_not_node: "LEAF @ d \<noteq> NODE @ x"
  by (simp add: LEAF_def NODE_def)

lemma node_inject:
  "length l = 32 \<Longrightarrow> length l' = 32 \<Longrightarrow> NODE @ l @ r = NODE @ l' @ r' \<longleftrightarrow> l = l' \<and> r = r'"
  by (auto simp: NODE_def)

lemma node_at_unique:
  "node_at L S i x \<Longrightarrow> node_at L S j x \<Longrightarrow> sha_ok L S \<Longrightarrow> i = j"
proof (induction arbitrary: j rule: node_at.induct)
  case (leaf d)
  show ?case
  proof (cases j)
    case (Suc k)
    with leaf.prems(1) obtain l r where "NODE @ l @ r \<in> S" "sha256 L (LEAF @ d) = sha256 L (NODE @ l @ r)"
      by (auto elim: node_at_SucE)
    with leaf sha_okD leaf_not_node show ?thesis by metis
  qed simp
next
  case (node l r i)
  show ?case
  proof (cases j)
    case 0
    with node.prems(1) obtain d where "LEAF @ d \<in> S" "sha256 L (NODE @ l @ r) = sha256 L (LEAF @ d)"
      by (auto elim: node_at_0E)
    with node sha_okD leaf_not_node show ?thesis by metis
  next
    case (Suc k)
    with node.prems(1) obtain l' r' where lr: "NODE @ l' @ r' \<in> S" "node_at L S k l'"
        "sha256 L (NODE @ l @ r) = sha256 L (NODE @ l' @ r')"
      by (auto elim: node_at_SucE)
    then have "NODE @ l @ r = NODE @ l' @ r'" using node.hyps(1) node.prems(2) sha_okD by metis
    then have "l = l'" using node lr(2) by (metis node_at_length node_inject)
    with node.IH(1) [of k] lr(2) node.prems(2) Suc show ?thesis by simp
  qed
qed

lemma level_inputs_elem:
  "x \<in> set (level_inputs xs) \<Longrightarrow> \<exists>l\<in>set xs. \<exists>r\<in>set xs. x = NODE @ l @ r"
  by (induction xs rule: level_inputs.induct) auto

lemma node_at_level:
  assumes "list_all (node_at L S i) xs" and "set (level_inputs xs) \<subseteq> S"
  shows "list_all (node_at L S (Suc i)) (merkle_level L xs)"
  unfolding merkle_level_map list_all_iff
proof
  fix y
  assume "y \<in> set (map (sha256 L) (level_inputs xs))"
  then obtain x where x: "x \<in> set (level_inputs xs)" "y = sha256 L x" by auto
  from level_inputs_elem [OF x(1)] obtain l r where "l \<in> set xs" "r \<in> set xs" "x = NODE @ l @ r" by blast
  with x assms show "node_at L S (Suc i) y" by (auto simp: list_all_iff intro: node_at.node)
qed

text \<open>One level is injective on lists without repetition, whatever their lengths.\<close>

lemma level_inputs_inject:
  assumes "\<forall>x\<in>set xs \<union> set ys. length x = 32" and "distinct xs" and "distinct ys"
    and "level_inputs xs = level_inputs ys"
  shows "xs = ys"
  using assms
proof (induction xs arbitrary: ys rule: level_inputs.induct)
  case 1
  then show ?case by (cases ys rule: level_inputs.cases) auto
next
  case (2 l)
  then show ?case by (cases ys rule: level_inputs.cases) (auto simp: node_inject)
next
  case (3 l r rest)
  note prems = "3.prems"
  show ?case
  proof (cases ys rule: level_inputs.cases)
    case (3 l' r' rest')
    with prems have "l = l' \<and> r = r'" "level_inputs rest = level_inputs rest'"
      by (auto simp: node_inject)
    with "3.IH" [of rest'] prems 3 show ?thesis by auto
  next
    case (2 l')
    with prems have "l = l' \<and> r = l'" by (auto simp: node_inject)
    with prems show ?thesis by auto
  qed (use prems in auto)
qed

lemma distinct_level_inputs:
  assumes "\<forall>x\<in>set xs. length x = 32" and "distinct xs"
  shows "distinct (level_inputs xs)"
  using assms
proof (induction xs rule: level_inputs.induct)
  case (3 l r rest)
  have "NODE @ l @ r \<notin> set (level_inputs rest)"
  proof
    assume "NODE @ l @ r \<in> set (level_inputs rest)"
    then obtain l' r' where lr: "l' \<in> set rest" "NODE @ l @ r = NODE @ l' @ r'"
      by (blast dest: level_inputs_elem)
    then have "l = l'" using "3.prems"(1) by (simp add: node_inject)
    with lr "3.prems"(2) show False by simp
  qed
  with 3 show ?case by simp
qed auto

lemma merkle_loop_simps:
  "length xs \<le> 1 \<Longrightarrow> merkle_loop L xs = hd xs"
  "1 < length xs \<Longrightarrow> merkle_loop L xs = merkle_loop L (merkle_level L xs)"
  by (subst merkle_loop.simps; simp)+

lemma loop_inputs_step:
  "1 < length xs \<Longrightarrow> loop_inputs L xs = level_inputs xs @ loop_inputs L (merkle_level L xs)"
  by (subst loop_inputs.simps) simp

lemma merkle_level_nonempty: "xs \<noteq> [] \<Longrightarrow> merkle_level L xs \<noteq> []"
  by (cases xs rule: level_inputs.cases) auto

lemma merkle_loop_height:
  assumes "list_all (node_at L S i) xs" and "set (loop_inputs L xs) \<subseteq> S" and "xs \<noteq> []"
  shows "\<exists>j\<ge>i. node_at L S j (merkle_loop L xs) \<and> (1 < length xs \<longrightarrow> i < j)"
  using assms
proof (induction L xs arbitrary: i rule: merkle_loop.induct)
  case (1 L xs)
  show ?case
  proof (cases "1 < length xs")
    case True
    have "\<exists>j\<ge>Suc i. node_at L S j (merkle_loop L (merkle_level L xs)) \<and> (1 < length (merkle_level L xs) \<longrightarrow> Suc i < j)"
      using True "1.prems" by (intro "1.IH") (auto simp: loop_inputs_step intro: node_at_level dest: merkle_level_nonempty)
    then obtain j where "Suc i \<le> j" "node_at L S j (merkle_loop L xs)"
      using True by (auto simp: merkle_loop_simps(2))
    then show ?thesis by (intro exI [of _ j]) auto
  next
    case False
    with "1.prems" have "node_at L S i (hd xs)" by (cases xs) auto
    with False show ?thesis by (auto simp: merkle_loop_simps)
  qed
qed

lemma merkle_loop_inject:
  assumes "sha_ok L S"
    and "list_all (node_at L S i) xs" "list_all (node_at L S i) ys"
    and "set (loop_inputs L xs) \<subseteq> S" "set (loop_inputs L ys) \<subseteq> S"
    and "xs \<noteq> []" "ys \<noteq> []" "distinct xs" "distinct ys"
    and "merkle_loop L xs = merkle_loop L ys"
  shows "xs = ys"
  using assms
proof (induction L xs arbitrary: ys i rule: merkle_loop.induct)
  case (1 L xs)
  obtain j k where jk: "node_at L S j (merkle_loop L xs)" "1 < length xs \<longrightarrow> i < j" "i \<le> j"
      "node_at L S k (merkle_loop L ys)" "1 < length ys \<longrightarrow> i < k" "i \<le> k"
    using merkle_loop_height [OF "1.prems"(2,4,6)] merkle_loop_height [OF "1.prems"(3,5,7)] by blast
  have single: "length zs = 1 \<Longrightarrow> list_all (node_at L S i) zs \<Longrightarrow> node_at L S i (merkle_loop L zs)" for zs
    by (cases zs) (auto simp: merkle_loop_simps)
  show ?case
  proof (cases "1 < length xs")
    case True
    have "1 < length ys"
    proof (rule ccontr)
      assume "\<not> 1 < length ys"
      then have "length ys = 1" using "1.prems"(7) by (cases ys) auto
      then have "node_at L S i (merkle_loop L ys)" using single "1.prems"(3) by blast
      with jk True "1.prems"(1,10) show False by (metis node_at_unique less_irrefl)
    qed
    note lens = True this
    have len32: "\<forall>x\<in>set xs \<union> set ys. length x = 32"
      using "1.prems"(1,2,3) node_at_length by (auto simp: list_all_iff)
    have dist: "distinct (merkle_level L zs)" if "distinct zs" "1 < length zs" "set (loop_inputs L zs) \<subseteq> S"
        "\<forall>x\<in>set zs. length x = 32" for zs
    proof -
      have "set (level_inputs zs) \<subseteq> S" using that(2,3) by (simp add: loop_inputs_step)
      with that show ?thesis unfolding merkle_level_map distinct_map
        by (simp add: distinct_level_inputs sha_ok_inj_on [OF "1.prems"(1)])
    qed
    have sub: "set (level_inputs zs) \<subseteq> S \<and> set (loop_inputs L (merkle_level L zs)) \<subseteq> S"
      if "1 < length zs" "set (loop_inputs L zs) \<subseteq> S" for zs
      using that by (simp add: loop_inputs_step)
    have "merkle_level L xs = merkle_level L ys"
    proof (rule "1.IH" [OF lens(1) "1.prems"(1)])
      show "list_all (node_at L S (Suc i)) (merkle_level L xs)" "list_all (node_at L S (Suc i)) (merkle_level L ys)"
        using node_at_level "1.prems"(2-5) sub lens by blast+
      show "set (loop_inputs L (merkle_level L xs)) \<subseteq> S" "set (loop_inputs L (merkle_level L ys)) \<subseteq> S"
        using sub lens "1.prems"(4,5) by blast+
      show "merkle_level L xs \<noteq> []" "merkle_level L ys \<noteq> []"
        using merkle_level_nonempty "1.prems"(6,7) by blast+
      show "distinct (merkle_level L xs)" "distinct (merkle_level L ys)"
        using dist lens "1.prems"(4,5,8,9) len32 by blast+
      show "merkle_loop L (merkle_level L xs) = merkle_loop L (merkle_level L ys)"
        using "1.prems"(10) lens by (simp add: merkle_loop_simps(2))
    qed
    moreover have "inj_on (sha256 L) (set (level_inputs xs) \<union> set (level_inputs ys))"
      using sub lens "1.prems"(4,5) by (intro sha_ok_inj_on [OF "1.prems"(1)]) blast
    ultimately have "level_inputs xs = level_inputs ys"
      unfolding merkle_level_map by (rule map_inj_on)
    then show ?thesis using level_inputs_inject len32 "1.prems"(8,9) by blast
  next
    case False
    then have xs: "length xs = 1" using "1.prems"(6) by (cases xs) auto
    then have "node_at L S i (merkle_loop L xs)" using single "1.prems"(2) by blast
    then have "\<not> 1 < length ys" using jk "1.prems"(1,10) by (metis node_at_unique less_irrefl)
    then have "length ys = 1" using "1.prems"(7) by (cases ys) auto
    with xs "1.prems"(10) show ?thesis by (cases xs; cases ys) (auto simp: merkle_loop_simps)
  qed
qed

subsection \<open>What the root commits to\<close>

lemma merkle_root_nonempty: "leaves \<noteq> [] \<Longrightarrow> merkle_root L leaves = hex (merkle_loop L (leaf_nodes L leaves))"
  by (simp add: merkle_root_def leaf_nodes_def)

text \<open>
  \<open>merkle_root\<close> is a function of the multiset of leaves only, the order-independence that
  \<open>hashing.py\<close> promises for \<open>accepted_claim_set_root\<close>.
\<close>

theorem merkle_root_order_independent:
  "mset leaves = mset leaves' \<Longrightarrow> merkle_root L leaves = merkle_root L leaves'"
proof -
  assume m: "mset leaves = mset leaves'"
  then have "leaf_nodes L leaves = leaf_nodes L leaves'"
    unfolding leaf_nodes_def by (intro properties_for_sort) simp_all
  with m show ?thesis by (auto simp: merkle_root_def leaf_nodes_def)
qed

text \<open>
  on non-empty leaf lists without repetition, equal Merkle roots mean equal leaf sets, unless
  SHA-256 collides on one of the byte strings the two computations hash.
\<close>

theorem merkle_root_binding:
  assumes "sha_ok L (set (merkle_inputs L leaves) \<union> set (merkle_inputs L leaves'))"
    and "leaves \<noteq> []" "leaves' \<noteq> []" "distinct leaves" "distinct leaves'"
    and "merkle_root L leaves = merkle_root L leaves'"
  shows "set leaves = set leaves'"
proof -
  let ?S = "set (merkle_inputs L leaves) \<union> set (merkle_inputs L leaves')"
  let ?h = "\<lambda>leaf. sha256 L (LEAF @ leaf)"
  have leaf_in: "LEAF @ d \<in> ?S" if "d \<in> set leaves \<union> set leaves'" for d
    using that by (auto simp: merkle_inputs_def)
  have nodes: "list_all (node_at L ?S 0) (leaf_nodes L ls)" "set (loop_inputs L (leaf_nodes L ls)) \<subseteq> ?S"
      "leaf_nodes L ls \<noteq> []" if "ls = leaves \<or> ls = leaves'" for ls
  proof -
    show "list_all (node_at L ?S 0) (leaf_nodes L ls)"
      using leaf_in that by (auto simp: leaf_nodes_def list_all_iff intro: node_at.leaf)
    show "set (loop_inputs L (leaf_nodes L ls)) \<subseteq> ?S" using that by (auto simp: merkle_inputs_def)
    show "leaf_nodes L ls \<noteq> []"
      using that assms(2,3) by (auto simp: leaf_nodes_def dest: arg_cong [of _ _ length])
  qed
  have inj: "inj_on ?h (set leaves \<union> set leaves')"
    using leaf_in sha_okD [OF assms(1)] by (intro inj_onI) (metis LEAF_def append_Cons append_Nil list.inject)
  have dist: "distinct (leaf_nodes L ls)" if "ls = leaves \<or> ls = leaves'" for ls
    using that assms(4,5) inj by (auto simp: leaf_nodes_def distinct_map inj_on_Un)
  have "merkle_loop L (leaf_nodes L leaves) = merkle_loop L (leaf_nodes L leaves')"
    using assms(6) by (simp add: merkle_root_nonempty assms(2,3))
  then have "leaf_nodes L leaves = leaf_nodes L leaves'"
    using nodes dist by (intro merkle_loop_inject [OF assms(1)]) blast+
  then have "?h ` set leaves = ?h ` set leaves'"
    by (metis leaf_nodes_def list.set_map set_sort)
  then show ?thesis using inj by (metis inj_on_image_eq_iff sup.cobounded1 sup.cobounded2)
qed

theorem merkle_root_order_independent_witness:
  "mset [''a'', ''b''] = mset [''b'', ''a''] \<and>
   merkle_root demo_lib [''a'', ''b''] = merkle_root demo_lib [''b'', ''a'']"
  using merkle_root_order_independent [of "[''a'', ''b'']" "[''b'', ''a'']" demo_lib] by simp

theorem merkle_root_binding_witness:
  "set [''a'', ''b''] = set [''b'', ''a'']"
proof (rule merkle_root_binding [of demo_lib])
  show "sha_ok demo_lib (set (merkle_inputs demo_lib [''a'', ''b'']) \<union> set (merkle_inputs demo_lib [''b'', ''a'']))"
    by code_simp
  show "merkle_root demo_lib [''a'', ''b''] = merkle_root demo_lib [''b'', ''a'']"
    by code_simp
qed simp_all

text \<open>
  Dropping a repeated largest leaf keeps the root: an odd level pairs its last node with itself,
  so a list of an odd number of leaves and the list with its largest leaf repeated agree. The
  distinctness premise of the binding theorem is therefore needed.
\<close>

lemma merkle_level_repeat_last:
  "odd (length xs) \<Longrightarrow> merkle_level L (xs @ [last xs]) = merkle_level L xs"
proof (induction L xs rule: merkle_level.induct)
  case (3 L l r rest)
  then show ?case by (cases rest) auto
qed auto

text \<open>
  the root of a list with an odd number of leaf nodes does not change when the leaf that sorts
  last is repeated, so the root is not a commitment to a multiset of leaves.
\<close>

theorem merkle_root_repeat_last:
  assumes "odd (length leaves)" and "1 < length leaves"
    and "sha256 L (LEAF @ d) = last (leaf_nodes L leaves)"
  shows "merkle_root L (leaves @ [d]) = merkle_root L leaves"
proof -
  let ?ns = "leaf_nodes L leaves"
  have len: "length ?ns = length leaves" by (simp add: leaf_nodes_def)
  have "\<forall>x\<in>set ?ns. x \<le> last ?ns" by (simp add: sorted_le_last leaf_nodes_def)
  then have "sorted (?ns @ [last ?ns])"
    by (simp add: sorted_append leaf_nodes_def)
  then have nodes: "leaf_nodes L (leaves @ [d]) = ?ns @ [last ?ns]"
    unfolding leaf_nodes_def using assms(3) by (intro properties_for_sort) (simp_all add: leaf_nodes_def)
  have ne: "leaves \<noteq> []" using assms(2) by auto
  have l: "1 < length (?ns @ [last ?ns])" "1 < length ?ns" "odd (length ?ns)"
    using assms(1,2) len by auto
  have "merkle_loop L (?ns @ [last ?ns]) = merkle_loop L ?ns"
    by (simp only: merkle_loop_simps(2) [OF l(1)] merkle_loop_simps(2) [OF l(2)]
        merkle_level_repeat_last [OF l(3)])
  with ne nodes show ?thesis by (simp add: merkle_root_nonempty)
qed

theorem merkle_root_repeat_last_witness:
  "merkle_root demo_lib ([''a'', ''b'', ''c''] @ [''c'']) = merkle_root demo_lib [''a'', ''b'', ''c'']"
proof (rule merkle_root_repeat_last)
  show "sha256 demo_lib (LEAF @ ''c'') = last (leaf_nodes demo_lib [''a'', ''b'', ''c''])"
    by code_simp
qed simp_all

end
