(* ===== verification/Models.thy ===== *)
theory Models
  imports Merkle
begin

text \<open>
  \<open>models.py\<close> and the data classes of \<open>claims.py\<close>: the source manifest state machine, the claim
  identity, assertion and evidence records, resolution decisions and the root over them. The
  main results: a claim id binds subject, predicate, object, polarity and scope; every manifest
  reaches a final state after at most four transitions, and only along the legal order.
\<close>

subsection \<open>Source manifest\<close>

definition IDENTITY_SCHEMA_VERSION :: string where
  "IDENTITY_SCHEMA_VERSION = ''1''"

definition LEGAL_TRANSITIONS :: "(string, string list) dict" where
  "LEGAL_TRANSITIONS =
     [(''received'', [''staged'', ''quarantined'']),
      (''staged'', [''validated'', ''quarantined'']),
      (''validated'', [''accepted'', ''quarantined'']),
      (''accepted'', [''revoked'']),
      (''quarantined'', []),
      (''revoked'', [])]"

record source_manifest =
  source_id :: string
  content_hash :: string
  license :: string
  duplicate_cluster_id :: "string option"
  status :: string
  temporal_provenance :: "(string, string) dict"
  lineage :: "string list"

definition new_manifest :: "string \<Rightarrow> string \<Rightarrow> source_manifest" where
  "new_manifest sid ch =
     \<lparr>source_id = sid, content_hash = ch, license = ''unspecified'', duplicate_cluster_id = None,
      status = ''received'', temporal_provenance = [], lineage = []\<rparr>"

definition legal_targets :: "string \<Rightarrow> string list" where
  "legal_targets s = (case map_of LEGAL_TRANSITIONS s of None \<Rightarrow> [] | Some xs \<Rightarrow> xs)"

definition transition :: "source_manifest \<Rightarrow> string \<Rightarrow> source_manifest res" where
  "transition m to =
     (let allowed = legal_targets (status m)
      in if to \<notin> set allowed then Inl StateError else Inr (m\<lparr>status := to\<rparr>))"

subsection \<open>Claim IR\<close>

record evidence =
  evidence_id :: string
  source_object_hash :: string
  representation_hash :: string
  quote_hash :: string
  locators :: "(string, string) dict list"

record claim_identity =
  claim_id :: string
  subject_id :: string
  predicate_id :: string
  obj :: string
  polarity :: string
  scope :: "(string, string) dict"

record claim_assertion =
  assertion_id :: string
  a_claim_id :: string
  a_source_id :: string
  evidence_ids :: "string list"
  modality :: string

record compiled_claim =
  identity :: claim_identity
  assertion :: claim_assertion
  evidence :: evidence

record extract_result =
  claims :: "compiled_claim list"
  revokes :: "string list"

definition pstr_dict :: "(string, string) dict \<Rightarrow> pyval" where
  "pstr_dict d = PDict (map (\<lambda>(k, v). (PStr k, PStr v)) d)"

definition pdict :: "(string \<times> pyval) list \<Rightarrow> pyval" where
  "pdict kvs = PDict (map (\<lambda>(k, v). (PStr k, v)) kvs)"

definition claim_payload :: "string \<Rightarrow> string \<Rightarrow> string \<Rightarrow> string \<Rightarrow> (string, string) dict \<Rightarrow> pyval" where
  "claim_payload s p ob pol sc =
     pdict [(''identity_schema_version'', PStr IDENTITY_SCHEMA_VERSION),
            (''canonical_subject_id'', PStr s),
            (''predicate_id'', PStr p),
            (''canonical_object'', PStr ob),
            (''polarity'', PStr pol),
            (''normalized_scope'', pstr_dict sc)]"

definition compute_claim_id ::
    "lib \<Rightarrow> string \<Rightarrow> string \<Rightarrow> string \<Rightarrow> string \<Rightarrow> (string, string) dict \<Rightarrow> string res" where
  "compute_claim_id L s p ob pol sc =
     (if pol \<notin> {''positive'', ''negative''} then Inl ValueError
      else canonical_hash L (claim_payload s p ob pol sc))"

definition create_identity ::
    "lib \<Rightarrow> string \<Rightarrow> string \<Rightarrow> string \<Rightarrow> string \<Rightarrow> (string, string) dict \<Rightarrow> claim_identity res" where
  "create_identity L s p ob pol sc =
     bindR (compute_claim_id L s p ob pol sc) (\<lambda>cid.
       Inr \<lparr>claim_id = cid, subject_id = s, predicate_id = p, obj = ob, polarity = pol, scope = sc\<rparr>)"

record resolution_decision =
  d_claim_id :: string
  d_state :: string
  d_assertion_ids :: "string list"
  policy_version :: string
  rationale_code :: string

definition decision_canonical :: "resolution_decision \<Rightarrow> pyval" where
  "decision_canonical d =
     pdict [(''claim_id'', PStr (d_claim_id d)),
            (''state'', PStr (d_state d)),
            (''assertion_ids'', PList (map PStr (d_assertion_ids d))),
            (''policy_version'', PStr (policy_version d)),
            (''rationale_code'', PStr (rationale_code d))]"

definition accepted_claim_set_root :: "lib \<Rightarrow> resolution_decision list \<Rightarrow> string res" where
  "accepted_claim_set_root L ds =
     bindR (mapR (\<lambda>d. canonical_bytes L (decision_canonical d)) ds) (\<lambda>leaves. Inr (merkle_root L leaves))"

subsection \<open>Manifest life cycle\<close>

fun run_transitions :: "source_manifest \<Rightarrow> string list \<Rightarrow> source_manifest res" where
  "run_transitions m [] = Inr m"
| "run_transitions m (t # ts) = bindR (transition m t) (\<lambda>m'. run_transitions m' ts)"

lemma legal_targets_simps [simp]:
  "legal_targets ''received'' = [''staged'', ''quarantined'']"
  "legal_targets ''staged'' = [''validated'', ''quarantined'']"
  "legal_targets ''validated'' = [''accepted'', ''quarantined'']"
  "legal_targets ''accepted'' = [''revoked'']"
  "legal_targets ''quarantined'' = []"
  "legal_targets ''revoked'' = []"
  by (simp_all add: LEGAL_TRANSITIONS_def legal_targets_def)

lemma run_transitions_Cons:
  "run_transitions m (t # ts) = Inr m' \<longleftrightarrow>
     t \<in> set (legal_targets (status m)) \<and> run_transitions (m\<lparr>status := t\<rparr>) ts = Inr m'"
  by (auto simp: transition_def Let_def)

lemma run_from_final:
  "run_transitions (m\<lparr>status := ''quarantined''\<rparr>) ts = Inr m' \<longleftrightarrow> ts = [] \<and> m' = m\<lparr>status := ''quarantined''\<rparr>"
  "run_transitions (m\<lparr>status := ''revoked''\<rparr>) ts = Inr m' \<longleftrightarrow> ts = [] \<and> m' = m\<lparr>status := ''revoked''\<rparr>"
  by (cases ts; auto simp: run_transitions_Cons simp del: run_transitions.simps(2))+

lemma run_from_accepted:
  "run_transitions (m\<lparr>status := ''accepted''\<rparr>) ts = Inr m' \<longleftrightarrow>
     ts = [] \<and> m' = m\<lparr>status := ''accepted''\<rparr> \<or> ts = [''revoked''] \<and> m' = m\<lparr>status := ''revoked''\<rparr>"
  by (cases ts) (auto simp: run_transitions_Cons run_from_final simp del: run_transitions.simps(2))

lemma run_from_validated:
  "run_transitions (m\<lparr>status := ''validated''\<rparr>) ts = Inr m' \<longleftrightarrow>
     ts = [] \<and> m' = m\<lparr>status := ''validated''\<rparr> \<or>
     ts = [''quarantined''] \<and> m' = m\<lparr>status := ''quarantined''\<rparr> \<or>
     ts = [''accepted''] \<and> m' = m\<lparr>status := ''accepted''\<rparr> \<or>
     ts = [''accepted'', ''revoked''] \<and> m' = m\<lparr>status := ''revoked''\<rparr>"
proof (cases ts)
  case (Cons t us)
  then show ?thesis
    by (cases "t = ''accepted''"; cases "t = ''quarantined''")
      (simp_all add: run_transitions_Cons run_from_final run_from_accepted del: run_transitions.simps(2))
qed auto

lemma run_from_staged:
  "run_transitions (m\<lparr>status := ''staged''\<rparr>) ts = Inr m' \<longleftrightarrow>
     ts = [] \<and> m' = m\<lparr>status := ''staged''\<rparr> \<or>
     ts = [''quarantined''] \<and> m' = m\<lparr>status := ''quarantined''\<rparr> \<or>
     (\<exists>us. ts = ''validated'' # us \<and> run_transitions (m\<lparr>status := ''validated''\<rparr>) us = Inr m')"
proof (cases ts)
  case (Cons t us)
  then show ?thesis
    by (cases "t = ''validated''"; cases "t = ''quarantined''")
      (simp_all add: run_transitions_Cons run_from_final del: run_transitions.simps(2))
qed auto

text \<open>
  from a fresh manifest at most four transitions succeed; the manifest is accepted only by
  \<open>staged\<close>, \<open>validated\<close>, \<open>accepted\<close> in this order, revoked only from there, and no transition
  touches anything but the status.
\<close>

theorem manifest_lifecycle:
  assumes "run_transitions (new_manifest sid ch) ts = Inr m"
  shows "length ts \<le> 4 \<and>
    (status m = ''accepted'' \<longrightarrow> ts = [''staged'', ''validated'', ''accepted'']) \<and>
    (status m = ''revoked'' \<longrightarrow> ts = [''staged'', ''validated'', ''accepted'', ''revoked'']) \<and>
    m = (new_manifest sid ch)\<lparr>status := status m\<rparr>"
proof (cases ts)
  case Nil
  with assms have "m = new_manifest sid ch" by simp
  with Nil show ?thesis by (simp add: new_manifest_def)
next
  case (Cons t us)
  let ?m = "new_manifest sid ch"
  have st: "status ?m = ''received''" by (simp add: new_manifest_def)
  from assms Cons st have t: "t = ''staged'' \<or> t = ''quarantined''" "run_transitions (?m\<lparr>status := t\<rparr>) us = Inr m"
    by (simp_all add: run_transitions_Cons del: run_transitions.simps(2))
  show ?thesis
  proof (cases "t = ''staged''")
    case True
    then have "run_transitions (?m\<lparr>status := ''staged''\<rparr>) us = Inr m" using t(2) by simp
    then show ?thesis unfolding run_from_staged run_from_validated Cons True
      by (elim disjE exE conjE) simp_all
  next
    case False
    with t run_from_final(1) [of ?m us m] Cons show ?thesis by auto
  qed
qed

theorem manifest_lifecycle_witness:
  "\<exists>m. run_transitions (new_manifest ''s'' ''h'') [''staged'', ''validated'', ''accepted''] = Inr m \<and>
       status m = ''accepted'' \<and> m = (new_manifest ''s'' ''h'')\<lparr>status := ''accepted''\<rparr>"
proof -
  let ?m = "(new_manifest ''s'' ''h'')\<lparr>status := ''accepted''\<rparr>"
  have r: "run_transitions (new_manifest ''s'' ''h'') [''staged'', ''validated'', ''accepted''] = Inr ?m"
    by code_simp
  with manifest_lifecycle [OF r] show ?thesis by auto
qed

subsection \<open>Claim identity\<close>

abbreviation nfc_pairs :: "lib \<Rightarrow> (string, string) dict \<Rightarrow> (string \<times> string) list" where
  "nfc_pairs L d \<equiv> map (\<lambda>(k, v). (nfc L k, nfc L v)) d"

lemma canonical_form_pdict:
  "canonical_form_of L (pdict kvs) = JObj (map (\<lambda>(k, v). (nfc L k, canonical_form_of L v)) kvs)"
  by (simp add: pdict_def canonical_form_PDict comp_def split_beta)

lemma canonical_form_pstr_dict:
  "canonical_form_of L (pstr_dict d) = JObj (map (\<lambda>(k, v). (nfc L k, JStr (nfc L v))) d)"
  by (simp add: pstr_dict_def canonical_form_PDict comp_def split_beta)

lemma sort_keys_strings:
  "sort_keys (JObj (map (\<lambda>(k, v). (f k, JStr (g v))) d)) = JObj (sort_key fst (map (\<lambda>(k, v). (f k, JStr (g v))) d))"
  by (simp add: comp_def case_prod_beta')

lemma sort_keys_strings_inject:
  assumes "sort_keys (JObj (map (\<lambda>(k, v). (f k, JStr (g v))) d)) = sort_keys (JObj (map (\<lambda>(k, v). (f k, JStr (g v))) d'))"
  shows "mset (map (\<lambda>(k, v). (f k, g v)) d) = mset (map (\<lambda>(k, v). (f k, g v)) d')"
proof -
  let ?m = "\<lambda>d. map (\<lambda>(k, v). (f k, JStr (g v))) d"
  let ?unj = "\<lambda>(k :: string, v). (k, case v of JStr t \<Rightarrow> t | _ \<Rightarrow> [])"
  have unj: "map ?unj (?m d) = map (\<lambda>(k, v). (f k, g v)) d" for d by (simp add: split_beta)
  have "mset (sort_key fst (?m d)) = mset (sort_key fst (?m d'))"
    using assms by (simp only: sort_keys_strings json.inject)
  then have "mset (?m d) = mset (?m d')" by (simp only: mset_sort)
  then have "image_mset ?unj (mset (?m d)) = image_mset ?unj (mset (?m d'))" by (rule arg_cong)
  then show ?thesis by (simp only: unj flip: mset_map)
qed

lemma sort_keys_eq_jget:
  "jwf v \<Longrightarrow> jwf w \<Longrightarrow> sort_keys v = sort_keys w \<Longrightarrow>
     map_option sort_keys (jget v k) = map_option sort_keys (jget w k)"
  by (metis jget_sort_keys)

lemma canonical_hash_bytes:
  "canonical_hash L v = Inr h \<longleftrightarrow> (\<exists>b. canonical_bytes L v = Inr b \<and> h = sha256_hex L b)"
  by (auto simp: canonical_hash_def bindR_Inr_iff)

text \<open>
  The hash of a canonical payload binds the payload, given no collision between the two byte
  strings.
\<close>

definition no_collision :: "lib \<Rightarrow> pyval \<Rightarrow> pyval \<Rightarrow> bool" where
  "no_collision L v w \<longleftrightarrow>
     (case (canonical_bytes L v, canonical_bytes L w) of
        (Inr b, Inr b') \<Rightarrow> sha256 L b = sha256 L b' \<longrightarrow> b = b'
      | _ \<Rightarrow> True)"

lemma canonical_hash_binding:
  assumes "canonical_hash L v = Inr h" "canonical_hash L w = Inr h" "no_collision L v w"
  shows "sort_keys (canonical_form_of L v) = sort_keys (canonical_form_of L w) \<and>
         jwf (canonical_form_of L v) \<and> jwf (canonical_form_of L w)"
proof -
  from assms(1,2) obtain b b' where b: "canonical_bytes L v = Inr b" "canonical_bytes L w = Inr b'"
      "sha256 L b = sha256 L b'"
    by (auto simp: canonical_hash_bytes sha256_hex_def)
  with assms(3) have "b = b'" by (simp add: no_collision_def)
  with b show ?thesis
    using canon.to_bytes_inject [of L v b w] canon.to_bytes_Inr_iff [of L v b] canon.to_bytes_Inr_iff [of L w b]
      canon.form_wf [of L v] canon.form_wf [of L w]
    by (simp add: canonical_bytes_def)
qed

lemma claim_payload_fields:
  assumes "nfc_ascii L"
  shows "jget (canonical_form_of L (claim_payload s p ob pol sc)) ''canonical_subject_id'' = Some (JStr (nfc L s))"
    "jget (canonical_form_of L (claim_payload s p ob pol sc)) ''predicate_id'' = Some (JStr (nfc L p))"
    "jget (canonical_form_of L (claim_payload s p ob pol sc)) ''canonical_object'' = Some (JStr (nfc L ob))"
    "jget (canonical_form_of L (claim_payload s p ob pol sc)) ''polarity'' = Some (JStr (nfc L pol))"
    "jget (canonical_form_of L (claim_payload s p ob pol sc)) ''normalized_scope''
       = Some (canonical_form_of L (pstr_dict sc))"
  using nfc_asciiD [OF assms] by (simp_all add: claim_payload_def canonical_form_pdict jget_def)

text \<open>
  a claim id binds the whole identity. Two claims with the same id agree, up to Unicode
  normalisation, on subject, predicate, object and scope, and have the same polarity, unless
  SHA-256 collides on their two canonical payloads.
\<close>

theorem claim_id_binding:
  assumes "nfc_ascii L"
    and "compute_claim_id L s p ob pol sc = Inr cid" and "compute_claim_id L s' p' ob' pol' sc' = Inr cid"
    and "no_collision L (claim_payload s p ob pol sc) (claim_payload s' p' ob' pol' sc')"
  shows "nfc L s = nfc L s' \<and> nfc L p = nfc L p' \<and> nfc L ob = nfc L ob' \<and> pol = pol' \<and>
         mset (nfc_pairs L sc) = mset (nfc_pairs L sc')"
proof -
  let ?v = "claim_payload s p ob pol sc" and ?w = "claim_payload s' p' ob' pol' sc'"
  from assms(2,3) have pol: "pol \<in> {''positive'', ''negative''}" "pol' \<in> {''positive'', ''negative''}"
      and h: "canonical_hash L ?v = Inr cid" "canonical_hash L ?w = Inr cid"
    by (auto simp: compute_claim_id_def split: if_splits)
  note bind = canonical_hash_binding [OF h assms(4)]
  have get: "map_option sort_keys (jget (canonical_form_of L ?v) k) = map_option sort_keys (jget (canonical_form_of L ?w) k)" for k
    using bind by (intro sort_keys_eq_jget) auto
  have "pol = pol'"
    using get [of "''polarity''"] pol nfc_asciiD [OF assms(1)] by (auto simp: claim_payload_fields [OF assms(1)])
  moreover have "mset (nfc_pairs L sc) = mset (nfc_pairs L sc')"
    using get [of "''normalized_scope''"]
    by (intro sort_keys_strings_inject) (simp add: claim_payload_fields [OF assms(1)] canonical_form_pstr_dict)
  ultimately show ?thesis
    using get [of "''canonical_subject_id''"] get [of "''predicate_id''"] get [of "''canonical_object''"]
    by (simp add: claim_payload_fields [OF assms(1)])
qed

lemma demo_lib_nfc [simp]: "nfc demo_lib = id"
  by (simp add: demo_lib_def)

lemma demo_lib_ascii [simp]: "nfc_ascii demo_lib"
  by (simp add: nfc_ascii_def)

theorem claim_id_binding_witness:
  "\<exists>cid. compute_claim_id demo_lib ''s'' ''p'' ''o'' ''positive'' [(''a'', ''1''), (''b'', ''2'')] = Inr cid \<and>
     mset (nfc_pairs demo_lib [(''a'', ''1''), (''b'', ''2'')]) = mset (nfc_pairs demo_lib [(''b'', ''2''), (''a'', ''1'')])"
proof -
  let ?a = "[(''a'', ''1''), (''b'', ''2'')]" and ?b = "[(''b'', ''2''), (''a'', ''1'')]"
  have adm: "admissible demo_lib True (claim_payload ''s'' ''p'' ''o'' ''positive'' x)" if "x = ?a \<or> x = ?b" for x
    using that by (auto simp: claim_payload_def pdict_def pstr_dict_def admissible_PDict)
  have "sort_keys (canonical_form_of demo_lib (pstr_dict ?a)) = sort_keys (canonical_form_of demo_lib (pstr_dict ?b))"
    unfolding canonical_form_pstr_dict by (rule sort_keys_JObj_perm) simp_all
  then have "sort_keys (canonical_form_of demo_lib (claim_payload ''s'' ''p'' ''o'' ''positive'' ?a))
     = sort_keys (canonical_form_of demo_lib (claim_payload ''s'' ''p'' ''o'' ''positive'' ?b))"
    unfolding claim_payload_def canonical_form_pdict by (intro sort_keys_JObj_cong) simp
  with adm have e: "canonical_bytes demo_lib (claim_payload ''s'' ''p'' ''o'' ''positive'' ?a)
         = canonical_bytes demo_lib (claim_payload ''s'' ''p'' ''o'' ''positive'' ?b)"
    by (simp add: canonical_bytes_def canon.norm_eq dumps_sorted_def)
  obtain cid where c: "compute_claim_id demo_lib ''s'' ''p'' ''o'' ''positive'' ?a = Inr cid"
    using adm by (simp add: compute_claim_id_def canonical_hash_def canonical_bytes_def canon.norm_eq)
  with e have d: "compute_claim_id demo_lib ''s'' ''p'' ''o'' ''positive'' ?b = Inr cid"
    by (simp add: compute_claim_id_def canonical_hash_def)
  have "no_collision demo_lib (claim_payload ''s'' ''p'' ''o'' ''positive'' ?a) (claim_payload ''s'' ''p'' ''o'' ''positive'' ?b)"
    by (simp add: no_collision_def e split: sum.splits)
  with c claim_id_binding [OF demo_lib_ascii c d] show ?thesis by blast
qed

end
