(* ===== verification/ControlPlane.thy ===== *)
theory ControlPlane
  imports Models
begin

text \<open>
  \<open>controlplane.py\<close>: the SQLite control plane as a record of tables, one definition per method.
  A table is the list of its rows in insertion order; \<open>INSERT OR IGNORE\<close>, \<open>INSERT OR REPLACE\<close>,
  foreign keys (checked, as \<open>PRAGMA foreign_keys=ON\<close> asks) and the autoincrement counter are written
  out. A transaction that is rolled back returns only its exception: the caller keeps the old
  state. JSON text columns hold the document the text denotes. The theory ends with the step
  relation over all operations that change the database and the invariant every reachable
  database satisfies: the publication pointer names exactly the published generation, the sequence
  numbers in use have no gaps, and the outbox records each activation once, in order.

  The connection is in autocommit mode, so only \<open>acquire_lease\<close> and \<open>activate\<close>, which open a
  transaction, and the single statements are atomic. Registration reads the next sequence number in
  one statement and inserts with it in another: the step relation has the insertion as a step of its
  own, with whatever number an earlier read returned. The other methods of several statements insert
  row by row; a call with one row is a step, so a sequence of steps may stop after any row.
\<close>

subsection \<open>Tables\<close>

datatype gen_state = Validated | ReadModelsReady | Published | Superseded

text \<open>The column \<open>manifest_json\<close>: empty text, text that is not JSON, or a document.\<close>

datatype manifest_text = EmptyText | BadText | Doc json

record generation_row =
  g_id :: string
  g_parent :: "string option"
  g_commit :: string
  g_manifest_hash :: string
  g_manifest :: manifest_text
  g_release :: "string option"
  g_state :: gen_state
  g_seq :: int

record claim_identity_row =
  ci_claim :: string
  ci_subject :: string
  ci_predicate :: string
  ci_object :: string
  ci_polarity :: string
  ci_scope :: "(string, string) dict"

record assertion_row =
  as_id :: string
  as_claim :: string
  as_source :: string
  as_evidence :: evidence
  as_modality :: string

record search_row =
  s_gen :: string
  s_claim :: string
  s_subject :: string
  s_predicate :: string
  s_object :: string

record outbox_row =
  o_event :: int
  o_type :: string
  o_gen :: string
  o_processed :: bool

record lease_row =
  l_holder :: "string option"
  l_expires :: int
  l_token :: int

record control_plane =
  generation :: "generation_row list"
  claim_identity_t :: "claim_identity_row list"
  assertion_t :: "assertion_row list"
  generation_assertion :: "(string \<times> string) list"
  read_model_status :: "((string \<times> string) \<times> (string \<times> string)) list"
  claim_resolution :: "((string \<times> string) \<times> string) list"
  search_index :: "search_row list"
  current_generation_id :: "string option"
  current_release_commit_oid :: "string option"
  current_search_generation_id :: "string option"
  outbox :: "outbox_row list"
  outbox_seq :: int
  publisher_lease :: lease_row

text \<open>The schema script on a new database.\<close>

definition cp_init :: control_plane where
  "cp_init =
     \<lparr>generation = [], claim_identity_t = [], assertion_t = [], generation_assertion = [],
      read_model_status = [], claim_resolution = [], search_index = [],
      current_generation_id = None, current_release_commit_oid = None,
      current_search_generation_id = None, outbox = [], outbox_seq = 0,
      publisher_lease = \<lparr>l_holder = None, l_expires = 0, l_token = 0\<rparr>\<rparr>"

definition find_gen :: "control_plane \<Rightarrow> string \<Rightarrow> generation_row option" where
  "find_gen cp g = find (\<lambda>r. g_id r = g) (generation cp)"

definition gen_ids :: "control_plane \<Rightarrow> string list" where
  "gen_ids cp = map g_id (generation cp)"

text \<open>\<open>INSERT OR REPLACE\<close> under a primary key: the old row goes, the new one comes last.\<close>

definition replace_row :: "'k \<Rightarrow> 'v \<Rightarrow> ('k \<times> 'v) list \<Rightarrow> ('k \<times> 'v) list" where
  "replace_row k v rows = filter (\<lambda>r. fst r \<noteq> k) rows @ [(k, v)]"

text \<open>\<open>UPDATE generation SET ... WHERE generation_id=? [AND ...]\<close>.\<close>

definition update_gen :: "(generation_row \<Rightarrow> bool) \<Rightarrow> (generation_row \<Rightarrow> generation_row) \<Rightarrow> control_plane \<Rightarrow> control_plane" where
  "update_gen P f cp = cp\<lparr>generation := map (\<lambda>r. if P r then f r else r) (generation cp)\<rparr>"

subsection \<open>Single-publisher lease\<close>

definition acquire_lease :: "control_plane \<Rightarrow> string \<Rightarrow> int \<Rightarrow> int \<Rightarrow> int option \<times> control_plane" where
  "acquire_lease cp holder now ttl =
     (let row = publisher_lease cp;
          cur_holder = l_holder row; expires = l_expires row; token = l_token row;
          expired = expires \<le> now
      in if cur_holder \<noteq> None \<and> \<not> expired \<and> cur_holder \<noteq> Some holder then (None, cp)
         else
           (let new_token = (if cur_holder = Some holder \<and> \<not> expired then token else token + 1)
            in (Some new_token,
                cp\<lparr>publisher_lease := \<lparr>l_holder = Some holder, l_expires = now + ttl, l_token = new_token\<rparr>\<rparr>)))"

definition release_lease :: "control_plane \<Rightarrow> string \<Rightarrow> control_plane" where
  "release_lease cp holder =
     (if l_holder (publisher_lease cp) = Some holder
      then cp\<lparr>publisher_lease := (publisher_lease cp)\<lparr>l_holder := None, l_expires := 0\<rparr>\<rparr>
      else cp)"

definition lease_holder :: "control_plane \<Rightarrow> int \<Rightarrow> string option" where
  "lease_holder cp now =
     (let holder = l_holder (publisher_lease cp); expires = l_expires (publisher_lease cp)
      in if holder \<noteq> None \<and> expires > now then holder else None)"

subsection \<open>Registration\<close>

definition next_seq :: "control_plane \<Rightarrow> int" where
  "next_seq cp = foldr max (map g_seq (generation cp)) 0 + 1"

text \<open>The two statements of \<open>register_generation\<close>: the read of the next number above, and the insertion.\<close>

definition insert_generation ::
    "control_plane \<Rightarrow> int \<Rightarrow> string \<Rightarrow> string option \<Rightarrow> string \<Rightarrow> string \<Rightarrow> manifest_text \<Rightarrow> string option \<Rightarrow> control_plane" where
  "insert_generation cp seq gid parent commit_oid mhash mjson release =
     (if gid \<in> set (gen_ids cp) then cp
      else cp\<lparr>generation := generation cp @
             [\<lparr>g_id = gid, g_parent = parent, g_commit = commit_oid, g_manifest_hash = mhash,
               g_manifest = mjson, g_release = release, g_state = Validated, g_seq = seq\<rparr>]\<rparr>)"

definition register_generation ::
    "control_plane \<Rightarrow> string \<Rightarrow> string option \<Rightarrow> string \<Rightarrow> string \<Rightarrow> manifest_text \<Rightarrow> string option \<Rightarrow> control_plane" where
  "register_generation cp gid parent commit_oid mhash mjson release =
     (let seq = next_seq cp in insert_generation cp seq gid parent commit_oid mhash mjson release)"

definition set_release_commit :: "control_plane \<Rightarrow> string \<Rightarrow> string \<Rightarrow> control_plane" where
  "set_release_commit cp gid oid = update_gen (\<lambda>r. g_id r = gid) (\<lambda>r. r\<lparr>g_release := Some oid\<rparr>) cp"

text \<open>\<open>name in inline\<close> followed by \<open>inline[name]\<close>, for whatever JSON value \<open>inline\<close> is.\<close>

definition substring :: "string \<Rightarrow> string \<Rightarrow> bool" where
  "substring t s = list_ex (\<lambda>i. take (length t) (drop i s) = t) [0..<Suc (length s)]"

definition artifact_of :: "json \<Rightarrow> string \<Rightarrow> json option res" where
  "artifact_of inline name =
     (case inline of
        JObj kvs \<Rightarrow> Inr (map_of kvs name)
      | JStr s \<Rightarrow> if substring name s then Inl TypeError else Inr None
      | JList xs \<Rightarrow> if JStr name \<in> set xs then Inl TypeError else Inr None
      | _ \<Rightarrow> Inl TypeError)"

text \<open>\<open>value.get(key, {})\<close> on a JSON value.\<close>

definition get_obj :: "json \<Rightarrow> string \<Rightarrow> json res" where
  "get_obj v k =
     (case v of
        JObj kvs \<Rightarrow> Inr (case map_of kvs k of None \<Rightarrow> JObj [] | Some w \<Rightarrow> w)
      | _ \<Rightarrow> Inl AttributeError)"

definition required_from_manifest :: "control_plane \<Rightarrow> string \<Rightarrow> (string \<times> json) list res" where
  "required_from_manifest cp gid =
     (case find_gen cp gid of
        None \<Rightarrow> Inr []
      | Some row \<Rightarrow>
          (case g_manifest row of
             EmptyText \<Rightarrow> Inr []
           | BadText \<Rightarrow> Inl JSONDecodeError
           | Doc v \<Rightarrow>
               bindR (get_obj v ''descriptor'') (\<lambda>d.
               bindR (get_obj d ''inline_artifacts'') (\<lambda>inline.
               bindR (artifact_of inline ''wiki_files_root'') (\<lambda>w.
               bindR (artifact_of inline ''citation_index_digest'') (\<lambda>c.
               Inr ((case w of None \<Rightarrow> [] | Some x \<Rightarrow> [(''wiki_files'', x)]) @
                    (case c of None \<Rightarrow> [] | Some x \<Rightarrow> [(''citation_index'', x)]))))))))"

subsection \<open>Deduplicated claims and generation membership\<close>

definition upsert_claim_and_assertion :: "control_plane \<Rightarrow> compiled_claim \<Rightarrow> control_plane" where
  "upsert_claim_and_assertion cp c =
     (let i = identity c; a = assertion c;
          cp1 = (if claim_id i \<in> set (map ci_claim (claim_identity_t cp)) then cp
                 else cp\<lparr>claim_identity_t := claim_identity_t cp @
                   [\<lparr>ci_claim = claim_id i, ci_subject = subject_id i, ci_predicate = predicate_id i,
                     ci_object = obj i, ci_polarity = polarity i, ci_scope = sort_key fst (scope i)\<rparr>]\<rparr>)
      in if assertion_id a \<in> set (map as_id (assertion_t cp1)) then cp1
         else cp1\<lparr>assertion_t := assertion_t cp1 @
                [\<lparr>as_id = assertion_id a, as_claim = claim_id i, as_source = a_source_id a,
                  as_evidence = evidence c, as_modality = modality a\<rparr>]\<rparr>)"

fun add_generation_assertions :: "control_plane \<Rightarrow> string \<Rightarrow> string list \<Rightarrow> control_plane" where
  "add_generation_assertions cp gid [] = cp"
| "add_generation_assertions cp gid (a # as) =
     add_generation_assertions
       (if (gid, a) \<in> set (generation_assertion cp) then cp
        else cp\<lparr>generation_assertion := generation_assertion cp @ [(gid, a)]\<rparr>) gid as"

definition generation_assertion_ids :: "control_plane \<Rightarrow> string \<Rightarrow> string list" where
  "generation_assertion_ids cp gid = map snd (filter (\<lambda>r. fst r = gid) (generation_assertion cp))"

definition load_assertion :: "control_plane \<Rightarrow> string \<Rightarrow> compiled_claim option" where
  "load_assertion cp aid =
     (case find (\<lambda>r. as_id r = aid) (assertion_t cp) of
        None \<Rightarrow> None
      | Some a \<Rightarrow>
          (case find (\<lambda>r. ci_claim r = as_claim a) (claim_identity_t cp) of
             None \<Rightarrow> None
           | Some c \<Rightarrow>
               Some \<lparr>identity = \<lparr>claim_id = as_claim a, subject_id = ci_subject c, predicate_id = ci_predicate c,
                        obj = ci_object c, polarity = ci_polarity c, scope = ci_scope c\<rparr>,
                     assertion = \<lparr>assertion_id = aid, a_claim_id = as_claim a, a_source_id = as_source a,
                        evidence_ids = [evidence_id (as_evidence a)], modality = as_modality a\<rparr>,
                     evidence = as_evidence a\<rparr>))"

definition get_assertions :: "control_plane \<Rightarrow> string list \<Rightarrow> compiled_claim list" where
  "get_assertions cp aids = List.map_filter (load_assertion cp) (sort aids)"

definition generation_seq :: "control_plane \<Rightarrow> string \<Rightarrow> int" where
  "generation_seq cp gid = (case find_gen cp gid of None \<Rightarrow> -1 | Some r \<Rightarrow> g_seq r)"

subsection \<open>Read models and pointers\<close>

definition mark_read_model :: "control_plane \<Rightarrow> string \<Rightarrow> string \<Rightarrow> string \<Rightarrow> control_plane res" where
  "mark_read_model cp gid model digest =
     (if gid \<notin> set (gen_ids cp) then Inl IntegrityError
      else Inr (cp\<lparr>read_model_status := replace_row (gid, model) (''ready'', digest) (read_model_status cp)\<rparr>))"

definition set_read_models_ready :: "control_plane \<Rightarrow> string \<Rightarrow> control_plane" where
  "set_read_models_ready cp gid =
     update_gen (\<lambda>r. g_id r = gid \<and> g_state r = Validated) (\<lambda>r. r\<lparr>g_state := ReadModelsReady\<rparr>) cp"

definition current_pointer :: "control_plane \<Rightarrow> string option" where
  "current_pointer cp = current_generation_id cp"

definition current_release_oid :: "control_plane \<Rightarrow> string option" where
  "current_release_oid cp = current_release_commit_oid cp"

definition generation_state :: "control_plane \<Rightarrow> string \<Rightarrow> gen_state option" where
  "generation_state cp gid = map_option g_state (find_gen cp gid)"

definition generation_commit :: "control_plane \<Rightarrow> string \<Rightarrow> string option" where
  "generation_commit cp gid = map_option g_commit (find_gen cp gid)"

subsection \<open>Claim resolution and search index\<close>

definition record_resolution :: "control_plane \<Rightarrow> string \<Rightarrow> string \<Rightarrow> string \<Rightarrow> control_plane res" where
  "record_resolution cp gid cid st =
     (if gid \<notin> set (gen_ids cp) then Inl IntegrityError
      else Inr (cp\<lparr>claim_resolution := replace_row (gid, cid) st (claim_resolution cp)\<rparr>))"

definition resolution_state :: "control_plane \<Rightarrow> string \<Rightarrow> string \<Rightarrow> string option" where
  "resolution_state cp gid cid = map_of (claim_resolution cp) (gid, cid)"

definition accepted_claims :: "control_plane \<Rightarrow> string \<Rightarrow> string list" where
  "accepted_claims cp gid =
     map (snd \<circ> fst) (filter (\<lambda>r. fst (fst r) = gid \<and> snd r = ''accepted'') (claim_resolution cp))"

fun build_search_index :: "control_plane \<Rightarrow> string \<Rightarrow> (string \<times> string \<times> string \<times> string) list \<Rightarrow> control_plane res" where
  "build_search_index cp gid [] = Inr cp"
| "build_search_index cp gid ((cid, su, pr, ob) # es) =
     (if gid \<notin> set (gen_ids cp) then Inl IntegrityError
      else build_search_index
        (cp\<lparr>search_index := filter (\<lambda>r. \<not> (s_gen r = gid \<and> s_claim r = cid)) (search_index cp) @
             [\<lparr>s_gen = gid, s_claim = cid, s_subject = su, s_predicate = pr, s_object = ob\<rparr>]\<rparr>) gid es)"

text \<open>
  SQLite's \<open>LIKE\<close>: \<open>%\<close> any sequence, \<open>_\<close> any one character (a UTF-8 sequence), ASCII letters
  without case.
\<close>

definition lower_ascii :: "char \<Rightarrow> char" where
  "lower_ascii c = (let n = of_char c :: nat in if 65 \<le> n \<and> n \<le> 90 then char_of (n + 32) else c)"

definition skip_utf8 :: "string \<Rightarrow> string" where
  "skip_utf8 s =
     (case s of
        [] \<Rightarrow> []
      | c # cs \<Rightarrow> if 192 \<le> (of_char c :: nat)
                  then dropWhile (\<lambda>d. 128 \<le> (of_char d :: nat) \<and> (of_char d :: nat) < 192) cs else cs)"

lemma length_skip_utf8: "s \<noteq> [] \<Longrightarrow> length (skip_utf8 s) < length s"
  by (cases s) (auto simp: skip_utf8_def less_Suc_eq_le length_dropWhile_le)

function like :: "string \<Rightarrow> string \<Rightarrow> bool" where
  "like [] s = (s = [])"
| "like (p # ps) s =
     (if p = CHR ''%'' then like ps s \<or> (if s = [] then False else like (p # ps) (skip_utf8 s))
      else if s = [] then False
      else if p = CHR ''_'' then like ps (skip_utf8 s)
      else lower_ascii p = lower_ascii (hd s) \<and> like ps (tl s))"
  by pat_completeness auto
termination
  by (relation "measures [\<lambda>(p, s). length s, \<lambda>(p, s). length p]") (auto simp: length_skip_utf8)

declare like.simps [simp del]

definition search_index_lookup :: "control_plane \<Rightarrow> string \<Rightarrow> string \<Rightarrow> (string \<times> string \<times> string \<times> string) list" where
  "search_index_lookup cp gid term =
     (let pat = ''%'' @ term @ ''%''
      in map (\<lambda>r. (s_claim r, s_subject r, s_predicate r, s_object r))
           (filter (\<lambda>r. s_gen r = gid \<and> (like pat (s_subject r) \<or> like pat (s_predicate r) \<or> like pat (s_object r)))
             (search_index cp)))"

definition set_search_pointer :: "control_plane \<Rightarrow> string \<Rightarrow> control_plane" where
  "set_search_pointer cp gid = cp\<lparr>current_search_generation_id := Some gid\<rparr>"

definition current_search_pointer :: "control_plane \<Rightarrow> string option" where
  "current_search_pointer cp = current_search_generation_id cp"

subsection \<open>Authoritative activation\<close>

text \<open>The loop over the required read models, inside the transaction.\<close>

fun check_read_models :: "control_plane \<Rightarrow> string \<Rightarrow> (string \<times> json) list \<Rightarrow> unit res" where
  "check_read_models cp gid [] = Inr ()"
| "check_read_models cp gid ((model, expected) # rest) =
     (case map_of (read_model_status cp) (gid, model) of
        None \<Rightarrow> Inl ActivationError
      | Some (st, digest) \<Rightarrow>
          if st \<noteq> ''ready'' then Inl ActivationError
          else if JStr digest \<noteq> expected then Inl ActivationError
          else check_read_models cp gid rest)"

definition append_outbox :: "control_plane \<Rightarrow> string \<Rightarrow> string \<Rightarrow> control_plane" where
  "append_outbox cp ty gid =
     cp\<lparr>outbox := outbox cp @ [\<lparr>o_event = outbox_seq cp + 1, o_type = ty, o_gen = gid, o_processed = False\<rparr>],
        outbox_seq := outbox_seq cp + 1\<rparr>"

definition activate :: "control_plane \<Rightarrow> string \<Rightarrow> string option \<Rightarrow> string \<Rightarrow> control_plane res" where
  "activate cp gid expected_parent release =
     bindR (required_from_manifest cp gid) (\<lambda>required.
     if required = [] then Inl ActivationError
     else
       let cur = current_generation_id cp
       in if cur \<noteq> expected_parent then Inl CASConflict
          else if generation_state cp gid \<noteq> Some ReadModelsReady then Inl ActivationError
          else
            (case find_gen cp gid of
               None \<Rightarrow> Inl TypeError
             | Some row \<Rightarrow>
                 if g_release row = None \<or> g_release row = Some [] \<or> g_release row \<noteq> Some release
                 then Inl ActivationError
                 else
                   bindR (check_read_models cp gid required) (\<lambda>_.
                   let cp1 = update_gen (\<lambda>r. g_id r = gid \<and> g_state r = ReadModelsReady)
                               (\<lambda>r. r\<lparr>g_state := Published\<rparr>) cp;
                       cp2 = (case cur of
                                None \<Rightarrow> cp1
                              | Some c \<Rightarrow> update_gen (\<lambda>r. g_id r = c) (\<lambda>r. r\<lparr>g_state := Superseded\<rparr>) cp1)
                   in if current_generation_id cp2 \<noteq> expected_parent then Inl CASConflict
                      else
                        let cp3 = cp2\<lparr>current_generation_id := Some gid,
                                      current_release_commit_oid := Some release\<rparr>
                        in Inr (append_outbox cp3 ''release_mirror_requested'' gid))))"

subsection \<open>Outbox relay\<close>

definition pending_outbox :: "control_plane \<Rightarrow> (int \<times> string \<times> string) list" where
  "pending_outbox cp =
     map (\<lambda>r. (o_event r, o_type r, o_gen r))
       (sort_key o_event (filter (\<lambda>r. \<not> o_processed r) (outbox cp)))"

definition mark_outbox_processed :: "control_plane \<Rightarrow> int \<Rightarrow> control_plane" where
  "mark_outbox_processed cp eid =
     cp\<lparr>outbox := map (\<lambda>r. if o_event r = eid then r\<lparr>o_processed := True\<rparr> else r) (outbox cp)\<rparr>"

definition orphan_generations :: "control_plane \<Rightarrow> string list" where
  "orphan_generations cp =
     map g_id (filter (\<lambda>r. g_state r = Validated \<or> g_state r = ReadModelsReady) (generation cp))"

subsection \<open>Frames\<close>

lemma update_gen_simps [simp]:
  "generation (update_gen P f cp) = map (\<lambda>r. if P r then f r else r) (generation cp)"
  "claim_identity_t (update_gen P f cp) = claim_identity_t cp"
  "assertion_t (update_gen P f cp) = assertion_t cp"
  "generation_assertion (update_gen P f cp) = generation_assertion cp"
  "read_model_status (update_gen P f cp) = read_model_status cp"
  "claim_resolution (update_gen P f cp) = claim_resolution cp"
  "search_index (update_gen P f cp) = search_index cp"
  "current_generation_id (update_gen P f cp) = current_generation_id cp"
  "current_release_commit_oid (update_gen P f cp) = current_release_commit_oid cp"
  "current_search_generation_id (update_gen P f cp) = current_search_generation_id cp"
  "outbox (update_gen P f cp) = outbox cp"
  "outbox_seq (update_gen P f cp) = outbox_seq cp"
  "publisher_lease (update_gen P f cp) = publisher_lease cp"
  by (simp_all add: update_gen_def)

lemma append_outbox_simps [simp]:
  "generation (append_outbox cp ty g) = generation cp"
  "read_model_status (append_outbox cp ty g) = read_model_status cp"
  "claim_resolution (append_outbox cp ty g) = claim_resolution cp"
  "search_index (append_outbox cp ty g) = search_index cp"
  "current_generation_id (append_outbox cp ty g) = current_generation_id cp"
  "current_release_commit_oid (append_outbox cp ty g) = current_release_commit_oid cp"
  "current_search_generation_id (append_outbox cp ty g) = current_search_generation_id cp"
  "publisher_lease (append_outbox cp ty g) = publisher_lease cp"
  "outbox_seq (append_outbox cp ty g) = outbox_seq cp + 1"
  "outbox (append_outbox cp ty g) = outbox cp @
     [\<lparr>o_event = outbox_seq cp + 1, o_type = ty, o_gen = g, o_processed = False\<rparr>]"
  by (simp_all add: append_outbox_def)

lemma find_append: "find P (xs @ ys) = (case find P xs of None \<Rightarrow> find P ys | Some x \<Rightarrow> Some x)"
  by (induction xs) simp_all

lemma find_gen_SomeD: "find_gen cp g = Some r \<Longrightarrow> r \<in> set (generation cp) \<and> g_id r = g"
  by (auto simp: find_gen_def find_Some_iff)

lemma find_gen_None: "find_gen cp g = None \<longleftrightarrow> g \<notin> set (gen_ids cp)"
  by (auto simp: find_gen_def gen_ids_def find_None_iff)

lemma find_gen_distinct:
  "distinct (gen_ids cp) \<Longrightarrow> r \<in> set (generation cp) \<Longrightarrow> find_gen cp (g_id r) = Some r"
proof (cases "find_gen cp (g_id r)")
  case None
  assume "r \<in> set (generation cp)"
  with None show ?thesis by (auto simp: find_gen_None gen_ids_def)
next
  case (Some r')
  assume "distinct (gen_ids cp)" "r \<in> set (generation cp)"
  with find_gen_SomeD [OF Some] Some show ?thesis
    by (auto simp: gen_ids_def distinct_map inj_on_def)
qed

lemma gen_ids_update_gen:
  "(\<And>r. g_id (f r) = g_id r) \<Longrightarrow> gen_ids (update_gen P f cp) = gen_ids cp"
  by (simp add: gen_ids_def)

lemma replace_row_keys: "set (map fst (replace_row k v rows)) = insert k (set (map fst rows))"
  by (auto simp: replace_row_def)

lemma map_of_replace_row: "map_of (replace_row k v rows) k' = (if k' = k then Some v else map_of rows k')"
proof -
  have "map_of (filter (\<lambda>r. fst r \<noteq> k) rows) k' = (if k' = k then None else map_of rows k')"
    by (induction rows) auto
  then show ?thesis by (auto simp: replace_row_def map_add_def split: option.splits)
qed

interpretation row_store: key_store "map_of :: ('k \<times> 'v) list \<Rightarrow> 'k \<Rightarrow> 'v option" replace_row
  by unfold_locales (rule map_of_replace_row)

subsection \<open>The invariant\<close>

definition activated :: "control_plane \<Rightarrow> string set" where
  "activated cp = set (map g_id (filter (\<lambda>r. g_state r \<in> {Published, Superseded}) (generation cp)))"

definition gens_ok :: "control_plane \<Rightarrow> bool" where
  "gens_ok cp \<longleftrightarrow> distinct (gen_ids cp) \<and> set (map g_seq (generation cp)) = {1..<next_seq cp}"

definition pointer_ok :: "control_plane \<Rightarrow> bool" where
  "pointer_ok cp \<longleftrightarrow>
     (\<forall>r\<in>set (generation cp). g_state r = Published \<longleftrightarrow> current_generation_id cp = Some (g_id r)) \<and>
     set_option (current_generation_id cp) \<subseteq> set (gen_ids cp)"

definition refs_ok :: "control_plane \<Rightarrow> bool" where
  "refs_ok cp \<longleftrightarrow>
     (\<forall>r\<in>set (read_model_status cp). fst (fst r) \<in> set (gen_ids cp)) \<and>
     (\<forall>r\<in>set (claim_resolution cp). fst (fst r) \<in> set (gen_ids cp)) \<and>
     (\<forall>r\<in>set (search_index cp). s_gen r \<in> set (gen_ids cp))"

definition outbox_ok :: "control_plane \<Rightarrow> bool" where
  "outbox_ok cp \<longleftrightarrow>
     outbox_seq cp = int (length (outbox cp)) \<and>
     map o_event (outbox cp) = numbered (length (outbox cp)) \<and>
     distinct (map o_gen (outbox cp)) \<and>
     set (map o_gen (outbox cp)) = activated cp \<and>
     current_generation_id cp = (if outbox cp = [] then None else Some (o_gen (last (outbox cp))))"

definition cp_inv :: "control_plane \<Rightarrow> bool" where
  "cp_inv cp \<longleftrightarrow> gens_ok cp \<and> pointer_ok cp \<and> refs_ok cp \<and> outbox_ok cp"

lemmas cp_inv_defs = cp_inv_def gens_ok_def pointer_ok_def refs_ok_def outbox_ok_def activated_def gen_ids_def

lemma cp_inv_init: "cp_inv cp_init"
  by (simp add: cp_inv_defs next_seq_def cp_init_def)

text \<open>Operations that leave the tables of the invariant alone keep it.\<close>

lemma cp_inv_frame:
  assumes "cp_inv cp"
    and eqs: "generation cp' = generation cp" "current_generation_id cp' = current_generation_id cp"
      "outbox cp' = outbox cp" "outbox_seq cp' = outbox_seq cp"
    and refs: "\<forall>r\<in>set (read_model_status cp'). fst (fst r) \<in> set (gen_ids cp)"
      "\<forall>r\<in>set (claim_resolution cp'). fst (fst r) \<in> set (gen_ids cp)"
      "\<forall>r\<in>set (search_index cp'). s_gen r \<in> set (gen_ids cp)"
  shows "cp_inv cp'"
proof -
  have e: "gen_ids cp' = gen_ids cp" "activated cp' = activated cp"
    by (simp_all only: gen_ids_def activated_def eqs)
  then have "gens_ok cp' = gens_ok cp" "pointer_ok cp' = pointer_ok cp" "outbox_ok cp' = outbox_ok cp"
    by (simp_all only: gens_ok_def next_seq_def pointer_ok_def outbox_ok_def eqs)
  moreover have "refs_ok cp'" unfolding refs_ok_def e using refs by (intro conjI)
  ultimately show ?thesis using assms(1) by (simp only: cp_inv_def)
qed

lemma cp_inv_same_tables:
  assumes "cp_inv cp"
    and "generation cp' = generation cp" "current_generation_id cp' = current_generation_id cp"
    and "outbox cp' = outbox cp" "outbox_seq cp' = outbox_seq cp"
    and "read_model_status cp' = read_model_status cp" "claim_resolution cp' = claim_resolution cp"
    and "search_index cp' = search_index cp"
  shows "cp_inv cp'"
  using assms(1) by (intro cp_inv_frame [OF assms(1-5)]) (simp_all add: assms(6-8) cp_inv_def refs_ok_def)

text \<open>An update of generation rows that keeps ids, numbers and whether a row is activated or published.\<close>

lemma cp_inv_update_gen:
  assumes "cp_inv cp"
    and "\<And>r. g_id (f r) = g_id r" "\<And>r. g_seq (f r) = g_seq r"
    and "\<And>r. r \<in> set (generation cp) \<Longrightarrow> P r \<Longrightarrow> g_state (f r) = g_state r \<or>
           (g_state r \<notin> {Published, Superseded} \<and> g_state (f r) \<notin> {Published, Superseded})"
  shows "cp_inv (update_gen P f cp)"
proof -
  have ids: "gen_ids (update_gen P f cp) = gen_ids cp" using assms(2) by (rule gen_ids_update_gen)
  have seqs: "map g_seq (generation (update_gen P f cp)) = map g_seq (generation cp)"
    using assms(3) by simp
  have st: "g_state (if P r then f r else r) = s \<longleftrightarrow> g_state r = s" if "r \<in> set (generation cp)" "s \<in> {Published, Superseded}" for r s
    using assms(4) [of r] that by auto
  have "activated (update_gen P f cp) = activated cp"
  proof -
    let ?Q = "\<lambda>r. g_state r \<in> {Published, Superseded}" and ?h = "\<lambda>r. if P r then f r else r"
    have "filter (?Q \<circ> ?h) (generation cp) = filter ?Q (generation cp)"
      using st by (intro filter_cong) auto
    then have "map g_id (filter ?Q (map ?h (generation cp))) = map (g_id \<circ> ?h) (filter ?Q (generation cp))"
      by (simp add: filter_map)
    also have "\<dots> = map g_id (filter ?Q (generation cp))" using assms(2) by simp
    finally show ?thesis by (simp add: activated_def)
  qed
  moreover have "pointer_ok (update_gen P f cp) = pointer_ok cp"
    unfolding pointer_ok_def ids Ball_set_list_all update_gen_simps list.pred_map comp_def
    using st [of _ Published] assms(2) by (simp add: list_all_iff)
  ultimately show ?thesis
    using assms(1) ids unfolding cp_inv_def gens_ok_def next_seq_def seqs by (simp add: refs_ok_def outbox_ok_def)
qed

subsection \<open>What activation does\<close>

lemma check_read_models_iff:
  "check_read_models cp gid req = Inr u \<longleftrightarrow>
     (\<forall>(m, d)\<in>set req. \<exists>dg. map_of (read_model_status cp) (gid, m) = Some (''ready'', dg) \<and> d = JStr dg)"
  by (induction cp gid req rule: check_read_models.induct) (auto split: option.splits prod.splits if_splits)

text \<open>The guards of the transaction, all of them.\<close>

definition activation_ready :: "control_plane \<Rightarrow> string \<Rightarrow> string option \<Rightarrow> string \<Rightarrow> bool" where
  "activation_ready cp gid ep rel \<longleftrightarrow>
     current_generation_id cp = ep \<and> rel \<noteq> [] \<and>
     (\<exists>row. find_gen cp gid = Some row \<and> g_state row = ReadModelsReady \<and> g_release row = Some rel) \<and>
     (\<exists>req. required_from_manifest cp gid = Inr req \<and> req \<noteq> [] \<and>
        (\<forall>(m, d)\<in>set req. \<exists>dg. map_of (read_model_status cp) (gid, m) = Some (''ready'', dg) \<and> d = JStr dg))"

text \<open>The generation table after the two state updates of the transaction.\<close>

definition publish_row :: "string \<Rightarrow> string option \<Rightarrow> generation_row \<Rightarrow> generation_row" where
  "publish_row gid cur r =
     (let r1 = (if g_id r = gid \<and> g_state r = ReadModelsReady then r\<lparr>g_state := Published\<rparr> else r)
      in if cur = Some (g_id r1) then r1\<lparr>g_state := Superseded\<rparr> else r1)"

definition activated_state :: "control_plane \<Rightarrow> string \<Rightarrow> string \<Rightarrow> control_plane" where
  "activated_state cp gid rel =
     append_outbox (cp\<lparr>generation := map (publish_row gid (current_generation_id cp)) (generation cp),
       current_generation_id := Some gid, current_release_commit_oid := Some rel\<rparr>)
       ''release_mirror_requested'' gid"

lemma activate_Inr_iff:
  "activate cp gid ep rel = Inr cp' \<longleftrightarrow> activation_ready cp gid ep rel \<and> cp' = activated_state cp gid rel"
proof -
  let ?P = "\<lambda>r. g_id r = gid \<and> g_state r = ReadModelsReady"
  let ?cp1 = "update_gen ?P (\<lambda>r. r\<lparr>g_state := Published\<rparr>) cp"
  have upd: "(case current_generation_id cp of None \<Rightarrow> ?cp1
       | Some c \<Rightarrow> update_gen (\<lambda>r. g_id r = c) (\<lambda>r. r\<lparr>g_state := Superseded\<rparr>) ?cp1)
     = cp\<lparr>generation := map (publish_row gid (current_generation_id cp)) (generation cp)\<rparr>"
    by (cases "current_generation_id cp") (auto simp: update_gen_def publish_row_def Let_def)
  show ?thesis
    unfolding activate_def Let_def upd
    by (auto simp: bindR_Inr_iff activation_ready_def activated_state_def check_read_models_iff
        generation_state_def split: if_splits option.splits)
qed

lemma publish_row_simps [simp]:
  "g_id (publish_row gid cur r) = g_id r" "g_seq (publish_row gid cur r) = g_seq r"
  "g_commit (publish_row gid cur r) = g_commit r" "g_release (publish_row gid cur r) = g_release r"
  "g_manifest (publish_row gid cur r) = g_manifest r"
  by (simp_all add: publish_row_def Let_def)

lemma activated_state_simps [simp]:
  "generation (activated_state cp gid rel) = map (publish_row gid (current_generation_id cp)) (generation cp)"
  "current_generation_id (activated_state cp gid rel) = Some gid"
  "current_release_commit_oid (activated_state cp gid rel) = Some rel"
  "current_search_generation_id (activated_state cp gid rel) = current_search_generation_id cp"
  "read_model_status (activated_state cp gid rel) = read_model_status cp"
  "claim_resolution (activated_state cp gid rel) = claim_resolution cp"
  "search_index (activated_state cp gid rel) = search_index cp"
  "publisher_lease (activated_state cp gid rel) = publisher_lease cp"
  "gen_ids (activated_state cp gid rel) = gen_ids cp"
  "outbox_seq (activated_state cp gid rel) = outbox_seq cp + 1"
  "outbox (activated_state cp gid rel) = outbox cp @
     [\<lparr>o_event = outbox_seq cp + 1, o_type = ''release_mirror_requested'', o_gen = gid, o_processed = False\<rparr>]"
  by (simp_all add: activated_state_def gen_ids_def)

text \<open>Under the invariant the new current generation is not the old one, so the states are exact.\<close>

lemma publish_row_state:
  assumes "cp_inv cp" and "activation_ready cp gid ep rel" and "r \<in> set (generation cp)"
  shows "g_state (publish_row gid (current_generation_id cp) r) =
    (if g_id r = gid then Published
     else if current_generation_id cp = Some (g_id r) then Superseded else g_state r)"
proof -
  from assms(2) obtain row where row: "find_gen cp gid = Some row" "g_state row = ReadModelsReady"
    by (auto simp: activation_ready_def)
  have "row = r" if "g_id r = gid"
    using find_gen_distinct [OF _ assms(3)] row(1) assms(1) that by (auto simp: cp_inv_def gens_ok_def)
  moreover have "current_generation_id cp \<noteq> Some gid"
    using find_gen_SomeD [OF row(1)] row(2) assms(1) by (auto simp: cp_inv_def pointer_ok_def)
  ultimately show ?thesis using row(2) by (auto simp: publish_row_def Let_def)
qed

lemma activated_activated_state:
  assumes "cp_inv cp" and "activation_ready cp gid ep rel"
  shows "activated (activated_state cp gid rel) = insert gid (activated cp)" and "gid \<notin> activated cp"
proof -
  from assms(2) obtain row where row: "find_gen cp gid = Some row" "g_state row = ReadModelsReady"
    by (auto simp: activation_ready_def)
  have pub: "\<And>r. r \<in> set (generation cp) \<Longrightarrow> current_generation_id cp = Some (g_id r) \<Longrightarrow> g_state r = Published"
    using assms(1) by (auto simp: cp_inv_def pointer_ok_def)
  note st = publish_row_state [OF assms]
  show "activated (activated_state cp gid rel) = insert gid (activated cp)"
  proof (rule set_eqI)
    fix x
    have "x \<in> activated (activated_state cp gid rel) \<longleftrightarrow>
       (\<exists>r\<in>set (generation cp). g_id r = x \<and> g_state (publish_row gid (current_generation_id cp) r) \<in> {Published, Superseded})"
      by (force simp: activated_def image_iff)
    also have "\<dots> \<longleftrightarrow> (\<exists>r\<in>set (generation cp). g_id r = x \<and> (g_id r = gid \<or> g_state r \<in> {Published, Superseded}))"
      using st pub by (intro bex_cong) auto
    also have "\<dots> \<longleftrightarrow> x \<in> insert gid (activated cp)"
      using find_gen_SomeD [OF row(1)] by (auto simp: activated_def)
    finally show "x \<in> activated (activated_state cp gid rel) \<longleftrightarrow> x \<in> insert gid (activated cp)" .
  qed
  have dis: "distinct (gen_ids cp)" using assms(1) by (simp add: cp_inv_def gens_ok_def)
  show "gid \<notin> activated cp"
  proof
    assume "gid \<in> activated cp"
    then obtain r where "r \<in> set (generation cp)" "g_id r = gid" "g_state r \<in> {Published, Superseded}"
      by (auto simp: activated_def)
    with find_gen_distinct [OF dis, of r] row show False by auto
  qed
qed

lemma cp_inv_activate:
  assumes "cp_inv cp" and "activate cp gid ep rel = Inr cp'"
  shows "cp_inv cp'"
proof -
  from assms(2) have ready: "activation_ready cp gid ep rel" and cp': "cp' = activated_state cp gid rel"
    by (simp_all add: activate_Inr_iff)
  from ready have gid: "gid \<in> set (gen_ids cp)"
    by (metis activation_ready_def find_gen_None option.distinct(1))
  have seqs: "map g_seq (generation cp') = map g_seq (generation cp)" by (simp add: cp' comp_def)
  have "gens_ok cp'"
    using assms(1) unfolding cp_inv_def gens_ok_def next_seq_def seqs by (simp add: cp')
  moreover have "pointer_ok cp'"
    using publish_row_state [OF assms(1) ready] gid assms(1) by (auto simp: cp' cp_inv_def pointer_ok_def)
  moreover have "refs_ok cp'" using assms(1) by (simp add: cp' cp_inv_def refs_ok_def)
  moreover have "outbox_ok cp'"
    using assms(1) activated_activated_state [OF assms(1) ready]
    by (auto simp: cp' cp_inv_def outbox_ok_def)
  ultimately show ?thesis by (simp add: cp_inv_def)
qed

subsection \<open>Every operation keeps the invariant\<close>

lemma next_seq_insert:
  "next_seq (insert_generation cp seq gid parent oid mh mj rel) =
     (if gid \<in> set (gen_ids cp) then next_seq cp else max (next_seq cp) (seq + 1))"
  by (auto simp: insert_generation_def next_seq_def foldr_max_snoc max_def simp del: foldr_append)

lemma next_seq_pos: "1 \<le> next_seq cp"
proof -
  have "0 \<le> foldr max xs (0::int)" for xs by (induction xs) auto
  then show ?thesis by (simp add: next_seq_def)
qed

lemma cp_inv_insert:
  assumes "cp_inv cp" and "1 \<le> seq" "seq \<le> next_seq cp"
  shows "cp_inv (insert_generation cp seq gid parent oid mh mj rel)"
proof (cases "gid \<in> set (gen_ids cp)")
  case True
  with assms show ?thesis by (simp add: insert_generation_def)
next
  case False
  let ?cp = "insert_generation cp seq gid parent oid mh mj rel"
  have cp: "?cp = cp\<lparr>generation := generation cp @
      [\<lparr>g_id = gid, g_parent = parent, g_commit = oid, g_manifest_hash = mh, g_manifest = mj,
        g_release = rel, g_state = Validated, g_seq = seq\<rparr>]\<rparr>"
    using False by (simp add: insert_generation_def)
  have ids: "gen_ids ?cp = gen_ids cp @ [gid]" by (simp add: cp gen_ids_def)
  have seqs: "set (map g_seq (generation ?cp)) = insert seq (set (map g_seq (generation cp)))" by (simp add: cp)
  have "activated ?cp = activated cp" by (simp add: cp activated_def)
  moreover have "current_generation_id cp \<noteq> Some gid"
    using assms False by (auto simp: cp_inv_def pointer_ok_def)
  moreover have "gens_ok ?cp"
  proof -
    have "insert seq {1..<next_seq cp} = {1..<max (next_seq cp) (seq + 1)}" using assms(2,3) by auto
    with assms(1) False show ?thesis
      unfolding gens_ok_def ids seqs next_seq_insert by (simp add: cp_inv_def gens_ok_def)
  qed
  moreover have "refs_ok ?cp"
    unfolding refs_ok_def ids using assms by (auto simp: cp_inv_def refs_ok_def cp)
  moreover have "pointer_ok ?cp"
    unfolding pointer_ok_def ids using assms calculation(2) by (auto simp: cp_inv_def pointer_ok_def cp)
  moreover have "outbox_ok ?cp"
    unfolding outbox_ok_def calculation(1) using assms by (simp add: cp_inv_def outbox_ok_def cp)
  ultimately show ?thesis by (simp only: cp_inv_def)
qed

lemma add_generation_assertions_frame:
  "cp_inv cp \<Longrightarrow> cp_inv (add_generation_assertions cp gid as)"
proof (induction cp gid as rule: add_generation_assertions.induct)
  case (2 cp gid a as)
  have "cp_inv (if (gid, a) \<in> set (generation_assertion cp) then cp
        else cp\<lparr>generation_assertion := generation_assertion cp @ [(gid, a)]\<rparr>)"
    using 2 by (auto intro: cp_inv_same_tables)
  with 2 show ?case by simp
qed simp

lemma cp_inv_upsert: "cp_inv cp \<Longrightarrow> cp_inv (upsert_claim_and_assertion cp c)"
  by (erule cp_inv_same_tables) (simp_all add: upsert_claim_and_assertion_def Let_def)

lemma cp_inv_acquire: "cp_inv cp \<Longrightarrow> cp_inv (snd (acquire_lease cp h n t))"
  by (erule cp_inv_same_tables) (simp_all add: acquire_lease_def Let_def)

lemma cp_inv_release: "cp_inv cp \<Longrightarrow> cp_inv (release_lease cp h)"
  by (erule cp_inv_same_tables) (simp_all add: release_lease_def)

lemma cp_inv_set_search_pointer: "cp_inv cp \<Longrightarrow> cp_inv (set_search_pointer cp g)"
  by (erule cp_inv_same_tables) (simp_all add: set_search_pointer_def)

lemma cp_inv_set_release_commit: "cp_inv cp \<Longrightarrow> cp_inv (set_release_commit cp g oid)"
  unfolding set_release_commit_def by (rule cp_inv_update_gen) simp_all

lemma cp_inv_set_read_models_ready: "cp_inv cp \<Longrightarrow> cp_inv (set_read_models_ready cp g)"
  unfolding set_read_models_ready_def by (rule cp_inv_update_gen) auto

lemma cp_inv_mark_read_model:
  "cp_inv cp \<Longrightarrow> mark_read_model cp g m d = Inr cp' \<Longrightarrow> cp_inv cp'"
  by (rule cp_inv_frame [of cp])
    (auto simp: mark_read_model_def replace_row_def cp_inv_def refs_ok_def split: if_splits)

lemma cp_inv_record_resolution:
  "cp_inv cp \<Longrightarrow> record_resolution cp g c st = Inr cp' \<Longrightarrow> cp_inv cp'"
  by (rule cp_inv_frame [of cp])
    (auto simp: record_resolution_def replace_row_def cp_inv_def refs_ok_def split: if_splits)

lemma cp_inv_build_search_index:
  "cp_inv cp \<Longrightarrow> build_search_index cp g es = Inr cp' \<Longrightarrow> cp_inv cp'"
proof (induction cp g es rule: build_search_index.induct)
  case (2 cp g cid su pr ob es)
  let ?cp1 = "cp\<lparr>search_index := filter (\<lambda>r. \<not> (s_gen r = g \<and> s_claim r = cid)) (search_index cp) @
             [\<lparr>s_gen = g, s_claim = cid, s_subject = su, s_predicate = pr, s_object = ob\<rparr>]\<rparr>"
  from "2.prems"(2) have g: "g \<in> set (gen_ids cp)" and r: "build_search_index ?cp1 g es = Inr cp'"
    by (simp_all split: if_splits)
  have "cp_inv ?cp1"
    by (rule cp_inv_frame [of cp]) (use "2.prems"(1) g in \<open>auto simp: cp_inv_def refs_ok_def\<close>)
  with "2.IH" g r show ?case by simp
qed simp

lemma cp_inv_mark_outbox: "cp_inv cp \<Longrightarrow> cp_inv (mark_outbox_processed cp eid)"
proof -
  assume inv: "cp_inv cp"
  let ?cp = "mark_outbox_processed cp eid"
  have m: "map o_event (outbox ?cp) = map o_event (outbox cp)" "map o_gen (outbox ?cp) = map o_gen (outbox cp)"
      "length (outbox ?cp) = length (outbox cp)"
    by (simp_all add: mark_outbox_processed_def)
  have l: "outbox cp \<noteq> [] \<Longrightarrow> o_gen (last (outbox ?cp)) = o_gen (last (outbox cp))"
    by (simp add: mark_outbox_processed_def last_map)
  have e: "(outbox ?cp = []) = (outbox cp = [])" "outbox_seq ?cp = outbox_seq cp" "generation ?cp = generation cp"
      "current_generation_id ?cp = current_generation_id cp"
      "read_model_status ?cp = read_model_status cp" "claim_resolution ?cp = claim_resolution cp"
      "search_index ?cp = search_index cp"
    by (simp_all add: mark_outbox_processed_def)
  have a: "gen_ids ?cp = gen_ids cp" "activated ?cp = activated cp" by (simp_all only: gen_ids_def activated_def e)
  have "gens_ok ?cp = gens_ok cp" "pointer_ok ?cp = pointer_ok cp" "refs_ok ?cp = refs_ok cp"
    by (simp_all only: gens_ok_def next_seq_def pointer_ok_def refs_ok_def e a)
  moreover have "outbox_ok ?cp = outbox_ok cp"
    unfolding outbox_ok_def m e a using l by (cases "outbox cp = []") simp_all
  ultimately show ?thesis using inv by (simp only: cp_inv_def)
qed

subsection \<open>Reachable databases\<close>

text \<open>
  The number of an insertion was read before, perhaps long before: any number from \<open>1\<close> to the next one
  is possible, and \<open>stale_read_is_a_step\<close> shows that every earlier read lies in this range.
\<close>

inductive cp_step :: "control_plane \<Rightarrow> control_plane \<Rightarrow> bool" where
  acquire: "cp_step cp (snd (acquire_lease cp h now ttl))"
| release: "cp_step cp (release_lease cp h)"
| insert: "1 \<le> seq \<Longrightarrow> seq \<le> next_seq cp \<Longrightarrow> cp_step cp (insert_generation cp seq gid parent oid mh mj rel)"
| set_release: "cp_step cp (set_release_commit cp gid oid)"
| upsert: "cp_step cp (upsert_claim_and_assertion cp c)"
| membership: "cp_step cp (add_generation_assertions cp gid as)"
| mark: "mark_read_model cp gid m d = Inr cp' \<Longrightarrow> cp_step cp cp'"
| ready: "cp_step cp (set_read_models_ready cp gid)"
| resolve: "record_resolution cp gid cid st = Inr cp' \<Longrightarrow> cp_step cp cp'"
| index: "build_search_index cp gid es = Inr cp' \<Longrightarrow> cp_step cp cp'"
| search_pointer: "cp_step cp (set_search_pointer cp gid)"
| activation: "activate cp gid ep rel = Inr cp' \<Longrightarrow> cp_step cp cp'"
| outbox_done: "cp_step cp (mark_outbox_processed cp eid)"

inductive cp_reachable :: "control_plane \<Rightarrow> bool" where
  start: "cp_reachable cp_init"
| step: "cp_reachable cp \<Longrightarrow> cp_step cp cp' \<Longrightarrow> cp_reachable cp'"

lemmas cp_inv_intros = cp_inv_acquire cp_inv_release cp_inv_insert cp_inv_set_release_commit cp_inv_upsert
  add_generation_assertions_frame cp_inv_mark_read_model cp_inv_set_read_models_ready
  cp_inv_record_resolution cp_inv_build_search_index cp_inv_set_search_pointer cp_inv_activate
  cp_inv_mark_outbox

lemma cp_step_inv: "cp_step cp cp' \<Longrightarrow> cp_inv cp \<Longrightarrow> cp_inv cp'"
  by (induction rule: cp_step.induct) (erule cp_inv_intros, (assumption+)?)+

lemma cp_step_register: "cp_step cp (register_generation cp gid parent oid mh mj rel)"
  unfolding register_generation_def Let_def by (rule cp_step.insert) (simp_all add: next_seq_pos)

lemma reachable_cp_inv: "cp_reachable cp \<Longrightarrow> cp_inv cp"
  by (induction rule: cp_reachable.induct) (auto intro: cp_inv_init cp_step_inv)

lemma next_seq_same: "map g_seq (generation cp') = map g_seq (generation cp) \<Longrightarrow> next_seq cp' = next_seq cp"
  by (simp add: next_seq_def)

lemma next_seq_update_gen: "(\<And>r. g_seq (f r) = g_seq r) \<Longrightarrow> next_seq (update_gen P f cp) = next_seq cp"
  by (rule next_seq_same) simp

lemma build_search_index_seq: "build_search_index cp g es = Inr cp' \<Longrightarrow> next_seq cp' = next_seq cp"
  by (induction cp g es rule: build_search_index.induct) (auto simp: next_seq_def split: if_splits)

lemma add_generation_assertions_seq: "next_seq (add_generation_assertions cp g as) = next_seq cp"
  by (induction cp g as rule: add_generation_assertions.induct) (auto simp: next_seq_def)

text \<open>The next number only grows, so a number read earlier is one of those an insertion may use.\<close>

lemma cp_step_next_seq: "cp_step cp cp' \<Longrightarrow> next_seq cp \<le> next_seq cp'"
proof (induction rule: cp_step.induct)
  case (insert seq cp)
  then show ?case by (simp add: next_seq_insert)
next
  case (activation cp gid ep rel cp')
  then have "next_seq cp' = next_seq cp" by (intro next_seq_same) (simp add: activate_Inr_iff comp_def)
  then show ?case by simp
next
  case (index cp gid es cp')
  then show ?case by (simp add: build_search_index_seq)
qed (auto simp: set_release_commit_def set_read_models_ready_def next_seq_update_gen add_generation_assertions_seq
    intro!: eq_refl [OF next_seq_same [symmetric]]
    simp: acquire_lease_def release_lease_def upsert_claim_and_assertion_def mark_read_model_def record_resolution_def
      set_search_pointer_def mark_outbox_processed_def Let_def split: if_splits)

lemma stale_read_is_a_step:
  assumes "cp_step\<^sup>*\<^sup>* cp0 cp"
  shows "cp_step cp (insert_generation cp (next_seq cp0) gid parent oid mh mj rel)"
proof -
  from assms have "next_seq cp0 \<le> next_seq cp"
    by (induction rule: rtranclp_induct) (auto dest: cp_step_next_seq)
  then show ?thesis by (intro cp_step.insert) (simp_all add: next_seq_pos)
qed

text \<open>
  Two registrations whose reads both precede their insertions give two generations one number: the
  column has no uniqueness constraint and the two statements share no transaction.
\<close>

lemma duplicate_seq_reachable:
  "\<exists>cp. cp_reachable cp \<and> generation_state cp ''g'' \<noteq> None \<and> generation_state cp ''h'' \<noteq> None \<and>
     generation_seq cp ''g'' = generation_seq cp ''h''"
proof -
  let ?cp1 = "insert_generation cp_init (next_seq cp_init) ''g'' None ''o'' ''m'' EmptyText None"
  let ?cp2 = "insert_generation ?cp1 (next_seq cp_init) ''h'' None ''o'' ''m'' EmptyText None"
  have 1: "cp_step cp_init ?cp1" by (rule stale_read_is_a_step) simp
  then have "cp_step ?cp1 ?cp2" by (intro stale_read_is_a_step) simp
  with 1 have "cp_reachable ?cp2" by (blast intro: cp_reachable.intros)
  then show ?thesis
    by (rule exI [where x = ?cp2, OF conjI])
      (simp add: insert_generation_def cp_init_def gen_ids_def generation_state_def generation_seq_def find_gen_def)
qed

lemma generation_state_row:
  "distinct (gen_ids cp) \<Longrightarrow> r \<in> set (generation cp) \<Longrightarrow> generation_state cp (g_id r) = Some (g_state r)"
  by (simp add: generation_state_def find_gen_distinct)

lemma generation_state_None: "generation_state cp g = None \<longleftrightarrow> g \<notin> set (gen_ids cp)"
  by (simp add: generation_state_def find_gen_None)

lemma generation_state_SomeE:
  assumes "generation_state cp g = Some st"
  obtains r where "r \<in> set (generation cp)" "g_id r = g" "g_state r = st"
  using assms by (auto simp: generation_state_def dest: find_gen_SomeD)

lemma generation_seq_register:
  "generation_seq (register_generation cp gid parent oid mh mj rel) g =
     (if gid \<notin> set (gen_ids cp) \<and> g = gid then next_seq cp else generation_seq cp g)"
proof (cases "find_gen cp g")
  case None
  then show ?thesis
    by (auto simp: generation_seq_def register_generation_def insert_generation_def find_gen_def find_append)
next
  case (Some r)
  then have "g \<in> set (gen_ids cp)" using find_gen_None [of cp g] by simp
  with Some show ?thesis
    by (auto simp: generation_seq_def register_generation_def insert_generation_def find_gen_def find_append)
qed

subsection \<open>A published database\<close>

definition demo_manifest :: manifest_text where
  "demo_manifest = Doc (JObj [(''descriptor'', JObj [(''inline_artifacts'',
     JObj [(''wiki_files_root'', JStr ''w''), (''citation_index_digest'', JStr ''c'')])])])"

definition demo_registered :: control_plane where
  "demo_registered = register_generation cp_init ''g'' None ''o'' ''m'' demo_manifest (Some ''r'')"

definition demo_ready :: control_plane where
  "demo_ready = set_read_models_ready
     (demo_registered\<lparr>read_model_status := [((''g'', ''wiki_files''), (''ready'', ''w'')),
        ((''g'', ''citation_index''), (''ready'', ''c''))]\<rparr>) ''g''"

definition demo_published :: control_plane where
  "demo_published = activated_state demo_ready ''g'' ''r''"

lemma demo_ready_reachable: "cp_reachable demo_ready"
proof -
  let ?cp = demo_registered
  let ?cp1 = "?cp\<lparr>read_model_status := [((''g'', ''wiki_files''), (''ready'', ''w''))]\<rparr>"
  let ?cp2 = "?cp1\<lparr>read_model_status := [((''g'', ''wiki_files''), (''ready'', ''w'')), ((''g'', ''citation_index''), (''ready'', ''c''))]\<rparr>"
  have "cp_reachable ?cp"
    unfolding demo_registered_def by (rule cp_reachable.step [OF cp_reachable.start cp_step_register])
  moreover have "mark_read_model ?cp ''g'' ''wiki_files'' ''w'' = Inr ?cp1"
    "mark_read_model ?cp1 ''g'' ''citation_index'' ''c'' = Inr ?cp2"
    by (simp_all add: mark_read_model_def demo_registered_def register_generation_def insert_generation_def cp_init_def
        gen_ids_def replace_row_def Let_def)
  ultimately have "cp_reachable ?cp2" using cp_reachable.step cp_step.mark by metis
  then have "cp_reachable (set_read_models_ready ?cp2 ''g'')" by (rule cp_reachable.step) (rule cp_step.ready)
  then show ?thesis by (simp add: demo_ready_def)
qed

lemma demo_activates: "activate demo_ready ''g'' None ''r'' = Inr demo_published"
  unfolding demo_published_def
  by (simp add: activate_Inr_iff activation_ready_def demo_ready_def demo_registered_def set_read_models_ready_def
      register_generation_def insert_generation_def cp_init_def gen_ids_def update_gen_def find_gen_def Let_def demo_manifest_def
      required_from_manifest_def get_obj_def artifact_of_def)

lemma demo_published_reachable: "cp_reachable demo_published"
  by (rule cp_reachable.step [OF demo_ready_reachable cp_step.activation [OF demo_activates]])

text \<open>
  C20: in every database the control plane can reach, the publication pointer names exactly the
  generation in state \<open>published\<close> (none when it is null); the sequence numbers in use are
  \<open>1, ..., n\<close> without a gap, and a registration that is not interrupted between its two statements
  gives its new generation the number \<open>n + 1\<close> and leaves the others theirs; and the outbox lists each generation that was ever activated
  exactly once, in activation order, with consecutive event ids, the last one being current.
\<close>

theorem reachable_publication:
  assumes "cp_reachable cp"
  shows "(\<forall>g. generation_state cp g = Some Published \<longleftrightarrow> current_pointer cp = Some g) \<and>
    g_seq ` set (generation cp) = {1..<next_seq cp} \<and>
    (\<forall>gid parent oid mh mj rel g.
       generation_seq (register_generation cp gid parent oid mh mj rel) g =
         (if generation_state cp gid = None \<and> g = gid then next_seq cp else generation_seq cp g)) \<and>
    map o_event (outbox cp) = numbered (length (outbox cp)) \<and>
    distinct (map o_gen (outbox cp)) \<and>
    (\<forall>g. g \<in> set (map o_gen (outbox cp)) \<longleftrightarrow> generation_state cp g \<in> {Some Published, Some Superseded}) \<and>
    current_pointer cp = (if outbox cp = [] then None else Some (o_gen (last (outbox cp))))"
proof -
  have inv: "cp_inv cp" using assms by (rule reachable_cp_inv)
  then have dis: "distinct (gen_ids cp)" by (simp add: cp_inv_def gens_ok_def)
  have pub: "generation_state cp g = Some Published \<longleftrightarrow> current_pointer cp = Some g" for g
  proof
    assume "generation_state cp g = Some Published"
    then show "current_pointer cp = Some g"
      using inv by (auto simp: cp_inv_def pointer_ok_def current_pointer_def elim!: generation_state_SomeE)
  next
    assume c: "current_pointer cp = Some g"
    with inv have "g \<in> set (gen_ids cp)" by (auto simp: cp_inv_def pointer_ok_def current_pointer_def)
    then obtain r where r: "r \<in> set (generation cp)" "g_id r = g" by (auto simp: gen_ids_def)
    with inv c have "g_state r = Published" by (auto simp: cp_inv_def pointer_ok_def current_pointer_def)
    with generation_state_row [OF dis r(1)] r(2) show "generation_state cp g = Some Published" by simp
  qed
  have act: "g \<in> activated cp \<longleftrightarrow> generation_state cp g \<in> {Some Published, Some Superseded}" for g
    using generation_state_row [OF dis] by (auto simp: activated_def image_iff elim!: generation_state_SomeE)
  have num: "generation_seq (register_generation cp gid parent oid mh mj rel) g =
         (if generation_state cp gid = None \<and> g = gid then next_seq cp else generation_seq cp g)" for gid parent oid mh mj rel g
    by (auto simp: generation_seq_register generation_state_None)
  have "set (map o_gen (outbox cp)) = activated cp" using inv by (simp only: cp_inv_def outbox_ok_def)
  moreover have "map o_event (outbox cp) = numbered (length (outbox cp))" "distinct (map o_gen (outbox cp))"
    "current_pointer cp = (if outbox cp = [] then None else Some (o_gen (last (outbox cp))))"
    "g_seq ` set (generation cp) = {1..<next_seq cp}"
    using inv by (simp_all add: cp_inv_def gens_ok_def outbox_ok_def current_pointer_def)
  ultimately show ?thesis using pub act num by (intro conjI allI) simp_all
qed

theorem reachable_publication_witness:
  "cp_reachable demo_published \<and>
   (\<forall>g. generation_state demo_published g = Some Published \<longleftrightarrow> current_pointer demo_published = Some g)"
  using reachable_publication [OF demo_published_reachable] demo_published_reachable by blast

text \<open>
  a successful activation moves the pointer from exactly the expected parent to the new
  generation, publishes it, supersedes the old one, leaves every other generation's state alone and
  appends exactly one outbox event for it; and the generation had never been activated before.
\<close>

theorem activate_effect:
  assumes "cp_reachable cp" and "activate cp gid ep rel = Inr cp'"
  shows "current_pointer cp = ep \<and> current_pointer cp' = Some gid \<and> current_release_oid cp' = Some rel \<and>
    generation_state cp gid = Some ReadModelsReady \<and>
    (\<forall>g. generation_state cp' g =
       (if g = gid then Some Published else if ep = Some g then Some Superseded else generation_state cp g)) \<and>
    map o_gen (outbox cp') = map o_gen (outbox cp) @ [gid] \<and> gid \<notin> set (map o_gen (outbox cp)) \<and>
    publisher_lease cp' = publisher_lease cp"
proof -
  have inv: "cp_inv cp" using assms(1) by (rule reachable_cp_inv)
  from assms(2) have ready: "activation_ready cp gid ep rel" and cp': "cp' = activated_state cp gid rel"
    by (simp_all add: activate_Inr_iff)
  from ready obtain row where row: "find_gen cp gid = Some row" "g_state row = ReadModelsReady"
      and cur: "current_generation_id cp = ep"
    by (auto simp: activation_ready_def)
  have dis: "distinct (gen_ids cp)" using inv by (simp add: cp_inv_def gens_ok_def)
  have "generation_state cp' g =
       (if g = gid then Some Published else if ep = Some g then Some Superseded else generation_state cp g)" for g
  proof (cases "g \<in> set (gen_ids cp)")
    case True
    then obtain r where r: "r \<in> set (generation cp)" "g_id r = g" by (auto simp: gen_ids_def)
    then have "publish_row gid ep r \<in> set (generation cp')" by (simp add: cp' cur)
    then have "generation_state cp' g = Some (g_state (publish_row gid ep r))"
      using generation_state_row [of cp' "publish_row gid ep r"] dis r(2) by (simp add: cp')
    with publish_row_state [OF inv ready r(1)] generation_state_row [OF dis r(1)] r(2) cur
    show ?thesis by auto
  next
    case False
    moreover have "ep \<noteq> Some g" using inv False cur by (auto simp: cp_inv_def pointer_ok_def)
    moreover have "g \<noteq> gid" using False row(1) by (auto simp: find_gen_None [symmetric])
    ultimately show ?thesis using generation_state_None [of cp' g] generation_state_None [of cp g] by (simp add: cp')
  qed
  moreover have "gid \<notin> set (map o_gen (outbox cp))"
    using activated_activated_state(2) [OF inv ready] inv by (simp only: cp_inv_def outbox_ok_def not_False_eq_True)
  ultimately show ?thesis
    using row cur by (simp add: cp' current_pointer_def current_release_oid_def generation_state_def)
qed

theorem activate_effect_witness:
  "cp_reachable demo_ready \<and> activate demo_ready ''g'' None ''r'' = Inr demo_published \<and>
   current_pointer demo_published = Some ''g'' \<and> map o_gen (outbox demo_published) = map o_gen (outbox demo_ready) @ [''g'']"
  using activate_effect [OF demo_ready_reachable demo_activates] demo_ready_reachable demo_activates by blast

end
