(* ===== verification/History.thy ===== *)
theory History
  imports ControlPlane
begin

text \<open>
  Runs of the control plane (\<open>controlplane.py\<close>): what holds between two moments of one database
  whatever operations of whatever processes happen in between. Published history is linear (two
  publishers that prepared against the same parent cannot both activate), fencing tokens of the
  publisher lease never go back and name one holder, and activation itself does not look at the lease.
\<close>

subsection \<open>What one step can do to the outbox and to the lease\<close>

lemma record_resolution_simps:
  "record_resolution cp g c st = Inr cp' \<Longrightarrow> outbox cp' = outbox cp \<and> publisher_lease cp' = publisher_lease cp"
  "mark_read_model cp g m d = Inr cp' \<Longrightarrow> outbox cp' = outbox cp \<and> publisher_lease cp' = publisher_lease cp"
  by (auto simp: record_resolution_def mark_read_model_def split: if_splits)

lemma build_search_index_simps:
  "build_search_index cp g es = Inr cp' \<Longrightarrow> outbox cp' = outbox cp \<and> publisher_lease cp' = publisher_lease cp"
  by (induction cp g es rule: build_search_index.induct) (auto split: if_splits)

lemma add_generation_assertions_simps [simp]:
  "outbox (add_generation_assertions cp g as) = outbox cp"
  "publisher_lease (add_generation_assertions cp g as) = publisher_lease cp"
  by (induction cp g as rule: add_generation_assertions.induct) (simp_all)

lemma upsert_simps [simp]:
  "outbox (upsert_claim_and_assertion cp c) = outbox cp"
  "publisher_lease (upsert_claim_and_assertion cp c) = publisher_lease cp"
  by (simp_all add: upsert_claim_and_assertion_def Let_def)

lemma register_simps [simp]:
  "outbox (register_generation cp gid p oid mh mj rel) = outbox cp"
  "publisher_lease (register_generation cp gid p oid mh mj rel) = publisher_lease cp"
  by (simp_all add: register_generation_def insert_generation_def Let_def)

lemma insert_simps [simp]:
  "outbox (insert_generation cp seq gid p oid mh mj rel) = outbox cp"
  "publisher_lease (insert_generation cp seq gid p oid mh mj rel) = publisher_lease cp"
  by (simp_all add: insert_generation_def)

lemmas frame_simps = set_release_commit_def set_read_models_ready_def set_search_pointer_def

lemma mark_outbox_gens [simp]: "map o_gen (outbox (mark_outbox_processed cp eid)) = map o_gen (outbox cp)"
  by (simp add: mark_outbox_processed_def)

lemma cp_step_outbox:
  "cp_step cp cp' \<Longrightarrow> \<exists>gs. map o_gen (outbox cp') = map o_gen (outbox cp) @ gs"
  by (induction rule: cp_step.induct)
    (auto simp: acquire_lease_def release_lease_def Let_def frame_simps activate_Inr_iff
      dest: record_resolution_simps build_search_index_simps)

lemma cp_steps_outbox:
  "cp_step\<^sup>*\<^sup>* cp cp' \<Longrightarrow> \<exists>gs. map o_gen (outbox cp') = map o_gen (outbox cp) @ gs"
  by (induction rule: rtranclp_induct) (auto dest!: cp_step_outbox)

lemma cp_steps_reachable: "cp_step\<^sup>*\<^sup>* cp cp' \<Longrightarrow> cp_reachable cp \<Longrightarrow> cp_reachable cp'"
  by (induction rule: rtranclp_induct) (auto intro: cp_reachable.step)

subsection \<open>Linear history\<close>

lemma pointer_is_last_event:
  "cp_reachable cp \<Longrightarrow> current_generation_id cp =
     (if map o_gen (outbox cp) = [] then None else Some (last (map o_gen (outbox cp))))"
  using reachable_cp_inv [of cp] by (auto simp: cp_inv_def outbox_ok_def last_map)

text \<open>
  C21: published history is linear. Once some generation has been activated on a parent (or on the
  empty history), then after any further operations no activation with that same expected parent
  succeeds, for any generation and release commit.
\<close>

theorem linear_history:
  assumes "cp_reachable cp" and "activate cp gid ep rel = Inr cp1" and "cp_step\<^sup>*\<^sup>* cp1 cp2"
  shows "activate cp2 gid' ep rel' \<noteq> Inr cp3"
proof
  assume "activate cp2 gid' ep rel' = Inr cp3"
  then have ep2: "current_generation_id cp2 = ep" by (simp add: activate_Inr_iff activation_ready_def)
  let ?gs = "\<lambda>cp. map o_gen (outbox cp)"
  have r1: "cp_reachable cp1" using assms(1,2) by (blast intro: cp_reachable.step cp_step.activation)
  have r2: "cp_reachable cp2" using assms(3) r1 by (rule cp_steps_reachable)
  have g1: "?gs cp1 = ?gs cp @ [gid]" and ep: "current_generation_id cp = ep"
    using assms(2) by (simp_all add: activate_Inr_iff activation_ready_def)
  obtain gs where g2: "?gs cp2 = ?gs cp @ gid # gs" using cp_steps_outbox [OF assms(3)] g1 by auto
  have d: "distinct (?gs cp2)" using reachable_cp_inv [OF r2] by (simp add: cp_inv_def outbox_ok_def)
  from ep2 have "ep = Some (last (gid # gs))" using pointer_is_last_event [OF r2] g2 by (auto simp del: map_is_Nil_conv)
  then have "last (gid # gs) \<in> set (?gs cp)"
    using pointer_is_last_event [OF assms(1)] ep by (metis option.distinct(1) option.inject last_in_set)
  with d g2 show False by (metis disjoint_iff distinct_append last_in_set list.distinct(1))
qed

theorem linear_history_witness:
  "cp_reachable demo_ready \<and> activate demo_ready ''g'' None ''r'' = Inr demo_published \<and>
   (\<forall>cp3. activate demo_published ''g'' None ''r'' \<noteq> Inr cp3)"
  using linear_history [OF demo_ready_reachable demo_activates rtranclp.rtrancl_refl, of "''g''" "''r''"]
    demo_ready_reachable demo_activates by blast

text \<open>
  activation never publishes a generation whose read models are not the signed ones: each
  artifact digest that its registered manifest requires has been recorded as ready for that very
  generation with the same digest, at least one is required, and the release commit is the registered one.
\<close>

theorem activation_binds_read_models:
  assumes "activate cp gid ep rel = Inr cp'"
  shows "\<exists>row req. find_gen cp gid = Some row \<and> g_release row = Some rel \<and> rel \<noteq> [] \<and>
    required_from_manifest cp gid = Inr req \<and> req \<noteq> [] \<and>
    (\<forall>(model, digest)\<in>set req. \<exists>d. digest = JStr d \<and>
       map_of (read_model_status cp') (gid, model) = Some (''ready'', d))"
proof -
  from assms have "activation_ready cp gid ep rel" "read_model_status cp' = read_model_status cp"
    by (simp_all add: activate_Inr_iff)
  then show ?thesis by (fastforce simp: activation_ready_def)
qed

theorem activation_binds_read_models_witness:
  "activate demo_ready ''g'' None ''r'' = Inr demo_published \<and>
   (\<exists>row. find_gen demo_ready ''g'' = Some row \<and> g_release row = Some ''r'')"
  using activation_binds_read_models [OF demo_activates] demo_activates by blast

text \<open>
  a stale expected parent is refused: whenever the generation's manifest requires a read model,
  an activation whose expected parent is not the current pointer raises \<open>CASConflict\<close>, and every
  \<open>CASConflict\<close> of \<open>activate\<close> is such a stale parent.
\<close>

theorem activate_conflict_iff:
  "activate cp gid ep rel = Inl CASConflict \<longleftrightarrow>
     current_pointer cp \<noteq> ep \<and> (\<exists>req. required_from_manifest cp gid = Inr req \<and> req \<noteq> [])"
proof -
  have 1: "required_from_manifest cp gid \<noteq> Inl CASConflict"
    by (auto simp: required_from_manifest_def get_obj_def artifact_of_def bindR_def
        split: option.splits manifest_text.splits json.splits if_splits sum.splits)
  have 2: "check_read_models cp gid req \<noteq> Inl CASConflict" for req
    by (induction cp gid req rule: check_read_models.induct) (auto split: option.splits)
  show ?thesis
    using 1 2
    by (auto simp: activate_def bindR_def Let_def current_pointer_def
        split: sum.splits option.splits if_splits)
qed

subsection \<open>The publisher lease\<close>

text \<open>
  the lease is exclusive. While another holder's lease is live an acquisition is refused and
  changes nothing; otherwise it succeeds, touches nothing but the lease row, and from then on the
  holder is the caller exactly until the time-to-live runs out.
\<close>

theorem acquire_lease_exclusive:
  "if lease_holder cp now \<in> {None, Some h}
   then \<exists>tok. acquire_lease cp h now ttl =
          (Some tok, cp\<lparr>publisher_lease := \<lparr>l_holder = Some h, l_expires = now + ttl, l_token = tok\<rparr>\<rparr>) \<and>
        (\<forall>t. lease_holder (snd (acquire_lease cp h now ttl)) t = (if t < now + ttl then Some h else None)) \<and>
        tok = l_token (publisher_lease cp) + (if lease_holder cp now = Some h then 0 else 1)
   else acquire_lease cp h now ttl = (None, cp)"
  by (auto simp: acquire_lease_def lease_holder_def Let_def)

text \<open>A lease row still protects the token \<open>k\<close> of \<open>h\<close>: it is not reissued to someone else.\<close>

definition token_bound :: "string \<Rightarrow> int \<Rightarrow> control_plane \<Rightarrow> bool" where
  "token_bound h k cp \<longleftrightarrow> k < l_token (publisher_lease cp) \<or>
     k = l_token (publisher_lease cp) \<and> l_holder (publisher_lease cp) \<in> {None, Some h}"

lemma token_bound_same: "publisher_lease cp' = publisher_lease cp \<Longrightarrow> token_bound h k cp' = token_bound h k cp"
  by (simp add: token_bound_def)

lemma token_bound_acquire: "token_bound h k cp \<Longrightarrow> token_bound h k (snd (acquire_lease cp h' now ttl))"
  by (auto simp: token_bound_def acquire_lease_def Let_def)

lemma token_bound_release: "token_bound h k cp \<Longrightarrow> token_bound h k (release_lease cp h')"
  by (auto simp: token_bound_def release_lease_def)

lemma cp_step_token_bound: "cp_step cp cp' \<Longrightarrow> token_bound h k cp \<Longrightarrow> token_bound h k cp'"
proof (induction rule: cp_step.induct)
  case acquire
  then show ?case by (rule token_bound_acquire)
next
  case release
  then show ?case by (rule token_bound_release)
qed (erule iffD2 [OF token_bound_same, rotated];
     auto simp: frame_simps activate_Inr_iff mark_outbox_processed_def dest: record_resolution_simps build_search_index_simps)+

lemma cp_steps_token_bound: "cp_step\<^sup>*\<^sup>* cp cp' \<Longrightarrow> token_bound h k cp \<Longrightarrow> token_bound h k cp'"
  by (induction rule: rtranclp_induct) (auto intro: cp_step_token_bound)

text \<open>
  fencing tokens. If one acquisition is granted token \<open>k\<close> and any later one, after arbitrary
  operations in between, is granted \<open>k'\<close>, then \<open>k \<le> k'\<close>, and the tokens are equal only for one
  and the same holder: a token identifies the lease period of a single publisher.
\<close>

theorem fencing_tokens:
  assumes "acquire_lease cp h now ttl = (Some k, cp1)" and "cp_step\<^sup>*\<^sup>* cp1 cp2"
    and "acquire_lease cp2 h' now' ttl' = (Some k', cp3)"
  shows "k \<le> k' \<and> (k = k' \<longrightarrow> h = h')"
proof -
  have "token_bound h k cp1" using assms(1) by (auto simp: acquire_lease_def token_bound_def Let_def split: if_splits)
  then have "token_bound h k cp2" using assms(2) by (blast intro: cp_steps_token_bound)
  then show ?thesis using assms(3) by (auto simp: acquire_lease_def token_bound_def Let_def split: if_splits)
qed

theorem fencing_tokens_witness:
  "\<exists>cp1 cp2 cp3. acquire_lease cp_init ''a'' 0 30 = (Some 1, cp1) \<and> release_lease cp1 ''a'' = cp2 \<and>
     acquire_lease cp2 ''b'' 5 30 = (Some 2, cp3) \<and> (1 :: int) \<le> 2 \<and> ((1 :: int) = 2 \<longrightarrow> ''a'' = ''b'')"
proof -
  let ?cp1 = "snd (acquire_lease cp_init ''a'' 0 30)"
  let ?cp2 = "release_lease ?cp1 ''a''"
  have a: "acquire_lease cp_init ''a'' 0 30 = (Some 1, ?cp1)"
    by (simp add: acquire_lease_def cp_init_def Let_def)
  have b: "acquire_lease ?cp2 ''b'' 5 30 = (Some 2, snd (acquire_lease ?cp2 ''b'' 5 30))"
    by (simp add: acquire_lease_def cp_init_def release_lease_def Let_def)
  have "cp_step\<^sup>*\<^sup>* ?cp1 ?cp2" by (rule r_into_rtranclp) (rule cp_step.release)
  from fencing_tokens [OF a this b] show ?thesis using a b by blast
qed

text \<open>
  activation does not consult the lease. Whatever the lease row says, and whichever token a
  caller holds, \<open>activate\<close> gives the same outcome: what keeps a publisher whose lease has run out
  from publishing is the compare-and-swap on the parent alone.
\<close>

theorem activate_ignores_lease:
  "activate (cp\<lparr>publisher_lease := l\<rparr>) gid ep rel =
     map_sum id (\<lambda>cp'. cp'\<lparr>publisher_lease := l\<rparr>) (activate cp gid ep rel)"
proof -
  let ?cp = "cp\<lparr>publisher_lease := l\<rparr>"
  have f: "find_gen ?cp g = find_gen cp g" "generation_state ?cp g = generation_state cp g" for g
    by (simp_all add: find_gen_def generation_state_def)
  have r: "required_from_manifest ?cp gid = required_from_manifest cp gid"
    by (simp add: required_from_manifest_def f)
  have c: "check_read_models ?cp gid req = check_read_models cp gid req" for req
    by (induction cp gid req rule: check_read_models.induct) (auto split: option.splits)
  show ?thesis
    by (auto simp: activate_def r f c bindR_def update_gen_def append_outbox_def Let_def
        split: sum.splits option.splits)
qed

end
