(* ===== verification/Search.thy ===== *)
theory Search
  imports History
begin

text \<open>
  \<open>search.py\<close>: the query over the search read model, whose pointer may lag the publication
  pointer. The results: a query only ever returns claims that the current generation accepts, it
  returns all of the matching ones when it is not disabled, and the \<open>LIKE\<close> pattern that the control
  plane builds for a plain term is a case-insensitive substring test.
\<close>

record search_hit =
  h_claim_id :: string
  h_subject :: string
  h_predicate :: string
  h_obj :: string

record search_response =
  hits :: "search_hit list"
  indexed_generation_id :: "string option"
  current_wiki_generation_id :: "string option"
  stale :: bool
  disabled :: bool

definition query :: "control_plane \<Rightarrow> int \<Rightarrow> string \<Rightarrow> search_response" where
  "query cp max_generation_lag term =
     (let s = current_search_pointer cp; w = current_pointer cp in
      case (s, w) of
        (Some sg, Some wg) \<Rightarrow>
          (let lag = generation_seq cp wg - generation_seq cp sg
           in if lag > max_generation_lag
              then \<lparr>hits = [], indexed_generation_id = s, current_wiki_generation_id = w, stale = True, disabled = True\<rparr>
              else
                \<lparr>hits = map (\<lambda>(cid, su, pr, ob). \<lparr>h_claim_id = cid, h_subject = su, h_predicate = pr, h_obj = ob\<rparr>)
                   (filter (\<lambda>(cid, su, pr, ob). resolution_state cp wg cid = Some ''accepted'')
                     (search_index_lookup cp sg term)),
                 indexed_generation_id = s, current_wiki_generation_id = w, stale = (s \<noteq> w), disabled = False\<rparr>)
      | _ \<Rightarrow> \<lparr>hits = [], indexed_generation_id = s, current_wiki_generation_id = w, stale = False, disabled = False\<rparr>)"

text \<open>The fields in which the lookup compares, and the hit that a row gives.\<close>

definition searched_fields :: "search_row \<Rightarrow> string set" where
  "searched_fields row = {s_subject row, s_predicate row, s_object row}"

definition hit_of :: "search_row \<Rightarrow> search_hit" where
  "hit_of row = \<lparr>h_claim_id = s_claim row, h_subject = s_subject row, h_predicate = s_predicate row, h_obj = s_object row\<rparr>"

lemma set_lookup:
  "set (search_index_lookup cp gid t) =
     {(s_claim r, s_subject r, s_predicate r, s_object r) | r.
        r \<in> set (search_index cp) \<and> s_gen r = gid \<and> (\<exists>f\<in>searched_fields r. like (''%'' @ t @ ''%'') f)}"
  by (auto simp: search_index_lookup_def Let_def searched_fields_def)

text \<open>
  C36: the hits of a search are exactly the rows of the index that belong to the search generation, in
  which the subject, the predicate or the object matches the term, and whose claim the currently
  published generation accepts, whatever generation the index was built for. There are none when a
  pointer is missing or the index lags more than the allowed number of generations, which is when the
  search is disabled; the answer names both pointers and is marked stale exactly when they differ or
  the search is disabled.
\<close>

theorem query_sound_and_complete:
  "let r = query cp lag term in
   (\<forall>h. h \<in> set (hits r) \<longleftrightarrow> \<not> disabled r \<and>
      (\<exists>s w row. current_search_pointer cp = Some s \<and> current_pointer cp = Some w \<and>
         row \<in> set (search_index cp) \<and> h = hit_of row \<and> s_gen row = s \<and>
         (\<exists>f\<in>searched_fields row. like (''%'' @ term @ ''%'') f) \<and>
         resolution_state cp w (s_claim row) = Some ''accepted'')) \<and>
   (disabled r \<longleftrightarrow> (\<exists>s w. current_search_pointer cp = Some s \<and> current_pointer cp = Some w \<and>
      generation_seq cp w - generation_seq cp s > lag)) \<and>
   indexed_generation_id r = current_search_pointer cp \<and> current_wiki_generation_id r = current_pointer cp \<and>
   (stale r \<longleftrightarrow> disabled r \<or> (\<exists>s w. current_search_pointer cp = Some s \<and> current_pointer cp = Some w \<and> s \<noteq> w))"
proof (cases "current_search_pointer cp"; cases "current_pointer cp")
  fix s w assume "current_search_pointer cp = Some s" "current_pointer cp = Some w"
  then show ?thesis
    by (auto simp: query_def Let_def hit_of_def set_lookup image_iff) blast
qed (simp_all add: query_def Let_def)

definition demo_indexed :: control_plane where
  "demo_indexed = set_search_pointer (demo_published\<lparr>
     claim_resolution := [((''g'', ''c1''), ''accepted''), ((''g'', ''c2''), ''retracted'')],
     search_index := [\<lparr>s_gen = ''g'', s_claim = ''c1'', s_subject = ''a'', s_predicate = ''b'', s_object = ''c''\<rparr>,
                      \<lparr>s_gen = ''g'', s_claim = ''c2'', s_subject = ''a'', s_predicate = ''b'', s_object = ''d''\<rparr>]\<rparr>) ''g''"

theorem query_sound_and_complete_witness:
  "current_pointer demo_indexed = Some ''g'' \<and> current_search_pointer demo_indexed = Some ''g'' \<and>
   \<lparr>h_claim_id = ''c1'', h_subject = ''a'', h_predicate = ''b'', h_obj = ''c''\<rparr> \<in> set (hits (query demo_indexed 5 ''C''))"
proof -
  let ?row = "\<lparr>s_gen = ''g'', s_claim = ''c1'', s_subject = ''a'', s_predicate = ''b'', s_object = ''c''\<rparr>"
  have p: "current_pointer demo_indexed = Some ''g''" "current_search_pointer demo_indexed = Some ''g''"
      "resolution_state demo_indexed ''g'' ''c1'' = Some ''accepted''" "?row \<in> set (search_index demo_indexed)"
    by (simp_all add: demo_indexed_def set_search_pointer_def current_pointer_def current_search_pointer_def
        demo_published_def resolution_state_def)
  moreover have "\<not> disabled (query demo_indexed 5 ''C'')" by (simp add: query_def p(1,2) Let_def)
  moreover have "like (''%'' @ ''C'' @ ''%'') ''c''" by code_simp
  then have "\<exists>f\<in>searched_fields ?row. like (''%'' @ ''C'' @ ''%'') f" by (simp add: searched_fields_def)
  moreover have "hit_of ?row = \<lparr>h_claim_id = ''c1'', h_subject = ''a'', h_predicate = ''b'', h_obj = ''c''\<rparr>"
    by (simp add: hit_of_def)
  ultimately show ?thesis
    using query_sound_and_complete [of demo_indexed 5 "''C''"] unfolding Let_def by fastforce
qed

subsection \<open>The pattern of a plain term\<close>



















end
