(* ===== verification/Cas.thy ===== *)
theory Cas
  imports Models
begin

text \<open>
  \<open>cas.py\<close>: the content-addressed store. The state is the two directories, file name to content.
  What the file system returns when the temporary file is read back is a parameter \<open>disk\<close> (the
  identity on a disk that works), so that the verification after the write is not vacuous. The
  store is shown to be write once under any interleaving of writers, and reads never return bytes
  that do not hash to the name they were asked for.
\<close>

record cas =
  objects :: "(string, bytes) dict"
  tombstones :: "(string, string) dict"

definition cas_init :: cas where
  "cas_init = \<lparr>objects = [], tombstones = []\<rparr>"

definition cas_exists :: "cas \<Rightarrow> string \<Rightarrow> bool" where
  "cas_exists s digest \<longleftrightarrow> digest \<in> set (dict_keys (objects s))"

text \<open>\<open>os.link\<close>, create only: a lost race leaves the committed file as it is.\<close>

definition link_object :: "cas \<Rightarrow> string \<Rightarrow> bytes \<Rightarrow> cas" where
  "link_object s digest data =
     (if cas_exists s digest then s else s\<lparr>objects := dict_set digest data (objects s)\<rparr>)"

definition cas_put :: "lib \<Rightarrow> (bytes \<Rightarrow> bytes) \<Rightarrow> cas \<Rightarrow> bytes \<Rightarrow> (string \<times> cas) res" where
  "cas_put L disk s data =
     (let digest = sha256_hex L data in
      case map_of (objects s) digest of
        Some old \<Rightarrow> if sha256_hex L old \<noteq> digest then Inl CASError else Inr (digest, s)
      | None \<Rightarrow>
          (let tmp = disk data
           in if sha256_hex L tmp \<noteq> digest then Inl CASError
              else Inr (digest, link_object s digest tmp)))"

definition cas_get :: "lib \<Rightarrow> cas \<Rightarrow> string \<Rightarrow> bytes res" where
  "cas_get L s digest =
     (case map_of (objects s) digest of
        None \<Rightarrow> Inl CASError
      | Some data \<Rightarrow> if sha256_hex L data \<noteq> digest then Inl CASError else Inr data)"

definition is_tombstoned :: "cas \<Rightarrow> string \<Rightarrow> bool" where
  "is_tombstoned s digest \<longleftrightarrow> digest \<in> set (dict_keys (tombstones s))"

definition tombstone :: "cas \<Rightarrow> string \<Rightarrow> string \<Rightarrow> cas" where
  "tombstone s digest reason = s\<lparr>tombstones := dict_set digest reason (tombstones s)\<rparr>"

definition ends_with :: "string \<Rightarrow> string \<Rightarrow> bool" where
  "ends_with s suffix \<longleftrightarrow> length suffix \<le> length s \<and> drop (length s - length suffix) s = suffix"

definition cas_scan :: "lib \<Rightarrow> cas \<Rightarrow> string list" where
  "cas_scan L s =
     map fst (filter (\<lambda>(name, data). \<not> ends_with name ''.tmp'' \<and> sha256_hex L data \<noteq> name) (objects s))"

subsection \<open>Reading and writing\<close>

lemma map_of_link: "map_of (objects (link_object s d b)) d' =
    (if d' = d \<and> \<not> cas_exists s d then Some b else map_of (objects s) d')"
  by (auto simp: link_object_def cas_exists_def)

lemma cas_exists_get: "cas_exists s d \<longleftrightarrow> map_of (objects s) d \<noteq> None"
  by (auto simp: cas_exists_def map_of_eq_None_iff)

lemma cas_get_Inr_iff: "cas_get L s d = Inr b \<longleftrightarrow> map_of (objects s) d = Some b \<and> sha256_hex L b = d"
  by (auto simp: cas_get_def split: option.splits)

lemma link_keeps: "map_of (objects s) d = Some b \<Longrightarrow> map_of (objects (link_object s d' b')) d = Some b"
  by (auto simp: map_of_link cas_exists_get)

text \<open>Steps of concurrent writers: a writer that found no object may link at any later moment.\<close>

inductive cas_step :: "lib \<Rightarrow> cas \<Rightarrow> cas \<Rightarrow> bool" for L where
  link: "sha256_hex L data = digest \<Longrightarrow> cas_step L s (link_object s digest data)"
| put: "cas_put L disk s data = Inr (d, s') \<Longrightarrow> cas_step L s s'"
| tomb: "cas_step L s (tombstone s d reason)"

lemma cas_put_Inr:
  "cas_put L disk s data = Inr (d, s') \<longleftrightarrow> d = sha256_hex L data \<and>
     ((\<exists>old. map_of (objects s) d = Some old \<and> sha256_hex L old = d \<and> s' = s) \<or>
      (map_of (objects s) d = None \<and> sha256_hex L (disk data) = d \<and> s' = link_object s d (disk data)))"
  by (auto simp: cas_put_def Let_def split: option.splits)

lemma cas_step_keeps: "cas_step L s s' \<Longrightarrow> map_of (objects s) d = Some b \<Longrightarrow> map_of (objects s') d = Some b"
  by (induction rule: cas_step.induct) (auto simp: link_keeps cas_put_Inr tombstone_def)

lemma cas_steps_keep: "(cas_step L)\<^sup>*\<^sup>* s s' \<Longrightarrow> map_of (objects s) d = Some b \<Longrightarrow> map_of (objects s') d = Some b"
  by (induction rule: rtranclp_induct) (auto intro: cas_step_keeps)

text \<open>
  the store is write once and content addressed. After a successful \<open>put\<close> of \<open>data\<close>, on any
  disk, and after any later steps of any writers, reading the returned digest gives back \<open>data\<close>,
  unless the store already held different bytes with the same SHA-256; and no object that could be
  read before ever changes or disappears.
\<close>

theorem cas_put_get:
  assumes "cas_put L disk s data = Inr (d, s1)" and "(cas_step L)\<^sup>*\<^sup>* s1 s2"
  shows "d = sha256_hex L data \<and>
    (\<exists>b. cas_get L s2 d = Inr b \<and> (b = data \<or> b \<noteq> data \<and> sha256 L b = sha256 L data)) \<and>
    (\<forall>d' b'. cas_get L s d' = Inr b' \<longrightarrow> cas_get L s2 d' = Inr b')"
proof -
  have d: "d = sha256_hex L data" using assms(1) by (simp add: cas_put_Inr)
  obtain b where b: "map_of (objects s1) d = Some b" "sha256_hex L b = d"
    using assms(1) by (auto simp: cas_put_Inr map_of_link cas_exists_get)
  then have "cas_get L s2 d = Inr b" using cas_steps_keep [OF assms(2)] by (simp add: cas_get_Inr_iff)
  moreover have "sha256 L b = sha256 L data" using b(2) d by (simp add: sha256_hex_def)
  moreover have "map_of (objects s) d' = Some b' \<Longrightarrow> map_of (objects s2) d' = Some b'" for d' b'
    using cas_steps_keep [OF assms(2)] cas_step_keeps [OF cas_step.put [OF assms(1)]] by blast
  ultimately show ?thesis using d by (auto simp: cas_get_Inr_iff)
qed

theorem cas_put_get_witness:
  "\<exists>s1. cas_put demo_lib id cas_init ''data'' = Inr (sha256_hex demo_lib ''data'', s1) \<and>
     (\<exists>b. cas_get demo_lib s1 (sha256_hex demo_lib ''data'') = Inr b)"
proof -
  have p: "cas_put demo_lib id cas_init ''data'' =
      Inr (sha256_hex demo_lib ''data'', link_object cas_init (sha256_hex demo_lib ''data'') ''data'')"
    by (simp add: cas_put_Inr cas_init_def)
  from cas_put_get [OF p rtranclp.rtrancl_refl] p show ?thesis by blast
qed

text \<open>
  the integrity scan is exact: on a store with unique file names it reports precisely the
  committed objects that \<open>get\<close> refuses to return, and an empty report means every object reads back.
\<close>

theorem cas_scan_exact:
  assumes "distinct (dict_keys (objects s))"
  shows "d \<in> set (cas_scan L s) \<longleftrightarrow> cas_exists s d \<and> \<not> ends_with d ''.tmp'' \<and> cas_get L s d = Inl CASError"
proof -
  have "d \<in> set (cas_scan L s) \<longleftrightarrow> (\<exists>data. (d, data) \<in> set (objects s) \<and> \<not> ends_with d ''.tmp'' \<and> sha256_hex L data \<noteq> d)"
    by (force simp: cas_scan_def)
  also have "\<dots> \<longleftrightarrow> (\<exists>data. map_of (objects s) d = Some data \<and> \<not> ends_with d ''.tmp'' \<and> sha256_hex L data \<noteq> d)"
    using assms by (simp add: map_of_eq_Some_iff)
  finally show ?thesis by (auto simp: cas_get_def cas_exists_get split: option.splits)
qed

theorem cas_scan_exact_witness:
  "''00'' \<in> set (cas_scan demo_lib \<lparr>objects = [(''00'', ''x'')], tombstones = []\<rparr>)"
proof -
  let ?s = "\<lparr>objects = [(''00'', ''x'')], tombstones = []\<rparr>"
  have "cas_get demo_lib ?s ''00'' = Inl CASError" by code_simp
  moreover have "\<not> ends_with ''00'' ''.tmp''" by code_simp
  ultimately show ?thesis using cas_scan_exact [of ?s "''00''" demo_lib] by (simp add: cas_exists_def)
qed

end
