(* ===== verification/Ingest.thy ===== *)
theory Ingest
  imports Cas
begin

text \<open>
  \<open>ingest.py\<close>: receiving a source file into the store and compiling it into claims. A handler
  returns its outcome together with the service state it leaves behind, also when it raises: a
  source that is not UTF-8 is stored before the decoding fails. The extractor is a parameter (any
  \<open>ClaimExtractor\<close>). The results: a claim set is a function of the stored bytes alone, so another
  process compiles the same claims, and re-ingesting is recognised.
\<close>

record receive_result =
  rr_source_id :: string
  rr_content_hash :: string
  rr_representation_hash :: string
  rr_status :: string
  rr_idempotent :: bool

record compile_result =
  cr_source_id :: string
  cr_claims :: "compiled_claim list"
  cr_revokes :: "string list"
  cr_status :: string

record ingest_service =
  in_cas :: cas
  manifests :: "(string, source_manifest) dict"
  representations :: "(string, string) dict"

type_synonym extractor = "string \<Rightarrow> string \<Rightarrow> string \<Rightarrow> extract_result res"

definition representation :: "lib \<Rightarrow> string \<Rightarrow> string \<times> bytes" where
  "representation L t =
     (let norm = str_replace [CHR 0x0D] [CHR 0x0A] (str_replace [CHR 0x0D, CHR 0x0A] [CHR 0x0A] (nfc L t))
      in (sha256_hex L norm, norm))"

text \<open>Outcome and state: the first error stops the handler, the state reached stays.\<close>

definition stop :: "'s \<Rightarrow> 'a res \<Rightarrow> ('a \<Rightarrow> 'b res \<times> 's) \<Rightarrow> 'b res \<times> 's" where
  "stop s r f = (case r of Inl e \<Rightarrow> (Inl e, s) | Inr a \<Rightarrow> f a)"

definition new_staged :: "string \<Rightarrow> string \<Rightarrow> source_manifest res" where
  "new_staged sid ch = transition (new_manifest sid ch) ''staged''"

definition receive :: "lib \<Rightarrow> (bytes \<Rightarrow> bytes) \<Rightarrow> ingest_service \<Rightarrow> bytes \<Rightarrow> receive_result res \<times> ingest_service" where
  "receive L disk s raw =
     (let already = cas_exists (in_cas s) (sha256_hex L raw) in
      stop s (cas_put L disk (in_cas s) raw) (\<lambda>(ch, c1).
      let s1 = s\<lparr>in_cas := c1\<rparr>; sid = ch in
      stop s1 (decode_utf8 raw) (\<lambda>t.
      let (rep_hash, rep_bytes) = representation L t in
      stop s1 (cas_put L disk c1 rep_bytes) (\<lambda>(_, c2).
      let s2 = s1\<lparr>in_cas := c2, representations := dict_set sid rep_hash (representations s1)\<rparr> in
      case map_of (manifests s2) sid of
        Some m \<Rightarrow>
          (Inr \<lparr>rr_source_id = sid, rr_content_hash = ch, rr_representation_hash = rep_hash,
                rr_status = status m, rr_idempotent = already\<rparr>, s2)
      | None \<Rightarrow>
          stop s2 (new_staged sid ch) (\<lambda>m.
          (Inr \<lparr>rr_source_id = sid, rr_content_hash = ch, rr_representation_hash = rep_hash,
                rr_status = status m, rr_idempotent = already\<rparr>,
           s2\<lparr>manifests := dict_set sid m (manifests s2)\<rparr>))))))"

definition compile :: "lib \<Rightarrow> extractor \<Rightarrow> ingest_service \<Rightarrow> string \<Rightarrow> compile_result res \<times> ingest_service" where
  "compile L extract s sid =
     (if \<not> cas_exists (in_cas s) sid then (Inl KeyError, s)
      else
        stop s (case map_of (manifests s) sid of Some m \<Rightarrow> Inr m | None \<Rightarrow> new_staged sid sid) (\<lambda>m.
        let s1 = s\<lparr>manifests := dict_set sid m (manifests s)\<rparr> in
        if status m \<notin> {''staged'', ''validated''} then (Inl RuntimeError, s1)
        else
          stop s1 (cas_get L (in_cas s1) sid) (\<lambda>raw.
          stop s1 (decode_utf8 raw) (\<lambda>raw_text.
          let (rep_hash, rep_bytes) = representation L raw_text in
          stop s1 (extract rep_bytes sid rep_hash) (\<lambda>result.
          stop s1 (if status m = ''staged'' then transition m ''validated'' else Inr m) (\<lambda>m'.
          (Inr \<lparr>cr_source_id = sid, cr_claims = claims result, cr_revokes = revokes result, cr_status = status m'\<rparr>,
           s1\<lparr>manifests := dict_set sid m' (manifests s1)\<rparr>)))))))"

definition manifest_of :: "ingest_service \<Rightarrow> string \<Rightarrow> source_manifest res" where
  "manifest_of s sid = (case map_of (manifests s) sid of None \<Rightarrow> Inl KeyError | Some m \<Rightarrow> Inr m)"

subsection \<open>Properties\<close>

lemma stop_simps [simp]:
  "stop s (Inl e) f = (Inl e, s)" "stop s (Inr a) f = f a"
  by (simp_all add: stop_def)

lemma stop_Inr_iff: "stop s r f = (Inr b, s') \<longleftrightarrow> (\<exists>a. r = Inr a \<and> f a = (Inr b, s'))"
  by (auto simp: stop_def split: sum.splits)

lemma new_staged_eq [simp]: "new_staged sid ch = Inr ((new_manifest sid ch)\<lparr>status := ''staged''\<rparr>)"
proof -
  have "status (new_manifest sid ch) = ''received''" by (simp add: new_manifest_def)
  then show ?thesis by (simp add: new_staged_def transition_def Let_def)
qed

lemma transition_staged: "status m = ''staged'' \<Longrightarrow> transition m ''validated'' = Inr (m\<lparr>status := ''validated''\<rparr>)"
  by (simp add: transition_def Let_def)

text \<open>What a successful compilation computes: a function of the stored bytes.\<close>

definition compiled_from :: "lib \<Rightarrow> extractor \<Rightarrow> bytes \<Rightarrow> string \<Rightarrow> extract_result res" where
  "compiled_from L extract raw sid =
     bindR (decode_utf8 raw) (\<lambda>t. extract (snd (representation L t)) sid (fst (representation L t)))"

text \<open>The manifest of a source that may be compiled: none yet, staged or validated.\<close>

definition compilable :: "ingest_service \<Rightarrow> string \<Rightarrow> bool" where
  "compilable s sid \<longleftrightarrow> (case map_of (manifests s) sid of None \<Rightarrow> True | Some m \<Rightarrow> status m \<in> {''staged'', ''validated''})"

lemma fst_compile:
  assumes "compilable s sid"
  shows "fst (compile L extract s sid) =
    (if \<not> cas_exists (in_cas s) sid then Inl KeyError
     else bindR (cas_get L (in_cas s) sid) (\<lambda>raw. bindR (compiled_from L extract raw sid) (\<lambda>r.
       Inr \<lparr>cr_source_id = sid, cr_claims = claims r, cr_revokes = revokes r, cr_status = ''validated''\<rparr>)))"
  using assms
  by (auto simp: compile_def compilable_def compiled_from_def transition_staged stop_def bindR_def Let_def
      split_beta split: option.splits sum.splits if_splits)

text \<open>
  compilation is deterministic across processes: two ingest services over the same store, with
  whatever manifests in which the source may still be compiled (for instance one service that
  received it and one fresh one), give the same outcome, claims and errors alike.
\<close>

theorem compile_deterministic:
  assumes "objects (in_cas s) = objects (in_cas s')" and "compilable s sid" and "compilable s' sid"
  shows "fst (compile L extract s sid) = fst (compile L extract s' sid)"
  using assms by (simp add: fst_compile cas_exists_def cas_get_def)

definition demo_cas :: cas where
  "demo_cas = \<lparr>objects = [(sha256_hex demo_lib ''a'', ''a'')], tombstones = []\<rparr>"

definition fresh_service :: "cas \<Rightarrow> ingest_service" where
  "fresh_service c = \<lparr>in_cas = c, manifests = [], representations = []\<rparr>"

abbreviation demo_extractor :: extractor where
  "demo_extractor t sid rep \<equiv> Inr \<lparr>claims = [], revokes = [sid]\<rparr>"

definition demo_received :: ingest_service where
  "demo_received = (fresh_service demo_cas)\<lparr>manifests :=
     [(sha256_hex demo_lib ''a'', (new_manifest (sha256_hex demo_lib ''a'') (sha256_hex demo_lib ''a''))\<lparr>status := ''validated''\<rparr>)]\<rparr>"

theorem compile_deterministic_witness:
  "fst (compile demo_lib demo_extractor (fresh_service demo_cas) (sha256_hex demo_lib ''a'')) =
   fst (compile demo_lib demo_extractor demo_received (sha256_hex demo_lib ''a''))"
  by (rule compile_deterministic) (simp_all add: demo_received_def fresh_service_def compilable_def)

lemma cas_exists_keeps: "cas_put L disk c b = Inr (d, c') \<Longrightarrow> cas_exists c x \<Longrightarrow> cas_exists c' x"
  by (auto simp: cas_put_Inr cas_exists_get map_of_link)

lemma cas_put_again: "cas_put L disk c b = Inr (d, c') \<Longrightarrow> (cas_step L)\<^sup>*\<^sup>* c' c'' \<Longrightarrow> cas_put L disk c'' b = Inr (d, c'')"
proof -
  assume p: "cas_put L disk c b = Inr (d, c')" and st: "(cas_step L)\<^sup>*\<^sup>* c' c''"
  then obtain x where "map_of (objects c') d = Some x" "sha256_hex L x = d"
    by (auto simp: cas_put_Inr map_of_link cas_exists_get)
  with cas_steps_keep [OF st] p show ?thesis by (auto simp: cas_put_Inr)
qed

lemma receive_Inr:
  assumes "receive L disk s raw = (Inr r, s')"
  obtains c1 where "cas_put L disk (in_cas s) raw = Inr (rr_source_id r, c1)"
    "decode_utf8 raw = Inr raw"
    "cas_put L disk c1 (snd (representation L raw)) = Inr (rr_representation_hash r, in_cas s')"
    "rr_representation_hash r = fst (representation L raw)"
    "rr_content_hash r = rr_source_id r" "rr_source_id r = sha256_hex L raw"
    "map_of (manifests s') (rr_source_id r) \<noteq> None"
    "rr_status r = status (the (map_of (manifests s') (rr_source_id r)))"
    "representations s' = dict_set (rr_source_id r) (rr_representation_hash r) (representations s)"
  using assms
  by (cases "map_of (manifests s) (sha256_hex L raw)")
    (auto simp: receive_def Let_def stop_Inr_iff decode_utf8_def cas_put_Inr representation_def
      split: prod.splits if_splits option.splits)

text \<open>
  receiving. A successful receive names the source by the SHA-256 of its bytes, keeps
  everything that the store could read, and can be compiled; receiving the same bytes again
  succeeds, reports that it was already there, and changes neither the store nor the manifest.
\<close>

theorem receive_idempotent:
  assumes "receive L disk s raw = (Inr r, s1)"
  shows "rr_source_id r = sha256_hex L raw \<and> cas_exists (in_cas s1) (rr_source_id r) \<and>
    (\<forall>d b. cas_get L (in_cas s) d = Inr b \<longrightarrow> cas_get L (in_cas s1) d = Inr b) \<and>
    receive L disk s1 raw = (Inr (r\<lparr>rr_idempotent := True\<rparr>), s1)"
proof -
  obtain c1 where p1: "cas_put L disk (in_cas s) raw = Inr (rr_source_id r, c1)"
      and ok: "decode_utf8 raw = Inr raw"
      and p2: "cas_put L disk c1 (snd (representation L raw)) = Inr (rr_representation_hash r, in_cas s1)"
      and h: "rr_representation_hash r = fst (representation L raw)"
      "rr_content_hash r = rr_source_id r" "rr_source_id r = sha256_hex L raw"
      and m: "map_of (manifests s1) (rr_source_id r) \<noteq> None"
      "rr_status r = status (the (map_of (manifests s1) (rr_source_id r)))"
      and reps: "representations s1 = dict_set (rr_source_id r) (rr_representation_hash r) (representations s)"
    using receive_Inr [OF assms] .
  have st: "(cas_step L)\<^sup>*\<^sup>* c1 (in_cas s1)" using cas_step.put [OF p2] by blast
  have e: "cas_exists (in_cas s1) (rr_source_id r)"
    using p1 cas_exists_keeps [OF p2] by (auto simp: cas_put_Inr cas_exists_get map_of_link)
  have keep: "cas_get L (in_cas s1) d = Inr b" if "cas_get L (in_cas s) d = Inr b" for d b
    using cas_step_keeps [OF cas_step.put [OF p1]] cas_steps_keep [OF st] that by (simp add: cas_get_Inr_iff)
  have upd: "dict_set k v (dict_set k v d) = dict_set k v d" for k :: string and v :: string and d
    by (induction d) auto
  obtain mm where mm: "map_of (manifests s1) (rr_source_id r) = Some mm" using m(1) by auto
  have s1: "s1\<lparr>representations := representations s1\<rparr> = s1" "s1\<lparr>in_cas := in_cas s1\<rparr> = s1" by simp_all
  have "receive L disk s1 raw = (Inr (r\<lparr>rr_idempotent := True\<rparr>), s1)"
    unfolding receive_def Let_def
    using cas_put_again [OF p1 st] cas_put_again [OF p2 rtranclp.rtrancl_refl] ok e h mm m(2) s1 upd
    by (cases "representation L raw") (simp add: reps)
  with e keep h(3) show ?thesis by blast
qed

theorem receive_idempotent_witness:
  "\<exists>r s1. receive demo_lib id (fresh_service cas_init) ''ab'' = (Inr r, s1) \<and>
     receive demo_lib id s1 ''ab'' = (Inr (r\<lparr>rr_idempotent := True\<rparr>), s1)"
proof -
  let ?r = "receive demo_lib id (fresh_service cas_init) ''ab''"
  have rep: "representation demo_lib ''ab'' = (sha256_hex demo_lib ''ab'', ''ab'')"
    by (simp add: representation_def str_replace.simps Let_def)
  obtain r where "?r = (Inr r, snd ?r)"
    by (simp add: receive_def rep cas_put_def cas_init_def fresh_service_def decode_utf8_def link_object_def
        cas_exists_def stop_def Let_def)
  from receive_idempotent [OF this] this show ?thesis by blast
qed

end
