(* ===== verification/Contracts.thy ===== *)
theory Contracts
  imports Models
begin

text \<open>
  \<open>memory_core/contracts.py\<close>: the versioned envelopes. A mapping argument is a dictionary from
  field names to Python values, so that every type check of the source is a branch here. The
  results: a parsed envelope survives printing and parsing again unchanged, and the id of an
  operational event binds all of its fields.
\<close>

type_synonym fields = "(string, pyval) dict"

definition CONTRACT_VERSION :: string where
  "CONTRACT_VERSION = ''phase3-core-v1''"

definition EVENT_SCHEMA_VERSION :: string where
  "EVENT_SCHEMA_VERSION = ''phase3-operational-event-v1''"

text \<open>A normalised JSON value is a Python value again.\<close>

fun json_py :: "json \<Rightarrow> pyval" where
  "json_py JNull = PNone"
| "json_py (JBool b) = PBool b"
| "json_py (JStr s) = PStr s"
| "json_py (JNum n) = PFloat n"
| "json_py (JList xs) = PList (map json_py xs)"
| "json_py (JObj kvs) = PDict (map (\<lambda>(k, v). (PStr k, json_py v)) kvs)"

definition field :: "fields \<Rightarrow> string \<Rightarrow> pyval" where
  "field values k = (case map_of values k of None \<Rightarrow> PNone | Some v \<Rightarrow> v)"

definition strict_mapping :: "fields \<Rightarrow> string list \<Rightarrow> string list \<Rightarrow> fields res" where
  "strict_mapping data allowed required =
     (if \<not> set (dict_keys data) \<subseteq> set allowed then Inl UnknownContractField
      else if \<not> set required \<subseteq> set (dict_keys data) then Inl InvalidContractValue
      else if map_of data ''contract_version'' \<noteq> Some (PStr CONTRACT_VERSION) then Inl UnsupportedContractVersion
      else Inr data)"

text \<open>\<open>isinstance(v, str) and v\<close>, and the string it is.\<close>

fun nonempty_str :: "pyval \<Rightarrow> bool" where
  "nonempty_str (PStr s) = (s \<noteq> [])"
| "nonempty_str _ = False"

fun the_str :: "pyval \<Rightarrow> string" where
  "the_str (PStr s) = s"
| "the_str _ = []"

fun opt_nonempty_str :: "pyval \<Rightarrow> bool" where
  "opt_nonempty_str PNone = True"
| "opt_nonempty_str v = nonempty_str v"

fun the_opt_str :: "pyval \<Rightarrow> string option" where
  "the_opt_str (PStr s) = Some s"
| "the_opt_str _ = None"

definition popt :: "string option \<Rightarrow> pyval" where
  "popt x = (case x of None \<Rightarrow> PNone | Some s \<Rightarrow> PStr s)"

text \<open>\<open>_normalize(v)\<close> that must give an object.\<close>

definition normalize_object :: "lib \<Rightarrow> pyval \<Rightarrow> (string, json) dict res" where
  "normalize_object L v =
     bindR (contract_normalize L v) (\<lambda>j. case j of JObj kvs \<Rightarrow> Inr kvs | _ \<Rightarrow> Inl InvalidContractValue)"

subsection \<open>Command envelopes\<close>

record command_envelope =
  ce_contract_version :: string
  ce_command_id :: string
  ce_idempotency_key :: string
  ce_workspace_id :: string
  ce_actor_id :: string
  ce_command_type :: string
  ce_expected_generation_id :: "string option"
  ce_payload :: "(string, json) dict"

definition command_str_fields :: "string list" where
  "command_str_fields = [''contract_version'', ''command_id'', ''idempotency_key'', ''workspace_id'',
     ''actor_id'', ''command_type'']"

definition command_fields :: "string list" where
  "command_fields = command_str_fields @ [''expected_generation_id'', ''payload'']"

definition command_from_mapping :: "lib \<Rightarrow> fields \<Rightarrow> command_envelope res" where
  "command_from_mapping L data =
     bindR (strict_mapping data command_fields command_fields) (\<lambda>values.
     bindR (normalize_object L (field values ''payload'')) (\<lambda>payload.
     bindR (guardR (\<forall>f\<in>set command_str_fields. nonempty_str (field values f)) InvalidContractValue) (\<lambda>_.
     let expected = field values ''expected_generation_id''
     in bindR (guardR (opt_nonempty_str expected) InvalidContractValue) (\<lambda>_.
        Inr \<lparr>ce_contract_version = the_str (field values ''contract_version''),
             ce_command_id = the_str (field values ''command_id''),
             ce_idempotency_key = the_str (field values ''idempotency_key''),
             ce_workspace_id = the_str (field values ''workspace_id''),
             ce_actor_id = the_str (field values ''actor_id''),
             ce_command_type = the_str (field values ''command_type''),
             ce_expected_generation_id = the_opt_str expected,
             ce_payload = payload\<rparr>))))"

definition command_to_mapping :: "command_envelope \<Rightarrow> fields" where
  "command_to_mapping e =
     [(''contract_version'', PStr (ce_contract_version e)),
      (''command_id'', PStr (ce_command_id e)),
      (''idempotency_key'', PStr (ce_idempotency_key e)),
      (''workspace_id'', PStr (ce_workspace_id e)),
      (''actor_id'', PStr (ce_actor_id e)),
      (''command_type'', PStr (ce_command_type e)),
      (''expected_generation_id'', popt (ce_expected_generation_id e)),
      (''payload'', json_py (JObj (ce_payload e)))]"

definition command_canonical_bytes :: "lib \<Rightarrow> command_envelope \<Rightarrow> bytes res" where
  "command_canonical_bytes L e = contract_canonical_bytes L (pdict (command_to_mapping e))"

text \<open>\<open>CommandEnvelope.create(**kwargs)\<close>: an explicit version overrides the constant.\<close>

definition command_create :: "lib \<Rightarrow> fields \<Rightarrow> command_envelope res" where
  "command_create L kwargs =
     command_from_mapping L (fold (\<lambda>(k, v). dict_set k v) kwargs [(''contract_version'', PStr CONTRACT_VERSION)])"

subsection \<open>Query envelopes\<close>

record query_envelope =
  qe_contract_version :: string
  qe_query_id :: string
  qe_workspace_id :: string
  qe_actor_id :: string
  qe_query_type :: string
  qe_as_of_generation_id :: string
  qe_consistency :: string
  qe_parameters :: "(string, json) dict"

definition query_str_fields :: "string list" where
  "query_str_fields = [''contract_version'', ''query_id'', ''workspace_id'', ''actor_id'', ''query_type'',
     ''as_of_generation_id'', ''consistency'']"

definition query_fields :: "string list" where
  "query_fields = query_str_fields @ [''parameters'']"

definition query_from_mapping :: "lib \<Rightarrow> fields \<Rightarrow> query_envelope res" where
  "query_from_mapping L data =
     bindR (strict_mapping data query_fields query_fields) (\<lambda>values.
     bindR (normalize_object L (field values ''parameters'')) (\<lambda>params.
     bindR (guardR (\<forall>f\<in>set query_str_fields. nonempty_str (field values f)) InvalidContractValue) (\<lambda>_.
     bindR (guardR (the_str (field values ''consistency'') \<in> {''authoritative'', ''projection_ok''}) InvalidContractValue) (\<lambda>_.
        Inr \<lparr>qe_contract_version = the_str (field values ''contract_version''),
             qe_query_id = the_str (field values ''query_id''),
             qe_workspace_id = the_str (field values ''workspace_id''),
             qe_actor_id = the_str (field values ''actor_id''),
             qe_query_type = the_str (field values ''query_type''),
             qe_as_of_generation_id = the_str (field values ''as_of_generation_id''),
             qe_consistency = the_str (field values ''consistency''),
             qe_parameters = params\<rparr>))))"

definition query_to_mapping :: "query_envelope \<Rightarrow> fields" where
  "query_to_mapping e =
     [(''contract_version'', PStr (qe_contract_version e)),
      (''query_id'', PStr (qe_query_id e)),
      (''workspace_id'', PStr (qe_workspace_id e)),
      (''actor_id'', PStr (qe_actor_id e)),
      (''query_type'', PStr (qe_query_type e)),
      (''as_of_generation_id'', PStr (qe_as_of_generation_id e)),
      (''consistency'', PStr (qe_consistency e)),
      (''parameters'', json_py (JObj (qe_parameters e)))]"

definition query_canonical_bytes :: "lib \<Rightarrow> query_envelope \<Rightarrow> bytes res" where
  "query_canonical_bytes L e = contract_canonical_bytes L (pdict (query_to_mapping e))"

subsection \<open>Results and change sets\<close>

record core_result =
  rs_contract_version :: string
  rs_request_id :: string
  rs_status :: string
  rs_generation_id :: "string option"
  rs_result :: "(string, json) dict"
  rs_error_code :: "string option"

definition result_to_mapping :: "lib \<Rightarrow> core_result \<Rightarrow> fields res" where
  "result_to_mapping L r =
     bindR (contract_normalize L (json_py (JObj (rs_result r)))) (\<lambda>res.
     Inr [(''contract_version'', PStr (rs_contract_version r)),
          (''request_id'', PStr (rs_request_id r)),
          (''status'', PStr (rs_status r)),
          (''generation_id'', popt (rs_generation_id r)),
          (''result'', json_py res),
          (''error_code'', popt (rs_error_code r))])"

definition result_canonical_bytes :: "lib \<Rightarrow> core_result \<Rightarrow> bytes res" where
  "result_canonical_bytes L r = bindR (result_to_mapping L r) (\<lambda>m. contract_canonical_bytes L (pdict m))"

record accepted_changeset =
  ac_contract_version :: string
  ac_changeset_id :: string
  ac_workspace_id :: string
  ac_parent_generation_id :: "string option"
  ac_command_ids :: "string list"
  ac_object_refs :: "string list"
  ac_changes_root :: string

definition changeset_canonical_bytes :: "lib \<Rightarrow> accepted_changeset \<Rightarrow> bytes res" where
  "changeset_canonical_bytes L c = contract_canonical_bytes L (pdict
     [(''contract_version'', PStr (ac_contract_version c)),
      (''changeset_id'', PStr (ac_changeset_id c)),
      (''workspace_id'', PStr (ac_workspace_id c)),
      (''parent_generation_id'', popt (ac_parent_generation_id c)),
      (''command_ids'', PList (map PStr (ac_command_ids c))),
      (''object_refs'', PList (map PStr (ac_object_refs c))),
      (''changes_root'', PStr (ac_changes_root c))])"

subsection \<open>Operational events\<close>

record operational_event =
  ev_schema_version :: string
  ev_id :: string
  ev_workspace_id :: string
  ev_generation_id :: string
  ev_parent_generation_id :: "string option"
  ev_generation_seq :: string
  ev_type :: string
  ev_causation_id :: string
  ev_correlation_id :: string
  ev_sensitivity :: string
  ev_payload_ref :: "string option"
  ev_emitted_at :: string

definition event_identity_fields :: "string list" where
  "event_identity_fields = [''event_schema_version'', ''workspace_id'', ''generation_id'', ''parent_generation_id'',
     ''generation_seq'', ''event_type'', ''causation_id'', ''correlation_id'', ''sensitivity'', ''payload_ref'',
     ''emitted_at'']"

definition event_fields :: "string list" where
  "event_fields = ''event_id'' # event_identity_fields"

definition event_identity_body :: "fields \<Rightarrow> pyval" where
  "event_identity_body values = pdict (map (\<lambda>k. (k, field values k)) event_identity_fields)"

definition contract_hash :: "lib \<Rightarrow> pyval \<Rightarrow> string res" where
  "contract_hash L v = bindR (contract_canonical_bytes L v) (\<lambda>b. Inr (sha256_hex L b))"

text \<open>\<open>cls(**values)\<close> with \<open>__post_init__\<close>.\<close>

definition new_event :: "lib \<Rightarrow> fields \<Rightarrow> operational_event res" where
  "new_event L values =
     bindR (guardR (field values ''event_schema_version'' = PStr EVENT_SCHEMA_VERSION) UnsupportedContractVersion) (\<lambda>_.
     bindR (guardR (\<forall>f\<in>set event_identity_fields - {''parent_generation_id'', ''payload_ref''}.
              nonempty_str (field values f)) InvalidContractValue) (\<lambda>_.
     bindR (guardR (\<forall>f\<in>{''parent_generation_id'', ''payload_ref''}. opt_nonempty_str (field values f)) InvalidContractValue) (\<lambda>_.
     bindR (guardR (canonical_uint (the_str (field values ''generation_seq''))) InvalidContractValue) (\<lambda>_.
     bindR (guardR (the_str (field values ''sensitivity'') \<in> {''public'', ''internal'', ''private'', ''secret''})
              InvalidContractValue) (\<lambda>_.
     bindR (contract_hash L (event_identity_body values)) (\<lambda>expected.
     bindR (guardR (field values ''event_id'' = PStr expected) InvalidContractValue) (\<lambda>_.
       Inr \<lparr>ev_schema_version = the_str (field values ''event_schema_version''),
            ev_id = expected,
            ev_workspace_id = the_str (field values ''workspace_id''),
            ev_generation_id = the_str (field values ''generation_id''),
            ev_parent_generation_id = the_opt_str (field values ''parent_generation_id''),
            ev_generation_seq = the_str (field values ''generation_seq''),
            ev_type = the_str (field values ''event_type''),
            ev_causation_id = the_str (field values ''causation_id''),
            ev_correlation_id = the_str (field values ''correlation_id''),
            ev_sensitivity = the_str (field values ''sensitivity''),
            ev_payload_ref = the_opt_str (field values ''payload_ref''),
            ev_emitted_at = the_str (field values ''emitted_at'')\<rparr>)))))))"

definition event_create :: "lib \<Rightarrow> fields \<Rightarrow> operational_event res" where
  "event_create L kwargs =
     (let values = fold (\<lambda>(k, v). dict_set k v) kwargs [(''event_schema_version'', PStr EVENT_SCHEMA_VERSION)]
      in if \<not> set event_identity_fields \<subseteq> set (dict_keys values) then Inl KeyError
         else bindR (contract_hash L (event_identity_body values)) (\<lambda>eid.
           if \<not> set (dict_keys values) \<subseteq> set event_identity_fields then Inl TypeError
           else new_event L (dict_set ''event_id'' (PStr eid) values)))"

definition event_from_mapping :: "lib \<Rightarrow> fields \<Rightarrow> operational_event res" where
  "event_from_mapping L data =
     (if \<not> set (dict_keys data) \<subseteq> set event_fields then Inl UnknownContractField
      else if \<not> set event_fields \<subseteq> set (dict_keys data) then Inl InvalidContractValue
      else new_event L data)"

definition event_to_mapping :: "operational_event \<Rightarrow> fields" where
  "event_to_mapping e =
     [(''event_schema_version'', PStr (ev_schema_version e)),
      (''event_id'', PStr (ev_id e)),
      (''workspace_id'', PStr (ev_workspace_id e)),
      (''generation_id'', PStr (ev_generation_id e)),
      (''parent_generation_id'', popt (ev_parent_generation_id e)),
      (''generation_seq'', PStr (ev_generation_seq e)),
      (''event_type'', PStr (ev_type e)),
      (''causation_id'', PStr (ev_causation_id e)),
      (''correlation_id'', PStr (ev_correlation_id e)),
      (''sensitivity'', PStr (ev_sensitivity e)),
      (''payload_ref'', popt (ev_payload_ref e)),
      (''emitted_at'', PStr (ev_emitted_at e))]"

definition event_canonical_bytes :: "lib \<Rightarrow> operational_event \<Rightarrow> bytes res" where
  "event_canonical_bytes L e = contract_canonical_bytes L (pdict (event_to_mapping e))"

subsection \<open>Normal values\<close>

text \<open>What the code relies on: normalising twice is normalising once.\<close>

definition nfc_idem :: "lib \<Rightarrow> bool" where
  "nfc_idem L \<longleftrightarrow> (\<forall>s. nfc L (nfc L s) = nfc L s)"

fun normal :: "lib \<Rightarrow> json \<Rightarrow> bool" where
  "normal L (JStr s) = (nfc L s = s)"
| "normal L (JNum n) = False"
| "normal L (JList xs) = list_all (normal L) xs"
| "normal L (JObj kvs) = (distinct (map fst kvs) \<and> list_all (\<lambda>(k, v). nfc L k = k \<and> normal L v) kvs)"
| "normal L _ = True"

lemma admissible_json_py: "normal L j \<Longrightarrow> admissible L tup (json_py j)"
proof (induction j rule: json_py.induct)
  case (5 xs)
  then show ?case by (simp add: list_all_iff)
next
  case (6 kvs)
  have "map (nkey L \<circ> (\<lambda>(k, v). (PStr k, json_py v))) kvs = map fst kvs"
    using 6(2) by (auto simp: list_all_iff)
  then have "distinct (map (nkey L) (map (\<lambda>(k, v). (PStr k, json_py v)) kvs))"
    using 6(2) by (simp del: map_map add: map_map [symmetric])
  with 6 show ?case by (force simp: admissible_PDict list_all_iff)
qed simp_all

lemma canonical_form_json_py: "normal L j \<Longrightarrow> canonical_form_of L (json_py j) = j"
proof (induction j rule: json_py.induct)
  case (5 xs)
  then show ?case by (auto simp: list_all_iff intro: map_idI)
next
  case (6 kvs)
  have "map (\<lambda>x. (nfc L (fst x), canonical_form_of L (json_py (snd x)))) kvs = kvs"
    using 6 by (intro map_idI) (fastforce simp: list_all_iff)
  then show ?case by (simp add: canonical_form_PDict comp_def split_beta)
qed simp_all

lemma normal_canonical_form: "nfc_idem L \<Longrightarrow> admissible L tup v \<Longrightarrow> normal L (canonical_form_of L v)"
proof (induction L tup v rule: admissible.induct)
  case (6 L tup kvs)
  from 6(3) have "distinct (map (nkey L) kvs)" by (simp add: admissible_PDict)
  moreover have "normal L (canonical_form_of L (snd kv))" if "kv \<in> set kvs" for kv
    using 6 that by (cases kv) (auto simp: admissible_PDict)
  ultimately show ?case using 6(2) by (simp add: canonical_form_PDict list_all_iff comp_def nfc_idem_def)
qed (auto simp: list_all_iff nfc_idem_def)

lemma normal_sort_keys: "normal L j \<Longrightarrow> normal L (sort_keys j)"
proof (induction j)
  case (JObj kvs)
  have "distinct (map fst (sort_key fst (map (map_prod id sort_keys) kvs)))"
    using JObj.prems by (simp add: distinct_map_sort_key del: map_map)
  with JObj show ?case by (fastforce simp: list_all_iff)
qed (auto simp: list_all_iff)

lemma contract_normalize_normal:
  "nfc_idem L \<Longrightarrow> contract_normalize L v = Inr j \<Longrightarrow> normal L j \<and> sort_keys j = j"
  by (auto simp: contract.norm_eq normal_sort_keys normal_canonical_form split: if_splits)

lemma contract_normalize_again:
  "normal L j \<Longrightarrow> sort_keys j = j \<Longrightarrow> contract_normalize L (json_py j) = Inr j"
  by (simp add: contract.norm_eq admissible_json_py canonical_form_json_py)

lemma normalize_object_again:
  assumes "nfc_idem L" "normalize_object L v = Inr kvs"
  shows "normalize_object L (json_py (JObj kvs)) = Inr kvs"
proof -
  from assms(2) have "contract_normalize L v = Inr (JObj kvs)"
    unfolding normalize_object_def bindR_Inr_iff by (elim exE conjE) (simp split: json.split_asm)
  with contract_normalize_normal [OF assms(1) this] show ?thesis
    by (simp only: normalize_object_def contract_normalize_again bindR_simps json.case)
qed

subsection \<open>Round trips\<close>

lemma popt_simps [simp]:
  "opt_nonempty_str v \<Longrightarrow> popt (the_opt_str v) = v" "the_opt_str (popt x) = x"
  by (cases v; auto simp: popt_def) (cases x; simp add: popt_def)

lemma nonempty_str_the [simp]: "nonempty_str v \<Longrightarrow> PStr (the_str v) = v" "nonempty_str (PStr s) \<longleftrightarrow> s \<noteq> []"
  by (cases v; simp)+

lemma nonempty_the_str: "nonempty_str v \<Longrightarrow> the_str v \<noteq> []"
  by (cases v) simp_all

lemma strict_mapping_Inr:
  "strict_mapping data allowed required = Inr values \<longleftrightarrow> values = data \<and> set (dict_keys data) \<subseteq> set allowed \<and>
     set required \<subseteq> set (dict_keys data) \<and> map_of data ''contract_version'' = Some (PStr CONTRACT_VERSION)"
  by (auto simp: strict_mapping_def)

lemma command_field_simps [simp]:
  "field (command_to_mapping e) ''contract_version'' = PStr (ce_contract_version e)"
  "field (command_to_mapping e) ''command_id'' = PStr (ce_command_id e)"
  "field (command_to_mapping e) ''idempotency_key'' = PStr (ce_idempotency_key e)"
  "field (command_to_mapping e) ''workspace_id'' = PStr (ce_workspace_id e)"
  "field (command_to_mapping e) ''actor_id'' = PStr (ce_actor_id e)"
  "field (command_to_mapping e) ''command_type'' = PStr (ce_command_type e)"
  "field (command_to_mapping e) ''expected_generation_id'' = popt (ce_expected_generation_id e)"
  "field (command_to_mapping e) ''payload'' = json_py (JObj (ce_payload e))"
  by (simp_all add: field_def command_to_mapping_def)

lemma query_field_simps [simp]:
  "field (query_to_mapping q) ''contract_version'' = PStr (qe_contract_version q)"
  "field (query_to_mapping q) ''query_id'' = PStr (qe_query_id q)"
  "field (query_to_mapping q) ''workspace_id'' = PStr (qe_workspace_id q)"
  "field (query_to_mapping q) ''actor_id'' = PStr (qe_actor_id q)"
  "field (query_to_mapping q) ''query_type'' = PStr (qe_query_type q)"
  "field (query_to_mapping q) ''as_of_generation_id'' = PStr (qe_as_of_generation_id q)"
  "field (query_to_mapping q) ''consistency'' = PStr (qe_consistency q)"
  "field (query_to_mapping q) ''parameters'' = json_py (JObj (qe_parameters q))"
  by (simp_all add: field_def query_to_mapping_def)

text \<open>What parsing guarantees, and that nothing more is needed to parse the printed form.\<close>

lemma command_from_mapping_Inr:
  assumes "command_from_mapping L data = Inr e"
  shows "normalize_object L (field data ''payload'') = Inr (ce_payload e)"
    "ce_contract_version e = CONTRACT_VERSION" "ce_command_id e \<noteq> []" "ce_idempotency_key e \<noteq> []"
    "ce_workspace_id e \<noteq> []" "ce_actor_id e \<noteq> []" "ce_command_type e \<noteq> []" "ce_expected_generation_id e \<noteq> Some []"
  using assms
  by (auto simp: command_from_mapping_def Let_def strict_mapping_Inr bindR_Inr_iff command_str_fields_def nonempty_the_str)
    (auto simp: field_def elim: the_opt_str.elims)

lemma command_mapping_parses:
  assumes "normalize_object L (json_py (JObj (ce_payload e))) = Inr (ce_payload e)"
    "ce_contract_version e = CONTRACT_VERSION" "ce_command_id e \<noteq> []" "ce_idempotency_key e \<noteq> []"
    "ce_workspace_id e \<noteq> []" "ce_actor_id e \<noteq> []" "ce_command_type e \<noteq> []" "ce_expected_generation_id e \<noteq> Some []"
  shows "command_from_mapping L (command_to_mapping e) = Inr e"
proof -
  have k: "dict_keys (command_to_mapping e) = command_fields"
    by (simp add: command_to_mapping_def command_fields_def command_str_fields_def)
  have s: "strict_mapping (command_to_mapping e) command_fields command_fields = Inr (command_to_mapping e)"
    unfolding strict_mapping_Inr k using assms(2) by (simp add: command_to_mapping_def)
  have o: "opt_nonempty_str (popt (ce_expected_generation_id e))"
    using assms(8) by (cases "ce_expected_generation_id e") (simp_all add: popt_def)
  have n: "\<forall>f\<in>set command_str_fields. nonempty_str (field (command_to_mapping e) f)"
    using assms(2-7) by (simp add: command_str_fields_def CONTRACT_VERSION_def)
  show ?thesis
    unfolding command_from_mapping_def s bindR_simps command_field_simps assms(1) Let_def
    using n o by simp
qed

lemma query_from_mapping_Inr:
  assumes "query_from_mapping L data = Inr q"
  shows "normalize_object L (field data ''parameters'') = Inr (qe_parameters q)"
    "qe_contract_version q = CONTRACT_VERSION" "qe_query_id q \<noteq> []" "qe_workspace_id q \<noteq> []" "qe_actor_id q \<noteq> []"
    "qe_query_type q \<noteq> []" "qe_as_of_generation_id q \<noteq> []" "qe_consistency q \<in> {''authoritative'', ''projection_ok''}"
  using assms
  by (auto simp: query_from_mapping_def Let_def strict_mapping_Inr bindR_Inr_iff query_str_fields_def nonempty_the_str)
    (auto simp: field_def)

lemma query_mapping_parses:
  assumes "normalize_object L (json_py (JObj (qe_parameters q))) = Inr (qe_parameters q)"
    "qe_contract_version q = CONTRACT_VERSION" "qe_query_id q \<noteq> []" "qe_workspace_id q \<noteq> []" "qe_actor_id q \<noteq> []"
    "qe_query_type q \<noteq> []" "qe_as_of_generation_id q \<noteq> []" "qe_consistency q \<in> {''authoritative'', ''projection_ok''}"
  shows "query_from_mapping L (query_to_mapping q) = Inr q"
proof -
  have k: "dict_keys (query_to_mapping q) = query_fields"
    by (simp add: query_to_mapping_def query_fields_def query_str_fields_def)
  have s: "strict_mapping (query_to_mapping q) query_fields query_fields = Inr (query_to_mapping q)"
    unfolding strict_mapping_Inr k using assms(2) by (simp add: query_to_mapping_def)
  have n: "\<forall>f\<in>set query_str_fields. nonempty_str (field (query_to_mapping q) f)"
    using assms(2-8) by (auto simp: query_str_fields_def CONTRACT_VERSION_def)
  show ?thesis
    unfolding query_from_mapping_def s bindR_simps query_field_simps assms(1) Let_def
    using n assms(8) by simp
qed

text \<open>
  envelopes survive the wire: whatever mapping a command or a query envelope was parsed from,
  printing it and parsing it again gives the same envelope.
\<close>

theorem envelope_roundtrip:
  assumes "nfc_idem L"
  shows "(command_from_mapping L data = Inr e \<longrightarrow> command_from_mapping L (command_to_mapping e) = Inr e) \<and>
    (query_from_mapping L data' = Inr q \<longrightarrow> query_from_mapping L (query_to_mapping q) = Inr q)"
proof (intro conjI impI)
  assume e: "command_from_mapping L data = Inr e"
  note i = command_from_mapping_Inr [OF e]
  show "command_from_mapping L (command_to_mapping e) = Inr e"
    by (rule command_mapping_parses) (rule normalize_object_again [OF assms i(1)] i(2-8))+
next
  assume q: "query_from_mapping L data' = Inr q"
  note i = query_from_mapping_Inr [OF q]
  show "query_from_mapping L (query_to_mapping q) = Inr q"
    by (rule query_mapping_parses) (rule normalize_object_again [OF assms i(1)] i(2-8))+
qed

definition demo_command :: command_envelope where
  "demo_command = \<lparr>ce_contract_version = CONTRACT_VERSION, ce_command_id = ''c'', ce_idempotency_key = ''k'',
     ce_workspace_id = ''w'', ce_actor_id = ''a'', ce_command_type = ''t'', ce_expected_generation_id = None,
     ce_payload = [(''x'', JBool True)]\<rparr>"

lemma demo_lib_idem [simp]: "nfc_idem demo_lib"
  by (simp add: nfc_idem_def)

lemma demo_command_parses: "command_from_mapping demo_lib (command_to_mapping demo_command) = Inr demo_command"
  by (rule command_mapping_parses) (simp_all add: demo_command_def normalize_object_def contract.norm_eq
      admissible_PDict canonical_form_PDict)

theorem envelope_roundtrip_witness:
  "nfc_idem demo_lib \<and> command_from_mapping demo_lib (command_to_mapping demo_command) = Inr demo_command"
  using envelope_roundtrip [OF demo_lib_idem, of "command_to_mapping demo_command" demo_command] demo_command_parses
  by simp

subsection \<open>Event identity\<close>

lemma event_field_simps [simp]:
  "field (event_to_mapping e) ''event_schema_version'' = PStr (ev_schema_version e)"
  "field (event_to_mapping e) ''event_id'' = PStr (ev_id e)"
  "field (event_to_mapping e) ''workspace_id'' = PStr (ev_workspace_id e)"
  "field (event_to_mapping e) ''generation_id'' = PStr (ev_generation_id e)"
  "field (event_to_mapping e) ''parent_generation_id'' = popt (ev_parent_generation_id e)"
  "field (event_to_mapping e) ''generation_seq'' = PStr (ev_generation_seq e)"
  "field (event_to_mapping e) ''event_type'' = PStr (ev_type e)"
  "field (event_to_mapping e) ''causation_id'' = PStr (ev_causation_id e)"
  "field (event_to_mapping e) ''correlation_id'' = PStr (ev_correlation_id e)"
  "field (event_to_mapping e) ''sensitivity'' = PStr (ev_sensitivity e)"
  "field (event_to_mapping e) ''payload_ref'' = popt (ev_payload_ref e)"
  "field (event_to_mapping e) ''emitted_at'' = PStr (ev_emitted_at e)"
  by (simp_all add: field_def event_to_mapping_def)

lemma event_str_fields:
  "set event_identity_fields - {''parent_generation_id'', ''payload_ref''} =
     {''event_schema_version'', ''workspace_id'', ''generation_id'', ''generation_seq'', ''event_type'', ''causation_id'',
      ''correlation_id'', ''sensitivity'', ''emitted_at''}"
  by (simp add: event_identity_fields_def insert_Diff_if)

lemma new_event_fields:
  assumes "new_event L values = Inr e" and "k \<in> set event_fields"
  shows "field (event_to_mapping e) k = field values k"
proof -
  from assms(1) have s: "\<forall>f\<in>set event_identity_fields - {''parent_generation_id'', ''payload_ref''}. nonempty_str (field values f)"
      and o: "opt_nonempty_str (field values ''parent_generation_id'')" "opt_nonempty_str (field values ''payload_ref'')"
      and i: "field values ''event_id'' = PStr (ev_id e)"
    by (auto simp: new_event_def bindR_Inr_iff)
  have n: "nonempty_str (field values ''event_schema_version'')" "nonempty_str (field values ''workspace_id'')"
      "nonempty_str (field values ''generation_id'')" "nonempty_str (field values ''generation_seq'')"
      "nonempty_str (field values ''event_type'')" "nonempty_str (field values ''causation_id'')"
      "nonempty_str (field values ''correlation_id'')" "nonempty_str (field values ''sensitivity'')"
      "nonempty_str (field values ''emitted_at'')"
    using s unfolding event_str_fields by simp_all
  have e: "e = \<lparr>ev_schema_version = the_str (field values ''event_schema_version''),
            ev_id = ev_id e,
            ev_workspace_id = the_str (field values ''workspace_id''),
            ev_generation_id = the_str (field values ''generation_id''),
            ev_parent_generation_id = the_opt_str (field values ''parent_generation_id''),
            ev_generation_seq = the_str (field values ''generation_seq''),
            ev_type = the_str (field values ''event_type''),
            ev_causation_id = the_str (field values ''causation_id''),
            ev_correlation_id = the_str (field values ''correlation_id''),
            ev_sensitivity = the_str (field values ''sensitivity''),
            ev_payload_ref = the_opt_str (field values ''payload_ref''),
            ev_emitted_at = the_str (field values ''emitted_at'')\<rparr>"
    using assms(1) by (auto simp: new_event_def bindR_Inr_iff)
  show ?thesis
    using assms(2) n o i by (subst e) (auto simp: event_fields_def event_identity_fields_def)
qed

lemma new_event_cong:
  assumes "\<And>k. k \<in> set event_fields \<Longrightarrow> field values k = field values' k"
  shows "new_event L values = new_event L values'"
proof -
  have b: "event_identity_body values = event_identity_body values'"
    using assms by (simp add: event_identity_body_def event_fields_def event_identity_fields_def)
  have f: "field values k = field values' k"
    if "k \<in> {''event_schema_version'', ''event_id'', ''workspace_id'', ''generation_id'', ''parent_generation_id'',
      ''generation_seq'', ''event_type'', ''causation_id'', ''correlation_id'', ''sensitivity'', ''payload_ref'', ''emitted_at''}" for k
    using assms that by (simp add: event_fields_def event_identity_fields_def) blast
  have s: "(\<forall>f\<in>set event_identity_fields - {''parent_generation_id'', ''payload_ref''}. nonempty_str (field values f))
     = (\<forall>f\<in>set event_identity_fields - {''parent_generation_id'', ''payload_ref''}. nonempty_str (field values' f))"
    using assms by (simp add: event_fields_def)
  show ?thesis unfolding new_event_def b s by (simp add: f)
qed

lemma new_event_id:
  "new_event L values = Inr e \<Longrightarrow> contract_hash L (event_identity_body values) = Inr (ev_id e)"
  by (auto simp: new_event_def bindR_Inr_iff)

lemma event_body_to_mapping:
  "new_event L values = Inr e \<Longrightarrow> event_identity_body (event_to_mapping e) = event_identity_body values"
  unfolding event_identity_body_def
  by (rule arg_cong [where f = pdict], rule map_cong) (simp_all add: new_event_fields event_fields_def)

definition contract_no_collision :: "lib \<Rightarrow> pyval \<Rightarrow> pyval \<Rightarrow> bool" where
  "contract_no_collision L v w \<longleftrightarrow>
     (case (contract_canonical_bytes L v, contract_canonical_bytes L w) of
        (Inr b, Inr b') \<Rightarrow> sha256 L b = sha256 L b' \<longrightarrow> b = b'
      | _ \<Rightarrow> True)"

lemma contract_hash_binding:
  assumes "contract_hash L v = Inr h" "contract_hash L w = Inr h" "contract_no_collision L v w"
  shows "sort_keys (canonical_form_of L v) = sort_keys (canonical_form_of L w) \<and>
         jwf (canonical_form_of L v) \<and> jwf (canonical_form_of L w)"
proof -
  from assms(1,2) obtain b b' where b: "contract_canonical_bytes L v = Inr b" "contract_canonical_bytes L w = Inr b'"
      "sha256 L b = sha256 L b'"
    by (auto simp: contract_hash_def sha256_hex_def bindR_Inr_iff)
  with assms(3) have "b = b'" by (simp add: contract_no_collision_def)
  with b show ?thesis
    using contract.to_bytes_inject [of L v b w] contract.to_bytes_Inr_iff [of L v b] contract.to_bytes_Inr_iff [of L w b]
      canonical_form_wf
    by (auto simp: contract_canonical_bytes_def)
qed

text \<open>
  an operational event is tied to its id. The id is recomputed on every construction, so an
  event that was accepted once prints and parses to itself, and two accepted events with the same
  id agree on every identity field up to Unicode normalisation (unless SHA-256 collides on their
  two bodies); in particular they have the same sequence number.
\<close>

theorem event_identity:
  assumes "nfc_ascii L" and "event_from_mapping L data = Inr e" and "event_from_mapping L data' = Inr e'"
  shows "event_from_mapping L (event_to_mapping e) = Inr e \<and>
    (ev_id e = ev_id e' \<and>
     contract_no_collision L (event_identity_body (event_to_mapping e)) (event_identity_body (event_to_mapping e')) \<longrightarrow>
     (\<forall>k\<in>set event_identity_fields.
        sort_keys (canonical_form_of L (field (event_to_mapping e) k)) = sort_keys (canonical_form_of L (field (event_to_mapping e') k))))"
proof (intro conjI impI ballI)
  from assms(2,3) have n: "new_event L data = Inr e" "new_event L data' = Inr e'"
    by (auto simp: event_from_mapping_def split: if_splits)
  have k: "set (dict_keys (event_to_mapping e)) = set event_fields"
    by (auto simp: event_to_mapping_def event_fields_def event_identity_fields_def)
  have "new_event L (event_to_mapping e) = new_event L data"
    using new_event_fields [OF n(1)] by (rule new_event_cong)
  with n k show "event_from_mapping L (event_to_mapping e) = Inr e" by (simp add: event_from_mapping_def)
  fix k assume k: "k \<in> set event_identity_fields"
    and h: "ev_id e = ev_id e' \<and> contract_no_collision L (event_identity_body (event_to_mapping e)) (event_identity_body (event_to_mapping e'))"
  note b = contract_hash_binding [OF new_event_id [OF n(1)], of "event_identity_body data'"]
  have "sort_keys (canonical_form_of L (event_identity_body data)) = sort_keys (canonical_form_of L (event_identity_body data'))
      \<and> jwf (canonical_form_of L (event_identity_body data)) \<and> jwf (canonical_form_of L (event_identity_body data'))"
    using b new_event_id [OF n(2)] h n by (simp add: event_body_to_mapping)
  then have j: "map_option sort_keys (jget (canonical_form_of L (event_identity_body data)) k) =
      map_option sort_keys (jget (canonical_form_of L (event_identity_body data')) k)"
    by (intro sort_keys_eq_jget) auto
  have a: "nfc L x = x" if "x \<in> set event_identity_fields" for x
  proof (rule nfc_asciiD [OF assms(1)])
    have "list_all (list_all (\<lambda>c. (of_char c :: nat) < 128)) event_identity_fields"
      by (simp add: event_identity_fields_def)
    with that show "list_all (\<lambda>c. (of_char c :: nat) < 128) x" by (simp add: list_all_iff)
  qed
  have g: "jget (canonical_form_of L (event_identity_body d)) k = Some (canonical_form_of L (field d k))" for d
  proof -
    have "map (\<lambda>x. (nfc L x, canonical_form_of L (field d x))) event_identity_fields
       = map (\<lambda>x. (x, canonical_form_of L (field d x))) event_identity_fields" using a by simp
    then have "map_of (map (\<lambda>x. (nfc L x, canonical_form_of L (field d x))) event_identity_fields) k =
        Some (canonical_form_of L (field d k))" using k by (simp only: map_of_map_restrict) simp
    then show ?thesis by (simp add: jget_def event_identity_body_def canonical_form_pdict comp_def)
  qed
  from j g new_event_fields n k
  show "sort_keys (canonical_form_of L (field (event_to_mapping e) k)) = sort_keys (canonical_form_of L (field (event_to_mapping e') k))"
    by (simp add: event_fields_def)
qed

definition demo_event_body :: fields where
  "demo_event_body =
     [(''event_schema_version'', PStr EVENT_SCHEMA_VERSION), (''workspace_id'', PStr ''w''), (''generation_id'', PStr ''g1''),
      (''parent_generation_id'', PNone), (''generation_seq'', PStr ''1''), (''event_type'', PStr ''t''),
      (''causation_id'', PStr ''c''), (''correlation_id'', PStr ''r''), (''sensitivity'', PStr ''public''),
      (''payload_ref'', PNone), (''emitted_at'', PStr ''now'')]"

lemma demo_event_hash: "\<exists>h. contract_hash demo_lib (event_identity_body demo_event_body) = Inr h"
  by (simp add: contract_hash_def contract_canonical_bytes_def contract.norm_eq event_identity_body_def pdict_def
      admissible_PDict event_identity_fields_def demo_event_body_def field_def)

lemma demo_event_parses: "\<exists>h e. event_from_mapping demo_lib ((''event_id'', PStr h) # demo_event_body) = Inr e"
proof -
  obtain h where h: "contract_hash demo_lib (event_identity_body demo_event_body) = Inr h"
    using demo_event_hash by blast
  let ?d = "(''event_id'', PStr h) # demo_event_body"
  have f: "field ?d k = field demo_event_body k" if "k \<in> set event_identity_fields" for k
    using that by (auto simp: field_def event_identity_fields_def)
  then have b: "event_identity_body ?d = event_identity_body demo_event_body"
    by (simp add: event_identity_body_def cong: map_cong)
  have k: "set (dict_keys ?d) = set event_fields"
    by (auto simp: event_fields_def event_identity_fields_def demo_event_body_def)
  have i: "field ?d ''event_id'' = PStr h" by (simp add: field_def)
  have "\<exists>e. new_event demo_lib ?d = Inr e"
    unfolding new_event_def b h i bindR_simps event_str_fields
    by (simp add: field_def demo_event_body_def EVENT_SCHEMA_VERSION_def canonical_uint_def canonical_pos_def is_digit_def)
  with k show ?thesis by (simp add: event_from_mapping_def) blast
qed

theorem event_identity_witness:
  "\<exists>data e. event_from_mapping demo_lib data = Inr e \<and> event_from_mapping demo_lib (event_to_mapping e) = Inr e"
  using demo_event_parses event_identity [OF demo_lib_ascii] by meson

end
