(* ===== verification/Events.thy ===== *)
theory Events
  imports Contracts "HOL-Library.Product_Lexorder"
begin

text \<open>
  \<open>memory_core/events.py\<close>: the event factory, the consumer with its store interface, the replay
  log and the replay coordinator. The \<open>EventConsumerStore\<close> protocol is a record of operations
  over an abstract store type; its contract is the locale \<open>consumer_store\<close>, and the in-memory
  store is an interpretation of it. An event handler is seen through what it does on one delivery:
  it prepares an effect or raises.

  The results: whatever events are delivered, how often and in which order, the checkpoint advances
  through generations \<open>1, 2, 3, ...\<close> without gap or repetition along the parent links; a
  replay of a complete log reaches its end; an event whose handler always fails is dead-lettered
  after \<open>max_attempts\<close> deliveries and does not block its successors.
\<close>

subsection \<open>Records\<close>

record outbox_event_record =
  ob_workspace_id :: string
  ob_generation_id :: string
  ob_parent_generation_id :: "string option"
  ob_generation_seq :: string
  ob_event_type :: string
  ob_causation_id :: string
  ob_correlation_id :: string
  ob_sensitivity :: string
  ob_payload_ref :: "string option"
  ob_emitted_at :: string

definition from_outbox :: "lib \<Rightarrow> outbox_event_record \<Rightarrow> operational_event res" where
  "from_outbox L r = event_create L
     [(''workspace_id'', PStr (ob_workspace_id r)),
      (''generation_id'', PStr (ob_generation_id r)),
      (''parent_generation_id'', popt (ob_parent_generation_id r)),
      (''generation_seq'', PStr (ob_generation_seq r)),
      (''event_type'', PStr (ob_event_type r)),
      (''causation_id'', PStr (ob_causation_id r)),
      (''correlation_id'', PStr (ob_correlation_id r)),
      (''sensitivity'', PStr (ob_sensitivity r)),
      (''payload_ref'', popt (ob_payload_ref r)),
      (''emitted_at'', PStr (ob_emitted_at r))]"

record consumer_effect =
  effect_digest :: string
  result_ref :: "string option"

definition effect_create :: "lib \<Rightarrow> string \<Rightarrow> string option \<Rightarrow> pyval \<Rightarrow> consumer_effect res" where
  "effect_create L effect_type ref metadata =
     (if effect_type = [] then Inl ValueError
      else bindR (contract_hash L (pdict [(''effect_type'', PStr effect_type), (''result_ref'', popt ref), (''metadata'', metadata)]))
        (\<lambda>d. Inr \<lparr>effect_digest = d, result_ref = ref\<rparr>))"

record event_checkpoint =
  ck_workspace_id :: string
  ck_consumer_id :: string
  ck_generation_seq :: string
  ck_generation_id :: string
  ck_last_event_id :: string

record event_consume_result =
  er_status :: string
  er_event_id :: string
  er_checkpoint :: "event_checkpoint option"
  er_attempts :: string
  er_error_code :: "string option"

text \<open>The \<open>EventConsumerStore\<close> protocol.\<close>

record 's event_store_ops =
  op_seen :: "'s \<Rightarrow> string \<Rightarrow> string \<Rightarrow> string \<Rightarrow> bool"
  op_checkpoint :: "'s \<Rightarrow> string \<Rightarrow> string \<Rightarrow> event_checkpoint option"
  op_record_failure :: "'s \<Rightarrow> string \<Rightarrow> string \<Rightarrow> string \<Rightarrow> nat \<times> 's"
  op_commit :: "'s \<Rightarrow> string \<Rightarrow> operational_event \<Rightarrow> consumer_effect \<Rightarrow> event_checkpoint option \<Rightarrow> bool \<times> 's"
  op_acknowledge_stale :: "'s \<Rightarrow> string \<Rightarrow> operational_event \<Rightarrow> 's"
  op_dead_letter_and_advance :: "'s \<Rightarrow> string \<Rightarrow> operational_event \<Rightarrow> event_checkpoint option \<Rightarrow> string \<Rightarrow> bool \<times> 's"

subsection \<open>The in-memory store\<close>

record mem_store =
  m_seen :: "(string \<times> string \<times> string) list"
  m_checkpoints :: "(string \<times> string, event_checkpoint) dict"
  m_failures :: "(string \<times> string \<times> string, nat) dict"
  m_effects :: "(string \<times> string \<times> string, consumer_effect) dict"
  m_dead_letters :: "(string \<times> string \<times> string, string) dict"

definition mem_init :: mem_store where
  "mem_init = \<lparr>m_seen = [], m_checkpoints = [], m_failures = [], m_effects = [], m_dead_letters = []\<rparr>"

definition mem_seen :: "mem_store \<Rightarrow> string \<Rightarrow> string \<Rightarrow> string \<Rightarrow> bool" where
  "mem_seen s w c i \<longleftrightarrow> (w, c, i) \<in> set (m_seen s)"

definition mem_checkpoint :: "mem_store \<Rightarrow> string \<Rightarrow> string \<Rightarrow> event_checkpoint option" where
  "mem_checkpoint s w c = map_of (m_checkpoints s) (w, c)"

definition mem_record_failure :: "mem_store \<Rightarrow> string \<Rightarrow> string \<Rightarrow> string \<Rightarrow> nat \<times> mem_store" where
  "mem_record_failure s w c i =
     (let key = (w, c, i); v = (case map_of (m_failures s) key of None \<Rightarrow> 0 | Some n \<Rightarrow> n) + 1
      in (v, s\<lparr>m_failures := dict_set key v (m_failures s)\<rparr>))"

definition next_checkpoint :: "string \<Rightarrow> operational_event \<Rightarrow> event_checkpoint" where
  "next_checkpoint c e =
     \<lparr>ck_workspace_id = ev_workspace_id e, ck_consumer_id = c, ck_generation_seq = ev_generation_seq e,
      ck_generation_id = ev_generation_id e, ck_last_event_id = ev_id e\<rparr>"

definition mem_commit ::
    "mem_store \<Rightarrow> string \<Rightarrow> operational_event \<Rightarrow> consumer_effect \<Rightarrow> event_checkpoint option \<Rightarrow> bool \<times> mem_store" where
  "mem_commit s c e eff expected =
     (let key = (ev_workspace_id e, c, ev_id e); ckey = (ev_workspace_id e, c)
      in if key \<in> set (m_seen s) then (True, s)
         else if map_of (m_checkpoints s) ckey \<noteq> expected then (False, s)
         else (True, s\<lparr>m_effects := dict_set key eff (m_effects s),
                       m_seen := List.insert key (m_seen s),
                       m_failures := dict_pop key (m_failures s),
                       m_checkpoints := dict_set ckey (next_checkpoint c e) (m_checkpoints s)\<rparr>))"

definition mem_acknowledge_stale :: "mem_store \<Rightarrow> string \<Rightarrow> operational_event \<Rightarrow> mem_store" where
  "mem_acknowledge_stale s c e = s\<lparr>m_seen := List.insert (ev_workspace_id e, c, ev_id e) (m_seen s)\<rparr>"

definition mem_dead_letter_and_advance ::
    "mem_store \<Rightarrow> string \<Rightarrow> operational_event \<Rightarrow> event_checkpoint option \<Rightarrow> string \<Rightarrow> bool \<times> mem_store" where
  "mem_dead_letter_and_advance s c e expected code =
     (let key = (ev_workspace_id e, c, ev_id e); ckey = (ev_workspace_id e, c)
      in if map_of (m_checkpoints s) ckey \<noteq> expected then (False, s)
         else (True, s\<lparr>m_dead_letters := dict_set key code (m_dead_letters s),
                       m_seen := List.insert key (m_seen s),
                       m_checkpoints := dict_set ckey (next_checkpoint c e) (m_checkpoints s)\<rparr>))"

definition mem_effect :: "mem_store \<Rightarrow> string \<Rightarrow> string \<Rightarrow> string \<Rightarrow> consumer_effect option" where
  "mem_effect s w c i = map_of (m_effects s) (w, c, i)"

definition mem_dead_letter :: "mem_store \<Rightarrow> string \<Rightarrow> string \<Rightarrow> string \<Rightarrow> string option" where
  "mem_dead_letter s w c i = map_of (m_dead_letters s) (w, c, i)"

definition mem_ops :: "mem_store event_store_ops" where
  "mem_ops = \<lparr>op_seen = mem_seen, op_checkpoint = mem_checkpoint, op_record_failure = mem_record_failure,
     op_commit = mem_commit, op_acknowledge_stale = mem_acknowledge_stale,
     op_dead_letter_and_advance = mem_dead_letter_and_advance\<rparr>"

subsection \<open>The consumer\<close>

record consumer =
  consumer_id :: string
  max_attempts :: nat

definition new_consumer :: "string \<Rightarrow> nat \<Rightarrow> consumer res" where
  "new_consumer c n = (if c = [] \<or> n < 1 then Inl ValueError else Inr \<lparr>consumer_id = c, max_attempts = n\<rparr>)"

definition consume_result :: "string \<Rightarrow> operational_event \<Rightarrow> event_checkpoint option \<Rightarrow> nat \<Rightarrow> string option \<Rightarrow> event_consume_result" where
  "consume_result st e ck n code =
     \<lparr>er_status = st, er_event_id = ev_id e, er_checkpoint = ck, er_attempts = str_nat n, er_error_code = code\<rparr>"

text \<open>\<open>prepared\<close> is what \<open>handler.prepare(event)\<close> gives on this delivery.\<close>

definition consume ::
    "'s event_store_ops \<Rightarrow> consumer \<Rightarrow> 's \<Rightarrow> operational_event \<Rightarrow> consumer_effect res \<Rightarrow> event_consume_result \<times> 's" where
  "consume S con s e prepared =
     (let w = ev_workspace_id e; c = consumer_id con in
      if op_seen S s w c (ev_id e) then (consume_result ''duplicate'' e (op_checkpoint S s w c) 0 None, s)
      else
        let checkpoint = op_checkpoint S s w c;
            sequence = int_str (ev_generation_seq e);
            expected_sequence = (case checkpoint of None \<Rightarrow> 1 | Some ck \<Rightarrow> int_str (ck_generation_seq ck) + 1)
        in if sequence < expected_sequence
           then (consume_result ''ignored_stale'' e checkpoint 0 (Some ''event_out_of_order''), op_acknowledge_stale S s c e)
           else if sequence > expected_sequence
           then (consume_result ''retry_later'' e checkpoint 0 (Some ''event_sequence_gap''), s)
           else if ev_parent_generation_id e \<noteq> map_option ck_generation_id checkpoint
           then (consume_result ''retry_later'' e checkpoint 0 (Some ''event_parent_mismatch''), s)
           else
             case prepared of
               Inl _ \<Rightarrow>
                 (let (attempts, s1) = op_record_failure S s w c (ev_id e)
                  in if attempts < max_attempts con
                     then (consume_result ''retry_later'' e checkpoint attempts (Some ''event_handler_failed''), s1)
                     else
                       let (advanced, s2) = op_dead_letter_and_advance S s1 c e checkpoint ''event_handler_failed''
                       in if \<not> advanced
                          then (consume_result ''retry_later'' e (op_checkpoint S s2 w c) attempts (Some ''event_checkpoint_conflict''), s2)
                          else (consume_result ''dead_lettered'' e (op_checkpoint S s2 w c) attempts (Some ''event_handler_failed''), s2))
             | Inr eff \<Rightarrow>
                 (let (committed, s1) = op_commit S s c e eff checkpoint
                  in if \<not> committed
                     then (consume_result ''retry_later'' e (op_checkpoint S s1 w c) 0 (Some ''event_checkpoint_conflict''), s1)
                     else (consume_result ''processed'' e (op_checkpoint S s1 w c) 1 None, s1)))"

subsection \<open>Replay\<close>

definition events_after :: "operational_event list \<Rightarrow> string \<Rightarrow> string \<Rightarrow> operational_event list" where
  "events_after log w seq =
     (let floor = int_str seq
      in sort_key (\<lambda>e. (int_str (ev_generation_seq e), ev_id e))
           (filter (\<lambda>e. ev_workspace_id e = w \<and> int_str (ev_generation_seq e) > floor) log))"

definition log_append :: "operational_event list \<Rightarrow> operational_event \<Rightarrow> operational_event list" where
  "log_append log e = log @ [e]"

fun replay_loop ::
    "'s event_store_ops \<Rightarrow> consumer \<Rightarrow> (operational_event \<Rightarrow> consumer_effect res) \<Rightarrow> 's \<Rightarrow> operational_event list \<Rightarrow>
     event_consume_result list \<times> 's" where
  "replay_loop S con h s [] = ([], s)"
| "replay_loop S con h s (e # es) =
     (let (r, s1) = consume S con s e (h e)
      in if er_status r = ''retry_later'' then ([r], s1)
         else let (rs, s2) = replay_loop S con h s1 es in (r # rs, s2))"

definition replay ::
    "'s event_store_ops \<Rightarrow> consumer \<Rightarrow> (operational_event \<Rightarrow> consumer_effect res) \<Rightarrow> operational_event list \<Rightarrow> 's \<Rightarrow>
     string \<Rightarrow> nat \<Rightarrow> (event_consume_result list \<times> 's) res" where
  "replay S con h log s w limit =
     (if limit < 1 then Inl ValueError
      else
        let checkpoint = op_checkpoint S s w (consumer_id con);
            floor = (case checkpoint of None \<Rightarrow> ''0'' | Some ck \<Rightarrow> ck_generation_seq ck)
        in Inr (replay_loop S con h s (take limit (events_after log w floor))))"

subsection \<open>Deliveries\<close>

text \<open>Any sequence of deliveries, each with what the handler does on it.\<close>

fun deliveries ::
    "'s event_store_ops \<Rightarrow> consumer \<Rightarrow> 's \<Rightarrow> (operational_event \<times> consumer_effect res) list \<Rightarrow>
     (operational_event \<times> event_consume_result) list \<times> 's" where
  "deliveries S con s [] = ([], s)"
| "deliveries S con s ((e, p) # ds) =
     (let (r, s1) = consume S con s e p; (rs, s2) = deliveries S con s1 ds in ((e, r) # rs, s2))"

definition advances :: "event_consume_result \<Rightarrow> bool" where
  "advances r \<longleftrightarrow> er_status r \<in> {''processed'', ''dead_lettered''}"

definition advanced :: "string \<Rightarrow> (operational_event \<times> event_consume_result) list \<Rightarrow> operational_event list" where
  "advanced w rs = map fst (filter (\<lambda>(e, r). ev_workspace_id e = w \<and> advances r) rs)"

text \<open>Consecutive generation numbers along the parent links.\<close>

fun linked :: "nat \<Rightarrow> string option \<Rightarrow> operational_event list \<Rightarrow> bool" where
  "linked n parent [] = True"
| "linked n parent (e # es) =
     (int_str (ev_generation_seq e) = n \<and> ev_parent_generation_id e = parent \<and>
      linked (n + 1) (Some (ev_generation_id e)) es)"

lemma linked_snd: "linked n parent es \<Longrightarrow> map (\<lambda>e. int_str (ev_generation_seq e)) es = [n..<n + length es]"
proof (induction es arbitrary: n parent)
  case (Cons e es)
  then show ?case by (auto simp: upt_conv_Cons simp del: upt_Suc)
qed simp

text \<open>The next generation number the consumer waits for, and whether an event is the next one.\<close>

definition awaited :: "'s event_store_ops \<Rightarrow> 's \<Rightarrow> string \<Rightarrow> string \<Rightarrow> nat" where
  "awaited S s w c = (case op_checkpoint S s w c of None \<Rightarrow> 1 | Some ck \<Rightarrow> int_str (ck_generation_seq ck) + 1)"

definition fits :: "'s event_store_ops \<Rightarrow> 's \<Rightarrow> string \<Rightarrow> operational_event \<Rightarrow> bool" where
  "fits S s c e \<longleftrightarrow> int_str (ev_generation_seq e) = awaited S s (ev_workspace_id e) c \<and>
     ev_parent_generation_id e = map_option ck_generation_id (op_checkpoint S s (ev_workspace_id e) c) \<and>
     \<not> op_seen S s (ev_workspace_id e) c (ev_id e)"

lemma mem_ops_simps [simp]:
  "op_seen mem_ops = mem_seen" "op_checkpoint mem_ops = mem_checkpoint" "op_record_failure mem_ops = mem_record_failure"
  "op_commit mem_ops = mem_commit" "op_acknowledge_stale mem_ops = mem_acknowledge_stale"
  "op_dead_letter_and_advance mem_ops = mem_dead_letter_and_advance"
  by (simp_all add: mem_ops_def)

subsection \<open>The contract of a consumer store\<close>

text \<open>
  What the consumer may rely on. Failures only count; a stale acknowledgement only marks the event;
  commit and dead-letter advance the checkpoint and mark the event in one step, and only from the
  expected checkpoint.
\<close>

locale consumer_store =
  fixes S :: "'s event_store_ops"
  assumes seen_failure: "op_seen S (snd (op_record_failure S s w c i)) = op_seen S s"
    and checkpoint_failure: "op_checkpoint S (snd (op_record_failure S s w c i)) = op_checkpoint S s"
    and checkpoint_stale: "op_checkpoint S (op_acknowledge_stale S s c e) = op_checkpoint S s"
    and seen_stale: "op_seen S (op_acknowledge_stale S s c e) w c' i \<longleftrightarrow>
          op_seen S s w c' i \<or> (w = ev_workspace_id e \<and> c' = c \<and> i = ev_id e)"
    and commit_ok: "\<not> op_seen S s (ev_workspace_id e) c (ev_id e) \<Longrightarrow>
          fst (op_commit S s c e eff x) \<longleftrightarrow> op_checkpoint S s (ev_workspace_id e) c = x"
    and commit_checkpoint: "\<not> op_seen S s (ev_workspace_id e) c (ev_id e) \<Longrightarrow> fst (op_commit S s c e eff x) \<Longrightarrow>
          op_checkpoint S (snd (op_commit S s c e eff x)) w c' =
            (if w = ev_workspace_id e \<and> c' = c then Some (next_checkpoint c e) else op_checkpoint S s w c')"
    and commit_seen: "\<not> op_seen S s (ev_workspace_id e) c (ev_id e) \<Longrightarrow> fst (op_commit S s c e eff x) \<Longrightarrow>
          op_seen S (snd (op_commit S s c e eff x)) w c' i \<longleftrightarrow>
            op_seen S s w c' i \<or> (w = ev_workspace_id e \<and> c' = c \<and> i = ev_id e)"
    and dead_ok: "fst (op_dead_letter_and_advance S s c e x code) \<longleftrightarrow> op_checkpoint S s (ev_workspace_id e) c = x"
    and dead_checkpoint: "fst (op_dead_letter_and_advance S s c e x code) \<Longrightarrow>
          op_checkpoint S (snd (op_dead_letter_and_advance S s c e x code)) w c' =
            (if w = ev_workspace_id e \<and> c' = c then Some (next_checkpoint c e) else op_checkpoint S s w c')"
    and dead_seen: "fst (op_dead_letter_and_advance S s c e x code) \<Longrightarrow>
          op_seen S (snd (op_dead_letter_and_advance S s c e x code)) w c' i \<longleftrightarrow>
            op_seen S s w c' i \<or> (w = ev_workspace_id e \<and> c' = c \<and> i = ev_id e)"
begin

lemmas consume_simps = consume_def consume_result_def fits_def awaited_def advances_def Let_def

text \<open>A delivery either is the awaited event and moves the checkpoint onto it, or keeps every checkpoint.\<close>

lemma consume_advance:
  assumes "consume S con s e p = (r, s')" and "advances r"
  shows "fits S s (consumer_id con) e \<and>
    op_checkpoint S s' w c = (if w = ev_workspace_id e \<and> c = consumer_id con
       then Some (next_checkpoint (consumer_id con) e) else op_checkpoint S s w c) \<and>
    (er_status r = ''processed'' \<longleftrightarrow> isOk p)"
proof (cases p)
  case (Inl x)
  obtain n s1 where f: "op_record_failure S s (ev_workspace_id e) (consumer_id con) (ev_id e) = (n, s1)" by fastforce
  then have ck: "op_checkpoint S s1 = op_checkpoint S s" by (metis checkpoint_failure snd_conv)
  obtain b s2 where d: "op_dead_letter_and_advance S s1 (consumer_id con) e
      (op_checkpoint S s (ev_workspace_id e) (consumer_id con)) ''event_handler_failed'' = (b, s2)" by fastforce
  have fits: "fits S s (consumer_id con) e" and b: b and s': "s' = s2" and st: "er_status r = ''dead_lettered''"
    using assms Inl by (auto simp: consume_simps f d split: if_splits option.splits)
  have "op_checkpoint S s2 w c = (if w = ev_workspace_id e \<and> c = consumer_id con
       then Some (next_checkpoint (consumer_id con) e) else op_checkpoint S s w c)"
    using dead_checkpoint [of s1 "consumer_id con" e "op_checkpoint S s (ev_workspace_id e) (consumer_id con)"
        "''event_handler_failed''" w c] d b ck by simp
  with fits s' st Inl show ?thesis by simp
next
  case (Inr eff)
  obtain b s1 where d: "op_commit S s (consumer_id con) e eff
      (op_checkpoint S s (ev_workspace_id e) (consumer_id con)) = (b, s1)" by fastforce
  have fits: "fits S s (consumer_id con) e" and b: b and s': "s' = s1" and st: "er_status r = ''processed''"
    using assms Inr by (auto simp: consume_simps d split: if_splits option.splits)
  have "\<not> op_seen S s (ev_workspace_id e) (consumer_id con) (ev_id e)" using fits by (simp add: fits_def)
  from commit_checkpoint [OF this, of eff "op_checkpoint S s (ev_workspace_id e) (consumer_id con)" w c] show ?thesis
    using fits b s' st Inr d by simp
qed

lemma consume_keep:
  assumes "consume S con s e p = (r, s')" and "\<not> advances r"
  shows "op_checkpoint S s' = op_checkpoint S s"
proof (cases p)
  case (Inl x)
  obtain n s1 where f: "op_record_failure S s (ev_workspace_id e) (consumer_id con) (ev_id e) = (n, s1)" by fastforce
  then have ck: "op_checkpoint S s1 = op_checkpoint S s" by (metis checkpoint_failure snd_conv)
  obtain b s2 where d: "op_dead_letter_and_advance S s1 (consumer_id con) e
      (op_checkpoint S s (ev_workspace_id e) (consumer_id con)) ''event_handler_failed'' = (b, s2)" by fastforce
  have "b" using dead_ok [of s1 "consumer_id con" e] d ck by (metis fst_conv)
  then show ?thesis
    using assms Inl ck by (auto simp: consume_simps f d checkpoint_stale split: if_splits option.splits)
next
  case (Inr eff)
  obtain b s1 where d: "op_commit S s (consumer_id con) e eff
      (op_checkpoint S s (ev_workspace_id e) (consumer_id con)) = (b, s1)" by fastforce
  have "op_seen S s (ev_workspace_id e) (consumer_id con) (ev_id e) \<or> b" using commit_ok [of s e "consumer_id con"] d by (metis fst_conv)
  then show ?thesis
    using assms Inr by (auto simp: consume_simps d checkpoint_stale split: if_splits option.splits)
qed

text \<open>The awaited event, once its handler succeeds, is processed.\<close>

lemma consume_fits:
  assumes "fits S s (consumer_id con) e"
  shows "er_status (fst (consume S con s e (Inr eff))) = ''processed''"
proof -
  obtain b s1 where d: "op_commit S s (consumer_id con) e eff
      (op_checkpoint S s (ev_workspace_id e) (consumer_id con)) = (b, s1)" by fastforce
  have "b" using commit_ok [of s e "consumer_id con"] d assms by (metis fst_conv fits_def)
  with assms show ?thesis by (auto simp: consume_simps d split: option.splits)
qed

lemma next_checkpoint_simps [simp]:
  "ck_generation_seq (next_checkpoint c e) = ev_generation_seq e"
  "ck_generation_id (next_checkpoint c e) = ev_generation_id e"
  by (simp_all add: next_checkpoint_def)

lemma deliveries_linked:
  assumes "deliveries S con s ds = (rs, s')"
  shows "linked (awaited S s w (consumer_id con)) (map_option ck_generation_id (op_checkpoint S s w (consumer_id con))) (advanced w rs) \<and>
    op_checkpoint S s' w (consumer_id con) =
      (if advanced w rs = [] then op_checkpoint S s w (consumer_id con)
       else Some (next_checkpoint (consumer_id con) (last (advanced w rs))))"
  using assms
proof (induction ds arbitrary: s rs)
  case Nil
  then show ?case by (simp add: advanced_def)
next
  case (Cons d ds)
  obtain e p where d: "d = (e, p)" by fastforce
  obtain r s1 where c: "consume S con s e p = (r, s1)" by fastforce
  obtain rs1 where del: "deliveries S con s1 ds = (rs1, s')" and rs: "rs = (e, r) # rs1"
    using Cons.prems d c by (auto split: prod.splits)
  note IH = Cons.IH [OF del]
  show ?case
  proof (cases "advances r \<and> ev_workspace_id e = w")
    case True
    note adv = consume_advance [OF c, of w "consumer_id con"]
    have "awaited S s1 w (consumer_id con) = int_str (ev_generation_seq e) + 1"
      using True adv by (simp add: awaited_def)
    then show ?thesis using True adv IH rs by (auto simp: advanced_def fits_def)
  next
    case False
    have "op_checkpoint S s1 w (consumer_id con) = op_checkpoint S s w (consumer_id con)"
      using False consume_advance [OF c, of w "consumer_id con"] consume_keep [OF c] by (cases "advances r") auto
    then show ?thesis using False IH rs by (auto simp: advanced_def awaited_def)
  qed
qed

lemma consume_processed_seen:
  assumes "fits S s (consumer_id con) e" "consume S con s e (Inr eff) = (r, s')"
  shows "op_seen S s' w c i \<longleftrightarrow> op_seen S s w c i \<or> (w = ev_workspace_id e \<and> c = consumer_id con \<and> i = ev_id e)"
proof -
  obtain b s1 where d: "op_commit S s (consumer_id con) e eff
      (op_checkpoint S s (ev_workspace_id e) (consumer_id con)) = (b, s1)" by fastforce
  have f: "\<not> op_seen S s (ev_workspace_id e) (consumer_id con) (ev_id e)" using assms(1) by (simp add: fits_def)
  have b using commit_ok [OF f] d by (metis fst_conv)
  then have "s' = s1" using assms by (auto simp: consume_simps d split: option.splits)
  then show ?thesis using commit_seen [OF f, of eff] d \<open>b\<close> by (metis fst_conv snd_conv)
qed

text \<open>Replaying a complete chain with a handler that succeeds gets to its end.\<close>

lemma replay_loop_complete:
  assumes "linked (awaited S s w (consumer_id con)) (map_option ck_generation_id (op_checkpoint S s w (consumer_id con))) es"
    and "\<forall>e\<in>set es. ev_workspace_id e = w \<and> isOk (h e) \<and> \<not> op_seen S s w (consumer_id con) (ev_id e)"
    and "distinct (map ev_id es)"
  shows "\<exists>rs s'. replay_loop S con h s es = (rs, s') \<and> map er_event_id rs = map ev_id es \<and>
    (\<forall>r\<in>set rs. er_status r = ''processed'') \<and>
    op_checkpoint S s' w (consumer_id con) =
      (if es = [] then op_checkpoint S s w (consumer_id con) else Some (next_checkpoint (consumer_id con) (last es)))"
  using assms
proof (induction es arbitrary: s)
  case Nil
  then show ?case by simp
next
  case (Cons e es)
  obtain eff where h: "h e = Inr eff" using Cons.prems(2) by (auto simp: isOk_iff)
  have f: "fits S s (consumer_id con) e" using Cons.prems by (auto simp: fits_def)
  obtain r s1 where c: "consume S con s e (Inr eff) = (r, s1)" by fastforce
  have st: "er_status r = ''processed''" using consume_fits [OF f, of eff] c by simp
  have id: "er_event_id r = ev_id e"
    using c by (auto simp: consume_simps split: if_splits option.splits prod.splits)
  note adv = consume_advance [OF c, of w "consumer_id con"]
  have ck: "op_checkpoint S s1 w (consumer_id con) = Some (next_checkpoint (consumer_id con) e)"
    using adv st Cons.prems(2) by (simp add: advances_def)
  have "\<exists>rs s'. replay_loop S con h s1 es = (rs, s') \<and> map er_event_id rs = map ev_id es \<and>
    (\<forall>r\<in>set rs. er_status r = ''processed'') \<and>
    op_checkpoint S s' w (consumer_id con) =
      (if es = [] then op_checkpoint S s1 w (consumer_id con) else Some (next_checkpoint (consumer_id con) (last es)))"
  proof (rule Cons.IH)
    show "linked (awaited S s1 w (consumer_id con)) (map_option ck_generation_id (op_checkpoint S s1 w (consumer_id con))) es"
      using Cons.prems(1) by (simp add: ck awaited_def)
    show "\<forall>e\<in>set es. ev_workspace_id e = w \<and> isOk (h e) \<and> \<not> op_seen S s1 w (consumer_id con) (ev_id e)"
      using Cons.prems(2,3) consume_processed_seen [OF f c] by auto (metis image_eqI)
    show "distinct (map ev_id es)" using Cons.prems(3) by simp
  qed
  then obtain rs s' where IH: "replay_loop S con h s1 es = (rs, s')" "map er_event_id rs = map ev_id es"
    "\<forall>r\<in>set rs. er_status r = ''processed''"
    "op_checkpoint S s' w (consumer_id con) =
      (if es = [] then op_checkpoint S s1 w (consumer_id con) else Some (next_checkpoint (consumer_id con) (last es)))"
    by blast
  have "replay_loop S con h s (e # es) = (r # rs, s')"
    using h c st IH(1) by simp
  with IH(2-4) id st ck show ?case by (intro exI [of _ "r # rs"] exI [of _ s']) auto
qed

end

interpretation mem_events: consumer_store mem_ops
  by unfold_locales
    (auto simp: mem_seen_def mem_checkpoint_def mem_record_failure_def mem_commit_def
      mem_acknowledge_stale_def mem_dead_letter_and_advance_def Let_def fun_eq_iff)

subsection \<open>Properties of the in-memory consumer\<close>

lemma mem_init_simps [simp]:
  "mem_checkpoint mem_init w c = None" "\<not> mem_seen mem_init w c i"
  by (simp_all add: mem_init_def mem_checkpoint_def mem_seen_def)

text \<open>
  C23: exactly once and in order. Deliver any events to a consumer that starts empty, in any order,
  with any repetitions and any handler failures: the events of a workspace on which it advanced
  carry the sequence numbers \<open>1, 2, ..., n\<close>, each the child of the one before, and the checkpoint
  is the last of them. No generation is skipped, repeated or processed out of order.
\<close>

theorem consumer_exactly_once_in_order:
  assumes "deliveries mem_ops con mem_init ds = (rs, s')"
  shows "linked 1 None (advanced w rs) \<and>
    map (\<lambda>e. int_str (ev_generation_seq e)) (advanced w rs) = [1..<Suc (length (advanced w rs))] \<and>
    mem_checkpoint s' w (consumer_id con) =
      (if advanced w rs = [] then None else Some (next_checkpoint (consumer_id con) (last (advanced w rs))))"
proof -
  have "linked 1 None (advanced w rs)" and ck: "mem_checkpoint s' w (consumer_id con) =
      (if advanced w rs = [] then None else Some (next_checkpoint (consumer_id con) (last (advanced w rs))))"
    using mem_events.deliveries_linked [OF assms, of w] by (simp_all add: awaited_def)
  with linked_snd [OF this(1)] show ?thesis by simp
qed

definition demo_event :: "string \<Rightarrow> string \<Rightarrow> string option \<Rightarrow> nat \<Rightarrow> operational_event" where
  "demo_event i g parent n = \<lparr>ev_schema_version = EVENT_SCHEMA_VERSION, ev_id = i, ev_workspace_id = ''w'',
     ev_generation_id = g, ev_parent_generation_id = parent, ev_generation_seq = str_nat n, ev_type = ''t'',
     ev_causation_id = ''c'', ev_correlation_id = ''r'', ev_sensitivity = ''public'', ev_payload_ref = None,
     ev_emitted_at = ''now''\<rparr>"

abbreviation demo_consumer :: consumer where
  "demo_consumer \<equiv> \<lparr>consumer_id = ''c'', max_attempts = 2\<rparr>"

abbreviation demo_effect :: consumer_effect where
  "demo_effect \<equiv> \<lparr>effect_digest = ''d'', result_ref = None\<rparr>"

definition demo_deliveries :: "(operational_event \<times> consumer_effect res) list" where
  "demo_deliveries = (let e1 = demo_event ''1'' ''g1'' None 1; e2 = demo_event ''2'' ''g2'' (Some ''g1'') 2
     in [(e2, Inr demo_effect), (e1, Inl HandlerException), (e1, Inr demo_effect), (e1, Inr demo_effect), (e2, Inr demo_effect)])"

theorem consumer_exactly_once_in_order_witness:
  "advanced ''w'' (fst (deliveries mem_ops demo_consumer mem_init demo_deliveries)) =
     [demo_event ''1'' ''g1'' None 1, demo_event ''2'' ''g2'' (Some ''g1'') 2] \<and>
   linked 1 None [demo_event ''1'' ''g1'' None 1, demo_event ''2'' ''g2'' (Some ''g1'') 2]"
proof -
  let ?r = "deliveries mem_ops demo_consumer mem_init demo_deliveries"
  have a: "advanced ''w'' (fst ?r) = [demo_event ''1'' ''g1'' None 1, demo_event ''2'' ''g2'' (Some ''g1'') 2]"
    by (simp add: demo_deliveries_def demo_event_def advanced_def advances_def consume_def consume_result_def
        mem_init_def mem_seen_def mem_checkpoint_def mem_record_failure_def mem_commit_def next_checkpoint_def Let_def)
  from consumer_exactly_once_in_order [of demo_consumer demo_deliveries "fst ?r" "snd ?r" "''w''"] a show ?thesis by simp
qed

lemma chain_sorted:
  assumes "linked n p es" shows "sort_key (\<lambda>e. (int_str (ev_generation_seq e), ev_id e)) es = es"
proof -
  have "sorted_wrt (<) (map (\<lambda>e. int_str (ev_generation_seq e)) es)"
    by (simp only: linked_snd [OF assms] sorted_wrt_upt)
  then have "sorted_wrt (\<lambda>e e'. int_str (ev_generation_seq e) < int_str (ev_generation_seq e')) es"
    by (simp add: sorted_wrt_map)
  then have "sorted (map (\<lambda>e. (int_str (ev_generation_seq e), ev_id e)) es)"
    unfolding sorted_map by (rule sorted_wrt_mono_rel [rotated]) auto
  then show ?thesis by (rule sort_key_id_if_sorted)
qed

lemma events_after_chain:
  assumes "linked 1 p es" and "mset (filter (\<lambda>e. ev_workspace_id e = w) log) = mset es"
  shows "events_after log w ''0'' = es"
proof -
  have seq: "map (\<lambda>e. int_str (ev_generation_seq e)) es = [1..<1 + length es]" by (rule linked_snd [OF assms(1)])
  have pos: "0 < int_str (ev_generation_seq e)" if "e \<in> set es" for e
  proof -
    have "int_str (ev_generation_seq e) \<in> set (map (\<lambda>e. int_str (ev_generation_seq e)) es)" using that by simp
    then show ?thesis unfolding seq by (simp only: set_upt atLeastLessThan_iff) linarith
  qed
  have s: "set (filter (\<lambda>e. ev_workspace_id e = w) log) = set es" using assms(2) by (rule mset_eq_setD)
  have "filter (\<lambda>e. ev_workspace_id e = w \<and> int_str (ev_generation_seq e) > int_str ''0'') log
      = filter (\<lambda>e. int_str (ev_generation_seq e) > int_str ''0'') (filter (\<lambda>e. ev_workspace_id e = w) log)"
    unfolding filter_filter by (rule filter_cong) auto
  also have "\<dots> = filter (\<lambda>e. ev_workspace_id e = w) log"
    unfolding filter_id_conv s using pos by (simp add: int_str_def [of "''0''"] digit_val_def)
  finally have f: "filter (\<lambda>e. ev_workspace_id e = w \<and> int_str (ev_generation_seq e) > int_str ''0'') log
      = filter (\<lambda>e. ev_workspace_id e = w) log" .
  have "distinct (map (\<lambda>e. int_str (ev_generation_seq e)) es)" unfolding seq by simp
  then have "inj_on (\<lambda>e. (int_str (ev_generation_seq e), ev_id e)) (set es)"
    by (auto simp: distinct_map inj_on_def)
  then have "sort_key (\<lambda>e. (int_str (ev_generation_seq e), ev_id e)) (filter (\<lambda>e. ev_workspace_id e = w) log)
     = sort_key (\<lambda>e. (int_str (ev_generation_seq e), ev_id e)) es"
    using assms(2) s by (intro sort_key_permI) auto
  then show ?thesis unfolding events_after_def Let_def f by (simp add: chain_sorted [OF assms(1)])
qed

text \<open>
  C38: replay catches up. If the log holds, in whatever order they were appended and among events
  of other workspaces, a chain of generations from the first on, and the handler accepts each, then
  a replay of a fresh consumer with a large enough limit processes exactly the chain, in order,
  and ends with its checkpoint on the last event.
\<close>

theorem replay_catches_up:
  assumes "linked 1 None es" and "mset (filter (\<lambda>e. ev_workspace_id e = w) log) = mset es"
    and "distinct (map ev_id es)" and "\<forall>e\<in>set es. isOk (h e)" and "length es \<le> limit" and "1 \<le> limit"
  shows "\<exists>rs s'. replay mem_ops con h log mem_init w limit = Inr (rs, s') \<and> map er_event_id rs = map ev_id es \<and>
    (\<forall>r\<in>set rs. er_status r = ''processed'') \<and>
    mem_checkpoint s' w (consumer_id con) = (if es = [] then None else Some (next_checkpoint (consumer_id con) (last es)))"
proof -
  have ws: "\<forall>e\<in>set es. ev_workspace_id e = w"
    using mset_eq_setD [OF assms(2)] by auto
  have "replay mem_ops con h log mem_init w limit = Inr (replay_loop mem_ops con h mem_init es)"
    using assms(5,6) by (simp add: replay_def events_after_chain [OF assms(1,2)])
  moreover have "\<exists>rs s'. replay_loop mem_ops con h mem_init es = (rs, s') \<and> map er_event_id rs = map ev_id es \<and>
    (\<forall>r\<in>set rs. er_status r = ''processed'') \<and>
    op_checkpoint mem_ops s' w (consumer_id con) =
      (if es = [] then op_checkpoint mem_ops mem_init w (consumer_id con) else Some (next_checkpoint (consumer_id con) (last es)))"
    by (rule mem_events.replay_loop_complete) (use assms ws in \<open>simp_all add: awaited_def\<close>)
  ultimately show ?thesis by (auto simp: mem_init_def mem_checkpoint_def)
qed

theorem replay_catches_up_witness:
  "\<exists>rs s'. replay mem_ops demo_consumer (\<lambda>_. Inr demo_effect)
     [demo_event ''2'' ''g2'' (Some ''g1'') 2, demo_event ''1'' ''g1'' None 1] mem_init ''w'' 1000 = Inr (rs, s') \<and>
     map er_event_id rs = [''1'', ''2'']"
  using replay_catches_up [of "[demo_event ''1'' ''g1'' None 1, demo_event ''2'' ''g2'' (Some ''g1'') 2]" "''w''"
      "[demo_event ''2'' ''g2'' (Some ''g1'') 2, demo_event ''1'' ''g1'' None 1]" "\<lambda>_. Inr demo_effect" 1000 demo_consumer]
  by (auto simp: demo_event_def)

definition failures :: "mem_store \<Rightarrow> string \<Rightarrow> operational_event \<Rightarrow> nat" where
  "failures s c e = (case map_of (m_failures s) (ev_workspace_id e, c, ev_id e) of None \<Rightarrow> 0 | Some n \<Rightarrow> n)"

lemma consume_failing:
  assumes "fits mem_ops s (consumer_id con) e"
  shows "if failures s (consumer_id con) e + 1 < max_attempts con
    then \<exists>r s'. consume mem_ops con s e (Inl x) = (r, s') \<and> er_status r = ''retry_later'' \<and>
      fits mem_ops s' (consumer_id con) e \<and> failures s' (consumer_id con) e = failures s (consumer_id con) e + 1 \<and>
      m_checkpoints s' = m_checkpoints s
    else \<exists>r s'. consume mem_ops con s e (Inl x) = (r, s') \<and> er_status r = ''dead_lettered'' \<and>
      mem_checkpoint s' (ev_workspace_id e) (consumer_id con) = Some (next_checkpoint (consumer_id con) e) \<and>
      mem_dead_letter s' (ev_workspace_id e) (consumer_id con) (ev_id e) = Some ''event_handler_failed''"
  using assms
  by (auto simp: consume_def consume_result_def fits_def awaited_def failures_def
      mem_seen_def mem_checkpoint_def mem_record_failure_def mem_dead_letter_and_advance_def mem_dead_letter_def Let_def
      split: option.splits)

text \<open>
  C39: a poison event does not block the stream. If the awaited event's handler keeps failing, the
  first \<open>max_attempts - 1\<close> deliveries ask for a retry and leave the checkpoint alone, and the next
  one dead-letters the event and advances the checkpoint past it.
\<close>

theorem poison_event_dead_lettered:
  assumes "fits mem_ops s (consumer_id con) e" and "failures s (consumer_id con) e = 0" and "1 \<le> max_attempts con"
  shows "\<exists>rs r s'. deliveries mem_ops con s (replicate (max_attempts con) (e, Inl x)) = (rs @ [(e, r)], s') \<and>
    length rs = max_attempts con - 1 \<and> (\<forall>(_, q)\<in>set rs. er_status q = ''retry_later'') \<and> er_status r = ''dead_lettered'' \<and>
    mem_checkpoint s' (ev_workspace_id e) (consumer_id con) = Some (next_checkpoint (consumer_id con) e) \<and>
    mem_dead_letter s' (ev_workspace_id e) (consumer_id con) (ev_id e) = Some ''event_handler_failed''"
proof -
  let ?c = "consumer_id con"
  have "\<exists>rs r s'. deliveries mem_ops con s (replicate k (e, Inl x)) = (rs @ [(e, r)], s') \<and>
      length rs = k - 1 \<and> (\<forall>(_, q)\<in>set rs. er_status q = ''retry_later'') \<and> er_status r = ''dead_lettered'' \<and>
      mem_checkpoint s' (ev_workspace_id e) ?c = Some (next_checkpoint ?c e) \<and>
      mem_dead_letter s' (ev_workspace_id e) ?c (ev_id e) = Some ''event_handler_failed''"
    if "fits mem_ops s ?c e" "failures s ?c e + k = max_attempts con" "1 \<le> k" for k s
    using that
  proof (induction k arbitrary: s)
    case (Suc k)
    show ?case
    proof (cases "k = 0")
      case True
      then obtain r s' where "consume mem_ops con s e (Inl x) = (r, s')" "er_status r = ''dead_lettered''"
        "mem_checkpoint s' (ev_workspace_id e) ?c = Some (next_checkpoint ?c e)"
        "mem_dead_letter s' (ev_workspace_id e) ?c (ev_id e) = Some ''event_handler_failed''"
        using consume_failing [OF Suc.prems(1), of x] Suc.prems(2) by auto
      with True show ?thesis by (intro exI [of _ "[]"] exI [of _ r] exI [of _ s']) simp
    next
      case False
      then obtain q s1 where c: "consume mem_ops con s e (Inl x) = (q, s1)" "er_status q = ''retry_later''"
        "fits mem_ops s1 ?c e" "failures s1 ?c e = failures s ?c e + 1"
        using consume_failing [OF Suc.prems(1), of x] Suc.prems(2) by auto
      obtain rs r s' where "deliveries mem_ops con s1 (replicate k (e, Inl x)) = (rs @ [(e, r)], s')"
        "length rs = k - 1" "\<forall>(_, q)\<in>set rs. er_status q = ''retry_later''" "er_status r = ''dead_lettered''"
        "mem_checkpoint s' (ev_workspace_id e) ?c = Some (next_checkpoint ?c e)"
        "mem_dead_letter s' (ev_workspace_id e) ?c (ev_id e) = Some ''event_handler_failed''"
        using Suc.IH [OF c(3)] c(4) Suc.prems(2) False by fastforce
      with c(1,2) False show ?thesis
        by (intro exI [of _ "(e, q) # rs"] exI [of _ r] exI [of _ s']) auto
    qed
  qed simp
  from this [OF assms(1)] assms(2,3) show ?thesis by simp
qed

theorem poison_event_dead_lettered_witness:
  "\<exists>rs r s'. deliveries mem_ops demo_consumer mem_init (replicate 2 (demo_event ''1'' ''g1'' None 1, Inl HandlerException))
     = (rs @ [(demo_event ''1'' ''g1'' None 1, r)], s') \<and> er_status r = ''dead_lettered''"
proof -
  let ?e = "demo_event ''1'' ''g1'' None 1"
  have "fits mem_ops mem_init (consumer_id demo_consumer) ?e" "failures mem_init (consumer_id demo_consumer) ?e = 0"
    by (simp_all add: fits_def awaited_def demo_event_def failures_def mem_init_def
        mem_checkpoint_def mem_seen_def)
  from poison_event_dead_lettered [OF this, of HandlerException] show ?thesis by auto
qed

end
