(* ===== verification/Projections.thy ===== *)
theory Projections
  imports Contracts "HOL-Library.Product_Lexorder"
begin

text \<open>
  \<open>memory_core/projections.py\<close>: projection artifacts, staging manifests, the deterministic
  builder, the in-memory source and pointer store, and the coordinator. The \<open>ProjectionPointerStore\<close>
  protocol is a record of operations with the locale \<open>pointer_store\<close> as its contract.

  The results: the two projections of the minimum profile always point into the same generation and
  the same staging manifest, under any interleaving of coordinators; a rebuild either moves both or
  leaves every pointer as it was; artifacts do not depend on the order of the records.
\<close>

definition MINIMUM_PROJECTIONS :: "string list" where
  "MINIMUM_PROJECTIONS = [''chronology'', ''identity'']"

subsection \<open>Records, artifacts and manifests\<close>

record projection_record =
  pr_object_id :: string
  pr_workspace_id :: string
  pr_revision_id :: string
  pr_kind :: string
  pr_lifecycle_status :: string
  pr_captured_at :: string
  pr_occurred_at :: "string option"
  pr_data :: pyval

definition record_post_init :: "lib \<Rightarrow> projection_record \<Rightarrow> projection_record res" where
  "record_post_init L r =
     (if pr_object_id r = [] \<or> pr_workspace_id r = [] \<or> pr_revision_id r = [] \<or> pr_kind r = [] \<or>
         pr_lifecycle_status r = [] \<or> pr_captured_at r = [] then Inl ProjectionContractError
      else if pr_occurred_at r = Some [] then Inl ProjectionContractError
      else bindR (contract_canonical_bytes L (pdict [(''data'', pr_data r)])) (\<lambda>_. Inr r))"

record projection_spec =
  sp_name :: string
  sp_schema_version :: string
  sp_required :: bool

definition spec_post_init :: "projection_spec \<Rightarrow> projection_spec res" where
  "spec_post_init sp = (if sp_name sp = [] \<or> sp_schema_version sp = [] then Inl ProjectionContractError else Inr sp)"

record projection_artifact =
  pa_projection_name :: string
  pa_workspace_id :: string
  pa_source_generation_id :: string
  pa_schema_version :: string
  pa_required :: bool
  pa_artifact_digest :: string
  pa_records_root :: string
  pa_record_count :: string

definition artifact_to_mapping :: "projection_artifact \<Rightarrow> pyval" where
  "artifact_to_mapping a = pdict
     [(''projection_name'', PStr (pa_projection_name a)),
      (''workspace_id'', PStr (pa_workspace_id a)),
      (''source_generation_id'', PStr (pa_source_generation_id a)),
      (''schema_version'', PStr (pa_schema_version a)),
      (''required'', PBool (pa_required a)),
      (''artifact_digest'', PStr (pa_artifact_digest a)),
      (''records_root'', PStr (pa_records_root a)),
      (''record_count'', PStr (pa_record_count a))]"

record staging_manifest =
  sm_schema_version :: string
  sm_workspace_id :: string
  sm_source_generation_id :: string
  sm_artifacts :: "projection_artifact list"
  sm_manifest_digest :: string

definition manifest_body :: "string \<Rightarrow> string \<Rightarrow> projection_artifact list \<Rightarrow> pyval" where
  "manifest_body ws gid ordered = pdict
     [(''schema_version'', PStr ''phase3-projection-staging-v1''),
      (''workspace_id'', PStr ws),
      (''source_generation_id'', PStr gid),
      (''artifacts'', PList (map artifact_to_mapping ordered))]"

definition manifest_create :: "lib \<Rightarrow> string \<Rightarrow> string \<Rightarrow> projection_artifact list \<Rightarrow> staging_manifest res" where
  "manifest_create L ws gid artifacts =
     (let ordered = sort_key pa_projection_name artifacts in
      if ws = [] \<or> gid = [] \<or> ordered = [] then Inl ProjectionContractError
      else if \<not> distinct (map pa_projection_name ordered) then Inl ProjectionContractError
      else if list_ex (\<lambda>a. pa_workspace_id a \<noteq> ws) ordered then Inl ProjectionContractError
      else if list_ex (\<lambda>a. pa_source_generation_id a \<noteq> gid) ordered then Inl ProjectionContractError
      else bindR (contract_hash L (manifest_body ws gid ordered)) (\<lambda>digest.
        Inr \<lparr>sm_schema_version = ''phase3-projection-staging-v1'', sm_workspace_id = ws,
             sm_source_generation_id = gid, sm_artifacts = ordered, sm_manifest_digest = digest\<rparr>))"

definition manifest_to_mapping :: "staging_manifest \<Rightarrow> pyval" where
  "manifest_to_mapping m = pdict
     [(''schema_version'', PStr (sm_schema_version m)),
      (''workspace_id'', PStr (sm_workspace_id m)),
      (''source_generation_id'', PStr (sm_source_generation_id m)),
      (''artifacts'', PList (map artifact_to_mapping (sm_artifacts m))),
      (''manifest_digest'', PStr (sm_manifest_digest m))]"

record projection_pointer =
  pp_projection_name :: string
  pp_workspace_id :: string
  pp_generation_id :: string
  pp_artifact_digest :: string
  pp_staging_manifest_digest :: string

record run_result =
  run_status :: string
  run_source_generation_id :: string
  run_staging_manifest_digest :: "string option"
  run_advanced :: "string list"
  run_failed_required :: "string list"
  run_failed_optional :: "string list"
  run_error_code :: "string option"

subsection \<open>The deterministic builder\<close>

definition proj_identity :: "projection_record \<Rightarrow> pyval" where
  "proj_identity r = pdict
     [(''object_id'', PStr (pr_object_id r)), (''workspace_id'', PStr (pr_workspace_id r)),
      (''revision_id'', PStr (pr_revision_id r)), (''kind'', PStr (pr_kind r)),
      (''lifecycle_status'', PStr (pr_lifecycle_status r))]"

text \<open>\<open>record.occurred_at or record.captured_at\<close>.\<close>

definition timeline_at :: "projection_record \<Rightarrow> string" where
  "timeline_at r = (case pr_occurred_at r of Some t \<Rightarrow> if t = [] then pr_captured_at r else t | None \<Rightarrow> pr_captured_at r)"

definition proj_chronology :: "projection_record \<Rightarrow> pyval" where
  "proj_chronology r = pdict
     [(''object_id'', PStr (pr_object_id r)), (''workspace_id'', PStr (pr_workspace_id r)),
      (''revision_id'', PStr (pr_revision_id r)), (''timeline_at'', PStr (timeline_at r)),
      (''captured_at'', PStr (pr_captured_at r)), (''lifecycle_status'', PStr (pr_lifecycle_status r))]"

definition proj_full :: "projection_record \<Rightarrow> pyval" where
  "proj_full r = pdict
     [(''object_id'', PStr (pr_object_id r)), (''workspace_id'', PStr (pr_workspace_id r)),
      (''revision_id'', PStr (pr_revision_id r)), (''kind'', PStr (pr_kind r)),
      (''lifecycle_status'', PStr (pr_lifecycle_status r)), (''captured_at'', PStr (pr_captured_at r)),
      (''occurred_at'', popt (pr_occurred_at r)), (''data'', pr_data r)]"

text \<open>
  The projected list. Sorting the projections by their fields and then listing them is sorting the
  records by the same fields: both sorts are stable.
\<close>

definition projected :: "string \<Rightarrow> projection_record list \<Rightarrow> pyval list" where
  "projected name records =
     (if name = ''identity'' then map proj_identity (sort_key (\<lambda>r. (pr_object_id r, pr_revision_id r)) records)
      else if name = ''chronology''
      then map proj_chronology (sort_key (\<lambda>r. (timeline_at r, pr_object_id r, pr_revision_id r)) records)
      else map proj_full (sort_key (\<lambda>r. (pr_object_id r, pr_revision_id r)) records))"

definition build :: "lib \<Rightarrow> projection_spec \<Rightarrow> string \<Rightarrow> string \<Rightarrow> projection_record list \<Rightarrow> projection_artifact res" where
  "build L spec ws gid records =
     (if ws = [] \<or> gid = [] then Inl ProjectionContractError
      else if list_ex (\<lambda>r. pr_workspace_id r \<noteq> ws) records then Inl ProjectionContractError
      else
        let ps = projected (sp_name spec) records; n = str_nat (length ps) in
        bindR (contract_hash L (pdict [(''workspace_id'', PStr ws), (''records'', PList ps)])) (\<lambda>records_root.
        bindR (contract_hash L (pdict
          [(''projection_name'', PStr (sp_name spec)), (''workspace_id'', PStr ws), (''source_generation_id'', PStr gid),
           (''schema_version'', PStr (sp_schema_version spec)), (''required'', PBool (sp_required spec)),
           (''records_root'', PStr records_root), (''record_count'', PStr n)])) (\<lambda>artifact_digest.
        Inr \<lparr>pa_projection_name = sp_name spec, pa_workspace_id = ws, pa_source_generation_id = gid,
             pa_schema_version = sp_schema_version spec, pa_required = sp_required spec,
             pa_artifact_digest = artifact_digest, pa_records_root = records_root, pa_record_count = n\<rparr>)))"

subsection \<open>The in-memory source\<close>

type_synonym mem_source = "(string \<times> string, projection_record list) dict"

definition source_put :: "mem_source \<Rightarrow> string \<Rightarrow> string \<Rightarrow> projection_record list \<Rightarrow> mem_source res" where
  "source_put src ws gid records =
     (if list_ex (\<lambda>r. pr_workspace_id r \<noteq> ws) records then Inl ProjectionContractError
      else Inr (dict_set (ws, gid) records src))"

definition records_at :: "mem_source \<Rightarrow> string \<Rightarrow> string \<Rightarrow> projection_record list res" where
  "records_at src ws gid = (case map_of src (ws, gid) of None \<Rightarrow> Inl KeyError | Some rs \<Rightarrow> Inr rs)"

subsection \<open>The in-memory pointer store\<close>

record pointer_mem =
  pm_pointers :: "(string \<times> string, projection_pointer) dict"
  pm_lkg :: "(string \<times> string, projection_pointer) dict"
  pm_staged :: "(string, staging_manifest) dict"

definition pm_init :: pointer_mem where
  "pm_init = \<lparr>pm_pointers = [], pm_lkg = [], pm_staged = []\<rparr>"

definition pm_current :: "pointer_mem \<Rightarrow> string \<Rightarrow> string \<Rightarrow> projection_pointer option" where
  "pm_current s ws name = map_of (pm_pointers s) (ws, name)"

definition pm_last_known_good :: "pointer_mem \<Rightarrow> string \<Rightarrow> string \<Rightarrow> projection_pointer option" where
  "pm_last_known_good s ws name = map_of (pm_lkg s) (ws, name)"

definition pm_stage :: "pointer_mem \<Rightarrow> staging_manifest \<Rightarrow> pointer_mem res" where
  "pm_stage s m =
     (case map_of (pm_staged s) (sm_manifest_digest m) of
        Some m' \<Rightarrow> if m' \<noteq> m then Inl ProjectionContractError
                   else Inr (s\<lparr>pm_staged := dict_set (sm_manifest_digest m) m (pm_staged s)\<rparr>)
      | None \<Rightarrow> Inr (s\<lparr>pm_staged := dict_set (sm_manifest_digest m) m (pm_staged s)\<rparr>))"

text \<open>\<open>{item.projection_name: item for item in manifest.artifacts}\<close>: the last one of a name wins.\<close>

definition artifacts_by_name :: "projection_artifact list \<Rightarrow> (string, projection_artifact) dict" where
  "artifacts_by_name as = fold (\<lambda>a. dict_set (pa_projection_name a) a) as []"

definition assert_staged :: "pointer_mem \<Rightarrow> string \<Rightarrow> string \<Rightarrow> projection_artifact list \<Rightarrow> staging_manifest res" where
  "assert_staged s ws digest artifacts =
     (case map_of (pm_staged s) digest of
        None \<Rightarrow> Inl ProjectionContractError
      | Some m \<Rightarrow>
          if sm_workspace_id m \<noteq> ws then Inl ProjectionContractError
          else if list_ex (\<lambda>a. pa_workspace_id a \<noteq> ws \<or>
                    map_of (artifacts_by_name (sm_artifacts m)) (pa_projection_name a) \<noteq> Some a) artifacts
          then Inl ProjectionContractError
          else Inr m)"

definition pointer_of :: "string \<Rightarrow> projection_artifact \<Rightarrow> projection_pointer" where
  "pointer_of digest a =
     \<lparr>pp_projection_name = pa_projection_name a, pp_workspace_id = pa_workspace_id a,
      pp_generation_id = pa_source_generation_id a, pp_artifact_digest = pa_artifact_digest a,
      pp_staging_manifest_digest = digest\<rparr>"

definition put_pointers ::
    "string \<Rightarrow> string \<Rightarrow> projection_artifact list \<Rightarrow> (string \<times> string, projection_pointer) dict \<Rightarrow> (string \<times> string, projection_pointer) dict" where
  "put_pointers ws digest as d = fold (\<lambda>a. dict_set (ws, pa_projection_name a) (pointer_of digest a)) as d"

definition pm_publish_required ::
    "pointer_mem \<Rightarrow> string \<Rightarrow> string \<Rightarrow> (string, projection_pointer option) dict \<Rightarrow> projection_artifact list \<Rightarrow> (bool \<times> pointer_mem) res" where
  "pm_publish_required s ws digest expected artifacts =
     bindR (assert_staged s ws digest artifacts) (\<lambda>_.
     if set (map pa_projection_name artifacts) \<noteq> set MINIMUM_PROJECTIONS \<or> list_ex (\<lambda>a. \<not> pa_required a) artifacts
     then Inl ProjectionContractError
     else if set (dict_keys expected) \<noteq> set MINIMUM_PROJECTIONS then Inl ProjectionContractError
     else if list_ex (\<lambda>n. Some (map_of (pm_pointers s) (ws, n)) \<noteq> map_of expected n) MINIMUM_PROJECTIONS
     then Inr (False, s)
     else Inr (True, s\<lparr>pm_pointers := put_pointers ws digest artifacts (pm_pointers s),
                        pm_lkg := put_pointers ws digest artifacts (pm_lkg s)\<rparr>))"

definition pm_publish_optional ::
    "pointer_mem \<Rightarrow> string \<Rightarrow> string \<Rightarrow> projection_pointer option \<Rightarrow> projection_artifact \<Rightarrow> (bool \<times> pointer_mem) res" where
  "pm_publish_optional s ws digest expected a =
     bindR (assert_staged s ws digest [a]) (\<lambda>_.
     if pa_required a \<or> pa_projection_name a \<in> set MINIMUM_PROJECTIONS then Inl ProjectionContractError
     else if map_of (pm_pointers s) (ws, pa_projection_name a) \<noteq> expected then Inr (False, s)
     else Inr (True, s\<lparr>pm_pointers := put_pointers ws digest [a] (pm_pointers s),
                        pm_lkg := put_pointers ws digest [a] (pm_lkg s)\<rparr>))"

subsection \<open>The coordinator\<close>

record 's pointer_ops =
  op_current :: "'s \<Rightarrow> string \<Rightarrow> string \<Rightarrow> projection_pointer option"
  op_stage :: "'s \<Rightarrow> staging_manifest \<Rightarrow> 's res"
  op_publish_required :: "'s \<Rightarrow> string \<Rightarrow> string \<Rightarrow> (string, projection_pointer option) dict \<Rightarrow> projection_artifact list \<Rightarrow> (bool \<times> 's) res"
  op_publish_optional :: "'s \<Rightarrow> string \<Rightarrow> string \<Rightarrow> projection_pointer option \<Rightarrow> projection_artifact \<Rightarrow> (bool \<times> 's) res"

definition pm_ops :: "pointer_mem pointer_ops" where
  "pm_ops = \<lparr>op_current = pm_current, op_stage = pm_stage, op_publish_required = pm_publish_required,
     op_publish_optional = pm_publish_optional\<rparr>"

type_synonym builder = "projection_spec \<Rightarrow> string \<Rightarrow> string \<Rightarrow> projection_record list \<Rightarrow> projection_artifact res"

definition new_coordinator :: "projection_spec list \<Rightarrow> projection_spec list res" where
  "new_coordinator specs =
     (let ordered = sort_key sp_name specs in
      if ordered = [] \<or> \<not> distinct (map sp_name ordered) then Inl ProjectionContractError
      else if set (map sp_name (filter sp_required ordered)) \<noteq> set MINIMUM_PROJECTIONS then Inl ProjectionContractError
      else Inr ordered)"

text \<open>The build loop: artifacts by name, failed required, failed optional.\<close>

fun build_all ::
    "builder \<Rightarrow> string \<Rightarrow> string \<Rightarrow> projection_record list \<Rightarrow> projection_spec list \<Rightarrow>
     (string, projection_artifact) dict \<times> string list \<times> string list" where
  "build_all b ws gid records [] = ([], [], [])"
| "build_all b ws gid records (sp # sps) =
     (let (as, fr, fo) = build_all b ws gid records sps in
      case b sp ws gid records of
        Inr a \<Rightarrow> ((sp_name sp, a) # as, fr, fo)
      | Inl _ \<Rightarrow> if sp_required sp then (as, sp_name sp # fr, fo) else (as, fr, sp_name sp # fo))"

text \<open>The loop over the optional projections: store, advanced, failed.\<close>

fun publish_optionals ::
    "'s pointer_ops \<Rightarrow> string \<Rightarrow> string \<Rightarrow> (string, projection_artifact) dict \<Rightarrow> 's \<Rightarrow> projection_spec list \<Rightarrow>
     's \<times> string list \<times> string list" where
  "publish_optionals P ws digest as s [] = (s, [], [])"
| "publish_optionals P ws digest as s (sp # sps) =
     (case (sp_required sp, map_of as (sp_name sp)) of
        (False, Some a) \<Rightarrow>
          (case op_publish_optional P s ws digest (op_current P s ws (sp_name sp)) a of
             Inr (True, s1) \<Rightarrow>
               let (s2, ad, fo) = publish_optionals P ws digest as s1 sps in (s2, sp_name sp # ad, fo)
           | Inr (False, s1) \<Rightarrow>
               let (s2, ad, fo) = publish_optionals P ws digest as s1 sps in (s2, ad, sp_name sp # fo)
           | Inl _ \<Rightarrow>
               let (s2, ad, fo) = publish_optionals P ws digest as s sps in (s2, ad, sp_name sp # fo))
      | _ \<Rightarrow> publish_optionals P ws digest as s sps)"

definition run :: "string \<Rightarrow> string \<Rightarrow> string option \<Rightarrow> string list \<Rightarrow> string list \<Rightarrow> string list \<Rightarrow> string option \<Rightarrow> run_result" where
  "run st gid d ad fr fo code =
     \<lparr>run_status = st, run_source_generation_id = gid, run_staging_manifest_digest = d, run_advanced = ad,
      run_failed_required = fr, run_failed_optional = fo, run_error_code = code\<rparr>"

definition lookup_artifact :: "(string, projection_artifact) dict \<Rightarrow> string \<Rightarrow> projection_artifact res" where
  "lookup_artifact as n = (case map_of as n of None \<Rightarrow> Inl KeyError | Some a \<Rightarrow> Inr a)"

text \<open>The second half of \<open>rebuild\<close>: staging, the required publication and the optional ones.\<close>

definition publish_artifacts ::
    "'s pointer_ops \<Rightarrow> projection_spec list \<Rightarrow> 's \<Rightarrow> string \<Rightarrow> string \<Rightarrow> (string, projection_artifact) dict \<Rightarrow>
     string list \<Rightarrow> staging_manifest \<Rightarrow> run_result res \<times> 's" where
  "publish_artifacts P specs s ws gid as fo m =
     (let d = sm_manifest_digest m in
      case op_stage P s m of
        Inl _ \<Rightarrow> (Inr (run ''retry_later'' gid None [] [] (sort fo) (Some ''projection_staging_failed'')), s)
      | Inr s1 \<Rightarrow>
          (case mapR (lookup_artifact as) MINIMUM_PROJECTIONS of
             Inl e \<Rightarrow> (Inl e, s1)
           | Inr required \<Rightarrow>
               let expected = map (\<lambda>n. (n, op_current P s1 ws n)) MINIMUM_PROJECTIONS;
                   (required_published, s2) =
                     (case op_publish_required P s1 ws d expected required of Inl _ \<Rightarrow> (False, s1) | Inr x \<Rightarrow> x)
               in if \<not> required_published
                  then (Inr (run ''retry_later'' gid (Some d) [] MINIMUM_PROJECTIONS (sort fo)
                          (Some ''required_projection_pointer_conflict'')), s2)
                  else
                    let (s3, ad, fo') = publish_optionals P ws d as s2 specs
                    in (Inr (run ''ok'' gid (Some d) (sort (MINIMUM_PROJECTIONS @ ad)) [] (sorted_set (fo @ fo')) None), s3)))"

definition rebuild ::
    "lib \<Rightarrow> 's pointer_ops \<Rightarrow> builder \<Rightarrow> (string \<Rightarrow> string \<Rightarrow> projection_record list res) \<Rightarrow> projection_spec list \<Rightarrow> 's \<Rightarrow>
     string \<Rightarrow> string \<Rightarrow> run_result res \<times> 's" where
  "rebuild L P b source specs s ws gid =
     (case source ws gid of
        Inl _ \<Rightarrow> (Inr (run ''retry_later'' gid None [] MINIMUM_PROJECTIONS [] (Some ''projection_source_unavailable'')), s)
      | Inr records \<Rightarrow>
          if list_ex (\<lambda>r. pr_workspace_id r \<noteq> ws) records
          then (Inr (run ''rejected'' gid None [] MINIMUM_PROJECTIONS [] (Some ''projection_workspace_mismatch'')), s)
          else
            let (as, fr, fo) = build_all b ws gid records specs in
            if fr \<noteq> [] then (Inr (run ''retry_later'' gid None [] (sort fr) (sort fo) (Some ''required_projection_failed'')), s)
            else
              case manifest_create L ws gid (map snd as) of
                Inl e \<Rightarrow> (Inl e, s)
              | Inr m \<Rightarrow> publish_artifacts P specs s ws gid as fo m)"

subsection \<open>The contract of a pointer store\<close>

text \<open>The pointers after publishing artifacts: those of the artifacts, the others as before.\<close>

definition published :: "string \<Rightarrow> string \<Rightarrow> projection_artifact list \<Rightarrow> (string \<Rightarrow> string \<Rightarrow> projection_pointer option) \<Rightarrow>
    string \<Rightarrow> string \<Rightarrow> projection_pointer option" where
  "published ws d as cur w n =
     (if w = ws then (case map_of (map (\<lambda>a. (pa_projection_name a, pointer_of d a)) (rev as)) n of
        None \<Rightarrow> cur w n | Some p \<Rightarrow> Some p) else cur w n)"

lemma manifest_create_Inr:
  assumes "manifest_create L ws gid as = Inr m"
  shows "sm_workspace_id m = ws" "sm_source_generation_id m = gid" "sm_artifacts m = sort_key pa_projection_name as"
    "distinct (map pa_projection_name as)" "\<forall>a\<in>set as. pa_workspace_id a = ws \<and> pa_source_generation_id a = gid"
proof -
  let ?o = "sort_key pa_projection_name as"
  have g: "distinct (map pa_projection_name ?o)" "\<not> list_ex (\<lambda>a. pa_workspace_id a \<noteq> ws) ?o"
      "\<not> list_ex (\<lambda>a. pa_source_generation_id a \<noteq> gid) ?o"
    using assms unfolding manifest_create_def Let_def by (metis sum.distinct(1))+
  with assms show "sm_workspace_id m = ws" "sm_source_generation_id m = gid" "sm_artifacts m = sort_key pa_projection_name as"
    by (auto simp: manifest_create_def Let_def bindR_Inr_iff split: if_splits)
  show "distinct (map pa_projection_name as)" "\<forall>a\<in>set as. pa_workspace_id a = ws \<and> pa_source_generation_id a = gid"
    using g by (simp_all add: list_ex_iff)
qed

lemma lookup_artifact_Inr: "lookup_artifact as n = Inr a \<Longrightarrow> a \<in> set (map snd as)"
  by (force simp: lookup_artifact_def split: option.splits dest: map_of_SomeD)

lemma mapR_lookup_artifact: "mapR (lookup_artifact as) ns = Inr req \<Longrightarrow> set req \<subseteq> set (map snd as)"
  by (induction ns arbitrary: req) (auto simp: bindR_Inr_iff dest: lookup_artifact_Inr simp del: set_map)

text \<open>A rebuild moves both pointers of the minimum profile onto its generation, or moves nothing at all.\<close>

definition all_or_nothing :: "'s pointer_ops \<Rightarrow> 's \<Rightarrow> string \<Rightarrow> string \<Rightarrow> run_result res \<Rightarrow> 's \<Rightarrow> bool" where
  "all_or_nothing P s ws gid out s' \<longleftrightarrow>
    (op_current P s' = op_current P s \<and> (\<forall>r. out = Inr r \<longrightarrow> run_status r \<noteq> ''ok'' \<and> run_advanced r = [])) \<or>
    (\<exists>r d. out = Inr r \<and> run_status r = ''ok'' \<and> run_staging_manifest_digest r = Some d \<and>
       (\<forall>n\<in>set MINIMUM_PROJECTIONS. \<exists>p. op_current P s' ws n = Some p \<and> pp_generation_id p = gid \<and>
          pp_workspace_id p = ws \<and> pp_staging_manifest_digest p = d) \<and>
       (\<forall>w n. w \<noteq> ws \<longrightarrow> op_current P s' w n = op_current P s w n))"

locale pointer_store =
  fixes P :: "'s pointer_ops"
  assumes stage_keeps: "op_stage P s m = Inr s' \<Longrightarrow> op_current P s' = op_current P s"
    and required_refused: "op_publish_required P s ws d ex as = Inr (False, s') \<Longrightarrow> op_current P s' = op_current P s"
    and required_published: "op_publish_required P s ws d ex as = Inr (True, s') \<Longrightarrow>
          set (map pa_projection_name as) = set MINIMUM_PROJECTIONS \<and> op_current P s' = published ws d as (op_current P s)"
    and optional_refused: "op_publish_optional P s ws d x a = Inr (False, s') \<Longrightarrow> op_current P s' = op_current P s"
    and optional_published: "op_publish_optional P s ws d x a = Inr (True, s') \<Longrightarrow>
          pa_projection_name a \<notin> set MINIMUM_PROJECTIONS \<and> op_current P s' = published ws d [a] (op_current P s)"
begin

lemma publish_optionals_frame:
  "publish_optionals P ws d as s sps = (s', ad, fo) \<Longrightarrow>
     (w \<noteq> ws \<or> n \<in> set MINIMUM_PROJECTIONS \<longrightarrow> op_current P s' w n = op_current P s w n)"
proof (induction sps arbitrary: s s' ad fo)
  case (Cons sp sps)
  show ?case
  proof (cases "sp_required sp \<or> map_of as (sp_name sp) = None")
    case True
    then have "publish_optionals P ws d as s sps = (s', ad, fo)" using Cons.prems by (auto split: bool.splits)
    then show ?thesis by (rule Cons.IH)
  next
    case False
    then obtain a where a: "map_of as (sp_name sp) = Some a" "\<not> sp_required sp" by auto
    let ?o = "op_publish_optional P s ws d (op_current P s ws (sp_name sp)) a"
    consider (err) e where "?o = Inl e" | (no) s1 where "?o = Inr (False, s1)" | (yes) s1 where "?o = Inr (True, s1)"
      by (cases ?o) auto
    then show ?thesis
    proof cases
      case err
      obtain ad' fo' where "publish_optionals P ws d as s sps = (s', ad', fo')"
        using Cons.prems a err by (auto split: prod.splits)
      then show ?thesis by (rule Cons.IH)
    next
      case no
      obtain ad' fo' where "publish_optionals P ws d as s1 sps = (s', ad', fo')"
        using Cons.prems a no by (auto split: prod.splits)
      from Cons.IH [OF this] optional_refused [OF no] show ?thesis by simp
    next
      case yes
      obtain ad' fo' where "publish_optionals P ws d as s1 sps = (s', ad', fo')"
        using Cons.prems a yes by (auto split: prod.splits)
      from Cons.IH [OF this] optional_published [OF yes] show ?thesis by (auto simp: published_def)
    qed
  qed
qed simp

text \<open>Published minimum pointers all belong to the artifacts that were published.\<close>

lemma published_minimum:
  assumes "set (map pa_projection_name as) = set MINIMUM_PROJECTIONS" and "n \<in> set MINIMUM_PROJECTIONS"
  shows "\<exists>a\<in>set as. published ws d as cur ws n = Some (pointer_of d a)"
proof -
  let ?m = "map (\<lambda>a. (pa_projection_name a, pointer_of d a)) (rev as)"
  have "map_of ?m n \<noteq> None"
    using assms by (auto simp: map_of_eq_None_iff image_image comp_def)
  then obtain p where p: "map_of ?m n = Some p" by blast
  then have "\<exists>a\<in>set as. p = pointer_of d a" using map_of_SomeD [OF p] by auto
  with p show ?thesis by (auto simp: published_def)
qed

lemma nothing_moved:
  "op_current P s' = op_current P s \<Longrightarrow> st \<noteq> ''ok'' \<Longrightarrow> all_or_nothing P s ws gid (Inr (run st gid d [] fr fo code)) s'"
  "op_current P s' = op_current P s \<Longrightarrow> all_or_nothing P s ws gid (Inl e) s'"
  by (simp_all add: all_or_nothing_def run_def)

lemma required_moved:
  assumes pub: "op_publish_required P s1 ws d ex req = Inr (True, s2)" "op_current P s1 = op_current P s"
    and po: "publish_optionals P ws d as s2 specs = (s3, ad, fo')"
    and bound: "\<forall>a\<in>set req. pa_workspace_id a = ws \<and> pa_source_generation_id a = gid"
  shows "all_or_nothing P s ws gid (Inr (run ''ok'' gid (Some d) x y z None)) s3"
proof -
  note p = required_published [OF pub(1)]
  have "\<exists>p. op_current P s3 ws n = Some p \<and> pp_generation_id p = gid \<and> pp_workspace_id p = ws \<and>
     pp_staging_manifest_digest p = d" if n: "n \<in> set MINIMUM_PROJECTIONS" for n
  proof -
    obtain a where a: "a \<in> set req" "published ws d req (op_current P s1) ws n = Some (pointer_of d a)"
      using published_minimum [OF conjunct1 [OF p] n] by blast
    moreover have "op_current P s3 ws n = published ws d req (op_current P s1) ws n"
      using publish_optionals_frame [OF po, of ws n] n p by simp
    ultimately show ?thesis using bound by (simp add: pointer_of_def)
  qed
  moreover have "op_current P s3 w n = op_current P s w n" if "w \<noteq> ws" for w n
    using publish_optionals_frame [OF po, of w n] that p pub(2) by (simp add: published_def)
  ultimately show ?thesis by (auto simp: all_or_nothing_def run_def)
qed

lemma publish_artifacts_atomic:
  assumes m: "\<forall>a\<in>set (map snd as). pa_workspace_id a = ws \<and> pa_source_generation_id a = gid"
    and out: "publish_artifacts P specs s ws gid as fo m = (out, s')"
  shows "all_or_nothing P s ws gid out s'"
proof (cases "op_stage P s m")
  case (Inl e)
  with out show ?thesis by (auto simp: publish_artifacts_def Let_def intro!: nothing_moved)
next
  case s1: (Inr s1)
  note st = stage_keeps [OF s1]
  show ?thesis
  proof (cases "mapR (lookup_artifact as) MINIMUM_PROJECTIONS")
    case (Inl e)
    with out s1 st show ?thesis by (auto simp: publish_artifacts_def Let_def intro!: nothing_moved)
  next
    case req: (Inr req)
    let ?pub = "op_publish_required P s1 ws (sm_manifest_digest m) (map (\<lambda>n. (n, op_current P s1 ws n)) MINIMUM_PROJECTIONS) req"
    have sub: "set req \<subseteq> set (map snd as)" by (rule mapR_lookup_artifact [OF req])
    obtain s3 ad fo' where po: "publish_optionals P ws (sm_manifest_digest m) as (snd (projr ?pub)) specs = (s3, ad, fo')"
      by (metis prod_cases3)
    consider (err) e where "?pub = Inl e" | (no) s2 where "?pub = Inr (False, s2)" | (yes) s2 where "?pub = Inr (True, s2)"
      by (cases ?pub) auto
    then show ?thesis
    proof cases
      case err
      with out s1 req st show ?thesis by (auto simp: publish_artifacts_def Let_def intro!: nothing_moved)
    next
      case no
      with out s1 req st required_refused [OF no] show ?thesis
        by (auto simp: publish_artifacts_def Let_def intro!: nothing_moved)
    next
      case yes
      with out s1 req po have "out = Inr (run ''ok'' gid (Some (sm_manifest_digest m)) (sort (MINIMUM_PROJECTIONS @ ad)) []
          (sorted_set (fo @ fo')) None)" "s' = s3"
        by (auto simp: publish_artifacts_def Let_def)
      moreover have "publish_optionals P ws (sm_manifest_digest m) as s2 specs = (s3, ad, fo')" using po yes by simp
      moreover have "\<forall>a\<in>set req. pa_workspace_id a = ws \<and> pa_source_generation_id a = gid" using m sub by blast
      ultimately show ?thesis using required_moved [OF yes st] by blast
    qed
  qed
qed

lemma rebuild_atomic:
  assumes out: "rebuild L P b source specs s ws gid = (out, s')"
  shows "all_or_nothing P s ws gid out s'"
proof (cases "source ws gid")
  case (Inl e)
  with out show ?thesis by (auto simp: rebuild_def intro!: nothing_moved)
next
  case (Inr records)
  obtain as fr fo where ba: "build_all b ws gid records specs = (as, fr, fo)" by (metis prod_cases3)
  show ?thesis
  proof (cases "list_ex (\<lambda>r. pr_workspace_id r \<noteq> ws) records \<or> fr \<noteq> []")
    case True
    with out Inr ba show ?thesis by (auto simp: rebuild_def intro!: nothing_moved split: if_splits)
  next
    case ok: False
    show ?thesis
    proof (cases "manifest_create L ws gid (map snd as)")
      case (Inl e)
      with out Inr ba ok show ?thesis by (auto simp: rebuild_def intro!: nothing_moved)
    next
      case m: (Inr m)
      with out Inr ba ok have "publish_artifacts P specs s ws gid as fo m = (out, s')" by (simp add: rebuild_def)
      with manifest_create_Inr(5) [OF m] show ?thesis by (rule publish_artifacts_atomic)
    qed
  qed
qed

end

subsection \<open>The in-memory store keeps the contract\<close>

lemma map_of_put_pointers:
  "map_of (put_pointers ws d as D) (w, n) = published ws d as (\<lambda>w n. map_of D (w, n)) w n"
proof (induction as rule: rev_induct)
  case (snoc a as)
  then show ?case by (auto simp: put_pointers_def published_def)
qed (simp add: put_pointers_def published_def)

lemma pm_ops_simps [simp]:
  "op_current pm_ops = pm_current" "op_stage pm_ops = pm_stage"
  "op_publish_required pm_ops = pm_publish_required" "op_publish_optional pm_ops = pm_publish_optional"
  by (simp_all add: pm_ops_def)

lemma pm_publish_required_Inr:
  "pm_publish_required s ws d ex as = Inr (b, s') \<Longrightarrow>
     (\<exists>m. assert_staged s ws d as = Inr m) \<and> set (map pa_projection_name as) = set MINIMUM_PROJECTIONS \<and>
     (if b then s' = s\<lparr>pm_pointers := put_pointers ws d as (pm_pointers s), pm_lkg := put_pointers ws d as (pm_lkg s)\<rparr> else s' = s)"
  unfolding pm_publish_required_def bindR_Inr_iff by (elim exE conjE) (simp split: if_splits)

lemma pm_publish_optional_Inr:
  "pm_publish_optional s ws d x a = Inr (b, s') \<Longrightarrow>
     (\<exists>m. assert_staged s ws d [a] = Inr m) \<and> pa_projection_name a \<notin> set MINIMUM_PROJECTIONS \<and>
     (if b then s' = s\<lparr>pm_pointers := put_pointers ws d [a] (pm_pointers s), pm_lkg := put_pointers ws d [a] (pm_lkg s)\<rparr> else s' = s)"
  unfolding pm_publish_optional_def bindR_Inr_iff by (elim exE conjE) (simp split: if_splits)

lemma pm_stage_Inr:
  "pm_stage s m = Inr s' \<Longrightarrow> s' = s\<lparr>pm_staged := dict_set (sm_manifest_digest m) m (pm_staged s)\<rparr> \<and>
     map_of (pm_staged s) (sm_manifest_digest m) \<in> {None, Some m}"
  by (auto simp: pm_stage_def split: option.splits if_splits)

lemma pm_current_put:
  "pm_current (s\<lparr>pm_pointers := put_pointers ws d as (pm_pointers s), pm_lkg := l\<rparr>) = published ws d as (pm_current s)"
  by (intro ext) (simp add: pm_current_def map_of_put_pointers published_def split: option.splits)

interpretation pm: pointer_store pm_ops
proof (unfold_locales, unfold pm_ops_simps)
  show "pm_current s' = pm_current s" if "pm_stage s m = Inr s'" for s m s'
    using pm_stage_Inr [OF that] by (auto simp: pm_current_def fun_eq_iff)
  show "pm_current s' = pm_current s" if "pm_publish_required s ws d ex as = Inr (False, s')" for s ws d ex as s'
    using pm_publish_required_Inr [OF that] by simp
  show "set (map pa_projection_name as) = set MINIMUM_PROJECTIONS \<and> pm_current s' = published ws d as (pm_current s)"
    if "pm_publish_required s ws d ex as = Inr (True, s')" for s ws d ex as s'
    using pm_publish_required_Inr [OF that] by (simp add: pm_current_put)
  show "pm_current s' = pm_current s" if "pm_publish_optional s ws d x a = Inr (False, s')" for s ws d x a s'
    using pm_publish_optional_Inr [OF that] by simp
  show "pa_projection_name a \<notin> set MINIMUM_PROJECTIONS \<and> pm_current s' = published ws d [a] (pm_current s)"
    if "pm_publish_optional s ws d x a = Inr (True, s')" for s ws d x a s'
    using pm_publish_optional_Inr [OF that] by (simp add: pm_current_put)
qed

text \<open>
  C24: a rebuild is all or nothing for the minimum profile. Whatever the source, the builder and the
  specs do, afterwards either no pointer of the store has moved and the run is not \<open>ok\<close>, or the run is
  \<open>ok\<close> and both \<open>identity\<close> and \<open>chronology\<close> of that workspace point into the requested generation and
  the staging manifest of the run, while no other workspace was touched.
\<close>

theorem rebuild_all_or_nothing:
  "all_or_nothing pm_ops s ws gid (fst (rebuild L pm_ops b source specs s ws gid))
     (snd (rebuild L pm_ops b source specs s ws gid))"
  by (rule pm.rebuild_atomic) simp

subsection \<open>Interleaved coordinators\<close>

text \<open>Steps of any number of coordinators and other clients on one store; manifests come from \<open>create\<close>.\<close>

inductive pm_step :: "lib \<Rightarrow> pointer_mem \<Rightarrow> pointer_mem \<Rightarrow> bool" for L where
  stage: "manifest_create L ws gid as = Inr m \<Longrightarrow> pm_stage s m = Inr s' \<Longrightarrow> pm_step L s s'"
| required: "pm_publish_required s ws d ex as = Inr (b, s') \<Longrightarrow> pm_step L s s'"
| optional: "pm_publish_optional s ws d x a = Inr (b, s') \<Longrightarrow> pm_step L s s'"

definition staged_ok :: "pointer_mem \<Rightarrow> bool" where
  "staged_ok s \<longleftrightarrow> (\<forall>d m. map_of (pm_staged s) d = Some m \<longrightarrow>
     (\<forall>a\<in>set (sm_artifacts m). pa_source_generation_id a = sm_source_generation_id m))"

definition profile_ok :: "pointer_mem \<Rightarrow> bool" where
  "profile_ok s \<longleftrightarrow> (\<forall>ws. map_option (\<lambda>p. (pp_generation_id p, pp_staging_manifest_digest p)) (pm_current s ws ''identity'') =
     map_option (\<lambda>p. (pp_generation_id p, pp_staging_manifest_digest p)) (pm_current s ws ''chronology''))"

lemma artifacts_by_name_mem: "map_of (artifacts_by_name as) n = Some a \<Longrightarrow> a \<in> set as"
proof (induction as rule: rev_induct)
  case (snoc b as)
  then show ?case by (auto simp: artifacts_by_name_def split: if_splits)
qed (simp add: artifacts_by_name_def)

lemma assert_staged_gen:
  assumes "assert_staged s ws d as = Inr m" "staged_ok s" "a \<in> set as"
  shows "pa_source_generation_id a = sm_source_generation_id m"
proof -
  from assms(1,3) have "map_of (artifacts_by_name (sm_artifacts m)) (pa_projection_name a) = Some a" "map_of (pm_staged s) d = Some m"
    by (auto simp: assert_staged_def list_ex_iff split: option.splits if_splits)
  with assms(2) artifacts_by_name_mem show ?thesis by (fastforce simp: staged_ok_def)
qed

lemma pm_step_inv: "pm_step L s s' \<Longrightarrow> staged_ok s \<and> profile_ok s \<Longrightarrow> staged_ok s' \<and> profile_ok s'"
proof (induction rule: pm_step.induct)
  case (stage ws gid as m s s')
  have "\<forall>a\<in>set (sm_artifacts m). pa_source_generation_id a = sm_source_generation_id m"
    using manifest_create_Inr [OF stage(1)] by simp
  then show ?case using pm_stage_Inr [OF stage(2)] stage(3)
    by (auto simp: staged_ok_def profile_ok_def pm_current_def)
next
  case (required s ws d ex as b s')
  note r = pm_publish_required_Inr [OF required(1)]
  obtain m where m: "assert_staged s ws d as = Inr m" using r by blast
  have st: "staged_ok s'" using r required(2) by (auto simp: staged_ok_def split: if_splits)
  have "profile_ok s'"
  proof (cases b)
    case True
    then have cur: "pm_current s' = published ws d as (pm_current s)" using r by (simp add: pm_current_put)
    have "\<exists>a\<in>set as. pm_current s' ws n = Some (pointer_of d a)" if "n \<in> set MINIMUM_PROJECTIONS" for n
      using pm.published_minimum [OF _ that, of as ws d] r cur by simp
    then have min: "map_option (\<lambda>p. (pp_generation_id p, pp_staging_manifest_digest p)) (pm_current s' ws n) =
        Some (sm_source_generation_id m, d)" if "n \<in> set MINIMUM_PROJECTIONS" for n
      using that assert_staged_gen [OF m conjunct1 [OF required(2)]] by (fastforce simp: pointer_of_def)
    have "pm_current s' w = pm_current s w" if "w \<noteq> ws" for w
      using that by (simp add: cur published_def fun_eq_iff)
    moreover have "''identity'' \<in> set MINIMUM_PROJECTIONS" "''chronology'' \<in> set MINIMUM_PROJECTIONS"
      by (simp_all add: MINIMUM_PROJECTIONS_def)
    note min [OF this(1)] min [OF this(2)]
    ultimately have "map_option (\<lambda>p. (pp_generation_id p, pp_staging_manifest_digest p)) (pm_current s' w ''identity'') =
        map_option (\<lambda>p. (pp_generation_id p, pp_staging_manifest_digest p)) (pm_current s' w ''chronology'')" for w
      using required(2) unfolding profile_ok_def by (metis (no_types, lifting))
    then show ?thesis by (simp add: profile_ok_def)
  qed (use r required in simp)
  with st show ?case by simp
next
  case (optional s ws d x a b s')
  note o = pm_publish_optional_Inr [OF optional(1)]
  have "staged_ok s'" using o optional(2) by (auto simp: staged_ok_def split: if_splits)
  moreover have "pm_current s' w n = pm_current s w n" if "n \<in> set MINIMUM_PROJECTIONS" for w n
    using o that by (cases b) (auto simp: pm_current_put published_def)
  ultimately show ?case using optional(2) by (simp add: profile_ok_def MINIMUM_PROJECTIONS_def)
qed

text \<open>
  the minimum profile is never torn. On a store that starts empty and is then used by any
  number of coordinators in any interleaving, in every workspace the identity and the chronology
  pointer are both absent, or both present with the same generation and the same staging manifest.
\<close>

theorem minimum_profile_never_torn:
  assumes "(pm_step L)\<^sup>*\<^sup>* pm_init s"
  shows "map_option (\<lambda>p. (pp_generation_id p, pp_staging_manifest_digest p)) (pm_current s ws ''identity'') =
     map_option (\<lambda>p. (pp_generation_id p, pp_staging_manifest_digest p)) (pm_current s ws ''chronology'')"
proof -
  have "staged_ok s \<and> profile_ok s"
    using assms
  proof (induction rule: rtranclp_induct)
    case base
    show ?case by (simp add: staged_ok_def profile_ok_def pm_init_def pm_current_def)
  qed (rule pm_step_inv)
  then show ?thesis by (simp add: profile_ok_def)
qed

definition demo_artifact :: "string \<Rightarrow> projection_artifact" where
  "demo_artifact n = \<lparr>pa_projection_name = n, pa_workspace_id = ''w'', pa_source_generation_id = ''g'', pa_schema_version = ''1'',
     pa_required = True, pa_artifact_digest = ''d'', pa_records_root = ''r'', pa_record_count = ''0''\<rparr>"

theorem minimum_profile_never_torn_witness:
  "\<exists>s p. (pm_step demo_lib)\<^sup>*\<^sup>* pm_init s \<and> pm_current s ''w'' ''identity'' = Some p \<and> pp_generation_id p = ''g'' \<and>
     map_option (\<lambda>p. (pp_generation_id p, pp_staging_manifest_digest p)) (pm_current s ''w'' ''chronology'') =
       Some (pp_generation_id p, pp_staging_manifest_digest p)"
proof -
  let ?as = "[demo_artifact ''chronology'', demo_artifact ''identity'']"
  obtain m where m: "manifest_create demo_lib ''w'' ''g'' ?as = Inr m" and as: "sm_artifacts m = ?as" "sm_workspace_id m = ''w''"
    by (auto simp: manifest_create_def demo_artifact_def contract_hash_def contract_canonical_bytes_def contract.norm_eq
        manifest_body_def artifact_to_mapping_def pdict_def admissible_PDict)
  let ?d = "sm_manifest_digest m"
  let ?s1 = "pm_init\<lparr>pm_staged := [(?d, m)]\<rparr>"
  let ?s2 = "?s1\<lparr>pm_pointers := put_pointers ''w'' ?d ?as [], pm_lkg := put_pointers ''w'' ?d ?as []\<rparr>"
  have 1: "pm_stage pm_init m = Inr ?s1" by (simp add: pm_stage_def pm_init_def)
  have 2: "pm_publish_required ?s1 ''w'' ?d [(''chronology'', None), (''identity'', None)] ?as = Inr (True, ?s2)"
    by (simp add: pm_publish_required_def assert_staged_def as artifacts_by_name_def demo_artifact_def MINIMUM_PROJECTIONS_def
        pm_init_def insert_commute)
  have r: "(pm_step demo_lib)\<^sup>*\<^sup>* pm_init ?s2"
    by (rule rtranclp.rtrancl_into_rtrancl [OF r_into_rtranclp]) (rule pm_step.stage [OF m 1], rule pm_step.required [OF 2])
  have "pm_current ?s2 ''w'' ''identity'' = Some (pointer_of ?d (demo_artifact ''identity''))"
    by (simp add: pm_current_def put_pointers_def demo_artifact_def)
  with minimum_profile_never_torn [OF r, of "''w''"] r show ?thesis
    by (intro exI [of _ ?s2] exI [of _ "pointer_of ?d (demo_artifact ''identity'')"]) (simp add: pointer_of_def demo_artifact_def)
qed

subsection \<open>Deterministic artifacts\<close>

lemma projected_perm:
  assumes "mset rs = mset rs'" and "inj_on (\<lambda>r. (pr_object_id r, pr_revision_id r)) (set rs)"
  shows "projected name rs = projected name rs'"
proof -
  have "sort_key (\<lambda>r. (pr_object_id r, pr_revision_id r)) rs = sort_key (\<lambda>r. (pr_object_id r, pr_revision_id r)) rs'"
    using assms by (rule sort_key_permI)
  moreover have "inj_on (\<lambda>r. (timeline_at r, pr_object_id r, pr_revision_id r)) (set rs)"
    using assms(2) by (auto simp: inj_on_def)
  then have "sort_key (\<lambda>r. (timeline_at r, pr_object_id r, pr_revision_id r)) rs =
      sort_key (\<lambda>r. (timeline_at r, pr_object_id r, pr_revision_id r)) rs'"
    using assms(1) by (intro sort_key_permI)
  ultimately show ?thesis by (simp add: projected_def)
qed

text \<open>
  artifacts are deterministic: the builder gives the same artifact, digests included, for any
  order in which the source lists the records, as long as no two of them share object and revision.
\<close>

theorem build_order_free:
  assumes "mset rs = mset rs'" and "inj_on (\<lambda>r. (pr_object_id r, pr_revision_id r)) (set rs)"
  shows "build L spec ws gid rs = build L spec ws gid rs'"
proof -
  have "list_ex (\<lambda>r. pr_workspace_id r \<noteq> ws) rs = list_ex (\<lambda>r. pr_workspace_id r \<noteq> ws) rs'"
    using mset_eq_setD [OF assms(1)] by (simp add: list_ex_iff)
  then show ?thesis unfolding build_def by (simp add: projected_perm [OF assms])
qed

definition demo_record :: "string \<Rightarrow> projection_record" where
  "demo_record i = \<lparr>pr_object_id = i, pr_workspace_id = ''w'', pr_revision_id = ''r'', pr_kind = ''k'',
     pr_lifecycle_status = ''active'', pr_captured_at = ''t'', pr_occurred_at = None, pr_data = PDict []\<rparr>"

theorem build_order_free_witness:
  "build demo_lib \<lparr>sp_name = ''identity'', sp_schema_version = ''1'', sp_required = True\<rparr> ''w'' ''g'' [demo_record ''a'', demo_record ''b'']
     = build demo_lib \<lparr>sp_name = ''identity'', sp_schema_version = ''1'', sp_required = True\<rparr> ''w'' ''g'' [demo_record ''b'', demo_record ''a'']"
  by (rule build_order_free) (simp_all add: demo_record_def)

end
