(* ===== verification/Kinds.thy ===== *)
theory Kinds
  imports Schemas
begin

text \<open>
  The kind registry of \<open>memory_core/registries.py\<close>. The registry refers to a schema registry that
  other code may change in between, so the operations that look at schemas take it as an argument.
  The result: retirement is final.
\<close>

definition BUILTIN_KINDS :: "string list" where
  "BUILTIN_KINDS = [''fact'', ''decision'', ''note'', ''idea'', ''task'', ''event'', ''source_record'']"

record kind_definition =
  kd_kind :: string
  kd_schema_family :: string
  kd_schema_version :: string
  kd_lifecycle_states :: "string list"
  kd_built_in :: bool
  kd_creatable :: bool
  kd_definition_id :: string

fun split_on :: "char \<Rightarrow> string \<Rightarrow> string list" where
  "split_on d [] = [[]]"
| "split_on d (c # cs) =
     (if c = d then [] # split_on d cs
      else case split_on d cs of [] \<Rightarrow> [[c]] | w # ws \<Rightarrow> (c # w) # ws)"

definition is_lower :: "char \<Rightarrow> bool" where
  "is_lower c \<longleftrightarrow> 97 \<le> (of_char c :: nat) \<and> (of_char c :: nat) \<le> 122"

text \<open>The regular expression of kind names: dotted segments \<open>[a-z][a-z0-9_]*\<close>.\<close>

definition kind_segment :: "string \<Rightarrow> bool" where
  "kind_segment s \<longleftrightarrow> s \<noteq> [] \<and> is_lower (hd s) \<and> list_all (\<lambda>c. is_lower c \<or> is_digit c \<or> c = CHR ''_'') (tl s)"

definition kind_name_ok :: "string \<Rightarrow> bool" where
  "kind_name_ok s \<longleftrightarrow> list_all kind_segment (split_on CHR ''.'' s)"

definition kind_body :: "kind_definition \<Rightarrow> pyval" where
  "kind_body d = pdict
     [(''kind'', PStr (kd_kind d)), (''schema_family'', PStr (kd_schema_family d)),
      (''schema_version'', PStr (kd_schema_version d)), (''lifecycle_states'', PList (map PStr (kd_lifecycle_states d))),
      (''built_in'', PBool (kd_built_in d)), (''creatable'', PBool (kd_creatable d))]"

definition kind_post_init :: "lib \<Rightarrow> kind_definition \<Rightarrow> kind_definition res" where
  "kind_post_init L d =
     (if \<not> kind_name_ok (kd_kind d) then Inl KindRegistrationError
      else if kd_built_in d \<noteq> (kd_kind d \<in> set BUILTIN_KINDS) then Inl KindRegistrationError
      else if \<not> kd_built_in d \<and> CHR ''.'' \<notin> set (kd_kind d) then Inl KindRegistrationError
      else bindR (positive_version (kd_schema_version d)) (\<lambda>_.
        if kd_schema_family d = [] then Inl KindRegistrationError
        else if kd_lifecycle_states d = [] \<or> sorted_set (kd_lifecycle_states d) \<noteq> kd_lifecycle_states d
        then Inl KindRegistrationError
        else bindR (contract_hash L (kind_body d)) (\<lambda>h.
          if kd_definition_id d \<noteq> h then Inl KindRegistrationError else Inr d)))"

definition kind_create :: "lib \<Rightarrow> string \<Rightarrow> string \<Rightarrow> string \<Rightarrow> string list \<Rightarrow> bool \<Rightarrow> kind_definition res" where
  "kind_create L kind fam ver states creatable =
     (let d = \<lparr>kd_kind = kind, kd_schema_family = fam, kd_schema_version = ver, kd_lifecycle_states = sorted_set states,
               kd_built_in = (kind \<in> set BUILTIN_KINDS), kd_creatable = creatable, kd_definition_id = []\<rparr>
      in bindR (contract_hash L (kind_body d)) (\<lambda>h. kind_post_init L (d\<lparr>kd_definition_id := h\<rparr>)))"

definition kind_to_mapping :: "kind_definition \<Rightarrow> pyval" where
  "kind_to_mapping d = pdict
     [(''kind'', PStr (kd_kind d)), (''schema_family'', PStr (kd_schema_family d)),
      (''schema_version'', PStr (kd_schema_version d)), (''lifecycle_states'', PList (map PStr (kd_lifecycle_states d))),
      (''built_in'', PBool (kd_built_in d)), (''creatable'', PBool (kd_creatable d)),
      (''definition_id'', PStr (kd_definition_id d))]"

type_synonym kind_registry = "(string, kind_definition) dict"

definition register_kind :: "schema_registry \<Rightarrow> kind_registry \<Rightarrow> kind_definition \<Rightarrow> kind_registry res" where
  "register_kind R K d =
     bindR (schema_definition_of R (kd_schema_family d) (kd_schema_version d)) (\<lambda>schema.
     if \<not> sd_readable schema then Inl KindRegistrationError
     else bindR (if kd_creatable d
                 then bindR (current_write_version R (kd_schema_family d)) (\<lambda>v.
                   guardR (v = kd_schema_version d) KindRegistrationError)
                 else Inr ()) (\<lambda>_.
       if map_of K (kd_kind d) \<notin> {None, Some d} then Inl KindRegistrationError
       else Inr (dict_set (kd_kind d) d K)))"

definition resolve_kind :: "kind_registry \<Rightarrow> string \<Rightarrow> kind_definition res" where
  "resolve_kind K kind = (case map_of K kind of None \<Rightarrow> Inl UnknownKind | Some d \<Rightarrow> Inr d)"

definition assert_creatable :: "kind_registry \<Rightarrow> string \<Rightarrow> kind_definition res" where
  "assert_creatable K kind =
     bindR (resolve_kind K kind) (\<lambda>d. if \<not> kd_creatable d then Inl KindRegistrationError else Inr d)"

definition retire :: "lib \<Rightarrow> kind_registry \<Rightarrow> string \<Rightarrow> (kind_definition \<times> kind_registry) res" where
  "retire L K kind =
     bindR (resolve_kind K kind) (\<lambda>d.
     bindR (kind_create L (kd_kind d) (kd_schema_family d) (kd_schema_version d) (kd_lifecycle_states d) False) (\<lambda>r.
     Inr (r, dict_set kind r K)))"

definition validate_kind_artifact ::
    "lib \<Rightarrow> schema_registry \<Rightarrow> kind_registry \<Rightarrow> string \<Rightarrow> versioned_artifact \<Rightarrow> versioned_artifact res" where
  "validate_kind_artifact L R K kind a =
     bindR (resolve_kind K kind) (\<lambda>d.
     if va_schema_family a \<noteq> kd_schema_family d then Inl KindRegistrationError else read_latest L R a)"

definition kind_snapshot :: "lib \<Rightarrow> kind_registry \<Rightarrow> (pyval \<times> string) res" where
  "kind_snapshot L K =
     (let body = pdict
        [(''registry_snapshot_version'', PStr REGISTRY_SNAPSHOT_VERSION),
         (''kinds'', PList (map (kind_to_mapping \<circ> snd) (sort_key fst K)))]
      in bindR (contract_hash L body) (\<lambda>h. Inr (body, h)))"

subsection \<open>Retirement is final\<close>

inductive kind_step :: "lib \<Rightarrow> kind_registry \<Rightarrow> kind_registry \<Rightarrow> bool" for L where
  register: "kind_post_init L d = Inr d \<Longrightarrow> register_kind R K d = Inr K' \<Longrightarrow> kind_step L K K'"
| retirement: "retire L K kind = Inr (d, K') \<Longrightarrow> kind_step L K K'"

definition kinds_ok :: "lib \<Rightarrow> kind_registry \<Rightarrow> bool" where
  "kinds_ok L K \<longleftrightarrow> (\<forall>k d. map_of K k = Some d \<longrightarrow> kd_kind d = k \<and> kind_post_init L d = Inr d)"

definition retired :: "kind_registry \<Rightarrow> string \<Rightarrow> bool" where
  "retired K kind \<longleftrightarrow> (\<exists>d. map_of K kind = Some d \<and> \<not> kd_creatable d)"

lemma kind_post_init_self: "kind_post_init L d = Inr d' \<Longrightarrow> d' = d"
  by (auto simp: kind_post_init_def bindR_Inr_iff split: if_splits)

lemma kind_create_Inr:
  assumes "kind_create L kind fam ver states creatable = Inr r"
  shows "kd_kind r = kind \<and> kd_creatable r = creatable \<and> kd_schema_family r = fam \<and> kd_schema_version r = ver \<and>
    kind_post_init L r = Inr r"
proof -
  from assms obtain h where "kind_post_init L \<lparr>kd_kind = kind, kd_schema_family = fam, kd_schema_version = ver,
      kd_lifecycle_states = sorted_set states, kd_built_in = (kind \<in> set BUILTIN_KINDS), kd_creatable = creatable,
      kd_definition_id = h\<rparr> = Inr r"
    by (auto simp: kind_create_def Let_def bindR_Inr_iff)
  with kind_post_init_self [OF this] show ?thesis by auto
qed

lemma register_kind_Inr:
  "register_kind R K d = Inr K' \<Longrightarrow> K' = dict_set (kd_kind d) d K \<and> map_of K (kd_kind d) \<in> {None, Some d}"
  by (auto simp: register_kind_def bindR_Inr_iff split: if_splits)

lemma retire_Inr:
  "retire L K kind = Inr (r, K') \<Longrightarrow> \<exists>d. map_of K kind = Some d \<and> K' = dict_set kind r K \<and> \<not> kd_creatable r \<and>
     kd_kind r = kd_kind d \<and> kind_post_init L r = Inr r \<and> kd_schema_family r = kd_schema_family d"
  by (auto simp: retire_def bindR_Inr_iff resolve_kind_def split: option.splits dest!: kind_create_Inr)

lemma kind_step_retired: "kind_step L K K' \<Longrightarrow> retired K kind \<Longrightarrow> retired K' kind"
  by (induction rule: kind_step.induct) (auto simp: retired_def dest!: register_kind_Inr retire_Inr)

lemma kind_steps_retired: "(kind_step L)\<^sup>*\<^sup>* K K' \<Longrightarrow> retired K kind \<Longrightarrow> retired K' kind"
  by (induction rule: rtranclp_induct) (auto intro: kind_step_retired)

lemma kinds_ok_set: "kinds_ok L K \<Longrightarrow> kd_kind d = k \<Longrightarrow> kind_post_init L d = Inr d \<Longrightarrow> kinds_ok L (dict_set k d K)"
  by (simp add: kinds_ok_def)

lemma kinds_okD: "kinds_ok L K \<Longrightarrow> map_of K k = Some d \<Longrightarrow> kd_kind d = k \<and> kind_post_init L d = Inr d"
  by (simp add: kinds_ok_def)

lemma kind_step_ok: "kind_step L K K' \<Longrightarrow> kinds_ok L K \<Longrightarrow> kinds_ok L K'"
proof (induction rule: kind_step.induct)
  case (register d R K K')
  then show ?case using register_kind_Inr [OF register(2)] by (simp add: kinds_ok_set)
next
  case (retirement K kind d K')
  then show ?case using retire_Inr [OF retirement(1)] kinds_okD [OF retirement(2)] by (auto intro: kinds_ok_set)
qed

lemma kind_steps_ok: "(kind_step L)\<^sup>*\<^sup>* [] K \<Longrightarrow> kinds_ok L K"
proof (induction rule: rtranclp_induct)
  case base
  show ?case by (simp add: kinds_ok_def)
qed (rule kind_step_ok)

lemma contract_hash_kind_body: "nfc_ascii L \<Longrightarrow> isOk (contract_hash L (kind_body d))"
proof -
  assume a: "nfc_ascii L"
  have k: "nfc L k = k" if "k \<in> {''kind'', ''schema_family'', ''schema_version'', ''lifecycle_states'', ''built_in'', ''creatable''}" for k
    by (rule nfc_asciiD [OF a]) (use that in auto)
  show ?thesis
    by (simp add: contract_hash_def contract_canonical_bytes_def contract.norm_eq kind_body_def pdict_def admissible_PDict k list_all_iff)
qed

text \<open>
  retirement works and is final. In a registry that starts empty, every registered kind can be
  retired; afterwards it still resolves, but it can never be created again: whatever is registered
  or retired later, with whatever schemas, \<open>assert_creatable\<close> raises \<open>KindRegistrationError\<close>.
\<close>

theorem retirement_is_final:
  assumes "nfc_ascii L" and "(kind_step L)\<^sup>*\<^sup>* [] K" and "resolve_kind K kind = Inr d"
  shows "\<exists>r K1. retire L K kind = Inr (r, K1) \<and>
    (\<forall>K2. (kind_step L)\<^sup>*\<^sup>* K1 K2 \<longrightarrow> isOk (resolve_kind K2 kind) \<and> assert_creatable K2 kind = Inl KindRegistrationError)"
proof -
  have d: "map_of K kind = Some d" using assms(3) by (simp add: resolve_kind_def split: option.splits)
  have ok: "kd_kind d = kind" "kind_post_init L d = Inr d" using kind_steps_ok [OF assms(2)] d by (auto simp: kinds_ok_def)
  let ?r = "d\<lparr>kd_creatable := False\<rparr>"
  have checks: "kind_name_ok (kd_kind d)" "kd_built_in d = (kd_kind d \<in> set BUILTIN_KINDS)"
      "kd_built_in d \<or> CHR ''.'' \<in> set (kd_kind d)" "canonical_pos (kd_schema_version d)" "kd_schema_family d \<noteq> []"
      "kd_lifecycle_states d \<noteq> []" "sorted_set (kd_lifecycle_states d) = kd_lifecycle_states d"
    using ok(2) by (auto simp: kind_post_init_def bindR_Inr_iff split: if_splits)
  obtain h where h: "contract_hash L (kind_body ?r) = Inr h" using contract_hash_kind_body [OF assms(1), of ?r] by (auto simp: isOk_iff)
  have body: "kind_body (\<lparr>kd_kind = kd_kind d, kd_schema_family = kd_schema_family d, kd_schema_version = kd_schema_version d,
      kd_lifecycle_states = sorted_set (kd_lifecycle_states d), kd_built_in = (kd_kind d \<in> set BUILTIN_KINDS),
      kd_creatable = False, kd_definition_id = i\<rparr>) = kind_body ?r" for i
    using checks by (simp add: kind_body_def)
  have "\<exists>r. kind_create L (kd_kind d) (kd_schema_family d) (kd_schema_version d) (kd_lifecycle_states d) False = Inr r"
    unfolding kind_create_def Let_def body h bindR_simps using checks h body [of h]
    by (simp add: kind_post_init_def positive_version_def)
  then obtain r K1 where r: "retire L K kind = Inr (r, K1)" by (auto simp: retire_def resolve_kind_def d)
  then have "retired K1 kind" using retire_Inr by (fastforce simp: retired_def)
  then have "isOk (resolve_kind K2 kind) \<and> assert_creatable K2 kind = Inl KindRegistrationError"
    if "(kind_step L)\<^sup>*\<^sup>* K1 K2" for K2
    using kind_steps_retired [OF that] by (fastforce simp: retired_def resolve_kind_def assert_creatable_def)
  with r show ?thesis by blast
qed

definition demo_kind :: kind_definition where
  "demo_kind = (let d = \<lparr>kd_kind = ''a.b'', kd_schema_family = ''f'', kd_schema_version = ''2'', kd_lifecycle_states = [''x''],
     kd_built_in = False, kd_creatable = True, kd_definition_id = []\<rparr> in
     d\<lparr>kd_definition_id := projr (contract_hash demo_lib (kind_body d))\<rparr>)"

lemma demo_kind_ok: "kind_post_init demo_lib demo_kind = Inr demo_kind"
proof -
  have n: "kind_name_ok ''a.b''" by code_simp
  have b: "kind_body demo_kind = kind_body (demo_kind\<lparr>kd_definition_id := []\<rparr>)" by (simp add: kind_body_def)
  obtain h where "contract_hash demo_lib (kind_body demo_kind) = Inr h"
    using contract_hash_kind_body [of demo_lib demo_kind] by (auto simp: isOk_iff)
  then show ?thesis
    using n by (simp add: kind_post_init_def demo_kind_def positive_version_def BUILTIN_KINDS_def sorted_set_def kind_body_def Let_def)
qed

theorem retirement_is_final_witness:
  "\<exists>K r K1. (kind_step demo_lib)\<^sup>*\<^sup>* [] K \<and> resolve_kind K ''a.b'' = Inr demo_kind \<and> retire demo_lib K ''a.b'' = Inr (r, K1) \<and>
     assert_creatable K1 ''a.b'' = Inl KindRegistrationError"
proof -
  let ?K = "[(''a.b'', demo_kind)]"
  have "register_kind demo_registry2 [] demo_kind = Inr ?K"
    by (simp add: register_kind_def demo_registry2_def demo_registry_def schema_definition_of_def current_write_version_def
        demo_kind_def Let_def)
  then have s: "(kind_step demo_lib)\<^sup>*\<^sup>* [] ?K" using kind_step.register [OF demo_kind_ok] by blast
  have r: "resolve_kind ?K ''a.b'' = Inr demo_kind" by (simp add: resolve_kind_def)
  from retirement_is_final [OF demo_lib_ascii s r] s r show ?thesis by blast
qed

end
