(* ===== verification/Signing.thy ===== *)
theory Signing
  imports Contracts
begin

text \<open>
  \<open>signing.py\<close>: the Ed25519 keyring with its signing domains. The algorithm is a library: the record
  \<open>ed25519\<close> of its four functions is a parameter. The frames of two domains never coincide, so a
  signature made in one domain is, for the verifier of another, a signature on a different message.
\<close>

record ed25519 =
  ed_public :: "bytes \<Rightarrow> bytes"
  ed_valid_public :: "bytes \<Rightarrow> bool"
  ed_sign :: "bytes \<Rightarrow> bytes \<Rightarrow> bytes"
  ed_verify :: "bytes \<Rightarrow> bytes \<Rightarrow> bytes \<Rightarrow> bool"

text \<open>What the code relies on: a signature verifies under the public half of its key.\<close>

definition ed_correct :: "ed25519 \<Rightarrow> bool" where
  "ed_correct E \<longleftrightarrow> (\<forall>k m. ed_verify E (ed_public E k) m (ed_sign E k m))"

definition DOMAIN_SEPARATOR :: bytes where
  "DOMAIN_SEPARATOR = ''wiki.generation.v1''"

abbreviation NUL :: char where
  "NUL \<equiv> CHR 0x00"

definition framed :: "bytes \<Rightarrow> bytes" where
  "framed payload = DOMAIN_SEPARATOR @ [NUL] @ payload"

record keyring =
  k_priv :: "(string, bytes) dict"
  k_pub :: "(string, bytes) dict"

definition keyring_init :: keyring where
  "keyring_init = \<lparr>k_priv = [], k_pub = []\<rparr>"

text \<open>\<open>generate\<close> and \<open>load_or_create\<close>, given the private key that was generated or read from the file.\<close>

definition add_private :: "ed25519 \<Rightarrow> keyring \<Rightarrow> string \<Rightarrow> bytes \<Rightarrow> keyring" where
  "add_private E K kid priv =
     K\<lparr>k_priv := dict_set kid priv (k_priv K), k_pub := dict_set kid (ed_public E priv) (k_pub K)\<rparr>"

definition add_public :: "keyring \<Rightarrow> string \<Rightarrow> bytes \<Rightarrow> keyring" where
  "add_public K kid pub = K\<lparr>k_pub := dict_set kid pub (k_pub K)\<rparr>"

definition public_bytes :: "keyring \<Rightarrow> string \<Rightarrow> bytes res" where
  "public_bytes K kid = (case map_of (k_pub K) kid of None \<Rightarrow> Inl KeyError | Some p \<Rightarrow> Inr p)"

definition sign :: "ed25519 \<Rightarrow> keyring \<Rightarrow> string \<Rightarrow> bytes \<Rightarrow> bytes res" where
  "sign E K kid payload =
     (case map_of (k_priv K) kid of None \<Rightarrow> Inl KeyError | Some k \<Rightarrow> Inr (ed_sign E k (framed payload)))"

definition sign_domain :: "ed25519 \<Rightarrow> keyring \<Rightarrow> string \<Rightarrow> string \<Rightarrow> bytes \<Rightarrow> bytes res" where
  "sign_domain E K kid domain payload =
     (case map_of (k_priv K) kid of None \<Rightarrow> Inl KeyError | Some k \<Rightarrow> Inr (ed_sign E k (domain @ [NUL] @ payload)))"

definition verify_domain :: "ed25519 \<Rightarrow> keyring \<Rightarrow> string \<Rightarrow> string \<Rightarrow> bytes \<Rightarrow> bytes \<Rightarrow> bool" where
  "verify_domain E K kid domain payload signature =
     (case map_of (k_pub K) kid of None \<Rightarrow> False | Some p \<Rightarrow> ed_verify E p (domain @ [NUL] @ payload) signature)"

definition verify :: "ed25519 \<Rightarrow> keyring \<Rightarrow> string \<Rightarrow> bytes \<Rightarrow> bytes \<Rightarrow> bool" where
  "verify E K kid payload signature =
     (case map_of (k_pub K) kid of None \<Rightarrow> False | Some p \<Rightarrow> ed_verify E p (framed payload) signature)"

lemma frame_inject:
  assumes "NUL \<notin> set d" "NUL \<notin> set d'" "d @ [NUL] @ p = d' @ [NUL] @ p'"
  shows "d = d' \<and> p = p'"
proof -
  have "takeWhile (\<lambda>c. c \<noteq> NUL) (x @ [NUL] @ y) = x" if "NUL \<notin> set x" for x y
    using that by (induction x) auto
  with assms have "d = d'" by metis
  with assms(3) show ?thesis by simp
qed

lemma separator_no_nul: "NUL \<notin> set DOMAIN_SEPARATOR"
  by (simp add: DOMAIN_SEPARATOR_def)

text \<open>The public half of every private key is on the ring, whatever is added later under other ids.\<close>

definition paired :: "ed25519 \<Rightarrow> keyring \<Rightarrow> string \<Rightarrow> bool" where
  "paired E K kid \<longleftrightarrow> (\<exists>k. map_of (k_priv K) kid = Some k \<and> map_of (k_pub K) kid = Some (ed_public E k))"

lemma sign_verify: "ed_correct E \<Longrightarrow> paired E K kid \<Longrightarrow> \<exists>s. sign E K kid m = Inr s \<and> verify E K kid m s"
  by (auto simp: paired_def sign_def verify_def ed_correct_def)

lemma sign_domain_verify:
  "ed_correct E \<Longrightarrow> paired E K kid \<Longrightarrow> \<exists>s. sign_domain E K kid d m = Inr s \<and> verify_domain E K kid d m s"
  by (auto simp: paired_def sign_domain_def verify_domain_def ed_correct_def)

lemma paired_add_private: "paired E (add_private E K kid k) kid"
  by (simp add: paired_def add_private_def)

end
