(* ===== verification/Keys.thy ===== *)
theory Keys
  imports Signing Schemas
begin

text \<open>
  The historical public-key registry of \<open>memory_core/registries.py\<close>, with the base64 codec of the
  standard library that its records use. The results: keys are never forgotten, so a signature that
  verified once verifies for ever; a verification that succeeds used a registered key inside its
  purposes, domains and validity window; frames of different purposes or domains never coincide.
\<close>

subsection \<open>Base64\<close>

definition b64_char :: "nat \<Rightarrow> char" where
  "b64_char n = (if n < 26 then char_of (65 + n) else if n < 52 then char_of (71 + n)
     else if n < 62 then char_of (n - 4) else if n = 62 then CHR ''+'' else CHR ''/'')"

definition b64_val :: "char \<Rightarrow> nat option" where
  "b64_val c = (let n = of_char c :: nat in
     if 65 \<le> n \<and> n \<le> 90 then Some (n - 65) else if 97 \<le> n \<and> n \<le> 122 then Some (n - 71)
     else if 48 \<le> n \<and> n \<le> 57 then Some (n + 4) else if n = 43 then Some 62 else if n = 47 then Some 63 else None)"

fun b64_groups :: "nat list \<Rightarrow> string" where
  "b64_groups [] = []"
| "b64_groups [a] = [b64_char (a div 4), b64_char ((a mod 4) * 16), CHR ''='', CHR ''='']"
| "b64_groups [a, b] = [b64_char (a div 4), b64_char ((a mod 4) * 16 + b div 16), b64_char ((b mod 16) * 4), CHR ''='']"
| "b64_groups (a # b # c # r) =
     [b64_char (a div 4), b64_char ((a mod 4) * 16 + b div 16), b64_char ((b mod 16) * 4 + c div 64), b64_char (c mod 64)] @ b64_groups r"

definition b64encode :: "bytes \<Rightarrow> string" where
  "b64encode bs = b64_groups (map of_char bs)"

fun b64_ungroup :: "string \<Rightarrow> nat list option" where
  "b64_ungroup [] = Some []"
| "b64_ungroup (w # x # y # z # r) =
     (case (b64_val w, b64_val x) of
        (Some p, Some q) \<Rightarrow>
          if r = [] \<and> y = CHR ''='' \<and> z = CHR ''='' then Some [p * 4 + q div 16]
          else (case b64_val y of
            None \<Rightarrow> None
          | Some s \<Rightarrow>
              if r = [] \<and> z = CHR ''='' then Some [p * 4 + q div 16, (q mod 16) * 16 + s div 4]
              else (case (b64_val z, b64_ungroup r) of
                (Some t, Some rest) \<Rightarrow> Some ([p * 4 + q div 16, (q mod 16) * 16 + s div 4, (s mod 4) * 64 + t] @ rest)
              | _ \<Rightarrow> None))
      | _ \<Rightarrow> None)"
| "b64_ungroup _ = None"

definition b64decode :: "string \<Rightarrow> bytes option" where
  "b64decode s = map_option (map char_of) (b64_ungroup s)"

subsection \<open>Key records\<close>

definition KEY_ALGORITHM :: string where
  "KEY_ALGORITHM = ''ed25519''"

record historical_key =
  hk_key_id :: string
  hk_algorithm :: string
  hk_public_key_b64 :: string
  hk_purposes :: "string list"
  hk_domains :: "string list"
  hk_valid_from :: string
  hk_valid_until :: "string option"
  hk_predecessor_key_id :: "string option"
  hk_record_id :: string

definition key_body :: "historical_key \<Rightarrow> fields" where
  "key_body k =
     [(''key_id'', PStr (hk_key_id k)), (''algorithm'', PStr (hk_algorithm k)),
      (''public_key_b64'', PStr (hk_public_key_b64 k)), (''purposes'', PList (map PStr (hk_purposes k))),
      (''domains'', PList (map PStr (hk_domains k))), (''valid_from'', PStr (hk_valid_from k)),
      (''valid_until'', popt (hk_valid_until k)), (''predecessor_key_id'', popt (hk_predecessor_key_id k))]"

definition key_post_init :: "lib \<Rightarrow> ed25519 \<Rightarrow> historical_key \<Rightarrow> historical_key res" where
  "key_post_init L E k =
     (if hk_key_id k = [] \<or> hk_algorithm k \<noteq> KEY_ALGORITHM then Inl InvalidContractValue
      else if (case b64decode (hk_public_key_b64 k) of None \<Rightarrow> True | Some raw \<Rightarrow> \<not> ed_valid_public E raw)
      then Inl InvalidContractValue
      else if hk_purposes k = [] \<or> sorted_set (hk_purposes k) \<noteq> hk_purposes k then Inl InvalidContractValue
      else if hk_domains k = [] \<or> sorted_set (hk_domains k) \<noteq> hk_domains k then Inl InvalidContractValue
      else if hk_valid_from k = [] then Inl InvalidContractValue
      else if (case hk_valid_until k of None \<Rightarrow> False | Some u \<Rightarrow> u \<le> hk_valid_from k) then Inl InvalidContractValue
      else bindR (contract_hash L (pdict (key_body k))) (\<lambda>h.
        if hk_record_id k \<noteq> h then Inl InvalidContractValue else Inr k))"

definition key_create ::
    "lib \<Rightarrow> ed25519 \<Rightarrow> string \<Rightarrow> bytes \<Rightarrow> string list \<Rightarrow> string list \<Rightarrow> string \<Rightarrow> string option \<Rightarrow> string option \<Rightarrow> historical_key res" where
  "key_create L E kid pub purposes domains from until pred =
     (let k = \<lparr>hk_key_id = kid, hk_algorithm = KEY_ALGORITHM, hk_public_key_b64 = b64encode pub,
               hk_purposes = sorted_set purposes, hk_domains = sorted_set domains, hk_valid_from = from,
               hk_valid_until = until, hk_predecessor_key_id = pred, hk_record_id = []\<rparr>
      in bindR (contract_hash L (pdict (key_body k))) (\<lambda>h. key_post_init L E (k\<lparr>hk_record_id := h\<rparr>)))"

definition key_to_mapping :: "historical_key \<Rightarrow> pyval" where
  "key_to_mapping k = pdict (key_body k @ [(''record_id'', PStr (hk_record_id k))])"

definition signature_frame :: "string \<Rightarrow> string \<Rightarrow> bytes \<Rightarrow> bytes res" where
  "signature_frame purpose domain payload =
     (if purpose = [] \<or> domain = [] then Inl InvalidContractValue
      else Inr (purpose @ [NUL] @ domain @ [NUL] @ payload))"

subsection \<open>The registry\<close>

record key_registry =
  kr_records :: "(string, historical_key) dict"
  kr_active :: "(string \<times> string, string) dict"

definition kr_init :: key_registry where
  "kr_init = \<lparr>kr_records = [], kr_active = []\<rparr>"

definition register_key :: "key_registry \<Rightarrow> historical_key \<Rightarrow> key_registry res" where
  "register_key G k =
     (if (case hk_predecessor_key_id k of None \<Rightarrow> False | Some p \<Rightarrow> p \<notin> set (dict_keys (kr_records G))) then Inl UnknownSigningKey
      else if map_of (kr_records G) (hk_key_id k) \<notin> {None, Some k} then Inl InvalidContractValue
      else Inr (G\<lparr>kr_records := dict_set (hk_key_id k) k (kr_records G)\<rparr>))"

definition key_record :: "key_registry \<Rightarrow> string \<Rightarrow> historical_key res" where
  "key_record G kid = (case map_of (kr_records G) kid of None \<Rightarrow> Inl UnknownSigningKey | Some k \<Rightarrow> Inr k)"

definition assert_usage :: "historical_key \<Rightarrow> string \<Rightarrow> string \<Rightarrow> string \<Rightarrow> unit res" where
  "assert_usage k purpose domain at =
     (if purpose \<notin> set (hk_purposes k) \<or> domain \<notin> set (hk_domains k) then Inl KeyUsageDenied
      else if at < hk_valid_from k \<or> (case hk_valid_until k of None \<Rightarrow> False | Some u \<Rightarrow> u \<le> at) then Inl KeyUsageDenied
      else Inr ())"

definition activate_key :: "key_registry \<Rightarrow> string \<Rightarrow> string \<Rightarrow> string \<Rightarrow> string \<Rightarrow> key_registry res" where
  "activate_key G kid purpose domain at =
     bindR (key_record G kid) (\<lambda>k. bindR (assert_usage k purpose domain at) (\<lambda>_.
     Inr (G\<lparr>kr_active := dict_set (purpose, domain) kid (kr_active G)\<rparr>)))"

definition active_key_id :: "key_registry \<Rightarrow> string \<Rightarrow> string \<Rightarrow> string res" where
  "active_key_id G purpose domain =
     (case map_of (kr_active G) (purpose, domain) of None \<Rightarrow> Inl UnknownSigningKey | Some kid \<Rightarrow> Inr kid)"

text \<open>\<open>verify\<close>: every error on the way is caught and means \<open>False\<close>.\<close>

definition verify_key ::
    "ed25519 \<Rightarrow> key_registry \<Rightarrow> string \<Rightarrow> string \<Rightarrow> string \<Rightarrow> bytes \<Rightarrow> bytes \<Rightarrow> string \<Rightarrow> bool" where
  "verify_key E G kid purpose domain payload signature signed_at =
     (case bindR (key_record G kid) (\<lambda>k. bindR (assert_usage k purpose domain signed_at) (\<lambda>_.
           bindR (case b64decode (hk_public_key_b64 k) of None \<Rightarrow> Inl ValueError | Some raw \<Rightarrow> Inr raw) (\<lambda>raw.
           bindR (guardR (ed_valid_public E raw) ValueError) (\<lambda>_.
           bindR (signature_frame purpose domain payload) (\<lambda>m. Inr (ed_verify E raw m signature)))))) of
        Inl _ \<Rightarrow> False | Inr b \<Rightarrow> b)"

definition key_snapshot :: "lib \<Rightarrow> key_registry \<Rightarrow> (pyval \<times> string) res" where
  "key_snapshot L G =
     (let body = pdict
        [(''registry_snapshot_version'', PStr REGISTRY_SNAPSHOT_VERSION),
         (''keys'', PList (map (key_to_mapping \<circ> snd) (sort_key fst (kr_records G)))),
         (''active'', PList (map (\<lambda>((purpose, domain), kid).
            pdict [(''purpose'', PStr purpose), (''domain'', PStr domain), (''key_id'', PStr kid)]) (sort_key fst (kr_active G))))]
      in bindR (contract_hash L body) (\<lambda>h. Inr (body, h)))"

subsection \<open>Keys are never forgotten\<close>

inductive key_step :: "lib \<Rightarrow> ed25519 \<Rightarrow> key_registry \<Rightarrow> key_registry \<Rightarrow> bool" for L E where
  register: "key_post_init L E k = Inr k \<Longrightarrow> register_key G k = Inr G' \<Longrightarrow> key_step L E G G'"
| activation: "activate_key G kid purpose domain at = Inr G' \<Longrightarrow> key_step L E G G'"

definition active_ok :: "key_registry \<Rightarrow> bool" where
  "active_ok G \<longleftrightarrow> (\<forall>p d kid. map_of (kr_active G) (p, d) = Some kid \<longrightarrow>
     (\<exists>k. map_of (kr_records G) kid = Some k \<and> p \<in> set (hk_purposes k) \<and> d \<in> set (hk_domains k)))"

lemma register_key_Inr:
  "register_key G k = Inr G' \<Longrightarrow> G' = G\<lparr>kr_records := dict_set (hk_key_id k) k (kr_records G)\<rparr> \<and>
     map_of (kr_records G) (hk_key_id k) \<in> {None, Some k}"
  by (auto simp: register_key_def split: if_splits)

lemma activate_key_Inr:
  "activate_key G kid p d at = Inr G' \<Longrightarrow> G' = G\<lparr>kr_active := dict_set (p, d) kid (kr_active G)\<rparr> \<and>
     (\<exists>k. map_of (kr_records G) kid = Some k \<and> p \<in> set (hk_purposes k) \<and> d \<in> set (hk_domains k))"
  by (auto simp: activate_key_def key_record_def assert_usage_def bindR_Inr_iff split: option.splits if_splits)

lemma key_step_keeps:
  "key_step L E G G' \<Longrightarrow> map_of (kr_records G) kid = Some k \<Longrightarrow> map_of (kr_records G') kid = Some k"
  by (induction rule: key_step.induct) (auto dest!: register_key_Inr activate_key_Inr)

lemma key_steps_keep:
  "(key_step L E)\<^sup>*\<^sup>* G G' \<Longrightarrow> map_of (kr_records G) kid = Some k \<Longrightarrow> map_of (kr_records G') kid = Some k"
  by (induction rule: rtranclp_induct) (auto intro: key_step_keeps)

lemma key_step_ok: "key_step L E G G' \<Longrightarrow> active_ok G \<Longrightarrow> active_ok G'"
proof (induction rule: key_step.induct)
  case (register k G G')
  note r = register_key_Inr [OF register(2)]
  have "map_of (kr_records G') kid = Some k'" if "map_of (kr_records G) kid = Some k'" for kid k'
    using r that by auto
  moreover have "kr_active G' = kr_active G" using r by simp
  ultimately show ?case using register(3) unfolding active_ok_def by metis
next
  case (activation G kid purpose domain at G')
  then show ?case using activate_key_Inr [OF activation(1)] by (auto simp: active_ok_def)
qed

text \<open>The active key of a purpose and domain is registered for them.\<close>

lemma active_key_usable:
  assumes "(key_step L E)\<^sup>*\<^sup>* kr_init G" and "active_key_id G p d = Inr kid"
  shows "\<exists>k. key_record G kid = Inr k \<and> p \<in> set (hk_purposes k) \<and> d \<in> set (hk_domains k)"
proof -
  have "active_ok G" using assms(1)
  proof (induction rule: rtranclp_induct)
    case base
    show ?case by (simp add: active_ok_def kr_init_def)
  qed (rule key_step_ok)
  moreover have "map_of (kr_active G) (p, d) = Some kid" using assms(2) by (simp add: active_key_id_def split: option.splits)
  ultimately show ?thesis unfolding active_ok_def by (fastforce simp: key_record_def)
qed

lemma verify_key_iff:
  "verify_key E G kid purpose domain payload sig at \<longleftrightarrow>
     (\<exists>k raw. map_of (kr_records G) kid = Some k \<and> purpose \<in> set (hk_purposes k) \<and> domain \<in> set (hk_domains k) \<and>
        hk_valid_from k \<le> at \<and> (\<forall>u. hk_valid_until k = Some u \<longrightarrow> at < u) \<and>
        b64decode (hk_public_key_b64 k) = Some raw \<and> ed_valid_public E raw \<and> purpose \<noteq> [] \<and> domain \<noteq> [] \<and>
        ed_verify E raw (purpose @ [NUL] @ domain @ [NUL] @ payload) sig)"
  by (auto simp: verify_key_def key_record_def assert_usage_def signature_frame_def bindR_def guardR_def not_le not_less
      split: option.splits sum.splits if_splits)

text \<open>
  rotation never invalidates history. If a signature verifies under a key, it verifies after
  any further registrations and activations; and whenever one verifies, the key was registered, the
  purpose and the domain are among those it was registered for, and the signing time lies in its
  validity window.
\<close>

theorem historical_signatures_stay_valid:
  assumes "verify_key E G kid purpose domain payload sig signed_at"
  shows "((key_step L E)\<^sup>*\<^sup>* G G' \<longrightarrow> verify_key E G' kid purpose domain payload sig signed_at) \<and>
    (\<exists>k. key_record G kid = Inr k \<and> purpose \<in> set (hk_purposes k) \<and> domain \<in> set (hk_domains k) \<and>
       hk_valid_from k \<le> signed_at \<and> (\<forall>u. hk_valid_until k = Some u \<longrightarrow> signed_at < u))"
  using assms unfolding verify_key_iff by (auto simp: key_record_def dest: key_steps_keep)

text \<open>
  frames are unambiguous: for purposes and domains without a NUL character, two signature
  frames are equal only if purpose, domain and payload are all equal, so a signature can not be
  replayed under another purpose or domain.
\<close>

theorem signature_frame_unambiguous:
  assumes "signature_frame p d m = Inr f" and "signature_frame p' d' m' = Inr f"
    and "NUL \<notin> set (p @ d)" and "NUL \<notin> set (p' @ d')"
  shows "p = p' \<and> d = d' \<and> m = m'"
proof -
  from assms(1,2) have "p @ [NUL] @ (d @ [NUL] @ m) = p' @ [NUL] @ (d' @ [NUL] @ m')"
    by (auto simp: signature_frame_def split: if_splits)
  with frame_inject [of p p'] assms(3,4) have "p = p'" "d @ [NUL] @ m = d' @ [NUL] @ m'" by auto
  with frame_inject [of d d'] assms(3,4) show ?thesis by auto
qed

theorem signature_frame_unambiguous_witness:
  "signature_frame ''p'' ''d'' ''m'' = Inr (''p'' @ [NUL] @ ''d'' @ [NUL] @ ''m'') \<and> ''d'' = ''d''"
  using signature_frame_unambiguous [of "''p''" "''d''" "''m''" "''p'' @ [NUL] @ ''d'' @ [NUL] @ ''m''" "''p''" "''d''" "''m''"]
  by (simp add: signature_frame_def)

subsection \<open>A registered key\<close>

text \<open>A toy signature scheme for witnesses: the signature is the key followed by the message.\<close>

definition demo_ed :: ed25519 where
  "demo_ed = \<lparr>ed_public = id, ed_valid_public = (\<lambda>_. True), ed_sign = (@), ed_verify = (\<lambda>p m s. s = p @ m)\<rparr>"

definition demo_key_registry :: key_registry where
  "demo_key_registry = \<lparr>kr_records = [(''k'', \<lparr>hk_key_id = ''k'', hk_algorithm = KEY_ALGORITHM, hk_public_key_b64 = ''YQ=='',
     hk_purposes = [''p''], hk_domains = [''d''], hk_valid_from = ''1'', hk_valid_until = Some ''9'', hk_predecessor_key_id = None,
     hk_record_id = []\<rparr>)], kr_active = []\<rparr>"

theorem historical_signatures_stay_valid_witness:
  "verify_key demo_ed demo_key_registry ''k'' ''p'' ''d'' ''m'' (''a'' @ ''p'' @ [NUL] @ ''d'' @ [NUL] @ ''m'') ''5'' \<and>
   (\<exists>k. key_record demo_key_registry ''k'' = Inr k \<and> hk_valid_from k \<le> ''5'')"
proof -
  have v: "verify_key demo_ed demo_key_registry ''k'' ''p'' ''d'' ''m'' (''a'' @ ''p'' @ [NUL] @ ''d'' @ [NUL] @ ''m'') ''5''"
    by code_simp
  with historical_signatures_stay_valid [OF v] show ?thesis by blast
qed

end
