(* ===== verification/Gateways.thy ===== *)
theory Gateways
  imports Contracts
begin

text \<open>
  \<open>memory_core/policy.py\<close>, \<open>command_gateway.py\<close> and \<open>query_gateway.py\<close>: the capability policy and the
  two gateways that enforce it. The readers, resolvers and backends behind the gateways are
  parameters; the command handler acts on a state of its own, so that running it is visible.

  The results: nothing is executed or shown without a live capability of the right workspace, actor,
  action and sensitivity; a command with an idempotency key takes effect at most once.
\<close>

subsection \<open>Policy\<close>

datatype sensitivity = PUBLIC | INTERNAL | PRIVATE | SECRET_DATA

fun rank :: "sensitivity \<Rightarrow> nat" where
  "rank PUBLIC = 0" | "rank INTERNAL = 1" | "rank PRIVATE = 2" | "rank SECRET_DATA = 3"

fun sensitivity_value :: "sensitivity \<Rightarrow> string" where
  "sensitivity_value PUBLIC = ''public''" | "sensitivity_value INTERNAL = ''internal''"
| "sensitivity_value PRIVATE = ''private''" | "sensitivity_value SECRET_DATA = ''secret''"

text \<open>\<open>Sensitivity(str(v))\<close>: only the four strings are members; the text of any other value is none of them.\<close>

definition parse_sensitivity :: "json \<Rightarrow> sensitivity res" where
  "parse_sensitivity v =
     (case find (\<lambda>x. v = JStr (sensitivity_value x)) [PUBLIC, INTERNAL, PRIVATE, SECRET_DATA] of
        None \<Rightarrow> Inl ValueError | Some x \<Rightarrow> Inr x)"

datatype provenance_mode = EVIDENCE_BACKED | SELF_AUTHORED | SYSTEM_INFERRED | IMPORTED_UNVERIFIED

datatype policy_reason = ALLOW | WORKSPACE_MISMATCH | CAPABILITY_MISSING | CAPABILITY_EXPIRED | SENSITIVITY_EXCEEDED
  | PROVENANCE_PROMOTION_DENIED | DECLASSIFICATION_DENIED | INVALID_REQUEST

fun reason_value :: "policy_reason \<Rightarrow> string" where
  "reason_value ALLOW = ''allow''"
| "reason_value WORKSPACE_MISMATCH = ''workspace_mismatch''"
| "reason_value CAPABILITY_MISSING = ''capability_missing''"
| "reason_value CAPABILITY_EXPIRED = ''capability_expired''"
| "reason_value SENSITIVITY_EXCEEDED = ''sensitivity_exceeded''"
| "reason_value PROVENANCE_PROMOTION_DENIED = ''provenance_promotion_denied''"
| "reason_value DECLASSIFICATION_DENIED = ''declassification_denied''"
| "reason_value INVALID_REQUEST = ''invalid_request''"

record capability_token =
  ct_token_id :: string
  ct_workspace_id :: string
  ct_actor_id :: string
  ct_actions :: "string list"
  ct_max_sensitivity :: sensitivity
  ct_expires_at :: string

record policy_decision =
  allowed :: bool
  reason :: policy_reason

record policy_request =
  rq_workspace_id :: string
  rq_actor_id :: string
  rq_action :: string
  rq_now :: string
  rq_object_sensitivity :: sensitivity

abbreviation deny :: "policy_reason \<Rightarrow> policy_decision" where
  "deny r \<equiv> \<lparr>allowed = False, reason = r\<rparr>"

abbreviation allow :: policy_decision where
  "allow \<equiv> \<lparr>allowed = True, reason = ALLOW\<rparr>"

definition authorize :: "capability_token \<Rightarrow> policy_request \<Rightarrow> policy_decision" where
  "authorize t r =
     (if ct_workspace_id t \<noteq> rq_workspace_id r \<or> ct_actor_id t \<noteq> rq_actor_id r then deny WORKSPACE_MISMATCH
      else if rq_now r \<ge> ct_expires_at t then deny CAPABILITY_EXPIRED
      else if rq_action r \<notin> set (ct_actions t) then deny CAPABILITY_MISSING
      else if rank (rq_object_sensitivity r) > rank (ct_max_sensitivity t) then deny SENSITIVITY_EXCEEDED
      else allow)"

definition authorize_provenance_transition ::
    "capability_token \<Rightarrow> policy_request \<Rightarrow> provenance_mode \<Rightarrow> provenance_mode \<Rightarrow> string list \<Rightarrow> policy_decision" where
  "authorize_provenance_transition t r source target evidence_refs =
     (let base = authorize t r in
      if \<not> allowed base then base
      else if source = target then allow
      else if target = EVIDENCE_BACKED \<and>
              (rq_action r \<noteq> ''provenance.attest'' \<or> filter (\<lambda>x. x \<noteq> []) evidence_refs = [])
      then deny PROVENANCE_PROMOTION_DENIED
      else allow)"

text \<open>
  \<open>reason.strip()\<close> is empty exactly for text made of white space; which code points are white space
  is the parameter \<open>blank\<close>.
\<close>

definition authorize_declassification ::
    "(string \<Rightarrow> bool) \<Rightarrow> capability_token \<Rightarrow> policy_request \<Rightarrow> sensitivity \<Rightarrow> sensitivity \<Rightarrow> string \<Rightarrow> policy_decision" where
  "authorize_declassification blank t r source target why =
     (let base = authorize t r in
      if \<not> allowed base then base
      else if rank target \<ge> rank source then allow
      else if rq_action r \<noteq> ''sensitivity.declassify'' \<or> blank why then deny DECLASSIFICATION_DENIED
      else allow)"

text \<open>\<open>max(values, key=rank)\<close>: the first of the highest.\<close>

definition derived_sensitivity :: "sensitivity list \<Rightarrow> sensitivity" where
  "derived_sensitivity xs =
     (case xs of [] \<Rightarrow> PUBLIC | y # ys \<Rightarrow> foldl (\<lambda>m x. if rank x > rank m then x else m) y ys)"

lemma authorize_allowed_iff:
  "allowed (authorize t r) \<longleftrightarrow> ct_workspace_id t = rq_workspace_id r \<and> ct_actor_id t = rq_actor_id r \<and>
     rq_now r < ct_expires_at t \<and> rq_action r \<in> set (ct_actions t) \<and>
     rank (rq_object_sensitivity r) \<le> rank (ct_max_sensitivity t)"
  by (auto simp: authorize_def not_le not_less)

lemma foldl_rank_max:
  "rank y \<le> rank (foldl (\<lambda>m x. if rank x > rank m then x else m) y ys) \<and>
   (\<forall>x\<in>set ys. rank x \<le> rank (foldl (\<lambda>m x. if rank x > rank m then x else m) y ys)) \<and>
   foldl (\<lambda>m x. if rank x > rank m then x else m) y ys \<in> set (y # ys)"
proof (induction ys arbitrary: y)
  case (Cons x xs)
  from Cons.IH [of "if rank x > rank y then x else y"] show ?case by (auto split: if_splits)
qed simp

lemma rank_inject: "rank x = rank y \<longleftrightarrow> x = y"
  by (cases x; cases y) auto

text \<open>
  information never loses sensitivity silently. What is derived from several inputs is at least as
  sensitive as each of them and no more sensitive than one of them; and a change of
  sensitivity to a lower level is only allowed with a live capability for \<open>sensitivity.declassify\<close> and a
  stated reason, just as promotion to evidence-backed needs \<open>provenance.attest\<close> and a reference.
\<close>

theorem sensitivity_never_silently_lowered:
  "(\<forall>x\<in>set xs. rank x \<le> rank (derived_sensitivity xs)) \<and>
   (xs \<noteq> [] \<longrightarrow> derived_sensitivity xs \<in> set xs) \<and>
   (allowed (authorize_declassification blank t r source target why) \<and> rank target < rank source \<longrightarrow>
      allowed (authorize t r) \<and> ''sensitivity.declassify'' \<in> set (ct_actions t) \<and> \<not> blank why) \<and>
   (allowed (authorize_provenance_transition t r psource EVIDENCE_BACKED refs) \<and> psource \<noteq> EVIDENCE_BACKED \<longrightarrow>
      allowed (authorize t r) \<and> ''provenance.attest'' \<in> set (ct_actions t) \<and> (\<exists>x\<in>set refs. x \<noteq> []))"
proof (intro conjI impI)
  show "\<forall>x\<in>set xs. rank x \<le> rank (derived_sensitivity xs)"
    using foldl_rank_max by (cases xs) (auto simp: derived_sensitivity_def)
  show "derived_sensitivity xs \<in> set xs" if "xs \<noteq> []"
    using that foldl_rank_max by (cases xs) (simp_all add: derived_sensitivity_def)
  assume a: "allowed (authorize_declassification blank t r source target why) \<and> rank target < rank source"
  then have *: "allowed (authorize t r) \<and> rq_action r = ''sensitivity.declassify'' \<and> \<not> blank why"
    by (auto simp: authorize_declassification_def Let_def split: if_splits)
  then show "allowed (authorize t r)" "''sensitivity.declassify'' \<in> set (ct_actions t)" "\<not> blank why"
    using authorize_allowed_iff [of t r] by auto
next
  assume a: "allowed (authorize_provenance_transition t r psource EVIDENCE_BACKED refs) \<and> psource \<noteq> EVIDENCE_BACKED"
  then have *: "allowed (authorize t r) \<and> rq_action r = ''provenance.attest'' \<and> filter (\<lambda>x. x \<noteq> []) refs \<noteq> []"
    by (auto simp: authorize_provenance_transition_def Let_def split: if_splits)
  then show "allowed (authorize t r)" "''provenance.attest'' \<in> set (ct_actions t)" "\<exists>x\<in>set refs. x \<noteq> []"
    using authorize_allowed_iff [of t r] by (auto simp: filter_empty_conv)
qed

theorem sensitivity_never_silently_lowered_witness:
  "rank PRIVATE \<le> rank (derived_sensitivity [PUBLIC, PRIVATE, INTERNAL])"
proof -
  have "PRIVATE \<in> set [PUBLIC, PRIVATE, INTERNAL]" by simp
  with sensitivity_never_silently_lowered [of "[PUBLIC, PRIVATE, INTERNAL]"] show ?thesis by metis
qed

subsection \<open>The command gateway\<close>

record idempotency_record =
  request_digest :: string
  stored_result :: core_result

type_synonym idempotency_store = "(string \<times> string, idempotency_record) dict"

text \<open>What the gateway sees of the world during one call.\<close>

record 'h environment =
  en_current_generation :: "string \<Rightarrow> string option"
  en_resolve :: "string \<Rightarrow> string \<Rightarrow> capability_token option"
  en_handle :: "'h \<Rightarrow> command_envelope \<Rightarrow> core_result res \<times> 'h"
  en_now :: string

definition gateway_result :: "string \<Rightarrow> string \<Rightarrow> string option \<Rightarrow> string \<Rightarrow> core_result" where
  "gateway_result request_id st gid code =
     \<lparr>rs_contract_version = CONTRACT_VERSION, rs_request_id = request_id, rs_status = st, rs_generation_id = gid,
      rs_result = [], rs_error_code = Some code\<rparr>"

definition execute ::
    "lib \<Rightarrow> 'h environment \<Rightarrow> idempotency_store \<times> 'h \<Rightarrow> command_envelope \<Rightarrow> core_result res \<times> idempotency_store \<times> 'h" where
  "execute L env st c =
     (let (store, h) = st in
      case bindR (command_canonical_bytes L c) (\<lambda>b. Inr (sha256_hex L b)) of
        Inl e \<Rightarrow> (Inl e, store, h)
      | Inr digest \<Rightarrow>
          (case map_of store (ce_workspace_id c, ce_idempotency_key c) of
             Some existing \<Rightarrow>
               if request_digest existing \<noteq> digest
               then (Inr (gateway_result (ce_command_id c) ''rejected'' None ''idempotency_payload_mismatch''), store, h)
               else (Inr (stored_result existing), store, h)
           | None \<Rightarrow>
               let current = en_current_generation env (ce_workspace_id c) in
               if ce_expected_generation_id c \<noteq> current
               then (Inr (gateway_result (ce_command_id c) ''retry_later'' current ''stale_generation''), store, h)
               else case en_resolve env (ce_workspace_id c) (ce_actor_id c) of
                 None \<Rightarrow> (Inr (gateway_result (ce_command_id c) ''rejected'' current ''capability_missing''), store, h)
               | Some token \<Rightarrow>
                   (case parse_sensitivity (case map_of (ce_payload c) ''sensitivity'' of None \<Rightarrow> JStr ''public'' | Some v \<Rightarrow> v) of
                      Inl _ \<Rightarrow> (Inr (gateway_result (ce_command_id c) ''rejected'' current ''invalid_sensitivity''), store, h)
                    | Inr s \<Rightarrow>
                        let decision = authorize token
                          \<lparr>rq_workspace_id = ce_workspace_id c, rq_actor_id = ce_actor_id c, rq_action = ce_command_type c,
                           rq_now = en_now env, rq_object_sensitivity = s\<rparr>
                        in if \<not> allowed decision
                           then (Inr (gateway_result (ce_command_id c) ''rejected'' current (reason_value (reason decision))), store, h)
                           else
                             (case en_handle env h c of
                                (Inl _, h') \<Rightarrow>
                                  (Inr (gateway_result (ce_command_id c) ''retry_later'' current ''handler_unavailable''), store, h')
                              | (Inr result, h') \<Rightarrow>
                                  if rs_status result \<noteq> ''retry_later''
                                  then (Inr result,
                                        dict_set (ce_workspace_id c, ce_idempotency_key c)
                                          \<lparr>request_digest = digest, stored_result = result\<rparr> store, h')
                                  else (Inr result, store, h')))))"

text \<open>
  C25: the handler runs only for an authorised command. If a call changes the handler's state or the
  idempotency store, then the command named the current generation, and the resolved capability
  belongs to this workspace and actor, has not expired, lists the command type and covers the
  sensitivity that the payload declares.
\<close>

theorem command_requires_authority:
  assumes "execute L env (store, h) c = (r, store', h')" and "(store', h') \<noteq> (store, h)"
  shows "ce_expected_generation_id c = en_current_generation env (ce_workspace_id c) \<and>
    map_of store (ce_workspace_id c, ce_idempotency_key c) = None \<and>
    (\<exists>t s. en_resolve env (ce_workspace_id c) (ce_actor_id c) = Some t \<and>
       parse_sensitivity (case map_of (ce_payload c) ''sensitivity'' of None \<Rightarrow> JStr ''public'' | Some v \<Rightarrow> v) = Inr s \<and>
       ct_workspace_id t = ce_workspace_id c \<and> ct_actor_id t = ce_actor_id c \<and> en_now env < ct_expires_at t \<and>
       ce_command_type c \<in> set (ct_actions t) \<and> rank s \<le> rank (ct_max_sensitivity t))"
  using assms
  by (auto simp: execute_def Let_def authorize_allowed_iff split: sum.splits option.splits if_splits prod.splits)

text \<open>A key that is in the store answers for itself from then on, whatever the environment.\<close>

lemma execute_known_key:
  assumes "map_of store (ce_workspace_id c, ce_idempotency_key c) = Some rec"
    and "command_canonical_bytes L c = Inr b"
  shows "execute L env (store, h) c =
    (Inr (if request_digest rec = sha256_hex L b then stored_result rec
          else gateway_result (ce_command_id c) ''rejected'' None ''idempotency_payload_mismatch''), store, h)"
  using assms by (simp add: execute_def)

lemma execute_keeps:
  assumes "execute L env (store, h) c = (r, store', h')" and "map_of store k = Some rec"
  shows "map_of store' k = Some rec"
  using assms by (auto simp: execute_def Let_def split: sum.splits option.splits if_splits prod.splits)

lemma execute_stores:
  assumes "execute L env (store, h) c = (Inr r, store', h')" and "(store', h') \<noteq> (store, h)" and "rs_status r \<noteq> ''retry_later''"
    and "command_canonical_bytes L c = Inr b"
  shows "map_of store' (ce_workspace_id c, ce_idempotency_key c) = Some \<lparr>request_digest = sha256_hex L b, stored_result = r\<rparr>"
  using assms by (auto simp: execute_def Let_def gateway_result_def split: sum.splits option.splits if_splits prod.splits)

fun run_commands ::
    "lib \<Rightarrow> ('h environment \<times> command_envelope) list \<Rightarrow> idempotency_store \<times> 'h \<Rightarrow> idempotency_store \<times> 'h" where
  "run_commands L [] st = st"
| "run_commands L ((env, c) # cs) st = run_commands L cs (snd (execute L env st c))"

lemma run_commands_keep:
  "map_of store k = Some rec \<Longrightarrow> run_commands L cs (store, h) = (store', h') \<Longrightarrow> map_of store' k = Some rec"
proof (induction cs arbitrary: store h)
  case (Cons ec cs)
  obtain env c where ec: "ec = (env, c)" by fastforce
  obtain r s1 h1 where e: "execute L env (store, h) c = (r, s1, h1)" by (metis prod_cases3)
  with Cons ec execute_keeps [OF e Cons.prems(1)] show ?case by auto
qed simp

text \<open>
  C26: at most once. When a call has taken effect with a final result, then after any further
  commands in any environments, repeating it (the same workspace, key and content) returns that same
  result without running the handler, and reusing the key for different content is rejected,
  likewise without running the handler.
\<close>

theorem command_at_most_once:
  assumes "execute L env (store, h) c = (Inr r, store1, h1)" and "(store1, h1) \<noteq> (store, h)"
    and "rs_status r \<noteq> ''retry_later''" and "command_canonical_bytes L c = Inr b"
    and "run_commands L cs (store1, h1) = (store2, h2)"
    and "ce_workspace_id c' = ce_workspace_id c" and "ce_idempotency_key c' = ce_idempotency_key c"
    and "command_canonical_bytes L c' = Inr b'"
  shows "execute L env' (store2, h2) c' =
    (Inr (if sha256_hex L b' = sha256_hex L b then r
          else gateway_result (ce_command_id c') ''rejected'' None ''idempotency_payload_mismatch''), store2, h2)"
proof -
  have "map_of store1 (ce_workspace_id c, ce_idempotency_key c) = Some \<lparr>request_digest = sha256_hex L b, stored_result = r\<rparr>"
    using assms(1-4) by (rule execute_stores)
  then have "map_of store2 (ce_workspace_id c', ce_idempotency_key c') = Some \<lparr>request_digest = sha256_hex L b, stored_result = r\<rparr>"
    using run_commands_keep [OF _ assms(5)] assms(6,7) by simp
  from execute_known_key [OF this assms(8), of env' h2] show ?thesis by (auto simp: eq_commute)
qed

definition demo_token :: capability_token where
  "demo_token = \<lparr>ct_token_id = ''tok'', ct_workspace_id = ''w'', ct_actor_id = ''a'', ct_actions = [''t''],
     ct_max_sensitivity = INTERNAL, ct_expires_at = ''9''\<rparr>"

text \<open>A handler that counts its calls.\<close>

definition demo_env :: "nat environment" where
  "demo_env = \<lparr>en_current_generation = (\<lambda>_. None), en_resolve = (\<lambda>_ _. Some demo_token),
     en_handle = (\<lambda>n c. (Inr (gateway_result (ce_command_id c) ''ok'' None ''none''), n + 1)), en_now = ''5''\<rparr>"

lemma demo_command_bytes: "\<exists>b. command_canonical_bytes demo_lib demo_command = Inr b"
  by (simp add: command_canonical_bytes_def contract_canonical_bytes_def contract.norm_eq command_to_mapping_def pdict_def
      admissible_PDict demo_command_def popt_def)

lemma demo_execute:
  assumes "command_canonical_bytes demo_lib demo_command = Inr b"
  shows "execute demo_lib demo_env ([], 0) demo_command =
    (Inr (gateway_result ''c'' ''ok'' None ''none''),
     [((''w'', ''k''), \<lparr>request_digest = sha256_hex demo_lib b, stored_result = gateway_result ''c'' ''ok'' None ''none''\<rparr>)], 1)"
  using assms
  by (simp add: execute_def demo_env_def demo_command_def demo_token_def authorize_def parse_sensitivity_def
      gateway_result_def Let_def)

theorem command_requires_authority_witness:
  "\<exists>r store h. execute demo_lib demo_env ([], 0) demo_command = (r, store, h) \<and> (store, h) \<noteq> ([], 0) \<and>
     (\<exists>t. en_resolve demo_env ''w'' ''a'' = Some t \<and> ''t'' \<in> set (ct_actions t))"
proof -
  obtain b where "command_canonical_bytes demo_lib demo_command = Inr b" using demo_command_bytes ..
  note e = demo_execute [OF this]
  from command_requires_authority [OF e] e show ?thesis by (auto simp: demo_command_def)
qed

theorem command_at_most_once_witness:
  "\<exists>r store h. execute demo_lib demo_env ([], 0) demo_command = (Inr r, store, h) \<and>
     execute demo_lib demo_env (store, h) demo_command = (Inr r, store, h)"
proof -
  obtain b where b: "command_canonical_bytes demo_lib demo_command = Inr b" using demo_command_bytes ..
  note e = demo_execute [OF b]
  from command_at_most_once [OF e _ _ b _ refl refl b, of "[]", where env' = demo_env] e show ?thesis
    by (auto simp: gateway_result_def)
qed

subsection \<open>The query gateway\<close>

record memory_record =
  mr_object_id :: string
  mr_workspace_id :: string
  mr_sensitivity :: sensitivity
  mr_lifecycle_status :: string
  mr_data :: "(string, json) dict"

record query_batch =
  qb_generation_id :: string
  qb_records :: "memory_record list"

record query_environment =
  qn_resolve :: "string \<Rightarrow> string \<Rightarrow> capability_token option"
  qn_read :: "query_envelope \<Rightarrow> bool \<Rightarrow> query_batch res"
  qn_lifecycle_status_at :: "string \<Rightarrow> string \<Rightarrow> string \<Rightarrow> string option"
  qn_now :: string

definition visible_record :: "query_environment \<Rightarrow> capability_token \<Rightarrow> query_envelope \<Rightarrow> memory_record \<Rightarrow> bool" where
  "visible_record env t q m \<longleftrightarrow>
     mr_workspace_id m = qe_workspace_id q \<and>
     qn_lifecycle_status_at env (qe_workspace_id q) (mr_object_id m) (qe_as_of_generation_id q) \<in> {Some ''active'', Some ''accepted''} \<and>
     allowed (authorize t \<lparr>rq_workspace_id = qe_workspace_id q, rq_actor_id = qe_actor_id q, rq_action = qe_query_type q,
       rq_now = qn_now env, rq_object_sensitivity = mr_sensitivity m\<rparr>)"

definition shown :: "query_environment \<Rightarrow> query_envelope \<Rightarrow> memory_record \<Rightarrow> json" where
  "shown env q m = JObj
     [(''object_id'', JStr (mr_object_id m)), (''sensitivity'', JStr (sensitivity_value (mr_sensitivity m))),
      (''lifecycle_status'', JStr (the (qn_lifecycle_status_at env (qe_workspace_id q) (mr_object_id m) (qe_as_of_generation_id q)))),
      (''data'', JObj (mr_data m))]"

definition query_result :: "query_envelope \<Rightarrow> string \<Rightarrow> (string, json) dict \<Rightarrow> string option \<Rightarrow> core_result" where
  "query_result q st res code =
     \<lparr>rs_contract_version = CONTRACT_VERSION, rs_request_id = qe_query_id q, rs_status = st,
      rs_generation_id = Some (qe_as_of_generation_id q), rs_result = res, rs_error_code = code\<rparr>"

definition gateway_query :: "query_environment \<Rightarrow> query_envelope \<Rightarrow> core_result" where
  "gateway_query env q =
     (case qn_resolve env (qe_workspace_id q) (qe_actor_id q) of
        None \<Rightarrow> query_result q ''rejected'' [] (Some ''capability_missing'')
      | Some token \<Rightarrow>
          let use_projection = (qe_consistency q = ''projection_ok'') in
          (case qn_read env q use_projection of
             Inl _ \<Rightarrow> query_result q ''retry_later'' [] (Some ''query_backend_unavailable'')
           | Inr batch \<Rightarrow>
               let is_stale = (qb_generation_id batch \<noteq> qe_as_of_generation_id q) in
               if is_stale \<and> \<not> use_projection
               then query_result q ''retry_later'' [] (Some ''authoritative_generation_mismatch'')
               else query_result q ''ok''
                 [(''records'', JList (map (shown env q) (filter (visible_record env token q) (qb_records batch)))),
                  (''stale'', JBool is_stale), (''source_generation_id'', JStr (qb_generation_id batch)),
                  (''as_of_generation_id'', JStr (qe_as_of_generation_id q))] None))"

text \<open>
  What the contract promises, without the gateway: who may see a record, and what an entry of the
  answer says of it.
\<close>

definition may_see :: "query_environment \<Rightarrow> query_envelope \<Rightarrow> memory_record \<Rightarrow> bool" where
  "may_see env q m \<longleftrightarrow>
     (\<exists>t. qn_resolve env (qe_workspace_id q) (qe_actor_id q) = Some t \<and>
        ct_workspace_id t = qe_workspace_id q \<and> ct_actor_id t = qe_actor_id q \<and> qn_now env < ct_expires_at t \<and>
        qe_query_type q \<in> set (ct_actions t) \<and> rank (mr_sensitivity m) \<le> rank (ct_max_sensitivity t)) \<and>
     mr_workspace_id m = qe_workspace_id q \<and>
     (\<exists>st\<in>{''active'', ''accepted''}. qn_lifecycle_status_at env (qe_workspace_id q) (mr_object_id m) (qe_as_of_generation_id q) = Some st)"

definition entry_of :: "query_environment \<Rightarrow> query_envelope \<Rightarrow> json \<Rightarrow> memory_record \<Rightarrow> bool" where
  "entry_of env q j m \<longleftrightarrow>
     (\<exists>kvs st. j = JObj kvs \<and> set (map fst kvs) = {''object_id'', ''sensitivity'', ''lifecycle_status'', ''data''} \<and>
        map_of kvs ''object_id'' = Some (JStr (mr_object_id m)) \<and>
        map_of kvs ''sensitivity'' = Some (JStr (sensitivity_value (mr_sensitivity m))) \<and>
        map_of kvs ''data'' = Some (JObj (mr_data m)) \<and> map_of kvs ''lifecycle_status'' = Some (JStr st) \<and>
        qn_lifecycle_status_at env (qe_workspace_id q) (mr_object_id m) (qe_as_of_generation_id q) = Some st)"

lemma visible_may_see:
  "qn_resolve env (qe_workspace_id q) (qe_actor_id q) = Some t \<Longrightarrow> visible_record env t q m \<longleftrightarrow> may_see env q m"
  by (auto simp: visible_record_def may_see_def authorize_allowed_iff)

lemma shown_entry: "may_see env q m \<Longrightarrow> entry_of env q (shown env q m) m"
  by (auto simp: may_see_def entry_of_def shown_def)

text \<open>
  C27: the query gateway shows exactly what may be seen. It answers \<open>ok\<close> exactly when a capability is
  resolved for the caller and the backend can be read, at the pinned generation unless the caller
  accepts a projection; any other answer has an error code and no content. The records of an answer
  are, in the backend's order and none left out, those of the queried workspace that are active or
  accepted at the pinned generation and that the caller's live capability covers, action and
  sensitivity included; each entry carries the identifier, sensitivity and data of its record and
  the status at the pinned generation, and nothing else.
\<close>

theorem query_shows_only_authorised:
  "let r = gateway_query env q; read = qn_read env q (qe_consistency q = ''projection_ok'') in
   (rs_status r = ''ok'' \<longleftrightarrow> qn_resolve env (qe_workspace_id q) (qe_actor_id q) \<noteq> None \<and>
      (\<exists>batch. read = Inr batch \<and> (qe_consistency q = ''projection_ok'' \<or> qb_generation_id batch = qe_as_of_generation_id q))) \<and>
   (rs_status r \<noteq> ''ok'' \<longrightarrow> rs_result r = [] \<and> rs_error_code r \<noteq> None) \<and>
   (\<forall>batch. rs_status r = ''ok'' \<and> read = Inr batch \<longrightarrow>
      (\<exists>js. map_of (rs_result r) ''records'' = Some (JList js) \<and>
         list_all2 (entry_of env q) js (filter (may_see env q) (qb_records batch)) \<and>
         map_of (rs_result r) ''stale'' = Some (JBool (qb_generation_id batch \<noteq> qe_as_of_generation_id q)) \<and>
         map_of (rs_result r) ''source_generation_id'' = Some (JStr (qb_generation_id batch))))"
proof (cases "qn_resolve env (qe_workspace_id q) (qe_actor_id q)")
  case None
  then show ?thesis by (simp add: gateway_query_def query_result_def Let_def)
next
  case (Some t)
  have f: "filter (visible_record env t q) ms = filter (may_see env q) ms" for ms
    by (rule filter_cong) (simp_all add: visible_may_see [OF Some])
  have l: "list_all2 (entry_of env q) (map (shown env q) (filter (may_see env q) ms)) (filter (may_see env q) ms)" for ms
    unfolding list_all2_map1 by (rule list.rel_refl_strong) (simp add: shown_entry)
  show ?thesis
    using Some l by (auto simp: gateway_query_def query_result_def Let_def f split: sum.splits)
qed

definition demo_query_env :: query_environment where
  "demo_query_env = \<lparr>qn_resolve = (\<lambda>_ _. Some demo_token),
     qn_read = (\<lambda>_ _. Inr \<lparr>qb_generation_id = ''g'', qb_records =
        [\<lparr>mr_object_id = ''o'', mr_workspace_id = ''w'', mr_sensitivity = PUBLIC, mr_lifecycle_status = ''active'', mr_data = []\<rparr>,
         \<lparr>mr_object_id = ''p'', mr_workspace_id = ''w'', mr_sensitivity = PRIVATE, mr_lifecycle_status = ''active'', mr_data = []\<rparr>]\<rparr>),
     qn_lifecycle_status_at = (\<lambda>_ _ _. Some ''active''), qn_now = ''5''\<rparr>"

definition demo_query :: query_envelope where
  "demo_query = \<lparr>qe_contract_version = CONTRACT_VERSION, qe_query_id = ''q'', qe_workspace_id = ''w'', qe_actor_id = ''a'',
     qe_query_type = ''t'', qe_as_of_generation_id = ''g'', qe_consistency = ''authoritative'', qe_parameters = []\<rparr>"

theorem query_shows_only_authorised_witness:
  "\<exists>js. map_of (rs_result (gateway_query demo_query_env demo_query)) ''records'' = Some (JList js) \<and>
     list_all2 (entry_of demo_query_env demo_query) js
       [\<lparr>mr_object_id = ''o'', mr_workspace_id = ''w'', mr_sensitivity = PUBLIC, mr_lifecycle_status = ''active'', mr_data = []\<rparr>]"
proof -
  let ?o = "\<lparr>mr_object_id = ''o'', mr_workspace_id = ''w'', mr_sensitivity = PUBLIC, mr_lifecycle_status = ''active'', mr_data = []\<rparr>"
  let ?p = "\<lparr>mr_object_id = ''p'', mr_workspace_id = ''w'', mr_sensitivity = PRIVATE, mr_lifecycle_status = ''active'', mr_data = []\<rparr>"
  have "qn_read demo_query_env demo_query False = Inr \<lparr>qb_generation_id = ''g'', qb_records = [?o, ?p]\<rparr>"
    "qe_consistency demo_query \<noteq> ''projection_ok''" "rs_status (gateway_query demo_query_env demo_query) = ''ok''"
    by (simp_all add: gateway_query_def demo_query_env_def demo_query_def query_result_def Let_def)
  moreover have "filter (may_see demo_query_env demo_query) [?o, ?p] = [?o]"
    by (simp add: may_see_def demo_query_env_def demo_query_def demo_token_def)
  ultimately show ?thesis
    using query_shows_only_authorised [of demo_query_env demo_query] unfolding Let_def by force
qed

end
