(* ===== verification/Assembler.thy ===== *)
theory Assembler
  imports Contracts
begin

text \<open>
  \<open>assembler.py\<close>: wiki pages, the citation index and the knowledge snapshot. The snapshot is read
  back by \<open>parse_snapshot\<close>; a document whose fields do not have the types of the claim records is
  refused here with \<open>TypeError\<close> (the code would carry the ill-typed value along).

  The results: rendered text carries no raw HTML and no unescaped Markdown marker from the source;
  pages, citations and the snapshot determine each other: parsing a snapshot gives back the claims,
  and the pages and the citation index rebuilt from it are the original ones.
\<close>

subsection \<open>Pages\<close>

definition is_slug_char :: "char \<Rightarrow> bool" where
  "is_slug_char c \<longleftrightarrow> 97 \<le> (of_char c :: nat) \<and> (of_char c :: nat) \<le> 122 \<or> is_digit c"

text \<open>\<open>re.sub("[^a-z0-9]+", "-", s)\<close>; the flag says that the last character belonged to a replaced run.\<close>

fun slug_sub :: "bool \<Rightarrow> string \<Rightarrow> string" where
  "slug_sub b [] = []"
| "slug_sub b (c # cs) =
     (if is_slug_char c then c # slug_sub False cs
      else if b then slug_sub True cs else CHR ''-'' # slug_sub True cs)"

definition strip_char :: "char \<Rightarrow> string \<Rightarrow> string" where
  "strip_char d s = rev (dropWhile (\<lambda>c. c = d) (rev (dropWhile (\<lambda>c. c = d) s)))"

definition slug :: "lib \<Rightarrow> string \<Rightarrow> string" where
  "slug L s = strip_char CHR ''-'' (slug_sub False (lower L s))"

definition page_path :: "lib \<Rightarrow> string \<Rightarrow> string" where
  "page_path L subject =
     (let sl = slug L subject; suffix = take 12 (sha256_hex L subject);
          stem = (if sl \<noteq> [] then sl @ ''--'' @ suffix else ''entity--'' @ suffix)
      in ''wiki/'' @ stem @ ''.md'')"

definition MD_UNSAFE :: "char list" where
  "MD_UNSAFE = [CHR 0x5C, CHR 0x60, CHR ''*'', CHR ''_'', CHR ''{'', CHR ''}'', CHR ''['', CHR '']'', CHR ''('', CHR '')'',
     CHR ''#'', CHR ''+'', CHR ''-'', CHR ''!'', CHR ''<'', CHR ''>'', CHR ''|'']"

definition sanitize :: "string \<Rightarrow> string" where
  "sanitize s =
     (let t = str_replace ''>'' ''&gt;'' (str_replace ''<'' ''&lt;'' (str_replace ''&'' ''&amp;'' s))
      in concat (map (\<lambda>c. if c \<in> set MD_UNSAFE then [CHR 0x5C, c] else [c]) t))"

definition by_subject :: "compiled_claim list \<Rightarrow> (string, (string, compiled_claim) dict) dict" where
  "by_subject accepted =
     fold (\<lambda>c d. let su = subject_id (identity c);
                     inner = (case map_of d su of None \<Rightarrow> [] | Some x \<Rightarrow> x)
                 in dict_set su (dict_set (claim_id (identity c)) c inner) d) accepted []"

definition claim_line :: "string \<Rightarrow> string \<times> compiled_claim \<Rightarrow> string" where
  "claim_line subject kc =
     (let (cid, c) = kc; neg = (if polarity (identity c) = ''positive'' then [] else ''does not '')
      in ''- '' @ sanitize subject @ '' '' @ neg @ sanitize (predicate_id (identity c)) @ '' '' @
         sanitize (obj (identity c)) @ '' ['' @ take 12 cid @ '']'')"

definition page_text :: "string \<Rightarrow> (string, compiled_claim) dict \<Rightarrow> bytes" where
  "page_text subject cs =
     join [CHR 0x0A] ([''# '' @ sanitize subject, []] @ map (claim_line subject) (sort_key fst cs)) @ [CHR 0x0A]"

definition render_pages :: "lib \<Rightarrow> compiled_claim list \<Rightarrow> (string, bytes) dict" where
  "render_pages L accepted =
     fold (\<lambda>(subject, cs). dict_set (page_path L subject) (page_text subject cs))
       (sort_key fst (by_subject accepted)) []"

subsection \<open>Citation index\<close>

definition citation_entry :: "compiled_claim \<Rightarrow> pyval" where
  "citation_entry c = pdict
     [(''assertion_id'', PStr (assertion_id (assertion c))), (''source_id'', PStr (a_source_id (assertion c))),
      (''evidence_id'', PStr (evidence_id (evidence c))), (''locators'', PList (map pstr_dict (locators (evidence c))))]"

text \<open>\<open>idx.setdefault(claim_id, []).append(entry)\<close>; the entries carry their assertion id to be sorted by.\<close>

definition citation_groups :: "compiled_claim list \<Rightarrow> (string, (string \<times> pyval) list) dict" where
  "citation_groups accepted =
     fold (\<lambda>c d. let k = claim_id (identity c); old = (case map_of d k of None \<Rightarrow> [] | Some x \<Rightarrow> x)
                 in dict_set k (old @ [(assertion_id (assertion c), citation_entry c)]) d) accepted []"

definition build_citation_index :: "lib \<Rightarrow> compiled_claim list \<Rightarrow> bytes res" where
  "build_citation_index L accepted =
     (let idx = map (\<lambda>(k, v). (k, PList (map snd (sort_key fst v)))) (sort_key fst (citation_groups accepted))
      in canonical_bytes L (pdict [(''claims'', pdict idx)]))"

subsection \<open>Snapshot\<close>

definition claim_to_record :: "compiled_claim \<Rightarrow> pyval" where
  "claim_to_record c = pdict
     [(''identity'', pdict
        [(''claim_id'', PStr (claim_id (identity c))), (''subject_id'', PStr (subject_id (identity c))),
         (''predicate_id'', PStr (predicate_id (identity c))), (''object'', PStr (obj (identity c))),
         (''polarity'', PStr (polarity (identity c))), (''scope'', pstr_dict (scope (identity c)))]),
      (''assertion'', pdict
        [(''assertion_id'', PStr (assertion_id (assertion c))), (''claim_id'', PStr (a_claim_id (assertion c))),
         (''source_id'', PStr (a_source_id (assertion c))), (''evidence_ids'', PList (map PStr (evidence_ids (assertion c)))),
         (''modality'', PStr (modality (assertion c)))]),
      (''evidence'', pdict
        [(''evidence_id'', PStr (evidence_id (evidence c))),
         (''source_object_hash'', PStr (source_object_hash (evidence c))),
         (''representation_hash'', PStr (representation_hash (evidence c))),
         (''quote_hash'', PStr (quote_hash (evidence c))),
         (''locators'', PList (map pstr_dict (locators (evidence c))))])]"

text \<open>\<open>j[k]\<close> on a JSON value, and the conversions of its result.\<close>

definition jindex :: "json \<Rightarrow> string \<Rightarrow> json res" where
  "jindex j k = (case j of JObj kvs \<Rightarrow> (case map_of kvs k of None \<Rightarrow> Inl KeyError | Some v \<Rightarrow> Inr v) | _ \<Rightarrow> Inl TypeError)"

definition as_str :: "json \<Rightarrow> string res" where
  "as_str j = (case j of JStr s \<Rightarrow> Inr s | _ \<Rightarrow> Inl TypeError)"

definition jstr :: "json \<Rightarrow> string \<Rightarrow> string res" where
  "jstr j k = bindR (jindex j k) as_str"

definition as_list :: "json \<Rightarrow> json list res" where
  "as_list j = (case j of JList xs \<Rightarrow> Inr xs | _ \<Rightarrow> Inl TypeError)"

definition as_str_dict :: "json \<Rightarrow> (string, string) dict res" where
  "as_str_dict j = (case j of JObj kvs \<Rightarrow> mapR (\<lambda>(k, v). bindR (as_str v) (\<lambda>s. Inr (k, s))) kvs | _ \<Rightarrow> Inl TypeError)"

text \<open>\<open>dict(i.get("scope") or {})\<close>.\<close>

definition scope_of :: "json \<Rightarrow> (string, string) dict res" where
  "scope_of i =
     (case jget i ''scope'' of
        None \<Rightarrow> Inr []
      | Some v \<Rightarrow> if v \<in> {JNull, JBool False, JStr [], JList [], JObj []} then Inr [] else as_str_dict v)"

definition identity_from :: "json \<Rightarrow> claim_identity res" where
  "identity_from i =
     bindR (jstr i ''claim_id'') (\<lambda>cid. bindR (jstr i ''subject_id'') (\<lambda>su. bindR (jstr i ''predicate_id'') (\<lambda>pr.
     bindR (jstr i ''object'') (\<lambda>ob. bindR (jstr i ''polarity'') (\<lambda>pol. bindR (scope_of i) (\<lambda>sc.
     Inr \<lparr>claim_id = cid, subject_id = su, predicate_id = pr, obj = ob, polarity = pol, scope = sc\<rparr>))))))"

definition evidence_from :: "json \<Rightarrow> evidence res" where
  "evidence_from e =
     bindR (jstr e ''evidence_id'') (\<lambda>eid. bindR (jstr e ''source_object_hash'') (\<lambda>so.
     bindR (jstr e ''representation_hash'') (\<lambda>rh. bindR (jstr e ''quote_hash'') (\<lambda>qh.
     bindR (bindR (jindex e ''locators'') as_list) (\<lambda>ls. bindR (mapR as_str_dict ls) (\<lambda>locs.
     Inr \<lparr>evidence_id = eid, source_object_hash = so, representation_hash = rh, quote_hash = qh, locators = locs\<rparr>))))))"

definition assertion_from :: "json \<Rightarrow> claim_assertion res" where
  "assertion_from a =
     bindR (jstr a ''assertion_id'') (\<lambda>aid. bindR (jstr a ''claim_id'') (\<lambda>cid. bindR (jstr a ''source_id'') (\<lambda>sid.
     bindR (bindR (jindex a ''evidence_ids'') as_list) (\<lambda>es. bindR (mapR as_str es) (\<lambda>eids. bindR (jstr a ''modality'') (\<lambda>m.
     Inr \<lparr>assertion_id = aid, a_claim_id = cid, a_source_id = sid, evidence_ids = eids, modality = m\<rparr>))))))"

definition claim_from_record :: "lib \<Rightarrow> json \<Rightarrow> compiled_claim res" where
  "claim_from_record L r =
     bindR (jindex r ''identity'') (\<lambda>i. bindR (jindex r ''assertion'') (\<lambda>a. bindR (jindex r ''evidence'') (\<lambda>e.
     bindR (identity_from i) (\<lambda>idn.
     bindR (create_identity L (subject_id idn) (predicate_id idn) (obj idn) (polarity idn) (scope idn)) (\<lambda>expected.
     if claim_id expected \<noteq> claim_id idn then Inl ValueError
     else
       bindR (evidence_from e) (\<lambda>ev.
       bindR (assertion_from a) (\<lambda>asn.
       if a_claim_id asn \<noteq> claim_id idn then Inl ValueError
       else if evidence_id ev \<notin> set (evidence_ids asn) then Inl ValueError
       else Inr \<lparr>identity = idn, assertion = asn, evidence = ev\<rparr>)))))))"

definition snapshot_value :: "compiled_claim list \<Rightarrow> pyval" where
  "snapshot_value accepted = pdict
     [(''schema_version'', PStr ''2''),
      (''accepted_claims'', PList (map claim_to_record (sort_key (assertion_id \<circ> assertion) accepted)))]"

definition build_snapshot :: "lib \<Rightarrow> compiled_claim list \<Rightarrow> bytes res" where
  "build_snapshot L accepted = canonical_bytes L (snapshot_value accepted)"

definition parse_snapshot :: "lib \<Rightarrow> bytes \<Rightarrow> compiled_claim list res" where
  "parse_snapshot L data =
     (case loads data of
        None \<Rightarrow> Inl JSONDecodeError
      | Some (JObj kvs) \<Rightarrow>
          (case (map_of kvs ''schema_version'', map_of kvs ''accepted_claims'') of
             (Some (JStr v), Some (JList rs)) \<Rightarrow> if v = ''2'' then mapR (claim_from_record L) rs else Inl ValueError
           | _ \<Rightarrow> Inl ValueError)
      | Some _ \<Rightarrow> Inl AttributeError)"

definition wiki_files_root :: "lib \<Rightarrow> (string, bytes) dict \<Rightarrow> string res" where
  "wiki_files_root L pages = canonical_hash L (pdict (map (\<lambda>(path, data). (path, PStr (sha256_hex L data))) pages))"

subsection \<open>Escaping\<close>

text \<open>A text in which every Markdown marker stands behind a backslash of its own.\<close>

fun escaped :: "string \<Rightarrow> bool" where
  "escaped [] = True"
| "escaped (c # cs) =
     (if c = CHR 0x5C then (case cs of [] \<Rightarrow> False | d # ds \<Rightarrow> d \<in> set MD_UNSAFE \<and> escaped ds)
      else c \<notin> set MD_UNSAFE \<and> escaped cs)"

definition escape_char :: "char \<Rightarrow> string" where
  "escape_char c =
     (if c = CHR ''&'' then ''&amp;'' else if c = CHR ''<'' then ''&lt;'' else if c = CHR ''>'' then ''&gt;''
      else if c \<in> set MD_UNSAFE then [CHR 0x5C, c] else [c])"

lemma concat_map_concat: "concat (map f (concat xss)) = concat (map (\<lambda>xs. concat (map f xs)) xss)"
  by (induction xss) simp_all

lemma sanitize_chars: "sanitize s = concat (map escape_char s)"
  unfolding sanitize_def str_replace_char Let_def concat_map_concat map_map comp_def
  by (intro arg_cong [of _ _ concat] map_cong refl) (simp add: escape_char_def MD_UNSAFE_def)

lemma escaped_escape_char: "escaped (escape_char c @ t) \<longleftrightarrow> escaped t"
  by (simp add: escape_char_def) (simp add: MD_UNSAFE_def)

lemma escape_char_no_html: "CHR ''<'' \<notin> set (escape_char c)" "CHR ''>'' \<notin> set (escape_char c)"
  by (simp_all add: escape_char_def)

lemma escape_char_prefix_free: "escape_char c @ t = escape_char d @ u \<Longrightarrow> c = d \<and> t = u"
  by (auto simp: escape_char_def MD_UNSAFE_def split: if_split_asm)

lemma sanitize_inject: "concat (map escape_char s) = concat (map escape_char t) \<Longrightarrow> s = t"
proof (induction s arbitrary: t)
  case Nil
  then show ?case by (cases t) (auto simp: escape_char_def split: if_split_asm)
next
  case (Cons c s)
  show ?case
  proof (cases t)
    case Nil
    with Cons.prems show ?thesis by (auto simp: escape_char_def split: if_split_asm)
  next
    case (Cons d u)
    with Cons.prems Cons.IH show ?thesis using escape_char_prefix_free by fastforce
  qed
qed

text \<open>
  text taken from a source cannot inject markup into a page. The sanitised text contains no
  angle bracket, every character that Markdown could interpret stands behind a backslash of its
  own, and the escaping loses nothing: different texts stay different.
\<close>

theorem sanitize_safe:
  "escaped (sanitize s) \<and> CHR ''<'' \<notin> set (sanitize s) \<and> CHR ''>'' \<notin> set (sanitize s) \<and>
   (sanitize s = sanitize t \<longleftrightarrow> s = t)"
proof (intro conjI)
  show "escaped (sanitize s)"
    unfolding sanitize_chars by (induction s) (simp_all add: escaped_escape_char del: escaped.simps(2))
  show "CHR ''<'' \<notin> set (sanitize s)" "CHR ''>'' \<notin> set (sanitize s)"
    unfolding sanitize_chars by (simp_all add: escape_char_no_html)
  show "sanitize s = sanitize t \<longleftrightarrow> s = t"
    unfolding sanitize_chars using sanitize_inject by blast
qed

subsection \<open>Canonical documents\<close>

lemma normal_jwf: "normal L j \<Longrightarrow> jwf j"
  using canonical_form_wf [of L True "json_py j"] by (simp add: admissible_json_py canonical_form_json_py)

lemma canonical_bytes_json: "normal L j \<Longrightarrow> canonical_bytes L (json_py j) = Inr (dumps_sorted j)"
  by (simp add: canonical_bytes_def canon.norm_eq admissible_json_py canonical_form_json_py)

lemma canonical_hash_json: "normal L j \<Longrightarrow> canonical_hash L (json_py j) = Inr (sha256_hex L (dumps_sorted j))"
  by (simp add: canonical_hash_def canonical_bytes_json)

lemma loads_canonical: "normal L j \<Longrightarrow> loads (dumps_sorted j) = Some (sort_keys j)"
  by (simp add: loads_dumps_sorted normal_jwf)

lemma json_py_pdict: "pdict (map (\<lambda>(k, v). (k, json_py v)) kvs) = json_py (JObj kvs)"
  by (simp add: pdict_def split_beta)

definition str_json :: "(string, string) dict \<Rightarrow> json" where
  "str_json d = JObj (map (\<lambda>(k, v). (k, JStr v)) d)"

lemma pstr_dict_json: "pstr_dict d = json_py (str_json d)"
  by (simp add: pstr_dict_def str_json_def split_beta)

lemma sort_keys_str_json: "sort_keys (str_json d) = str_json (sort_key fst d)"
proof -
  have "fst \<circ> (\<lambda>(k :: string, v :: string). (k, JStr v)) = fst" by auto
  then show ?thesis
    by (simp add: str_json_def sort_keys_strings [of "\<lambda>k. k" "\<lambda>v. v"] sort_key_map del: sort_keys.simps)
qed

lemma as_str_dict_json: "as_str_dict (str_json d) = Inr d"
  by (simp add: as_str_dict_def str_json_def) (induction d; auto simp: as_str_def)

lemma jindex_sort_keys: "jwf j \<Longrightarrow> jget j k = Some v \<Longrightarrow> jindex (sort_keys j) k = Inr (sort_keys v)"
  using jget_sort_keys [of j k] by (auto simp: jindex_def jget_def split: json.splits option.splits)

lemma jstr_sort_keys: "jwf j \<Longrightarrow> jget j k = Some (JStr s) \<Longrightarrow> jstr (sort_keys j) k = Inr s"
  by (simp add: jstr_def jindex_sort_keys as_str_def)

subsection \<open>The snapshot\<close>

definition identity_json :: "claim_identity \<Rightarrow> json" where
  "identity_json i = JObj
     [(''claim_id'', JStr (claim_id i)), (''subject_id'', JStr (subject_id i)),
      (''predicate_id'', JStr (predicate_id i)), (''object'', JStr (obj i)),
      (''polarity'', JStr (polarity i)), (''scope'', str_json (scope i))]"

definition assertion_json :: "claim_assertion \<Rightarrow> json" where
  "assertion_json a = JObj
     [(''assertion_id'', JStr (assertion_id a)), (''claim_id'', JStr (a_claim_id a)),
      (''source_id'', JStr (a_source_id a)), (''evidence_ids'', JList (map JStr (evidence_ids a))),
      (''modality'', JStr (modality a))]"

definition evidence_json :: "evidence \<Rightarrow> json" where
  "evidence_json e = JObj
     [(''evidence_id'', JStr (evidence_id e)), (''source_object_hash'', JStr (source_object_hash e)),
      (''representation_hash'', JStr (representation_hash e)), (''quote_hash'', JStr (quote_hash e)),
      (''locators'', JList (map str_json (locators e)))]"

definition claim_json :: "compiled_claim \<Rightarrow> json" where
  "claim_json c = JObj [(''identity'', identity_json (identity c)), (''assertion'', assertion_json (assertion c)),
     (''evidence'', evidence_json (evidence c))]"

definition snapshot_json :: "compiled_claim list \<Rightarrow> json" where
  "snapshot_json cs = JObj [(''schema_version'', JStr ''2''), (''accepted_claims'', JList (map claim_json cs))]"

lemma claim_to_record_json: "claim_to_record c = json_py (claim_json c)"
  by (simp add: claim_to_record_def claim_json_def identity_json_def assertion_json_def evidence_json_def pdict_def
      pstr_dict_json)

lemma snapshot_value_json: "snapshot_value cs = json_py (snapshot_json (sort_key (assertion_id \<circ> assertion) cs))"
  by (simp add: snapshot_value_def snapshot_json_def pdict_def claim_to_record_json)

text \<open>
  The claims that the extractors produce: the id is the hash of the identity, assertion and
  evidence are bound to it, and every text is in normal form.
\<close>

definition good_claim :: "lib \<Rightarrow> compiled_claim \<Rightarrow> bool" where
  "good_claim L c \<longleftrightarrow>
     (let i = identity c in compute_claim_id L (subject_id i) (predicate_id i) (obj i) (polarity i) (scope i) = Inr (claim_id i)) \<and>
     a_claim_id (assertion c) = claim_id (identity c) \<and>
     evidence_id (evidence c) \<in> set (evidence_ids (assertion c)) \<and>
     normal L (claim_json c)"

text \<open>What the document keeps of a claim: everything but the order of the keys in its dictionaries.\<close>

definition sort_claim :: "compiled_claim \<Rightarrow> compiled_claim" where
  "sort_claim c = c
     \<lparr>identity := (identity c)\<lparr>scope := sort_key fst (scope (identity c))\<rparr>,
      evidence := (evidence c)\<lparr>locators := map (sort_key fst) (locators (evidence c))\<rparr>\<rparr>"

lemma compute_claim_id_scope_order:
  "compute_claim_id L s p ob pol (sort_key fst sc) = compute_claim_id L s p ob pol sc"
proof -
  let ?d = "\<lambda>sc. map (\<lambda>(k, v). (PStr k, PStr v)) sc"
  have m: "mset (?d (sort_key fst sc)) = mset (?d sc)" by simp
  have adm: "admissible L True (pstr_dict (sort_key fst sc)) = admissible L True (pstr_dict sc)"
    unfolding pstr_dict_def by (rule admissible_PDict_perm [OF m])
  have form: "sort_keys (canonical_form_of L (pstr_dict (sort_key fst sc))) = sort_keys (canonical_form_of L (pstr_dict sc))"
    if "admissible L True (pstr_dict sc)"
    using canonical_form_perm [of L True "?d sc" "?d (sort_key fst sc)"] that m by (simp add: pstr_dict_def)
  have adm_payload: "admissible L True (claim_payload s p ob pol sc') \<longleftrightarrow>
      admissible L True (pstr_dict sc') \<and> distinct (map (nfc L) [''identity_schema_version'', ''canonical_subject_id'',
        ''predicate_id'', ''canonical_object'', ''polarity'', ''normalized_scope''])" for sc'
    by (simp add: claim_payload_def pdict_def admissible_PDict)
  have "dumps_sorted (canonical_form_of L (claim_payload s p ob pol (sort_key fst sc))) =
        dumps_sorted (canonical_form_of L (claim_payload s p ob pol sc))" if "admissible L True (pstr_dict sc)"
    unfolding dumps_sorted_def claim_payload_def canonical_form_pdict
    by (rule arg_cong [of _ _ dumps], rule sort_keys_JObj_cong) (simp add: form [OF that])
  then have "canonical_bytes L (claim_payload s p ob pol (sort_key fst sc)) = canonical_bytes L (claim_payload s p ob pol sc)"
    by (simp add: canonical_bytes_def canon.norm_eq adm_payload adm del: distinct.simps list.map)
  then show ?thesis by (simp only: compute_claim_id_def canonical_hash_def)
qed

lemma good_claim_parts:
  assumes "good_claim L c"
  shows "jwf (claim_json c)" "jwf (identity_json (identity c))" "jwf (assertion_json (assertion c))"
    "jwf (evidence_json (evidence c))"
  using normal_jwf [of L "claim_json c"] assms by (simp_all add: good_claim_def claim_json_def)

lemma claim_json_get:
  "jget (claim_json c) ''identity'' = Some (identity_json (identity c))"
  "jget (claim_json c) ''assertion'' = Some (assertion_json (assertion c))"
  "jget (claim_json c) ''evidence'' = Some (evidence_json (evidence c))"
  "jget (identity_json i) ''claim_id'' = Some (JStr (claim_id i))"
  "jget (identity_json i) ''subject_id'' = Some (JStr (subject_id i))"
  "jget (identity_json i) ''predicate_id'' = Some (JStr (predicate_id i))"
  "jget (identity_json i) ''object'' = Some (JStr (obj i))"
  "jget (identity_json i) ''polarity'' = Some (JStr (polarity i))"
  "jget (identity_json i) ''scope'' = Some (str_json (scope i))"
  "jget (assertion_json a) ''assertion_id'' = Some (JStr (assertion_id a))"
  "jget (assertion_json a) ''claim_id'' = Some (JStr (a_claim_id a))"
  "jget (assertion_json a) ''source_id'' = Some (JStr (a_source_id a))"
  "jget (assertion_json a) ''evidence_ids'' = Some (JList (map JStr (evidence_ids a)))"
  "jget (assertion_json a) ''modality'' = Some (JStr (modality a))"
  "jget (evidence_json e) ''evidence_id'' = Some (JStr (evidence_id e))"
  "jget (evidence_json e) ''source_object_hash'' = Some (JStr (source_object_hash e))"
  "jget (evidence_json e) ''representation_hash'' = Some (JStr (representation_hash e))"
  "jget (evidence_json e) ''quote_hash'' = Some (JStr (quote_hash e))"
  "jget (evidence_json e) ''locators'' = Some (JList (map str_json (locators e)))"
  by (simp_all add: jget_def claim_json_def identity_json_def assertion_json_def evidence_json_def)

lemma identity_from_json:
  assumes "jwf (identity_json i)"
  shows "identity_from (sort_keys (identity_json i)) = Inr (i\<lparr>scope := sort_key fst (scope i)\<rparr>)"
proof -
  have "scope_of (sort_keys (identity_json i)) = Inr (sort_key fst (scope i))"
  proof (cases "scope i")
    case Nil
    then show ?thesis
      by (simp add: scope_of_def jget_sort_keys [OF assms] claim_json_get sort_keys_str_json) (simp add: str_json_def)
  next
    case (Cons a d)
    then have "sort_key fst (scope i) \<noteq> []" by (metis list.distinct(1) set_empty set_sort)
    then have "str_json (sort_key fst (scope i)) \<notin> {JNull, JBool False, JStr [], JList [], JObj []}"
      by (simp add: str_json_def)
    then show ?thesis
      by (simp add: scope_of_def jget_sort_keys [OF assms] claim_json_get sort_keys_str_json as_str_dict_json)
  qed
  then show ?thesis
    unfolding identity_from_def by (simp add: jstr_sort_keys [OF assms] claim_json_get)
qed

lemma mapR_as_str: "mapR as_str (map JStr xs) = Inr xs"
  by (induction xs) (simp_all add: as_str_def)

lemma mapR_as_str_dict: "mapR as_str_dict (map sort_keys (map str_json ds)) = Inr (map (sort_key fst) ds)"
  by (induction ds) (simp_all add: as_str_dict_json sort_keys_str_json)

lemma assertion_from_json: "jwf (assertion_json a) \<Longrightarrow> assertion_from (sort_keys (assertion_json a)) = Inr a"
  unfolding assertion_from_def
  by (simp add: jstr_sort_keys jindex_sort_keys claim_json_get as_list_def comp_def mapR_as_str)

lemma evidence_from_json:
  "jwf (evidence_json e) \<Longrightarrow>
     evidence_from (sort_keys (evidence_json e)) = Inr (e\<lparr>locators := map (sort_key fst) (locators e)\<rparr>)"
  unfolding evidence_from_def
  by (simp add: jstr_sort_keys jindex_sort_keys claim_json_get as_list_def mapR_as_str_dict del: map_map)

lemma claim_from_record_json:
  assumes "good_claim L c"
  shows "claim_from_record L (sort_keys (claim_json c)) = Inr (sort_claim c)"
  using assms good_claim_parts [OF assms]
  unfolding claim_from_record_def
  by (simp add: jindex_sort_keys claim_json_get identity_from_json assertion_from_json evidence_from_json
      create_identity_def compute_claim_id_scope_order good_claim_def sort_claim_def Let_def)

lemma parse_snapshot_json:
  assumes "nfc_ascii L" "\<forall>c\<in>set cs. good_claim L c"
  shows "normal L (snapshot_json cs)" "parse_snapshot L (dumps_sorted (snapshot_json cs)) = Inr (map sort_claim cs)"
proof -
  show n: "normal L (snapshot_json cs)"
    using assms nfc_asciiD [OF assms(1)] by (simp add: snapshot_json_def good_claim_def list_all_iff)
  have j: "jget (sort_keys (snapshot_json cs)) ''schema_version'' = Some (JStr ''2'')"
    "jget (sort_keys (snapshot_json cs)) ''accepted_claims'' = Some (JList (map (sort_keys \<circ> claim_json) cs))"
    using normal_jwf [OF n] by (simp_all add: jget_sort_keys) (simp_all add: snapshot_json_def jget_def)
  obtain kvs where kvs: "sort_keys (snapshot_json cs) = JObj kvs" by (simp add: snapshot_json_def)
  have "mapR (claim_from_record L) (map (sort_keys \<circ> claim_json) cs) = Inr (map sort_claim cs)"
    using assms(2) by (induction cs) (simp_all add: claim_from_record_json)
  with j kvs show "parse_snapshot L (dumps_sorted (snapshot_json cs)) = Inr (map sort_claim cs)"
    by (simp add: parse_snapshot_def loads_canonical [OF n] jget_def)
qed

subsection \<open>Pages and citations of a parsed snapshot\<close>

lemma sort_claim_simps [simp]:
  "claim_id (identity (sort_claim c)) = claim_id (identity c)"
  "subject_id (identity (sort_claim c)) = subject_id (identity c)"
  "predicate_id (identity (sort_claim c)) = predicate_id (identity c)"
  "obj (identity (sort_claim c)) = obj (identity c)" "polarity (identity (sort_claim c)) = polarity (identity c)"
  "assertion (sort_claim c) = assertion c" "evidence_id (evidence (sort_claim c)) = evidence_id (evidence c)"
  "locators (evidence (sort_claim c)) = map (sort_key fst) (locators (evidence c))"
  by (simp_all add: sort_claim_def)

lemma dict_set_map: "dict_set k (g v) (map (\<lambda>(k, v). (k, g v)) d) = map (\<lambda>(k, v). (k, g v)) (dict_set k v d)"
  by (induction d) auto

lemma map_of_map_value: "map_of (map (\<lambda>(k, v). (k, g v)) d) k = map_option g (map_of d k)"
  by (induction d) auto

lemma by_subject_snoc:
  "by_subject [] = []"
  "by_subject (cs @ [c]) = dict_set (subject_id (identity c))
     (dict_set (claim_id (identity c)) c (case map_of (by_subject cs) (subject_id (identity c)) of None \<Rightarrow> [] | Some x \<Rightarrow> x))
     (by_subject cs)"
  by (simp_all add: by_subject_def Let_def)

lemma by_subject_map:
  assumes "\<And>c. subject_id (identity (f c)) = subject_id (identity c)" "\<And>c. claim_id (identity (f c)) = claim_id (identity c)"
  shows "by_subject (map f cs) = map (\<lambda>(su, d). (su, map (\<lambda>(k, c). (k, f c)) d)) (by_subject cs)"
proof (induction cs rule: rev_induct)
  case (snoc c cs)
  show ?case
    by (cases "map_of (by_subject cs) (subject_id (identity c))")
      (simp_all add: snoc assms by_subject_snoc map_of_map_value flip: dict_set_map)
qed (simp add: by_subject_snoc)

lemma page_text_map:
  assumes "\<And>k c. claim_line su (k, f c) = claim_line su (k, c)"
  shows "page_text su (map (\<lambda>(k, c). (k, f c)) d) = page_text su d"
proof -
  have "fst \<circ> (\<lambda>(k :: string, c). (k, f c)) = fst" by auto
  then show ?thesis using assms by (simp add: page_text_def sort_key_map comp_def split_beta)
qed

lemma render_pages_sort_claim: "render_pages L (map sort_claim cs) = render_pages L cs"
proof -
  have "fst \<circ> (\<lambda>(su :: string, d). (su, map (\<lambda>(k :: string, c). (k, sort_claim c)) d)) = fst" by auto
  moreover have "page_text su (map (\<lambda>(k, c). (k, sort_claim c)) d) = page_text su d" for su d
    by (rule page_text_map) (simp add: claim_line_def)
  ultimately show ?thesis
    by (simp add: render_pages_def by_subject_map sort_key_map fold_map comp_def case_prod_beta')
qed

text \<open>The claims of each id, in order: the citation groups without their rendering.\<close>

definition claim_groups :: "compiled_claim list \<Rightarrow> (string, compiled_claim list) dict" where
  "claim_groups cs =
     fold (\<lambda>c d. let k = claim_id (identity c); old = (case map_of d k of None \<Rightarrow> [] | Some x \<Rightarrow> x)
                 in dict_set k (old @ [c]) d) cs []"

definition entry_json :: "compiled_claim \<Rightarrow> json" where
  "entry_json c = JObj
     [(''assertion_id'', JStr (assertion_id (assertion c))), (''source_id'', JStr (a_source_id (assertion c))),
      (''evidence_id'', JStr (evidence_id (evidence c))), (''locators'', JList (map str_json (locators (evidence c))))]"

definition citation_json :: "compiled_claim list \<Rightarrow> json" where
  "citation_json cs = JObj [(''claims'', JObj (map (\<lambda>(k, v). (k, JList (map entry_json (sort_key (assertion_id \<circ> assertion) v))))
     (sort_key fst (claim_groups cs))))]"

lemma claim_groups_snoc:
  "claim_groups [] = []"
  "claim_groups (cs @ [c]) = dict_set (claim_id (identity c))
     ((case map_of (claim_groups cs) (claim_id (identity c)) of None \<Rightarrow> [] | Some x \<Rightarrow> x) @ [c]) (claim_groups cs)"
  by (simp_all add: claim_groups_def Let_def)

lemma claim_groups_map:
  assumes "\<And>c. claim_id (identity (f c)) = claim_id (identity c)"
  shows "claim_groups (map f cs) = map (\<lambda>(k, v). (k, map f v)) (claim_groups cs)"
proof (induction cs rule: rev_induct)
  case (snoc c cs)
  show ?case
    by (cases "map_of (claim_groups cs) (claim_id (identity c))")
      (simp_all add: snoc assms claim_groups_snoc map_of_map_value flip: dict_set_map)
qed (simp add: claim_groups_snoc)

lemma citation_groups_snoc:
  "citation_groups [] = []"
  "citation_groups (cs @ [c]) = dict_set (claim_id (identity c))
     ((case map_of (citation_groups cs) (claim_id (identity c)) of None \<Rightarrow> [] | Some x \<Rightarrow> x) @
      [(assertion_id (assertion c), citation_entry c)]) (citation_groups cs)"
  by (simp_all add: citation_groups_def Let_def)

lemma citation_groups_eq:
  "citation_groups cs = map (\<lambda>(k, v). (k, map (\<lambda>c. (assertion_id (assertion c), citation_entry c)) v)) (claim_groups cs)"
proof (induction cs rule: rev_induct)
  case (snoc c cs)
  show ?case
    by (cases "map_of (claim_groups cs) (claim_id (identity c))")
      (simp_all add: snoc claim_groups_snoc citation_groups_snoc map_of_map_value flip: dict_set_map)
qed (simp add: claim_groups_snoc citation_groups_snoc)

lemma citation_entry_json: "citation_entry c = json_py (entry_json c)"
  by (simp add: citation_entry_def entry_json_def pdict_def pstr_dict_json)

lemma citation_value_json:
  "pdict [(''claims'', pdict (map (\<lambda>(k, v). (k, PList (map snd (sort_key fst v)))) (sort_key fst (citation_groups cs))))]
     = json_py (citation_json cs)"
proof -
  have 1: "fst \<circ> (\<lambda>(k :: string, v). (k, map (\<lambda>c. (assertion_id (assertion c), citation_entry c)) v)) = fst" by auto
  have 2: "fst \<circ> (\<lambda>c. (assertion_id (assertion c), citation_entry c)) = assertion_id \<circ> assertion" by auto
  show ?thesis
    by (simp add: citation_groups_eq sort_key_map 1 2 pdict_def citation_json_def split_beta comp_def citation_entry_json)
qed

lemma sort_key_idem: "sort_key f (sort_key f xs) = sort_key f xs"
  by (simp add: sorted_sort_id sort_key_id_if_sorted)

lemma sort_keys_citation: "sort_keys (citation_json (map sort_claim cs)) = sort_keys (citation_json cs)"
proof -
  have 1: "fst \<circ> (\<lambda>(k :: string, v). (k, map sort_claim v)) = fst" by auto
  have 2: "(assertion_id \<circ> assertion) \<circ> sort_claim = assertion_id \<circ> assertion" by auto
  have e: "sort_keys (entry_json (sort_claim c)) = sort_keys (entry_json c)" for c
    by (simp add: entry_json_def sort_keys_str_json comp_def sort_key_idem)
  show ?thesis
    unfolding citation_json_def claim_groups_map [of sort_claim, OF sort_claim_simps(1)] sort_key_map 1
    by (simp add: sort_key_map 2 split_beta comp_def e)
qed

lemma claim_groups_keys:
  "distinct (dict_keys (claim_groups cs))"
  "(k, v) \<in> set (claim_groups cs) \<Longrightarrow> (\<exists>c\<in>set cs. k = claim_id (identity c)) \<and> set v \<subseteq> set cs"
proof -
  show d: "distinct (dict_keys (claim_groups cs))" for cs
    by (induction cs rule: rev_induct) (simp_all add: claim_groups_snoc distinct_keys_set)
  have "map_of (claim_groups cs) k = Some v \<Longrightarrow> (\<exists>c\<in>set cs. k = claim_id (identity c)) \<and> set v \<subseteq> set cs" for k v cs
  proof (induction cs arbitrary: k v rule: rev_induct)
    case (snoc c cs)
    then show ?case by (fastforce simp: claim_groups_snoc split: if_splits option.splits)
  qed (simp add: claim_groups_snoc)
  then show "(k, v) \<in> set (claim_groups cs) \<Longrightarrow> (\<exists>c\<in>set cs. k = claim_id (identity c)) \<and> set v \<subseteq> set cs"
    using d [of cs] by simp
qed

lemma good_claim_normal:
  assumes "nfc_ascii L" "good_claim L c"
  shows "nfc L (claim_id (identity c)) = claim_id (identity c)" "normal L (entry_json c)"
  using assms nfc_asciiD [OF assms(1)]
  by (simp_all add: good_claim_def claim_json_def identity_json_def assertion_json_def evidence_json_def entry_json_def)

lemma normal_citation:
  assumes "nfc_ascii L" "\<forall>c\<in>set cs. good_claim L c"
  shows "normal L (citation_json cs)"
proof -
  have "nfc L k = k \<and> normal L (JList (map entry_json (sort_key (assertion_id \<circ> assertion) v)))"
    if "(k, v) \<in> set (claim_groups cs)" for k v
    using claim_groups_keys(2) [OF that] assms good_claim_normal [OF assms(1)] by (auto simp: list_all_iff)
  moreover have "distinct (map fst (map (\<lambda>(k, v). (k, JList (map entry_json (sort_key (assertion_id \<circ> assertion) v))))
      (sort_key fst (claim_groups cs))))"
    using claim_groups_keys(1) [of cs] by (simp add: comp_def split_beta)
  ultimately show ?thesis
    using nfc_asciiD [OF assms(1), of "''claims''"]
    by (auto simp: citation_json_def list_all_iff simp del: map_map)
qed

lemma build_citation_index_json:
  "normal L (citation_json cs) \<Longrightarrow> build_citation_index L cs = Inr (dumps_sorted (citation_json cs))"
  by (simp add: build_citation_index_def Let_def citation_value_json canonical_bytes_json)

lemma good_claim_sort_claim:
  assumes "good_claim L c"
  shows "good_claim L (sort_claim c)"
proof -
  have "normal L (claim_json (sort_claim c))"
  proof -
    have "normal L (str_json d) \<Longrightarrow> normal L (str_json (sort_key fst d))" for d
      using normal_sort_keys [of L "str_json d"] by (simp add: sort_keys_str_json)
    then show ?thesis
      using assms
      by (simp add: good_claim_def claim_json_def identity_json_def assertion_json_def evidence_json_def
          sort_claim_def list_all_iff)
  qed
  then show ?thesis
    using assms by (simp add: good_claim_def Let_def sort_claim_def compute_claim_id_scope_order)
qed

lemma snapshot_rebuilds:
  assumes "nfc_ascii L" "\<forall>c\<in>set cs. good_claim L c" "sorted (map (assertion_id \<circ> assertion) cs)"
  shows "build_snapshot L cs = Inr (dumps_sorted (snapshot_json cs))"
    "parse_snapshot L (dumps_sorted (snapshot_json cs)) = Inr (map sort_claim cs)"
    "render_pages L (map sort_claim cs) = render_pages L cs"
    "build_citation_index L cs = Inr (dumps_sorted (citation_json cs))"
    "build_citation_index L (map sort_claim cs) = build_citation_index L cs"
proof -
  show "build_snapshot L cs = Inr (dumps_sorted (snapshot_json cs))"
    using assms parse_snapshot_json(1) [OF assms(1,2)]
    by (simp add: build_snapshot_def snapshot_value_json sort_key_id_if_sorted canonical_bytes_json)
  show "parse_snapshot L (dumps_sorted (snapshot_json cs)) = Inr (map sort_claim cs)"
    by (rule parse_snapshot_json(2) [OF assms(1,2)])
  show "render_pages L (map sort_claim cs) = render_pages L cs"
    by (rule render_pages_sort_claim)
  show c: "build_citation_index L cs = Inr (dumps_sorted (citation_json cs))"
    by (rule build_citation_index_json [OF normal_citation [OF assms(1,2)]])
  have "\<forall>c\<in>set (map sort_claim cs). good_claim L c" using assms(2) good_claim_sort_claim by auto
  from build_citation_index_json [OF normal_citation [OF assms(1) this]] c
  show "build_citation_index L (map sort_claim cs) = build_citation_index L cs"
    by (simp add: dumps_sorted_def sort_keys_citation)
qed

text \<open>
  C22: the knowledge snapshot carries the whole state of a generation. Parsing the snapshot built
  from well-formed claims returns these claims (with the keys of scopes and locators in sorted
  order), and the pages and the citation index rendered from what was parsed are, byte for byte,
  those rendered from the original claims.
\<close>

theorem snapshot_roundtrip:
  assumes "nfc_ascii L" "\<forall>c\<in>set cs. good_claim L c" "sorted (map (assertion_id \<circ> assertion) cs)"
  shows "\<exists>b. build_snapshot L cs = Inr b \<and> parse_snapshot L b = Inr (map sort_claim cs) \<and>
     render_pages L (map sort_claim cs) = render_pages L cs \<and>
     isOk (build_citation_index L cs) \<and>
     build_citation_index L (map sort_claim cs) = build_citation_index L cs"
  using snapshot_rebuilds [OF assms] by (simp add: isOk_def)

definition demo_identity :: claim_identity where
  "demo_identity =
     \<lparr>claim_id = (case compute_claim_id demo_lib ''fox'' ''is'' ''red'' ''positive'' [(''y'', ''2''), (''x'', ''1'')] of Inr h \<Rightarrow> h | Inl e \<Rightarrow> []),
      subject_id = ''fox'', predicate_id = ''is'', obj = ''red'', polarity = ''positive'', scope = [(''y'', ''2''), (''x'', ''1'')]\<rparr>"

definition demo_claim :: compiled_claim where
  "demo_claim =
     \<lparr>identity = demo_identity,
      assertion = \<lparr>assertion_id = ''a1'', a_claim_id = claim_id demo_identity, a_source_id = ''s1'', evidence_ids = [''e1''], modality = ''asserted''\<rparr>,
      evidence = \<lparr>evidence_id = ''e1'', source_object_hash = ''s1'', representation_hash = ''r1'', quote_hash = ''q1'',
        locators = [[(''start'', ''0''), (''end'', ''9'')]]\<rparr>\<rparr>"

lemma demo_claim_good: "good_claim demo_lib demo_claim"
proof -
  have "normal demo_lib (claim_json demo_claim)"
    by (simp add: claim_json_def identity_json_def assertion_json_def evidence_json_def str_json_def demo_claim_def
        demo_identity_def)
  moreover have "\<exists>h. compute_claim_id demo_lib ''fox'' ''is'' ''red'' ''positive'' [(''y'', ''2''), (''x'', ''1'')] = Inr h"
    by (simp add: compute_claim_id_def canonical_hash_def canonical_bytes_def canon.norm_eq claim_payload_def pdict_def
        pstr_dict_def admissible_PDict)
  ultimately show ?thesis
    by (auto simp: good_claim_def demo_claim_def demo_identity_def)
qed

theorem snapshot_roundtrip_witness:
  "\<exists>b. build_snapshot demo_lib [demo_claim] = Inr b \<and> parse_snapshot demo_lib b = Inr [sort_claim demo_claim] \<and>
     scope (identity (sort_claim demo_claim)) = [(''x'', ''1''), (''y'', ''2'')]"
proof -
  have "scope (identity (sort_claim demo_claim)) = [(''x'', ''1''), (''y'', ''2'')]"
    by (simp add: sort_claim_def demo_claim_def demo_identity_def)
  then show ?thesis using snapshot_roundtrip [of demo_lib "[demo_claim]"] demo_claim_good by auto
qed

end
