(* ===== verification/GitRepo.thy ===== *)
theory GitRepo
  imports Assembler
begin

text \<open>
  \<open>gitrepo.py\<close>: the plumbing wrapper. Git itself is not part of the repository: its commands are
  the fields of a record \<open>git\<close>, and what the code relies on of their documented behaviour is
  \<open>git_ok\<close>, stated over a view of the object store and the references. Programs that run commands
  are functions from a state to an outcome and the state left behind, also when they raise.

  The result: a commit written from a dictionary of files holds exactly these files.
\<close>

subsection \<open>Programs with state and exceptions\<close>

type_synonym ('s, 'a) prog = "'s \<Rightarrow> 'a res \<times> 's"

definition thenP :: "('s, 'a) prog \<Rightarrow> ('a \<Rightarrow> ('s, 'b) prog) \<Rightarrow> ('s, 'b) prog" where
  "thenP m f s = (case m s of (Inl e, s') \<Rightarrow> (Inl e, s') | (Inr a, s') \<Rightarrow> f a s')"

definition liftP :: "'a res \<Rightarrow> ('s, 'a) prog" where
  "liftP r s = (r, s)"

abbreviation retP :: "'a \<Rightarrow> ('s, 'a) prog" where
  "retP a \<equiv> liftP (Inr a)"

abbreviation failP :: "exn \<Rightarrow> ('s, 'a) prog" where
  "failP e \<equiv> liftP (Inl e)"

lemma liftP_simps [simp]: "liftP r s = (r', s') \<longleftrightarrow> r = r' \<and> s' = s"
  by (auto simp: liftP_def)

lemma thenP_Inr_iff:
  "thenP m f s = (Inr b, s'') \<longleftrightarrow> (\<exists>a s'. m s = (Inr a, s') \<and> f a s' = (Inr b, s''))"
  by (auto simp: thenP_def split: prod.splits sum.splits)

lemma thenP_liftP: "thenP (liftP r) f s = (case r of Inl e \<Rightarrow> (Inl e, s) | Inr a \<Rightarrow> f a s)"
  by (simp add: thenP_def liftP_def split: sum.splits)

lemma thenP_Inr: "m s = (Inr a, s') \<Longrightarrow> thenP m f s = f a s'"
  by (simp add: thenP_def)

subsection \<open>Git\<close>

text \<open>
  The commands the wrapper runs. The temporary index file is the dictionary from path to object
  that \<open>update-index --cacheinfo\<close> extends; \<open>rev-parse --quiet\<close> prints nothing for an unknown name;
  \<open>ls-tree -r --name-only\<close> prints lines.
\<close>

record 'g git =
  git_hash_object :: "bytes \<Rightarrow> ('g, string) prog"
  git_update_index :: "'g \<Rightarrow> (string, string) dict \<Rightarrow> string \<Rightarrow> string \<Rightarrow> (string, string) dict res"
  git_write_tree :: "(string, string) dict \<Rightarrow> ('g, string) prog"
  git_commit_tree :: "string \<Rightarrow> string \<Rightarrow> string option \<Rightarrow> ('g, string) prog"
  git_update_ref :: "string \<Rightarrow> string \<Rightarrow> string option \<Rightarrow> ('g, unit) prog"
  git_rev_parse :: "'g \<Rightarrow> string \<Rightarrow> string"
  git_cat_file :: "'g \<Rightarrow> string \<Rightarrow> bytes res"
  git_ls_tree :: "'g \<Rightarrow> string \<Rightarrow> string list res"
  git_object_format :: "'g \<Rightarrow> string res"

fun add_files :: "'g git \<Rightarrow> (string, string) dict \<Rightarrow> (string \<times> bytes) list \<Rightarrow> ('g, (string, string) dict) prog" where
  "add_files G idx [] = retP idx"
| "add_files G idx ((path, data) # rest) =
     thenP (git_hash_object G data) (\<lambda>oid g.
     thenP (liftP (git_update_index G g idx oid path)) (\<lambda>idx'. add_files G idx' rest) g)"

definition write_tree_from_files :: "'g git \<Rightarrow> (string, bytes) dict \<Rightarrow> ('g, string) prog" where
  "write_tree_from_files G files =
     thenP (add_files G [] (sort_key fst files)) (\<lambda>idx. git_write_tree G idx)"

definition commit_tree :: "'g git \<Rightarrow> string \<Rightarrow> string \<Rightarrow> string option \<Rightarrow> ('g, string) prog" where
  "commit_tree G tree message parent =
     git_commit_tree G tree message (case parent of Some (c # cs) \<Rightarrow> Some (c # cs) | _ \<Rightarrow> None)"

definition set_retention_anchor :: "'g git \<Rightarrow> string \<Rightarrow> string \<Rightarrow> ('g, unit) prog" where
  "set_retention_anchor G ref oid = git_update_ref G ref oid None"

definition zero_oid :: "string \<Rightarrow> string" where
  "zero_oid fmt = replicate (if fmt = ''sha256'' then 64 else 40) CHR ''0''"

definition create_ref_only :: "'g git \<Rightarrow> string \<Rightarrow> string \<Rightarrow> ('g, unit) prog" where
  "create_ref_only G ref oid g =
     thenP (liftP (git_object_format G g)) (\<lambda>fmt. git_update_ref G ref oid (Some (zero_oid fmt))) g"

definition cas_update_ref :: "'g git \<Rightarrow> string \<Rightarrow> string \<Rightarrow> string option \<Rightarrow> ('g, unit) prog" where
  "cas_update_ref G ref new_oid expected_old g =
     (case expected_old of
        None \<Rightarrow>
          thenP (liftP (git_object_format G g)) (\<lambda>fmt.
            git_update_ref G ref new_oid (Some (replicate (if fmt = ''sha1'' then 40 else 64) CHR ''0''))) g
      | Some old \<Rightarrow> git_update_ref G ref new_oid (Some old) g)"

definition read_ref :: "'g git \<Rightarrow> 'g \<Rightarrow> string \<Rightarrow> string option" where
  "read_ref G g ref = (let out = git_rev_parse G g ref in if out = [] then None else Some out)"

definition cat_file :: "'g git \<Rightarrow> 'g \<Rightarrow> string \<Rightarrow> bytes res" where
  "cat_file G g spec = git_cat_file G g spec"

definition ls_tree :: "'g git \<Rightarrow> 'g \<Rightarrow> string \<Rightarrow> string list res" where
  "ls_tree G g oid = bindR (git_ls_tree G g oid) (\<lambda>lines. Inr (filter (\<lambda>p. p \<noteq> []) lines))"

subsection \<open>What the code relies on of Git\<close>

text \<open>The view: blobs, trees as maps from path to blob, the tree of a commit, and the references.\<close>

record 'g git_view =
  v_blob :: "'g \<Rightarrow> string \<Rightarrow> bytes option"
  v_tree :: "'g \<Rightarrow> string \<Rightarrow> (string \<Rightarrow> string option) option"
  v_commit :: "'g \<Rightarrow> string \<Rightarrow> string option"
  v_ref :: "'g \<Rightarrow> string \<Rightarrow> string option"

text \<open>No command of these forgets an object.\<close>

definition grows :: "'g git_view \<Rightarrow> 'g \<Rightarrow> 'g \<Rightarrow> bool" where
  "grows V g g' \<longleftrightarrow> v_blob V g \<subseteq>\<^sub>m v_blob V g' \<and> v_tree V g \<subseteq>\<^sub>m v_tree V g' \<and> v_commit V g \<subseteq>\<^sub>m v_commit V g'"

text \<open>Path names that Git prints as they are (others it quotes).\<close>

definition plain_path :: "string \<Rightarrow> bool" where
  "plain_path p \<longleftrightarrow> p \<noteq> [] \<and> list_all (\<lambda>c. is_slug_char c \<or> c \<in> set ''-_./'') p"

definition hash_ok :: "'g git \<Rightarrow> 'g git_view \<Rightarrow> bool" where
  "hash_ok G V \<longleftrightarrow>
     (\<forall>b g r g'. git_hash_object G b g = (r, g') \<longrightarrow>
        grows V g g' \<and> v_ref V g' = v_ref V g \<and> (\<forall>oid. r = Inr oid \<longrightarrow> v_blob V g' oid = Some b))"

definition index_ok :: "'g git \<Rightarrow> bool" where
  "index_ok G \<longleftrightarrow>
     (\<forall>g idx oid p idx'. git_update_index G g idx oid p = Inr idx' \<longrightarrow> map_of idx' = (map_of idx)(p \<mapsto> oid))"

definition tree_ok :: "'g git \<Rightarrow> 'g git_view \<Rightarrow> bool" where
  "tree_ok G V \<longleftrightarrow>
     (\<forall>idx g r g'. git_write_tree G idx g = (r, g') \<longrightarrow>
        grows V g g' \<and> v_ref V g' = v_ref V g \<and> (\<forall>oid. r = Inr oid \<longrightarrow> v_tree V g' oid = Some (map_of idx)))"

definition commit_ok :: "'g git \<Rightarrow> 'g git_view \<Rightarrow> bool" where
  "commit_ok G V \<longleftrightarrow>
     (\<forall>t m p g r g'. git_commit_tree G t m p g = (r, g') \<longrightarrow>
        grows V g g' \<and> v_ref V g' = v_ref V g \<and> (\<forall>oid. r = Inr oid \<longrightarrow> oid \<noteq> [] \<and> v_commit V g' oid = Some t))"

definition ref_ok :: "'g git \<Rightarrow> 'g git_view \<Rightarrow> bool" where
  "ref_ok G V \<longleftrightarrow>
     (\<forall>ref new old g r g'. git_update_ref G ref new old g = (r, g') \<longrightarrow>
        grows V g g' \<and> (r = Inr () \<longrightarrow> v_ref V g' = (v_ref V g)(ref \<mapsto> new)) \<and> (\<forall>e. r = Inl e \<longrightarrow> v_ref V g' = v_ref V g))"

definition read_ok :: "'g git \<Rightarrow> 'g git_view \<Rightarrow> bool" where
  "read_ok G V \<longleftrightarrow>
     (\<forall>g ref. git_rev_parse G g ref = (case v_ref V g ref of None \<Rightarrow> [] | Some oid \<Rightarrow> oid))"

definition show_ok :: "'g git \<Rightarrow> 'g git_view \<Rightarrow> bool" where
  "show_ok G V \<longleftrightarrow>
     (\<forall>g c t m p oid b. v_commit V g c = Some t \<and> v_tree V g t = Some m \<and> m p = Some oid \<and> v_blob V g oid = Some b \<longrightarrow>
        git_cat_file G g (c @ '':'' @ p) = Inr b)"

definition list_ok :: "'g git \<Rightarrow> 'g git_view \<Rightarrow> bool" where
  "list_ok G V \<longleftrightarrow>
     (\<forall>g c t m. v_commit V g c = Some t \<and> v_tree V g t = Some m \<and> (\<forall>p\<in>dom m. plain_path p) \<longrightarrow>
        (\<exists>lines. git_ls_tree G g c = Inr lines \<and> set lines = dom m))"

definition git_ok :: "'g git \<Rightarrow> 'g git_view \<Rightarrow> bool" where
  "git_ok G V \<longleftrightarrow> hash_ok G V \<and> index_ok G \<and> tree_ok G V \<and> commit_ok G V \<and> ref_ok G V \<and> read_ok G V \<and> show_ok G V \<and> list_ok G V"

lemma git_ok_hash: "git_ok G V \<Longrightarrow> git_hash_object G b g = (r, g') \<Longrightarrow>
    grows V g g' \<and> v_ref V g' = v_ref V g \<and> (\<forall>oid. r = Inr oid \<longrightarrow> v_blob V g' oid = Some b)"
  by (simp add: git_ok_def hash_ok_def)

lemma git_ok_index: "git_ok G V \<Longrightarrow> git_update_index G g idx oid p = Inr idx' \<Longrightarrow> map_of idx' = (map_of idx)(p \<mapsto> oid)"
  by (simp add: git_ok_def index_ok_def)

lemma git_ok_tree: "git_ok G V \<Longrightarrow> git_write_tree G idx g = (r, g') \<Longrightarrow>
    grows V g g' \<and> v_ref V g' = v_ref V g \<and> (\<forall>oid. r = Inr oid \<longrightarrow> v_tree V g' oid = Some (map_of idx))"
  by (simp add: git_ok_def tree_ok_def)

lemma git_ok_commit: "git_ok G V \<Longrightarrow> git_commit_tree G t msg par g = (r, g') \<Longrightarrow>
    grows V g g' \<and> v_ref V g' = v_ref V g \<and> (\<forall>oid. r = Inr oid \<longrightarrow> oid \<noteq> [] \<and> v_commit V g' oid = Some t)"
  by (simp add: git_ok_def commit_ok_def)

lemma git_ok_ref: "git_ok G V \<Longrightarrow> git_update_ref G ref new old g = (r, g') \<Longrightarrow>
    grows V g g' \<and> (r = Inr () \<longrightarrow> v_ref V g' = (v_ref V g)(ref \<mapsto> new)) \<and> (\<forall>e. r = Inl e \<longrightarrow> v_ref V g' = v_ref V g)"
  unfolding git_ok_def ref_ok_def by blast

lemma git_ok_read: "git_ok G V \<Longrightarrow> git_rev_parse G g ref = (case v_ref V g ref of None \<Rightarrow> [] | Some oid \<Rightarrow> oid)"
  by (simp add: git_ok_def read_ok_def)

lemma git_ok_show:
  "git_ok G V \<Longrightarrow> v_commit V g c = Some t \<Longrightarrow> v_tree V g t = Some m \<Longrightarrow> m p = Some oid \<Longrightarrow> v_blob V g oid = Some b \<Longrightarrow>
    git_cat_file G g (c @ '':'' @ p) = Inr b"
  unfolding git_ok_def show_ok_def by blast

lemma git_ok_list:
  "git_ok G V \<Longrightarrow> v_commit V g c = Some t \<Longrightarrow> v_tree V g t = Some m \<Longrightarrow> \<forall>p\<in>dom m. plain_path p \<Longrightarrow>
    \<exists>lines. git_ls_tree G g c = Inr lines \<and> set lines = dom m"
  unfolding git_ok_def list_ok_def by blast

text \<open>The files of a commit.\<close>

definition holds_files :: "'g git_view \<Rightarrow> 'g \<Rightarrow> string \<Rightarrow> (string \<Rightarrow> bytes option) \<Rightarrow> bool" where
  "holds_files V g c files \<longleftrightarrow>
     (\<exists>t m. v_commit V g c = Some t \<and> v_tree V g t = Some m \<and> dom m = dom files \<and>
        (\<forall>p oid. m p = Some oid \<longrightarrow> v_blob V g oid = files p))"

lemma grows_refl [simp]: "grows V g g"
  by (simp add: grows_def)

lemma grows_trans: "grows V g g' \<Longrightarrow> grows V g' g'' \<Longrightarrow> grows V g g''"
  unfolding grows_def by (meson map_le_trans)

lemma map_leD: "m \<subseteq>\<^sub>m m' \<Longrightarrow> m x = Some y \<Longrightarrow> m' x = Some y"
  unfolding map_le_def dom_def by (metis mem_Collect_eq option.distinct(1))

lemma growsD:
  "grows V g g' \<Longrightarrow> v_blob V g x = Some y \<Longrightarrow> v_blob V g' x = Some y"
  "grows V g g' \<Longrightarrow> v_tree V g x = Some t \<Longrightarrow> v_tree V g' x = Some t"
  "grows V g g' \<Longrightarrow> v_commit V g x = Some y \<Longrightarrow> v_commit V g' x = Some y"
  unfolding grows_def using map_leD by metis+

text \<open>Blob lookup agrees with the files it was written from, wherever these are defined.\<close>

lemma blobs_grow:
  assumes "grows V g g'" "\<forall>p oid. m p = Some oid \<longrightarrow> v_blob V g oid = files p" "dom m = dom files"
  shows "\<forall>p oid. m p = Some oid \<longrightarrow> v_blob V g' oid = files p"
proof (intro allI impI)
  fix p oid
  assume "m p = Some oid"
  with assms(2,3) obtain b where "files p = Some b" "v_blob V g oid = Some b" by (metis domD domI)
  with growsD(1) [OF assms(1)] show "v_blob V g' oid = files p" by simp
qed

lemma holds_files_grows:
  assumes "holds_files V g c files" "grows V g g'"
  shows "holds_files V g' c files"
proof -
  from assms(1) obtain t m where h: "v_commit V g c = Some t" "v_tree V g t = Some m" "dom m = dom files"
      "\<forall>p oid. m p = Some oid \<longrightarrow> v_blob V g oid = files p"
    unfolding holds_files_def by blast
  with growsD(2,3) [OF assms(2)] blobs_grow [OF assms(2) h(4,3)] show ?thesis unfolding holds_files_def by blast
qed

lemma cat_file_holds:
  assumes "git_ok G V" "holds_files V g c files" "files p = Some b"
  shows "cat_file G g (c @ '':'' @ p) = Inr b"
proof -
  from assms(2) obtain t m where h: "v_commit V g c = Some t" "v_tree V g t = Some m" "dom m = dom files"
      "\<forall>p oid. m p = Some oid \<longrightarrow> v_blob V g oid = files p"
    unfolding holds_files_def by blast
  moreover from h(3) assms(3) obtain oid where "m p = Some oid" by (metis domD domI)
  ultimately show ?thesis using git_ok_show [OF assms(1) h(1,2)] assms(3) by (simp add: cat_file_def)
qed

lemma ls_tree_holds:
  assumes "git_ok G V" "holds_files V g c files" "\<forall>p\<in>dom files. plain_path p"
  shows "\<exists>ps. ls_tree G g c = Inr ps \<and> set ps = dom files"
proof -
  from assms(2) obtain t m where "v_commit V g c = Some t" "v_tree V g t = Some m" "dom m = dom files"
    unfolding holds_files_def by blast
  with git_ok_list [OF assms(1) this(1,2)] assms(3) obtain lines where "git_ls_tree G g c = Inr lines" "set lines = dom files"
    by auto
  with assms(3) show ?thesis by (auto simp: ls_tree_def plain_path_def)
qed

lemma add_files_spec:
  assumes "git_ok G V" "add_files G idx fs g = (Inr idx', g')" "distinct (map fst fs)"
    and "\<forall>p oid. map_of idx p = Some oid \<longrightarrow> v_blob V g oid = old p" "dom (map_of idx) = dom old"
    and "dom old \<inter> fst ` set fs = {}"
  shows "grows V g g' \<and> v_ref V g' = v_ref V g \<and> dom (map_of idx') = dom (old ++ map_of fs) \<and>
         (\<forall>p oid. map_of idx' p = Some oid \<longrightarrow> v_blob V g' oid = (old ++ map_of fs) p)"
  using assms(2-)
proof (induction fs arbitrary: idx g old)
  case Nil
  then show ?case by (auto simp: map_add_def)
next
  case (Cons f fs)
  obtain path data where f: "f = (path, data)" by (cases f)
  from Cons.prems(1) obtain oid g1 idx1 where
      h: "git_hash_object G data g = (Inr oid, g1)" and u: "git_update_index G g1 idx oid path = Inr idx1"
      and rest: "add_files G idx1 fs g1 = (Inr idx', g')"
    by (auto simp: f thenP_Inr_iff)
  note hash = git_ok_hash [OF assms(1) h] and index = git_ok_index [OF assms(1) u]
  let ?old = "old(path \<mapsto> data)"
  have "\<forall>p o'. map_of idx p = Some o' \<longrightarrow> v_blob V g1 o' = old p"
    using hash by (intro blobs_grow [OF _ Cons.prems(3,4)]) simp
  then have d1: "\<forall>p o'. map_of idx1 p = Some o' \<longrightarrow> v_blob V g1 o' = ?old p"
    using hash by (simp add: index)
  have d2: "dom (map_of idx1) = dom ?old" using index Cons.prems(4) by auto
  have d3: "dom ?old \<inter> fst ` set fs = {}" using Cons.prems(2,5) by (auto simp: f)
  have d0: "distinct (map fst fs)" using Cons.prems(2) by simp
  have eq: "?old ++ map_of fs = old ++ map_of (f # fs)"
  proof -
    have "path \<notin> dom (map_of fs)" using Cons.prems(2) by (simp add: f dom_map_of_conv_image_fst)
    then show ?thesis by (auto simp: f fun_eq_iff map_add_def dom_def split: option.splits)
  qed
  note ih = Cons.IH [OF rest d0 d1 d2 d3]
  show ?case
  proof (intro conjI)
    show "grows V g g'" by (rule grows_trans [OF conjunct1 [OF hash] conjunct1 [OF ih]])
    show "v_ref V g' = v_ref V g" using hash ih by (simp only:)
    show "dom (map_of idx') = dom (old ++ map_of (f # fs))"
      unfolding eq [symmetric] by (rule conjunct1 [OF conjunct2 [OF conjunct2 [OF ih]]])
    show "\<forall>p oid. map_of idx' p = Some oid \<longrightarrow> v_blob V g' oid = (old ++ map_of (f # fs)) p"
      unfolding eq [symmetric] by (rule conjunct2 [OF conjunct2 [OF conjunct2 [OF ih]]])
  qed
qed

lemma write_commit_spec:
  assumes "git_ok G V" "distinct (dict_keys files)"
    and "write_tree_from_files G files g = (Inr tree, g1)" and "commit_tree G tree msg par g1 = (Inr c, g2)"
  shows "grows V g g2 \<and> v_ref V g2 = v_ref V g \<and> holds_files V g2 c (map_of files) \<and> c \<noteq> []"
proof -
  let ?fs = "sort_key fst files"
  from assms(3) obtain idx g0 where a: "add_files G [] ?fs g = (Inr idx, g0)" and w: "git_write_tree G idx g0 = (Inr tree, g1)"
    by (auto simp: write_tree_from_files_def thenP_Inr_iff)
  have "distinct (map fst ?fs)" using assms(2) by simp
  from add_files_spec [OF assms(1) a this, of "\<lambda>_. None"]
  have A: "grows V g g0" "v_ref V g0 = v_ref V g" "dom (map_of idx) = dom (map_of files)"
      "\<forall>p oid. map_of idx p = Some oid \<longrightarrow> v_blob V g0 oid = map_of files p"
    using assms(2) by (simp_all add: dict_simps)
  note W = git_ok_tree [OF assms(1) w] and C = git_ok_commit [OF assms(1) assms(4) [unfolded commit_tree_def]]
  have gr: "grows V g0 g2" using W C grows_trans [of V g0 g1 g2] by simp
  have "v_tree V g2 tree = Some (map_of idx)" using W C growsD(2) [of V g1 g2] by simp
  moreover have "\<forall>p oid. map_of idx p = Some oid \<longrightarrow> v_blob V g2 oid = map_of files p"
    by (rule blobs_grow [OF gr A(4,3)])
  moreover have "v_commit V g2 c = Some tree" using C by simp
  ultimately have "holds_files V g2 c (map_of files)" unfolding holds_files_def using A(3) by blast
  moreover have "grows V g g2" using A(1) gr by (rule grows_trans)
  ultimately show ?thesis using A(2) W C by simp
qed

end
