(* ===== verification/Generation.thy ===== *)
theory Generation
  imports GitRepo ControlPlane Keys
begin

text \<open>
  \<open>generation.py\<close>: building a signed candidate commit and verifying one. The result: a candidate
  that was built from well-formed claims verifies, and its release does; what verification accepts
  is bound to the signed descriptor.
\<close>

definition ENGINE_VERSIONS :: "(string, string) dict" where
  "ENGINE_VERSIONS =
     [(''parser'', ''spike-parser@0''), (''chunker'', ''spike-chunker@0''), (''schema'', ''1''),
      (''trust_policy'', ''spike-policy@0''), (''prompt_hash'', ''n/a-deterministic''),
      (''engine_code_commit'', ''spike''), (''container_image_digest'', ''spike''),
      (''extraction_model_id'', ''MOCK-DETERMINISTIC''), (''verification_model_id'', ''MOCK-DETERMINISTIC''),
      (''render_model_id'', ''DETERMINISTIC-ASSEMBLER''), (''embedding_version'', ''n/a'')]"

record candidate_result =
  cand_generation_id :: string
  cand_commit_oid :: string
  cand_retention_ref :: string
  cand_descriptor :: pyval
  cand_manifest :: pyval
  cand_wiki_files_root :: string
  cand_citation_index_digest :: string
  cand_knowledge_snapshot_digest :: string

text \<open>The builder's collaborators: libraries, Git, Ed25519, keyring, key id and profile.\<close>

record 'g generation_builder =
  gb_lib :: lib
  gb_git :: "'g git"
  gb_ed :: ed25519
  gb_keyring :: keyring
  gb_key_id :: string
  gb_profile :: string

definition or_empty :: "string option \<Rightarrow> string" where
  "or_empty x = (case x of None \<Rightarrow> [] | Some s \<Rightarrow> s)"

definition descriptor_of ::
    "string \<Rightarrow> string option \<Rightarrow> string \<Rightarrow> string \<Rightarrow> string \<Rightarrow> string \<Rightarrow> string \<Rightarrow> pyval option \<Rightarrow> pyval" where
  "descriptor_of profile parent src_hash root wroot cdigest sdigest binding =
     pdict ([(''schema_version'', PStr ''1''), (''parent_generation_id'', PStr (or_empty parent)),
       (''source_snapshot_hash'', PStr src_hash), (''accepted_claim_set_root'', PStr root),
       (''inline_artifacts'', pdict [(''wiki_files_root'', PStr wroot), (''citation_index_digest'', PStr cdigest),
          (''knowledge_snapshot_digest'', PStr sdigest)]),
       (''publication_profile'', PStr profile), (''engine_versions'', pstr_dict ENGINE_VERSIONS)] @
       (case binding of None \<Rightarrow> [] | Some b \<Rightarrow> [(''accepted_changeset'', b)]))"

definition manifest_value :: "pyval \<Rightarrow> string \<Rightarrow> string \<Rightarrow> string \<Rightarrow> pyval" where
  "manifest_value descriptor gid key_id signature = pdict
     [(''descriptor'', descriptor), (''generation_id'', PStr gid), (''signer_key_id'', PStr key_id),
      (''signature'', PStr signature)]"

definition outbox_value :: "lib \<Rightarrow> string \<Rightarrow> pyval" where
  "outbox_value L gid = pdict
     [(''event_id'', PStr (sha256_hex L (''ready:'' @ gid))), (''generation_id'', PStr gid),
      (''event_type'', PStr ''generation_ready_for_index''),
      (''required_read_models'', PList [PStr ''wiki_files'', PStr ''citation_index''])]"

definition candidate_files ::
    "(string, bytes) dict \<Rightarrow> string \<Rightarrow> bytes \<Rightarrow> bytes \<Rightarrow> bytes \<Rightarrow> bytes \<Rightarrow> (string, bytes) dict" where
  "candidate_files pages gid citation snapshot manifest outbox_event =
     dict_set (''outbox/'' @ gid @ ''.json'') outbox_event
     (dict_set (''manifest/'' @ gid @ ''.json'') manifest
     (dict_set ''knowledge/snapshot.json'' snapshot
     (dict_set ''citation_index/index.json'' citation pages)))"

definition generation_ref :: "string \<Rightarrow> string" where
  "generation_ref gid = ''refs/wiki/generations/'' @ gid"

text \<open>Create-only anchoring: an existing reference must already point to the commit.\<close>

definition anchor :: "'g git \<Rightarrow> string \<Rightarrow> string \<Rightarrow> ('g, unit) prog" where
  "anchor G ref oid g =
     (case read_ref G g ref of
        None \<Rightarrow> create_ref_only G ref oid g
      | Some existing \<Rightarrow> if existing \<noteq> oid then (Inl ValueError, g) else (Inr (), g))"

definition parent_commit_of :: "'g git \<Rightarrow> 'g \<Rightarrow> string option \<Rightarrow> string option res" where
  "parent_commit_of G g parent =
     (if or_empty parent = [] then Inr None
      else case read_ref G g (generation_ref (or_empty parent)) of None \<Rightarrow> Inl ValueError | Some c \<Rightarrow> Inr (Some c))"

text \<open>Everything up to the commit is computed from the claims and signed; the repository is not touched.\<close>

record sealed =
  sl_pages :: "(string, bytes) dict"
  sl_citation :: bytes
  sl_snapshot :: bytes
  sl_wroot :: string
  sl_cdigest :: string
  sl_sdigest :: string
  sl_descriptor :: pyval
  sl_gid :: string
  sl_manifest :: pyval
  sl_manifest_bytes :: bytes
  sl_outbox_bytes :: bytes

definition seal ::
    "'g generation_builder \<Rightarrow> compiled_claim list \<Rightarrow> string option \<Rightarrow> string \<Rightarrow> string \<Rightarrow> pyval option \<Rightarrow> sealed res" where
  "seal B accepted parent src_hash root binding =
     (let L = gb_lib B; pages = render_pages L accepted in
      bindR (build_citation_index L accepted) (\<lambda>citation.
      bindR (build_snapshot L accepted) (\<lambda>snapshot.
      bindR (wiki_files_root L pages) (\<lambda>wroot.
      let cdigest = sha256_hex L citation; sdigest = sha256_hex L snapshot;
          descriptor = descriptor_of (gb_profile B) parent src_hash root wroot cdigest sdigest binding in
      bindR (canonical_hash L descriptor) (\<lambda>gid.
      bindR (sign (gb_ed B) (gb_keyring B) (gb_key_id B) gid) (\<lambda>sig.
      let manifest = manifest_value descriptor gid (gb_key_id B) (hex sig) in
      bindR (canonical_bytes L manifest) (\<lambda>mbytes.
      bindR (canonical_bytes L (outbox_value L gid)) (\<lambda>obytes.
      Inr \<lparr>sl_pages = pages, sl_citation = citation, sl_snapshot = snapshot, sl_wroot = wroot, sl_cdigest = cdigest,
        sl_sdigest = sdigest, sl_descriptor = descriptor, sl_gid = gid, sl_manifest = manifest,
        sl_manifest_bytes = mbytes, sl_outbox_bytes = obytes\<rparr>))))))))"

definition build_candidate ::
    "'g generation_builder \<Rightarrow> compiled_claim list \<Rightarrow> string option \<Rightarrow> string \<Rightarrow> string \<Rightarrow> pyval option \<Rightarrow>
     ('g, candidate_result) prog" where
  "build_candidate B accepted parent src_hash root binding =
     (let G = gb_git B in
      thenP (liftP (seal B accepted parent src_hash root binding)) (\<lambda>s.
      let gid = sl_gid s;
          files = candidate_files (sl_pages s) gid (sl_citation s) (sl_snapshot s) (sl_manifest_bytes s) (sl_outbox_bytes s);
          retention_ref = generation_ref gid in
      thenP (write_tree_from_files G files) (\<lambda>tree g.
      thenP (liftP (parent_commit_of G g parent)) (\<lambda>parent_commit.
      thenP (commit_tree G tree (''gen '' @ gid) parent_commit) (\<lambda>commit_oid.
      thenP (anchor G retention_ref commit_oid) (\<lambda>_.
      retP \<lparr>cand_generation_id = gid, cand_commit_oid = commit_oid, cand_retention_ref = retention_ref,
        cand_descriptor = sl_descriptor s, cand_manifest = sl_manifest s, cand_wiki_files_root = sl_wroot s,
        cand_citation_index_digest = sl_cdigest s, cand_knowledge_snapshot_digest = sl_sdigest s\<rparr>))) g)))"

subsection \<open>Verification\<close>

text \<open>\<open>bytes.fromhex\<close>: pairs of hexadecimal digits, white space between them skipped.\<close>

definition is_space :: "char \<Rightarrow> bool" where
  "is_space c \<longleftrightarrow> (of_char c :: nat) \<in> {9, 10, 11, 12, 13, 32}"

fun fromhex :: "string \<Rightarrow> bytes res" where
  "fromhex [] = Inr []"
| "fromhex [c] = (if is_space c then Inr [] else Inl ValueError)"
| "fromhex (c # d # s) =
     (if is_space c then fromhex (d # s)
      else case (hex_val c, hex_val d) of
        (Some a, Some b) \<Rightarrow> bindR (fromhex s) (\<lambda>bs. Inr (char_of (16 * a + b) # bs))
      | _ \<Rightarrow> Inl ValueError)"

definition fromhex_json :: "json \<Rightarrow> bytes res" where
  "fromhex_json j = (case j of JStr s \<Rightarrow> fromhex s | _ \<Rightarrow> Inl TypeError)"

text \<open>A lookup of a key id that came from JSON: only strings name keys, unhashable values raise.\<close>

definition with_key_id :: "json \<Rightarrow> (string \<Rightarrow> bool) \<Rightarrow> bool res" where
  "with_key_id j f =
     (case j of JStr k \<Rightarrow> Inr (f k) | JList _ \<Rightarrow> Inl TypeError | JObj _ \<Rightarrow> Inl TypeError | _ \<Rightarrow> Inr False)"

text \<open>\<open>j.get(k)\<close>, where a missing key and a null value are the same.\<close>

definition jget_or_none :: "json \<Rightarrow> string \<Rightarrow> json res" where
  "jget_or_none j k =
     (case j of JObj kvs \<Rightarrow> Inr (case map_of kvs k of None \<Rightarrow> JNull | Some v \<Rightarrow> v) | _ \<Rightarrow> Inl AttributeError)"

definition starts_with :: "string \<Rightarrow> string \<Rightarrow> bool" where
  "starts_with p s \<longleftrightarrow> take (length p) s = p"

text \<open>Equality of two dictionaries: the same keys with the same values, in any order.\<close>

definition dict_eq :: "('k, 'v) dict \<Rightarrow> ('k, 'v) dict \<Rightarrow> bool" where
  "dict_eq d e \<longleftrightarrow> list_all (\<lambda>k. map_of d k = map_of e k) (dict_keys d @ dict_keys e)"

definition at_path :: "string \<Rightarrow> string \<Rightarrow> string" where
  "at_path commit path = commit @ '':'' @ path"

text \<open>
  The content checks: the listed files are the expected ones, they hash to the digests of the
  signed descriptor, and they are what the snapshot renders to.
\<close>

definition verify_content :: "'g generation_builder \<Rightarrow> 'g \<Rightarrow> string \<Rightarrow> string \<Rightarrow> json \<Rightarrow> bool res" where
  "verify_content B g commit gid inline =
     (let L = gb_lib B; G = gb_git B in
      bindR (ls_tree G g commit) (\<lambda>listed.
      let all_paths = remdups listed;
          wiki_paths = filter (starts_with ''wiki/'') all_paths in
      if set all_paths \<noteq> set wiki_paths \<union> {''citation_index/index.json'', ''knowledge/snapshot.json'',
           ''manifest/'' @ gid @ ''.json'', ''outbox/'' @ gid @ ''.json''} then Inr False
      else
        bindR (mapR (\<lambda>p. bindR (cat_file G g (at_path commit p)) (\<lambda>b. Inr (p, b))) wiki_paths) (\<lambda>pages.
        bindR (wiki_files_root L pages) (\<lambda>wroot.
        bindR (jget_or_none inline ''wiki_files_root'') (\<lambda>w.
        if w \<noteq> JStr wroot then Inr False
        else
          case (cat_file G g (at_path commit ''citation_index/index.json''), cat_file G g (at_path commit ''knowledge/snapshot.json'')) of
            (Inr citation, Inr snapshot) \<Rightarrow>
              bindR (jget_or_none inline ''citation_index_digest'') (\<lambda>cd.
              bindR (jget_or_none inline ''knowledge_snapshot_digest'') (\<lambda>sd.
              if cd \<noteq> JStr (sha256_hex L citation) then Inr False
              else if sd \<noteq> JStr (sha256_hex L snapshot) then Inr False
              else
                case parse_snapshot L snapshot of
                  Inl _ \<Rightarrow> Inr False
                | Inr reconstructed \<Rightarrow>
                    if \<not> dict_eq (render_pages L reconstructed) pages then Inr False
                    else bindR (build_citation_index L reconstructed) (\<lambda>ci. Inr (ci = citation))))
          | _ \<Rightarrow> Inr False)))))"

definition verify_manifest :: "'g generation_builder \<Rightarrow> 'g \<Rightarrow> string \<Rightarrow> string \<Rightarrow> bool res" where
  "verify_manifest B g commit gid =
     (let L = gb_lib B; G = gb_git B in
      case cat_file G g (at_path commit (''manifest/'' @ gid @ ''.json'')) of
        Inl _ \<Rightarrow> Inr False
      | Inr raw \<Rightarrow>
          (case loads raw of
             None \<Rightarrow> Inl JSONDecodeError
           | Some manifest \<Rightarrow>
               bindR (jget_or_none manifest ''generation_id'') (\<lambda>mg.
               if mg \<noteq> JStr gid then Inr False
               else
                 bindR (get_obj manifest ''descriptor'') (\<lambda>descriptor.
                 bindR (canonical_hash L (json_py descriptor)) (\<lambda>h.
                 if h \<noteq> gid then Inr False
                 else
                   bindR (jindex manifest ''signer_key_id'') (\<lambda>signer.
                   bindR (jindex manifest ''signature'') (\<lambda>sj.
                   bindR (fromhex_json sj) (\<lambda>sig.
                   bindR (with_key_id signer (\<lambda>k. verify (gb_ed B) (gb_keyring B) k gid sig)) (\<lambda>ok.
                   if \<not> ok then Inr False
                   else
                     bindR (get_obj descriptor ''inline_artifacts'') (\<lambda>inline.
                     verify_content B g commit gid inline)))))))))) "

text \<open>The truth value of a JSON value; a number is false if its mantissa has no digit but zero.\<close>

definition truthy :: "json \<Rightarrow> bool" where
  "truthy j =
     (case j of
        JNum n \<Rightarrow> list_ex (\<lambda>c. is_digit c \<and> c \<noteq> CHR ''0'') (takeWhile (\<lambda>c. c \<notin> set ''eE'') n)
      | _ \<Rightarrow> j \<notin> {JNull, JBool False, JStr [], JList [], JObj []})"

definition verify_release :: "'g generation_builder \<Rightarrow> 'g \<Rightarrow> string \<Rightarrow> string \<Rightarrow> bool res" where
  "verify_release B g release_commit gid =
     (let L = gb_lib B; G = gb_git B in
      case cat_file G g (at_path release_commit (''release/'' @ gid @ ''.json'')) of
        Inl _ \<Rightarrow> Inr False
      | Inr raw \<Rightarrow>
          (case loads raw of
             None \<Rightarrow> Inl JSONDecodeError
           | Some rm \<Rightarrow>
               bindR (jget_or_none rm ''generation_id'') (\<lambda>rg.
               if rg \<noteq> JStr gid then Inr False
               else
                 bindR (jget_or_none rm ''signature'') (\<lambda>sj.
                 bindR (jget_or_none rm ''signer_key_id'') (\<lambda>signer.
                 if \<not> truthy sj \<or> \<not> truthy signer then Inr False
                 else
                   let body = (case rm of JObj kvs \<Rightarrow> JObj (filter (\<lambda>kv. fst kv \<noteq> ''signature'') kvs) | _ \<Rightarrow> rm) in
                   bindR (canonical_hash L (json_py body)) (\<lambda>h.
                   bindR (fromhex_json sj) (\<lambda>sig.
                   with_key_id signer (\<lambda>k. verify_domain (gb_ed B) (gb_keyring B) k ''wiki.release.v1'' h sig))))))))"

subsection \<open>Hexadecimal\<close>

lemma hex_digit_not_space: "n < 16 \<Longrightarrow> \<not> is_space (hex_digit n)"
  by (auto simp: hex_digit_def is_space_def)

lemma fromhex_hex: "fromhex (hex bs) = Inr bs"
proof (induction bs)
  case Nil
  then show ?case by (simp add: hex_def)
next
  case (Cons b bs)
  have "(of_char b :: nat) < 256" by simp
  then have d: "of_char b div 16 < (16 :: nat)" "of_char b mod 16 < (16 :: nat)" by linarith simp
  have "hex (b # bs) = hex_digit (of_char b div 16) # hex_digit (of_char b mod 16) # hex bs"
    by (simp add: hex_def hex_byte_def Let_def)
  with Cons d show ?case by (simp add: hex_digit_not_space hex_val_hex_digit)
qed

lemma hex_slug_chars: "list_all is_slug_char (hex bs)"
proof -
  have "is_hex_char c \<Longrightarrow> is_slug_char c" for c by (auto simp: is_hex_char_def is_slug_char_def)
  with hex_is_hex [of bs] show ?thesis by (simp add: list_all_iff)
qed

lemma nfc_hex: "nfc_ascii L \<Longrightarrow> nfc L (hex bs) = hex bs"
proof (erule nfc_asciiD)
  have "is_hex_char c \<Longrightarrow> (of_char c :: nat) < 128" for c by (auto simp: is_hex_char_def is_digit_def)
  with hex_is_hex [of bs] show "list_all (\<lambda>c. (of_char c :: nat) < 128) (hex bs)" by (simp add: list_all_iff)
qed

subsection \<open>Paths\<close>

lemma plain_path_append: "plain_path (p @ q) \<longleftrightarrow> (p = [] \<or> plain_path p) \<and> (q = [] \<or> plain_path q) \<and> (p \<noteq> [] \<or> q \<noteq> [])"
  by (auto simp: plain_path_def)

lemma plain_path_slug_chars: "list_all is_slug_char p \<Longrightarrow> p = [] \<or> plain_path p"
  by (auto simp: plain_path_def list_all_iff)

lemma slug_sub_chars: "list_all (\<lambda>c. is_slug_char c \<or> c = CHR ''-'') (slug_sub b s)"
  by (induction b s rule: slug_sub.induct) simp_all

lemma list_all_strip: "list_all P s \<Longrightarrow> list_all P (strip_char d s)"
  by (auto simp: strip_char_def list_all_iff dest!: set_dropWhileD)

lemma slug_plain: "slug L s = [] \<or> plain_path (slug L s)"
  using list_all_strip [OF slug_sub_chars, of "CHR ''-''" False "lower L s"]
  by (auto simp: slug_def plain_path_def list_all_iff)

lemma page_path_plain: "plain_path (page_path L su)" "starts_with ''wiki/'' (page_path L su)"
proof -
  have "list_all is_slug_char (take 12 (sha256_hex L su))"
    using hex_slug_chars [of "sha256 L su"] by (auto simp: sha256_hex_def list_all_iff dest: in_set_takeD)
  with slug_plain [of L su] show "plain_path (page_path L su)"
    by (auto simp: page_path_def Let_def plain_path_append dest!: plain_path_slug_chars)
      (simp_all add: plain_path_def is_slug_char_def)
  show "starts_with ''wiki/'' (page_path L su)" by (simp add: starts_with_def page_path_def Let_def)
qed

definition add_key :: "('a \<Rightarrow> 'k) \<Rightarrow> 'a \<times> 'b \<Rightarrow> 'k list \<Rightarrow> 'k list" where
  "add_key f x ks = (if f (fst x) \<in> set ks then ks else ks @ [f (fst x)])"

lemma fold_dict_set_keys:
  "dict_keys (fold (\<lambda>(k, v). dict_set (f k) (h k v)) xs d) = fold (add_key f) xs (dict_keys d)"
proof (induction xs arbitrary: d)
  case (Cons x xs)
  then show ?case by (cases x) (simp only: fold_simps comp_apply case_prod_conv add_key_def update_keys fst_conv)
qed simp

lemma distinct_fold_add_key: "distinct ks \<Longrightarrow> distinct (fold (add_key f) xs ks)"
  by (induction xs arbitrary: ks) (simp_all add: add_key_def)

lemma set_fold_add_key: "set (fold (add_key f) xs ks) = set ks \<union> f ` fst ` set xs"
  by (induction xs arbitrary: ks) (auto simp: add_key_def)

lemma render_pages_keys:
  "distinct (dict_keys (render_pages L cs))"
  "p \<in> set (dict_keys (render_pages L cs)) \<Longrightarrow> \<exists>su. p = page_path L su"
  unfolding render_pages_def fold_dict_set_keys
  by (simp_all add: distinct_fold_add_key set_fold_add_key) blast

lemma starts_with_no: "\<not> starts_with ''wiki/'' ''citation_index/index.json''" "\<not> starts_with ''wiki/'' ''knowledge/snapshot.json''"
  "\<not> starts_with ''wiki/'' (''manifest/'' @ x)" "\<not> starts_with ''wiki/'' (''outbox/'' @ x)"
  by (simp_all add: starts_with_def)

text \<open>The files of a candidate, by path.\<close>

abbreviation manifest_path :: "string \<Rightarrow> string" where
  "manifest_path gid \<equiv> ''manifest/'' @ gid @ ''.json''"

abbreviation outbox_path :: "string \<Rightarrow> string" where
  "outbox_path gid \<equiv> ''outbox/'' @ gid @ ''.json''"

lemma candidate_files_map:
  "map_of (candidate_files pages gid ci sn mb ob) =
     (map_of pages)(''citation_index/index.json'' \<mapsto> ci, ''knowledge/snapshot.json'' \<mapsto> sn,
       manifest_path gid \<mapsto> mb, outbox_path gid \<mapsto> ob)"
  by (simp only: candidate_files_def update_conv')

lemma candidate_files_get:
  "map_of (candidate_files pages gid ci sn mb ob) ''citation_index/index.json'' = Some ci"
  "map_of (candidate_files pages gid ci sn mb ob) ''knowledge/snapshot.json'' = Some sn"
  "map_of (candidate_files pages gid ci sn mb ob) (manifest_path gid) = Some mb"
  unfolding candidate_files_map by simp_all

lemma candidate_files_wiki:
  assumes "starts_with ''wiki/'' p"
  shows "map_of (candidate_files pages gid ci sn mb ob) p = map_of pages p"
proof -
  from assms starts_with_no have "p \<noteq> ''citation_index/index.json''" "p \<noteq> ''knowledge/snapshot.json''"
    "p \<noteq> manifest_path gid" "p \<noteq> outbox_path gid" by metis+
  then show ?thesis unfolding candidate_files_map by (simp only: fun_upd_apply if_False)
qed

lemma candidate_files_wiki_dom:
  assumes "\<And>p. p \<in> dom (map_of pages) \<Longrightarrow> starts_with ''wiki/'' p"
  shows "{p \<in> dom (map_of (candidate_files pages gid ci sn mb ob)). starts_with ''wiki/'' p} = dom (map_of pages)"
proof (intro set_eqI iffI)
  fix p assume p: "p \<in> dom (map_of pages)"
  from assms [OF this] show "p \<in> {p \<in> dom (map_of (candidate_files pages gid ci sn mb ob)). starts_with ''wiki/'' p}"
    using p by (simp only: mem_Collect_eq domIff candidate_files_wiki simp_thms)
qed (use candidate_files_wiki in \<open>fastforce simp only: mem_Collect_eq domIff\<close>)

lemma candidate_files_dom:
  "dom (map_of (candidate_files pages gid ci sn mb ob)) = dom (map_of pages) \<union> {''citation_index/index.json'',
     ''knowledge/snapshot.json'', manifest_path gid, outbox_path gid}"
  unfolding candidate_files_map dom_fun_upd by (simp add: insert_commute)

lemma candidate_files_distinct:
  "distinct (dict_keys pages) \<Longrightarrow> distinct (dict_keys (candidate_files pages gid ci sn mb ob))"
  by (simp add: candidate_files_def distinct_keys_set)

lemma candidate_files_plain:
  assumes "list_all is_slug_char gid" "\<And>p. p \<in> dom (map_of pages) \<Longrightarrow> plain_path p"
  shows "\<forall>p\<in>dom (map_of (candidate_files pages gid ci sn mb ob)). plain_path p"
proof -
  have "plain_path (''manifest/'' @ gid @ ''.json'')" "plain_path (''outbox/'' @ gid @ ''.json'')"
    "plain_path ''citation_index/index.json''" "plain_path ''knowledge/snapshot.json''"
    using assms(1) by (auto simp: plain_path_def list_all_iff is_slug_char_def)
  with assms(2) show ?thesis unfolding candidate_files_dom by blast
qed

subsection \<open>Sealed candidates\<close>

lemma canonical_bytes_reload:
  "canonical_bytes L v = Inr b \<Longrightarrow> loads b = Some (sort_keys (canonical_form_of L v)) \<and> jwf (canonical_form_of L v)"
  using canon.to_bytes_loads [of L v b] canon.to_bytes_Inr_iff [of L v b] canonical_form_wf [of L True v]
  by (simp add: canonical_bytes_def)

lemma canonical_hash_reload:
  assumes "nfc_idem L" "canonical_hash L v = Inr h"
  shows "canonical_hash L (json_py (sort_keys (canonical_form_of L v))) = Inr h"
proof -
  from assms(2) obtain b where b: "canonical_bytes L v = Inr b" "h = sha256_hex L b" by (auto simp: canonical_hash_bytes)
  then have adm: "admissible L True v" "b = dumps_sorted (canonical_form_of L v)"
    using canon.to_bytes_Inr_iff [of L v b] by (simp_all add: canonical_bytes_def)
  have "normal L (sort_keys (canonical_form_of L v))"
    by (rule normal_sort_keys [OF normal_canonical_form [OF assms(1) adm(1)]])
  then show ?thesis using adm b by (simp add: canonical_hash_json dumps_sorted_def)
qed

lemma canonical_hash_wf: "canonical_hash L v = Inr h \<Longrightarrow> jwf (canonical_form_of L v)"
  using canonical_bytes_reload by (auto simp: canonical_hash_bytes)

lemma get_sort_keys:
  assumes "jwf j" "jget j k = Some v"
  shows "jget_or_none (sort_keys j) k = Inr (sort_keys v)" "get_obj (sort_keys j) k = Inr (sort_keys v)"
  using jget_sort_keys [OF assms(1), of k] assms(2)
  by (auto simp: jget_or_none_def get_obj_def jget_def split: json.splits option.splits)

lemma get_sort_keys_str: "jwf j \<Longrightarrow> jget j k = Some (JStr x) \<Longrightarrow> jget_or_none (sort_keys j) k = Inr (JStr x)"
  by (simp add: get_sort_keys)

lemma sealD:
  assumes "seal B cs parent src_hash root binding = Inr s"
  defines "L \<equiv> gb_lib B"
  shows "sl_pages s = render_pages L cs" "build_citation_index L cs = Inr (sl_citation s)"
    "build_snapshot L cs = Inr (sl_snapshot s)" "wiki_files_root L (sl_pages s) = Inr (sl_wroot s)"
    "sl_cdigest s = sha256_hex L (sl_citation s)" "sl_sdigest s = sha256_hex L (sl_snapshot s)"
    "sl_descriptor s = descriptor_of (gb_profile B) parent src_hash root (sl_wroot s) (sl_cdigest s) (sl_sdigest s) binding"
    "canonical_hash L (sl_descriptor s) = Inr (sl_gid s)" "canonical_bytes L (sl_manifest s) = Inr (sl_manifest_bytes s)"
    "\<exists>sig. sign (gb_ed B) (gb_keyring B) (gb_key_id B) (sl_gid s) = Inr sig \<and>
       sl_manifest s = manifest_value (sl_descriptor s) (sl_gid s) (gb_key_id B) (hex sig)"
  using assms(1) unfolding seal_def Let_def bindR_Inr_iff L_def by auto

lemma canonical_hash_hex: "canonical_hash L v = Inr h \<Longrightarrow> \<exists>d. h = hex d"
  by (auto simp: canonical_hash_bytes sha256_hex_def)

lemma descriptor_inline:
  assumes "nfc_ascii L"
  shows "jget (canonical_form_of L (descriptor_of profile parent sh root w c sd binding)) ''inline_artifacts'' =
    Some (JObj [(''wiki_files_root'', JStr (nfc L w)), (''citation_index_digest'', JStr (nfc L c)),
      (''knowledge_snapshot_digest'', JStr (nfc L sd))])"
  using nfc_asciiD [OF assms] by (simp add: descriptor_of_def canonical_form_pdict jget_def)

lemma manifest_get:
  assumes "nfc_ascii L"
  shows "jget (canonical_form_of L (manifest_value d gid kid sg)) ''descriptor'' = Some (canonical_form_of L d)"
    "jget (canonical_form_of L (manifest_value d gid kid sg)) ''generation_id'' = Some (JStr (nfc L gid))"
    "jget (canonical_form_of L (manifest_value d gid kid sg)) ''signer_key_id'' = Some (JStr (nfc L kid))"
    "jget (canonical_form_of L (manifest_value d gid kid sg)) ''signature'' = Some (JStr (nfc L sg))"
  using nfc_asciiD [OF assms] by (simp_all add: manifest_value_def canonical_form_pdict jget_def)

text \<open>The root over the pages does not depend on the order in which they are listed.\<close>

lemma wiki_files_root_perm: "mset pages = mset pages' \<Longrightarrow> wiki_files_root L pages = wiki_files_root L pages'"
  unfolding wiki_files_root_def canonical_hash_def canonical_bytes_def pdict_def
  by (subst canon.to_bytes_perm [of "map (\<lambda>(k, v). (PStr k, v)) (map (\<lambda>(path, data). (path, PStr (sha256_hex L data))) pages)"
        "map (\<lambda>(k, v). (PStr k, v)) (map (\<lambda>(path, data). (path, PStr (sha256_hex L data))) pages')"]) simp_all

lemma dict_eq_perm:
  assumes "distinct (dict_keys d)" "set d = set e" "distinct (dict_keys e)"
  shows "dict_eq d e"
proof -
  have "map_of d = map_of e" by (rule map_of_inject_set [THEN iffD2, OF assms(1,3,2)])
  then show ?thesis by (simp add: dict_eq_def list_all_iff)
qed

abbreviation sealed_files :: "sealed \<Rightarrow> (string, bytes) dict" where
  "sealed_files s \<equiv> candidate_files (sl_pages s) (sl_gid s) (sl_citation s) (sl_snapshot s) (sl_manifest_bytes s) (sl_outbox_bytes s)"

text \<open>Reading a dictionary back by a list of its keys gives the dictionary again, up to order.\<close>

lemma read_back:
  assumes "distinct (dict_keys d)" "distinct ks" "set ks = dom (map_of d)"
  shows "set (map (\<lambda>k. (k, the (map_of d k))) ks) = set d" "mset (map (\<lambda>k. (k, the (map_of d k))) ks) = mset d"
    "distinct (dict_keys (map (\<lambda>k. (k, the (map_of d k))) ks))"
proof -
  show s: "set (map (\<lambda>k. (k, the (map_of d k))) ks) = set d"
  proof (intro set_eqI iffI)
    fix x assume "x \<in> set d"
    then have "map_of d (fst x) = Some (snd x)" using map_of_is_SomeI [OF assms(1)] by simp
    then show "x \<in> set (map (\<lambda>k. (k, the (map_of d k))) ks)" using assms(3) by (force simp: dom_def)
  next
    fix x assume "x \<in> set (map (\<lambda>k. (k, the (map_of d k))) ks)"
    then obtain k v where "x = (k, v)" "map_of d k = Some v" using assms(3) by (auto simp: dom_def)
    then show "x \<in> set d" by (simp add: map_of_SomeD)
  qed
  show d: "distinct (dict_keys (map (\<lambda>k. (k, the (map_of d k))) ks))" using assms(2) by (simp add: comp_def)
  show "mset (map (\<lambda>k. (k, the (map_of d k))) ks) = mset d"
    using set_eq_iff_mset_eq_distinct [THEN iffD1, OF _ _ s] d assms(1) by (simp only: distinct_map)
qed

lemma sealed_plain:
  assumes "seal B cs parent sh root binding = Inr s"
  shows "\<forall>p\<in>dom (map_of (sealed_files s)). plain_path p"
    and "distinct (dict_keys (sl_pages s))" and "p \<in> dom (map_of (sl_pages s)) \<Longrightarrow> starts_with ''wiki/'' p"
proof -
  note D = sealD [OF assms]
  have keys: "\<exists>su. p = page_path (gb_lib B) su" if "p \<in> dom (map_of (sl_pages s))" for p
    using that render_pages_keys(2) [of p "gb_lib B" cs] by (simp add: D(1) dom_map_of_conv_image_fst)
  then show "p \<in> dom (map_of (sl_pages s)) \<Longrightarrow> starts_with ''wiki/'' p" using page_path_plain(2) by blast
  show "distinct (dict_keys (sl_pages s))" unfolding D(1) by (rule render_pages_keys(1))
  obtain d where "sl_gid s = hex d" using canonical_hash_hex [OF D(8)] ..
  then show "\<forall>p\<in>dom (map_of (sealed_files s)). plain_path p"
    using keys page_path_plain(1) by (intro candidate_files_plain) (auto simp: hex_slug_chars)
qed

lemma content_verifies:
  assumes git: "git_ok (gb_git B) V" and L: "L = gb_lib B" "nfc_ascii L"
    and cs: "\<forall>c\<in>set cs. good_claim L c" "sorted (map (assertion_id \<circ> assertion) cs)"
    and seal: "seal B cs parent sh root binding = Inr s"
    and files: "holds_files V g c (map_of (sealed_files s))"
    and inline: "jget_or_none inline ''wiki_files_root'' = Inr (JStr (sl_wroot s))"
      "jget_or_none inline ''citation_index_digest'' = Inr (JStr (sl_cdigest s))"
      "jget_or_none inline ''knowledge_snapshot_digest'' = Inr (JStr (sl_sdigest s))"
  shows "verify_content B g c (sl_gid s) inline = Inr True"
proof -
  note D = sealD [OF seal, folded L(1)] and P = sealed_plain [OF seal]
  note snap = snapshot_rebuilds [OF L(2) cs]
  obtain ps where ps: "ls_tree (gb_git B) g c = Inr ps" "set ps = dom (map_of (sealed_files s))"
    using ls_tree_holds [OF git files P(1)] by blast
  let ?wp = "filter (starts_with ''wiki/'') (remdups ps)"
  let ?pages = "map (\<lambda>p. (p, the (map_of (sl_pages s) p))) ?wp"
  have wp: "set ?wp = dom (map_of (sl_pages s))"
    using candidate_files_wiki_dom [of "sl_pages s"] P(3) by (simp only: set_filter set_remdups ps(2))
  note rb = read_back [OF P(2), of ?wp, OF _ wp]
  have allowed: "set (remdups ps) = set ?wp \<union> {''citation_index/index.json'', ''knowledge/snapshot.json'',
      manifest_path (sl_gid s), outbox_path (sl_gid s)}"
    unfolding wp by (simp only: set_remdups ps(2) candidate_files_dom)
  have "mapR (\<lambda>p. bindR (cat_file (gb_git B) g (at_path c p)) (\<lambda>b. Inr (p, b))) ?wp = Inr ?pages"
  proof (rule mapR_all_Inr)
    fix p assume p: "p \<in> set ?wp"
    then have "p \<in> dom (map_of (sl_pages s))" using wp by blast
    then obtain b where "map_of (sl_pages s) p = Some b" by blast
    moreover from p have "map_of (sealed_files s) p = map_of (sl_pages s) p" by (simp add: candidate_files_wiki)
    ultimately show "bindR (cat_file (gb_git B) g (at_path c p)) (\<lambda>b. Inr (p, b)) = Inr (p, the (map_of (sl_pages s) p))"
      using cat_file_holds [OF git files, of p b] by (simp add: at_path_def)
  qed
  moreover have "wiki_files_root L ?pages = Inr (sl_wroot s)"
    using wiki_files_root_perm [OF rb(2)] D(4) by simp
  moreover have "cat_file (gb_git B) g (at_path c ''citation_index/index.json'') = Inr (sl_citation s)"
    "cat_file (gb_git B) g (at_path c ''knowledge/snapshot.json'') = Inr (sl_snapshot s)"
    unfolding at_path_def by (rule cat_file_holds [OF git files], rule candidate_files_get)+
  moreover have "parse_snapshot L (sl_snapshot s) = Inr (map sort_claim cs)" using snap(1,2) D(3) by simp
  moreover have "dict_eq (render_pages L (map sort_claim cs)) ?pages"
    using rb(1,3) P(2) by (intro dict_eq_perm) (simp_all only: snap(3) D(1), simp_all)
  moreover have "build_citation_index L (map sort_claim cs) = Inr (sl_citation s)" using snap(5) D(2) by simp
  ultimately show ?thesis
    unfolding verify_content_def Let_def L(1) [symmetric]
    using ps(1) allowed inline D(5,6) by (simp only: bindR_simps) simp
qed

text \<open>What the builder relies on: a correct signature scheme, its key on the ring, and NFC.\<close>

definition builder_ok :: "'g generation_builder \<Rightarrow> 'g git_view \<Rightarrow> bool" where
  "builder_ok B V \<longleftrightarrow>
     git_ok (gb_git B) V \<and> ed_correct (gb_ed B) \<and> paired (gb_ed B) (gb_keyring B) (gb_key_id B) \<and>
     nfc_ascii (gb_lib B) \<and> nfc_idem (gb_lib B) \<and> nfc (gb_lib B) (gb_key_id B) = gb_key_id B"

lemma builder_okD:
  assumes "builder_ok B V"
  shows "git_ok (gb_git B) V" "ed_correct (gb_ed B)" "paired (gb_ed B) (gb_keyring B) (gb_key_id B)"
    "nfc_ascii (gb_lib B)" "nfc_idem (gb_lib B)" "nfc (gb_lib B) (gb_key_id B) = gb_key_id B"
  using assms by (simp_all add: builder_ok_def)

lemma manifest_verifies:
  assumes ok: "builder_ok B V" and cs: "\<forall>c\<in>set cs. good_claim (gb_lib B) c" "sorted (map (assertion_id \<circ> assertion) cs)"
    and seal: "seal B cs parent sh root binding = Inr s" and files: "holds_files V g c (map_of (sealed_files s))"
  shows "verify_manifest B g c (sl_gid s) = Inr True"
proof -
  let ?L = "gb_lib B"
  note D = sealD [OF seal] and ok = builder_okD [OF ok]
  obtain sig where sig: "sign (gb_ed B) (gb_keyring B) (gb_key_id B) (sl_gid s) = Inr sig"
      "sl_manifest s = manifest_value (sl_descriptor s) (sl_gid s) (gb_key_id B) (hex sig)"
    using D(10) by blast
  have ver: "verify (gb_ed B) (gb_keyring B) (gb_key_id B) (sl_gid s) sig"
    using sign_verify [OF ok(2,3), of "sl_gid s"] sig(1) by auto
  obtain d where gid: "sl_gid s = hex d" using canonical_hash_hex [OF D(8)] ..
  let ?m = "canonical_form_of ?L (sl_manifest s)" and ?d = "canonical_form_of ?L (sl_descriptor s)"
  note re = canonical_bytes_reload [OF D(9)]
  note mget = manifest_get [OF ok(4), of "sl_descriptor s" "sl_gid s" "gb_key_id B" "hex sig", folded sig(2)]
  have raw: "cat_file (gb_git B) g (at_path c (manifest_path (sl_gid s))) = Inr (sl_manifest_bytes s)"
    unfolding at_path_def by (rule cat_file_holds [OF ok(1) files], rule candidate_files_get)
  have m: "jget_or_none (sort_keys ?m) ''generation_id'' = Inr (JStr (sl_gid s))"
    "get_obj (sort_keys ?m) ''descriptor'' = Inr (sort_keys ?d)"
    "jindex (sort_keys ?m) ''signer_key_id'' = Inr (JStr (gb_key_id B))"
    "jindex (sort_keys ?m) ''signature'' = Inr (JStr (hex sig))"
    using re mget ok(6) nfc_hex [OF ok(4)]
    by (simp_all add: get_sort_keys jindex_sort_keys gid)
  have h: "canonical_hash ?L (json_py (sort_keys ?d)) = Inr (sl_gid s)"
    by (rule canonical_hash_reload [OF ok(5) D(8)])
  let ?i = "JObj [(''wiki_files_root'', JStr (sl_wroot s)), (''citation_index_digest'', JStr (sl_cdigest s)),
      (''knowledge_snapshot_digest'', JStr (sl_sdigest s))]"
  have "nfc ?L (sl_wroot s) = sl_wroot s" "nfc ?L (sl_cdigest s) = sl_cdigest s" "nfc ?L (sl_sdigest s) = sl_sdigest s"
    using D(4-6) canonical_hash_hex nfc_hex [OF ok(4)] unfolding wiki_files_root_def sha256_hex_def by metis+
  then have i: "jget ?d ''inline_artifacts'' = Some ?i"
    using descriptor_inline [OF ok(4)] by (simp only: D(7))
  have inl: "get_obj (sort_keys ?d) ''inline_artifacts'' = Inr (sort_keys ?i)"
    by (rule get_sort_keys(2) [OF canonical_hash_wf [OF D(8)] i])
  have "verify_content B g c (sl_gid s) (sort_keys ?i) = Inr True"
  proof (rule content_verifies [OF ok(1) refl ok(4) cs seal files])
    show "jget_or_none (sort_keys ?i) ''wiki_files_root'' = Inr (JStr (sl_wroot s))"
      "jget_or_none (sort_keys ?i) ''citation_index_digest'' = Inr (JStr (sl_cdigest s))"
      "jget_or_none (sort_keys ?i) ''knowledge_snapshot_digest'' = Inr (JStr (sl_sdigest s))"
      by (rule get_sort_keys_str; simp add: jget_def)+
  qed
  then show ?thesis
    unfolding verify_manifest_def Let_def
    using raw re m h inl ver by (simp add: fromhex_json_def fromhex_hex with_key_id_def del: sort_keys.simps)
qed

lemma anchor_spec:
  assumes "git_ok G V" "anchor G ref oid g = (Inr (), g')"
  shows "grows V g g'" "v_ref V g' ref = Some oid" "v_ref V g' = (v_ref V g)(ref \<mapsto> oid)"
    "v_ref V g ref = Some old \<Longrightarrow> old \<noteq> [] \<Longrightarrow> old = oid"
proof -
  show "v_ref V g ref = Some old \<Longrightarrow> old \<noteq> [] \<Longrightarrow> old = oid"
    using assms(2) git_ok_read [OF assms(1), of g ref] by (auto simp: anchor_def read_ref_def Let_def split: if_splits)
  have "grows V g g' \<and> v_ref V g' = (v_ref V g)(ref \<mapsto> oid)"
  proof (cases "read_ref G g ref")
    case None
    with assms(2) obtain fmt where "git_update_ref G ref oid (Some (zero_oid fmt)) g = (Inr (), g')"
      by (auto simp: anchor_def create_ref_only_def thenP_Inr_iff)
    from git_ok_ref [OF assms(1) this] show ?thesis by simp
  next
    case (Some e)
    with assms(2) have "e = oid" "g' = g" by (auto simp: anchor_def split: if_splits)
    with Some git_ok_read [OF assms(1), of g ref] have "v_ref V g ref = Some oid"
      by (auto simp: read_ref_def Let_def split: if_splits option.splits)
    with \<open>g' = g\<close> show ?thesis by (simp add: fun_upd_idem)
  qed
  then show "grows V g g'" "v_ref V g' ref = Some oid" "v_ref V g' = (v_ref V g)(ref \<mapsto> oid)" by simp_all
qed

lemma build_candidateD:
  assumes "build_candidate B cs parent sh root binding g = (Inr c, g')"
  obtains s tree g1 g2 pc where "seal B cs parent sh root binding = Inr s"
    "write_tree_from_files (gb_git B) (sealed_files s) g = (Inr tree, g1)"
    "commit_tree (gb_git B) tree (''gen '' @ sl_gid s) pc g1 = (Inr (cand_commit_oid c), g2)"
    "anchor (gb_git B) (generation_ref (sl_gid s)) (cand_commit_oid c) g2 = (Inr (), g')"
    "cand_generation_id c = sl_gid s" "cand_manifest c = sl_manifest s" "cand_wiki_files_root c = sl_wroot s"
    "cand_citation_index_digest c = sl_cdigest s" "cand_descriptor c = sl_descriptor s"
  using assms unfolding build_candidate_def Let_def thenP_Inr_iff by auto

lemma candidate_spec:
  assumes ok: "builder_ok B V" and cs: "\<forall>c\<in>set cs. good_claim (gb_lib B) c" "sorted (map (assertion_id \<circ> assertion) cs)"
    and build: "build_candidate B cs parent sh root binding g = (Inr c, g')"
  obtains s where "seal B cs parent sh root binding = Inr s" "cand_generation_id c = sl_gid s" "grows V g g'"
    "holds_files V g' (cand_commit_oid c) (map_of (sealed_files s))"
    "v_ref V g' = (v_ref V g)(generation_ref (sl_gid s) \<mapsto> cand_commit_oid c)" "cand_commit_oid c \<noteq> []"
    "\<forall>oid. v_ref V g (generation_ref (sl_gid s)) = Some oid \<and> oid \<noteq> [] \<longrightarrow> oid = cand_commit_oid c"
    "cand_manifest c = sl_manifest s" "cand_wiki_files_root c = sl_wroot s" "cand_citation_index_digest c = sl_cdigest s"
proof -
  obtain s tree g1 g2 pc where b: "seal B cs parent sh root binding = Inr s"
    "write_tree_from_files (gb_git B) (sealed_files s) g = (Inr tree, g1)"
    "commit_tree (gb_git B) tree (''gen '' @ sl_gid s) pc g1 = (Inr (cand_commit_oid c), g2)"
    "anchor (gb_git B) (generation_ref (sl_gid s)) (cand_commit_oid c) g2 = (Inr (), g')" "cand_generation_id c = sl_gid s"
    "cand_manifest c = sl_manifest s" "cand_wiki_files_root c = sl_wroot s" "cand_citation_index_digest c = sl_cdigest s"
    using build_candidateD [OF build] by metis
  note A = anchor_spec [OF builder_okD(1) [OF ok] b(4)]
  have d: "distinct (dict_keys (sealed_files s))" by (rule candidate_files_distinct [OF sealed_plain(2) [OF b(1)]])
  note W = write_commit_spec [OF builder_okD(1) [OF ok] d b(2,3)]
  show ?thesis
  proof (rule that [OF b(1,5)])
    show "grows V g g'" by (rule grows_trans [OF conjunct1 [OF W] A(1)])
    show "holds_files V g' (cand_commit_oid c) (map_of (sealed_files s))"
      by (rule holds_files_grows [OF conjunct1 [OF conjunct2 [OF conjunct2 [OF W]]] A(1)])
    show "v_ref V g' = (v_ref V g)(generation_ref (sl_gid s) \<mapsto> cand_commit_oid c)"
      using A(3) unfolding conjunct1 [OF conjunct2 [OF W]] .
    show "cand_commit_oid c \<noteq> []" using W by blast
    show "\<forall>oid. v_ref V g (generation_ref (sl_gid s)) = Some oid \<and> oid \<noteq> [] \<longrightarrow> oid = cand_commit_oid c"
      using A(4) unfolding conjunct1 [OF conjunct2 [OF W]] by blast
  qed (rule b)+
qed

text \<open>
  C8: what is built verifies, for ever. A candidate that was built from well-formed claims, sorted
  as the publisher sorts them, passes \<open>verify_manifest\<close> in the repository that the build leaves and in
  every later one that only adds objects; and the generation's retention reference points to its
  commit.
\<close>

theorem built_candidate_verifies:
  assumes "builder_ok B V" "\<forall>c\<in>set cs. good_claim (gb_lib B) c" "sorted (map (assertion_id \<circ> assertion) cs)"
    and "build_candidate B cs parent sh root binding g = (Inr c, g')"
  shows "(\<forall>g''. grows V g' g'' \<longrightarrow> verify_manifest B g'' (cand_commit_oid c) (cand_generation_id c) = Inr True) \<and>
         v_ref V g' (generation_ref (cand_generation_id c)) = Some (cand_commit_oid c)"
proof -
  obtain s where s: "seal B cs parent sh root binding = Inr s" "cand_generation_id c = sl_gid s" "grows V g g'"
    "holds_files V g' (cand_commit_oid c) (map_of (sealed_files s))"
    "v_ref V g' = (v_ref V g)(generation_ref (sl_gid s) \<mapsto> cand_commit_oid c)"
    using candidate_spec [OF assms] by metis
  show ?thesis
  proof (intro conjI allI impI)
    show "verify_manifest B g'' (cand_commit_oid c) (cand_generation_id c) = Inr True" if "grows V g' g''" for g''
      unfolding s(2) by (rule manifest_verifies [OF assms(1-3) s(1) holds_files_grows [OF s(4) that]])
    show "v_ref V g' (generation_ref (cand_generation_id c)) = Some (cand_commit_oid c)"
      unfolding s(2,5) by (rule fun_upd_same)
  qed
qed

subsection \<open>Building succeeds\<close>

lemma admissible_pdict:
  "admissible L tup (pdict kvs) \<longleftrightarrow> (\<forall>(k, v)\<in>set kvs. admissible L tup v) \<and> distinct (map (\<lambda>kv. nfc L (fst kv)) kvs)"
  by (auto simp: pdict_def admissible_PDict comp_def split_beta)

lemma canonical_total: "admissible L True v \<Longrightarrow> \<exists>b. canonical_bytes L v = Inr b" "admissible L True v \<Longrightarrow> \<exists>h. canonical_hash L v = Inr h"
  by (simp_all add: canonical_hash_def canonical_bytes_def canon.norm_eq)

lemma nfc_plain: "nfc_ascii L \<Longrightarrow> plain_path p \<Longrightarrow> nfc L p = p"
  by (rule nfc_asciiD) (auto simp: plain_path_def is_slug_char_def is_digit_def list_all_iff)

lemma wiki_files_root_total:
  assumes "nfc_ascii L"
  shows "\<exists>h. wiki_files_root L (render_pages L cs) = Inr h"
proof -
  have "map (\<lambda>kv. nfc L (fst kv)) (map (\<lambda>(path, data). (path, PStr (sha256_hex L data))) (render_pages L cs)) = dict_keys (render_pages L cs)"
  proof (simp add: split_beta, intro ballI)
    fix x assume "x \<in> set (render_pages L cs)"
    then obtain su where "fst x = page_path L su" using render_pages_keys(2) [of "fst x" L cs] by auto
    then show "nfc L (fst x) = fst x" using nfc_plain [OF assms page_path_plain(1)] by simp
  qed
  with render_pages_keys(1) [of L cs] show ?thesis
    unfolding wiki_files_root_def by (intro canonical_total(2)) (auto simp: admissible_pdict simp del: map_map)
qed

lemma seal_total:
  assumes ok: "builder_ok B V" and cs: "\<forall>c\<in>set cs. good_claim (gb_lib B) c" "sorted (map (assertion_id \<circ> assertion) cs)"
    and binding: "\<forall>b. binding = Some b \<longrightarrow> admissible (gb_lib B) True b"
  shows "\<exists>s. seal B cs parent sh root binding = Inr s"
proof -
  let ?L = "gb_lib B"
  note snap = snapshot_rebuilds [OF builder_okD(4) [OF ok] cs]
  note ok = builder_okD [OF ok]
  obtain w where w: "wiki_files_root ?L (render_pages ?L cs) = Inr w" using wiki_files_root_total [OF ok(4)] by blast
  have lit: "nfc ?L k = k" if "list_all (\<lambda>c. (of_char c :: nat) < 128) k" for k by (rule nfc_asciiD [OF ok(4) that])
  have eng: "admissible ?L True (pstr_dict ENGINE_VERSIONS)"
    by (simp add: pstr_dict_def admissible_PDict ENGINE_VERSIONS_def lit)
  have d: "admissible ?L True (descriptor_of (gb_profile B) parent sh root w x y binding)" for x y
    using eng binding by (cases binding) (simp_all add: descriptor_of_def admissible_pdict lit)
  have m: "admissible ?L True (manifest_value (descriptor_of (gb_profile B) parent sh root w x y binding) g k sg)" for x y g k sg
    using d by (simp add: manifest_value_def admissible_pdict lit)
  have ob: "admissible ?L True (outbox_value ?L g)" for g by (simp add: outbox_value_def admissible_pdict lit)
  obtain sg where sg: "sign (gb_ed B) (gb_keyring B) (gb_key_id B) x = Inr (sg x)" for x
    using sign_verify [OF ok(2,3)] by metis
  show ?thesis
    unfolding seal_def Let_def using snap(1,4) w canonical_total(2) [OF d] canonical_total(1) [OF m] canonical_total(1) [OF ob] sg
    by (simp add: bindR_Inr_iff) metis
qed

subsection \<open>When Git's commands succeed\<close>

text \<open>
  The names for which success is assumed. The paths of a candidate have two components, so that none
  is a directory of another; the references are those that the publisher creates, and one is free when
  it does not exist and no existing reference is a directory of it or below it.
\<close>

definition component :: "string \<Rightarrow> bool" where
  "component c \<longleftrightarrow> c \<notin> {[], ''.'', ''..''} \<and> \<not> starts_with ''.git'' c \<and>
     list_all (\<lambda>x. is_slug_char x \<or> x \<in> set ''-_.'') c"

definition two_level :: "string \<Rightarrow> bool" where
  "two_level p \<longleftrightarrow> (\<exists>d n. p = d @ ''/'' @ n \<and> component d \<and> component n)"

definition own_ref :: "string \<Rightarrow> bool" where
  "own_ref ref \<longleftrightarrow> (\<exists>n. (ref = ''refs/wiki/generations/'' @ n \<or> ref = ''refs/wiki/release-objects/'' @ n) \<and>
     n \<noteq> [] \<and> list_all is_slug_char n)"

definition ref_free :: "(string \<Rightarrow> string option) \<Rightarrow> string \<Rightarrow> bool" where
  "ref_free refs ref \<longleftrightarrow> refs ref = None \<and>
     (\<forall>other. refs other \<noteq> None \<longrightarrow> \<not> starts_with (ref @ ''/'') other \<and> \<not> starts_with (other @ ''/'') ref)"

text \<open>
  Git works: objects can be written, a path can be added to an index of such paths, an index whose
  blobs exist gives a tree, a tree that exists gives a commit on parents that exist, and a free
  reference can be created for a commit that exists when the expected old value is the null object of
  the repository's format. Nothing is assumed of an update that its compare-and-swap would refuse.
\<close>

definition objects_total :: "'g git \<Rightarrow> bool" where
  "objects_total G \<longleftrightarrow> (\<forall>b g. \<exists>oid g'. git_hash_object G b g = (Inr oid, g'))"

definition index_total :: "'g git \<Rightarrow> 'g git_view \<Rightarrow> bool" where
  "index_total G V \<longleftrightarrow>
     (\<forall>g idx oid p. v_blob V g oid \<noteq> None \<and> two_level p \<and> (\<forall>q\<in>dom (map_of idx). two_level q) \<longrightarrow>
        (\<exists>idx'. git_update_index G g idx oid p = Inr idx'))"

definition tree_total :: "'g git \<Rightarrow> 'g git_view \<Rightarrow> bool" where
  "tree_total G V \<longleftrightarrow>
     (\<forall>idx g. (\<forall>p oid. map_of idx p = Some oid \<longrightarrow> two_level p \<and> v_blob V g oid \<noteq> None) \<longrightarrow>
        (\<exists>t g'. git_write_tree G idx g = (Inr t, g')))"

definition commit_total :: "'g git \<Rightarrow> 'g git_view \<Rightarrow> bool" where
  "commit_total G V \<longleftrightarrow>
     (\<forall>t msg par g. v_tree V g t \<noteq> None \<and> CHR 0x00 \<notin> set msg \<and> (\<forall>c. par = Some c \<longrightarrow> v_commit V g c \<noteq> None) \<longrightarrow>
        (\<exists>c g'. git_commit_tree G t msg par g = (Inr c, g')))"

definition ref_total :: "'g git \<Rightarrow> 'g git_view \<Rightarrow> bool" where
  "ref_total G V \<longleftrightarrow>
     (\<forall>g. \<exists>fmt. git_object_format G g = Inr fmt \<and>
        (\<forall>ref new. own_ref ref \<and> ref_free (v_ref V g) ref \<and> v_commit V g new \<noteq> None \<longrightarrow>
           (\<exists>g'. git_update_ref G ref new (Some (zero_oid fmt)) g = (Inr (), g'))))"

definition git_total :: "'g git \<Rightarrow> 'g git_view \<Rightarrow> bool" where
  "git_total G V \<longleftrightarrow> objects_total G \<and> index_total G V \<and> tree_total G V \<and> commit_total G V \<and> ref_total G V"

lemma git_totalD:
  assumes "git_total G V"
  shows "\<exists>oid g'. git_hash_object G b g = (Inr oid, g')"
    and "v_blob V g oid \<noteq> None \<Longrightarrow> two_level p \<Longrightarrow> \<forall>q\<in>dom (map_of idx). two_level q \<Longrightarrow>
      \<exists>idx'. git_update_index G g idx oid p = Inr idx'"
    and "\<forall>p oid. map_of idx p = Some oid \<longrightarrow> two_level p \<and> v_blob V g oid \<noteq> None \<Longrightarrow>
      \<exists>t g'. git_write_tree G idx g = (Inr t, g')"
    and "v_tree V g t \<noteq> None \<Longrightarrow> CHR 0x00 \<notin> set msg \<Longrightarrow> \<forall>c. par = Some c \<longrightarrow> v_commit V g c \<noteq> None \<Longrightarrow>
      \<exists>c g'. git_commit_tree G t msg par g = (Inr c, g')"
    and "\<exists>fmt. git_object_format G g = Inr fmt \<and>
        (\<forall>ref new. own_ref ref \<and> ref_free (v_ref V g) ref \<and> v_commit V g new \<noteq> None \<longrightarrow>
           (\<exists>g'. git_update_ref G ref new (Some (zero_oid fmt)) g = (Inr (), g')))"
proof -
  from assms have T: "objects_total G" "index_total G V" "tree_total G V" "commit_total G V" "ref_total G V"
    by (simp_all add: git_total_def)
  show "\<exists>oid g'. git_hash_object G b g = (Inr oid, g')" using T(1) by (simp add: objects_total_def)
  show "v_blob V g oid \<noteq> None \<Longrightarrow> two_level p \<Longrightarrow> \<forall>q\<in>dom (map_of idx). two_level q \<Longrightarrow>
      \<exists>idx'. git_update_index G g idx oid p = Inr idx'"
    using T(2) unfolding index_total_def by presburger
  show "\<forall>p oid. map_of idx p = Some oid \<longrightarrow> two_level p \<and> v_blob V g oid \<noteq> None \<Longrightarrow>
      \<exists>t g'. git_write_tree G idx g = (Inr t, g')"
    using T(3) unfolding tree_total_def by presburger
  show "v_tree V g t \<noteq> None \<Longrightarrow> CHR 0x00 \<notin> set msg \<Longrightarrow> \<forall>c. par = Some c \<longrightarrow> v_commit V g c \<noteq> None \<Longrightarrow>
      \<exists>c g'. git_commit_tree G t msg par g = (Inr c, g')"
    using T(4) unfolding commit_total_def by presburger
  show "\<exists>fmt. git_object_format G g = Inr fmt \<and>
        (\<forall>ref new. own_ref ref \<and> ref_free (v_ref V g) ref \<and> v_commit V g new \<noteq> None \<longrightarrow>
           (\<exists>g'. git_update_ref G ref new (Some (zero_oid fmt)) g = (Inr (), g')))"
    using T(5) unfolding ref_total_def by (rule spec)
qed

text \<open>A digest of SHA-256 has 32 bytes.\<close>

definition sha_sized :: "lib \<Rightarrow> bool" where
  "sha_sized L \<longleftrightarrow> (\<forall>x. length (sha256 L x) = 32)"

lemma componentI:
  "list_all (\<lambda>c. is_slug_char c \<or> c \<in> set ''-_.'') s \<Longrightarrow> s \<noteq> [] \<Longrightarrow> hd s \<noteq> CHR ''.'' \<Longrightarrow> component s"
  by (cases s) (auto simp: component_def starts_with_def)

lemma slug_char_not_dot: "is_slug_char c \<Longrightarrow> c \<noteq> CHR ''.''" "\<not> is_slug_char CHR 0x00"
  by (auto simp: is_slug_char_def is_digit_def)

lemma component_json: "list_all is_slug_char x \<Longrightarrow> component (x @ ''.json'')"
proof (cases x)
  case Nil
  have "component ''.json''" by code_simp
  with Nil show ?thesis by simp
next
  case (Cons c cs)
  assume x: "list_all is_slug_char x"
  have "is_slug_char CHR ''j'' \<and> is_slug_char CHR ''s'' \<and> is_slug_char CHR ''o'' \<and> is_slug_char CHR ''n''" by code_simp
  then have "list_all (\<lambda>c. is_slug_char c \<or> c \<in> set ''-_.'') (x @ ''.json'')" using x by (simp add: list_all_iff)
  then show ?thesis by (rule componentI) (use x Cons slug_char_not_dot(1) in auto)
qed

lemma component_md:
  assumes "stem \<noteq> []" "list_all (\<lambda>c. is_slug_char c \<or> c = CHR ''-'') stem" "list_all is_slug_char x"
  shows "component (stem @ ''--'' @ x @ ''.md'')"
proof -
  let ?P = "\<lambda>c. is_slug_char c \<or> c \<in> set ''-_.''"
  have md: "is_slug_char CHR ''m''" "is_slug_char CHR ''d''" by code_simp+
  have 1: "list_all ?P stem" by (rule list.pred_mono_strong [OF assms(2)]) auto
  have 2: "list_all ?P x" by (rule list.pred_mono_strong [OF assms(3)]) auto
  obtain c cs where c: "stem = c # cs" using assms(1) by (cases stem) auto
  with assms(2) have "is_slug_char c \<or> c = CHR ''-''" by simp
  then have "c \<noteq> CHR ''.''" using slug_char_not_dot(1) [of c] by auto
  with 1 2 md c show ?thesis by (intro componentI) simp_all
qed

lemma two_level_paths:
  assumes "list_all is_slug_char gid"
  shows "two_level (page_path L su)" "two_level ''citation_index/index.json''" "two_level ''knowledge/snapshot.json''"
    "two_level (''manifest/'' @ gid @ ''.json'')" "two_level (''outbox/'' @ gid @ ''.json'')"
    "two_level (''release/'' @ gid @ ''.json'')"
proof -
  have lits: "component ''wiki''" "component ''citation_index''" "component ''index.json''" "component ''knowledge''"
    "component ''snapshot.json''" "component ''manifest''" "component ''outbox''" "component ''release''"
    by code_simp+
  have sfx: "list_all is_slug_char (take 12 (sha256_hex L su))"
    using hex_slug_chars [of "sha256 L su"] by (auto simp: sha256_hex_def list_all_iff dest: in_set_takeD)
  have sl: "list_all (\<lambda>c. is_slug_char c \<or> c = CHR ''-'') (slug L su)"
    using list_all_strip [OF slug_sub_chars, of "CHR ''-''" False "lower L su"] by (simp add: slug_def)
  have "list_all (\<lambda>c. is_slug_char c \<or> c = CHR ''-'') ''entity''" by code_simp
  then have "component ((if slug L su \<noteq> [] then slug L su else ''entity'') @ ''--'' @ take 12 (sha256_hex L su) @ ''.md'')"
    using sl sfx by (intro component_md) auto
  moreover have "page_path L su = ''wiki'' @ ''/'' @ (if slug L su \<noteq> [] then slug L su else ''entity'') @ ''--'' @
      take 12 (sha256_hex L su) @ ''.md''"
    by (simp add: page_path_def Let_def)
  ultimately show "two_level (page_path L su)" unfolding two_level_def using lits(1) by blast
  show "two_level ''citation_index/index.json''" "two_level ''knowledge/snapshot.json''"
    unfolding two_level_def using lits
    by (intro exI [of _ "''citation_index''"] exI [of _ "''index.json''"], simp)
      (intro exI [of _ "''knowledge''"] exI [of _ "''snapshot.json''"], simp add: lits)
  show "two_level (''manifest/'' @ gid @ ''.json'')" "two_level (''outbox/'' @ gid @ ''.json'')"
    "two_level (''release/'' @ gid @ ''.json'')"
    unfolding two_level_def using lits component_json [OF assms]
    by (intro exI [of _ "''manifest''"] exI [of _ "gid @ ''.json''"], simp)
      (intro exI [of _ "''outbox''"] exI [of _ "gid @ ''.json''"], simp add: lits component_json [OF assms],
       intro exI [of _ "''release''"] exI [of _ "gid @ ''.json''"], simp add: lits component_json [OF assms])
qed

lemma sealed_gid:
  assumes "seal B cs parent sh root binding = Inr s"
  shows "list_all is_slug_char (sl_gid s)" "sha_sized (gb_lib B) \<Longrightarrow> length (sl_gid s) = 64"
proof -
  obtain b where b: "sl_gid s = hex (sha256 (gb_lib B) b)"
    using sealD(8) [OF assms] by (auto simp: canonical_hash_bytes sha256_hex_def)
  then show "list_all is_slug_char (sl_gid s)" by (simp add: hex_slug_chars)
  have "length (hex x) = 2 * length x" for x by (induction x) (simp_all add: hex_def hex_byte_def Let_def)
  with b show "sha_sized (gb_lib B) \<Longrightarrow> length (sl_gid s) = 64" by (simp add: sha_sized_def)
qed

lemma sealed_two_level:
  assumes "seal B cs parent sh root binding = Inr s"
  shows "\<forall>f\<in>set (sealed_files s). two_level (fst f)"
proof -
  have "\<exists>su. p = page_path (gb_lib B) su" if "p \<in> dom (map_of (sl_pages s))" for p
    using that render_pages_keys(2) [of p "gb_lib B" cs] by (simp add: sealD(1) [OF assms] dom_map_of_conv_image_fst)
  then have "\<forall>p\<in>dom (map_of (sealed_files s)). two_level p"
    using two_level_paths [OF sealed_gid(1) [OF assms]] unfolding candidate_files_dom by blast
  then show ?thesis by (simp add: dom_map_of_conv_image_fst)
qed

lemma add_files_total:
  assumes "git_ok G V" "git_total G V" "\<forall>f\<in>set fs. two_level (fst f)"
    and "\<forall>p oid. map_of idx p = Some oid \<longrightarrow> two_level p \<and> v_blob V g oid \<noteq> None"
  shows "\<exists>idx' g'. add_files G idx fs g = (Inr idx', g') \<and> grows V g g' \<and> v_ref V g' = v_ref V g \<and>
     (\<forall>p oid. map_of idx' p = Some oid \<longrightarrow> two_level p \<and> v_blob V g' oid \<noteq> None)"
  using assms(3,4)
proof (induction fs arbitrary: idx g)
  case Nil
  then show ?case by (intro exI [of _ idx] exI [of _ g]) simp
next
  case (Cons f fs)
  obtain path data where f: "f = (path, data)" by (cases f)
  obtain oid g1 where 1: "git_hash_object G data g = (Inr oid, g1)" using git_totalD(1) [OF assms(2)] by blast
  note H = git_ok_hash [OF assms(1) 1]
  have tl: "two_level path" "\<forall>q\<in>dom (map_of idx). two_level q" using Cons.prems by (auto simp: f)
  obtain idx1 where 2: "git_update_index G g1 idx oid path = Inr idx1"
    using git_totalD(2) [OF assms(2) _ tl] H by blast
  have "\<forall>p o'. map_of idx1 p = Some o' \<longrightarrow> two_level p \<and> v_blob V g1 o' \<noteq> None"
  proof (intro allI impI)
    fix p o' assume o: "map_of idx1 p = Some o'"
    show "two_level p \<and> v_blob V g1 o' \<noteq> None"
    proof (cases "p = path")
      case True
      with o git_ok_index [OF assms(1) 2] H tl(1) show ?thesis by simp
    next
      case False
      with o git_ok_index [OF assms(1) 2] have "map_of idx p = Some o'" by simp
      then obtain b where "two_level p" "v_blob V g o' = Some b" using Cons.prems(2) by blast
      with growsD(1) [of V g g1] H show ?thesis by blast
    qed
  qed
  with Cons.IH [of idx1 g1] Cons.prems(1) obtain idx' g' where 3: "add_files G idx1 fs g1 = (Inr idx', g')"
      "grows V g1 g'" "v_ref V g' = v_ref V g1" "\<forall>p oid. map_of idx' p = Some oid \<longrightarrow> two_level p \<and> v_blob V g' oid \<noteq> None"
    by auto
  then show ?case using 1 2 H grows_trans [of V g g1 g'] by (auto simp: f thenP_Inr thenP_liftP)
qed

lemma write_tree_total:
  assumes "git_ok G V" "git_total G V" "\<forall>f\<in>set files. two_level (fst f)"
  shows "\<exists>t g'. write_tree_from_files G files g = (Inr t, g') \<and> grows V g g' \<and> v_ref V g' = v_ref V g \<and> v_tree V g' t \<noteq> None"
proof -
  obtain idx g1 where 1: "add_files G [] (sort_key fst files) g = (Inr idx, g1)" "grows V g g1" "v_ref V g1 = v_ref V g"
      "\<forall>p oid. map_of idx p = Some oid \<longrightarrow> two_level p \<and> v_blob V g1 oid \<noteq> None"
    using add_files_total [OF assms(1,2), of "sort_key fst files" "[]" g] assms(3) by auto
  obtain t g2 where 2: "git_write_tree G idx g1 = (Inr t, g2)" using git_totalD(3) [OF assms(2) 1(4)] by blast
  with 1 git_ok_tree [OF assms(1) 2] grows_trans [of V g g1 g2] show ?thesis
    by (simp add: write_tree_from_files_def thenP_def)
qed

text \<open>The parent of a build: its reference points to a commit that the repository holds.\<close>

definition buildable :: "'g git_view \<Rightarrow> 'g \<Rightarrow> string option \<Rightarrow> bool" where
  "buildable V g parent \<longleftrightarrow> or_empty parent = [] \<or>
     (\<exists>c. v_ref V g (generation_ref (or_empty parent)) = Some c \<and> c \<noteq> [] \<and> v_commit V g c \<noteq> None)"

lemma read_ref_view: "git_ok G V \<Longrightarrow> read_ref G g ref = (case v_ref V g ref of None \<Rightarrow> None | Some c \<Rightarrow> if c = [] then None else Some c)"
  by (simp add: read_ref_def git_ok_read Let_def split: option.splits)

lemma anchor_total:
  assumes "git_ok G V" "git_total G V" "own_ref ref" "ref_free (v_ref V g) ref" "v_commit V g c \<noteq> None"
  shows "\<exists>g'. anchor G ref c g = (Inr (), g')"
proof -
  have r: "git_rev_parse G g ref = []" using git_ok_read [OF assms(1)] assms(4) by (simp add: ref_free_def)
  obtain fmt g' where "git_object_format G g = Inr fmt" "git_update_ref G ref c (Some (zero_oid fmt)) g = (Inr (), g')"
    using git_totalD(5) [OF assms(2), of g] assms(3-5) by blast
  then show ?thesis by (simp add: anchor_def read_ref_def r create_ref_only_def thenP_liftP)
qed

lemma commit_files_total:
  assumes "git_ok G V" "git_total G V" "\<forall>f\<in>set files. two_level (fst f)" "own_ref ref" "ref_free (v_ref V g) ref"
  shows "\<exists>t g1. write_tree_from_files G files g = (Inr t, g1) \<and> v_ref V g1 = v_ref V g \<and>
     (\<forall>msg pc. CHR 0x00 \<notin> set msg \<and> (\<forall>p. pc = Some p \<longrightarrow> v_commit V g p \<noteq> None) \<longrightarrow>
        (\<exists>c g2 g'. commit_tree G t msg pc g1 = (Inr c, g2) \<and> anchor G ref c g2 = (Inr (), g')))"
proof -
  obtain t g1 where t: "write_tree_from_files G files g = (Inr t, g1)" "grows V g g1" "v_ref V g1 = v_ref V g" "v_tree V g1 t \<noteq> None"
    using write_tree_total [OF assms(1-3)] by blast
  have "\<exists>c g2 g'. commit_tree G t msg pc g1 = (Inr c, g2) \<and> anchor G ref c g2 = (Inr (), g')"
    if m: "CHR 0x00 \<notin> set msg" and pc: "\<forall>p. pc = Some p \<longrightarrow> v_commit V g p \<noteq> None" for msg pc
  proof -
    let ?pc = "case pc of Some (c # cs) \<Rightarrow> Some (c # cs) | _ \<Rightarrow> None"
    have "\<forall>c. ?pc = Some c \<longrightarrow> v_commit V g1 c \<noteq> None"
      using pc growsD(3) [OF t(2)] by (auto split: option.splits list.splits)
    then obtain c g2 where c: "git_commit_tree G t msg ?pc g1 = (Inr c, g2)" using git_totalD(4) [OF assms(2) t(4) m] by blast
    note C = git_ok_commit [OF assms(1) c]
    have "ref_free (v_ref V g2) ref" using C t(3) assms(5) by simp
    with C obtain g' where "anchor G ref c g2 = (Inr (), g')" using anchor_total [OF assms(1,2,4)] by blast
    with c show ?thesis by (auto simp: commit_tree_def)
  qed
  with t show ?thesis by blast
qed

lemma build_candidate_total:
  assumes ok: "builder_ok B V" and G: "git_total (gb_git B) V" "sha_sized (gb_lib B)" and good: "\<forall>c\<in>set cs. good_claim (gb_lib B) c"
    and sorted: "sorted (map (assertion_id \<circ> assertion) cs)" and "\<forall>b. binding = Some b \<longrightarrow> admissible (gb_lib B) True b"
    and parent: "buildable V g parent"
    and fresh: "\<forall>s. seal B cs parent sh root binding = Inr s \<longrightarrow> ref_free (v_ref V g) (generation_ref (sl_gid s))"
  shows "\<exists>c g'. build_candidate B cs parent sh root binding g = (Inr c, g')"
proof -
  let ?G = "gb_git B"
  note git = builder_okD(1) [OF ok]
  obtain s where s: "seal B cs parent sh root binding = Inr s" using seal_total [OF ok good sorted assms(6)] by blast
  note gid = sealed_gid(1) [OF s] sealed_gid(2) [OF s G(2)]
  have own: "own_ref (generation_ref (sl_gid s))" using gid by (auto simp: own_ref_def generation_ref_def)
  from s fresh have f: "ref_free (v_ref V g) (generation_ref (sl_gid s))" by blast
  obtain t g1 where t: "write_tree_from_files ?G (sealed_files s) g = (Inr t, g1)" "v_ref V g1 = v_ref V g"
    and c: "\<forall>msg pc. CHR 0x00 \<notin> set msg \<and> (\<forall>p. pc = Some p \<longrightarrow> v_commit V g p \<noteq> None) \<longrightarrow>
        (\<exists>c g2 g'. commit_tree ?G t msg pc g1 = (Inr c, g2) \<and> anchor ?G (generation_ref (sl_gid s)) c g2 = (Inr (), g'))"
    using commit_files_total [OF git G(1) sealed_two_level [OF s] own f] by blast
  have "\<exists>pc. parent_commit_of ?G g1 parent = Inr pc \<and> (\<forall>p. pc = Some p \<longrightarrow> v_commit V g p \<noteq> None)"
    using parent t(2) unfolding buildable_def by (elim disjE exE) (auto simp: parent_commit_of_def read_ref_view [OF git])
  then obtain pc where pc: "parent_commit_of ?G g1 parent = Inr pc" "\<forall>p. pc = Some p \<longrightarrow> v_commit V g p \<noteq> None" by blast
  have "CHR 0x00 \<notin> set (''gen '' @ sl_gid s)" using gid(1) by (auto simp: list_all_iff is_slug_char_def is_digit_def)
  with c pc(2) obtain c g2 g' where co: "commit_tree ?G t (''gen '' @ sl_gid s) pc g1 = (Inr c, g2)"
      and an: "anchor ?G (generation_ref (sl_gid s)) c g2 = (Inr (), g')"
    by blast
  have "build_candidate B cs parent sh root binding g = (Inr \<lparr>cand_generation_id = sl_gid s, cand_commit_oid = c,
      cand_retention_ref = generation_ref (sl_gid s), cand_descriptor = sl_descriptor s, cand_manifest = sl_manifest s,
      cand_wiki_files_root = sl_wroot s, cand_citation_index_digest = sl_cdigest s, cand_knowledge_snapshot_digest = sl_sdigest s\<rparr>, g')"
    by (simp add: build_candidate_def Let_def thenP_def liftP_def s t(1) pc(1) co [simplified] an)
  then show ?thesis by blast
qed

subsection \<open>A concrete repository\<close>

text \<open>
  Objects are numbered, references are updated by compare-and-swap, and an index or a commit that names a
  missing object is refused; the model satisfies every law of \<open>git_ok\<close> and \<open>git_total\<close>.
\<close>

record demo_repo =
  dr_blobs :: "bytes list"
  dr_trees :: "(string, string) dict list"
  dr_commits :: "string list"
  dr_refs :: "(string, string) dict"

definition nth_oid :: "'a list \<Rightarrow> string \<Rightarrow> 'a option" where
  "nth_oid xs oid = map_of (zip (map str_nat [0..<length xs]) xs) oid"

definition demo_view :: "demo_repo git_view" where
  "demo_view = \<lparr>v_blob = (\<lambda>r. nth_oid (dr_blobs r)), v_tree = (\<lambda>r oid. map_option map_of (nth_oid (dr_trees r) oid)),
     v_commit = (\<lambda>r. nth_oid (dr_commits r)), v_ref = (\<lambda>r. map_of (dr_refs r))\<rparr>"

definition demo_git :: "demo_repo git" where
  "demo_git =
     \<lparr>git_hash_object = (\<lambda>b r. (Inr (str_nat (length (dr_blobs r))), r\<lparr>dr_blobs := dr_blobs r @ [b]\<rparr>)),
      git_update_index = (\<lambda>r idx oid p. if nth_oid (dr_blobs r) oid = None then Inl GitError else Inr (dict_set p oid idx)),
      git_write_tree = (\<lambda>idx r. (Inr (str_nat (length (dr_trees r))), r\<lparr>dr_trees := dr_trees r @ [idx]\<rparr>)),
      git_commit_tree = (\<lambda>t m p r.
        if nth_oid (dr_trees r) t = None \<or> (case p of None \<Rightarrow> False | Some c \<Rightarrow> nth_oid (dr_commits r) c = None) then (Inl GitError, r)
        else (Inr (str_nat (length (dr_commits r))), r\<lparr>dr_commits := dr_commits r @ [t]\<rparr>)),
      git_update_ref = (\<lambda>ref new old r.
        let current = (case map_of (dr_refs r) ref of None \<Rightarrow> zero_oid ''sha1'' | Some oid \<Rightarrow> oid) in
        if (case old of None \<Rightarrow> False | Some x \<Rightarrow> x \<noteq> current) then (Inl GitError, r)
        else (Inr (), r\<lparr>dr_refs := dict_set ref new (dr_refs r)\<rparr>)),
      git_rev_parse = (\<lambda>r ref. case map_of (dr_refs r) ref of None \<Rightarrow> [] | Some oid \<Rightarrow> oid),
      git_cat_file = (\<lambda>r spec.
        let c = takeWhile (\<lambda>x. x \<noteq> CHR '':'') spec; p = tl (dropWhile (\<lambda>x. x \<noteq> CHR '':'') spec) in
        case nth_oid (dr_commits r) c of None \<Rightarrow> Inl GitError | Some t \<Rightarrow>
        (case nth_oid (dr_trees r) t of None \<Rightarrow> Inl GitError | Some idx \<Rightarrow>
        (case map_of idx p of None \<Rightarrow> Inl GitError | Some oid \<Rightarrow>
        (case nth_oid (dr_blobs r) oid of None \<Rightarrow> Inl GitError | Some b \<Rightarrow> Inr b)))),
      git_ls_tree = (\<lambda>r c. case nth_oid (dr_commits r) c of None \<Rightarrow> Inl GitError | Some t \<Rightarrow>
        (case nth_oid (dr_trees r) t of None \<Rightarrow> Inl GitError | Some idx \<Rightarrow> Inr (dict_keys idx))),
      git_object_format = (\<lambda>r. Inr ''sha1'')\<rparr>"

lemma nth_oid_snoc:
  "nth_oid xs \<subseteq>\<^sub>m nth_oid (xs @ [x])" "nth_oid (xs @ [x]) (str_nat (length xs)) = Some x"
proof -
  have snoc: "nth_oid (xs @ [x]) = [str_nat (length xs) \<mapsto> x] ++ nth_oid xs"
    by (rule ext) (simp add: nth_oid_def fun_eq_iff map_add_def split: option.splits)
  then show "nth_oid xs \<subseteq>\<^sub>m nth_oid (xs @ [x])" by (simp add: map_le_map_add)
  have "nth_oid xs (str_nat (length xs)) = None" unfolding nth_oid_def map_of_eq_None_iff by (auto dest!: set_zip_leftD)
  then show "nth_oid (xs @ [x]) (str_nat (length xs)) = Some x" by (simp add: snoc map_add_def)
qed

lemma nth_oid_digits: "nth_oid xs oid = Some x \<Longrightarrow> CHR '':'' \<notin> set oid"
proof -
  assume "nth_oid xs oid = Some x"
  then obtain n where "oid = str_nat n" by (auto simp: nth_oid_def dest!: map_of_SomeD set_zip_leftD)
  with str_nat_digits [of n] show ?thesis by (auto simp: list_all_iff is_digit_def)
qed

lemma demo_git_ok: "git_ok demo_git demo_view"
proof -
  have tr: "(\<lambda>oid. map_option map_of (nth_oid xs oid)) \<subseteq>\<^sub>m (\<lambda>oid. map_option map_of (nth_oid (xs @ [x]) oid))"
    for xs :: "(string, string) dict list" and x
  proof -
    have "nth_oid xs oid = Some y \<Longrightarrow> nth_oid (xs @ [x]) oid = Some y" for oid y
      by (rule map_leD [OF nth_oid_snoc(1)])
    then show ?thesis by (fastforce simp: map_le_def)
  qed
  have spl: "takeWhile (\<lambda>x. x \<noteq> CHR '':'') (c @ CHR '':'' # p) = c" "dropWhile (\<lambda>x. x \<noteq> CHR '':'') (c @ CHR '':'' # p) = CHR '':'' # p"
    if "CHR '':'' \<notin> set c" for c p
    using that by (induction c) auto
  show ?thesis
    unfolding git_ok_def
  proof (intro conjI)
    show "show_ok demo_git demo_view"
      using spl [OF nth_oid_digits [of "xs :: string list" for xs]]
      by (auto simp: show_ok_def demo_git_def demo_view_def Let_def)
    show "list_ok demo_git demo_view"
      by (auto simp: list_ok_def demo_git_def demo_view_def dom_map_of_conv_image_fst)
  qed (auto simp: hash_ok_def index_ok_def tree_ok_def commit_ok_def ref_ok_def read_ok_def demo_git_def demo_view_def
      grows_def nth_oid_snoc tr fun_eq_iff)
qed

lemma demo_git_total: "git_total demo_git demo_view"
  unfolding git_total_def objects_total_def index_total_def tree_total_def commit_total_def ref_total_def
  by (intro conjI) (auto simp: demo_git_def demo_view_def ref_free_def Let_def split: option.splits)

lemma demo_sha_sized: "sha_sized demo_lib"
  by (auto simp: sha_sized_def demo_lib_def)

definition demo_builder :: "demo_repo generation_builder" where
  "demo_builder = \<lparr>gb_lib = demo_lib, gb_git = demo_git, gb_ed = demo_ed, gb_keyring = add_private demo_ed keyring_init ''k1'' ''s'',
     gb_key_id = ''k1'', gb_profile = ''phase1''\<rparr>"

definition empty_repo :: demo_repo where
  "empty_repo = \<lparr>dr_blobs = [], dr_trees = [], dr_commits = [], dr_refs = []\<rparr>"

lemma demo_builder_ok: "builder_ok demo_builder demo_view"
  by (simp add: builder_ok_def demo_builder_def demo_git_ok paired_add_private) (simp add: demo_ed_def ed_correct_def)

theorem built_candidate_verifies_witness:
  "\<exists>c g'. build_candidate demo_builder [demo_claim] None ''h'' ''r'' None empty_repo = (Inr c, g') \<and>
     verify_manifest demo_builder g' (cand_commit_oid c) (cand_generation_id c) = Inr True"
proof -
  have g: "\<forall>c\<in>set [demo_claim]. good_claim (gb_lib demo_builder) c" using demo_claim_good by (simp add: demo_builder_def)
  have "v_ref demo_view empty_repo = (\<lambda>_. None)" by (simp add: demo_view_def empty_repo_def fun_eq_iff)
  then obtain c g' where b: "build_candidate demo_builder [demo_claim] None ''h'' ''r'' None empty_repo = (Inr c, g')"
    using build_candidate_total [OF demo_builder_ok _ _ g, of None empty_repo None "''h''" "''r''"] demo_git_total demo_sha_sized
    by (auto simp: demo_builder_def buildable_def or_empty_def ref_free_def)
  from built_candidate_verifies [OF demo_builder_ok g _ b] have "verify_manifest demo_builder g' (cand_commit_oid c) (cand_generation_id c) = Inr True"
    by simp
  with b show ?thesis by blast
qed

end
