(* ===== verification/Publish.thy ===== *)
theory Publish
  imports Generation Search
begin

text \<open>
  \<open>publish.py\<close>: preparing, activating and repairing publications, over a state of a Git repository
  and a control plane. Each database call commits on its own, so an exception leaves the effect of
  the calls before it.

  The results: a publication that returns leaves exactly the parent's knowledge, extended by the
  new claims and without the revoked ones, and the artifact it points to verifies; and the
  publisher keeps the references and the database in step.
\<close>

record 'g publisher =
  pub_repo :: 'g
  pub_cp :: control_plane

definition on_repo :: "('g, 'a) prog \<Rightarrow> ('g publisher, 'a) prog" where
  "on_repo m s = (case m (pub_repo s) of (r, g) \<Rightarrow> (r, s\<lparr>pub_repo := g\<rparr>))"

definition on_cp :: "(control_plane \<Rightarrow> control_plane) \<Rightarrow> ('g publisher, unit) prog" where
  "on_cp f s = (Inr (), s\<lparr>pub_cp := f (pub_cp s)\<rparr>)"

definition on_cp_res :: "(control_plane \<Rightarrow> control_plane res) \<Rightarrow> ('g publisher, unit) prog" where
  "on_cp_res f s = (case f (pub_cp s) of Inl e \<Rightarrow> (Inl e, s) | Inr cp \<Rightarrow> (Inr (), s\<lparr>pub_cp := cp\<rparr>))"

record prepared_publication =
  pp_parent_generation_id :: "string option"
  pp_candidate :: "candidate_result option"
  pp_release_commit_oid :: "string option"
  pp_surviving :: "compiled_claim list"
  pp_revoked_claim_ids :: "string list"
  pp_attempts :: nat
  pp_noop :: bool

record publish_result =
  pr_generation_id :: "string option"
  pr_candidate_commit_oid :: "string option"
  pr_release_commit_oid :: "string option"
  pr_attempts :: nat
  pr_noop :: bool

datatype parent_check = AnyParent | ExpectParent "string option"

definition parent_claims :: "'g generation_builder \<Rightarrow> 'g publisher \<Rightarrow> string option \<Rightarrow> compiled_claim list res" where
  "parent_claims B s parent =
     (case parent of
        None \<Rightarrow> Inr []
      | Some p \<Rightarrow>
          (case generation_commit (pub_cp s) p of
             None \<Rightarrow> Inl RuntimeError
           | Some commit \<Rightarrow>
               bindR (verify_manifest B (pub_repo s) commit p) (\<lambda>ok.
               if \<not> ok then Inl RuntimeError
               else bindR (cat_file (gb_git B) (pub_repo s) (at_path commit ''knowledge/snapshot.json'')) (\<lambda>data.
                    parse_snapshot (gb_lib B) data))))"

definition release_ref :: "string \<Rightarrow> string" where
  "release_ref gid = ''refs/wiki/release-objects/'' @ gid"

definition release_body :: "'g generation_builder \<Rightarrow> candidate_result \<Rightarrow> string option \<Rightarrow> (string \<times> pyval) list" where
  "release_body B cand previous =
     [(''generation_id'', PStr (cand_generation_id cand)), (''candidate_commit_oid'', PStr (cand_commit_oid cand)),
      (''publication_profile'', PStr (gb_profile B)),
      (''required_read_models'', PList
         [pdict [(''model_name'', PStr ''wiki_files''), (''artifact_manifest_digest'', PStr (cand_wiki_files_root cand))],
          pdict [(''model_name'', PStr ''citation_index''), (''artifact_manifest_digest'', PStr (cand_citation_index_digest cand))]]),
      (''previous_release_commit_oid'', PStr (or_empty previous)), (''signer_key_id'', PStr (gb_key_id B))]"

definition release_manifest_bytes :: "'g generation_builder \<Rightarrow> candidate_result \<Rightarrow> string option \<Rightarrow> bytes res" where
  "release_manifest_bytes B cand previous =
     (let L = gb_lib B; body = release_body B cand previous in
      bindR (canonical_hash L (pdict body)) (\<lambda>h.
      bindR (sign_domain (gb_ed B) (gb_keyring B) (gb_key_id B) ''wiki.release.v1'' h) (\<lambda>sig.
      canonical_bytes L (pdict (dict_set ''signature'' (PStr (hex sig)) body)))))"

definition build_release_commit :: "'g generation_builder \<Rightarrow> candidate_result \<Rightarrow> string option \<Rightarrow> ('g, string) prog" where
  "build_release_commit B cand previous =
     (let G = gb_git B; gid = cand_generation_id cand in
      thenP (liftP (release_manifest_bytes B cand previous)) (\<lambda>data.
      thenP (write_tree_from_files G [(''release/'' @ gid @ ''.json'', data)]) (\<lambda>tree.
      thenP (commit_tree G tree (''release '' @ gid) (Some (cand_commit_oid cand))) (\<lambda>oid.
      thenP (anchor G (release_ref gid) oid) (\<lambda>_. retP oid)))))"

subsection \<open>Prepare\<close>

definition claim_of :: "compiled_claim \<Rightarrow> string" where
  "claim_of c = claim_id (identity c)"

definition aid_of :: "compiled_claim \<Rightarrow> string" where
  "aid_of c = assertion_id (assertion c)"

text \<open>The parent's claims by assertion id, overridden by the new ones; then without the revoked claims, sorted.\<close>

definition by_assertion :: "compiled_claim list \<Rightarrow> compiled_claim list \<Rightarrow> (string, compiled_claim) dict" where
  "by_assertion parents news = fold (\<lambda>c. dict_set (aid_of c) c) (parents @ news) []"

definition surviving_claims :: "compiled_claim list \<Rightarrow> compiled_claim list \<Rightarrow> string list \<Rightarrow> compiled_claim list" where
  "surviving_claims parents news revs =
     sort_key aid_of (filter (\<lambda>c. claim_of c \<notin> set revs) (map snd (by_assertion parents news)))"

definition decisions_of :: "compiled_claim list \<Rightarrow> resolution_decision list" where
  "decisions_of surviving =
     map (\<lambda>cid. \<lparr>d_claim_id = cid, d_state = ''accepted'',
              d_assertion_ids = sort (map aid_of (filter (\<lambda>c. claim_of c = cid) surviving)),
              policy_version = ''spike-policy@0'', rationale_code = ''accept''\<rparr>)
       (sorted_set (map claim_of surviving))"

text \<open>
  \<open>json.dumps\<close> of the manifest, as the document that the text denotes. Numbers and other objects
  do not reach it: \<open>canonical_hash\<close> raised on them when the candidate was built.
\<close>

fun py_json :: "pyval \<Rightarrow> json" where
  "py_json (PBool b) = JBool b"
| "py_json (PStr s) = JStr s"
| "py_json (PList xs) = JList (map py_json xs)"
| "py_json (PTuple xs) = JList (map py_json xs)"
| "py_json (PDict kvs) = JObj (map (\<lambda>(k, v). (the (key_str k), py_json v)) kvs)"
| "py_json _ = JNull"

definition register_candidate ::
    "'g generation_builder \<Rightarrow> string option \<Rightarrow> candidate_result \<Rightarrow> string \<Rightarrow> ('g publisher, unit) prog" where
  "register_candidate B parent cand release_oid =
     (let gid = cand_generation_id cand in
      thenP (liftP (canonical_hash (gb_lib B) (cand_manifest cand))) (\<lambda>mh.
      thenP (on_cp (\<lambda>cp. register_generation cp gid parent (cand_commit_oid cand) mh
               (Doc (sort_keys (py_json (cand_manifest cand)))) (Some release_oid))) (\<lambda>_.
      thenP (on_cp_res (\<lambda>cp. mark_read_model cp gid ''wiki_files'' (cand_wiki_files_root cand))) (\<lambda>_.
      thenP (on_cp_res (\<lambda>cp. mark_read_model cp gid ''citation_index'' (cand_citation_index_digest cand))) (\<lambda>_.
      on_cp (\<lambda>cp. set_read_models_ready cp gid))))))"

text \<open>The part of \<open>prepare\<close> after the no-op test: build, sign, register.\<close>

definition prepare_generation ::
    "'g generation_builder \<Rightarrow> string option \<Rightarrow> compiled_claim list \<Rightarrow> string list \<Rightarrow> string \<Rightarrow> pyval option \<Rightarrow> nat \<Rightarrow>
     ('g publisher, prepared_publication) prog" where
  "prepare_generation B parent surviving revoked src_hash binding attempts s =
     thenP (liftP (accepted_claim_set_root (gb_lib B) (decisions_of surviving))) (\<lambda>root.
     let previous = (if or_empty parent \<noteq> [] then current_release_oid (pub_cp s) else None) in
     thenP (on_repo (build_candidate B surviving parent src_hash root binding)) (\<lambda>cand.
     thenP (on_repo (build_release_commit B cand previous)) (\<lambda>release_oid.
     thenP (register_candidate B parent cand release_oid) (\<lambda>_.
     retP \<lparr>pp_parent_generation_id = parent, pp_candidate = Some cand, pp_release_commit_oid = Some release_oid,
        pp_surviving = surviving, pp_revoked_claim_ids = revoked, pp_attempts = attempts, pp_noop = False\<rparr>)))) s"

definition prepare ::
    "'g generation_builder \<Rightarrow> compiled_claim list \<Rightarrow> string \<Rightarrow> string list \<Rightarrow> parent_check \<Rightarrow> pyval option \<Rightarrow> nat \<Rightarrow>
     ('g publisher, prepared_publication) prog" where
  "prepare B new_claims src_hash revs expected binding attempts s0 =
     (let parent = current_pointer (pub_cp s0); revoked = sorted_set revs in
      if expected \<noteq> AnyParent \<and> expected \<noteq> ExpectParent parent then (Inl CASConflict, s0)
      else
        thenP (on_cp (\<lambda>cp. fold (\<lambda>c cp. upsert_claim_and_assertion cp c) new_claims cp)) (\<lambda>_ s.
        thenP (liftP (parent_claims B s parent)) (\<lambda>parents.
        let surviving = surviving_claims parents new_claims revs in
        if set (map aid_of surviving) = set (map aid_of parents)
        then retP \<lparr>pp_parent_generation_id = parent, pp_candidate = None, pp_release_commit_oid = None,
               pp_surviving = surviving, pp_revoked_claim_ids = revoked, pp_attempts = attempts, pp_noop = True\<rparr>
        else prepare_generation B parent surviving revoked src_hash binding attempts) s) s0)"

subsection \<open>Activate\<close>

text \<open>One row per claim, the first claim of each id.\<close>

fun search_entries :: "string list \<Rightarrow> compiled_claim list \<Rightarrow> (string \<times> string \<times> string \<times> string) list" where
  "search_entries seen [] = []"
| "search_entries seen (c # cs) =
     (if claim_of c \<in> set seen then search_entries seen cs
      else (claim_of c, subject_id (identity c), predicate_id (identity c), obj (identity c))
           # search_entries (claim_of c # seen) cs)"

fun record_all :: "string \<Rightarrow> string \<Rightarrow> string list \<Rightarrow> ('g publisher, unit) prog" where
  "record_all gid st [] = retP ()"
| "record_all gid st (cid # cids) =
     thenP (on_cp_res (\<lambda>cp. record_resolution cp gid cid st)) (\<lambda>_. record_all gid st cids)"

definition post_publish :: "string \<Rightarrow> compiled_claim list \<Rightarrow> string list \<Rightarrow> ('g publisher, unit) prog" where
  "post_publish gid surviving revs =
     thenP (on_cp (\<lambda>cp. add_generation_assertions cp gid (map aid_of surviving))) (\<lambda>_.
     thenP (record_all gid ''accepted'' (map claim_of surviving)) (\<lambda>_.
     thenP (record_all gid ''retracted'' revs) (\<lambda>_.
     thenP (on_cp_res (\<lambda>cp. build_search_index cp gid (search_entries [] surviving))) (\<lambda>_.
     on_cp (\<lambda>cp. set_search_pointer cp gid)))))"

definition activate_prepared :: "prepared_publication \<Rightarrow> ('g publisher, publish_result) prog" where
  "activate_prepared pp s =
     (case (pp_candidate pp, pp_release_commit_oid pp) of
        (Some cand, Some release_oid) \<Rightarrow>
          if pp_noop pp
          then (Inr \<lparr>pr_generation_id = None, pr_candidate_commit_oid = None, pr_release_commit_oid = None,
                 pr_attempts = pp_attempts pp, pr_noop = True\<rparr>, s)
          else
            let gid = cand_generation_id cand;
                result = \<lparr>pr_generation_id = Some gid, pr_candidate_commit_oid = Some (cand_commit_oid cand),
                  pr_release_commit_oid = Some release_oid, pr_attempts = pp_attempts pp, pr_noop = False\<rparr>
            in if current_pointer (pub_cp s) = Some gid \<and> generation_state (pub_cp s) gid = Some Published
               then thenP (post_publish gid (pp_surviving pp) (pp_revoked_claim_ids pp)) (\<lambda>_. retP result) s
               else
                 thenP (on_cp_res (\<lambda>cp. activate cp gid (pp_parent_generation_id pp) release_oid)) (\<lambda>_.
                 thenP (post_publish gid (pp_surviving pp) (pp_revoked_claim_ids pp)) (\<lambda>_. retP result)) s
      | _ \<Rightarrow> (Inr \<lparr>pr_generation_id = None, pr_candidate_commit_oid = None, pr_release_commit_oid = None,
               pr_attempts = pp_attempts pp, pr_noop = True\<rparr>, s))"

definition repair_published_generation :: "'g generation_builder \<Rightarrow> string \<Rightarrow> ('g publisher, unit) prog" where
  "repair_published_generation B gid s =
     thenP (liftP (parent_claims B s (Some gid))) (\<lambda>cs. post_publish gid cs []) s"

text \<open>
  The retry loop. Between the preparation and the activation of attempt \<open>n\<close> other publishers may
  work on the same repository and database: \<open>env n\<close> is what they do.
\<close>

definition publish_attempt ::
    "'g generation_builder \<Rightarrow> (nat \<Rightarrow> 'g publisher \<Rightarrow> 'g publisher) \<Rightarrow> compiled_claim list \<Rightarrow> string \<Rightarrow> string list \<Rightarrow>
     parent_check \<Rightarrow> pyval option \<Rightarrow> nat \<Rightarrow> ('g publisher, publish_result) prog" where
  "publish_attempt B env new_claims src_hash revs expected binding attempts =
     thenP (prepare B new_claims src_hash revs expected binding attempts) (\<lambda>pp s1. activate_prepared pp (env attempts s1))"

function publish_loop ::
    "'g generation_builder \<Rightarrow> (nat \<Rightarrow> 'g publisher \<Rightarrow> 'g publisher) \<Rightarrow> compiled_claim list \<Rightarrow> string \<Rightarrow> string list \<Rightarrow> nat \<Rightarrow>
     parent_check \<Rightarrow> pyval option \<Rightarrow> nat \<Rightarrow> ('g publisher, publish_result) prog" where
  "publish_loop B env new_claims src_hash revs max_retries expected binding attempts s =
     (let outcome = publish_attempt B env new_claims src_hash revs expected binding attempts s
      in case outcome of
           (Inl CASConflict, s') \<Rightarrow>
             if expected \<noteq> AnyParent \<or> attempts \<ge> max_retries then (Inl CASConflict, s')
             else publish_loop B env new_claims src_hash revs max_retries expected binding (attempts + 1) s'
         | (r, s') \<Rightarrow> (r, s'))"
  by pat_completeness auto
termination
  by (relation "measure (\<lambda>(B, env, cs, h, revs, mx, ex, bd, n, s). mx - n)") auto

declare publish_loop.simps [simp del]

definition publish ::
    "'g generation_builder \<Rightarrow> (nat \<Rightarrow> 'g publisher \<Rightarrow> 'g publisher) \<Rightarrow> compiled_claim list \<Rightarrow> string \<Rightarrow> string list \<Rightarrow> nat \<Rightarrow>
     parent_check \<Rightarrow> pyval option \<Rightarrow> ('g publisher, publish_result) prog" where
  "publish B env new_claims src_hash revs max_retries expected binding =
     publish_loop B env new_claims src_hash revs max_retries expected binding 1"

subsection \<open>Frames\<close>

lemma on_repo_iff: "on_repo m s = (r, s') \<longleftrightarrow> (\<exists>g. m (pub_repo s) = (r, g) \<and> s' = s\<lparr>pub_repo := g\<rparr>)"
  by (auto simp: on_repo_def split: prod.splits)

text \<open>What the artifacts of a generation hang on: its row's commit, the repository and the pointer.\<close>

definition rows :: "control_plane \<Rightarrow> (string \<times> string) list" where
  "rows cp = map (\<lambda>r. (g_id r, g_commit r)) (generation cp)"

lemma generation_commit_rows: "generation_commit cp g = map_of (rows cp) g"
proof -
  have "map_option g_commit (find (\<lambda>r. g_id r = g) rs) = map_of (map (\<lambda>r. (g_id r, g_commit r)) rs) g" for rs
    by (induction rs) auto
  then show ?thesis by (simp add: generation_commit_def find_gen_def rows_def)
qed

lemma rows_keys: "dict_keys (rows cp) = gen_ids cp"
  by (simp add: rows_def gen_ids_def comp_def)

definition keeps :: "('g publisher, 'a) prog \<Rightarrow> bool" where
  "keeps m \<longleftrightarrow> (\<forall>s r s'. m s = (r, s') \<longrightarrow>
     pub_repo s' = pub_repo s \<and> rows (pub_cp s') = rows (pub_cp s) \<and> current_generation_id (pub_cp s') = current_generation_id (pub_cp s))"

lemma keepsD:
  "keeps m \<Longrightarrow> m s = (r, s') \<Longrightarrow>
     pub_repo s' = pub_repo s \<and> rows (pub_cp s') = rows (pub_cp s) \<and> current_generation_id (pub_cp s') = current_generation_id (pub_cp s)"
  unfolding keeps_def by blast

lemma keeps_liftP: "keeps (liftP r)"
  by (simp add: keeps_def)

lemma keeps_thenP: "keeps m \<Longrightarrow> (\<And>a. keeps (f a)) \<Longrightarrow> keeps (thenP m f)"
  unfolding keeps_def thenP_def by (simp split: prod.splits sum.splits)

lemma keeps_on_cp:
  "(\<And>cp. rows (f cp) = rows cp \<and> current_generation_id (f cp) = current_generation_id cp) \<Longrightarrow> keeps (on_cp f)"
  by (simp add: keeps_def on_cp_def)

lemma keeps_on_cp_res:
  "(\<And>cp cp'. f cp = Inr cp' \<Longrightarrow> rows cp' = rows cp \<and> current_generation_id cp' = current_generation_id cp) \<Longrightarrow> keeps (on_cp_res f)"
  by (simp add: keeps_def on_cp_res_def split: sum.splits)

lemma keeps_record_all: "keeps (record_all gid st cids)"
proof (induction cids)
  case (Cons c cids)
  have "keeps (on_cp_res (\<lambda>cp. record_resolution cp gid c st))"
    by (rule keeps_on_cp_res) (auto simp: record_resolution_def rows_def split: if_splits)
  then show ?case unfolding record_all.simps by (rule keeps_thenP) (rule Cons)
qed (simp add: keeps_liftP)

lemma add_generation_assertions_rows:
  "generation (add_generation_assertions cp gid as) = generation cp"
  "current_generation_id (add_generation_assertions cp gid as) = current_generation_id cp"
  by (induction cp gid as rule: add_generation_assertions.induct) simp_all

lemma build_search_index_rows:
  "build_search_index cp gid es = Inr cp' \<Longrightarrow> generation cp' = generation cp \<and> current_generation_id cp' = current_generation_id cp"
  by (induction cp gid es rule: build_search_index.induct) (auto split: if_splits)

lemma keeps_post_publish: "keeps (post_publish gid sv revs)"
  unfolding post_publish_def
  by (intro keeps_thenP keeps_record_all keeps_on_cp keeps_on_cp_res)
    (auto simp: rows_def set_search_pointer_def add_generation_assertions_rows dest: build_search_index_rows)

lemma upsert_fold_simps:
  "generation (fold (\<lambda>c cp. upsert_claim_and_assertion cp c) cs cp) = generation cp"
  "current_generation_id (fold (\<lambda>c cp. upsert_claim_and_assertion cp c) cs cp) = current_generation_id cp"
  by (induction cs arbitrary: cp) (simp_all add: upsert_claim_and_assertion_def Let_def)

lemma rows_register:
  "rows (register_generation cp gid parent c mh mj rel) = (if gid \<in> set (gen_ids cp) then rows cp else rows cp @ [(gid, c)])"
  "current_generation_id (register_generation cp gid parent c mh mj rel) = current_generation_id cp"
  by (simp_all add: register_generation_def insert_generation_def rows_def Let_def)

lemma register_candidate_frame:
  assumes "register_candidate B parent cand rel s = (Inr (), s')"
  shows "pub_repo s' = pub_repo s" "current_generation_id (pub_cp s') = current_generation_id (pub_cp s)"
    "rows (pub_cp s') = (if cand_generation_id cand \<in> set (gen_ids (pub_cp s)) then rows (pub_cp s)
       else rows (pub_cp s) @ [(cand_generation_id cand, cand_commit_oid cand)])"
proof -
  from assms obtain mh s1 where 1: "s1 = s\<lparr>pub_cp := register_generation (pub_cp s) (cand_generation_id cand) parent (cand_commit_oid cand) mh
      (Doc (sort_keys (py_json (cand_manifest cand)))) (Some rel)\<rparr>"
    and rest: "thenP (on_cp_res (\<lambda>cp. mark_read_model cp (cand_generation_id cand) ''wiki_files'' (cand_wiki_files_root cand))) (\<lambda>_.
      thenP (on_cp_res (\<lambda>cp. mark_read_model cp (cand_generation_id cand) ''citation_index'' (cand_citation_index_digest cand))) (\<lambda>_.
      on_cp (\<lambda>cp. set_read_models_ready cp (cand_generation_id cand)))) s1 = (Inr (), s')"
    unfolding register_candidate_def Let_def thenP_Inr_iff by (auto simp: on_cp_def)
  have "keeps (thenP (on_cp_res (\<lambda>cp. mark_read_model cp (cand_generation_id cand) ''wiki_files'' (cand_wiki_files_root cand))) (\<lambda>_.
      thenP (on_cp_res (\<lambda>cp. mark_read_model cp (cand_generation_id cand) ''citation_index'' (cand_citation_index_digest cand))) (\<lambda>_.
      on_cp (\<lambda>cp. set_read_models_ready cp (cand_generation_id cand) :: control_plane))) :: ('a publisher, unit) prog)"
    by (intro keeps_thenP keeps_on_cp_res keeps_on_cp)
      (auto simp: mark_read_model_def rows_def set_read_models_ready_def split: if_splits)
  from keepsD [OF this rest] show "pub_repo s' = pub_repo s" "current_generation_id (pub_cp s') = current_generation_id (pub_cp s)"
    "rows (pub_cp s') = (if cand_generation_id cand \<in> set (gen_ids (pub_cp s)) then rows (pub_cp s)
       else rows (pub_cp s) @ [(cand_generation_id cand, cand_commit_oid cand)])"
    by (simp_all add: 1 rows_register)
qed

lemma parent_claims_cong:
  assumes "pub_repo s = pub_repo s'" "rows (pub_cp s) = rows (pub_cp s')"
  shows "parent_claims B s p = parent_claims B s' p"
  unfolding parent_claims_def generation_commit_rows assms ..

lemma build_release_commit_frame:
  assumes "git_ok (gb_git B) V" "build_release_commit B cand prev g = (Inr oid, g')"
  shows "grows V g g'" "v_ref V g' = (v_ref V g)(release_ref (cand_generation_id cand) \<mapsto> oid)"
proof -
  from assms(2) obtain data tree g1 g2 where
      w: "write_tree_from_files (gb_git B) [(''release/'' @ cand_generation_id cand @ ''.json'', data)] g = (Inr tree, g1)"
      "commit_tree (gb_git B) tree (''release '' @ cand_generation_id cand) (Some (cand_commit_oid cand)) g1 = (Inr oid, g2)"
      and a: "anchor (gb_git B) (release_ref (cand_generation_id cand)) oid g2 = (Inr (), g')"
    unfolding build_release_commit_def Let_def thenP_Inr_iff by auto
  have "distinct (dict_keys [(''release/'' @ cand_generation_id cand @ ''.json'', data)])" by simp
  note W = write_commit_spec [OF assms(1) this w] and A = anchor_spec [OF assms(1) a]
  show "grows V g g'" by (rule grows_trans [OF conjunct1 [OF W] A(1)])
  show "v_ref V g' = (v_ref V g)(release_ref (cand_generation_id cand) \<mapsto> oid)"
    using A(3) unfolding conjunct1 [OF conjunct2 [OF W]] .
qed

subsection \<open>Knowledge\<close>

text \<open>Database and references in step: each registered generation's reference points to the commit of its row.\<close>

definition anchored :: "'g git_view \<Rightarrow> 'g publisher \<Rightarrow> bool" where
  "anchored V s \<longleftrightarrow> (\<forall>g c. map_of (rows (pub_cp s)) g = Some c \<longrightarrow> c \<noteq> [] \<and> v_ref V (pub_repo s) (generation_ref g) = Some c)"

lemma generation_ref_inject: "generation_ref g = generation_ref h \<longleftrightarrow> g = h"
  by (simp add: generation_ref_def)

lemma release_not_generation: "generation_ref g \<noteq> release_ref h"
  by (simp add: generation_ref_def release_ref_def)

lemma surviving_sorted: "sorted (map (assertion_id \<circ> assertion) (surviving_claims ps ns revs))"
  using sorted_sort_key [of aid_of] unfolding surviving_claims_def aid_of_def comp_def by blast

lemma by_assertion_members: "set (map snd (by_assertion ps ns)) \<subseteq> set ps \<union> set ns"
proof -
  have "set (map snd (fold (\<lambda>c. dict_set (aid_of c) c) cs d)) \<subseteq> set (map snd d) \<union> set cs" for cs d
  proof (induction cs arbitrary: d)
    case (Cons c cs)
    have "set (map snd (dict_set (aid_of c) c d)) \<subseteq> insert c (set (map snd d))" by (induction d) auto
    with Cons.IH [of "dict_set (aid_of c) c d"] show ?case by auto
  qed simp
  from this [of "ps @ ns" "[]"] show ?thesis by (simp add: by_assertion_def)
qed

lemma surviving_members: "c \<in> set (surviving_claims ps ns revs) \<Longrightarrow> c \<in> set ps \<union> set ns \<and> claim_of c \<notin> set revs"
  using by_assertion_members [of ps ns] by (auto simp: surviving_claims_def)

text \<open>
  The abstract update: of the parent's and the new claims, the last one of each assertion id, less
  those of revoked claims. The dictionary, filter and sort of \<open>prepare\<close> implement it.
\<close>

definition updated :: "compiled_claim list \<Rightarrow> compiled_claim list \<Rightarrow> string list \<Rightarrow> compiled_claim set" where
  "updated old new revs = {c. find (\<lambda>k. aid_of k = aid_of c) (rev (old @ new)) = Some c \<and> claim_of c \<notin> set revs}"

lemma map_of_fold_aid:
  "map_of (fold (\<lambda>c. dict_set (aid_of c) c) cs d) a =
     (case find (\<lambda>k. aid_of k = a) (rev cs) of None \<Rightarrow> map_of d a | Some c \<Rightarrow> Some c)"
  by (induction cs arbitrary: d) (auto simp: find_append split: option.splits)

lemma surviving_updated: "set (surviving_claims old new revs) = updated old new revs"
proof -
  have "distinct (dict_keys d) \<Longrightarrow> distinct (dict_keys (fold (\<lambda>c. dict_set (aid_of c) c) cs d))" for cs and d :: "(string, compiled_claim) dict"
    by (induction cs arbitrary: d) (simp_all add: distinct_keys_set)
  from this [of "[]" "old @ new"] have "distinct (dict_keys (by_assertion old new))" by (simp add: by_assertion_def)
  then have "set (map snd (by_assertion old new)) = {c. \<exists>a. map_of (by_assertion old new) a = Some c}"
    by (force simp: map_of_eq_Some_iff)
  moreover have m: "map_of (by_assertion old new) a = find (\<lambda>k. aid_of k = a) (rev (old @ new))" for a
    unfolding by_assertion_def map_of_fold_aid by (simp split: option.splits)
  have "(\<exists>a. map_of (by_assertion old new) a = Some c) \<longleftrightarrow> find (\<lambda>k. aid_of k = aid_of c) (rev (old @ new)) = Some c" for c
    unfolding m by (auto simp: find_Some_iff)
  ultimately show ?thesis by (auto simp: surviving_claims_def updated_def)
qed

lemma prepare_generationD:
  assumes "prepare_generation B parent sv revoked src binding n s = (Inr pp, s')"
  obtains cand rel root prev g1 g2 where
    "pp = \<lparr>pp_parent_generation_id = parent, pp_candidate = Some cand, pp_release_commit_oid = Some rel,
        pp_surviving = sv, pp_revoked_claim_ids = revoked, pp_attempts = n, pp_noop = False\<rparr>"
    "build_candidate B sv parent src root binding (pub_repo s) = (Inr cand, g1)"
    "build_release_commit B cand prev g1 = (Inr rel, g2)"
    "register_candidate B parent cand rel (s\<lparr>pub_repo := g2\<rparr>) = (Inr (), s')"
  using assms unfolding prepare_generation_def Let_def thenP_Inr_iff on_repo_iff by auto

lemma prepareD:
  assumes "prepare B new src revs expected binding n s = (Inr pp, s')"
  obtains parents s1 where "parent_claims B s (current_pointer (pub_cp s)) = Inr parents"
    "pub_repo s1 = pub_repo s" "rows (pub_cp s1) = rows (pub_cp s)"
    "current_generation_id (pub_cp s1) = current_generation_id (pub_cp s)"
    "set (map aid_of (surviving_claims parents new revs)) = set (map aid_of parents) \<and> s' = s1 \<and>
       pp = \<lparr>pp_parent_generation_id = current_pointer (pub_cp s), pp_candidate = None, pp_release_commit_oid = None,
         pp_surviving = surviving_claims parents new revs, pp_revoked_claim_ids = sorted_set revs, pp_attempts = n, pp_noop = True\<rparr> \<or>
     prepare_generation B (current_pointer (pub_cp s)) (surviving_claims parents new revs) (sorted_set revs) src binding n s1 = (Inr pp, s')"
proof -
  let ?s = "s\<lparr>pub_cp := fold (\<lambda>c cp. upsert_claim_and_assertion cp c) new (pub_cp s)\<rparr>"
  have up: "rows (pub_cp ?s) = rows (pub_cp s)" "current_generation_id (pub_cp ?s) = current_generation_id (pub_cp s)"
    by (simp_all add: rows_def upsert_fold_simps)
  have pc: "parent_claims B ?s p = parent_claims B s p" for p by (rule parent_claims_cong [OF _ up(1)]) simp
  from assms obtain parents where "parent_claims B s (current_pointer (pub_cp s)) = Inr parents"
      "(if set (map aid_of (surviving_claims parents new revs)) = set (map aid_of parents)
        then retP \<lparr>pp_parent_generation_id = current_pointer (pub_cp s), pp_candidate = None, pp_release_commit_oid = None,
               pp_surviving = surviving_claims parents new revs, pp_revoked_claim_ids = sorted_set revs, pp_attempts = n, pp_noop = True\<rparr>
        else prepare_generation B (current_pointer (pub_cp s)) (surviving_claims parents new revs) (sorted_set revs) src binding n) ?s = (Inr pp, s')"
    unfolding prepare_def Let_def
    by (cases "expected \<noteq> AnyParent \<and> expected \<noteq> ExpectParent (current_pointer (pub_cp s))") (auto simp: thenP_Inr_iff on_cp_def pc)
  then show ?thesis using that [of parents ?s] up by (simp split: if_splits)
qed

lemma on_cp_res_Inr: "on_cp_res f s = (Inr (), s') \<longleftrightarrow> (\<exists>cp. f (pub_cp s) = Inr cp \<and> s' = s\<lparr>pub_cp := cp\<rparr>)"
  by (auto simp: on_cp_res_def split: sum.splits)

lemma activate_prepared_frame:
  assumes "activate_prepared pp s = (Inr r, s')"
  shows "pp_candidate pp = None \<Longrightarrow> s' = s \<and> pr_noop r \<and> pr_attempts r = pp_attempts pp"
    and "pp_candidate pp = Some cand \<Longrightarrow> pp_release_commit_oid pp = Some rel \<Longrightarrow> \<not> pp_noop pp \<Longrightarrow>
      pub_repo s' = pub_repo s \<and> rows (pub_cp s') = rows (pub_cp s) \<and>
      current_generation_id (pub_cp s') = Some (cand_generation_id cand) \<and>
      pr_generation_id r = Some (cand_generation_id cand) \<and> \<not> pr_noop r \<and> pr_attempts r = pp_attempts pp"
proof -
  show "pp_candidate pp = None \<Longrightarrow> s' = s \<and> pr_noop r \<and> pr_attempts r = pp_attempts pp"
    using assms by (auto simp: activate_prepared_def)
  let ?gid = "cand_generation_id cand" and ?post = "post_publish (cand_generation_id cand) (pp_surviving pp) (pp_revoked_claim_ids pp)"
  assume c: "pp_candidate pp = Some cand" "pp_release_commit_oid pp = Some rel" "\<not> pp_noop pp"
  have r: "pr_generation_id r = Some ?gid \<and> \<not> pr_noop r \<and> pr_attempts r = pp_attempts pp"
    using assms c by (auto simp: activate_prepared_def Let_def thenP_Inr_iff split: if_splits)
  have "\<exists>s1 u. ?post s1 = (Inr u, s') \<and> pub_repo s1 = pub_repo s \<and> rows (pub_cp s1) = rows (pub_cp s) \<and>
      current_generation_id (pub_cp s1) = Some ?gid"
  proof (cases "current_pointer (pub_cp s) = Some ?gid \<and> generation_state (pub_cp s) ?gid = Some Published")
    case True
    with assms c show ?thesis by (auto simp: activate_prepared_def Let_def thenP_Inr_iff current_pointer_def)
  next
    case False
    with assms c obtain cp1 u where "activate (pub_cp s) ?gid (pp_parent_generation_id pp) rel = Inr cp1"
        "?post (s\<lparr>pub_cp := cp1\<rparr>) = (Inr u, s')"
      by (auto simp: activate_prepared_def Let_def thenP_Inr_iff on_cp_res_Inr simp del: de_Morgan_conj)
    then show ?thesis by (auto simp: activate_Inr_iff rows_def comp_def intro!: exI [of _ "s\<lparr>pub_cp := cp1\<rparr>"])
  qed
  with keepsD [OF keeps_post_publish] r show "pub_repo s' = pub_repo s \<and> rows (pub_cp s') = rows (pub_cp s) \<and>
      current_generation_id (pub_cp s') = Some ?gid \<and> pr_generation_id r = Some ?gid \<and> \<not> pr_noop r \<and> pr_attempts r = pp_attempts pp"
    by metis
qed

text \<open>The artifact that a preparation leaves, as the next publisher will read it.\<close>

lemma prepared_artifact:
  assumes ok: "builder_ok B V" and anch: "anchored V s" and good: "\<forall>c\<in>set sv. good_claim (gb_lib B) c"
    and sorted: "sorted (map (assertion_id \<circ> assertion) sv)"
    and build: "build_candidate B sv parent src root binding (pub_repo s) = (Inr cand, g1)"
    and rel: "build_release_commit B cand prev g1 = (Inr rel, g2)"
    and reg: "register_candidate B parent cand rel (s\<lparr>pub_repo := g2\<rparr>) = (Inr (), s')"
  shows "anchored V s'" "parent_claims B s' (Some (cand_generation_id cand)) = Inr (map sort_claim sv)"
    "\<exists>sl. seal B sv parent src root binding = Inr sl \<and> cand_generation_id cand = sl_gid sl \<and>
       holds_files V (pub_repo s') (cand_commit_oid cand) (map_of (sealed_files sl)) \<and>
       generation_commit (pub_cp s') (cand_generation_id cand) = Some (cand_commit_oid cand) \<and>
       verify_manifest B (pub_repo s') (cand_commit_oid cand) (cand_generation_id cand) = Inr True"
proof -
  let ?gid = "cand_generation_id cand" and ?c = "cand_commit_oid cand"
  note git = builder_okD(1) [OF ok]
  obtain sl where sl: "seal B sv parent src root binding = Inr sl" "?gid = sl_gid sl" "grows V (pub_repo s) g1"
    "holds_files V g1 ?c (map_of (sealed_files sl))"
    "v_ref V g1 = (v_ref V (pub_repo s))(generation_ref ?gid \<mapsto> ?c)" "?c \<noteq> []"
    "\<forall>oid. v_ref V (pub_repo s) (generation_ref ?gid) = Some oid \<and> oid \<noteq> [] \<longrightarrow> oid = ?c"
    using candidate_spec [OF ok good sorted build] by metis
  note R = build_release_commit_frame [OF git rel] and F = register_candidate_frame [OF reg, simplified]
  have rows: "map_of (rows (pub_cp s')) g = (if g = ?gid then Some ?c else map_of (rows (pub_cp s)) g)" for g
  proof (cases "?gid \<in> set (gen_ids (pub_cp s))")
    case True
    then obtain c0 where c0: "map_of (rows (pub_cp s)) ?gid = Some c0"
      using rows_keys [of "pub_cp s"] by (metis map_of_eq_None_iff not_Some_eq set_map)
    with anch sl(7) have "c0 = ?c" unfolding anchored_def by blast
    with True c0 F(3) show ?thesis by simp
  next
    case False
    then have "map_of (rows (pub_cp s)) ?gid = None" using rows_keys [of "pub_cp s"] by (metis map_of_eq_None_iff set_map)
    with False F(3) show ?thesis by (simp add: map_add_def split: option.splits)
  qed
  have ref: "v_ref V (pub_repo s') (generation_ref g) = (if g = ?gid then Some ?c else v_ref V (pub_repo s) (generation_ref g))" for g
    using F(1) R(2) sl(5) release_not_generation [of g ?gid] by (simp add: generation_ref_inject)
  show "anchored V s'" using anch sl(6) unfolding anchored_def rows ref by simp
  have files: "holds_files V (pub_repo s') ?c (map_of (sealed_files sl))"
    using holds_files_grows [OF sl(4) R(1)] F(1) by simp
  have v: "verify_manifest B (pub_repo s') ?c ?gid = Inr True"
    unfolding sl(2) by (rule manifest_verifies [OF ok good sorted sl(1) files])
  have d: "cat_file (gb_git B) (pub_repo s') (at_path ?c ''knowledge/snapshot.json'') = Inr (sl_snapshot sl)"
    unfolding at_path_def by (rule cat_file_holds [OF git files candidate_files_get(2)])
  have "parse_snapshot (gb_lib B) (sl_snapshot sl) = Inr (map sort_claim sv)"
    using snapshot_rebuilds(1,2) [OF builder_okD(4) [OF ok] good sorted] sealD(3) [OF sl(1)] by simp
  with rows v d show "parent_claims B s' (Some ?gid) = Inr (map sort_claim sv)"
    by (simp add: parent_claims_def generation_commit_rows)
  show "\<exists>sl. seal B sv parent src root binding = Inr sl \<and> cand_generation_id cand = sl_gid sl \<and>
       holds_files V (pub_repo s') (cand_commit_oid cand) (map_of (sealed_files sl)) \<and>
       generation_commit (pub_cp s') (cand_generation_id cand) = Some (cand_commit_oid cand) \<and>
       verify_manifest B (pub_repo s') (cand_commit_oid cand) (cand_generation_id cand) = Inr True"
    using sl(1,2) files v rows by (simp add: generation_commit_rows)
qed

lemma aid_sort_claim: "aid_of (sort_claim c) = aid_of c"
  by (simp add: aid_of_def)

lemma publish_refines:
  assumes "builder_ok B V" "anchored V s"
    and "parent_claims B s (current_pointer (pub_cp s)) = Inr old"
    and "\<forall>c\<in>set old \<union> set new. good_claim (gb_lib B) c"
    and "publish_attempt B (\<lambda>_. id) new src revs expected binding n s = (Inr r, s')"
  shows "\<exists>know. parent_claims B s' (current_pointer (pub_cp s')) = Inr know \<and>
     set (map aid_of know) = aid_of ` updated old new revs \<and>
     (\<forall>c\<in>set know. good_claim (gb_lib B) c) \<and> anchored V s' \<and>
     (\<not> pr_noop r \<longrightarrow> set know = sort_claim ` updated old new revs \<and> current_pointer (pub_cp s') = pr_generation_id r)"
proof -
  note U = surviving_updated [of old new revs]
  let ?sv = "surviving_claims old new revs"
  from assms(5) obtain pp s1 where p: "prepare B new src revs expected binding n s = (Inr pp, s1)"
      and a: "activate_prepared pp s1 = (Inr r, s')"
    by (auto simp: publish_attempt_def thenP_Inr_iff)
  obtain s0 where s0: "pub_repo s0 = pub_repo s" "rows (pub_cp s0) = rows (pub_cp s)"
    "current_generation_id (pub_cp s0) = current_generation_id (pub_cp s)"
    and c: "set (map aid_of ?sv) = set (map aid_of old) \<and> s1 = s0 \<and> pp_candidate pp = None \<or>
     prepare_generation B (current_pointer (pub_cp s)) ?sv (sorted_set revs) src binding n s0 = (Inr pp, s1)"
    using prepareD [OF p] assms(3) by (metis (no_types, lifting) prepared_publication.select_convs(2) sum.inject(2))
  have anch: "anchored V s0" using assms(2) s0 by (simp add: anchored_def)
  from c show ?thesis
  proof
    assume n: "set (map aid_of ?sv) = set (map aid_of old) \<and> s1 = s0 \<and> pp_candidate pp = None"
    with activate_prepared_frame(1) [OF a] have "s' = s0" "pr_noop r" by auto
    moreover have "parent_claims B s0 (current_pointer (pub_cp s0)) = Inr old"
      using assms(3) s0(3) parent_claims_cong [OF s0(1,2)] by (simp add: current_pointer_def)
    ultimately show ?thesis using n anch assms(4) U by (simp add: image_set [symmetric])
  next
    assume "prepare_generation B (current_pointer (pub_cp s)) ?sv (sorted_set revs) src binding n s0 = (Inr pp, s1)"
    then obtain cand rel root prev g1 g2 where pp: "pp_candidate pp = Some cand" "pp_release_commit_oid pp = Some rel" "\<not> pp_noop pp"
      and b: "build_candidate B ?sv (current_pointer (pub_cp s)) src root binding (pub_repo s0) = (Inr cand, g1)"
        "build_release_commit B cand prev g1 = (Inr rel, g2)"
        "register_candidate B (current_pointer (pub_cp s)) cand rel (s0\<lparr>pub_repo := g2\<rparr>) = (Inr (), s1)"
      by (rule prepare_generationD) auto
    have good: "\<forall>c\<in>set ?sv. good_claim (gb_lib B) c" using surviving_members assms(4) by blast
    note A = prepared_artifact [OF assms(1) anch good surviving_sorted b]
    note F = activate_prepared_frame(2) [OF a pp]
    have "parent_claims B s' (current_pointer (pub_cp s')) = Inr (map sort_claim ?sv)"
      using A(2) F parent_claims_cong [of s' s1] by (simp add: current_pointer_def)
    moreover have "anchored V s'" using A(1) F by (simp add: anchored_def)
    moreover have "set (map aid_of (map sort_claim ?sv)) = aid_of ` updated old new revs" by (simp add: aid_sort_claim image_image U)
    moreover have "set (map sort_claim ?sv) = sort_claim ` updated old new revs" by (simp add: U)
    moreover have "\<forall>c\<in>set (map sort_claim ?sv). good_claim (gb_lib B) c" using good good_claim_sort_claim by auto
    moreover have "current_pointer (pub_cp s') = pr_generation_id r" using F by (simp add: current_pointer_def)
    ultimately show ?thesis by blast
  qed
qed

text \<open>
  C1: publishing refines set union and difference. A publication attempt that returns, undisturbed
  by other publishers, leaves the knowledge of the current generation, as the next publisher reads
  it back from the signed artifact, with exactly the assertions of the parent and of the new
  claims, less those of revoked claims; a real publication leaves precisely the surviving claims,
  becomes current, and keeps references and database in step.
\<close>

theorem publish_refines_knowledge:
  assumes "builder_ok B V" "anchored V s"
    and "parent_claims B s (current_pointer (pub_cp s)) = Inr old"
    and "\<forall>c\<in>set old \<union> set new. good_claim (gb_lib B) c"
    and "publish_attempt B (\<lambda>_. id) new src revs expected binding n s = (Inr r, s')"
  shows "\<exists>know. parent_claims B s' (current_pointer (pub_cp s')) = Inr know \<and>
     set (map aid_of know) = aid_of ` updated old new revs \<and>
     (\<forall>c\<in>set know. good_claim (gb_lib B) c) \<and> anchored V s' \<and>
     (\<not> pr_noop r \<longrightarrow> set know = sort_claim ` updated old new revs \<and> current_pointer (pub_cp s') = pr_generation_id r)"
  by (rule publish_refines [OF assms])

subsection \<open>What a failing publication leaves\<close>

text \<open>The pointer stays, whatever the outcome.\<close>

definition steady :: "('g publisher, 'a) prog \<Rightarrow> bool" where
  "steady m \<longleftrightarrow> (\<forall>s. current_generation_id (pub_cp (snd (m s))) = current_generation_id (pub_cp s))"

lemma steadyD: "steady m \<Longrightarrow> m s = (r, s') \<Longrightarrow> current_pointer (pub_cp s') = current_pointer (pub_cp s)"
  unfolding steady_def current_pointer_def by (metis snd_conv)

lemma steady_thenP: "steady m \<Longrightarrow> (\<And>a. steady (f a)) \<Longrightarrow> steady (thenP m f)"
  unfolding steady_def thenP_def by (simp split: prod.splits sum.splits) (metis snd_conv)

lemma steady_liftP: "steady (liftP r)"
  by (simp add: steady_def liftP_def)

lemma steady_on_repo: "steady (on_repo m)"
  by (simp add: steady_def on_repo_def split: prod.splits)

lemma steady_on_cp: "(\<And>cp. current_generation_id (f cp) = current_generation_id cp) \<Longrightarrow> steady (on_cp f)"
  by (simp add: steady_def on_cp_def)

lemma steady_on_cp_res:
  "(\<And>cp cp'. f cp = Inr cp' \<Longrightarrow> current_generation_id cp' = current_generation_id cp) \<Longrightarrow> steady (on_cp_res f)"
  by (auto simp: steady_def on_cp_res_def split: sum.splits)

lemma steady_read: "(\<And>t. steady (m t)) \<Longrightarrow> steady (\<lambda>s. m s s)"
  by (simp add: steady_def)

lemmas steady_rules = steady_thenP steady_liftP steady_on_repo steady_on_cp steady_on_cp_res

lemma steady_keeps: "keeps m \<Longrightarrow> steady m"
  unfolding keeps_def steady_def by (metis prod.collapse)

lemma steady_prepare: "steady (prepare B new src revs expected binding n)"
proof -
  have "steady (register_candidate B parent cand rel)" for parent cand rel
    unfolding register_candidate_def Let_def
    by (intro steady_rules) (auto simp: rows_register mark_read_model_def set_read_models_ready_def split: if_splits)
  then have g: "steady (prepare_generation B parent sv revoked src binding n)" for parent sv revoked
    unfolding steady_def prepare_generation_def Let_def
    using steady_thenP [OF steady_liftP, unfolded steady_def] steady_thenP [OF steady_on_repo, unfolded steady_def]
      steady_liftP [unfolded steady_def] steady_thenP [unfolded steady_def]
    by (metis (no_types, lifting))
  let ?rest = "\<lambda>parent u parents.
        if set (map aid_of (surviving_claims parents new revs)) = set (map aid_of parents)
        then retP \<lparr>pp_parent_generation_id = parent, pp_candidate = None, pp_release_commit_oid = None,
               pp_surviving = surviving_claims parents new revs, pp_revoked_claim_ids = sorted_set revs, pp_attempts = n, pp_noop = True\<rparr>
        else prepare_generation B parent (surviving_claims parents new revs) (sorted_set revs) src binding n"
  have "steady (\<lambda>u. thenP (liftP (parent_claims B u parent)) (?rest parent u) u)" for parent
    by (rule steady_read [where m = "\<lambda>u. thenP (liftP (parent_claims B u parent)) (?rest parent u)"])
      (rule steady_thenP [OF steady_liftP], simp add: g steady_liftP)
  then have "steady (thenP (on_cp (\<lambda>cp. fold (\<lambda>c cp. upsert_claim_and_assertion cp c) new cp))
      (\<lambda>_ u. thenP (liftP (parent_claims B u parent)) (?rest parent u) u))" for parent
    by (intro steady_thenP steady_on_cp) (simp_all add: upsert_fold_simps)
  then show ?thesis unfolding prepare_def Let_def steady_def by simp
qed

text \<open>After the pointer has moved only a missing row can fail, and a conflict leaves the state alone.\<close>

definition integrity_only :: "('g publisher, 'a) prog \<Rightarrow> bool" where
  "integrity_only m \<longleftrightarrow> (\<forall>s e s'. m s = (Inl e, s') \<longrightarrow> e = IntegrityError)"

lemma integrity_thenP: "integrity_only m \<Longrightarrow> (\<And>a. integrity_only (f a)) \<Longrightarrow> integrity_only (thenP m f)"
  unfolding integrity_only_def thenP_def by (auto split: prod.splits sum.splits)

lemma integrity_on_cp: "integrity_only (on_cp f)"
  by (simp add: integrity_only_def on_cp_def)

lemma integrity_on_cp_res: "(\<And>cp e. f cp = Inl e \<Longrightarrow> e = IntegrityError) \<Longrightarrow> integrity_only (on_cp_res f)"
  by (auto simp: integrity_only_def on_cp_res_def split: sum.splits)

lemma integrity_post_publish: "integrity_only (post_publish gid sv revs)"
proof -
  have "integrity_only (record_all gid st cids)" for st cids
  proof (induction cids)
    case Nil
    then show ?case by (simp add: integrity_only_def liftP_def)
  next
    case (Cons c cids)
    then show ?case unfolding record_all.simps
      by (intro integrity_thenP integrity_on_cp_res) (auto simp: record_resolution_def split: if_splits)
  qed
  moreover have "build_search_index cp gid es = Inl e \<Longrightarrow> e = IntegrityError" for cp es e
    by (induction cp gid es rule: build_search_index.induct) (auto split: if_splits)
  ultimately show ?thesis unfolding post_publish_def
    by (intro integrity_thenP integrity_on_cp integrity_on_cp_res) auto
qed

lemma post_publish_no_conflict: "post_publish gid sv revs s \<noteq> (Inl CASConflict, s')"
  using integrity_post_publish [of gid sv revs] unfolding integrity_only_def by blast

lemma activate_conflict_frame:
  assumes "activate_prepared pp s = (Inl CASConflict, s')"
  shows "s' = s"
  using assms
  by (auto simp: post_publish_no_conflict activate_prepared_def Let_def thenP_def on_cp_res_def liftP_def split: option.splits if_splits sum.splits prod.splits)

lemma activated_pointer:
  assumes "activate_prepared pp s = (Inr r, s')"
  shows "pr_generation_id r = None \<and> s' = s \<and> pr_noop r \<or> pr_generation_id r = current_pointer (pub_cp s') \<and> \<not> pr_noop r"
proof (cases "pp_candidate pp = None \<or> pp_release_commit_oid pp = None \<or> pp_noop pp")
  case True
  then show ?thesis using assms by (auto simp: activate_prepared_def split: option.splits if_splits)
next
  case False
  then show ?thesis using activate_prepared_frame(2) [OF assms] by (auto simp: current_pointer_def)
qed

text \<open>What a preparation with a candidate leaves in the repository and the database.\<close>

lemma prepared_candidate:
  assumes "builder_ok B V" "anchored V s" "parent_claims B s (current_pointer (pub_cp s)) = Inr old"
    and "\<forall>c\<in>set old \<union> set new. good_claim (gb_lib B) c"
    and "prepare B new src revs expected binding n s = (Inr pp, s1)" "pp_candidate pp = Some cand"
  obtains rel root sl where "pp_release_commit_oid pp = Some rel" "\<not> pp_noop pp"
    "seal B (surviving_claims old new revs) (current_pointer (pub_cp s)) src root binding = Inr sl"
    "cand_generation_id cand = sl_gid sl" "holds_files V (pub_repo s1) (cand_commit_oid cand) (map_of (sealed_files sl))"
    "generation_commit (pub_cp s1) (cand_generation_id cand) = Some (cand_commit_oid cand)"
    "verify_manifest B (pub_repo s1) (cand_commit_oid cand) (cand_generation_id cand) = Inr True"
    "parent_claims B s1 (Some (cand_generation_id cand)) = Inr (map sort_claim (surviving_claims old new revs))"
proof -
  let ?sv = "surviving_claims old new revs"
  obtain s0 where s0: "pub_repo s0 = pub_repo s" "rows (pub_cp s0) = rows (pub_cp s)"
    and g: "prepare_generation B (current_pointer (pub_cp s)) ?sv (sorted_set revs) src binding n s0 = (Inr pp, s1)"
    using prepareD [OF assms(5)] assms(3,6) by (metis (no_types, lifting) option.distinct(1) prepared_publication.select_convs(2) sum.inject(2))
  have anch: "anchored V s0" using assms(2) s0 by (simp add: anchored_def)
  obtain rel root prev g1 g2 where pp: "pp_release_commit_oid pp = Some rel" "\<not> pp_noop pp"
      and b: "build_candidate B ?sv (current_pointer (pub_cp s)) src root binding (pub_repo s0) = (Inr cand, g1)"
        "build_release_commit B cand prev g1 = (Inr rel, g2)"
        "register_candidate B (current_pointer (pub_cp s)) cand rel (s0\<lparr>pub_repo := g2\<rparr>) = (Inr (), s1)"
    using prepare_generationD [OF g] assms(6) by (metis option.inject prepared_publication.select_convs(2,3,7))
  have good: "\<forall>c\<in>set ?sv. good_claim (gb_lib B) c" using surviving_members assms(4) by blast
  note A = prepared_artifact [OF assms(1) anch good surviving_sorted b]
  from A(3) A(2) pp show thesis by (elim exE conjE) (rule that)
qed

subsection \<open>Publishing succeeds\<close>

lemma jwf_py_json: "admissible L tup v \<Longrightarrow> jwf (py_json v)"
proof (induction L tup v rule: admissible.induct)
  case (6 L tup kvs)
  from "6.prems" have "distinct (map (nkey L) kvs)" by (simp add: admissible_PDict)
  then have "distinct (map (\<lambda>kv. the (key_str (fst kv))) kvs)"
    by (auto simp: distinct_map inj_on_def)
  moreover have "\<forall>kv\<in>set kvs. jwf (py_json (snd kv))" using "6.IH" "6.prems" by (auto simp: admissible_PDict)
  ultimately show ?case by (auto simp: comp_def split_beta)
qed (auto simp: list_all_iff)

lemma py_json_pdict: "py_json (pdict kvs) = JObj (map (\<lambda>(k, v). (k, py_json v)) kvs)"
  by (simp add: pdict_def split_beta)

lemma root_total: "nfc_ascii L \<Longrightarrow> \<exists>root. accepted_claim_set_root L ds = Inr root"
proof -
  assume L: "nfc_ascii L"
  have "admissible L True (decision_canonical d)" for d
    using nfc_asciiD [OF L] by (simp add: decision_canonical_def admissible_pdict list_all_iff)
  then have "\<forall>d. \<exists>b. canonical_bytes L (decision_canonical d) = Inr b" using canonical_total(1) by blast
  then obtain f where "\<forall>d. canonical_bytes L (decision_canonical d) = Inr (f d)" by metis
  then have "mapR (\<lambda>d. canonical_bytes L (decision_canonical d)) ds = Inr (map f ds)" by (intro mapR_all_Inr) simp
  then show ?thesis by (simp add: accepted_claim_set_root_def)
qed

lemma release_bytes_total:
  assumes "builder_ok B V"
  shows "\<exists>b. release_manifest_bytes B cand prev = Inr b"
proof -
  note ok = builder_okD [OF assms]
  have adm: "admissible (gb_lib B) True (pdict (release_body B cand prev))"
    "admissible (gb_lib B) True (pdict (dict_set ''signature'' (PStr x) (release_body B cand prev)))" for x
    using nfc_asciiD [OF ok(4)] by (simp_all add: release_body_def admissible_pdict)
  obtain h where "canonical_hash (gb_lib B) (pdict (release_body B cand prev)) = Inr h" using canonical_total(2) [OF adm(1)] by blast
  moreover obtain sg where "sign_domain (gb_ed B) (gb_keyring B) (gb_key_id B) ''wiki.release.v1'' h = Inr sg"
    using sign_domain_verify [OF ok(2,3)] by blast
  ultimately show ?thesis using canonical_total(1) [OF adm(2)] by (simp add: release_manifest_bytes_def)
qed

lemma build_release_commit_total:
  assumes "builder_ok B V" "git_total (gb_git B) V" "own_ref (release_ref (cand_generation_id cand))"
    and "list_all is_slug_char (cand_generation_id cand)"
    and "ref_free (v_ref V g) (release_ref (cand_generation_id cand))" "v_commit V g (cand_commit_oid cand) \<noteq> None"
  shows "\<exists>oid g'. build_release_commit B cand prev g = (Inr oid, g') \<and> oid \<noteq> []"
proof -
  let ?gid = "cand_generation_id cand" and ?G = "gb_git B"
  note git = builder_okD(1) [OF assms(1)]
  obtain b where b: "release_manifest_bytes B cand prev = Inr b" using release_bytes_total [OF assms(1)] by blast
  let ?files = "[(''release/'' @ ?gid @ ''.json'', b)]"
  have tl: "\<forall>f\<in>set ?files. two_level (fst f)" using two_level_paths(6) [OF assms(4)] by simp
  obtain t g1 where t: "write_tree_from_files ?G ?files g = (Inr t, g1)"
    and all: "\<forall>msg pc. CHR 0x00 \<notin> set msg \<and> (\<forall>p. pc = Some p \<longrightarrow> v_commit V g p \<noteq> None) \<longrightarrow>
        (\<exists>c g2 g'. commit_tree ?G t msg pc g1 = (Inr c, g2) \<and> anchor ?G (release_ref ?gid) c g2 = (Inr (), g'))"
    using commit_files_total [OF git assms(2) tl assms(3,5)] by blast
  have "CHR 0x00 \<notin> set (''release '' @ ?gid)" using assms(4) slug_char_not_dot(2) by (auto simp: list_all_iff)
  with all assms(6) obtain c g2 g' where c: "commit_tree ?G t (''release '' @ ?gid) (Some (cand_commit_oid cand)) g1 = (Inr c, g2)"
    and a: "anchor ?G (release_ref ?gid) c g2 = (Inr (), g')" by blast
  have "distinct (dict_keys ?files)" by simp
  from write_commit_spec [OF git this t c] have "c \<noteq> []" by blast
  moreover have "build_release_commit B cand prev g = (Inr c, g')"
    by (simp add: build_release_commit_def Let_def thenP_def liftP_def b t [simplified] c [simplified] a)
  ultimately show ?thesis by blast
qed

text \<open>What \<open>_required_from_manifest\<close> reads from the manifest of a sealed candidate.\<close>

lemma sealed_required:
  assumes "nfc_ascii (gb_lib B)" "seal B cs parent sh root binding = Inr s"
  shows "get_obj (sort_keys (py_json (sl_manifest s))) ''descriptor'' = Inr (sort_keys (py_json (sl_descriptor s)))"
    and "\<exists>inline. get_obj (sort_keys (py_json (sl_descriptor s))) ''inline_artifacts'' = Inr inline \<and>
      artifact_of inline ''wiki_files_root'' = Inr (Some (JStr (sl_wroot s))) \<and>
      artifact_of inline ''citation_index_digest'' = Inr (Some (JStr (sl_cdigest s)))"
proof -
  note D = sealD [OF assms(2)]
  obtain sg where m: "sl_manifest s = manifest_value (sl_descriptor s) (sl_gid s) (gb_key_id B) (hex sg)" using D(10) by blast
  have adm: "admissible (gb_lib B) True (sl_manifest s)" "admissible (gb_lib B) True (sl_descriptor s)"
    using D(8,9) canon.to_bytes_Inr_iff [of "gb_lib B" "sl_manifest s"] canon.to_bytes_Inr_iff [of "gb_lib B" "sl_descriptor s"]
    by (auto simp: canonical_hash_bytes canonical_bytes_def)
  note wf = jwf_py_json [OF adm(1)] jwf_py_json [OF adm(2)]
  have "jget (py_json (sl_manifest s)) ''descriptor'' = Some (py_json (sl_descriptor s))"
    by (simp add: m manifest_value_def py_json_pdict jget_def)
  then show "get_obj (sort_keys (py_json (sl_manifest s))) ''descriptor'' = Inr (sort_keys (py_json (sl_descriptor s)))"
    by (rule get_sort_keys(2) [OF wf(1)])
  let ?i = "JObj [(''wiki_files_root'', JStr (sl_wroot s)), (''citation_index_digest'', JStr (sl_cdigest s)),
      (''knowledge_snapshot_digest'', JStr (sl_sdigest s))]"
  have "jget (py_json (sl_descriptor s)) ''inline_artifacts'' = Some ?i"
    by (simp add: D(7) descriptor_of_def py_json_pdict jget_def)
  then have "get_obj (sort_keys (py_json (sl_descriptor s))) ''inline_artifacts'' = Inr (sort_keys ?i)"
    by (rule get_sort_keys(2) [OF wf(2)])
  moreover have "artifact_of (sort_keys j) k = Inr (Some (JStr x))" if "jwf j" "jget j k = Some (JStr x)" for j k x
    using jget_sort_keys [OF that(1), of k] that(2) by (cases j) (simp_all add: artifact_of_def jget_def)
  then have "artifact_of (sort_keys ?i) ''wiki_files_root'' = Inr (Some (JStr (sl_wroot s)))"
    "artifact_of (sort_keys ?i) ''citation_index_digest'' = Inr (Some (JStr (sl_cdigest s)))"
    by (simp_all add: jget_def del: sort_keys.simps)
  ultimately show "\<exists>inline. get_obj (sort_keys (py_json (sl_descriptor s))) ''inline_artifacts'' = Inr inline \<and>
      artifact_of inline ''wiki_files_root'' = Inr (Some (JStr (sl_wroot s))) \<and>
      artifact_of inline ''citation_index_digest'' = Inr (Some (JStr (sl_cdigest s)))" by blast
qed

lemma register_fresh:
  fixes s :: "'g publisher"
  assumes "cand_generation_id cand \<notin> set (gen_ids (pub_cp s))" "canonical_hash (gb_lib B) (cand_manifest cand) = Inr mh"
  defines "gid \<equiv> cand_generation_id cand"
  shows "\<exists>s'. register_candidate B parent cand rel s = (Inr (), s') \<and> pub_repo s' = pub_repo s \<and>
     current_generation_id (pub_cp s') = current_generation_id (pub_cp s) \<and>
     claim_resolution (pub_cp s') = claim_resolution (pub_cp s) \<and>
     (\<exists>row. find_gen (pub_cp s') gid = Some row \<and> g_state row = ReadModelsReady \<and> g_release row = Some rel \<and>
        g_manifest row = Doc (sort_keys (py_json (cand_manifest cand)))) \<and>
     map_of (read_model_status (pub_cp s')) (gid, ''wiki_files'') = Some (''ready'', cand_wiki_files_root cand) \<and>
     map_of (read_model_status (pub_cp s')) (gid, ''citation_index'') = Some (''ready'', cand_citation_index_digest cand)"
proof -
  let ?d = "Doc (sort_keys (py_json (cand_manifest cand)))"
  let ?cp1 = "register_generation (pub_cp s) gid parent (cand_commit_oid cand) mh ?d (Some rel)"
  have ids: "gid \<in> set (gen_ids ?cp1)" using assms(1) by (simp add: register_generation_def insert_generation_def gen_ids_def gid_def Let_def)
  obtain cp2 where m2: "mark_read_model ?cp1 gid ''wiki_files'' (cand_wiki_files_root cand) = Inr cp2"
      and cp2: "cp2 = ?cp1\<lparr>read_model_status := replace_row (gid, ''wiki_files'') (''ready'', cand_wiki_files_root cand) (read_model_status ?cp1)\<rparr>"
    using ids by (simp add: mark_read_model_def)
  have ids2: "gid \<in> set (gen_ids cp2)" using ids by (simp add: cp2 gen_ids_def)
  obtain cp3 where m3: "mark_read_model cp2 gid ''citation_index'' (cand_citation_index_digest cand) = Inr cp3"
      and cp3: "cp3 = cp2\<lparr>read_model_status := replace_row (gid, ''citation_index'') (''ready'', cand_citation_index_digest cand) (read_model_status cp2)\<rparr>"
    using ids2 by (simp add: mark_read_model_def)
  let ?s = "s\<lparr>pub_cp := set_read_models_ready cp3 gid\<rparr>"
  have run: "register_candidate B parent cand rel s = (Inr (), ?s)"
    by (simp add: register_candidate_def Let_def thenP_def liftP_def on_cp_def on_cp_res_def assms(2) m2 m3 flip: gid_def)
  have gens: "generation cp3 = generation (pub_cp s) @ [\<lparr>g_id = gid, g_parent = parent, g_commit = cand_commit_oid cand,
      g_manifest_hash = mh, g_manifest = ?d, g_release = Some rel, g_state = Validated, g_seq = next_seq (pub_cp s)\<rparr>]"
    using assms(1) by (simp add: cp3 cp2 register_generation_def insert_generation_def Let_def gid_def)
  have no: "g_id r \<noteq> gid" if "r \<in> set (generation (pub_cp s))" for r
    using assms(1) that unfolding gen_ids_def gid_def set_map by (metis imageI)
  have "find (\<lambda>r. g_id r = gid) (map (\<lambda>r. if g_id r = gid \<and> g_state r = Validated then r\<lparr>g_state := ReadModelsReady\<rparr> else r)
      (generation (pub_cp s))) = None"
    using no unfolding find_None_iff by (auto split: if_splits)
  then have "find_gen (pub_cp ?s) gid = Some \<lparr>g_id = gid, g_parent = parent, g_commit = cand_commit_oid cand,
      g_manifest_hash = mh, g_manifest = ?d, g_release = Some rel, g_state = ReadModelsReady, g_seq = next_seq (pub_cp s)\<rparr>"
    by (simp add: find_gen_def set_read_models_ready_def gens find_append)
  moreover have "current_generation_id cp3 = current_generation_id (pub_cp s)" "claim_resolution cp3 = claim_resolution (pub_cp s)"
    by (simp_all add: cp3 cp2 register_generation_def insert_generation_def Let_def)
  moreover have "map_of (read_model_status cp3) (gid, ''wiki_files'') = Some (''ready'', cand_wiki_files_root cand)"
    "map_of (read_model_status cp3) (gid, ''citation_index'') = Some (''ready'', cand_citation_index_digest cand)"
    by (simp_all add: cp3 cp2 map_of_replace_row)
  ultimately show ?thesis using run by (intro exI [of _ ?s]) (simp add: set_read_models_ready_def)
qed

lemma record_all_total:
  "gid \<in> set (gen_ids (pub_cp s)) \<Longrightarrow> \<exists>s'. record_all gid st cids s = (Inr (), s') \<and> gen_ids (pub_cp s') = gen_ids (pub_cp s) \<and>
     (\<forall>k. map_of (claim_resolution (pub_cp s')) k = (if fst k = gid \<and> snd k \<in> set cids then Some st else map_of (claim_resolution (pub_cp s)) k))"
proof (induction cids arbitrary: s)
  case (Cons c cids)
  let ?s = "s\<lparr>pub_cp := (pub_cp s)\<lparr>claim_resolution := replace_row (gid, c) st (claim_resolution (pub_cp s))\<rparr>\<rparr>"
  have "gid \<in> set (gen_ids (pub_cp ?s))" using Cons.prems by (simp add: gen_ids_def)
  from Cons.IH [OF this] obtain s' where s': "record_all gid st cids ?s = (Inr (), s')" "gen_ids (pub_cp s') = gen_ids (pub_cp ?s)"
    "\<forall>k. map_of (claim_resolution (pub_cp s')) k = (if fst k = gid \<and> snd k \<in> set cids then Some st else map_of (claim_resolution (pub_cp ?s)) k)"
    by blast
  have "record_all gid st (c # cids) s = (Inr (), s')"
    using s'(1) Cons.prems by (simp add: thenP_def on_cp_res_def record_resolution_def)
  moreover have "gen_ids (pub_cp s') = gen_ids (pub_cp s)" using s'(2) by (simp add: gen_ids_def)
  moreover have "\<forall>k. map_of (claim_resolution (pub_cp s')) k =
      (if fst k = gid \<and> snd k \<in> set (c # cids) then Some st else map_of (claim_resolution (pub_cp s)) k)"
    using s'(3) by (auto simp: map_of_replace_row)
  ultimately show ?case by blast
qed simp

lemma build_search_index_total:
  "gid \<in> set (gen_ids cp) \<Longrightarrow> \<exists>cp'. build_search_index cp gid es = Inr cp' \<and> claim_resolution cp' = claim_resolution cp"
proof (induction cp gid es rule: build_search_index.induct)
  case (2 cp gid cid su pr ob es)
  then show ?case by (simp add: gen_ids_def)
qed simp

lemma post_publish_total:
  assumes "gid \<in> set (gen_ids (pub_cp s))"
  shows "\<exists>s'. post_publish gid sv revs s = (Inr (), s') \<and> current_search_pointer (pub_cp s') = Some gid \<and>
     (\<forall>cid. resolution_state (pub_cp s') gid cid = (if cid \<in> set revs then Some ''retracted''
        else if cid \<in> set (map claim_of sv) then Some ''accepted'' else resolution_state (pub_cp s) gid cid))"
proof -
  let ?s1 = "s\<lparr>pub_cp := add_generation_assertions (pub_cp s) gid (map aid_of sv)\<rparr>"
  have g1: "gid \<in> set (gen_ids (pub_cp ?s1))" using assms by (simp add: gen_ids_def add_generation_assertions_rows)
  have r1: "claim_resolution (pub_cp ?s1) = claim_resolution (pub_cp s)"
  proof -
    have "claim_resolution (add_generation_assertions cp gid as) = claim_resolution cp" for cp as
      by (induction cp gid as rule: add_generation_assertions.induct) simp_all
    then show ?thesis by simp
  qed
  from record_all_total [OF g1, of "''accepted''" "map claim_of sv"] obtain s2 where
    2: "record_all gid ''accepted'' (map claim_of sv) ?s1 = (Inr (), s2)" "gen_ids (pub_cp s2) = gen_ids (pub_cp ?s1)"
    "\<forall>k. map_of (claim_resolution (pub_cp s2)) k = (if fst k = gid \<and> snd k \<in> set (map claim_of sv) then Some ''accepted''
       else map_of (claim_resolution (pub_cp ?s1)) k)" by blast
  from record_all_total [of gid s2 "''retracted''" revs] g1 2(2) obtain s3 where
    3: "record_all gid ''retracted'' revs s2 = (Inr (), s3)" "gen_ids (pub_cp s3) = gen_ids (pub_cp s2)"
    "\<forall>k. map_of (claim_resolution (pub_cp s3)) k = (if fst k = gid \<and> snd k \<in> set revs then Some ''retracted''
       else map_of (claim_resolution (pub_cp s2)) k)" by auto
  from build_search_index_total [of gid "pub_cp s3" "search_entries [] sv"] g1 2(2) 3(2) obtain cp4 where
    4: "build_search_index (pub_cp s3) gid (search_entries [] sv) = Inr cp4" "claim_resolution cp4 = claim_resolution (pub_cp s3)" by auto
  have "post_publish gid sv revs s = (Inr (), s3\<lparr>pub_cp := set_search_pointer cp4 gid\<rparr>)"
    by (simp add: post_publish_def thenP_def on_cp_def on_cp_res_def 2(1) 3(1) 4(1))
  moreover have "resolution_state (set_search_pointer cp4 gid) gid cid = (if cid \<in> set revs then Some ''retracted''
        else if cid \<in> set (map claim_of sv) then Some ''accepted'' else resolution_state (pub_cp s) gid cid)" for cid
    using 2(3) 3(3) 4(2) r1 by (simp add: resolution_state_def set_search_pointer_def)
  ultimately show ?thesis by (intro exI [of _ "s3\<lparr>pub_cp := set_search_pointer cp4 gid\<rparr>"]) (simp add: current_search_pointer_def set_search_pointer_def)
qed

subsection \<open>Publications that succeed\<close>

text \<open>
  The generation that the publication builds is new: no row and no reference of it exists yet, and
  none that stands in the way of its references. The root and the identifier are those of this
  generation: the surviving claims determine the one, the descriptor the other.
\<close>

definition fresh_generation ::
    "'g generation_builder \<Rightarrow> 'g git_view \<Rightarrow> 'g publisher \<Rightarrow> compiled_claim list \<Rightarrow> string \<Rightarrow> pyval option \<Rightarrow> bool" where
  "fresh_generation B V s sv src binding \<longleftrightarrow>
     (\<forall>root sl. accepted_claim_set_root (gb_lib B) (decisions_of sv) = Inr root \<and>
        seal B sv (current_pointer (pub_cp s)) src root binding = Inr sl \<longrightarrow>
        sl_gid sl \<notin> set (gen_ids (pub_cp s)) \<and> ref_free (v_ref V (pub_repo s)) (generation_ref (sl_gid sl)) \<and>
        ref_free (v_ref V (pub_repo s)) (release_ref (sl_gid sl)))"

text \<open>The repository holds the commit of the current generation.\<close>

definition head_present :: "'g git_view \<Rightarrow> 'g publisher \<Rightarrow> bool" where
  "head_present V s \<longleftrightarrow> (\<forall>p c. current_pointer (pub_cp s) = Some p \<and> generation_commit (pub_cp s) p = Some c \<longrightarrow>
     v_commit V (pub_repo s) c \<noteq> None)"

lemma current_buildable:
  "cp_inv (pub_cp s) \<Longrightarrow> anchored V s \<Longrightarrow> head_present V s \<Longrightarrow> buildable V (pub_repo s) (current_pointer (pub_cp s))"
proof (cases "current_pointer (pub_cp s)")
  case (Some p)
  assume "cp_inv (pub_cp s)" and a: "anchored V s" "head_present V s"
  with Some have "p \<in> set (dict_keys (rows (pub_cp s)))" by (simp add: cp_inv_def pointer_ok_def current_pointer_def rows_keys del: set_map)
  then obtain c where "map_of (rows (pub_cp s)) p = Some c" by (metis map_of_eq_None_iff not_Some_eq set_map)
  with a Some show ?thesis unfolding anchored_def head_present_def buildable_def or_empty_def generation_commit_rows by auto
qed (simp add: buildable_def or_empty_def)

lemma release_ref_free:
  "ref_free refs (release_ref g) \<Longrightarrow> ref_free (refs(generation_ref h \<mapsto> c)) (release_ref g)"
  by (auto simp: ref_free_def starts_with_def release_ref_def generation_ref_def)

text \<open>Every program of a publication keeps the invariant of the database, whatever its outcome.\<close>

definition keeps_inv :: "('g publisher, 'a) prog \<Rightarrow> bool" where
  "keeps_inv m \<longleftrightarrow> (\<forall>s. cp_inv (pub_cp s) \<longrightarrow> cp_inv (pub_cp (snd (m s))))"

lemma keeps_invD: "keeps_inv m \<Longrightarrow> m s = (r, s') \<Longrightarrow> cp_inv (pub_cp s) \<Longrightarrow> cp_inv (pub_cp s')"
  unfolding keeps_inv_def by (metis snd_conv)

lemma keeps_inv_thenP: "keeps_inv m \<Longrightarrow> (\<And>a. keeps_inv (f a)) \<Longrightarrow> keeps_inv (thenP m f)"
  unfolding keeps_inv_def thenP_def by (simp split: prod.splits sum.splits) (metis snd_conv)

lemma keeps_inv_liftP: "keeps_inv (liftP r)"
  by (simp add: keeps_inv_def liftP_def)

lemma keeps_inv_on_cp: "(\<And>cp. cp_inv cp \<Longrightarrow> cp_inv (f cp)) \<Longrightarrow> keeps_inv (on_cp f)"
  by (simp add: keeps_inv_def on_cp_def)

lemma keeps_inv_on_cp_res: "(\<And>cp cp'. cp_inv cp \<Longrightarrow> f cp = Inr cp' \<Longrightarrow> cp_inv cp') \<Longrightarrow> keeps_inv (on_cp_res f)"
  by (auto simp: keeps_inv_def on_cp_res_def split: sum.splits)

lemmas keeps_inv_rules = keeps_inv_thenP keeps_inv_liftP keeps_inv_on_cp keeps_inv_on_cp_res

lemma cp_inv_register: "cp_inv cp \<Longrightarrow> cp_inv (register_generation cp gid parent oid mh mj rel)"
  by (rule cp_step_inv [OF cp_step_register])

lemma cp_inv_upserts: "cp_inv cp \<Longrightarrow> cp_inv (fold (\<lambda>c cp. upsert_claim_and_assertion cp c) cs cp)"
  by (induction cs arbitrary: cp) (simp_all add: cp_inv_upsert)

lemma keeps_inv_register_candidate: "keeps_inv (register_candidate B parent cand rel)"
  unfolding register_candidate_def Let_def
  by (intro keeps_inv_rules) (erule cp_inv_register cp_inv_mark_read_model cp_inv_set_read_models_ready, assumption?)+

lemma keeps_inv_record_all: "keeps_inv (record_all gid st cids)"
  by (induction cids) (auto intro!: keeps_inv_rules elim: cp_inv_record_resolution)

lemma keeps_inv_post_publish: "keeps_inv (post_publish gid sv revs)"
  unfolding post_publish_def
  by (intro keeps_inv_thenP keeps_inv_record_all keeps_inv_on_cp keeps_inv_on_cp_res)
    (erule add_generation_assertions_frame cp_inv_build_search_index cp_inv_set_search_pointer, assumption?)+

lemma no_resolution_rows:
  assumes "cp_inv cp" "gid \<notin> set (gen_ids cp)"
  shows "map_of (claim_resolution cp) (gid, cid) = None"
proof (rule ccontr)
  assume "map_of (claim_resolution cp) (gid, cid) \<noteq> None"
  then obtain st where "((gid, cid), st) \<in> set (claim_resolution cp)" by (auto dest: map_of_SomeD)
  with assms show False unfolding cp_inv_def refs_ok_def by force
qed

lemma publish_total:
  fixes s :: "'g publisher"
  assumes ok: "builder_ok B V" "git_total (gb_git B) V" "sha_sized (gb_lib B)"
    and inv: "cp_inv (pub_cp s)" "anchored V s" "head_present V s"
    and old: "parent_claims B s (current_pointer (pub_cp s)) = Inr old"
    and good: "\<forall>c\<in>set old \<union> set new. good_claim (gb_lib B) c"
    and bind: "\<forall>b. binding = Some b \<longrightarrow> admissible (gb_lib B) True b"
    and change: "set (map aid_of (surviving_claims old new revs)) \<noteq> set (map aid_of old)"
    and fresh: "fresh_generation B V s (surviving_claims old new revs) src binding"
    and expected: "expected = AnyParent \<or> expected = ExpectParent (current_pointer (pub_cp s))"
  shows "\<exists>r s' gid. publish_attempt B (\<lambda>_. id) new src revs expected binding n s = (Inr r, s') \<and>
     \<not> pr_noop r \<and> pr_generation_id r = Some gid \<and> current_pointer (pub_cp s') = Some gid \<and>
     cp_inv (pub_cp s') \<and> anchored V s' \<and> head_present V s' \<and> current_search_pointer (pub_cp s') = Some gid \<and>
     (\<forall>cid. resolution_state (pub_cp s') gid cid =
        (if cid \<in> set revs then Some ''retracted''
         else if cid \<in> set (map claim_of (surviving_claims old new revs)) then Some ''accepted'' else None))"
proof -
  let ?sv = "surviving_claims old new revs" and ?p = "current_pointer (pub_cp s)"
  let ?s0 = "s\<lparr>pub_cp := fold (\<lambda>c cp. upsert_claim_and_assertion cp c) new (pub_cp s)\<rparr>"
  have up: "rows (pub_cp ?s0) = rows (pub_cp s)" "current_generation_id (pub_cp ?s0) = current_generation_id (pub_cp s)"
    "gen_ids (pub_cp ?s0) = gen_ids (pub_cp s)"
    by (simp_all add: rows_def gen_ids_def upsert_fold_simps)
  have res: "claim_resolution (pub_cp ?s0) = claim_resolution (pub_cp s)"
  proof -
    have "claim_resolution (fold (\<lambda>c cp. upsert_claim_and_assertion cp c) cs cp) = claim_resolution cp" for cs cp
      by (induction cs arbitrary: cp) (simp_all add: upsert_claim_and_assertion_def Let_def)
    then show ?thesis by simp
  qed
  have pc: "parent_claims B ?s0 ?p = Inr old" using old parent_claims_cong [of ?s0 s, OF _ up(1)] by simp
  obtain root where root: "accepted_claim_set_root (gb_lib B) (decisions_of ?sv) = Inr root" using root_total [OF builder_okD(4) [OF ok(1)]] by blast
  have gsv: "\<forall>c\<in>set ?sv. good_claim (gb_lib B) c" using surviving_members good by blast
  have fr: "\<forall>sl. seal B ?sv ?p src root binding = Inr sl \<longrightarrow> ref_free (v_ref V (pub_repo s)) (generation_ref (sl_gid sl))"
    using fresh root unfolding fresh_generation_def by blast
  obtain cand g1 where b: "build_candidate B ?sv ?p src root binding (pub_repo s) = (Inr cand, g1)"
    using build_candidate_total [OF ok gsv surviving_sorted bind current_buildable [OF inv] fr] by blast
  obtain sl where sl: "seal B ?sv ?p src root binding = Inr sl" "cand_generation_id cand = sl_gid sl"
    "v_ref V g1 = (v_ref V (pub_repo s))(generation_ref (sl_gid sl) \<mapsto> cand_commit_oid cand)"
    "holds_files V g1 (cand_commit_oid cand) (map_of (sealed_files sl))"
    "cand_manifest cand = sl_manifest sl" "cand_wiki_files_root cand = sl_wroot sl" "cand_citation_index_digest cand = sl_cdigest sl"
    using candidate_spec [OF ok(1) gsv surviving_sorted b] by metis
  let ?gid = "cand_generation_id cand"
  from fresh sl(1,2) root have new: "?gid \<notin> set (gen_ids (pub_cp s))" and rr: "ref_free (v_ref V (pub_repo s)) (release_ref ?gid)"
    unfolding fresh_generation_def by metis+
  have gid: "list_all is_slug_char ?gid" "?gid \<noteq> []" using sealed_gid(1) [OF sl(1)] sealed_gid(2) [OF sl(1) ok(3)] sl(2) by auto
  then have own: "own_ref (release_ref ?gid)" by (auto simp: own_ref_def release_ref_def)
  have free: "ref_free (v_ref V g1) (release_ref ?gid)" unfolding sl(3) by (rule release_ref_free [OF rr])
  have "v_commit V g1 (cand_commit_oid cand) \<noteq> None" using sl(4) unfolding holds_files_def by blast
  then obtain rel g2 where rel: "build_release_commit B cand (if or_empty ?p \<noteq> [] then current_release_oid (pub_cp ?s0) else None) g1 = (Inr rel, g2)"
      "rel \<noteq> []" using build_release_commit_total [OF ok(1,2) own gid(1) free] by blast
  obtain mh where mh: "canonical_hash (gb_lib B) (cand_manifest cand) = Inr mh"
    using sealD(9) [OF sl(1)] by (auto simp: sl(5) canonical_hash_def)
  let ?s1 = "?s0\<lparr>pub_repo := g2\<rparr>"
  have "?gid \<notin> set (gen_ids (pub_cp ?s1))" using new up(3) by (simp add: gen_ids_def)
  from register_fresh [OF this mh, of ?p rel] obtain s2 row where
    reg: "register_candidate B ?p cand rel ?s1 = (Inr (), s2)" "current_generation_id (pub_cp s2) = ?p"
      "claim_resolution (pub_cp s2) = claim_resolution (pub_cp s)"
    and row: "find_gen (pub_cp s2) ?gid = Some row" "g_state row = ReadModelsReady" "g_release row = Some rel"
      "g_manifest row = Doc (sort_keys (py_json (cand_manifest cand)))"
    and rm: "map_of (read_model_status (pub_cp s2)) (?gid, ''wiki_files'') = Some (''ready'', cand_wiki_files_root cand)"
      "map_of (read_model_status (pub_cp s2)) (?gid, ''citation_index'') = Some (''ready'', cand_citation_index_digest cand)"
    using up(2) res by (auto simp: current_pointer_def)
  have req: "required_from_manifest (pub_cp s2) ?gid = Inr [(''wiki_files'', JStr (sl_wroot sl)), (''citation_index'', JStr (sl_cdigest sl))]"
    using sealed_required [OF builder_okD(4) [OF ok(1)] sl(1)] row(1,4) by (auto simp: required_from_manifest_def sl(5))
  then have "activation_ready (pub_cp s2) ?gid ?p rel"
    using reg(2) rel(2) row rm by (simp add: activation_ready_def sl(6,7))
  then have act: "activate (pub_cp s2) ?gid ?p rel = Inr (activated_state (pub_cp s2) ?gid rel)" by (simp add: activate_Inr_iff)
  let ?s3 = "s2\<lparr>pub_cp := activated_state (pub_cp s2) ?gid rel\<rparr>"
  have "?gid \<in> set (gen_ids (pub_cp ?s3))" using row(1) find_gen_None [of "pub_cp s2" ?gid] by auto
  from post_publish_total [OF this, of ?sv "sorted_set revs"] obtain s' where
    post: "post_publish ?gid ?sv (sorted_set revs) ?s3 = (Inr (), s')" "current_search_pointer (pub_cp s') = Some ?gid"
      "\<forall>cid. resolution_state (pub_cp s') ?gid cid = (if cid \<in> set revs then Some ''retracted''
        else if cid \<in> set (map claim_of ?sv) then Some ''accepted'' else resolution_state (pub_cp ?s3) ?gid cid)"
    by auto
  have none: "resolution_state (pub_cp ?s3) ?gid cid = None" for cid
    using no_resolution_rows [OF inv(1) new] reg(3) by (simp add: resolution_state_def)
  let ?pp = "\<lparr>pp_parent_generation_id = ?p, pp_candidate = Some cand, pp_release_commit_oid = Some rel,
      pp_surviving = ?sv, pp_revoked_claim_ids = sorted_set revs, pp_attempts = n, pp_noop = False\<rparr>"
  have "prepare_generation B ?p ?sv (sorted_set revs) src binding n ?s0 = (Inr ?pp, s2)"
    using root b rel(1) reg(1) by (simp add: prepare_generation_def thenP_def liftP_def on_repo_def Let_def)
  then have prep: "prepare B new src revs expected binding n s = (Inr ?pp, s2)"
    using change expected pc by (simp add: prepare_def Let_def thenP_def liftP_def on_cp_def)
  have "generation_state (pub_cp s2) ?gid = Some ReadModelsReady" using row by (simp add: generation_state_def)
  then have actp: "activate_prepared ?pp s2 = (Inr \<lparr>pr_generation_id = Some ?gid, pr_candidate_commit_oid = Some (cand_commit_oid cand),
      pr_release_commit_oid = Some rel, pr_attempts = n, pr_noop = False\<rparr>, s')"
    using act post(1) by (simp add: activate_prepared_def Let_def thenP_def liftP_def on_cp_res_def)
  have "current_pointer (pub_cp s') = Some ?gid"
    using keepsD [OF keeps_post_publish post(1)] by (simp add: current_pointer_def)
  moreover have "cp_inv (pub_cp s') \<and> anchored V s' \<and> head_present V s'"
  proof (intro conjI)
    have a0: "anchored V ?s0" using inv(2) up(1) by (simp add: anchored_def)
    have b0: "build_candidate B ?sv ?p src root binding (pub_repo ?s0) = (Inr cand, g1)" using b by simp
    note A = prepared_artifact [OF ok(1) a0 gsv surviving_sorted b0 rel(1) reg(1)]
    have F: "pub_repo s' = pub_repo s2" "rows (pub_cp s') = rows (pub_cp s2)"
      using activate_prepared_frame(2) [OF actp] by simp_all
    show "anchored V s'" using A(1) F by (simp add: anchored_def)
    show "head_present V s'"
      using A(3) F calculation unfolding head_present_def generation_commit_rows holds_files_def by auto
    have "cp_inv (pub_cp s2)" using keeps_invD [OF keeps_inv_register_candidate reg(1)] cp_inv_upserts [OF inv(1)] by simp
    then have "cp_inv (pub_cp ?s3)" using cp_inv_activate act by simp
    then show "cp_inv (pub_cp s')" by (rule keeps_invD [OF keeps_inv_post_publish post(1)])
  qed
  ultimately show ?thesis using prep actp post(2,3) none by (simp add: publish_attempt_def thenP_def)
qed

text \<open>
  C2: publishing makes progress. On a repository that works and holds the commit of the current
  generation, when the claims are well-formed, the publication changes the set of assertions, and no
  row or reference of the very generation it builds exists yet, an undisturbed attempt returns: the
  new generation is current, it is the one searched, exactly the surviving claims are accepted in it
  and the revoked ones retracted, and database and repository are again as the next publication
  needs them.
\<close>

theorem publish_succeeds:
  fixes s :: "'g publisher"
  assumes ok: "builder_ok B V" "git_total (gb_git B) V" "sha_sized (gb_lib B)"
    and inv: "cp_inv (pub_cp s)" "anchored V s" "head_present V s"
    and old: "parent_claims B s (current_pointer (pub_cp s)) = Inr old"
    and good: "\<forall>c\<in>set old \<union> set new. good_claim (gb_lib B) c"
    and bind: "\<forall>b. binding = Some b \<longrightarrow> admissible (gb_lib B) True b"
    and change: "set (map aid_of (surviving_claims old new revs)) \<noteq> set (map aid_of old)"
    and fresh: "fresh_generation B V s (surviving_claims old new revs) src binding"
    and expected: "expected = AnyParent \<or> expected = ExpectParent (current_pointer (pub_cp s))"
  shows "\<exists>r s' gid. publish_attempt B (\<lambda>_. id) new src revs expected binding n s = (Inr r, s') \<and>
     \<not> pr_noop r \<and> pr_generation_id r = Some gid \<and> current_pointer (pub_cp s') = Some gid \<and>
     cp_inv (pub_cp s') \<and> anchored V s' \<and> head_present V s' \<and> current_search_pointer (pub_cp s') = Some gid \<and>
     (\<forall>cid. resolution_state (pub_cp s') gid cid =
        (if cid \<in> set revs then Some ''retracted''
         else if cid \<in> claim_of ` updated old new revs then Some ''accepted'' else None))"
  by (rule publish_total [OF assms, unfolded set_map surviving_updated])

definition demo_publisher :: "demo_repo publisher" where
  "demo_publisher = \<lparr>pub_repo = empty_repo, pub_cp = cp_init\<rparr>"

lemma demo_updated: "updated [] [demo_claim] [] = {demo_claim}"
  by (auto simp: updated_def)

lemma demo_publisher_facts:
  "cp_inv (pub_cp demo_publisher)" "anchored demo_view demo_publisher" "head_present demo_view demo_publisher"
  "parent_claims demo_builder demo_publisher (current_pointer (pub_cp demo_publisher)) = Inr []"
  "fresh_generation demo_builder demo_view demo_publisher sv src binding"
  "\<forall>c\<in>set [] \<union> set [demo_claim]. good_claim (gb_lib demo_builder) c"
  "surviving_claims [] [demo_claim] [] = [demo_claim]"
  using cp_inv_init demo_claim_good
  by (simp_all add: demo_publisher_def anchored_def head_present_def rows_def parent_claims_def current_pointer_def fresh_generation_def
      ref_free_def gen_ids_def cp_init_def demo_view_def empty_repo_def demo_builder_def surviving_claims_def by_assertion_def)

lemma demo_builder_works: "git_total (gb_git demo_builder) demo_view" "sha_sized (gb_lib demo_builder)"
  using demo_git_total demo_sha_sized by (simp_all add: demo_builder_def)

text \<open>
  A database and a repository in which another publisher left a generation behind: its commit, its
  reference and its row, registered but never activated.
\<close>

definition used_publisher :: "demo_repo publisher" where
  "used_publisher =
     \<lparr>pub_repo = \<lparr>dr_blobs = [], dr_trees = [[]], dr_commits = [str_nat 0], dr_refs = [(generation_ref ''old'', str_nat 0)]\<rparr>,
      pub_cp = register_generation cp_init ''old'' None (str_nat 0) ''m'' EmptyText None\<rparr>"

lemma used_publisher_facts:
  "cp_inv (pub_cp used_publisher)" "anchored demo_view used_publisher" "head_present demo_view used_publisher"
  "parent_claims demo_builder used_publisher (current_pointer (pub_cp used_publisher)) = Inr []"
  "fresh_generation demo_builder demo_view used_publisher sv src binding"
proof -
  show "cp_inv (pub_cp used_publisher)" by (simp add: used_publisher_def cp_inv_register cp_inv_init)
  have ptr: "current_pointer (pub_cp used_publisher) = None"
    by (simp add: used_publisher_def current_pointer_def register_generation_def insert_generation_def cp_init_def)
  then show "head_present demo_view used_publisher" by (simp add: head_present_def)
  show "parent_claims demo_builder used_publisher (current_pointer (pub_cp used_publisher)) = Inr []"
    by (simp add: ptr parent_claims_def)
  show "anchored demo_view used_publisher"
    by (simp add: used_publisher_def anchored_def rows_def register_generation_def insert_generation_def cp_init_def gen_ids_def
        demo_view_def)
  show "fresh_generation demo_builder demo_view used_publisher sv src binding"
    unfolding fresh_generation_def
  proof (intro allI impI)
    fix root sl
    assume "accepted_claim_set_root (gb_lib demo_builder) (decisions_of sv) = Inr root \<and>
      seal demo_builder sv (current_pointer (pub_cp used_publisher)) src root binding = Inr sl"
    then have sl: "seal demo_builder sv (current_pointer (pub_cp used_publisher)) src root binding = Inr sl" ..
    note G = sealed_gid(1) [OF sl] sealed_gid(2) [OF sl demo_builder_works(2)]
    have refs: "v_ref demo_view (pub_repo used_publisher) ref = (if ref = generation_ref ''old'' then Some (str_nat 0) else None)" for ref
      by (simp add: demo_view_def used_publisher_def)
    have ids: "gen_ids (pub_cp used_publisher) = [''old'']"
      by (simp add: used_publisher_def register_generation_def insert_generation_def cp_init_def gen_ids_def)
    have neq: "sl_gid sl \<noteq> ''old''" using G(2) by auto
    have "take 4 (sl_gid sl) \<noteq> ''old/''"
    proof
      assume "take 4 (sl_gid sl) = ''old/''"
      then have "CHR ''/'' \<in> set (take 4 (sl_gid sl))" by simp
      then have "CHR ''/'' \<in> set (sl_gid sl)" by (rule in_set_takeD)
      with G(1) show False by (auto simp: list_all_iff is_slug_char_def is_digit_def)
    qed
    then have "ref_free (v_ref demo_view (pub_repo used_publisher)) (generation_ref (sl_gid sl))"
      using neq G(2) unfolding ref_free_def refs by (auto simp: generation_ref_def starts_with_def numeral_eq_Suc)
    moreover have "ref_free (v_ref demo_view (pub_repo used_publisher)) (release_ref (sl_gid sl))"
      unfolding ref_free_def refs by (auto simp: generation_ref_def release_ref_def starts_with_def)
    ultimately show "sl_gid sl \<notin> set (gen_ids (pub_cp used_publisher)) \<and>
        ref_free (v_ref demo_view (pub_repo used_publisher)) (generation_ref (sl_gid sl)) \<and>
        ref_free (v_ref demo_view (pub_repo used_publisher)) (release_ref (sl_gid sl))"
      using neq by (simp add: ids)
  qed
qed

theorem publish_succeeds_witness:
  "\<exists>r s' gid. publish_attempt demo_builder (\<lambda>_. id) [demo_claim] ''h'' [] AnyParent None 1 used_publisher = (Inr r, s') \<and>
     current_pointer (pub_cp s') = Some gid \<and> resolution_state (pub_cp s') gid (claim_of demo_claim) = Some ''accepted''"
proof -
  from publish_succeeds [OF demo_builder_ok demo_builder_works used_publisher_facts(1-4) demo_publisher_facts(6) _ _ used_publisher_facts(5),
      of None "[]" AnyParent "''h''" 1]
  show ?thesis by (auto simp: demo_publisher_facts(7) demo_updated)
qed

theorem publish_refines_knowledge_witness:
  "\<exists>r s'. publish_attempt demo_builder (\<lambda>_. id) [demo_claim] ''h'' [] AnyParent None 1 demo_publisher = (Inr r, s') \<and>
     (\<exists>know. parent_claims demo_builder s' (current_pointer (pub_cp s')) = Inr know \<and> set know = {sort_claim demo_claim})"
proof -
  obtain r s' where p: "publish_attempt demo_builder (\<lambda>_. id) [demo_claim] ''h'' [] AnyParent None 1 demo_publisher = (Inr r, s')"
      "\<not> pr_noop r"
    using publish_total [OF demo_builder_ok demo_builder_works demo_publisher_facts(1-4) demo_publisher_facts(6) _ _ demo_publisher_facts(5),
      of None "[]" AnyParent "''h''" 1] by (auto simp: demo_publisher_facts(7))
  with publish_refines_knowledge [OF demo_builder_ok demo_publisher_facts(2,4,6) p(1)] show ?thesis
    unfolding demo_updated by auto
qed

end
