(* ===== verification/Mirror.thy ===== *)
theory Mirror
  imports Publish
begin

text \<open>
  \<open>mirror.py\<close>: the relay of the outbox to a Git remote. The commands \<open>git init\<close> and \<open>git push\<close> are
  parameters; \<open>push_ok\<close> says what a push of one reference does. The result: the outbox is relayed
  in order, an event counts as processed only once the remote holds its generation, and whatever
  fails, the events that were not relayed stay pending.
\<close>

record ('g, 'r) mirror_env =
  me_git :: "'g git"
  me_ensure_remote :: "string \<Rightarrow> ('r, unit) prog"
  me_push :: "'g \<Rightarrow> string \<Rightarrow> ('r, unit) prog"

record ('g, 'r) mirror_state =
  ms_repo :: 'g
  ms_remote :: 'r
  ms_cp :: control_plane

definition on_remote :: "('r, 'a) prog \<Rightarrow> (('g, 'r) mirror_state, 'a) prog" where
  "on_remote m s = (case m (ms_remote s) of (x, r) \<Rightarrow> (x, s\<lparr>ms_remote := r\<rparr>))"

definition on_local :: "('g, 'a) prog \<Rightarrow> (('g, 'r) mirror_state, 'a) prog" where
  "on_local m s = (case m (ms_repo s) of (x, g) \<Rightarrow> (x, s\<lparr>ms_repo := g\<rparr>))"

definition push :: "('g, 'r) mirror_env \<Rightarrow> string \<Rightarrow> (('g, 'r) mirror_state, unit) prog" where
  "push E refspec s = on_remote (me_push E (ms_repo s) refspec) s"

definition push_generation :: "('g, 'r) mirror_env \<Rightarrow> string \<Rightarrow> (('g, 'r) mirror_state, unit) prog" where
  "push_generation E gid = push E (generation_ref gid @ '':'' @ generation_ref gid)"

definition current_ref :: string where
  "current_ref = ''refs/wiki/releases/current''"

definition sync_release_ref :: "('g, 'r) mirror_env \<Rightarrow> (('g, 'r) mirror_state, unit) prog" where
  "sync_release_ref E s =
     (let rel_oid = or_empty (current_release_oid (ms_cp s)) in
      if rel_oid = [] then (Inr (), s)
      else thenP (on_local (set_retention_anchor (me_git E) current_ref rel_oid)) (\<lambda>_.
           push E (''+'' @ current_ref @ '':'' @ current_ref)) s)"

definition relay_event :: "('g, 'r) mirror_env \<Rightarrow> int \<times> string \<times> string \<Rightarrow> (('g, 'r) mirror_state, unit) prog" where
  "relay_event E ev =
     (case ev of (event_id, event_type, gid) \<Rightarrow>
        thenP (if event_type = ''release_mirror_requested''
               then thenP (push_generation E gid) (\<lambda>_. sync_release_ref E) else retP ()) (\<lambda>_ s.
        (Inr (), s\<lparr>ms_cp := mark_outbox_processed (ms_cp s) event_id\<rparr>)))"

fun relay_all :: "('g, 'r) mirror_env \<Rightarrow> (int \<times> string \<times> string) list \<Rightarrow> (('g, 'r) mirror_state, nat) prog" where
  "relay_all E [] = retP 0"
| "relay_all E (ev # evs) = thenP (relay_event E ev) (\<lambda>_. thenP (relay_all E evs) (\<lambda>n. retP (n + 1)))"

definition process_outbox :: "('g, 'r) mirror_env \<Rightarrow> (('g, 'r) mirror_state, nat) prog" where
  "process_outbox E s0 =
     thenP (liftP (git_object_format (me_git E) (ms_repo s0))) (\<lambda>fmt.
     thenP (on_remote (me_ensure_remote E fmt)) (\<lambda>_ s.
     let pending = pending_outbox (ms_cp s) in
     thenP (relay_all E pending) (\<lambda>n.
     thenP (if pending = [] then sync_release_ref E else retP ()) (\<lambda>_. retP n)) s)) s0"

subsection \<open>What a push does\<close>

text \<open>
  The view of a remote is its references. A push of \<open>a:b\<close> that succeeds sets \<open>b\<close> to what \<open>a\<close> is
  locally and leaves the others; one that fails changes nothing. The law is about plain reference
  names, as generation ids give them. Creating the remote keeps the references.
\<close>

definition push_ok :: "('g, 'r) mirror_env \<Rightarrow> 'g git_view \<Rightarrow> ('r \<Rightarrow> string \<Rightarrow> string option) \<Rightarrow> bool" where
  "push_ok E V R \<longleftrightarrow>
     (\<forall>fmt r x r'. me_ensure_remote E fmt r = (x, r') \<longrightarrow> R r' = R r) \<and>
     (\<forall>g force a r x r'. force \<in> {[], ''+''} \<and> plain_path a \<and> me_push E g (force @ a @ '':'' @ a) r = (x, r') \<longrightarrow>
        (x = Inr () \<longrightarrow> (\<exists>oid. v_ref V g a = Some oid \<and> R r' = (R r)(a \<mapsto> oid))) \<and> (\<forall>e. x = Inl e \<longrightarrow> R r' = R r))"

lemma push_okD:
  assumes "push_ok E V R"
  shows "me_ensure_remote E fmt r = (x, r') \<Longrightarrow> R r' = R r"
    and "force \<in> {[], ''+''} \<Longrightarrow> plain_path a \<Longrightarrow> me_push E g (force @ a @ '':'' @ a) r = (x', r') \<Longrightarrow>
        (x' = Inr () \<longrightarrow> (\<exists>oid. v_ref V g a = Some oid \<and> R r' = (R r)(a \<mapsto> oid))) \<and> (\<forall>e. x' = Inl e \<longrightarrow> R r' = R r)"
  using assms unfolding push_ok_def by blast+

text \<open>The remote holds the generation.\<close>

definition mirrored :: "'g git_view \<Rightarrow> ('r \<Rightarrow> string \<Rightarrow> string option) \<Rightarrow> ('g, 'r) mirror_state \<Rightarrow> string \<Rightarrow> bool" where
  "mirrored V R s gid \<longleftrightarrow>
     v_ref V (ms_repo s) (generation_ref gid) \<noteq> None \<and>
     R (ms_remote s) (generation_ref gid) = v_ref V (ms_repo s) (generation_ref gid)"

lemma current_not_generation: "generation_ref g \<noteq> current_ref"
  by (simp add: generation_ref_def current_ref_def)

lemma plain_refs: "plain_path current_ref" "plain_path gid \<Longrightarrow> plain_path (generation_ref gid)"
  by (simp_all add: plain_path_def current_ref_def generation_ref_def is_slug_char_def)

lemma sync_release_frame:
  assumes "git_ok (me_git E) V" "push_ok E V R" "sync_release_ref E s = (x, s')"
  shows "ms_cp s' = ms_cp s" "v_ref V (ms_repo s') (generation_ref g) = v_ref V (ms_repo s) (generation_ref g)"
    "R (ms_remote s') (generation_ref g) = R (ms_remote s) (generation_ref g)"
proof -
  have "ms_cp s' = ms_cp s \<and> v_ref V (ms_repo s') (generation_ref g) = v_ref V (ms_repo s) (generation_ref g) \<and>
    R (ms_remote s') (generation_ref g) = R (ms_remote s) (generation_ref g)"
  proof (cases "or_empty (current_release_oid (ms_cp s)) = []")
    case True
    with assms(3) show ?thesis by (simp add: sync_release_ref_def)
  next
    case False
    obtain y g1 where u: "git_update_ref (me_git E) current_ref (or_empty (current_release_oid (ms_cp s))) None (ms_repo s) = (y, g1)"
      by fastforce
    obtain z r1 where p: "me_push E g1 (''+'' @ current_ref @ '':'' @ current_ref) (ms_remote s) = (z, r1)" by fastforce
    have v: "v_ref V g1 (generation_ref g) = v_ref V (ms_repo s) (generation_ref g)"
      using git_ok_ref [OF assms(1) u] current_not_generation [of g] by (cases y) auto
    have r: "R r1 (generation_ref g) = R (ms_remote s) (generation_ref g)"
      using push_okD(2) [OF assms(2) _ plain_refs(1) p] current_not_generation [of g] by (cases z) auto
    have "s' = (if isOk y then s\<lparr>ms_repo := g1, ms_remote := r1\<rparr> else s\<lparr>ms_repo := g1\<rparr>)"
      using assms(3) False u p
      by (auto simp: sync_release_ref_def thenP_def on_local_def set_retention_anchor_def push_def on_remote_def isOk_def
          split: sum.splits)
    then show ?thesis using v r by simp
  qed
  then show "ms_cp s' = ms_cp s" "v_ref V (ms_repo s') (generation_ref g) = v_ref V (ms_repo s) (generation_ref g)"
    "R (ms_remote s') (generation_ref g) = R (ms_remote s) (generation_ref g)" by blast+
qed

lemma push_generation_spec:
  assumes "push_ok E V R" "push_generation E gid s = (x, s')" "plain_path gid"
  shows "ms_cp s' = ms_cp s" "ms_repo s' = ms_repo s" "x = Inr () \<Longrightarrow> mirrored V R s' gid"
    "mirrored V R s g \<Longrightarrow> mirrored V R s' g"
proof -
  obtain r' where p: "me_push E (ms_repo s) ([] @ generation_ref gid @ '':'' @ generation_ref gid) (ms_remote s) = (x, r')"
      and s': "s' = s\<lparr>ms_remote := r'\<rparr>"
    using assms(2) by (auto simp: push_generation_def push_def on_remote_def split: prod.splits)
  note P = push_okD(2) [OF assms(1) _ plain_refs(2) [OF assms(3)] p, simplified]
  show "ms_cp s' = ms_cp s" "ms_repo s' = ms_repo s" by (simp_all add: s')
  show "x = Inr () \<Longrightarrow> mirrored V R s' gid" using P by (auto simp: s' mirrored_def)
  show "mirrored V R s g \<Longrightarrow> mirrored V R s' g"
    using P by (cases x) (auto simp: s' mirrored_def generation_ref_inject)
qed

lemma relay_event_spec:
  assumes "git_ok (me_git E) V" "push_ok E V R" "relay_event E (eid, ty, gid) s = (x, s')" "plain_path gid"
  shows "x = Inr () \<Longrightarrow> ms_cp s' = mark_outbox_processed (ms_cp s) eid" "x = Inl e \<Longrightarrow> ms_cp s' = ms_cp s"
    "x = Inr () \<Longrightarrow> ty = ''release_mirror_requested'' \<Longrightarrow> mirrored V R s' gid" "mirrored V R s g \<Longrightarrow> mirrored V R s' g"
proof -
  have sync: "mirrored V R s2 h \<longleftrightarrow> mirrored V R s1 h" "ms_cp s2 = ms_cp s1" if "sync_release_ref E s1 = (y, s2)" for y s1 s2 h
    using sync_release_frame [OF assms(1,2) that] by (simp_all add: mirrored_def)
  have mark: "mirrored V R (s1\<lparr>ms_cp := c\<rparr>) h \<longleftrightarrow> mirrored V R s1 h" for s1 c h by (simp add: mirrored_def)
  have "(x = Inr () \<longrightarrow> ms_cp s' = mark_outbox_processed (ms_cp s) eid) \<and> (\<forall>e. x = Inl e \<longrightarrow> ms_cp s' = ms_cp s) \<and>
    (x = Inr () \<and> ty = ''release_mirror_requested'' \<longrightarrow> mirrored V R s' gid) \<and> (\<forall>g. mirrored V R s g \<longrightarrow> mirrored V R s' g)"
  proof (cases "ty = ''release_mirror_requested''")
    case False
    with assms(3) show ?thesis by (auto simp: relay_event_def thenP_def liftP_def mirrored_def)
  next
    case True
    obtain y s1 where p: "push_generation E gid s = (y, s1)" by fastforce
    obtain z s2 where q: "sync_release_ref E s1 = (z, s2)" by fastforce
    note P = push_generation_spec [OF assms(2) p assms(4)] and Q = sync [OF q]
    show ?thesis
      using assms(3) True p q P Q
      by (cases y; cases z) (auto simp: relay_event_def thenP_def mark)
  qed
  then show "x = Inr () \<Longrightarrow> ms_cp s' = mark_outbox_processed (ms_cp s) eid" "x = Inl e \<Longrightarrow> ms_cp s' = ms_cp s"
    "x = Inr () \<Longrightarrow> ty = ''release_mirror_requested'' \<Longrightarrow> mirrored V R s' gid" "mirrored V R s g \<Longrightarrow> mirrored V R s' g"
    by blast+
qed

abbreviation mark_all :: "(int \<times> string \<times> string) list \<Rightarrow> control_plane \<Rightarrow> control_plane" where
  "mark_all evs cp \<equiv> fold (\<lambda>ev cp. mark_outbox_processed cp (fst ev)) evs cp"

lemma relay_all_spec:
  assumes "git_ok (me_git E) V" "push_ok E V R" "relay_all E evs s = (x, s')" "\<forall>ev\<in>set evs. plain_path (snd (snd ev))"
  shows "\<exists>k. ms_cp s' = mark_all (take k evs) (ms_cp s) \<and>
     (\<forall>(eid, ty, gid)\<in>set (take k evs). ty = ''release_mirror_requested'' \<longrightarrow> mirrored V R s' gid) \<and>
     (\<forall>g. mirrored V R s g \<longrightarrow> mirrored V R s' g) \<and>
     (case x of Inr n \<Rightarrow> n = length evs \<and> k = length evs | Inl e \<Rightarrow> k < length evs)"
  using assms(3,4)
proof (induction evs arbitrary: s x)
  case (Cons ev evs)
  obtain eid ty gid where ev: "ev = (eid, ty, gid)" by (cases ev)
  obtain y s1 where y: "relay_event E ev s = (y, s1)" by fastforce
  have "plain_path gid" using Cons.prems(2) by (simp add: ev)
  note Y = relay_event_spec [OF assms(1,2) y [unfolded ev] this]
  show ?case
  proof (cases y)
    case (Inl e)
    with Cons.prems(1) y have "x = Inl e" "s' = s1" by (auto simp: thenP_def)
    with Y(2) [OF Inl] Y(4) show ?thesis by (intro exI [of _ 0]) simp
  next
    case (Inr u)
    obtain z s2 where z: "relay_all E evs s1 = (z, s2)" by fastforce
    then have s2: "s2 = s'" and x: "x = (case z of Inl e \<Rightarrow> Inl e | Inr n \<Rightarrow> Inr (n + 1))"
      using Cons.prems(1) y Inr by (auto simp: thenP_def liftP_def split: sum.splits)
    from Cons.IH [OF z [unfolded s2]] Cons.prems(2) obtain k where k: "ms_cp s' = mark_all (take k evs) (ms_cp s1)"
      "\<forall>(eid, ty, gid)\<in>set (take k evs). ty = ''release_mirror_requested'' \<longrightarrow> mirrored V R s' gid"
      "\<forall>g. mirrored V R s1 g \<longrightarrow> mirrored V R s' g" "case z of Inr n \<Rightarrow> n = length evs \<and> k = length evs | Inl e \<Rightarrow> k < length evs" by auto
    have "ms_cp s' = mark_all (take (Suc k) (ev # evs)) (ms_cp s)" using k(1) Y(1) Inr by (simp add: ev)
    moreover have "\<forall>(eid, ty, gid)\<in>set (take (Suc k) (ev # evs)). ty = ''release_mirror_requested'' \<longrightarrow> mirrored V R s' gid"
      using k(2,3) Y(3) Inr by (auto simp: ev)
    ultimately show ?thesis using k(3,4) Y(4) x by (intro exI [of _ "Suc k"]) (auto split: sum.splits)
  qed
qed simp

subsection \<open>The pending events\<close>

lemma pending_mark: "pending_outbox (mark_outbox_processed cp eid) = filter (\<lambda>ev. fst ev \<noteq> eid) (pending_outbox cp)"
proof -
  have "filter (\<lambda>r. \<not> o_processed r) (map (\<lambda>r. if o_event r = eid then r\<lparr>o_processed := True\<rparr> else r) rs) =
      filter (\<lambda>r. o_event r \<noteq> eid) (filter (\<lambda>r. \<not> o_processed r) rs)" for rs :: "outbox_row list"
    by (induction rs) auto
  then show ?thesis
    by (simp add: pending_outbox_def mark_outbox_processed_def filter_map comp_def filter_sort del: filter_filter)
qed

lemma pending_mark_all:
  "distinct (map fst (pending_outbox cp)) \<Longrightarrow> evs = take k (pending_outbox cp) \<Longrightarrow>
     pending_outbox (mark_all evs cp) = drop k (pending_outbox cp)"
proof (induction evs arbitrary: cp k)
  case Nil
  then show ?case by (cases k; cases "pending_outbox cp") auto
next
  case (Cons ev evs)
  then obtain k' rest where k: "k = Suc k'" "pending_outbox cp = ev # rest" "evs = take k' rest"
    by (cases k; cases "pending_outbox cp") auto
  have "filter (\<lambda>e. fst e \<noteq> fst ev) rest = rest"
    using Cons.prems(1) k(2) by (auto simp: filter_id_conv image_iff)
  then have p: "pending_outbox (mark_outbox_processed cp (fst ev)) = rest" by (simp add: pending_mark k(2))
  then show ?case using Cons.IH [of "mark_outbox_processed cp (fst ev)" k'] Cons.prems(1) k by simp
qed

lemma pending_distinct: "cp_inv cp \<Longrightarrow> distinct (map fst (pending_outbox cp))"
proof -
  assume "cp_inv cp"
  then have "distinct (map o_event (outbox cp))" by (simp add: cp_inv_def outbox_ok_def numbered_def distinct_map inj_on_def)
  then have "distinct (map o_event (filter (\<lambda>r. \<not> o_processed r) (outbox cp)))" by (rule distinct_map_filter)
  then show ?thesis by (simp add: pending_outbox_def comp_def)
qed

text \<open>
  C17: the mirror relays in order and forgets nothing. However a run of \<open>process_outbox\<close> ends, the
  pending events afterwards are those before without a prefix; every mirror request of that prefix
  has its generation on the remote, identical to the local reference; a run that returns has
  relayed all of them and counts them, and one that raises with events pending leaves at least one
  of them pending for the next run.
\<close>

theorem outbox_relayed_in_order:
  assumes "git_ok (me_git E) V" "push_ok E V R" "cp_inv (ms_cp s)" "process_outbox E s = (x, s')"
    and plain: "\<forall>ev\<in>set (pending_outbox (ms_cp s)). plain_path (snd (snd ev))"
  shows "\<exists>k. pending_outbox (ms_cp s') = drop k (pending_outbox (ms_cp s)) \<and>
     (\<forall>(eid, ty, gid)\<in>set (take k (pending_outbox (ms_cp s))). ty = ''release_mirror_requested'' \<longrightarrow> mirrored V R s' gid) \<and>
     (\<forall>n. x = Inr n \<longrightarrow> n = length (pending_outbox (ms_cp s)) \<and> pending_outbox (ms_cp s') = []) \<and>
     (\<forall>e. x = Inl e \<and> pending_outbox (ms_cp s) \<noteq> [] \<longrightarrow> pending_outbox (ms_cp s') \<noteq> [])"
proof -
  let ?p = "pending_outbox (ms_cp s)"
  have stuck: ?thesis if "x = Inl e" "ms_cp s' = ms_cp s" for e using that by (intro exI [of _ 0]) simp
  show ?thesis
  proof (cases "git_object_format (me_git E) (ms_repo s)")
    case (Inl e)
    with assms(4) show ?thesis by (intro stuck) (auto simp: process_outbox_def thenP_def liftP_def)
  next
    case (Inr fmt)
    obtain y r1 where y: "me_ensure_remote E fmt (ms_remote s) = (y, r1)" by fastforce
    show ?thesis
    proof (cases y)
      case (Inl e)
      with Inr y assms(4) show ?thesis by (intro stuck) (auto simp: process_outbox_def thenP_def liftP_def on_remote_def)
    next
      case u: (Inr u)
      let ?s1 = "s\<lparr>ms_remote := r1\<rparr>"
      obtain z s2 where z: "relay_all E ?p ?s1 = (z, s2)" by fastforce
      obtain k where k: "ms_cp s2 = mark_all (take k ?p) (ms_cp s)"
        "\<forall>(eid, ty, gid)\<in>set (take k ?p). ty = ''release_mirror_requested'' \<longrightarrow> mirrored V R s2 gid"
        "case z of Inr n \<Rightarrow> n = length ?p \<and> k = length ?p | Inl e \<Rightarrow> k < length ?p"
        using relay_all_spec [OF assms(1,2) z plain] by auto
      have pend: "pending_outbox (ms_cp s2) = drop k ?p"
        using pending_mark_all [OF pending_distinct [OF assms(3)] refl] k(1) by simp
      obtain w s3 where w: "(if ?p = [] then sync_release_ref E else retP ()) s2 = (w, s3)" by fastforce
      have s3: "ms_cp s3 = ms_cp s2" "mirrored V R s2 g \<Longrightarrow> mirrored V R s3 g" for g
        using w sync_release_frame [OF assms(1,2)] by (auto simp: mirrored_def split: if_splits)
      have "s' = (if isOk z then s3 else s2)" "x = (case z of Inl e \<Rightarrow> Inl e | Inr n \<Rightarrow> (case w of Inl e \<Rightarrow> Inl e | Inr _ \<Rightarrow> Inr n))"
        using assms(4) Inr y u z w
        by (auto simp: process_outbox_def thenP_def liftP_def on_remote_def Let_def isOk_def split: sum.splits)
      then show ?thesis
        using k(2,3) pend s3 w by (intro exI [of _ k]) (auto simp: isOk_def split: sum.splits if_splits)
    qed
  qed
qed

definition demo_push :: "demo_repo \<Rightarrow> string \<Rightarrow> ((string, string) dict, unit) prog" where
  "demo_push g refspec r =
     (let spec = (if take 1 refspec = ''+'' then tl refspec else refspec);
          a = takeWhile (\<lambda>c. c \<noteq> CHR '':'') spec; b = tl (dropWhile (\<lambda>c. c \<noteq> CHR '':'') spec) in
      case map_of (dr_refs g) a of None \<Rightarrow> (Inl MirrorError, r) | Some oid \<Rightarrow> (Inr (), dict_set b oid r))"

definition demo_mirror :: "(demo_repo, (string, string) dict) mirror_env" where
  "demo_mirror = \<lparr>me_git = demo_git, me_ensure_remote = (\<lambda>fmt r. (Inr (), r)), me_push = demo_push\<rparr>"

lemma demo_push_ok: "push_ok demo_mirror demo_view map_of"
proof -
  have push: "demo_push g (force @ a @ '':'' @ a) r = (case map_of (dr_refs g) a of None \<Rightarrow> (Inl MirrorError, r) | Some oid \<Rightarrow> (Inr (), dict_set a oid r))"
    if "force \<in> {[], ''+''}" "plain_path a" for g force a r
  proof -
    have a: "CHR '':'' \<notin> set a" "take 1 a \<noteq> ''+''" "a \<noteq> []"
      using that(2) by (cases a; auto simp: plain_path_def is_slug_char_def is_digit_def list_all_iff)+
    have t: "takeWhile (\<lambda>c. c \<noteq> CHR '':'') (a @ '':'' @ b) = a" "dropWhile (\<lambda>c. c \<noteq> CHR '':'') (a @ '':'' @ b) = '':'' @ b" for b
      using a(1) by (induction a) auto
    have f: "(if take 1 (force @ a @ '':'' @ a) = ''+'' then tl (force @ a @ '':'' @ a) else force @ a @ '':'' @ a) = a @ '':'' @ a"
      using that(1) a(2,3) by (cases a) auto
    have l: "tl ('':'' @ a) = a" by simp
    show ?thesis by (simp only: demo_push_def Let_def f t l)
  qed
  have "plain_path a \<Longrightarrow> demo_push g (a @ '':'' @ a) r = (case map_of (dr_refs g) a of None \<Rightarrow> (Inl MirrorError, r) | Some oid \<Rightarrow> (Inr (), dict_set a oid r))"
    and "plain_path a \<Longrightarrow> demo_push g (''+'' @ a @ '':'' @ a) r = (case map_of (dr_refs g) a of None \<Rightarrow> (Inl MirrorError, r) | Some oid \<Rightarrow> (Inr (), dict_set a oid r))" for g a r
    using push [of "[]" a g r] push [of "''+''" a g r] by simp_all
  note pushes = this [simplified]
  show ?thesis
    by (auto simp: push_ok_def demo_mirror_def demo_view_def fun_eq_iff pushes split: option.splits)
qed

definition demo_mirror_state :: "(demo_repo, (string, string) dict) mirror_state" where
  "demo_mirror_state = \<lparr>ms_repo = empty_repo\<lparr>dr_refs := [(generation_ref ''g'', ''0'')]\<rparr>, ms_remote = [], ms_cp = demo_published\<rparr>"

theorem outbox_relayed_in_order_witness:
  "\<exists>s'. process_outbox demo_mirror demo_mirror_state = (Inr 1, s') \<and> pending_outbox (ms_cp s') = [] \<and>
     mirrored demo_view map_of s' ''g''"
proof -
  obtain x s' where p: "process_outbox demo_mirror demo_mirror_state = (x, s')" by fastforce
  have "fst (process_outbox demo_mirror demo_mirror_state) = Inr 1" by code_simp
  with p have x: "x = Inr 1" by simp
  have e: "pending_outbox (ms_cp demo_mirror_state) = [(1, ''release_mirror_requested'', ''g'')]" by code_simp
  have g: "git_ok (me_git demo_mirror) demo_view" using demo_git_ok by (simp add: demo_mirror_def)
  have i: "cp_inv (ms_cp demo_mirror_state)" using reachable_cp_inv [OF demo_published_reachable] by (simp add: demo_mirror_state_def)
  have pl: "\<forall>ev\<in>set (pending_outbox (ms_cp demo_mirror_state)). plain_path (snd (snd ev))" unfolding e by code_simp
  from outbox_relayed_in_order [OF g demo_push_ok i p pl] x p e show ?thesis
    by (auto simp: take_Cons' split: if_splits)
qed

end
