(* ===== verification/Workspace.thy ===== *)
theory Workspace
  imports Mirror Ingest
begin

text \<open>
  \<open>workspace.py\<close>: the end-to-end wiring of ingest, publication, mirror and search under the
  publisher lease. The \<open>try\<close>/\<open>finally\<close> of the two publishing calls is \<open>with_lease\<close>.

  The results: no call ever leaves its lease behind; a source that proposes to revoke knowledge
  publishes nothing; and what was ingested and published is found by a search, whatever other
  processes do between the preparation and the activation of an attempt.
\<close>

definition LEASE_TTL :: int where "LEASE_TTL = 30"

definition KEY_ID :: string where "KEY_ID = ''k1''"

record ingest_publish_result =
  ip_source_id :: string
  ip_new_claims :: nat
  ip_revokes :: nat
  ip_publish :: publish_result
  ip_quarantined :: bool

record ('g, 'r) workspace =
  ws_holder :: string
  ws_publisher :: "'g publisher"
  ws_ingest :: ingest_service
  ws_remote :: 'r

text \<open>
  The services the workspace is wired to, with the disk, the clock and other processes as
  parameters. The bytes of the source file are an argument of the call.
\<close>

record ('g, 'r) wiring =
  wi_builder :: "'g generation_builder"
  wi_disk :: "bytes \<Rightarrow> bytes"
  wi_extract :: extractor
  wi_mirror :: "('g, 'r) mirror_env"
  wi_others :: "nat \<Rightarrow> 'g publisher \<Rightarrow> 'g publisher"

abbreviation ws_cp :: "('g, 'r) workspace \<Rightarrow> control_plane" where
  "ws_cp w \<equiv> pub_cp (ws_publisher w)"

definition set_cp :: "control_plane \<Rightarrow> ('g, 'r) workspace \<Rightarrow> ('g, 'r) workspace" where
  "set_cp cp w = w\<lparr>ws_publisher := (ws_publisher w)\<lparr>pub_cp := cp\<rparr>\<rparr>"

definition with_lease :: "int \<Rightarrow> (('g, 'r) workspace, 'a) prog \<Rightarrow> (('g, 'r) workspace, 'a) prog" where
  "with_lease now body w =
     (case acquire_lease (ws_cp w) (ws_holder w) now LEASE_TTL of
        (None, _) \<Rightarrow> (Inl LeaseError, w)
      | (Some _, cp) \<Rightarrow>
          (case body (set_cp cp w) of
             (r, w') \<Rightarrow> (r, set_cp (release_lease (ws_cp w') (ws_holder w)) w')))"

definition on_ingest :: "(ingest_service \<Rightarrow> 'a res \<times> ingest_service) \<Rightarrow> (('g, 'r) workspace, 'a) prog" where
  "on_ingest f w = (case f (ws_ingest w) of (r, s) \<Rightarrow> (r, w\<lparr>ws_ingest := s\<rparr>))"

definition on_publisher :: "('g publisher, 'a) prog \<Rightarrow> (('g, 'r) workspace, 'a) prog" where
  "on_publisher m w = (case m (ws_publisher w) of (r, p) \<Rightarrow> (r, w\<lparr>ws_publisher := p\<rparr>))"

definition no_publish :: publish_result where
  "no_publish = \<lparr>pr_generation_id = None, pr_candidate_commit_oid = None, pr_release_commit_oid = None, pr_attempts = 0, pr_noop = True\<rparr>"

definition ingest_body :: "('g, 'r) wiring \<Rightarrow> bytes \<Rightarrow> (('g, 'r) workspace, ingest_publish_result) prog" where
  "ingest_body W raw =
     (let L = gb_lib (wi_builder W) in
      thenP (on_ingest (\<lambda>s. receive L (wi_disk W) s raw)) (\<lambda>r.
      thenP (on_ingest (\<lambda>s. compile L (wi_extract W) s (rr_source_id r))) (\<lambda>c.
      if cr_revokes c \<noteq> []
      then retP \<lparr>ip_source_id = rr_source_id r, ip_new_claims = length (cr_claims c), ip_revokes = length (cr_revokes c),
             ip_publish = no_publish, ip_quarantined = True\<rparr>
      else thenP (on_publisher (publish (wi_builder W) (wi_others W) (cr_claims c) (rr_content_hash r) [] 3 AnyParent None)) (\<lambda>res.
           retP \<lparr>ip_source_id = rr_source_id r, ip_new_claims = length (cr_claims c), ip_revokes = 0,
             ip_publish = res, ip_quarantined = False\<rparr>))))"

definition ingest_and_publish :: "('g, 'r) wiring \<Rightarrow> int \<Rightarrow> bytes \<Rightarrow> (('g, 'r) workspace, ingest_publish_result) prog" where
  "ingest_and_publish W now raw = with_lease now (ingest_body W raw)"

definition admin_revoke :: "('g, 'r) wiring \<Rightarrow> int \<Rightarrow> string list \<Rightarrow> string \<Rightarrow> (('g, 'r) workspace, publish_result) prog" where
  "admin_revoke W now claim_ids reason =
     with_lease now (on_publisher (publish (wi_builder W) (wi_others W) [] (''admin:'' @ reason) claim_ids 3 AnyParent None))"

definition mirror_now :: "('g, 'r) wiring \<Rightarrow> (('g, 'r) workspace, nat) prog" where
  "mirror_now W w =
     (case process_outbox (wi_mirror W)
             \<lparr>ms_repo = pub_repo (ws_publisher w), ms_remote = ws_remote w, ms_cp = ws_cp w\<rparr> of
        (r, m) \<Rightarrow> (r, w\<lparr>ws_publisher := \<lparr>pub_repo = ms_repo m, pub_cp = ms_cp m\<rparr>, ws_remote := ms_remote m\<rparr>))"

definition workspace_query :: "('g, 'r) workspace \<Rightarrow> string \<Rightarrow> search_response" where
  "workspace_query w term = query (ws_cp w) 5 term"

subsection \<open>The lease\<close>

lemma set_cp_simps [simp]:
  "ws_publisher (set_cp cp w) = (ws_publisher w)\<lparr>pub_cp := cp\<rparr>" "ws_ingest (set_cp cp w) = ws_ingest w"
  "ws_holder (set_cp cp w) = ws_holder w" "ws_remote (set_cp cp w) = ws_remote w"
  by (simp_all add: set_cp_def)

lemma release_lease_simps [simp]:
  "current_pointer (release_lease cp h) = current_pointer cp" "current_search_pointer (release_lease cp h) = current_search_pointer cp"
  "resolution_state (release_lease cp h) = resolution_state cp" "search_index (release_lease cp h) = search_index cp"
  "generation_seq (release_lease cp h) = generation_seq cp" "search_index_lookup (release_lease cp h) = search_index_lookup cp"
  by (simp_all add: release_lease_def current_pointer_def current_search_pointer_def resolution_state_def fun_eq_iff
      generation_seq_def find_gen_def search_index_lookup_def)

lemma query_release_lease [simp]: "query (release_lease cp h) = query cp"
  by (intro ext) (unfold query_def release_lease_simps, rule refl)

lemma with_lease_Inr_iff:
  "with_lease now body w = (Inr a, w'') \<longleftrightarrow>
     (\<exists>token cp w'. acquire_lease (ws_cp w) (ws_holder w) now LEASE_TTL = (Some token, cp) \<and>
        body (set_cp cp w) = (Inr a, w') \<and> w'' = set_cp (release_lease (ws_cp w') (ws_holder w)) w')"
  by (auto simp: with_lease_def split: prod.splits option.splits)

lemma with_lease_released:
  "l_holder (publisher_lease (ws_cp (snd (with_lease now body w)))) \<noteq> Some (ws_holder w)"
  by (auto simp: with_lease_def release_lease_def acquire_lease_def Let_def split: prod.splits option.splits if_splits)

lemma with_lease_refused:
  "fst (with_lease now body w) = Inl LeaseError \<and> snd (with_lease now body w) = w"
  if "lease_holder (ws_cp w) now = Some h" "h \<noteq> ws_holder w"
  using that by (auto simp: with_lease_def lease_holder_def acquire_lease_def Let_def split: if_splits)

text \<open>
  C19: publishing is exclusive and leaves no lease behind. While another holder's lease is live both
  publishing calls fail with LeaseError and change nothing; and after every call, returned or
  raised, whatever other processes did meanwhile, the caller does not hold the lease.
\<close>

theorem publishing_is_leased:
  "(lease_holder (ws_cp w) now = Some h \<and> h \<noteq> ws_holder w \<longrightarrow>
      ingest_and_publish W now raw w = (Inl LeaseError, w) \<and> admin_revoke W now cids reason w = (Inl LeaseError, w)) \<and>
   l_holder (publisher_lease (ws_cp (snd (ingest_and_publish W now raw w)))) \<noteq> Some (ws_holder w) \<and>
   l_holder (publisher_lease (ws_cp (snd (admin_revoke W now cids reason w)))) \<noteq> Some (ws_holder w)"
  unfolding ingest_and_publish_def admin_revoke_def using with_lease_refused with_lease_released by (metis prod.collapse)

subsection \<open>Quarantine\<close>

lemma on_ingest_frame: "on_ingest f w = (r, w') \<Longrightarrow> ws_publisher w' = ws_publisher w \<and> ws_holder w' = ws_holder w \<and> ws_remote w' = ws_remote w"
  by (auto simp: on_ingest_def split: prod.splits)

lemma ingest_bodyD:
  assumes "ingest_body W raw w = (Inr res, w')"
  obtains r c w2 where
    "ws_publisher w2 = ws_publisher w" "ws_holder w2 = ws_holder w" "ws_remote w2 = ws_remote w"
    "ip_new_claims res = length (cr_claims c)" "ip_revokes res = length (cr_revokes c)"
    "fst (receive (gb_lib (wi_builder W)) (wi_disk W) (ws_ingest w) raw) = Inr r"
    "fst (compile (gb_lib (wi_builder W)) (wi_extract W) (snd (receive (gb_lib (wi_builder W)) (wi_disk W) (ws_ingest w) raw)) (rr_source_id r)) = Inr c"
    "cr_revokes c \<noteq> [] \<and> ip_quarantined res \<and> ip_publish res = no_publish \<and> w' = w2 \<or>
     cr_revokes c = [] \<and> \<not> ip_quarantined res \<and>
     on_publisher (publish (wi_builder W) (wi_others W) (cr_claims c) (rr_content_hash r) [] 3 AnyParent None) w2 = (Inr (ip_publish res), w')"
proof -
  let ?L = "gb_lib (wi_builder W)"
  from assms obtain r w1 c w2 where 1: "on_ingest (\<lambda>s. receive ?L (wi_disk W) s raw) w = (Inr r, w1)"
      "on_ingest (\<lambda>s. compile ?L (wi_extract W) s (rr_source_id r)) w1 = (Inr c, w2)"
      and rest: "(if cr_revokes c \<noteq> []
      then retP \<lparr>ip_source_id = rr_source_id r, ip_new_claims = length (cr_claims c), ip_revokes = length (cr_revokes c),
             ip_publish = no_publish, ip_quarantined = True\<rparr>
      else thenP (on_publisher (publish (wi_builder W) (wi_others W) (cr_claims c) (rr_content_hash r) [] 3 AnyParent None)) (\<lambda>res.
           retP \<lparr>ip_source_id = rr_source_id r, ip_new_claims = length (cr_claims c), ip_revokes = 0,
             ip_publish = res, ip_quarantined = False\<rparr>)) w2 = (Inr res, w')"
    unfolding ingest_body_def Let_def thenP_Inr_iff by blast
  have "fst (receive ?L (wi_disk W) (ws_ingest w) raw) = Inr r"
    "fst (compile ?L (wi_extract W) (snd (receive ?L (wi_disk W) (ws_ingest w) raw)) (rr_source_id r)) = Inr c"
    using 1 by (auto simp: on_ingest_def split: prod.splits)
  moreover note on_ingest_frame [OF 1(1)] on_ingest_frame [OF 1(2)]
  ultimately show ?thesis using that [of w2 c r] rest by (auto simp: thenP_Inr_iff split: if_splits)
qed

text \<open>
  C18: a source cannot retract knowledge. When the lease is free and the source, received and compiled,
  proposes a revocation, the call returns: quarantined, reporting the revocations that the compile step
  found, and with nothing published. Repository and remote are untouched and the database changes in
  its lease row only, so the pointer and all published knowledge stay. A source that proposes none is
  not quarantined.
\<close>

theorem revoking_source_is_quarantined:
  assumes "lease_holder (ws_cp w) now \<in> {None, Some (ws_holder w)}"
    and "receive (gb_lib (wi_builder W)) (wi_disk W) (ws_ingest w) raw = (Inr r, i1)"
    and "compile (gb_lib (wi_builder W)) (wi_extract W) i1 (rr_source_id r) = (Inr c, i2)"
  shows "(cr_revokes c \<noteq> [] \<longrightarrow> (\<exists>res w'. ingest_and_publish W now raw w = (Inr res, w') \<and>
       ip_quarantined res \<and> ip_revokes res = length (cr_revokes c) \<and> ip_new_claims res = length (cr_claims c) \<and>
       ip_publish res = no_publish \<and> pub_repo (ws_publisher w') = pub_repo (ws_publisher w) \<and> ws_remote w' = ws_remote w \<and>
       (\<exists>row. ws_cp w' = (ws_cp w)\<lparr>publisher_lease := row\<rparr>) \<and> ws_ingest w' = i2)) \<and>
     (cr_revokes c = [] \<longrightarrow> (\<forall>res w'. ingest_and_publish W now raw w = (Inr res, w') \<longrightarrow> \<not> ip_quarantined res))"
proof -
  obtain tok cp where a: "acquire_lease (ws_cp w) (ws_holder w) now LEASE_TTL = (Some tok, cp)"
      and cp: "\<exists>row. cp = (ws_cp w)\<lparr>publisher_lease := row\<rparr>"
    using acquire_lease_exclusive [of "ws_cp w" now "ws_holder w" LEASE_TTL] unfolding if_P [OF assms(1)] by blast
  have row: "\<exists>row. release_lease cp h = (ws_cp w)\<lparr>publisher_lease := row\<rparr>" for h
    using cp by (auto simp: release_lease_def)
  let ?w = "(set_cp cp w)\<lparr>ws_ingest := i2\<rparr>"
  show ?thesis
  proof (intro conjI impI)
    assume "cr_revokes c \<noteq> []"
    then have "ingest_body W raw (set_cp cp w) = (Inr \<lparr>ip_source_id = rr_source_id r, ip_new_claims = length (cr_claims c),
        ip_revokes = length (cr_revokes c), ip_publish = no_publish, ip_quarantined = True\<rparr>, ?w)"
      using assms(2,3) by (simp add: ingest_body_def Let_def thenP_def on_ingest_def liftP_def)
    then show "\<exists>res w'. ingest_and_publish W now raw w = (Inr res, w') \<and>
       ip_quarantined res \<and> ip_revokes res = length (cr_revokes c) \<and> ip_new_claims res = length (cr_claims c) \<and>
       ip_publish res = no_publish \<and> pub_repo (ws_publisher w') = pub_repo (ws_publisher w) \<and> ws_remote w' = ws_remote w \<and>
       (\<exists>row. ws_cp w' = (ws_cp w)\<lparr>publisher_lease := row\<rparr>) \<and> ws_ingest w' = i2"
      unfolding ingest_and_publish_def using a row by (simp add: with_lease_def)
  next
    assume n: "cr_revokes c = []"
    show "\<forall>res w'. ingest_and_publish W now raw w = (Inr res, w') \<longrightarrow> \<not> ip_quarantined res"
    proof (intro allI impI)
      fix res w' assume "ingest_and_publish W now raw w = (Inr res, w')"
      then obtain w1 where "ingest_body W raw (set_cp cp w) = (Inr res, w1)"
        unfolding ingest_and_publish_def with_lease_Inr_iff a by auto
      then obtain r' c' where "fst (receive (gb_lib (wi_builder W)) (wi_disk W) (ws_ingest w) raw) = Inr r'"
          "fst (compile (gb_lib (wi_builder W)) (wi_extract W) (snd (receive (gb_lib (wi_builder W)) (wi_disk W) (ws_ingest w) raw)) (rr_source_id r')) = Inr c'"
          and q: "cr_revokes c' \<noteq> [] \<or> \<not> ip_quarantined res"
        by (rule ingest_bodyD) (simp only: set_cp_simps, blast)
      then have "c' = c" using assms(2,3) by simp
      with q n show "\<not> ip_quarantined res" by simp
    qed
  qed
qed

subsection \<open>What was published is found\<close>

lemma search_entries_claims:
  "distinct (map fst (search_entries seen cs))" "set (map fst (search_entries seen cs)) = set (map claim_of cs) - set seen"
  "\<forall>e\<in>set (search_entries seen cs). \<exists>c\<in>set cs. e = (claim_of c, subject_id (identity c), predicate_id (identity c), obj (identity c))"
  by (induction seen cs rule: search_entries.induct) auto

lemma build_search_index_keeps:
  assumes "build_search_index cp gid es = Inr cp'" "r \<in> set (search_index cp)" "s_gen r = gid" "s_claim r \<notin> set (map fst es)"
  shows "r \<in> set (search_index cp')"
  using assms by (induction cp gid es rule: build_search_index.induct) (auto split: if_splits)

lemma build_search_index_has:
  assumes "build_search_index cp gid es = Inr cp'" "distinct (map fst es)" "(cid, su, pr, ob) \<in> set es"
  shows "\<lparr>s_gen = gid, s_claim = cid, s_subject = su, s_predicate = pr, s_object = ob\<rparr> \<in> set (search_index cp')"
  using assms
proof (induction cp gid es rule: build_search_index.induct)
  case (2 cp gid cid' su' pr' ob' es)
  let ?cp = "cp\<lparr>search_index := filter (\<lambda>r. \<not> (s_gen r = gid \<and> s_claim r = cid')) (search_index cp) @
      [\<lparr>s_gen = gid, s_claim = cid', s_subject = su', s_predicate = pr', s_object = ob'\<rparr>]\<rparr>"
  from "2.prems"(1) have g: "gid \<in> set (gen_ids cp)" and b: "build_search_index ?cp gid es = Inr cp'"
    by (simp_all split: if_splits)
  show ?case
  proof (cases "(cid, su, pr, ob) = (cid', su', pr', ob')")
    case True
    then show ?thesis using "2.prems"(2) by (intro build_search_index_keeps [OF b]) auto
  next
    case False
    with "2.prems" show ?thesis by (intro "2.IH" [OF _ b]) (auto simp: g)
  qed
qed simp

text \<open>A query finds an accepted claim that the index of the searched generation holds.\<close>

definition matches :: "string \<Rightarrow> compiled_claim \<Rightarrow> bool" where
  "matches term c \<longleftrightarrow>
     (let pat = ''%'' @ term @ ''%'' in like pat (subject_id (identity c)) \<or> like pat (predicate_id (identity c)) \<or> like pat (obj (identity c)))"

definition claim_hit :: "compiled_claim \<Rightarrow> search_hit" where
  "claim_hit c = \<lparr>h_claim_id = claim_of c, h_subject = subject_id (identity c), h_predicate = predicate_id (identity c), h_obj = obj (identity c)\<rparr>"

lemma query_finds:
  assumes "current_pointer cp = Some gid" "current_search_pointer cp = Some gid" "0 \<le> lag"
    and "resolution_state cp gid (claim_of c) = Some ''accepted''" "matches term c"
    and "\<lparr>s_gen = gid, s_claim = claim_of c, s_subject = subject_id (identity c), s_predicate = predicate_id (identity c),
       s_object = obj (identity c)\<rparr> \<in> set (search_index cp)" (is "?row \<in> _")
  shows "claim_hit c \<in> set (hits (query cp lag term))"
proof -
  have "(claim_of c, subject_id (identity c), predicate_id (identity c), obj (identity c)) \<in> set (search_index_lookup cp gid term)"
    using assms(5,6) unfolding search_index_lookup_def matches_def Let_def
    by (force intro: image_eqI [where x = ?row])
  with assms(4) have "(claim_of c, subject_id (identity c), predicate_id (identity c), obj (identity c)) \<in>
      set (filter (\<lambda>(cid, su, pr, ob). resolution_state cp gid cid = Some ''accepted'') (search_index_lookup cp gid term))" by simp
  then have "claim_hit c \<in> set (map (\<lambda>(cid, su, pr, ob). \<lparr>h_claim_id = cid, h_subject = su, h_predicate = pr, h_obj = ob\<rparr>)
      (filter (\<lambda>(cid, su, pr, ob). resolution_state cp gid cid = Some ''accepted'') (search_index_lookup cp gid term)))"
    unfolding set_map claim_hit_def by (rule rev_image_eqI) simp
  with assms(3) show ?thesis unfolding query_def assms(1,2) Let_def by simp
qed

text \<open>Claims with the same subject, predicate and object.\<close>

definition same_texts :: "compiled_claim \<Rightarrow> compiled_claim \<Rightarrow> bool" where
  "same_texts k c \<longleftrightarrow> subject_id (identity k) = subject_id (identity c) \<and>
     predicate_id (identity k) = predicate_id (identity c) \<and> obj (identity k) = obj (identity c)"

definition searchable :: "control_plane \<Rightarrow> string \<Rightarrow> compiled_claim list \<Rightarrow> bool" where
  "searchable cp gid sv \<longleftrightarrow> current_pointer cp = Some gid \<and> current_search_pointer cp = Some gid \<and>
     (\<forall>e\<in>set (search_entries [] sv). resolution_state cp gid (fst e) = Some ''accepted'' \<and>
        (case e of (cid, su, pr, ob) \<Rightarrow> \<lparr>s_gen = gid, s_claim = cid, s_subject = su, s_predicate = pr, s_object = ob\<rparr> \<in> set (search_index cp)))"

lemma post_publish_searchable:
  assumes "post_publish gid sv revs s = (Inr u, s')" "gid \<in> set (gen_ids (pub_cp s))" "current_pointer (pub_cp s) = Some gid"
    and "\<forall>c\<in>set sv. claim_of c \<notin> set revs"
  shows "searchable (pub_cp s') gid sv"
proof -
  from assms(1) obtain s3 cp4 where 4: "build_search_index (pub_cp s3) gid (search_entries [] sv) = Inr cp4"
      and s': "s' = s3\<lparr>pub_cp := set_search_pointer cp4 gid\<rparr>"
    unfolding post_publish_def thenP_Inr_iff on_cp_def by (auto simp: on_cp_res_Inr)
  from post_publish_total [OF assms(2), of sv revs] assms(1) have
      p: "current_search_pointer (pub_cp s') = Some gid"
      "\<forall>cid. resolution_state (pub_cp s') gid cid = (if cid \<in> set revs then Some ''retracted''
         else if cid \<in> set (map claim_of sv) then Some ''accepted'' else resolution_state (pub_cp s) gid cid)"
    by auto
  have "current_pointer (pub_cp s') = Some gid"
    using keepsD [OF keeps_post_publish assms(1)] assms(3) by (simp add: current_pointer_def)
  moreover have "search_index (pub_cp s') = search_index cp4" by (simp add: s' set_search_pointer_def)
  moreover have "resolution_state (pub_cp s') gid (fst e) = Some ''accepted''" if "e \<in> set (search_entries [] sv)" for e
  proof -
    from that search_entries_claims(3) obtain c where "c \<in> set sv" "fst e = claim_of c" by fastforce
    with p(2) assms(4) show ?thesis by auto
  qed
  ultimately show ?thesis
    using p(1) build_search_index_has [OF 4 search_entries_claims(1)] by (auto simp: searchable_def)
qed

lemma activate_prepared_searchable:
  assumes "activate_prepared pp s = (Inr r, s')" "\<not> pr_noop r" "\<forall>c\<in>set (pp_surviving pp). claim_of c \<notin> set (pp_revoked_claim_ids pp)"
  shows "\<exists>gid. pr_generation_id r = Some gid \<and> searchable (pub_cp s') gid (pp_surviving pp)"
proof -
  from assms(1,2) obtain cand rel where c: "pp_candidate pp = Some cand" "pp_release_commit_oid pp = Some rel" "\<not> pp_noop pp"
    by (auto simp: activate_prepared_def split: option.splits if_splits)
  let ?gid = "cand_generation_id cand" and ?post = "post_publish (cand_generation_id cand) (pp_surviving pp) (pp_revoked_claim_ids pp)"
  have r: "pr_generation_id r = Some ?gid"
    using assms(1) c by (auto simp: activate_prepared_def Let_def thenP_Inr_iff split: if_splits)
  have "\<exists>s1 u. ?post s1 = (Inr u, s') \<and> ?gid \<in> set (gen_ids (pub_cp s1)) \<and> current_pointer (pub_cp s1) = Some ?gid"
  proof (cases "current_pointer (pub_cp s) = Some ?gid \<and> generation_state (pub_cp s) ?gid = Some Published")
    case True
    then have "?gid \<in> set (gen_ids (pub_cp s))" using generation_state_None [of "pub_cp s" ?gid] by auto
    with True assms(1) c show ?thesis by (auto simp: activate_prepared_def Let_def thenP_Inr_iff)
  next
    case False
    with assms(1) c obtain cp1 u where a: "activate (pub_cp s) ?gid (pp_parent_generation_id pp) rel = Inr cp1"
        "?post (s\<lparr>pub_cp := cp1\<rparr>) = (Inr u, s')"
      by (auto simp: activate_prepared_def Let_def thenP_Inr_iff on_cp_res_Inr simp del: de_Morgan_conj)
    then have "?gid \<in> set (gen_ids cp1)" "current_pointer cp1 = Some ?gid"
      using find_gen_None [of "pub_cp s" ?gid] by (auto simp: activate_Inr_iff activation_ready_def current_pointer_def split: option.splits)
    with a(2) show ?thesis by (intro exI [of _ "s\<lparr>pub_cp := cp1\<rparr>"]) auto
  qed
  with post_publish_searchable assms(3) r show ?thesis by blast
qed

lemma prepare_surviving:
  assumes "prepare B new src revs expected binding n s = (Inr pp, s')"
  shows "pp_revoked_claim_ids pp = sorted_set revs"
    "\<exists>parents. parent_claims B s (current_pointer (pub_cp s)) = Inr parents \<and> pp_surviving pp = surviving_claims parents new revs"
proof -
  obtain parents s1 where "parent_claims B s (current_pointer (pub_cp s)) = Inr parents"
    "set (map aid_of (surviving_claims parents new revs)) = set (map aid_of parents) \<and> s' = s1 \<and>
       pp = \<lparr>pp_parent_generation_id = current_pointer (pub_cp s), pp_candidate = None, pp_release_commit_oid = None,
         pp_surviving = surviving_claims parents new revs, pp_revoked_claim_ids = sorted_set revs, pp_attempts = n, pp_noop = True\<rparr> \<or>
     prepare_generation B (current_pointer (pub_cp s)) (surviving_claims parents new revs) (sorted_set revs) src binding n s1 = (Inr pp, s')"
    using prepareD [OF assms] by metis
  then show "pp_revoked_claim_ids pp = sorted_set revs"
    "\<exists>parents. parent_claims B s (current_pointer (pub_cp s)) = Inr parents \<and> pp_surviving pp = surviving_claims parents new revs"
    by (auto elim!: prepare_generationD)
qed

text \<open>The claims read back from a generation carry the hash of their own identity: reading checks it.\<close>

definition hashed_claim :: "lib \<Rightarrow> compiled_claim \<Rightarrow> bool" where
  "hashed_claim L c \<longleftrightarrow> (let i = identity c in
     compute_claim_id L (subject_id i) (predicate_id i) (obj i) (polarity i) (scope i) = Inr (claim_id i))"

lemma claim_from_record_hashed: "claim_from_record L j = Inr c \<Longrightarrow> hashed_claim L c"
  by (auto simp: claim_from_record_def hashed_claim_def create_identity_def bindR_Inr_iff Let_def split: if_splits)

lemma mapR_all: "mapR f xs = Inr ys \<Longrightarrow> (\<And>x y. f x = Inr y \<Longrightarrow> P y) \<Longrightarrow> \<forall>y\<in>set ys. P y"
  by (induction xs arbitrary: ys) (auto simp: bindR_Inr_iff)

lemma parent_claims_hashed:
  assumes "parent_claims B s p = Inr old"
  shows "\<forall>k\<in>set old. hashed_claim (gb_lib B) k"
proof (cases p)
  case None
  with assms show ?thesis by (simp add: parent_claims_def)
next
  case (Some g)
  with assms obtain data where "parse_snapshot (gb_lib B) data = Inr old"
    by (auto simp: parent_claims_def bindR_Inr_iff split: option.splits if_splits)
  then obtain rs where "mapR (claim_from_record (gb_lib B)) rs = Inr old"
    by (auto simp: parse_snapshot_def split: option.splits json.splits if_splits)
  then show ?thesis by (rule mapR_all) (rule claim_from_record_hashed)
qed

lemma publish_loop_returns:
  assumes "publish_loop B env new src revs mx expected binding n s = (Inr r, s')"
  shows "\<exists>n s0. publish_attempt B env new src revs expected binding n s0 = (Inr r, s')"
  using assms
proof (induction B env new src revs mx expected binding n s rule: publish_loop.induct)
  case (1 B env new src revs mx expected binding n s)
  obtain x s1 where o: "publish_attempt B env new src revs expected binding n s = (x, s1)" by fastforce
  show ?case
  proof (cases "x = Inl CASConflict \<and> expected = AnyParent \<and> n < mx")
    case True
    with "1.prems" o have "publish_loop B env new src revs mx expected binding (n + 1) s1 = (Inr r, s')"
      by (subst (asm) publish_loop.simps) (simp add: Let_def)
    with "1.IH" [OF refl, of x s1] True o show ?thesis by auto
  next
    case False
    with "1.prems" o have "(x, s1) = (Inr r, s')"
      by (subst (asm) publish_loop.simps) (auto simp: Let_def split: sum.splits exn.splits if_splits)
    with o show ?thesis by blast
  qed
qed

lemma by_assertion_new:
  assumes "cl \<in> set new" "\<forall>k\<in>set new. aid_of k = aid_of cl \<longrightarrow> k = cl" "claim_of cl \<notin> set revs"
  shows "cl \<in> set (surviving_claims parents new revs)"
proof -
  have "map_of (fold (\<lambda>c. dict_set (aid_of c) c) cs d) (aid_of cl) = (if cl \<in> set cs then Some cl else map_of d (aid_of cl))"
    if "\<forall>k\<in>set cs. aid_of k = aid_of cl \<longrightarrow> k = cl" for cs d
    using that by (induction cs arbitrary: d) auto
  from this [OF assms(2)] assms(1) have "map_of (by_assertion parents new) (aid_of cl) = Some cl"
    by (simp add: by_assertion_def)
  then have "cl \<in> set (map snd (by_assertion parents new))" by (auto dest: map_of_SomeD intro: rev_image_eqI)
  with assms(3) show ?thesis by (simp add: surviving_claims_def)
qed

lemma searchable_found:
  assumes "searchable cp gid sv" "c \<in> set sv" "0 \<le> lag" "\<forall>k\<in>set sv. claim_of k = claim_of c \<longrightarrow> same_texts k c" "matches term c"
  shows "claim_hit c \<in> set (hits (query cp lag term))"
proof -
  have "claim_of c \<in> set (map fst (search_entries [] sv))" using assms(2) unfolding search_entries_claims(2) by simp
  then obtain e where e: "e \<in> set (search_entries [] sv)" "fst e = claim_of c" by auto
  then obtain k where k: "k \<in> set sv" "e = (claim_of k, subject_id (identity k), predicate_id (identity k), obj (identity k))"
    using search_entries_claims(3) by blast
  with e(2) assms(4) have "e = (claim_of c, subject_id (identity c), predicate_id (identity c), obj (identity c))"
    by (auto simp: same_texts_def)
  with assms(1) e(1) have "resolution_state cp gid (claim_of c) = Some ''accepted''"
      "\<lparr>s_gen = gid, s_claim = claim_of c, s_subject = subject_id (identity c), s_predicate = predicate_id (identity c),
        s_object = obj (identity c)\<rparr> \<in> set (search_index cp)"
    unfolding searchable_def by fastforce+
  moreover have "current_pointer cp = Some gid" "current_search_pointer cp = Some gid" using assms(1) by (simp_all add: searchable_def)
  ultimately show ?thesis using query_finds assms(3,5) by blast
qed

text \<open>
  A claim of a list that no other claim of the list replaces under its assertion id, and with whose
  claim id no claim of \<open>old\<close> or of the list has other texts.
\<close>

definition unclashing :: "compiled_claim list \<Rightarrow> compiled_claim list \<Rightarrow> compiled_claim \<Rightarrow> bool" where
  "unclashing old new cl \<longleftrightarrow> cl \<in> set new \<and> (\<forall>k\<in>set new. aid_of k = aid_of cl \<longrightarrow> k = cl) \<and>
     (\<forall>k\<in>set old \<union> set new. claim_of k = claim_of cl \<longrightarrow> same_texts k cl)"

lemma publish_searchable:
  assumes "publish B env new src [] mx expected binding s = (Inr r, s')" "\<not> pr_noop r" "0 \<le> lag"
  shows "\<exists>n s0 old. publish_attempt B env new src [] expected binding n s0 = (Inr r, s') \<and>
     parent_claims B s0 (current_pointer (pub_cp s0)) = Inr old \<and>
     (\<forall>cl term. unclashing old new cl \<and> matches term cl \<longrightarrow> claim_hit cl \<in> set (hits (query (pub_cp s') lag term)))"
proof -
  from publish_loop_returns assms(1) obtain n s0 where at: "publish_attempt B env new src [] expected binding n s0 = (Inr r, s')"
    unfolding publish_def by blast
  then obtain pp s1 where p: "prepare B new src [] expected binding n s0 = (Inr pp, s1)"
      and a: "activate_prepared pp (env n s1) = (Inr r, s')"
    by (auto simp: publish_attempt_def thenP_Inr_iff)
  obtain old where sv: "pp_surviving pp = surviving_claims old new []" "pp_revoked_claim_ids pp = sorted_set []"
      and old: "parent_claims B s0 (current_pointer (pub_cp s0)) = Inr old"
    using prepare_surviving [OF p] by blast
  have "\<forall>c\<in>set (pp_surviving pp). claim_of c \<notin> set (pp_revoked_claim_ids pp)"
    unfolding sv using surviving_members by auto
  from activate_prepared_searchable [OF a assms(2) this] obtain gid where g: "searchable (pub_cp s') gid (pp_surviving pp)" by blast
  have "claim_hit cl \<in> set (hits (query (pub_cp s') lag t))" if u: "unclashing old new cl" "matches t cl" for cl t
  proof (rule searchable_found [OF g [unfolded sv] _ assms(3) _ u(2)])
    show "cl \<in> set (surviving_claims old new [])" using u(1) by (intro by_assertion_new) (auto simp: unclashing_def)
    show "\<forall>k\<in>set (surviving_claims old new []). claim_of k = claim_of cl \<longrightarrow> same_texts k cl"
      using u(1) surviving_members [of _ old new "[]"] unfolding unclashing_def by blast
  qed
  with at old show ?thesis by blast
qed

lemma publish_first_attempt:
  "publish_attempt B env new src revs expected binding 1 s = (Inr r, s') \<Longrightarrow> publish B env new src revs mx expected binding s = (Inr r, s')"
  unfolding publish_def by (subst publish_loop.simps) simp

text \<open>
  C7: what was ingested is found. When a call returns with a publication, whatever other processes did
  to the repository and the database between the preparation and the activation of an attempt, then a
  query with a term that matches a claim compiled from the source returns this claim, with its own
  subject, predicate and object. Excepted are claims that another one of the source replaces under
  its assertion id, and claim ids under which the source or the parent generation of the attempt that
  published has other texts as well; the parent's claims carry the hash of their identity as their
  id, so with hashed claims the latter would be a collision of SHA-256.
\<close>

theorem ingested_claims_are_found:
  assumes "ingest_and_publish W now raw w = (Inr res, w')" "\<not> pr_noop (ip_publish res)"
  shows "\<exists>r c n s0 s1 old. fst (receive (gb_lib (wi_builder W)) (wi_disk W) (ws_ingest w) raw) = Inr r \<and>
     fst (compile (gb_lib (wi_builder W)) (wi_extract W) (snd (receive (gb_lib (wi_builder W)) (wi_disk W) (ws_ingest w) raw)) (rr_source_id r)) = Inr c \<and>
     ip_new_claims res = length (cr_claims c) \<and>
     publish_attempt (wi_builder W) (wi_others W) (cr_claims c) (rr_content_hash r) [] AnyParent None n s0 = (Inr (ip_publish res), s1) \<and>
     ws_cp w' = release_lease (pub_cp s1) (ws_holder w) \<and>
     parent_claims (wi_builder W) s0 (current_pointer (pub_cp s0)) = Inr old \<and> (\<forall>k\<in>set old. hashed_claim (gb_lib (wi_builder W)) k) \<and>
     (\<forall>cl term. unclashing old (cr_claims c) cl \<and> matches term cl \<longrightarrow> claim_hit cl \<in> set (hits (workspace_query w' term)))"
proof -
  from assms(1) obtain cp w1 where b: "ingest_body W raw (set_cp cp w) = (Inr res, w1)"
      and w': "w' = set_cp (release_lease (ws_cp w1) (ws_holder w)) w1"
    unfolding ingest_and_publish_def with_lease_Inr_iff by blast
  obtain r c w2 where rc: "ip_new_claims res = length (cr_claims c)"
      "fst (receive (gb_lib (wi_builder W)) (wi_disk W) (ws_ingest w) raw) = Inr r"
      "fst (compile (gb_lib (wi_builder W)) (wi_extract W) (snd (receive (gb_lib (wi_builder W)) (wi_disk W) (ws_ingest w) raw)) (rr_source_id r)) = Inr c"
      and p: "ip_publish res = no_publish \<or>
        on_publisher (publish (wi_builder W) (wi_others W) (cr_claims c) (rr_content_hash r) [] 3 AnyParent None) w2 = (Inr (ip_publish res), w1)"
    by (rule ingest_bodyD [OF b]) (simp only: set_cp_simps, blast)
  from p assms(2) have "publish (wi_builder W) (wi_others W) (cr_claims c) (rr_content_hash r) [] 3 AnyParent None (ws_publisher w2) =
      (Inr (ip_publish res), ws_publisher w1)"
    by (auto simp: no_publish_def on_publisher_def split: prod.splits)
  from publish_searchable [OF this assms(2), where lag = 5] obtain n s0 old where
    at: "publish_attempt (wi_builder W) (wi_others W) (cr_claims c) (rr_content_hash r) [] AnyParent None n s0 = (Inr (ip_publish res), ws_publisher w1)"
    and old: "parent_claims (wi_builder W) s0 (current_pointer (pub_cp s0)) = Inr old"
    and found: "\<forall>cl term. unclashing old (cr_claims c) cl \<and> matches term cl \<longrightarrow> claim_hit cl \<in> set (hits (query (ws_cp w1) 5 term))"
    by auto
  have q: "workspace_query w' = query (ws_cp w1) 5" by (simp add: fun_eq_iff workspace_query_def w')
  show ?thesis unfolding q using rc at old parent_claims_hashed [OF old] found
    by (intro exI [of _ r] exI [of _ c] exI [of _ n] exI [of _ s0] exI [of _ "ws_publisher w1"] exI [of _ old]) (simp add: w')
qed

subsection \<open>A concrete workspace\<close>

definition demo_wiring :: "string list \<Rightarrow> (demo_repo, (string, string) dict) wiring" where
  "demo_wiring revs = \<lparr>wi_builder = demo_builder, wi_disk = id, wi_extract = (\<lambda>_ _ _. Inr \<lparr>claims = [demo_claim], revokes = revs\<rparr>),
     wi_mirror = demo_mirror, wi_others = (\<lambda>_. id)\<rparr>"

definition demo_workspace :: "(demo_repo, (string, string) dict) workspace" where
  "demo_workspace = \<lparr>ws_holder = ''me'', ws_publisher = demo_publisher,
     ws_ingest = \<lparr>in_cas = cas_init, manifests = [], representations = []\<rparr>, ws_remote = []\<rparr>"

definition demo_leased :: control_plane where
  "demo_leased = cp_init\<lparr>publisher_lease := \<lparr>l_holder = Some ''me'', l_expires = 30, l_token = 1\<rparr>\<rparr>"

lemma demo_acquire: "acquire_lease (ws_cp demo_workspace) (ws_holder demo_workspace) 0 LEASE_TTL = (Some 1, demo_leased)"
  by (simp add: acquire_lease_def demo_workspace_def demo_publisher_def cp_init_def demo_leased_def LEASE_TTL_def)

lemma demo_ingest:
  "\<exists>r s1 s2. receive demo_lib id (ws_ingest demo_workspace) ''a'' = (Inr r, s1) \<and>
     compile demo_lib (\<lambda>_ _ _. Inr \<lparr>claims = [demo_claim], revokes = revs\<rparr>) s1 (rr_source_id r) =
       (Inr \<lparr>cr_source_id = rr_source_id r, cr_claims = [demo_claim], cr_revokes = revs, cr_status = ''validated''\<rparr>, s2)"
proof -
  let ?h = "sha256_hex demo_lib ''a''"
  have rep: "representation demo_lib ''a'' = (?h, ''a'')" by (simp add: representation_def str_replace.simps Let_def)
  have "\<exists>r s1 m. receive demo_lib id (ws_ingest demo_workspace) ''a'' = (Inr r, s1) \<and> rr_source_id r = ?h \<and>
      map_of (manifests s1) ?h = Some m \<and> status m = ''staged'' \<and> map_of (objects (in_cas s1)) ?h = Some ''a''"
    by (simp add: demo_workspace_def receive_def rep cas_put_def cas_init_def decode_utf8_def link_object_def cas_exists_def Let_def)
  then obtain r s1 m where x: "receive demo_lib id (ws_ingest demo_workspace) ''a'' = (Inr r, s1)" and r: "rr_source_id r = ?h"
      and "map_of (manifests s1) ?h = Some m" "status m = ''staged''" and o: "map_of (objects (in_cas s1)) ?h = Some ''a''" by blast
  moreover from o have "cas_get demo_lib (in_cas s1) ?h = Inr ''a''" "cas_exists (in_cas s1) ?h"
    by (simp_all add: cas_get_Inr_iff cas_exists_get)
  moreover have "decode_utf8 ''a'' = Inr ''a''" by (simp add: decode_utf8_def)
  ultimately have "\<exists>s2. compile demo_lib (\<lambda>_ _ _. Inr \<lparr>claims = [demo_claim], revokes = revs\<rparr>) s1 (rr_source_id r) =
       (Inr \<lparr>cr_source_id = rr_source_id r, cr_claims = [demo_claim], cr_revokes = revs, cr_status = ''validated''\<rparr>, s2)"
    by (simp add: compile_def rep transition_staged Let_def)
  with x show ?thesis by blast
qed

lemma demo_publishes:
  "\<exists>r s'. publish demo_builder (\<lambda>_. id) [demo_claim] src [] 3 AnyParent None (demo_publisher\<lparr>pub_cp := demo_leased\<rparr>) = (Inr r, s') \<and> \<not> pr_noop r"
proof -
  let ?s = "demo_publisher\<lparr>pub_cp := demo_leased\<rparr>"
  have inv: "cp_inv (pub_cp ?s)" using cp_inv_same_tables [OF cp_inv_init, of demo_leased] by (simp add: demo_leased_def)
  have facts: "anchored demo_view ?s" "parent_claims demo_builder ?s (current_pointer (pub_cp ?s)) = Inr []"
      "\<And>sv. fresh_generation demo_builder demo_view ?s sv src None" "head_present demo_view ?s"
    by (simp_all add: demo_publisher_def demo_leased_def anchored_def rows_def parent_claims_def current_pointer_def fresh_generation_def
      head_present_def ref_free_def gen_ids_def cp_init_def demo_view_def empty_repo_def)
  from publish_total [OF demo_builder_ok demo_builder_works inv facts(1,4,2) demo_publisher_facts(6) _ _ facts(3), of "[]" AnyParent 1]
  obtain r s' where "publish_attempt demo_builder (\<lambda>_. id) [demo_claim] src [] AnyParent None 1 ?s = (Inr r, s')" "\<not> pr_noop r"
    by (auto simp: demo_publisher_facts(7))
  then show ?thesis using publish_first_attempt by blast
qed

lemma demo_run:
  "\<exists>res w'. ingest_and_publish (demo_wiring revs) 0 ''a'' demo_workspace = (Inr res, w') \<and>
     (if revs = [] then \<not> pr_noop (ip_publish res) else ip_quarantined res) \<and> ip_new_claims res = 1"
proof -
  obtain r s1 s2 where i: "receive demo_lib id (ws_ingest demo_workspace) ''a'' = (Inr r, s1)"
     "compile demo_lib (\<lambda>_ _ _. Inr \<lparr>claims = [demo_claim], revokes = revs\<rparr>) s1 (rr_source_id r) =
       (Inr \<lparr>cr_source_id = rr_source_id r, cr_claims = [demo_claim], cr_revokes = revs, cr_status = ''validated''\<rparr>, s2)"
    using demo_ingest by blast
  obtain p s' where p: "publish demo_builder (\<lambda>_. id) [demo_claim] (rr_content_hash r) [] 3 AnyParent None (demo_publisher\<lparr>pub_cp := demo_leased\<rparr>) = (Inr p, s')"
     "\<not> pr_noop p" using demo_publishes by blast
  have pub: "ws_publisher (set_cp demo_leased demo_workspace) = demo_publisher\<lparr>pub_cp := demo_leased\<rparr>" by (simp add: demo_workspace_def)
  have lib: "gb_lib demo_builder = demo_lib" by (simp add: demo_builder_def)
  have "\<exists>res w'. ingest_body (demo_wiring revs) ''a'' (set_cp demo_leased demo_workspace) = (Inr res, w') \<and>
      (if revs = [] then \<not> pr_noop (ip_publish res) else ip_quarantined res) \<and> ip_new_claims res = 1"
    using i p pub by (simp add: ingest_body_def demo_wiring_def lib thenP_def on_ingest_def on_publisher_def liftP_def Let_def)
  then show ?thesis unfolding ingest_and_publish_def with_lease_Inr_iff demo_acquire by blast
qed

theorem ingested_claims_are_found_witness:
  "\<exists>res w'. ingest_and_publish (demo_wiring []) 0 ''a'' demo_workspace = (Inr res, w') \<and> \<not> pr_noop (ip_publish res) \<and>
     (\<exists>r c n s0 s1 old. fst (receive demo_lib id (ws_ingest demo_workspace) ''a'') = Inr r \<and>
        fst (compile demo_lib (wi_extract (demo_wiring [])) (snd (receive demo_lib id (ws_ingest demo_workspace) ''a'')) (rr_source_id r)) = Inr c \<and>
        publish_attempt demo_builder (\<lambda>_. id) (cr_claims c) (rr_content_hash r) [] AnyParent None n s0 = (Inr (ip_publish res), s1) \<and>
        parent_claims demo_builder s0 (current_pointer (pub_cp s0)) = Inr old \<and>
        (\<forall>cl term. unclashing old (cr_claims c) cl \<and> matches term cl \<longrightarrow> claim_hit cl \<in> set (hits (workspace_query w' term))))"
proof -
  obtain res w' where r: "ingest_and_publish (demo_wiring []) 0 ''a'' demo_workspace = (Inr res, w')" "\<not> pr_noop (ip_publish res)"
      "ip_new_claims res = 1" using demo_run [of "[]"] by auto
  have lib: "wi_disk (demo_wiring []) = id" "wi_builder (demo_wiring []) = demo_builder" "gb_lib demo_builder = demo_lib"
    "wi_others (demo_wiring []) = (\<lambda>_. id)" by (simp_all add: demo_wiring_def demo_builder_def)
  from ingested_claims_are_found [OF r(1,2), unfolded lib] obtain x c n s0 s1 old where
      "fst (receive demo_lib id (ws_ingest demo_workspace) ''a'') = Inr x"
      "fst (compile demo_lib (wi_extract (demo_wiring [])) (snd (receive demo_lib id (ws_ingest demo_workspace) ''a'')) (rr_source_id x)) = Inr c"
      "publish_attempt demo_builder (\<lambda>_. id) (cr_claims c) (rr_content_hash x) [] AnyParent None n s0 = (Inr (ip_publish res), s1)"
      "parent_claims demo_builder s0 (current_pointer (pub_cp s0)) = Inr old"
      "\<forall>cl term. unclashing old (cr_claims c) cl \<and> matches term cl \<longrightarrow> claim_hit cl \<in> set (hits (workspace_query w' term))"
    by blast
  with r(1,2) show ?thesis by (intro exI [of _ res] exI [of _ w'] conjI exI [of _ x] exI [of _ c] exI [of _ n] exI [of _ s0]
    exI [of _ s1] exI [of _ old])
qed

theorem revoking_source_is_quarantined_witness:
  "\<exists>res w'. ingest_and_publish (demo_wiring [''c'']) 0 ''a'' demo_workspace = (Inr res, w') \<and> ip_quarantined res \<and> ip_revokes res = 1 \<and>
     current_pointer (ws_cp w') = current_pointer (ws_cp demo_workspace)"
proof -
  let ?W = "demo_wiring [''c'']"
  have lib: "gb_lib (wi_builder ?W) = demo_lib" "wi_disk ?W = id"
    "wi_extract ?W = (\<lambda>_ _ _. Inr \<lparr>claims = [demo_claim], revokes = [''c'']\<rparr>)"
    by (simp_all add: demo_wiring_def demo_builder_def)
  obtain r s1 s2 where i: "receive demo_lib id (ws_ingest demo_workspace) ''a'' = (Inr r, s1)"
     "compile demo_lib (\<lambda>_ _ _. Inr \<lparr>claims = [demo_claim], revokes = [''c'']\<rparr>) s1 (rr_source_id r) =
       (Inr \<lparr>cr_source_id = rr_source_id r, cr_claims = [demo_claim], cr_revokes = [''c''], cr_status = ''validated''\<rparr>, s2)"
    using demo_ingest by blast
  have l: "lease_holder (ws_cp demo_workspace) 0 \<in> {None, Some (ws_holder demo_workspace)}"
    by (simp add: lease_holder_def demo_workspace_def demo_publisher_def cp_init_def Let_def)
  from revoking_source_is_quarantined [OF l, of ?W, unfolded lib, OF i] show ?thesis by (auto simp: current_pointer_def)
qed

theorem publishing_is_leased_witness:
  "lease_holder demo_leased 1 = Some ''me'' \<and>
   ingest_and_publish (demo_wiring []) 1 ''a'' (set_cp demo_leased (demo_workspace\<lparr>ws_holder := ''you''\<rparr>)) =
     (Inl LeaseError, set_cp demo_leased (demo_workspace\<lparr>ws_holder := ''you''\<rparr>))"
proof -
  have l: "lease_holder demo_leased 1 = Some ''me''" by (simp add: lease_holder_def demo_leased_def)
  with publishing_is_leased [of "set_cp demo_leased (demo_workspace\<lparr>ws_holder := ''you''\<rparr>)" 1 "''me''" "demo_wiring []" "''a''"]
  show ?thesis by simp
qed

end
