(* ===== verification/Times.thy ===== *)
theory Times
  imports Gateways
begin

text \<open>
  Timestamps, as \<open>_timestamp\<close> of \<open>memory_core/operability.py\<close> reads them: the regular expression,
  then \<open>datetime.fromisoformat\<close>, whose calendar (Python's proleptic Gregorian ordinals) is written
  out. An aware \<open>datetime\<close> is the number of seconds since 0001-01-01T00:00:00 in UTC, which is what
  its comparisons and differences depend on.

  The results: on UTC timestamps the order of the strings is the order in time, so the string
  comparison that \<open>PolicyEngine.authorize\<close> uses for the expiry of a capability is right there; with
  other offsets it is not.
\<close>

definition leap_year :: "nat \<Rightarrow> bool" where
  "leap_year y \<longleftrightarrow> y mod 4 = 0 \<and> (y mod 100 \<noteq> 0 \<or> y mod 400 = 0)"

definition days_in_month :: "nat \<Rightarrow> nat \<Rightarrow> nat" where
  "days_in_month y m =
     (if m = 2 then (if leap_year y then 29 else 28) else if m \<in> {4, 6, 9, 11} then 30 else 31)"

definition days_before_year :: "nat \<Rightarrow> int" where
  "days_before_year y = (let p = int (y - 1) in p * 365 + p div 4 - p div 100 + p div 400)"

fun days_before_month :: "nat \<Rightarrow> nat \<Rightarrow> nat" where
  "days_before_month y 0 = 0"
| "days_before_month y (Suc m) = (if m = 0 then 0 else days_before_month y m + days_in_month y m)"

definition ordinal :: "nat \<Rightarrow> nat \<Rightarrow> nat \<Rightarrow> int" where
  "ordinal y m d = days_before_year y + int (days_before_month y m) + int d"

text \<open>A \<open>d\<close> in a template stands for a digit, any other character for itself.\<close>

definition fits :: "string \<Rightarrow> string \<Rightarrow> bool" where
  "fits template s \<longleftrightarrow> list_all2 (\<lambda>p c. if p = CHR ''d'' then is_digit c else c = p) template s"

definition local_part :: string where
  "local_part = ''dddd-dd-ddTdd:dd:dd''"

definition num :: "nat \<Rightarrow> nat \<Rightarrow> string \<Rightarrow> nat" where
  "num i n s = int_str (take n (drop i s))"

definition valid_civil :: "string \<Rightarrow> bool" where
  "valid_civil s \<longleftrightarrow>
     1 \<le> num 0 4 s \<and> 1 \<le> num 5 2 s \<and> num 5 2 s \<le> 12 \<and>
     1 \<le> num 8 2 s \<and> num 8 2 s \<le> days_in_month (num 0 4 s) (num 5 2 s) \<and>
     num 11 2 s \<le> 23 \<and> num 14 2 s \<le> 59 \<and> num 17 2 s \<le> 59"

definition civil_seconds :: "string \<Rightarrow> int" where
  "civil_seconds s =
     (ordinal (num 0 4 s) (num 5 2 s) (num 8 2 s) - 1) * 86400 + int (num 11 2 s) * 3600 + int (num 14 2 s) * 60 + int (num 17 2 s)"

definition offset_seconds :: "string \<Rightarrow> int" where
  "offset_seconds s =
     (if length s = 20 then 0
      else (if s ! 19 = CHR ''-'' then -1 else 1) * (int (num 20 2 s) * 3600 + int (num 23 2 s) * 60))"

definition timestamp :: "string \<Rightarrow> int res" where
  "timestamp s =
     (if \<not> (fits (local_part @ ''Z'') s \<or> fits (local_part @ ''+dd:dd'') s \<or> fits (local_part @ ''-dd:dd'') s)
      then Inl InvalidContractValue
      else if \<not> valid_civil s \<or> \<bar>offset_seconds s\<bar> \<ge> 86400 then Inl InvalidContractValue
      else Inr (civil_seconds s - offset_seconds s))"

subsection \<open>The calendar is increasing\<close>

lemma leap_step:
  fixes p a b c :: int
  assumes "B \<longrightarrow> A" "C \<longrightarrow> B"
  shows "(1 + p) * 365 + (a + (if A then 1 else 0)) - (b + (if B then 1 else 0)) + (c + (if C then 1 else 0)) =
      p * 365 + a - b + c + (if A \<and> (\<not> B \<or> C) then 366 else 365)"
  using assms by (cases A; cases B; cases C) simp_all

lemma days_before_year_Suc:
  assumes "1 \<le> y"
  shows "days_before_year (Suc y) = days_before_year y + (if leap_year y then 366 else 365)"
proof -
  obtain x where y: "y = Suc x" using assms by (cases y) auto
  have d: "int (Suc x) div int k = int x div int k + (if Suc x mod k = 0 then 1 else 0)" for k
    unfolding zdiv_int [symmetric] by (simp add: div_Suc)
  note d' = d [of "numeral k" for k, unfolded of_nat_numeral]
  have m: "Suc x mod 100 = 0 \<longrightarrow> Suc x mod 4 = 0" "Suc x mod 400 = 0 \<longrightarrow> Suc x mod 100 = 0"
    unfolding mod_eq_0_iff_dvd using dvd_trans [of 4 "100 :: nat" "Suc x"] dvd_trans [of 100 "400 :: nat" "Suc x"] by simp_all
  have E: "days_before_year (Suc y) = int (Suc x) * 365 + int (Suc x) div 4 - int (Suc x) div 100 + int (Suc x) div 400"
    "days_before_year y = int x * 365 + int x div 4 - int x div 100 + int x div 400"
    by (simp_all only: y days_before_year_def Let_def diff_Suc_1)
  show ?thesis unfolding E unfolding d' leap_year_def y unfolding of_nat_Suc by (rule leap_step [OF m])
qed

lemma days_before_year_mono:
  assumes "1 \<le> y" "y < y'"
  shows "days_before_year (Suc y) \<le> days_before_year y'"
  using assms(2)
proof (induction y' rule: less_induct)
  case (less y')
  show ?case
  proof (cases "y' = Suc y")
    case False
    with less.prems obtain z where z: "y' = Suc z" "y < z" by (cases y') auto
    with less.IH have "days_before_year (Suc y) \<le> days_before_year z" by simp
    also have "\<dots> \<le> days_before_year y'" using days_before_year_Suc [of z] z assms(1) by simp
    finally show ?thesis .
  qed simp
qed

lemma days_before_month_mono: "1 \<le> m \<Longrightarrow> m < m' \<Longrightarrow> days_before_month y m + days_in_month y m \<le> days_before_month y m'"
proof (induction m')
  case (Suc m')
  then show ?case by (cases "m = m'") auto
qed simp

lemma days_in_year: "days_before_month y 13 = (if leap_year y then 366 else 365)"
  by (simp add: eval_nat_numeral days_in_month_def)

lemma ordinal_year:
  assumes "1 \<le> m" "m \<le> 12" "1 \<le> d" "d \<le> days_in_month y m" "1 \<le> y"
  shows "days_before_year y < ordinal y m d" "ordinal y m d \<le> days_before_year (Suc y)"
proof -
  show "days_before_year y < ordinal y m d" using assms by (simp add: ordinal_def)
  have "days_before_month y m + days_in_month y m \<le> days_before_month y 13"
    using assms by (intro days_before_month_mono) auto
  with assms days_in_year [of y] days_before_year_Suc [of y] show "ordinal y m d \<le> days_before_year (Suc y)"
    by (auto simp: ordinal_def split: if_splits)
qed

lemma ordinal_less:
  assumes "1 \<le> y" "1 \<le> m" "m \<le> 12" "1 \<le> d" "d \<le> days_in_month y m"
    and "1 \<le> y'" "1 \<le> m'" "m' \<le> 12" "1 \<le> d'" "d' \<le> days_in_month y' m'"
    and "y < y' \<or> y = y' \<and> (m < m' \<or> m = m' \<and> d < d')"
  shows "ordinal y m d < ordinal y' m' d'"
  using assms(11)
proof (elim disjE conjE)
  assume "y < y'"
  with ordinal_year(2) [OF assms(2-5,1)] ordinal_year(1) [OF assms(7-10,6)] days_before_year_mono [OF assms(1), of y']
  show ?thesis by simp
next
  assume y: "y = y'" "m < m'"
  with days_before_month_mono [OF assms(2), of m' y] assms show ?thesis by (simp add: ordinal_def)
qed (simp add: ordinal_def)

subsection \<open>UTC timestamps compare as strings\<close>

lemma append_less: "length a = length b \<Longrightarrow> a @ x < b @ y \<longleftrightarrow> a < b \<or> a = b \<and> x < (y :: 'a :: linorder list)"
  by (induction a b rule: list_induct2) auto

lemma int_str_Cons: "int_str (c # s) = digit_val c * 10 ^ length s + int_str s"
proof (induction s rule: rev_induct)
  case (snoc d s)
  have "int_str (c # s @ [d]) = int_str (c # s) * 10 + digit_val d" using int_str_snoc [of "c # s" d] by simp
  then show ?case unfolding snoc int_str_snoc by simp
qed (simp add: int_str_def)

lemma digit_val_bound: "is_digit c \<Longrightarrow> digit_val c \<le> 9"
  unfolding is_digit_def digit_val_def by linarith

lemma int_str_bound: "list_all is_digit s \<Longrightarrow> int_str s < 10 ^ length s"
proof (induction s)
  case (Cons c s)
  then have "digit_val c * 10 ^ length s \<le> 9 * 10 ^ length s" "int_str s < 10 ^ length s"
    using mult_le_mono1 [OF digit_val_bound] by auto
  from add_le_less_mono [OF this] show ?case unfolding int_str_Cons by simp
qed (simp add: int_str_def)

lemma digits_less:
  assumes "length a = length b" "list_all is_digit a" "list_all is_digit b" "a < b"
  shows "int_str a < int_str b"
  using assms
proof (induction a b rule: list_induct2)
  case (Cons c a d b)
  show ?case
  proof (cases "c = d")
    case True
    with Cons show ?thesis by (simp add: int_str_Cons)
  next
    case False
    with Cons.prems have "digit_val c < digit_val d"
      by (auto simp: less_char_def digit_val_def is_digit_def)
    then have "digit_val c * 10 ^ length a + 10 ^ length a \<le> digit_val d * 10 ^ length a"
      using mult_le_mono1 [of "Suc (digit_val c)" "digit_val d" "10 ^ length a"] by simp
    with int_str_bound [of a] Cons.prems Cons.hyps show ?thesis by (simp add: int_str_Cons)
  qed
qed simp

lemma fits_utc:
  assumes "fits (local_part @ ''Z'') s"
  obtains y m d h i x where "s = y @ ''-'' @ m @ ''-'' @ d @ ''T'' @ h @ '':'' @ i @ '':'' @ x @ ''Z''"
    "length y = 4" "length m = 2" "length d = 2" "length h = 2" "length i = 2" "length x = 2"
    "list_all is_digit (y @ m @ d @ h @ i @ x)"
    "num 0 4 s = int_str y" "num 5 2 s = int_str m" "num 8 2 s = int_str d" "num 11 2 s = int_str h"
    "num 14 2 s = int_str i" "num 17 2 s = int_str x"
proof -
  from assms obtain c0 c1 c2 c3 c5 c6 c8 c9 c11 c12 c14 c15 c17 c18 where
    s: "s = [c0, c1, c2, c3, CHR ''-'', c5, c6, CHR ''-'', c8, c9, CHR ''T'', c11, c12, CHR '':'', c14, c15, CHR '':'', c17, c18, CHR ''Z'']"
    and "is_digit c0" "is_digit c1" "is_digit c2" "is_digit c3" "is_digit c5" "is_digit c6" "is_digit c8" "is_digit c9"
      "is_digit c11" "is_digit c12" "is_digit c14" "is_digit c15" "is_digit c17" "is_digit c18"
    by (auto simp: fits_def local_part_def list_all2_Cons1)
  then show ?thesis using that [of "[c0, c1, c2, c3]" "[c5, c6]" "[c8, c9]" "[c11, c12]" "[c14, c15]" "[c17, c18]"]
    by (simp add: num_def)
qed

lemma seconds_less:
  fixes n h i x n' h' i' x' :: int
  assumes "n < n' \<or> n = n' \<and> (h < h' \<or> h = h' \<and> (i < i' \<or> i = i' \<and> x < x'))"
    and "h \<le> 23" "i \<le> 59" "x \<le> 59" "0 \<le> h'" "0 \<le> i'" "0 \<le> x'"
  shows "(n - 1) * 86400 + h * 3600 + i * 60 + x < (n' - 1) * 86400 + h' * 3600 + i' * 60 + x'"
  using assms by (elim disjE conjE) (simp_all add: left_diff_distrib)

lemma utc_less:
  assumes "fits (local_part @ ''Z'') s" "valid_civil s" "fits (local_part @ ''Z'') s'" "valid_civil s'" "s < s'"
  shows "civil_seconds s < civil_seconds s'"
proof -
  obtain y m d h i x where s: "s = y @ ''-'' @ m @ ''-'' @ d @ ''T'' @ h @ '':'' @ i @ '':'' @ x @ ''Z''"
    "length y = 4" "length m = 2" "length d = 2" "length h = 2" "length i = 2" "length x = 2"
    "list_all is_digit (y @ m @ d @ h @ i @ x)"
    and n: "num 0 4 s = int_str y" "num 5 2 s = int_str m" "num 8 2 s = int_str d" "num 11 2 s = int_str h"
      "num 14 2 s = int_str i" "num 17 2 s = int_str x"
    using fits_utc [OF assms(1)] .
  obtain y' m' d' h' i' x' where s': "s' = y' @ ''-'' @ m' @ ''-'' @ d' @ ''T'' @ h' @ '':'' @ i' @ '':'' @ x' @ ''Z''"
    "length y' = 4" "length m' = 2" "length d' = 2" "length h' = 2" "length i' = 2" "length x' = 2"
    "list_all is_digit (y' @ m' @ d' @ h' @ i' @ x')"
    and n': "num 0 4 s' = int_str y'" "num 5 2 s' = int_str m'" "num 8 2 s' = int_str d'" "num 11 2 s' = int_str h'"
      "num 14 2 s' = int_str i'" "num 17 2 s' = int_str x'"
    using fits_utc [OF assms(3)] .
  have less: "int_str a < int_str b" if "a < b" "length a = length b" "list_all is_digit a" "list_all is_digit b" for a b
    using digits_less that by blast
  from assms(5) have "y < y' \<or> y = y' \<and> (m < m' \<or> m = m' \<and> (d < d' \<or> d = d' \<and> (h < h' \<or> h = h' \<and> (i < i' \<or> i = i' \<and> x < x'))))"
    unfolding s(1) s'(1) using s(2-7) s'(2-7) by (simp add: append_less)
  then have "(int_str y < int_str y' \<or> int_str y = int_str y' \<and> (int_str m < int_str m' \<or> int_str m = int_str m' \<and> int_str d < int_str d')) \<or>
      y = y' \<and> m = m' \<and> d = d' \<and> (int_str h < int_str h' \<or> int_str h = int_str h' \<and> (int_str i < int_str i' \<or> int_str i = int_str i' \<and> int_str x < int_str x'))"
    using s(2-8) s'(2-8) less by auto
  then have "ordinal (num 0 4 s) (num 5 2 s) (num 8 2 s) < ordinal (num 0 4 s') (num 5 2 s') (num 8 2 s') \<or>
      ordinal (num 0 4 s) (num 5 2 s) (num 8 2 s) = ordinal (num 0 4 s') (num 5 2 s') (num 8 2 s') \<and>
      (num 11 2 s < num 11 2 s' \<or> num 11 2 s = num 11 2 s' \<and> (num 14 2 s < num 14 2 s' \<or> num 14 2 s = num 14 2 s' \<and> num 17 2 s < num 17 2 s'))"
    using assms(2,4) ordinal_less unfolding n n' valid_civil_def by blast
  then show ?thesis
    unfolding civil_seconds_def using assms(2) by (intro seconds_less) (simp_all add: valid_civil_def)
qed

lemma utc_timestamp:
  assumes "fits (local_part @ ''Z'') s" "timestamp s = Inr t"
  shows "valid_civil s" "t = civil_seconds s"
proof -
  have "length s = 20" using assms(1) by (auto simp: fits_def local_part_def dest: list_all2_lengthD)
  with assms show "valid_civil s" "t = civil_seconds s" by (auto simp: timestamp_def offset_seconds_def split: if_splits)
qed

lemma utc_order:
  assumes "fits (local_part @ ''Z'') s" "timestamp s = Inr t" "fits (local_part @ ''Z'') s'" "timestamp s' = Inr t'"
  shows "s \<le> s' \<longleftrightarrow> t \<le> t'"
  using utc_less [OF assms(1) utc_timestamp(1) [OF assms(1,2)] assms(3) utc_timestamp(1) [OF assms(3,4)]]
    utc_less [OF assms(3) utc_timestamp(1) [OF assms(3,4)] assms(1) utc_timestamp(1) [OF assms(1,2)]]
    utc_timestamp(2) [OF assms(1,2)] utc_timestamp(2) [OF assms(3,4)]
  by (cases s s' rule: linorder_cases) auto

text \<open>
  the expiry of capabilities. \<open>PolicyEngine.authorize\<close> compares two timestamps as strings. If
  both are UTC timestamps that \<open>_timestamp\<close> accepts, then a capability that expired at or before
  the time of the request is never honoured, and one that has not expired is never refused as
  expired.
\<close>

theorem utc_expiry_enforced:
  assumes "fits (local_part @ ''Z'') (rq_now r)" "timestamp (rq_now r) = Inr now"
    and "fits (local_part @ ''Z'') (ct_expires_at t)" "timestamp (ct_expires_at t) = Inr expiry"
  shows "(expiry \<le> now \<longrightarrow> \<not> allowed (authorize t r)) \<and> (now < expiry \<longrightarrow> authorize t r \<noteq> deny CAPABILITY_EXPIRED)"
  using utc_order [OF assms(3,4,1,2)] by (auto simp: authorize_def)

definition demo_token :: "string \<Rightarrow> capability_token" where
  "demo_token expires = \<lparr>ct_token_id = ''t'', ct_workspace_id = ''w'', ct_actor_id = ''a'', ct_actions = [''read''],
     ct_max_sensitivity = PRIVATE, ct_expires_at = expires\<rparr>"

definition demo_request :: "string \<Rightarrow> policy_request" where
  "demo_request now = \<lparr>rq_workspace_id = ''w'', rq_actor_id = ''a'', rq_action = ''read'', rq_now = now, rq_object_sensitivity = PUBLIC\<rparr>"

lemma demo_times:
  "timestamp ''2024-01-01T05:00:00Z'' = Inr 63839682000" "timestamp ''2024-01-01T06:00:00Z'' = Inr 63839685600"
  "timestamp ''2024-01-01T10:00:00+09:00'' = Inr 63839667600"
  "fits (local_part @ ''Z'') ''2024-01-01T05:00:00Z''" "fits (local_part @ ''Z'') ''2024-01-01T06:00:00Z''"
  by code_simp+

theorem utc_expiry_enforced_witness:
  "\<not> allowed (authorize (demo_token ''2024-01-01T05:00:00Z'') (demo_request ''2024-01-01T06:00:00Z''))"
  using utc_expiry_enforced [of "demo_request ''2024-01-01T06:00:00Z''" 63839685600 "demo_token ''2024-01-01T05:00:00Z''" 63839682000]
    demo_times by (simp add: demo_token_def demo_request_def)

text \<open>
  With other offsets the comparison of strings is wrong: there is a capability that expired four
  hours before the request, by timestamps that \<open>_timestamp\<close> accepts, and is still honoured.
\<close>

theorem offset_expiry_not_enforced:
  "\<exists>t r expiry now. timestamp (ct_expires_at t) = Inr expiry \<and> timestamp (rq_now r) = Inr now \<and>
     expiry + 4 * 3600 = now \<and> allowed (authorize t r)"
proof -
  let ?t = "demo_token ''2024-01-01T10:00:00+09:00''" and ?r = "demo_request ''2024-01-01T05:00:00Z''"
  have "allowed (authorize ?t ?r)" by code_simp
  moreover have "timestamp (ct_expires_at ?t) = Inr 63839667600" "timestamp (rq_now ?r) = Inr 63839682000"
    using demo_times by (simp_all add: demo_token_def demo_request_def)
  ultimately show ?thesis by (intro exI [of _ ?t] exI [of _ ?r] exI [of _ 63839667600] exI [of _ 63839682000]) simp
qed

end
