(* ===== verification/SelfCertified.thy ===== *)
theory SelfCertified
  imports Times
begin

text \<open>
  What the frozen contract classes of \<open>memory_core/operability.py\<close> have in common: the value checks,
  and an identifier that is the hash of the other fields and is recomputed on every construction.
  The locale \<open>self_certified\<close> states this once; work items, audit references, telemetry points,
  export requests and export jobs are interpretations of it.
\<close>

subsection \<open>Value checks\<close>

definition str_that :: "(string \<Rightarrow> bool) \<Rightarrow> pyval \<Rightarrow> bool" where
  "str_that P v = (case v of PStr s \<Rightarrow> P s | _ \<Rightarrow> False)"

definition op_strict :: "fields \<Rightarrow> string list \<Rightarrow> fields res" where
  "op_strict data names =
     (if \<not> set (dict_keys data) \<subseteq> set names then Inl UnknownContractField
      else if \<not> set names \<subseteq> set (dict_keys data) then Inl InvalidContractValue
      else Inr data)"

definition lower_char :: "char \<Rightarrow> bool" where
  "lower_char c \<longleftrightarrow> 97 \<le> (of_char c :: nat) \<and> (of_char c :: nat) \<le> 122"

definition is_code :: "string \<Rightarrow> bool" where
  "is_code s \<longleftrightarrow> s \<noteq> [] \<and> length s \<le> 128 \<and> lower_char (hd s) \<and>
     list_all (\<lambda>c. lower_char c \<or> is_digit c \<or> c \<in> set ''_.:-'') (tl s)"

definition is_field_path :: "string \<Rightarrow> bool" where
  "is_field_path s \<longleftrightarrow> s \<noteq> [] \<and> length s \<le> 128 \<and> lower_char (hd s) \<and>
     list_all (\<lambda>c. lower_char c \<or> is_digit c \<or> c \<in> set ''_.-'') (tl s)"

definition is_object_id :: "string \<Rightarrow> bool" where
  "is_object_id s \<longleftrightarrow> (length s = 40 \<or> length s = 64) \<and> list_all is_hex_char s"

definition op_timestamp :: "pyval \<Rightarrow> int res" where
  "op_timestamp v = (case v of PStr s \<Rightarrow> timestamp s | _ \<Rightarrow> Inl InvalidContractValue)"

text \<open>\<open>int(value)\<close> refuses more than 4300 digits.\<close>

definition op_uint :: "bool \<Rightarrow> pyval \<Rightarrow> int res" where
  "op_uint positive v =
     (case v of
        PStr s \<Rightarrow>
          if \<not> (if positive then canonical_pos s else canonical_uint s) then Inl InvalidContractValue
          else if length s > 4300 then Inl ValueError else Inr (int (int_str s))
      | _ \<Rightarrow> Inl InvalidContractValue)"

definition seq_of :: "pyval \<Rightarrow> pyval list option" where
  "seq_of v = (case v of PList xs \<Rightarrow> Some xs | PTuple xs \<Rightarrow> Some xs | _ \<Rightarrow> None)"

definition sorted_strings :: "(string \<Rightarrow> bool) \<Rightarrow> bool \<Rightarrow> pyval \<Rightarrow> string list res" where
  "sorted_strings pat allow_empty v =
     (case seq_of v of
        None \<Rightarrow> Inl InvalidContractValue
      | Some xs \<Rightarrow>
          let ss = map the_str xs in
          if \<not> allow_empty \<and> xs = [] then Inl InvalidContractValue
          else if \<not> list_all nonempty_str xs then Inl InvalidContractValue
          else if sorted_set ss \<noteq> ss then Inl InvalidContractValue
          else if \<not> list_all pat ss then Inl InvalidContractValue
          else Inr ss)"

lemma str_that_iff: "str_that P v \<longleftrightarrow> (\<exists>s. v = PStr s \<and> P s)"
  by (cases v) (simp_all add: str_that_def)

lemma str_that_the [simp]: "str_that P v \<Longrightarrow> PStr (the_str v) = v" "str_that P (PStr s) = P s"
  by (auto simp: str_that_iff)

lemma op_timestamp_Inr: "op_timestamp v = Inr t \<longleftrightarrow> (\<exists>s. v = PStr s \<and> timestamp s = Inr t)"
  by (cases v) (simp_all add: op_timestamp_def)

lemma op_uint_Inr: "op_uint True v = Inr n \<longleftrightarrow> (\<exists>s. v = PStr s \<and> canonical_pos s \<and> length s \<le> 4300 \<and> n = int (int_str s))"
  by (cases v) (auto simp: op_uint_def)

lemma nonempty_strs: "list_all nonempty_str xs \<Longrightarrow> map PStr (map the_str xs) = xs"
  by (induction xs) simp_all

lemma nonempty_strs_set: "list_all nonempty_str xs \<Longrightarrow> [] \<notin> set (map the_str xs)"
  by (induction xs) (auto dest: nonempty_the_str)

lemma sorted_strings_Inr:
  "sorted_strings pat e v = Inr ss \<longleftrightarrow>
     (v = PList (map PStr ss) \<or> v = PTuple (map PStr ss)) \<and> (e \<or> ss \<noteq> []) \<and> [] \<notin> set ss \<and> sorted_set ss = ss \<and> list_all pat ss"
proof
  assume "sorted_strings pat e v = Inr ss"
  then show "(v = PList (map PStr ss) \<or> v = PTuple (map PStr ss)) \<and> (e \<or> ss \<noteq> []) \<and> [] \<notin> set ss \<and> sorted_set ss = ss \<and> list_all pat ss"
    by (cases v) (auto simp: sorted_strings_def seq_of_def Let_def nonempty_strs simp del: set_map map_map dest: nonempty_strs_set split: if_splits)
next
  assume *: "(v = PList (map PStr ss) \<or> v = PTuple (map PStr ss)) \<and> (e \<or> ss \<noteq> []) \<and> [] \<notin> set ss \<and> sorted_set ss = ss \<and> list_all pat ss"
  have "map (the_str \<circ> PStr) ss = ss" by (simp add: comp_def)
  moreover from * have "list_all nonempty_str (map PStr ss)" by (auto simp: list_all_iff)
  ultimately show "sorted_strings pat e v = Inr ss" using * by (auto simp: sorted_strings_def seq_of_def Let_def)
qed

subsection \<open>Identifiers that certify their record\<close>

text \<open>The fields that \<open>json.loads\<close> gives back for a canonical document.\<close>

definition json_fields :: "json \<Rightarrow> fields" where
  "json_fields j = (case j of JObj kvs \<Rightarrow> map (\<lambda>(k, v). (k, json_py v)) kvs | _ \<Rightarrow> [])"

text \<open>
  Of a class: the name of its identifier, its other fields, the constructor with its checks, the
  printed mapping, and how the constructor sees a field (a tuple as the list it prints as).
\<close>

locale self_certified =
  fixes idf :: string and fs :: "string list"
    and new :: "lib \<Rightarrow> fields \<Rightarrow> 'a res" and mapping :: "'a \<Rightarrow> fields" and view :: "fields \<Rightarrow> string \<Rightarrow> pyval"
  assumes new_id: "new L v = Inr a \<Longrightarrow> contract_hash L (pdict (map (\<lambda>k. (k, view v k)) fs)) = Inr (the_str (field (mapping a) idf))"
    and new_view: "new L v = Inr a \<Longrightarrow> k \<in> set (idf # fs) \<Longrightarrow> field (mapping a) k = view v k"
    and new_cong: "(\<And>k. k \<in> set (idf # fs) \<Longrightarrow> view v k = view w k) \<Longrightarrow> new L v = new L w"
    and view_mapping: "k \<in> set (idf # fs) \<Longrightarrow> view (mapping a) k = field (mapping a) k"
    and view_field: "field v k = field w k \<Longrightarrow> view v k = view w k"
    and names: "list_all (list_all (\<lambda>c. (of_char c :: nat) < 128)) fs"
begin

lemma reparse: "new L v = Inr a \<Longrightarrow> new L (mapping a) = Inr a"
  using new_cong [of "mapping a" v L] new_view view_mapping by metis

lemma body_eq: "new L v = Inr a \<Longrightarrow> pdict (map (\<lambda>k. (k, view v k)) fs) = pdict (map (\<lambda>k. (k, field (mapping a) k)) fs)"
  using new_view by (simp cong: map_cong)

lemma body_get:
  assumes "nfc_ascii L" "k \<in> set fs"
  shows "jget (canonical_form_of L (pdict (map (\<lambda>k. (k, f k)) fs))) k = Some (canonical_form_of L (f k))"
proof -
  have "nfc L x = x" if "x \<in> set fs" for x using nfc_asciiD [OF assms(1)] names that by (simp add: list_all_iff)
  then have "map (\<lambda>x. (nfc L x, canonical_form_of L (f x))) fs = map (\<lambda>x. (x, canonical_form_of L (f x))) fs" by simp
  then have "map_of (map (\<lambda>x. (nfc L x, canonical_form_of L (f x))) fs) k = Some (canonical_form_of L (f k))"
    using assms(2) by (simp only: map_of_map_restrict) simp
  then show ?thesis by (simp add: jget_def canonical_form_pdict comp_def)
qed

text \<open>Two records with the same identifier agree on every other field, up to normalisation.\<close>

lemma binding:
  assumes "nfc_ascii L" "new L v = Inr a" "new L w = Inr b" "field (mapping a) idf = field (mapping b) idf"
    and "contract_no_collision L (pdict (map (\<lambda>k. (k, field (mapping a) k)) fs)) (pdict (map (\<lambda>k. (k, field (mapping b) k)) fs))"
    and "k \<in> set fs"
  shows "sort_keys (canonical_form_of L (field (mapping a) k)) = sort_keys (canonical_form_of L (field (mapping b) k))"
proof -
  note h = new_id [OF assms(2), unfolded body_eq [OF assms(2)]] new_id [OF assms(3), unfolded body_eq [OF assms(3)], folded assms(4)]
  from contract_hash_binding [OF h assms(5)]
  have "map_option sort_keys (jget (canonical_form_of L (pdict (map (\<lambda>k. (k, field (mapping a) k)) fs))) k) =
      map_option sort_keys (jget (canonical_form_of L (pdict (map (\<lambda>k. (k, field (mapping b) k)) fs))) k)"
    by (intro sort_keys_eq_jget) auto
  then show ?thesis by (simp add: body_get [OF assms(1,6)])
qed

text \<open>A record whose values are in normal form is restored from its canonical bytes.\<close>

lemma restore:
  assumes "new L v = Inr a" "mapping a = map (\<lambda>(k, x). (k, json_py x)) kvs"
    and "normal L (JObj kvs)" "\<forall>x\<in>snd ` set kvs. sort_keys x = x"
  shows "\<exists>b. contract_canonical_bytes L (pdict (mapping a)) = Inr b \<and>
     (\<exists>j. loads b = Some j \<and> new L (json_fields j) = Inr a \<and> set (dict_keys (json_fields j)) = set (dict_keys (mapping a)))"
proof -
  let ?j = "JObj kvs"
  have p: "pdict (mapping a) = json_py ?j" by (simp add: assms(2) pdict_def comp_def split_beta)
  have adm: "admissible L False (json_py ?j)" "canonical_form_of L (json_py ?j) = ?j"
    using admissible_json_py [OF assms(3)] canonical_form_json_py [OF assms(3)] by blast+
  obtain b where b: "contract_canonical_bytes L (pdict (mapping a)) = Inr b"
    using contract.to_bytes_eq [of L "json_py ?j"] adm(1) unfolding p contract_canonical_bytes_def by (simp del: json_py.simps)
  then have l: "loads b = Some (sort_keys ?j)"
    using contract.to_bytes_loads [of L "json_py ?j" b] unfolding p contract_canonical_bytes_def adm(2) sort_keys_idem by blast
  have dist: "distinct (map fst kvs)" using assms(3) by simp
  then have "distinct (dict_keys (mapping a))" by (simp add: assms(2) comp_def split_beta)
  have jw: "jwf ?j" using canonical_form_wf [OF adm(1)] unfolding adm(2) .
  have "map_of (json_fields (sort_keys ?j)) k = map_of (mapping a) k" for k
  proof -
    have "map_option sort_keys (map_of kvs k) = map_of kvs k"
      using assms(4) by (cases "map_of kvs k") (auto dest!: map_of_SomeD)
    with jget_sort_keys [OF jw, of k] have "jget (sort_keys ?j) k = map_of kvs k" by (simp add: jget_def)
    then show ?thesis by (simp add: json_fields_def jget_def assms(2) map_of_map)
  qed
  then have f: "map_of (json_fields (sort_keys ?j)) = map_of (mapping a)" by blast
  then have k: "set (dict_keys (json_fields (sort_keys ?j))) = set (dict_keys (mapping a))"
    using dom_map_of_conv_image_fst [of "json_fields (sort_keys ?j)"] dom_map_of_conv_image_fst [of "mapping a"] by simp
  have "new L (json_fields (sort_keys ?j)) = new L (mapping a)"
    by (rule new_cong, rule view_field) (simp only: field_def f)
  with reparse [OF assms(1)] b l k show ?thesis by auto
qed

end

subsection \<open>Tables of encoded records\<close>

text \<open>
  The bounded stores keep, under the identifier of each record, its canonical bytes, and read it
  back by parsing them. The locale states what such a table promises for any encoding that is
  parsed back on valid records.
\<close>

locale byte_table =
  fixes ok :: "'a \<Rightarrow> bool" and enc :: "'a \<Rightarrow> bytes" and dec :: "bytes \<Rightarrow> 'a res" and key :: "'a \<Rightarrow> string"
  assumes dec_enc: "ok a \<Longrightarrow> dec (enc a) = Inr a"
begin

lemma enc_inject: "ok a \<Longrightarrow> ok b \<Longrightarrow> enc a = enc b \<Longrightarrow> a = b"
  by (metis dec_enc sum.inject(2))

lemma lookup:
  assumes "distinct (map key xs)"
  shows "map_of (map (\<lambda>a. (key a, enc a)) xs) k = Some v \<longleftrightarrow> (\<exists>a\<in>set xs. key a = k \<and> v = enc a)"
proof -
  have "distinct (map fst (map (\<lambda>a. (key a, enc a)) xs))" using assms by (simp add: comp_def)
  from map_of_eq_Some_iff [OF this] show ?thesis by auto
qed

lemma lookup_self:
  assumes "distinct (map key xs)" "\<forall>x\<in>set xs. ok x" "ok a" "map_of (map (\<lambda>a. (key a, enc a)) xs) (key a) = Some (enc a)"
  shows "a \<in> set xs"
proof -
  obtain b where b: "b \<in> set xs" "enc a = enc b" using lookup [OF assms(1)] assms(4) by blast
  with assms(2,3) have "a = b" using enc_inject by blast
  with b(1) show ?thesis by simp
qed

lemma dec_all: "\<forall>x\<in>set xs. ok x \<Longrightarrow> mapR (\<lambda>(_, v). dec v) (map (\<lambda>a. (key a, enc a)) xs) = Inr xs"
  by (induction xs) (simp_all add: dec_enc)

end

end
