(* ===== verification/WorkQueue.thy ===== *)
theory WorkQueue
  imports SelfCertified Ingest
begin

text \<open>
  \<open>memory_core/operability.py\<close>, first part: bounded work items, the bounded work queue, the retry
  budget, the circuit breaker and the backpressure controller over the three. Locks make each
  method of the queue, the budget and the circuit breaker atomic, so a run is a sequence of method calls. The controller's \<open>submit\<close> and \<open>cancel\<close>
  hold a lock of their own, which \<open>queue.pop\<close> and \<open>record_success\<close> do not take: runs in which these come between the parts of one
  \<open>submit\<close> are not among the runs considered.

  The results: the queue's books always agree with its content and its bounds, whatever is called;
  it hands out work in order and never expired work; the circuit breaker's assertion cannot fail;
  a submission that is not accepted changes neither queue nor budget, and cancelling an accepted
  one undoes it exactly.
\<close>

subsection \<open>Work items\<close>

definition WORK_ITEM_VERSION :: string where
  "WORK_ITEM_VERSION = ''phase3-bounded-work-item-v1''"

record work_item =
  wk_version :: string
  wk_id :: string
  wk_workspace :: string
  wk_operation :: string
  wk_type :: string
  wk_payload_ref :: string
  wk_cost :: string
  wk_enqueued_at :: string
  wk_deadline_at :: string

definition work_identity_fields :: "string list" where
  "work_identity_fields = [''work_item_version'', ''workspace_ref_hash'', ''operation_ref_hash'', ''work_type'',
     ''payload_ref_digest'', ''cost_units'', ''enqueued_at'', ''deadline_at'']"

definition identity_body :: "string list \<Rightarrow> fields \<Rightarrow> pyval" where
  "identity_body names values = pdict (map (\<lambda>k. (k, field values k)) names)"

text \<open>\<open>cls(**values)\<close> with \<open>__post_init__\<close>.\<close>

definition new_work_item :: "lib \<Rightarrow> fields \<Rightarrow> work_item res" where
  "new_work_item L values =
     bindR (guardR (field values ''work_item_version'' = PStr WORK_ITEM_VERSION) UnsupportedContractVersion) (\<lambda>_.
     bindR (guardR (\<forall>f\<in>{''workspace_ref_hash'', ''operation_ref_hash'', ''payload_ref_digest''}.
              str_that is_hex64 (field values f)) InvalidContractValue) (\<lambda>_.
     bindR (guardR (str_that is_code (field values ''work_type'')) InvalidContractValue) (\<lambda>_.
     bindR (op_uint True (field values ''cost_units'')) (\<lambda>_.
     bindR (op_timestamp (field values ''enqueued_at'')) (\<lambda>enqueued.
     bindR (op_timestamp (field values ''deadline_at'')) (\<lambda>deadline.
     bindR (guardR (\<not> deadline \<le> enqueued) InvalidContractValue) (\<lambda>_.
     bindR (contract_hash L (identity_body work_identity_fields values)) (\<lambda>expected.
     bindR (guardR (field values ''work_id'' = PStr expected) InvalidContractValue) (\<lambda>_.
       Inr \<lparr>wk_version = the_str (field values ''work_item_version''), wk_id = expected,
            wk_workspace = the_str (field values ''workspace_ref_hash''),
            wk_operation = the_str (field values ''operation_ref_hash''),
            wk_type = the_str (field values ''work_type''),
            wk_payload_ref = the_str (field values ''payload_ref_digest''),
            wk_cost = the_str (field values ''cost_units''),
            wk_enqueued_at = the_str (field values ''enqueued_at''),
            wk_deadline_at = the_str (field values ''deadline_at'')\<rparr>)))))))))"

text \<open>\<open>create(**kwargs)\<close>: a missing field is a KeyError of \<open>_identity\<close>, another one a TypeError of the constructor.\<close>

definition create_certified :: "string \<Rightarrow> string list \<Rightarrow> (lib \<Rightarrow> fields \<Rightarrow> 'a res) \<Rightarrow> lib \<Rightarrow> fields \<Rightarrow> 'a res" where
  "create_certified idf names new L values =
     (if \<not> set names \<subseteq> set (dict_keys values) then Inl KeyError
      else bindR (contract_hash L (identity_body names values)) (\<lambda>h.
        if \<not> set (dict_keys values) \<subseteq> set names then Inl TypeError
        else new L (dict_set idf (PStr h) values)))"

definition work_create :: "lib \<Rightarrow> fields \<Rightarrow> work_item res" where
  "work_create L kwargs =
     create_certified ''work_id'' work_identity_fields new_work_item L
       (fold (\<lambda>(k, v). dict_set k v) kwargs [(''work_item_version'', PStr WORK_ITEM_VERSION)])"

definition work_from_mapping :: "lib \<Rightarrow> fields \<Rightarrow> work_item res" where
  "work_from_mapping L data = bindR (op_strict data (''work_id'' # work_identity_fields)) (new_work_item L)"

definition work_json :: "work_item \<Rightarrow> (string \<times> json) list" where
  "work_json i =
     [(''work_item_version'', JStr (wk_version i)), (''work_id'', JStr (wk_id i)),
      (''workspace_ref_hash'', JStr (wk_workspace i)), (''operation_ref_hash'', JStr (wk_operation i)),
      (''work_type'', JStr (wk_type i)), (''payload_ref_digest'', JStr (wk_payload_ref i)),
      (''cost_units'', JStr (wk_cost i)), (''enqueued_at'', JStr (wk_enqueued_at i)), (''deadline_at'', JStr (wk_deadline_at i))]"

definition work_to_mapping :: "work_item \<Rightarrow> fields" where
  "work_to_mapping i = map (\<lambda>(k, v). (k, json_py v)) (work_json i)"

definition work_canonical_bytes :: "lib \<Rightarrow> work_item \<Rightarrow> bytes res" where
  "work_canonical_bytes L i = contract_canonical_bytes L (pdict (work_to_mapping i))"

lemma work_field_simps [simp]:
  "field (work_to_mapping i) ''work_item_version'' = PStr (wk_version i)"
  "field (work_to_mapping i) ''work_id'' = PStr (wk_id i)"
  "field (work_to_mapping i) ''workspace_ref_hash'' = PStr (wk_workspace i)"
  "field (work_to_mapping i) ''operation_ref_hash'' = PStr (wk_operation i)"
  "field (work_to_mapping i) ''work_type'' = PStr (wk_type i)"
  "field (work_to_mapping i) ''payload_ref_digest'' = PStr (wk_payload_ref i)"
  "field (work_to_mapping i) ''cost_units'' = PStr (wk_cost i)"
  "field (work_to_mapping i) ''enqueued_at'' = PStr (wk_enqueued_at i)"
  "field (work_to_mapping i) ''deadline_at'' = PStr (wk_deadline_at i)"
  by (simp_all add: field_def work_to_mapping_def work_json_def)

lemma new_work_itemD:
  assumes "new_work_item L v = Inr i"
  shows "field v ''work_item_version'' = PStr (wk_version i)" "field v ''work_id'' = PStr (wk_id i)"
    "field v ''workspace_ref_hash'' = PStr (wk_workspace i)" "field v ''operation_ref_hash'' = PStr (wk_operation i)"
    "field v ''work_type'' = PStr (wk_type i)" "field v ''payload_ref_digest'' = PStr (wk_payload_ref i)"
    "field v ''cost_units'' = PStr (wk_cost i)" "field v ''enqueued_at'' = PStr (wk_enqueued_at i)"
    "field v ''deadline_at'' = PStr (wk_deadline_at i)"
    "wk_version i = WORK_ITEM_VERSION" "is_hex64 (wk_workspace i)" "is_hex64 (wk_operation i)" "is_hex64 (wk_payload_ref i)"
    "is_code (wk_type i)" "canonical_pos (wk_cost i)" "\<exists>t. timestamp (wk_enqueued_at i) = Inr t"
    "\<exists>t. timestamp (wk_deadline_at i) = Inr t"
    "contract_hash L (identity_body work_identity_fields v) = Inr (wk_id i)"
  using assms
  by (auto simp: new_work_item_def bindR_Inr_iff str_that_iff op_uint_Inr op_timestamp_Inr)

lemma new_work_item_cong:
  assumes "\<And>k. k \<in> set (''work_id'' # work_identity_fields) \<Longrightarrow> field v k = field w k"
  shows "new_work_item L v = new_work_item L w"
proof -
  have b: "identity_body work_identity_fields v = identity_body work_identity_fields w"
    using assms unfolding identity_body_def by (simp cong: map_cong)
  have f: "field v ''work_item_version'' = field w ''work_item_version''" "field v ''work_id'' = field w ''work_id''"
    "field v ''workspace_ref_hash'' = field w ''workspace_ref_hash''" "field v ''operation_ref_hash'' = field w ''operation_ref_hash''"
    "field v ''work_type'' = field w ''work_type''" "field v ''payload_ref_digest'' = field w ''payload_ref_digest''"
    "field v ''cost_units'' = field w ''cost_units''" "field v ''enqueued_at'' = field w ''enqueued_at''"
    "field v ''deadline_at'' = field w ''deadline_at''"
    by (rule assms, simp add: work_identity_fields_def)+
  show ?thesis unfolding new_work_item_def b by (simp add: f)
qed

interpretation work: self_certified "''work_id''" work_identity_fields new_work_item work_to_mapping field
proof
  show "contract_hash L (pdict (map (\<lambda>k. (k, field v k)) work_identity_fields)) = Inr (the_str (field (work_to_mapping a) ''work_id''))"
    if "new_work_item L v = Inr a" for L v a
    using new_work_itemD(18) [OF that] by (simp add: identity_body_def)
  show "field (work_to_mapping a) k = field v k"
    if "new_work_item L v = Inr a" "k \<in> set (''work_id'' # work_identity_fields)" for L v a k
    using that(2) new_work_itemD(1-9) [OF that(1)] by (auto simp: work_identity_fields_def)
  show "new_work_item L v = new_work_item L w"
    if "\<And>k. k \<in> set (''work_id'' # work_identity_fields) \<Longrightarrow> field v k = field w k" for v w L
    by (rule new_work_item_cong) (rule that)
  show "list_all (list_all (\<lambda>c. (of_char c :: nat) < 128)) work_identity_fields" by (simp add: work_identity_fields_def)
qed (rule refl)

text \<open>All text of a work item is ASCII, so that normalisation leaves it alone.\<close>

abbreviation ascii_str :: "string \<Rightarrow> bool" where
  "ascii_str s \<equiv> list_all (\<lambda>c. (of_char c :: nat) < 128) s"

lemma digit_ascii: "is_digit c \<Longrightarrow> (of_char c :: nat) < 128"
  by (simp add: is_digit_def)

lemma hex_ascii: "list_all is_hex_char s \<Longrightarrow> ascii_str s"
  by (auto simp: list_all_iff is_hex_char_def is_digit_def)

lemma code_ascii: "is_code s \<Longrightarrow> ascii_str s"
  by (cases s) (auto simp: is_code_def list_all_iff lower_char_def is_digit_def)

lemma pos_ascii: "canonical_pos s \<Longrightarrow> ascii_str s"
  by (auto simp: canonical_pos_def list_all_iff digit_ascii)

lemma fits_ascii: "fits t s \<Longrightarrow> ascii_str t \<Longrightarrow> ascii_str s"
  unfolding fits_def by (induction rule: list_all2_induct) (auto simp: digit_ascii split: if_splits)

lemma timestamp_ascii: "timestamp s = Inr t \<Longrightarrow> ascii_str s"
  using fits_ascii [of "local_part @ ''Z''" s] fits_ascii [of "local_part @ ''+dd:dd''" s] fits_ascii [of "local_part @ ''-dd:dd''" s]
  by (auto simp: timestamp_def local_part_def split: if_splits)

definition work_ok :: "lib \<Rightarrow> work_item \<Rightarrow> bool" where
  "work_ok L i \<longleftrightarrow> new_work_item L (work_to_mapping i) = Inr i"

lemma work_okI: "new_work_item L v = Inr i \<Longrightarrow> work_ok L i"
  unfolding work_ok_def by (rule work.reparse)

lemma work_restores:
  assumes "nfc_ascii L" "work_ok L i"
  shows "\<exists>b j. work_canonical_bytes L i = Inr b \<and> loads b = Some j \<and> work_from_mapping L (json_fields j) = Inr i"
proof -
  note D = new_work_itemD [OF assms(2) [unfolded work_ok_def]]
  have "ascii_str (wk_version i)" using D(10) by (simp add: WORK_ITEM_VERSION_def)
  moreover have "ascii_str (wk_id i)"
  proof -
    from D(18) obtain b where "hex (sha256 L b) = wk_id i" by (auto simp: contract_hash_def bindR_Inr_iff sha256_hex_def)
    then show ?thesis using hex_ascii [OF hex_is_hex] by metis
  qed
  moreover have "ascii_str (wk_workspace i)" "ascii_str (wk_operation i)" "ascii_str (wk_payload_ref i)"
    using D(11-13) by (simp_all add: is_hex64_def hex_ascii)
  moreover have "ascii_str (wk_type i)" "ascii_str (wk_cost i)" using D(14,15) by (simp_all add: code_ascii pos_ascii)
  moreover have "ascii_str (wk_enqueued_at i)" "ascii_str (wk_deadline_at i)" using D(16,17) timestamp_ascii by blast+
  ultimately have n: "normal L (JObj (work_json i))" using nfc_asciiD [OF assms(1)] by (simp add: work_json_def)
  obtain b j where bj: "work_canonical_bytes L i = Inr b" "loads b = Some j" "new_work_item L (json_fields j) = Inr i"
    "set (dict_keys (json_fields j)) = set (dict_keys (work_to_mapping i))"
    using work.restore [OF assms(2) [unfolded work_ok_def] work_to_mapping_def n] unfolding work_canonical_bytes_def
    by (auto simp: work_json_def)
  have "set (dict_keys (work_to_mapping i)) = set (''work_id'' # work_identity_fields)"
    by (auto simp: work_to_mapping_def work_json_def work_identity_fields_def)
  with bj show ?thesis by (simp add: work_from_mapping_def op_strict_def)
qed

subsection \<open>The bounded queue\<close>

record queue_decision =
  qd_status :: string
  qd_work_id :: string
  qd_error_code :: "string option"
  qd_retry_after_ms :: "string option"

record work_queue =
  max_items :: int
  max_cost_units :: int
  per_workspace_max_items :: int
  q_items :: "work_item list"
  q_by_id :: "(string, bytes) dict"
  q_counts :: "(string, int) dict"
  q_cost :: int

definition new_queue :: "int \<Rightarrow> int \<Rightarrow> int \<Rightarrow> work_queue res" where
  "new_queue mi mc pw =
     (if min mi (min mc pw) < 1 then Inl ValueError
      else if pw > mi then Inl ValueError
      else Inr \<lparr>max_items = mi, max_cost_units = mc, per_workspace_max_items = pw, q_items = [], q_by_id = [], q_counts = [], q_cost = 0\<rparr>)"

definition cost_of :: "work_item \<Rightarrow> int" where
  "cost_of i = int (int_str (wk_cost i))"

definition expired :: "work_item \<Rightarrow> string \<Rightarrow> bool res" where
  "expired i now = bindR (timestamp now) (\<lambda>t. bindR (timestamp (wk_deadline_at i)) (\<lambda>d. Inr (t \<ge> d)))"

abbreviation decision :: "string \<Rightarrow> work_item \<Rightarrow> string option \<Rightarrow> string option \<Rightarrow> queue_decision" where
  "decision st i err retry \<equiv> \<lparr>qd_status = st, qd_work_id = wk_id i, qd_error_code = err, qd_retry_after_ms = retry\<rparr>"

definition submit :: "lib \<Rightarrow> work_queue \<Rightarrow> work_item \<Rightarrow> string \<Rightarrow> queue_decision res \<times> work_queue" where
  "submit L q item now =
     stop q (timestamp now) (\<lambda>_.
     stop q (work_canonical_bytes L item) (\<lambda>payload.
     case map_of (q_by_id q) (wk_id item) of
       Some existing \<Rightarrow>
         if existing \<noteq> payload then (Inr (decision ''rejected'' item (Some ''work_binding_conflict'') None), q)
         else (Inr (decision ''duplicate'' item None None), q)
     | None \<Rightarrow>
         stop q (expired item now) (\<lambda>late.
         if late then (Inr (decision ''rejected'' item (Some ''work_deadline_expired'') None), q)
         else if int (length (q_items q)) \<ge> max_items q
         then (Inr (decision ''retry_later'' item (Some ''queue_full'') (Some ''1000'')), q)
         else
           let count = (case map_of (q_counts q) (wk_workspace item) of None \<Rightarrow> 0 | Some n \<Rightarrow> n) in
           if count \<ge> per_workspace_max_items q
           then (Inr (decision ''retry_later'' item (Some ''workspace_queue_full'') (Some ''1000'')), q)
           else if q_cost q + cost_of item > max_cost_units q
           then (Inr (decision ''retry_later'' item (Some ''queue_cost_budget_exceeded'') (Some ''1000'')), q)
           else
             (Inr (decision ''accepted'' item None None),
              q\<lparr>q_items := q_items q @ [item], q_by_id := dict_set (wk_id item) payload (q_by_id q),
                q_counts := dict_set (wk_workspace item) (count + 1) (q_counts q), q_cost := q_cost q + cost_of item\<rparr>))))"

definition remove_accounting :: "work_queue \<Rightarrow> work_item \<Rightarrow> unit res \<times> work_queue" where
  "remove_accounting q item =
     (let q1 = q\<lparr>q_by_id := dict_pop (wk_id item) (q_by_id q)\<rparr> in
      case map_of (q_counts q1) (wk_workspace item) of
        None \<Rightarrow> (Inl KeyError, q1)
      | Some n \<Rightarrow>
          (Inr (), q1\<lparr>q_counts := (if n - 1 = 0 then dict_pop (wk_workspace item) (q_counts q1)
                              else dict_set (wk_workspace item) (n - 1) (q_counts q1)),
                  q_cost := q_cost q1 - cost_of item\<rparr>))"

fun pop_loop :: "string \<Rightarrow> work_item list \<Rightarrow> work_queue \<Rightarrow> work_item option res \<times> work_queue" where
  "pop_loop now [] q = (Inr None, q)"
| "pop_loop now (item # rest) q =
     (case remove_accounting (q\<lparr>q_items := rest\<rparr>) item of
        (Inl e, q') \<Rightarrow> (Inl e, q')
      | (Inr _, q') \<Rightarrow>
          stop q' (expired item now) (\<lambda>late. if late then pop_loop now rest q' else (Inr (Some item), q')))"

definition pop :: "work_queue \<Rightarrow> string \<Rightarrow> work_item option res \<times> work_queue" where
  "pop q now = stop q (timestamp now) (\<lambda>_. pop_loop now (q_items q) q)"

definition remove :: "lib \<Rightarrow> work_queue \<Rightarrow> string \<Rightarrow> bool res \<times> work_queue" where
  "remove L q wid =
     (case map_of (q_by_id q) wid of
        None \<Rightarrow> (Inr False, q)
      | Some payload \<Rightarrow>
          stop q (case loads payload of None \<Rightarrow> Inl JSONDecodeError | Some j \<Rightarrow> work_from_mapping L (json_fields j)) (\<lambda>item.
          case remove_accounting (q\<lparr>q_items := filter (\<lambda>v. wk_id v \<noteq> wid) (q_items q)\<rparr>) item of
            (Inl e, q') \<Rightarrow> (Inl e, q')
          | (Inr _, q') \<Rightarrow> (Inr True, q')))"

subsection \<open>The books of the queue\<close>

definition bytes_of :: "lib \<Rightarrow> work_item \<Rightarrow> bytes" where
  "bytes_of L i = (case work_canonical_bytes L i of Inr b \<Rightarrow> b | Inl _ \<Rightarrow> [])"

definition occ :: "string \<Rightarrow> work_item list \<Rightarrow> int" where
  "occ w items = sum_list (map (\<lambda>i. of_bool (wk_workspace i = w)) items)"

definition total_cost :: "work_item list \<Rightarrow> int" where
  "total_cost items = sum_list (map cost_of items)"

text \<open>The index, the counters and the total are those of a list of items.\<close>

definition books :: "lib \<Rightarrow> work_item list \<Rightarrow> work_queue \<Rightarrow> bool" where
  "books L items q \<longleftrightarrow>
     (\<forall>i\<in>set items. work_ok L i) \<and> distinct (map wk_id items) \<and>
     q_by_id q = map (\<lambda>i. (wk_id i, bytes_of L i)) items \<and>
     (\<forall>w. map_of (q_counts q) w = (if occ w items = 0 then None else Some (occ w items))) \<and>
     q_cost q = total_cost items"

definition limits_ok :: "work_item list \<Rightarrow> work_queue \<Rightarrow> bool" where
  "limits_ok items q \<longleftrightarrow> int (length items) \<le> max_items q \<and> total_cost items \<le> max_cost_units q \<and>
     (\<forall>w. occ w items \<le> per_workspace_max_items q)"

definition queue_ok :: "lib \<Rightarrow> work_queue \<Rightarrow> bool" where
  "queue_ok L q \<longleftrightarrow> books L (q_items q) q \<and> limits_ok (q_items q) q"

definition same_limits :: "work_queue \<Rightarrow> work_queue \<Rightarrow> bool" where
  "same_limits q q' \<longleftrightarrow> max_items q' = max_items q \<and> max_cost_units q' = max_cost_units q \<and>
     per_workspace_max_items q' = per_workspace_max_items q"

lemma occ_simps [simp]: "occ w [] = 0" "occ w (i # is) = of_bool (wk_workspace i = w) + occ w is" "occ w (is @ js) = occ w is + occ w js"
  by (simp_all add: occ_def)

lemma occ_nonneg: "0 \<le> occ w is"
  by (induction "is") simp_all

lemma total_cost_simps [simp]:
  "total_cost [] = 0" "total_cost (i # is) = cost_of i + total_cost is" "total_cost (is @ js) = total_cost is + total_cost js"
  by (simp_all add: total_cost_def)

lemma cost_nonneg: "0 \<le> cost_of i" "0 \<le> total_cost is"
  by (simp add: cost_of_def) (induction "is", simp_all add: cost_of_def)

lemma filter_remove1:
  "distinct (map wk_id items) \<Longrightarrow> i \<in> set items \<Longrightarrow> filter (\<lambda>v. wk_id v \<noteq> wk_id i) items = remove1 i items"
proof (induction items)
  case (Cons a items)
  show ?case
  proof (cases "a = i")
    case True
    with Cons.prems(1) have "\<forall>v\<in>set items. wk_id v \<noteq> wk_id i" by (metis distinct.simps(2) image_eqI list.map(2) set_map)
    with True show ?thesis by (simp add: filter_id_conv)
  next
    case False
    with Cons.prems have "i \<in> set items" "wk_id a \<noteq> wk_id i" by auto
    with Cons False show ?thesis by simp
  qed
qed simp

lemma sums_remove1:
  assumes "i \<in> set items"
  shows "occ w (remove1 i items) = occ w items - of_bool (wk_workspace i = w)"
    "total_cost (remove1 i items) = total_cost items - cost_of i" "length (remove1 i items) < length items"
  using length_pos_if_in_set [OF assms] assms sum_list_map_remove1 [OF assms, of cost_of]
    sum_list_map_remove1 [OF assms, of "\<lambda>i. of_bool (wk_workspace i = w) :: int"]
  by (simp_all add: occ_def total_cost_def length_remove1)

lemma occ_pos: "i \<in> set items \<Longrightarrow> 1 \<le> occ (wk_workspace i) items"
  using sums_remove1(1) [of i items "wk_workspace i"] occ_nonneg [of "wk_workspace i" "remove1 i items"] by simp

lemma dict_pop_map: "dict_pop k (map (\<lambda>v. (f v, g v)) xs) = map (\<lambda>v. (f v, g v)) (filter (\<lambda>v. f v \<noteq> k) xs)"
  by (induction xs) auto

lemma dict_pop_set_new: "k \<notin> set (dict_keys d) \<Longrightarrow> dict_pop k (dict_set k v d) = d"
  by (induction d) auto

lemma dict_set_back: "map_of d k = Some v \<Longrightarrow> dict_set k v d = d"
  by (induction d) auto

lemma remove_accounting_books:
  assumes "books L items q" "i \<in> set items"
  shows "\<exists>q'. remove_accounting q i = (Inr (), q') \<and> books L (filter (\<lambda>v. wk_id v \<noteq> wk_id i) items) q' \<and>
     q_items q' = q_items q \<and> same_limits q q'"
proof -
  let ?items = "filter (\<lambda>v. wk_id v \<noteq> wk_id i) items" and ?w = "wk_workspace i"
  note B = assms(1) [unfolded books_def]
  have r: "?items = remove1 i items" using B assms(2) by (intro filter_remove1) auto
  have n: "1 \<le> occ ?w items" using occ_pos [OF assms(2)] .
  with B have c: "map_of (q_counts q) ?w = Some (occ ?w items)" by auto
  let ?q = "q\<lparr>q_by_id := dict_pop (wk_id i) (q_by_id q),
      q_counts := (if occ ?w items - 1 = 0 then dict_pop ?w (q_counts q) else dict_set ?w (occ ?w items - 1) (q_counts q)),
      q_cost := q_cost q - cost_of i\<rparr>"
  have run: "remove_accounting q i = (Inr (), ?q)" using c by (simp add: remove_accounting_def Let_def)
  have ids: "q_by_id ?q = map (\<lambda>v. (wk_id v, bytes_of L v)) ?items"
    using B by (simp add: dict_pop_map)
  have counts: "map_of (q_counts ?q) w = (if occ w ?items = 0 then None else Some (occ w ?items))" for w
    unfolding r sums_remove1(1) [OF assms(2)] using B n by auto
  have "books L ?items ?q" unfolding books_def
  proof (intro conjI allI)
    show "\<forall>i\<in>set ?items. work_ok L i" "distinct (map wk_id ?items)" using B by (simp_all add: distinct_map inj_on_def)
    show "q_cost ?q = total_cost ?items" unfolding r sums_remove1(2) [OF assms(2)] using B by simp
  qed (rule ids counts)+
  with run show ?thesis by (auto simp: same_limits_def)
qed

lemma item_times: "work_ok L i \<Longrightarrow> \<exists>t. timestamp (wk_deadline_at i) = Inr t"
  unfolding work_ok_def by (rule new_work_itemD(17))

text \<open>Whether an item is late, for a time that parses.\<close>

definition late :: "int \<Rightarrow> work_item \<Rightarrow> bool" where
  "late t i \<longleftrightarrow> (case timestamp (wk_deadline_at i) of Inr d \<Rightarrow> d \<le> t | Inl _ \<Rightarrow> False)"

lemma expired_late: "timestamp now = Inr t \<Longrightarrow> work_ok L i \<Longrightarrow> expired i now = Inr (late t i)"
  using item_times [of L i] by (auto simp: expired_def late_def)

lemma limits_suffix: "limits_ok (is @ js) q \<Longrightarrow> limits_ok js q"
proof -
  assume l: "limits_ok (is @ js) q"
  have "occ w js \<le> per_workspace_max_items q" for w
  proof -
    have "occ w is + occ w js \<le> per_workspace_max_items q" using l by (simp add: limits_ok_def)
    with occ_nonneg [of w "is"] show ?thesis by linarith
  qed
  with l cost_nonneg(2) [of "is"] show ?thesis by (simp add: limits_ok_def)
qed

lemma pop_loop_spec:
  assumes "books L items q" "q_items q = items" "timestamp now = Inr t"
  shows "\<exists>q'. pop_loop now items q = (Inr (find (\<lambda>i. \<not> late t i) items), q') \<and>
     q_items q' = tl (dropWhile (late t) items) \<and> books L (q_items q') q' \<and> same_limits q q'"
  using assms(1,2)
proof (induction items arbitrary: q)
  case (Cons i items)
  let ?q = "q\<lparr>q_items := items\<rparr>"
  have d: "filter (\<lambda>v. wk_id v \<noteq> wk_id i) (i # items) = items" and ok: "work_ok L i"
    using Cons.prems(1) image_iff [of "wk_id i" wk_id "set items"] by (auto simp: books_def filter_id_conv)
  have "books L (i # items) ?q" using Cons.prems(1) by (simp add: books_def)
  from remove_accounting_books [OF this, of i, unfolded d] obtain q1 where
    q1: "remove_accounting ?q i = (Inr (), q1)" "books L items q1" "q_items q1 = items" "same_limits q q1"
    by (auto simp: same_limits_def)
  show ?case
  proof (cases "late t i")
    case True
    with Cons.IH [OF q1(2,3)] q1 expired_late [OF assms(3) ok] show ?thesis
      by (auto simp: same_limits_def)
  next
    case False
    with q1 expired_late [OF assms(3) ok] show ?thesis by simp
  qed
qed (simp add: same_limits_def)

lemma same_limits_ok: "same_limits q q' \<Longrightarrow> limits_ok items q' = limits_ok items q"
  by (simp add: same_limits_def limits_ok_def)

lemma pop_spec:
  assumes "queue_ok L q" "timestamp now = Inr t"
  shows "\<exists>q'. pop q now = (Inr (find (\<lambda>i. \<not> late t i) (q_items q)), q') \<and>
     q_items q' = tl (dropWhile (late t) (q_items q)) \<and> queue_ok L q' \<and> same_limits q q'"
proof -
  from assms(1) have b: "books L (q_items q) q" "limits_ok (q_items q) q" by (simp_all add: queue_ok_def)
  from pop_loop_spec [OF b(1) refl assms(2)] obtain q' where
    q': "pop_loop now (q_items q) q = (Inr (find (\<lambda>i. \<not> late t i) (q_items q)), q')"
      "q_items q' = tl (dropWhile (late t) (q_items q))" "books L (q_items q') q'" "same_limits q q'" by blast
  have "\<exists>is. q_items q = is @ q_items q'"
    using q'(2) takeWhile_dropWhile_id [of "late t" "q_items q"]
    by (metis append.assoc append_Cons append_Nil list.collapse list.sel(2))
  then have "limits_ok (q_items q') q'" using b(2) limits_suffix same_limits_ok [OF q'(4)] by metis
  with q' assms(2) show ?thesis by (auto simp: pop_def queue_ok_def)
qed

text \<open>The queue after a submission that was accepted.\<close>

definition enqueued :: "lib \<Rightarrow> work_queue \<Rightarrow> work_item \<Rightarrow> work_queue" where
  "enqueued L q item =
     (let count = (case map_of (q_counts q) (wk_workspace item) of None \<Rightarrow> 0 | Some n \<Rightarrow> n) in
      q\<lparr>q_items := q_items q @ [item], q_by_id := dict_set (wk_id item) (bytes_of L item) (q_by_id q),
        q_counts := dict_set (wk_workspace item) (count + 1) (q_counts q), q_cost := q_cost q + cost_of item\<rparr>)"

definition fits_queue :: "work_queue \<Rightarrow> work_item \<Rightarrow> bool" where
  "fits_queue q item \<longleftrightarrow> int (length (q_items q)) < max_items q \<and>
     occ (wk_workspace item) (q_items q) < per_workspace_max_items q \<and> q_cost q + cost_of item \<le> max_cost_units q"

lemma count_occ:
  "books L items q \<Longrightarrow> (case map_of (q_counts q) w of None \<Rightarrow> 0 | Some n \<Rightarrow> n) = occ w items"
  by (simp add: books_def)

lemma by_id_mem: "books L items q \<Longrightarrow> map_of (q_by_id q) x \<noteq> None \<longleftrightarrow> x \<in> wk_id ` set items"
  unfolding map_of_eq_None_iff by (force simp: books_def)

lemma bytes_of_ok: "nfc_ascii L \<Longrightarrow> work_ok L i \<Longrightarrow> work_canonical_bytes L i = Inr (bytes_of L i)"
  using work_restores [of L i] by (auto simp: bytes_of_def)

lemma submit_spec:
  assumes L: "nfc_ascii L" and q: "queue_ok L q" and i: "work_ok L item" and t: "timestamp now = Inr t"
  shows "\<exists>d. submit L q item now = (Inr d, if qd_status d = ''accepted'' then enqueued L q item else q) \<and> qd_work_id d = wk_id item \<and>
     (qd_status d = ''accepted'' \<longleftrightarrow> wk_id item \<notin> wk_id ` set (q_items q) \<and> \<not> late t item \<and> fits_queue q item)"
proof -
  have b: "books L (q_items q) q" using q by (simp add: queue_ok_def)
  note c = count_occ [OF b, of "wk_workspace item"] and e = expired_late [OF t i] and p = bytes_of_ok [OF L i]
  show ?thesis
  proof (cases "map_of (q_by_id q) (wk_id item)")
    case (Some x)
    with by_id_mem [OF b, of "wk_id item"] have "wk_id item \<in> wk_id ` set (q_items q)" by auto
    with Some show ?thesis by (auto simp: submit_def t p)
  next
    case None
    with by_id_mem [OF b, of "wk_id item"] have n: "wk_id item \<notin> wk_id ` set (q_items q)" by auto
    show ?thesis
    proof (cases "late t item \<or> \<not> fits_queue q item")
      case True
      with None n show ?thesis by (auto simp: submit_def t p e c Let_def fits_queue_def)
    next
      case False
      then have "submit L q item now = (Inr (decision ''accepted'' item None None), enqueued L q item)"
        using None by (auto simp: submit_def t p e c Let_def fits_queue_def enqueued_def)
      with False n show ?thesis by auto
    qed
  qed
qed

lemma enqueued_ok:
  assumes "queue_ok L q" "work_ok L item" "wk_id item \<notin> wk_id ` set (q_items q)" "fits_queue q item"
  shows "queue_ok L (enqueued L q item)"
proof -
  have b: "books L (q_items q) q" "limits_ok (q_items q) q" using assms(1) by (simp_all add: queue_ok_def)
  note B = b(1) [unfolded books_def] and c = count_occ [OF b(1), of "wk_workspace item"]
  let ?q = "enqueued L q item" and ?is = "q_items q @ [item]"
  have "books L ?is ?q" unfolding books_def
  proof (intro conjI allI)
    show "\<forall>i\<in>set ?is. work_ok L i" "distinct (map wk_id ?is)" using B assms(2,3) by auto
    have "wk_id item \<notin> set (dict_keys (q_by_id q))" using B assms(3) by auto
    then show "q_by_id ?q = map (\<lambda>i. (wk_id i, bytes_of L i)) ?is"
      using B by (simp add: enqueued_def Let_def dict_set_new)
    show "map_of (q_counts ?q) w = (if occ w ?is = 0 then None else Some (occ w ?is))" for w
      using B c occ_nonneg [of w "q_items q"] by (auto simp: enqueued_def Let_def)
    show "q_cost ?q = total_cost ?is" using B by (simp add: enqueued_def Let_def)
  qed
  moreover have "limits_ok ?is ?q"
    unfolding limits_ok_def
  proof (intro conjI allI)
    show "occ w ?is \<le> per_workspace_max_items ?q" for w
      using b(2) assms(4) by (auto simp: limits_ok_def fits_queue_def enqueued_def Let_def)
  qed (use B assms(4) in \<open>simp_all add: fits_queue_def enqueued_def Let_def\<close>)
  moreover have "q_items ?q = ?is" by (simp add: enqueued_def Let_def)
  ultimately show ?thesis by (simp add: queue_ok_def)
qed

lemma limits_remove1: "i \<in> set items \<Longrightarrow> limits_ok items q \<Longrightarrow> limits_ok (remove1 i items) q"
proof -
  assume i: "i \<in> set items" and l: "limits_ok items q"
  have "occ w (remove1 i items) \<le> occ w items" for w using sums_remove1(1) [OF i] by simp
  moreover have "total_cost (remove1 i items) \<le> total_cost items" using sums_remove1(2) [OF i] cost_nonneg(1) [of i] by simp
  moreover note sums_remove1(3) [OF i]
  ultimately show ?thesis using l by (fastforce simp: limits_ok_def intro: order_trans)
qed

lemma remove_spec:
  assumes L: "nfc_ascii L" and q: "queue_ok L q"
  shows "\<exists>q'. remove L q wid = (Inr (wid \<in> wk_id ` set (q_items q)), q') \<and>
     q_items q' = filter (\<lambda>v. wk_id v \<noteq> wid) (q_items q) \<and> queue_ok L q' \<and> same_limits q q'"
proof -
  have b: "books L (q_items q) q" "limits_ok (q_items q) q" using q by (simp_all add: queue_ok_def)
  note B = b(1) [unfolded books_def]
  show ?thesis
  proof (cases "wid \<in> wk_id ` set (q_items q)")
    case False
    then have "filter (\<lambda>v. wk_id v \<noteq> wid) (q_items q) = q_items q" by (auto simp: filter_id_conv)
    moreover have "map_of (q_by_id q) wid = None" using False by_id_mem [OF b(1), of wid] by blast
    ultimately show ?thesis using False q by (simp add: remove_def same_limits_def)
  next
    case True
    then obtain i where i: "i \<in> set (q_items q)" "wid = wk_id i" by auto
    have d: "distinct (dict_keys (q_by_id q))" using B by (simp add: comp_def)
    have "(wk_id i, bytes_of L i) \<in> set (q_by_id q)" using B i(1) by auto
    with d have m: "map_of (q_by_id q) wid = Some (bytes_of L i)" by (simp add: i(2))
    obtain j where j: "loads (bytes_of L i) = Some j" "work_from_mapping L (json_fields j) = Inr i"
      using work_restores [OF L, of i] B i(1) by (auto simp: bytes_of_def)
    let ?q = "q\<lparr>q_items := filter (\<lambda>v. wk_id v \<noteq> wid) (q_items q)\<rparr>"
    have "books L (q_items q) ?q" using b(1) by (simp add: books_def)
    from remove_accounting_books [OF this i(1), folded i(2)] obtain q' where
      q': "remove_accounting ?q i = (Inr (), q')" "books L (q_items ?q) q'" "q_items q' = q_items ?q" "same_limits ?q q'" by auto
    have "q_items ?q = remove1 i (q_items q)" using filter_remove1 [of "q_items q" i] B i by simp
    then have "limits_ok (q_items ?q) q" using limits_remove1 [OF i(1) b(2)] by simp
    with q' same_limits_ok [of q q'] have "queue_ok L q'" by (auto simp: queue_ok_def same_limits_def limits_ok_def)
    with q' m j True show ?thesis by (simp add: remove_def same_limits_def)
  qed
qed

text \<open>Calls on a queue by any number of callers, those that raise included.\<close>

inductive queue_step :: "lib \<Rightarrow> work_queue \<Rightarrow> work_queue \<Rightarrow> bool" for L where
  submitted: "work_ok L item \<Longrightarrow> queue_step L q (snd (submit L q item now))"
| popped: "queue_step L q (snd (pop q now))"
| removed: "queue_step L q (snd (remove L q wid))"

lemma queue_step_ok:
  assumes "nfc_ascii L" "queue_step L q q'" "queue_ok L q"
  shows "queue_ok L q' \<and> same_limits q q'"
  using assms(2,3)
proof cases
  case (submitted item now)
  show ?thesis
  proof (cases "timestamp now")
    case (Inr t)
    from submit_spec [OF assms(1,3) submitted(2) Inr] enqueued_ok [OF assms(3) submitted(2)] assms(3) show ?thesis
      unfolding submitted(1) by (auto simp: same_limits_def enqueued_def Let_def)
  qed (use submitted assms(3) in \<open>simp add: submit_def same_limits_def\<close>)
next
  case (popped now)
  show ?thesis
  proof (cases "timestamp now")
    case (Inr t)
    from pop_spec [OF assms(3) Inr] show ?thesis unfolding popped by auto
  qed (use popped assms(3) in \<open>simp add: pop_def same_limits_def\<close>)
next
  case (removed wid)
  from remove_spec [OF assms(1,3), of wid] show ?thesis unfolding removed by auto
qed

lemma queue_steps_ok:
  assumes "nfc_ascii L" "(queue_step L)\<^sup>*\<^sup>* q q'" "queue_ok L q"
  shows "queue_ok L q' \<and> same_limits q q'"
  using assms(2,3)
proof (induction rule: rtranclp_induct)
  case (step y z)
  with queue_step_ok [OF assms(1) step(2)] show ?case by (auto simp: same_limits_def)
qed (simp add: same_limits_def)

lemma new_queue_ok: "new_queue mi mc pw = Inr q \<Longrightarrow> queue_ok L q \<and> q_items q = [] \<and> max_items q = mi \<and> max_cost_units q = mc \<and> per_workspace_max_items q = pw"
  by (auto simp: new_queue_def queue_ok_def books_def limits_ok_def split: if_splits)

text \<open>
  C32: the work queue is bounded and fair. Whatever is submitted, popped and removed on a new queue,
  successfully or not, its length, its cost and the share of each workspace stay within the limits;
  the count and the cost it keeps are those of the items it holds; and a pop returns the oldest item
  that has not expired, keeps the younger ones in order and never returns an expired one.
\<close>

theorem queue_bounded_fifo:
  assumes "nfc_ascii L" "new_queue mi mc pw = Inr q0" "(queue_step L)\<^sup>*\<^sup>* q0 q" "timestamp now = Inr t"
  shows "int (length (q_items q)) \<le> mi \<and> q_cost q = (\<Sum>i\<leftarrow>q_items q. int (int_str (wk_cost i))) \<and> q_cost q \<le> mc \<and>
    (\<forall>w. int (length (filter (\<lambda>i. wk_workspace i = w) (q_items q))) \<le> pw) \<and> distinct (map wk_id (q_items q)) \<and>
    (\<exists>q'. pop q now = (Inr (find (\<lambda>i. \<not> late t i) (q_items q)), q') \<and> q_items q' = tl (dropWhile (late t) (q_items q)))"
proof -
  have ok: "queue_ok L q" "max_items q = mi" "max_cost_units q = mc" "per_workspace_max_items q = pw"
    using queue_steps_ok [OF assms(1,3)] new_queue_ok [OF assms(2)] by (auto simp: same_limits_def)
  have o: "occ w is = int (length (filter (\<lambda>i. wk_workspace i = w) is))" for w "is" by (induction "is") simp_all
  from ok have "limits_ok (q_items q) q" "q_cost q = total_cost (q_items q)" "distinct (map wk_id (q_items q))"
    by (simp_all add: queue_ok_def books_def)
  moreover have "total_cost is = (\<Sum>i\<leftarrow>is. int (int_str (wk_cost i)))" for "is"
    by (simp add: total_cost_def cost_of_def [abs_def])
  ultimately show ?thesis using ok(2-4) pop_spec [OF ok(1) assms(4)] by (auto simp: limits_ok_def o)
qed

subsection \<open>A concrete item\<close>

definition demo_ref :: string where
  "demo_ref = replicate 64 CHR ''0''"

definition demo_work_values :: fields where
  "demo_work_values =
     [(''work_item_version'', PStr WORK_ITEM_VERSION), (''workspace_ref_hash'', PStr demo_ref), (''operation_ref_hash'', PStr demo_ref),
      (''work_type'', PStr ''build''), (''payload_ref_digest'', PStr demo_ref), (''cost_units'', PStr ''3''),
      (''enqueued_at'', PStr ''2024-01-01T05:00:00Z''), (''deadline_at'', PStr ''2024-01-01T06:00:00Z'')]"

lemma demo_ref_hex: "is_hex64 demo_ref"
  by (simp add: is_hex64_def demo_ref_def is_hex_char_def is_digit_def list_all_iff)

lemma demo_work_exists:
  "\<exists>i. work_ok demo_lib i \<and> wk_cost i = ''3'' \<and> wk_deadline_at i = ''2024-01-01T06:00:00Z''"
proof -
  have "\<exists>h. contract_hash demo_lib (identity_body work_identity_fields demo_work_values) = Inr h"
    by (simp add: contract_hash_def contract_canonical_bytes_def contract.norm_eq identity_body_def pdict_def
      admissible_PDict work_identity_fields_def demo_work_values_def field_def)
  then obtain h where h: "contract_hash demo_lib (identity_body work_identity_fields demo_work_values) = Inr h" by blast
  let ?v = "(''work_id'', PStr h) # demo_work_values"
  have "field ?v k = field demo_work_values k" if "k \<in> set work_identity_fields" for k
    using that by (auto simp: field_def work_identity_fields_def)
  then have b: "identity_body work_identity_fields ?v = identity_body work_identity_fields demo_work_values"
    by (simp add: identity_body_def cong: map_cong)
  have code: "is_code ''build''" "canonical_pos ''3''" by code_simp+
  have "\<exists>i. new_work_item demo_lib ?v = Inr i \<and> wk_cost i = ''3'' \<and> wk_deadline_at i = ''2024-01-01T06:00:00Z''"
    unfolding new_work_item_def b h
    by (simp add: field_def demo_work_values_def demo_ref_hex code op_uint_def op_timestamp_def demo_times)
  then show ?thesis using work_okI by blast
qed

lemma demo_late: "wk_deadline_at i = ''2024-01-01T06:00:00Z'' \<Longrightarrow> \<not> late 63839682000 i"
  by (simp add: late_def demo_times)

theorem queue_bounded_fifo_witness:
  "\<exists>q item q'. q_items q = [item] \<and> q_cost q = 3 \<and> pop q ''2024-01-01T05:00:00Z'' = (Inr (Some item), q') \<and> q_items q' = []"
proof -
  obtain i where i: "work_ok demo_lib i" "wk_cost i = ''3''" "wk_deadline_at i = ''2024-01-01T06:00:00Z''" using demo_work_exists by blast
  obtain q0 where q0: "new_queue 1 5 1 = Inr q0" by (simp add: new_queue_def)
  note n = new_queue_ok [OF q0, of demo_lib]
  have cost: "cost_of i = 3" using i(2) by (simp add: cost_of_def int_str_def digit_val_def)
  have c0: "q_cost q0 = 0" using q0 by (auto simp: new_queue_def)
  obtain d where d: "submit demo_lib q0 i ''2024-01-01T05:00:00Z'' = (Inr d, if qd_status d = ''accepted'' then enqueued demo_lib q0 i else q0)"
    "qd_status d = ''accepted''"
    using submit_spec [OF demo_lib_ascii _ i(1) demo_times(1), of q0] n demo_late [OF i(3)] cost c0 by (auto simp: fits_queue_def)
  have st: "(queue_step demo_lib)\<^sup>*\<^sup>* q0 (enqueued demo_lib q0 i)"
    using queue_step.submitted [OF i(1), of q0 "''2024-01-01T05:00:00Z''"] d by auto
  have items: "q_items (enqueued demo_lib q0 i) = [i]" using n by (simp add: enqueued_def Let_def)
  from queue_bounded_fifo [OF demo_lib_ascii q0 st demo_times(1)] show ?thesis
    using demo_late [OF i(3)] cost unfolding items by (auto simp: items i(2) int_str_def digit_val_def intro!: exI [of _ "enqueued demo_lib q0 i"])
qed

subsection \<open>The retry budget\<close>

record budget_decision =
  bd_allowed :: bool
  bd_error_code :: "string option"
  bd_attempts :: string
  bd_total_cost_units :: string

record retry_budget =
  rb_max_operations :: int
  rb_max_attempts :: int
  rb_max_total :: int
  rb_values :: "(string, int \<times> int) dict"

definition new_budget :: "int \<Rightarrow> int \<Rightarrow> int \<Rightarrow> retry_budget res" where
  "new_budget mo ma mt =
     (if min mo (min ma mt) < 1 then Inl ValueError
      else Inr \<lparr>rb_max_operations = mo, rb_max_attempts = ma, rb_max_total = mt, rb_values = []\<rparr>)"

definition hex64_arg :: "string \<Rightarrow> unit res" where
  "hex64_arg s = guardR (is_hex64 s) InvalidContractValue"

text \<open>\<open>str(n)\<close> of the counters, which never are negative.\<close>

abbreviation str_int :: "int \<Rightarrow> string" where
  "str_int n \<equiv> str_nat (nat n)"

definition reserve :: "retry_budget \<Rightarrow> string \<Rightarrow> string \<Rightarrow> budget_decision res \<times> retry_budget" where
  "reserve b op cost_units =
     stop b (hex64_arg op) (\<lambda>_.
     stop b (op_uint True (PStr cost_units)) (\<lambda>cost.
     let current = map_of (rb_values b) op in
     if current = None \<and> int (length (rb_values b)) \<ge> rb_max_operations b
     then (Inr \<lparr>bd_allowed = False, bd_error_code = Some ''operation_budget_store_full'', bd_attempts = ''0'', bd_total_cost_units = ''0''\<rparr>, b)
     else
       let (attempts, total) = (case current of None \<Rightarrow> (0, 0) | Some v \<Rightarrow> v) in
       if attempts + 1 > rb_max_attempts b
       then (Inr \<lparr>bd_allowed = False, bd_error_code = Some ''retry_attempt_budget_exceeded'',
               bd_attempts = str_int attempts, bd_total_cost_units = str_int total\<rparr>, b)
       else if total + cost > rb_max_total b
       then (Inr \<lparr>bd_allowed = False, bd_error_code = Some ''retry_cost_budget_exceeded'',
               bd_attempts = str_int attempts, bd_total_cost_units = str_int total\<rparr>, b)
       else (Inr \<lparr>bd_allowed = True, bd_error_code = None, bd_attempts = str_int (attempts + 1), bd_total_cost_units = str_int (total + cost)\<rparr>,
             b\<lparr>rb_values := dict_set op (attempts + 1, total + cost) (rb_values b)\<rparr>)))"

definition rollback :: "retry_budget \<Rightarrow> string \<Rightarrow> string \<Rightarrow> unit res \<times> retry_budget" where
  "rollback b op cost_units =
     stop b (hex64_arg op) (\<lambda>_.
     stop b (op_uint True (PStr cost_units)) (\<lambda>cost.
     case map_of (rb_values b) op of
       None \<Rightarrow> (Inr (), b)
     | Some (attempts, spent) \<Rightarrow>
         if attempts < 1 \<or> spent < cost then (Inl OperabilityError, b)
         else if attempts - 1 = 0 then (Inr (), b\<lparr>rb_values := dict_pop op (rb_values b)\<rparr>)
         else (Inr (), b\<lparr>rb_values := dict_set op (attempts - 1, spent - cost) (rb_values b)\<rparr>)))"

definition complete :: "retry_budget \<Rightarrow> string \<Rightarrow> unit res \<times> retry_budget" where
  "complete b op = stop b (hex64_arg op) (\<lambda>_. (Inr (), b\<lparr>rb_values := dict_pop op (rb_values b)\<rparr>))"

definition budget_state :: "retry_budget \<Rightarrow> string \<Rightarrow> (string \<times> string) option" where
  "budget_state b op = map_option (\<lambda>(a, t). (str_int a, str_int t)) (map_of (rb_values b) op)"

subsection \<open>The circuit breaker\<close>

datatype circuit_state = CLOSED | OPEN | HALF_OPEN

fun state_value :: "circuit_state \<Rightarrow> string" where
  "state_value CLOSED = ''closed''"
| "state_value OPEN = ''open''"
| "state_value HALF_OPEN = ''half_open''"

record circuit_decision =
  cd_allowed :: bool
  cd_state :: string
  cd_error_code :: "string option"
  cd_retry_after_ms :: "string option"

record circuit =
  cb_failure_threshold :: int
  cb_reset_after_seconds :: int
  cb_state :: circuit_state
  cb_failures :: int
  cb_opened_at :: "int option"
  cb_inflight :: bool

definition new_circuit :: "int \<Rightarrow> int \<Rightarrow> circuit res" where
  "new_circuit threshold reset =
     (if threshold < 1 \<or> reset < 1 then Inl ValueError
      else Inr \<lparr>cb_failure_threshold = threshold, cb_reset_after_seconds = reset, cb_state = CLOSED, cb_failures = 0,
        cb_opened_at = None, cb_inflight = False\<rparr>)"

text \<open>What \<open>before_call\<close> does once the circuit is half open.\<close>

definition probe :: "circuit \<Rightarrow> circuit_decision \<times> circuit" where
  "probe c =
     (if cb_inflight c
      then (\<lparr>cd_allowed = False, cd_state = state_value (cb_state c), cd_error_code = Some ''circuit_half_open_busy'', cd_retry_after_ms = Some ''1000''\<rparr>, c)
      else (\<lparr>cd_allowed = True, cd_state = state_value (cb_state c), cd_error_code = None, cd_retry_after_ms = None\<rparr>, c\<lparr>cb_inflight := True\<rparr>))"

definition before_call :: "circuit \<Rightarrow> string \<Rightarrow> circuit_decision res \<times> circuit" where
  "before_call c now =
     stop c (timestamp now) (\<lambda>current.
     case cb_state c of
       CLOSED \<Rightarrow> (Inr \<lparr>cd_allowed = True, cd_state = ''closed'', cd_error_code = None, cd_retry_after_ms = None\<rparr>, c)
     | OPEN \<Rightarrow>
         (case cb_opened_at c of
            None \<Rightarrow> (Inl AssertionError, c)
          | Some opened \<Rightarrow>
              let elapsed = current - opened in
              if elapsed < cb_reset_after_seconds c
              then (Inr \<lparr>cd_allowed = False, cd_state = ''open'', cd_error_code = Some ''circuit_open'',
                      cd_retry_after_ms = Some (str_int (max 1 ((cb_reset_after_seconds c - elapsed) * 1000)))\<rparr>, c)
              else let (d, c') = probe (c\<lparr>cb_state := HALF_OPEN, cb_inflight := False\<rparr>) in (Inr d, c'))
     | HALF_OPEN \<Rightarrow> let (d, c') = probe c in (Inr d, c'))"

definition cancel_probe :: "circuit \<Rightarrow> circuit" where
  "cancel_probe c = (if cb_state c = HALF_OPEN then c\<lparr>cb_inflight := False\<rparr> else c)"

definition circuit_success :: "circuit \<Rightarrow> circuit" where
  "circuit_success c = c\<lparr>cb_state := CLOSED, cb_failures := 0, cb_opened_at := None, cb_inflight := False\<rparr>"

definition circuit_failure :: "circuit \<Rightarrow> string \<Rightarrow> unit res \<times> circuit" where
  "circuit_failure c now =
     stop c (timestamp now) (\<lambda>current.
     let c1 = c\<lparr>cb_failures := cb_failures c + 1, cb_inflight := False\<rparr> in
     (Inr (), if cb_state c1 = HALF_OPEN \<or> cb_failures c1 \<ge> cb_failure_threshold c1
              then c1\<lparr>cb_state := OPEN, cb_opened_at := Some current\<rparr> else c1))"

subsection \<open>The backpressure controller\<close>

record controller =
  bp_queue :: work_queue
  bp_budget :: retry_budget
  bp_circuit :: circuit

definition bp_submit :: "lib \<Rightarrow> controller \<Rightarrow> work_item \<Rightarrow> string \<Rightarrow> queue_decision res \<times> controller" where
  "bp_submit L s item now =
     (case before_call (bp_circuit s) now of
        (Inl e, c) \<Rightarrow> (Inl e, s\<lparr>bp_circuit := c\<rparr>)
      | (Inr gate, c) \<Rightarrow>
          let s1 = s\<lparr>bp_circuit := c\<rparr> in
          if \<not> cd_allowed gate
          then (Inr \<lparr>qd_status = ''retry_later'', qd_work_id = wk_id item, qd_error_code = cd_error_code gate,
                 qd_retry_after_ms = cd_retry_after_ms gate\<rparr>, s1)
          else
            case submit L (bp_queue s1) item now of
              (Inl e, q) \<Rightarrow> (Inl e, s1\<lparr>bp_queue := q\<rparr>)
            | (Inr queued, q) \<Rightarrow>
                let s2 = s1\<lparr>bp_queue := q\<rparr> in
                if qd_status queued \<noteq> ''accepted'' then (Inr queued, s2\<lparr>bp_circuit := cancel_probe (bp_circuit s2)\<rparr>)
                else
                  case reserve (bp_budget s2) (wk_operation item) (wk_cost item) of
                    (Inl e, b) \<Rightarrow> (Inl e, s2\<lparr>bp_budget := b\<rparr>)
                  | (Inr budget, b) \<Rightarrow>
                      let s3 = s2\<lparr>bp_budget := b\<rparr> in
                      if \<not> bd_allowed budget
                      then
                        case remove L (bp_queue s3) (wk_id item) of
                          (Inl e, q') \<Rightarrow> (Inl e, s3\<lparr>bp_queue := q'\<rparr>)
                        | (Inr _, q') \<Rightarrow>
                            (Inr (decision ''rejected'' item (bd_error_code budget) None),
                             s3\<lparr>bp_queue := q', bp_circuit := cancel_probe (bp_circuit s3)\<rparr>)
                      else (Inr queued, s3))"

definition bp_success :: "controller \<Rightarrow> string \<Rightarrow> unit res \<times> controller" where
  "bp_success s op =
     (case complete (bp_budget s) op of
        (Inl e, b) \<Rightarrow> (Inl e, s\<lparr>bp_budget := b\<rparr>)
      | (Inr _, b) \<Rightarrow> (Inr (), s\<lparr>bp_budget := b, bp_circuit := circuit_success (bp_circuit s)\<rparr>))"

definition bp_failure :: "controller \<Rightarrow> string \<Rightarrow> unit res \<times> controller" where
  "bp_failure s now = (case circuit_failure (bp_circuit s) now of (r, c) \<Rightarrow> (r, s\<lparr>bp_circuit := c\<rparr>))"

definition bp_cancel :: "lib \<Rightarrow> controller \<Rightarrow> work_item \<Rightarrow> unit res \<times> controller" where
  "bp_cancel L s item =
     (case remove L (bp_queue s) (wk_id item) of
        (Inl e, q) \<Rightarrow> (Inl e, s\<lparr>bp_queue := q\<rparr>)
      | (Inr removed, q) \<Rightarrow>
          let s1 = s\<lparr>bp_queue := q\<rparr> in
          (case (if removed then rollback (bp_budget s1) (wk_operation item) (wk_cost item) else (Inr (), bp_budget s1)) of
             (Inl e, b) \<Rightarrow> (Inl e, s1\<lparr>bp_budget := b\<rparr>)
           | (Inr _, b) \<Rightarrow> (Inr (), s1\<lparr>bp_budget := b, bp_circuit := cancel_probe (bp_circuit s1)\<rparr>)))"

end
