(* ===== verification/Backpressure.thy ===== *)
theory Backpressure
  imports WorkQueue
begin

text \<open>
  Properties of the retry budget, the circuit breaker and the backpressure controller of
  \<open>memory_core/operability.py\<close> (their definitions are in theory \<open>WorkQueue\<close>).
\<close>

subsection \<open>The circuit breaker\<close>

definition circuit_inv :: "circuit \<Rightarrow> bool" where
  "circuit_inv c \<longleftrightarrow> (cb_state c = OPEN \<longrightarrow> cb_opened_at c \<noteq> None) \<and> (cb_inflight c \<longrightarrow> cb_state c = HALF_OPEN) \<and>
     0 \<le> cb_failures c \<and> 1 \<le> cb_failure_threshold c \<and> 1 \<le> cb_reset_after_seconds c"

inductive circuit_step :: "circuit \<Rightarrow> circuit \<Rightarrow> bool" where
  call: "circuit_step c (snd (before_call c now))"
| cancel: "circuit_step c (cancel_probe c)"
| success: "circuit_step c (circuit_success c)"
| failure: "circuit_step c (snd (circuit_failure c now))"

lemma before_call_inv: "circuit_inv c \<Longrightarrow> circuit_inv (snd (before_call c now))"
  by (cases "timestamp now"; cases "cb_state c")
    (auto simp: circuit_inv_def before_call_def probe_def Let_def split: option.splits prod.splits if_splits)

lemma circuit_step_inv: "circuit_step c c' \<Longrightarrow> circuit_inv c \<Longrightarrow> circuit_inv c'"
proof (induction rule: circuit_step.induct)
  case (failure c now)
  then show ?case by (cases "timestamp now") (auto simp: circuit_inv_def circuit_failure_def Let_def)
qed (simp_all add: before_call_inv, simp_all add: circuit_inv_def cancel_probe_def circuit_success_def)

lemma new_circuit_inv: "new_circuit th rs = Inr c \<Longrightarrow> circuit_inv c"
  by (auto simp: new_circuit_def circuit_inv_def split: if_splits)

lemma circuit_reachable_inv: "new_circuit th rs = Inr c0 \<Longrightarrow> circuit_step\<^sup>*\<^sup>* c0 c \<Longrightarrow> circuit_inv c"
  by (rotate_tac, induction rule: rtranclp_induct) (auto intro: new_circuit_inv circuit_step_inv)

text \<open>
  the circuit breaker. In every reachable state its assertion holds; while it is open and the
  reset time has not elapsed no call is admitted and nothing changes; and once it has admitted a
  probe, every later call, at whatever time, is refused until the probe succeeds, fails or is
  cancelled.
\<close>

theorem circuit_admits_one_probe:
  assumes "new_circuit threshold reset = Inr c0" "circuit_step\<^sup>*\<^sup>* c0 c" "timestamp now = Inr t"
  shows "\<exists>d c1. before_call c now = (Inr d, c1) \<and>
     (cb_state c = OPEN \<and> t - the (cb_opened_at c) < reset \<longrightarrow> \<not> cd_allowed d \<and> c1 = c) \<and>
     (cd_allowed d \<and> cb_state c \<noteq> CLOSED \<longrightarrow>
        (\<forall>later t'. timestamp later = Inr t' \<longrightarrow>
           (\<exists>d'. before_call c1 later = (Inr d', c1) \<and> \<not> cd_allowed d' \<and> cd_error_code d' = Some ''circuit_half_open_busy'')))"
proof -
  have inv: "circuit_inv c" by (rule circuit_reachable_inv [OF assms(1,2)])
  have rs: "cb_reset_after_seconds c = reset"
    using assms(2)
  proof (induction rule: rtranclp_induct)
    case base
    show ?case using assms(1) by (auto simp: new_circuit_def split: if_splits)
  next
    case (step y z)
    have "cb_reset_after_seconds z = cb_reset_after_seconds y"
      using step(2)
    proof cases
      case (call now)
      then show ?thesis by (cases "timestamp now"; cases "cb_state y")
        (auto simp: before_call_def probe_def Let_def split: option.splits prod.splits if_splits)
    next
      case (failure now)
      then show ?thesis by (cases "timestamp now") (auto simp: circuit_failure_def Let_def)
    qed (simp_all add: cancel_probe_def circuit_success_def)
    with step(3) show ?case by simp
  qed
  show ?thesis
  proof (cases "cb_state c")
    case OPEN
    with inv obtain opened where "cb_opened_at c = Some opened" by (auto simp: circuit_inv_def)
    with OPEN rs assms(3) show ?thesis by (auto simp: before_call_def probe_def Let_def)
  qed (use assms(3) rs in \<open>auto simp: before_call_def probe_def Let_def\<close>)
qed

subsection \<open>The retry budget\<close>

definition budget_ok :: "retry_budget \<Rightarrow> bool" where
  "budget_ok b \<longleftrightarrow> int (length (rb_values b)) \<le> rb_max_operations b \<and>
     (\<forall>op a t. map_of (rb_values b) op = Some (a, t) \<longrightarrow> 1 \<le> a \<and> a \<le> rb_max_attempts b \<and> 0 \<le> t \<and> t \<le> rb_max_total b)"

definition same_budget_limits :: "retry_budget \<Rightarrow> retry_budget \<Rightarrow> bool" where
  "same_budget_limits b b' \<longleftrightarrow> rb_max_operations b' = rb_max_operations b \<and> rb_max_attempts b' = rb_max_attempts b \<and> rb_max_total b' = rb_max_total b"

lemma length_pop_le: "length (dict_pop k d) \<le> length d"
  by (rule length_delete_le)

lemma uint_nonneg: "op_uint p v = Inr n \<Longrightarrow> 0 \<le> n"
  by (cases v) (auto simp: op_uint_def split: if_splits)

lemma reserve_cases:
  obtains (error) e where "reserve b op cost_units = (Inl e, b)"
  | (refused) d where "reserve b op cost_units = (Inr d, b)" "\<not> bd_allowed d"
  | (granted) d cost a t where "reserve b op cost_units = (Inr d, b\<lparr>rb_values := dict_set op (a + 1, t + cost) (rb_values b)\<rparr>)" "bd_allowed d"
      "is_hex64 op" "op_uint True (PStr cost_units) = Inr cost" "a + 1 \<le> rb_max_attempts b" "t + cost \<le> rb_max_total b"
      "map_of (rb_values b) op = None \<and> a = 0 \<and> t = 0 \<and> int (length (rb_values b)) < rb_max_operations b \<or> map_of (rb_values b) op = Some (a, t)"
proof (cases "is_hex64 op")
  case False
  then show ?thesis using error by (simp add: reserve_def hex64_arg_def)
next
  case True
  show ?thesis
  proof (cases "op_uint True (PStr cost_units)")
    case (Inl e)
    with True show ?thesis using error by (simp add: reserve_def hex64_arg_def)
  next
    case (Inr cost)
    note run = reserve_def [of b op cost_units, unfolded hex64_arg_def Inr]
    obtain a t where at: "(case map_of (rb_values b) op of None \<Rightarrow> (0, 0) | Some v \<Rightarrow> v) = (a, t)" by fastforce
    consider (full) "map_of (rb_values b) op = None" "int (length (rb_values b)) \<ge> rb_max_operations b"
      | (over) "\<not> (map_of (rb_values b) op = None \<and> int (length (rb_values b)) \<ge> rb_max_operations b)"
          "a + 1 > rb_max_attempts b \<or> t + cost > rb_max_total b"
      | (room) "\<not> (map_of (rb_values b) op = None \<and> int (length (rb_values b)) \<ge> rb_max_operations b)"
          "a + 1 \<le> rb_max_attempts b" "t + cost \<le> rb_max_total b"
      by linarith
    then show ?thesis
    proof cases
      case full
      then have "\<exists>d. reserve b op cost_units = (Inr d, b) \<and> \<not> bd_allowed d" unfolding run using True by simp
      then show ?thesis using refused by blast
    next
      case over
      then have "\<exists>d. reserve b op cost_units = (Inr d, b) \<and> \<not> bd_allowed d"
        unfolding run Let_def at using True by (auto simp del: de_Morgan_conj)
      then show ?thesis using refused by blast
    next
      case room
      then have "\<exists>d. reserve b op cost_units = (Inr d, b\<lparr>rb_values := dict_set op (a + 1, t + cost) (rb_values b)\<rparr>) \<and> bd_allowed d"
        unfolding run Let_def at using True by (simp del: de_Morgan_conj)
      moreover have "map_of (rb_values b) op = None \<and> a = 0 \<and> t = 0 \<and> int (length (rb_values b)) < rb_max_operations b \<or>
          map_of (rb_values b) op = Some (a, t)" using room(1) at by (cases "map_of (rb_values b) op") auto
      ultimately show ?thesis using granted True Inr room by blast
    qed
  qed
qed

lemma budget_okD: "budget_ok b \<Longrightarrow> map_of (rb_values b) op = Some (a, t) \<Longrightarrow> 1 \<le> a \<and> a \<le> rb_max_attempts b \<and> 0 \<le> t \<and> t \<le> rb_max_total b"
  unfolding budget_ok_def by blast

lemma reserve_ok: "budget_ok b \<Longrightarrow> budget_ok (snd (reserve b op c)) \<and> same_budget_limits b (snd (reserve b op c))"
proof (cases rule: reserve_cases [of b op c])
  case (granted d cost a t)
  assume ok: "budget_ok b"
  have n: "1 \<le> a + 1" "0 \<le> t + cost" using granted(7) budget_okD [OF ok, of op a t] uint_nonneg [OF granted(4)] by auto
  have "int (length (dict_set op (a + 1, t + cost) (rb_values b))) \<le> rb_max_operations b"
    using granted(7) ok map_of_eq_None_iff [of "rb_values b" op] by (auto simp: length_dict_set budget_ok_def)
  with n granted ok show ?thesis by (auto simp: budget_ok_def same_budget_limits_def)
qed (simp_all add: same_budget_limits_def)

lemma reserve_rollback:
  assumes "budget_ok b" "reserve b op c = (Inr d, b')" "bd_allowed d"
  shows "rollback b' op c = (Inr (), b)"
proof (cases rule: reserve_cases [of b op c])
  case (granted d' cost a t)
  have b': "b' = b\<lparr>rb_values := dict_set op (a + 1, t + cost) (rb_values b)\<rparr>" using granted(1) assms(2) by simp
  note c = uint_nonneg [OF granted(4)]
  from granted(7) show ?thesis
  proof
    assume "map_of (rb_values b) op = None \<and> a = 0 \<and> t = 0 \<and> int (length (rb_values b)) < rb_max_operations b"
    then have "dict_pop op (dict_set op (a + 1, t + cost) (rb_values b)) = rb_values b" "a = 0" "t = 0"
      by (simp_all add: dict_pop_set_new map_of_eq_None_iff)
    with granted(3,4) c show ?thesis by (simp add: rollback_def b' hex64_arg_def)
  next
    assume m: "map_of (rb_values b) op = Some (a, t)"
    then have "1 \<le> a" "0 \<le> t" using assms(1) by (auto simp: budget_ok_def)
    with m granted(3,4) c dict_set_back [OF m] show ?thesis by (simp add: rollback_def b' hex64_arg_def)
  qed
qed (use assms in auto)

lemma rollback_ok: "budget_ok b \<Longrightarrow> budget_ok (snd (rollback b op c)) \<and> same_budget_limits b (snd (rollback b op c))"
proof (cases "is_hex64 op \<and> (\<exists>cost. op_uint True (PStr c) = Inr cost) \<and> map_of (rb_values b) op \<noteq> None")
  case True
  then obtain cost a t where c: "is_hex64 op" "op_uint True (PStr c) = Inr cost" and m: "map_of (rb_values b) op = Some (a, t)" by auto
  assume ok: "budget_ok b"
  note n = budget_okD [OF ok m] uint_nonneg [OF c(2)]
  have l: "int (length (dict_pop op (rb_values b))) \<le> rb_max_operations b" "int (length (dict_set op x (rb_values b))) \<le> rb_max_operations b" for x
    using ok length_pop_le [of op "rb_values b"] m map_of_eq_None_iff [of "rb_values b" op] by (auto simp: budget_ok_def length_dict_set)
  show ?thesis
  proof (cases "t < cost \<or> a - 1 = 0")
    case True
    with ok c m n l(1) show ?thesis by (auto simp: rollback_def hex64_arg_def budget_ok_def same_budget_limits_def)
  next
    case False
    with c m n have "snd (rollback b op c) = b\<lparr>rb_values := dict_set op (a - 1, t - cost) (rb_values b)\<rparr>"
      by (simp add: rollback_def hex64_arg_def)
    with False ok n l(2) show ?thesis by (auto simp: budget_ok_def same_budget_limits_def)
  qed
next
  case False
  assume ok: "budget_ok b"
  have "snd (rollback b op c) = b" using False
    by (cases "is_hex64 op"; cases "op_uint True (PStr c)"; cases "map_of (rb_values b) op") (simp_all add: rollback_def hex64_arg_def)
  with ok show ?thesis by (simp add: same_budget_limits_def)
qed

lemma complete_ok: "budget_ok b \<Longrightarrow> budget_ok (snd (complete b op)) \<and> same_budget_limits b (snd (complete b op))"
  using length_pop_le [of op "rb_values b"]
  by (cases "is_hex64 op") (auto simp: complete_def hex64_arg_def budget_ok_def same_budget_limits_def)

subsection \<open>The controller\<close>

lemma enqueued_remove:
  assumes L: "nfc_ascii L" and q: "queue_ok L q" and i: "work_ok L item" and new: "wk_id item \<notin> wk_id ` set (q_items q)"
  shows "remove L (enqueued L q item) (wk_id item) = (Inr True, q)"
proof -
  have b: "books L (q_items q) q" using q by (simp add: queue_ok_def)
  note B = b [unfolded books_def]
  let ?w = "wk_workspace item" and ?q = "enqueued L q item"
  obtain j where j: "loads (bytes_of L item) = Some j" "work_from_mapping L (json_fields j) = Inr item"
    using work_restores [OF L i] by (auto simp: bytes_of_def)
  have f: "filter (\<lambda>v. wk_id v \<noteq> wk_id item) (q_items q) = q_items q" using new by (auto simp: filter_id_conv image_iff)
  have "wk_id item \<notin> set (dict_keys (q_by_id q))" using B new by auto
  then have ids: "dict_pop (wk_id item) (q_by_id ?q) = q_by_id q" by (simp add: enqueued_def Let_def dict_pop_set_new)
  have counts: "map_of (q_counts ?q) ?w = Some (occ ?w (q_items q) + 1)" "q_counts ?q = dict_set ?w (occ ?w (q_items q) + 1) (q_counts q)"
    using count_occ [OF b, of ?w] by (simp_all add: enqueued_def Let_def)
  have C: "(if occ ?w (q_items q) + 1 - 1 = 0 then dict_pop ?w (q_counts ?q) else dict_set ?w (occ ?w (q_items q) + 1 - 1) (q_counts ?q)) = q_counts q"
  proof (cases "occ ?w (q_items q) = 0")
    case True
    then have "?w \<notin> set (dict_keys (q_counts q))" using B map_of_eq_None_iff [of "q_counts q" ?w] by auto
    with True counts(2) show ?thesis by (simp add: dict_pop_set_new)
  next
    case False
    then have "map_of (q_counts q) ?w = Some (occ ?w (q_items q))" using B by simp
    with False counts(2) show ?thesis by (simp add: dict_set_back)
  qed
  have "remove_accounting (?q\<lparr>q_items := q_items q\<rparr>) item =
      (Inr (), ?q\<lparr>q_items := q_items q, q_by_id := q_by_id q, q_counts := q_counts q, q_cost := q_cost ?q - cost_of item\<rparr>)"
    unfolding remove_accounting_def Let_def using counts(1) C ids
    by (cases "occ ?w (q_items q) = 0") simp_all
  also have "\<dots> = (Inr (), q)" by (simp add: enqueued_def Let_def)
  finally have "remove_accounting (?q\<lparr>q_items := q_items q\<rparr>) item = (Inr (), q)" .
  moreover have "map_of (q_by_id ?q) (wk_id item) = Some (bytes_of L item)" "q_items ?q = q_items q @ [item]"
    by (simp_all add: enqueued_def Let_def)
  ultimately show ?thesis using j by (simp add: remove_def f)
qed

definition controller_ok :: "lib \<Rightarrow> controller \<Rightarrow> bool" where
  "controller_ok L s \<longleftrightarrow> queue_ok L (bp_queue s) \<and> budget_ok (bp_budget s) \<and> circuit_inv (bp_circuit s)"

lemma cancel_probe_inv: "circuit_inv c \<Longrightarrow> circuit_inv (cancel_probe c)"
  by (simp add: circuit_inv_def cancel_probe_def)

lemma work_reserve_defined:
  assumes "work_ok L item" shows "\<exists>d. fst (reserve b (wk_operation item) (wk_cost item)) = Inr d"
proof -
  note D = new_work_itemD [OF assms [unfolded work_ok_def]]
  have "\<exists>n. op_uint True (PStr (wk_cost item)) = Inr n"
    using assms by (auto simp: work_ok_def new_work_item_def bindR_Inr_iff)
  with D(12) show ?thesis by (auto simp: reserve_def hex64_arg_def Let_def split: prod.splits)
qed

lemma before_call_total:
  assumes "circuit_inv c" "timestamp now = Inr t"
  shows "\<exists>d c'. before_call c now = (Inr d, c') \<and> (\<not> cd_allowed d \<longrightarrow> c' = c) \<and> (cb_state c' = HALF_OPEN \<or> \<not> cb_inflight c')"
proof (cases "cb_state c")
  case OPEN
  with assms(1) obtain opened where "cb_opened_at c = Some opened" by (auto simp: circuit_inv_def)
  with OPEN assms show ?thesis
    by (cases "t - opened < cb_reset_after_seconds c") (simp_all add: before_call_def probe_def Let_def circuit_inv_def)
qed (use assms in \<open>simp_all add: before_call_def probe_def Let_def circuit_inv_def\<close>)

text \<open>How a submission ends: refused without a trace, or accepted with the item queued and its cost reserved.\<close>

lemma bp_submit_spec:
  assumes L: "nfc_ascii L" and s: "controller_ok L s" and i: "work_ok L item" and t: "timestamp now = Inr t"
  shows "\<exists>d c. bp_submit L s item now = (Inr d, s\<lparr>bp_circuit := c\<rparr>) \<and> qd_status d \<noteq> ''accepted'' \<and> circuit_inv c \<and>
       (cb_inflight c \<longrightarrow> cb_inflight (bp_circuit s)) \<or>
     (\<exists>d b c bd. bp_submit L s item now = (Inr d, \<lparr>bp_queue = enqueued L (bp_queue s) item, bp_budget = b, bp_circuit = c\<rparr>) \<and>
       qd_status d = ''accepted'' \<and> circuit_inv c \<and> reserve (bp_budget s) (wk_operation item) (wk_cost item) = (Inr bd, b) \<and> bd_allowed bd \<and>
       wk_id item \<notin> wk_id ` set (q_items (bp_queue s)) \<and> fits_queue (bp_queue s) item)"
proof -
  have inv: "queue_ok L (bp_queue s)" "circuit_inv (bp_circuit s)" using s by (simp_all add: controller_ok_def)
  obtain gate c where g: "before_call (bp_circuit s) now = (Inr gate, c)"
    "\<not> cd_allowed gate \<longrightarrow> c = bp_circuit s" "cb_state c = HALF_OPEN \<or> \<not> cb_inflight c"
    using before_call_total [OF inv(2) t] by blast
  have ci: "circuit_inv c" using before_call_inv [OF inv(2), of now] g(1) by simp
  have cc: "circuit_inv (cancel_probe c)" "\<not> cb_inflight (cancel_probe c)" using ci g(3) by (auto simp: cancel_probe_def circuit_inv_def)
  obtain d where d: "submit L (bp_queue s) item now = (Inr d, if qd_status d = ''accepted'' then enqueued L (bp_queue s) item else bp_queue s)"
    "qd_status d = ''accepted'' \<longrightarrow> wk_id item \<notin> wk_id ` set (q_items (bp_queue s)) \<and> fits_queue (bp_queue s) item"
    using submit_spec [OF L inv(1) i t] by blast
  obtain bd b where r: "reserve (bp_budget s) (wk_operation item) (wk_cost item) = (Inr bd, b)" "\<not> bd_allowed bd \<longrightarrow> b = bp_budget s"
    using work_reserve_defined [OF i, of "bp_budget s"] by (cases rule: reserve_cases [of "bp_budget s" "wk_operation item" "wk_cost item"]) auto
  consider "\<not> cd_allowed gate" | "cd_allowed gate" "qd_status d \<noteq> ''accepted''"
    | "cd_allowed gate" "qd_status d = ''accepted''" "\<not> bd_allowed bd" | "cd_allowed gate" "qd_status d = ''accepted''" "bd_allowed bd" by blast
  then show ?thesis
  proof cases
    case 1
    with g have "bp_submit L s item now = (Inr \<lparr>qd_status = ''retry_later'', qd_work_id = wk_id item, qd_error_code = cd_error_code gate,
        qd_retry_after_ms = cd_retry_after_ms gate\<rparr>, s\<lparr>bp_circuit := c\<rparr>)" by (simp add: bp_submit_def)
    with 1 g(2) ci show ?thesis by (intro disjI1 exI [of _ c] exI) auto
  next
    case 2
    with g(1) d(1) have "bp_submit L s item now = (Inr d, s\<lparr>bp_circuit := cancel_probe c\<rparr>)" by (simp add: bp_submit_def Let_def)
    with 2 cc show ?thesis by auto
  next
    case 3
    with d(2) have "remove L (enqueued L (bp_queue s) item) (wk_id item) = (Inr True, bp_queue s)"
      using enqueued_remove [OF L inv(1) i] by blast
    with 3 g(1) d(1) r have "bp_submit L s item now = (Inr (decision ''rejected'' item (bd_error_code bd) None), s\<lparr>bp_circuit := cancel_probe c\<rparr>)"
      by (simp add: bp_submit_def Let_def)
    with cc show ?thesis by auto
  next
    case 4
    with g(1) d(1) r have "bp_submit L s item now = (Inr d, \<lparr>bp_queue = enqueued L (bp_queue s) item, bp_budget = b, bp_circuit = c\<rparr>)"
      by (simp add: bp_submit_def Let_def)
    with 4 d(2) r ci show ?thesis by blast
  qed
qed

text \<open>Calls on a controller, with workers that pop its queue.\<close>

inductive controller_step :: "lib \<Rightarrow> controller \<Rightarrow> controller \<Rightarrow> bool" for L where
  submitted: "work_ok L item \<Longrightarrow> controller_step L s (snd (bp_submit L s item now))"
| succeeded: "controller_step L s (snd (bp_success s op))"
| failed: "controller_step L s (snd (bp_failure s now))"
| cancelled: "work_ok L item \<Longrightarrow> controller_step L s (snd (bp_cancel L s item))"
| worked: "controller_step L s (s\<lparr>bp_queue := snd (pop (bp_queue s) now)\<rparr>)"

definition same_controller_limits :: "controller \<Rightarrow> controller \<Rightarrow> bool" where
  "same_controller_limits s s' \<longleftrightarrow> same_limits (bp_queue s) (bp_queue s') \<and> same_budget_limits (bp_budget s) (bp_budget s')"

lemma enqueued_limits: "same_limits q (enqueued L q item)"
  by (simp add: same_limits_def enqueued_def Let_def)

lemma bp_cancel_step:
  assumes "nfc_ascii L" "controller_ok L s"
  shows "controller_ok L (snd (bp_cancel L s item)) \<and> same_controller_limits s (snd (bp_cancel L s item))"
proof -
  have s: "queue_ok L (bp_queue s)" "budget_ok (bp_budget s)" "circuit_inv (bp_circuit s)" using assms(2) by (simp_all add: controller_ok_def)
  obtain removed q where q: "remove L (bp_queue s) (wk_id item) = (Inr removed, q)" "queue_ok L q" "same_limits (bp_queue s) q"
    using remove_spec [OF assms(1) s(1)] by blast
  obtain x b where b: "(if removed then rollback (bp_budget s) (wk_operation item) (wk_cost item) else (Inr (), bp_budget s)) = (x, b)" by fastforce
  have ok: "budget_ok b" "same_budget_limits (bp_budget s) b"
    using b rollback_ok [OF s(2), of "wk_operation item" "wk_cost item"] s(2) by (auto simp: same_budget_limits_def split: if_splits)
  show ?thesis using q b ok s(3) cancel_probe_inv [OF s(3)]
    by (cases removed; cases x) (simp_all add: bp_cancel_def Let_def controller_ok_def same_controller_limits_def)
qed

lemma controller_step_ok:
  assumes "nfc_ascii L" "controller_step L s s'" "controller_ok L s"
  shows "controller_ok L s' \<and> same_controller_limits s s'"
proof -
  have s: "queue_ok L (bp_queue s)" "budget_ok (bp_budget s)" "circuit_inv (bp_circuit s)" using assms(3) by (simp_all add: controller_ok_def)
  have refl: "same_controller_limits s s" by (simp add: same_controller_limits_def same_limits_def same_budget_limits_def)
  from assms(2) show ?thesis
  proof cases
    case (submitted item now)
    show ?thesis
    proof (cases "timestamp now")
      case (Inl e)
      then show ?thesis using submitted assms(3) refl by (simp add: bp_submit_def before_call_def)
    next
      case (Inr t)
      from bp_submit_spec [OF assms(1,3) submitted(2) Inr] show ?thesis
      proof (elim disjE exE conjE)
        fix d c assume "bp_submit L s item now = (Inr d, s\<lparr>bp_circuit := c\<rparr>)" "circuit_inv c"
        with submitted s refl show ?thesis by (simp add: controller_ok_def same_controller_limits_def)
      next
        fix d b c bd
        assume r: "bp_submit L s item now = (Inr d, \<lparr>bp_queue = enqueued L (bp_queue s) item, bp_budget = b, bp_circuit = c\<rparr>)" "circuit_inv c"
          "reserve (bp_budget s) (wk_operation item) (wk_cost item) = (Inr bd, b)"
          "wk_id item \<notin> wk_id ` set (q_items (bp_queue s))" "fits_queue (bp_queue s) item"
        with reserve_ok [OF s(2), of "wk_operation item" "wk_cost item"] enqueued_ok [OF s(1) submitted(2)] submitted(1) enqueued_limits
        show ?thesis by (simp add: controller_ok_def same_controller_limits_def)
      qed
    qed
  next
    case (succeeded op)
    with s refl complete_ok [OF s(2), of op] show ?thesis
      by (cases "complete (bp_budget s) op"; cases "fst (complete (bp_budget s) op)")
        (auto simp: bp_success_def controller_ok_def same_controller_limits_def circuit_inv_def circuit_success_def)
  next
    case (failed now)
    with s refl circuit_step_inv [OF circuit_step.failure [of "bp_circuit s" now]] show ?thesis
      by (auto simp: bp_failure_def controller_ok_def same_controller_limits_def split: prod.splits)
  next
    case (cancelled item)
    with bp_cancel_step [OF assms(1,3)] show ?thesis by simp
  next
    case (worked now)
    with s refl queue_step_ok [OF assms(1) queue_step.popped [of L "bp_queue s" now] s(1)] show ?thesis
      by (auto simp: controller_ok_def same_controller_limits_def)
  qed
qed

lemma controller_steps_ok:
  assumes "nfc_ascii L" "(controller_step L)\<^sup>*\<^sup>* s s'" "controller_ok L s"
  shows "controller_ok L s' \<and> same_controller_limits s s'"
  using assms(2,3)
proof (induction rule: rtranclp_induct)
  case (step y z)
  with controller_step_ok [OF assms(1) step(2)] show ?case
    by (auto simp: same_controller_limits_def same_limits_def same_budget_limits_def)
qed (simp add: same_controller_limits_def same_limits_def same_budget_limits_def)

definition new_controller :: "work_queue res \<Rightarrow> retry_budget res \<Rightarrow> circuit res \<Rightarrow> controller res" where
  "new_controller q b c = bindR q (\<lambda>q. bindR b (\<lambda>b. bindR c (\<lambda>c. Inr \<lparr>bp_queue = q, bp_budget = b, bp_circuit = c\<rparr>)))"

lemma new_controller_ok:
  "new_controller (new_queue mi mc pw) (new_budget mo ma mt) (new_circuit th rs) = Inr s \<Longrightarrow> controller_ok L s \<and>
     rb_max_operations (bp_budget s) = mo \<and> rb_max_attempts (bp_budget s) = ma \<and> rb_max_total (bp_budget s) = mt"
  using new_queue_ok new_circuit_inv
  by (fastforce simp: new_controller_def bindR_Inr_iff new_budget_def controller_ok_def budget_ok_def split: if_splits)

text \<open>
  C31: backpressure is transactional. In every state that calls of the controller and of workers can reach, one after another, a
  submission either is not accepted, and then queue and budget are exactly as before and no probe
  of the circuit breaker is left in flight on its account, or it is accepted, and then cancelling it
  at once restores queue and budget exactly; and no operation ever has more attempts or cost
  reserved than the budget allows, nor are there more operations than it stores.
\<close>

theorem backpressure_transactional:
  assumes "nfc_ascii L"
    and "new_controller (new_queue mi mc pw) (new_budget mo ma mt) (new_circuit th rs) = Inr s0"
    and "(controller_step L)\<^sup>*\<^sup>* s0 s" "work_ok L item" "timestamp now = Inr t"
  shows "(\<exists>d s'. bp_submit L s item now = (Inr d, s') \<and>
      (if qd_status d = ''accepted''
       then \<exists>s''. bp_cancel L s' item = (Inr (), s'') \<and> bp_queue s'' = bp_queue s \<and> bp_budget s'' = bp_budget s
       else bp_queue s' = bp_queue s \<and> bp_budget s' = bp_budget s \<and> (cb_inflight (bp_circuit s') \<longrightarrow> cb_inflight (bp_circuit s)))) \<and>
    int (length (rb_values (bp_budget s))) \<le> mo \<and>
    (\<forall>op a k. map_of (rb_values (bp_budget s)) op = Some (a, k) \<longrightarrow> 1 \<le> a \<and> a \<le> ma \<and> 0 \<le> k \<and> k \<le> mt)"
proof -
  have ok: "controller_ok L s" and lim: "rb_max_operations (bp_budget s) = mo" "rb_max_attempts (bp_budget s) = ma" "rb_max_total (bp_budget s) = mt"
    using controller_steps_ok [OF assms(1,3)] new_controller_ok [OF assms(2)]
    by (auto simp: same_controller_limits_def same_budget_limits_def)
  have parts: "queue_ok L (bp_queue s)" "budget_ok (bp_budget s)" using ok by (simp_all add: controller_ok_def)
  have "int (length (rb_values (bp_budget s))) \<le> mo \<and>
    (\<forall>op a k. map_of (rb_values (bp_budget s)) op = Some (a, k) \<longrightarrow> 1 \<le> a \<and> a \<le> ma \<and> 0 \<le> k \<and> k \<le> mt)"
    using parts(2) unfolding budget_ok_def lim by blast
  moreover from bp_submit_spec [OF assms(1) ok assms(4,5)]
  have "\<exists>d s'. bp_submit L s item now = (Inr d, s') \<and>
      (if qd_status d = ''accepted''
       then \<exists>s''. bp_cancel L s' item = (Inr (), s'') \<and> bp_queue s'' = bp_queue s \<and> bp_budget s'' = bp_budget s
       else bp_queue s' = bp_queue s \<and> bp_budget s' = bp_budget s \<and> (cb_inflight (bp_circuit s') \<longrightarrow> cb_inflight (bp_circuit s)))"
  proof (elim disjE exE conjE)
    fix d c
    assume "bp_submit L s item now = (Inr d, s\<lparr>bp_circuit := c\<rparr>)" "qd_status d \<noteq> ''accepted''" "cb_inflight c \<longrightarrow> cb_inflight (bp_circuit s)"
    then show ?thesis by simp
  next
    fix d b c bd
    assume r: "bp_submit L s item now = (Inr d, \<lparr>bp_queue = enqueued L (bp_queue s) item, bp_budget = b, bp_circuit = c\<rparr>)"
      "qd_status d = ''accepted''" "reserve (bp_budget s) (wk_operation item) (wk_cost item) = (Inr bd, b)" "bd_allowed bd"
      "wk_id item \<notin> wk_id ` set (q_items (bp_queue s))"
    with enqueued_remove [OF assms(1) parts(1) assms(4)] reserve_rollback [OF parts(2)] show ?thesis
      by (simp add: bp_cancel_def)
  qed
  ultimately show ?thesis by blast
qed

theorem circuit_admits_one_probe_witness:
  "\<exists>c0 c d c1. new_circuit 1 3600 = Inr c0 \<and> c = snd (circuit_failure c0 ''2024-01-01T05:00:00Z'') \<and> cb_state c = OPEN \<and>
     before_call c ''2024-01-01T06:00:00Z'' = (Inr d, c1) \<and> cd_allowed d \<and>
     (\<exists>d'. before_call c1 ''2024-01-01T06:00:00Z'' = (Inr d', c1) \<and> \<not> cd_allowed d')"
proof -
  obtain c0 where c0: "new_circuit 1 3600 = Inr c0" by (simp add: new_circuit_def)
  let ?c = "snd (circuit_failure c0 ''2024-01-01T05:00:00Z'')"
  have st: "circuit_step\<^sup>*\<^sup>* c0 ?c" using circuit_step.failure by blast
  have c: "cb_state ?c = OPEN" "cb_opened_at ?c = Some 63839682000" "cb_reset_after_seconds ?c = 3600"
    using c0 by (auto simp: new_circuit_def circuit_failure_def demo_times)
  have "\<exists>d c1. before_call ?c ''2024-01-01T06:00:00Z'' = (Inr d, c1) \<and> cd_allowed d"
    using c by (simp add: before_call_def demo_times probe_def)
  then obtain d c1 where b: "before_call ?c ''2024-01-01T06:00:00Z'' = (Inr d, c1)" "cd_allowed d" by blast
  with circuit_admits_one_probe [OF c0 st demo_times(2)] c(1) demo_times(2)
  have "\<exists>d'. before_call c1 ''2024-01-01T06:00:00Z'' = (Inr d', c1) \<and> \<not> cd_allowed d'" by auto
  with c0 c(1) b show ?thesis by blast
qed

theorem backpressure_transactional_witness:
  "\<exists>s0 item d s' s''. new_controller (new_queue 1 5 1) (new_budget 1 1 5) (new_circuit 1 60) = Inr s0 \<and>
     bp_submit demo_lib s0 item ''2024-01-01T05:00:00Z'' = (Inr d, s') \<and> qd_status d = ''accepted'' \<and>
     bp_cancel demo_lib s' item = (Inr (), s'') \<and> bp_queue s'' = bp_queue s0 \<and> bp_budget s'' = bp_budget s0"
proof -
  obtain i where i: "work_ok demo_lib i" "wk_cost i = ''3''" "wk_deadline_at i = ''2024-01-01T06:00:00Z''" using demo_work_exists by blast
  obtain q b c where p: "new_queue 1 5 1 = Inr q" "new_budget 1 1 5 = Inr b" "new_circuit 1 60 = Inr c"
    by (simp add: new_queue_def new_budget_def new_circuit_def)
  let ?s = "\<lparr>bp_queue = q, bp_budget = b, bp_circuit = c\<rparr>"
  have s0: "new_controller (new_queue 1 5 1) (new_budget 1 1 5) (new_circuit 1 60) = Inr ?s" by (simp add: new_controller_def p)
  have cost: "cost_of i = 3" "op_uint True (PStr (wk_cost i)) = Inr 3"
    by (simp_all add: i(2) cost_of_def op_uint_def canonical_pos_def int_str_def digit_val_def is_digit_def)
  have "\<exists>d. fst (bp_submit demo_lib ?s i ''2024-01-01T05:00:00Z'') = Inr d \<and> qd_status d = ''accepted''"
  proof -
    have g: "\<exists>d. before_call c ''2024-01-01T05:00:00Z'' = (Inr d, c) \<and> cd_allowed d"
      using p(3) by (auto simp: new_circuit_def before_call_def demo_times)
    have q: "queue_ok demo_lib q" "q_items q = []" "fits_queue q i" using new_queue_ok [OF p(1)] p(1) cost(1)
      by (auto simp: fits_queue_def new_queue_def)
    obtain d where d: "submit demo_lib q i ''2024-01-01T05:00:00Z'' = (Inr d, enqueued demo_lib q i)" "qd_status d = ''accepted''"
      using submit_spec [OF demo_lib_ascii q(1) i(1) demo_times(1)] q demo_late [OF i(3)] by auto
    have h: "is_hex64 (wk_operation i)" using new_work_itemD(12) [OF i(1) [unfolded work_ok_def]] .
    have "\<exists>bd b'. reserve b (wk_operation i) (wk_cost i) = (Inr bd, b') \<and> bd_allowed bd"
      using p(2) h cost(2) by (auto simp: new_budget_def reserve_def hex64_arg_def)
    with g d show ?thesis by (auto simp: bp_submit_def Let_def)
  qed
  then obtain d where d: "fst (bp_submit demo_lib ?s i ''2024-01-01T05:00:00Z'') = Inr d" "qd_status d = ''accepted''" by blast
  from backpressure_transactional [OF demo_lib_ascii s0 rtranclp.rtrancl_refl i(1) demo_times(1)] obtain d' s' where
    r: "bp_submit demo_lib ?s i ''2024-01-01T05:00:00Z'' = (Inr d', s')"
    and u: "if qd_status d' = ''accepted''
       then \<exists>s''. bp_cancel demo_lib s' i = (Inr (), s'') \<and> bp_queue s'' = bp_queue ?s \<and> bp_budget s'' = bp_budget ?s
       else bp_queue s' = bp_queue ?s \<and> bp_budget s' = bp_budget ?s \<and> (cb_inflight (bp_circuit s') \<longrightarrow> cb_inflight (bp_circuit ?s))" by blast
  with d have a: "qd_status d' = ''accepted''" by simp
  with u obtain s'' where "bp_cancel demo_lib s' i = (Inr (), s'')" "bp_queue s'' = bp_queue ?s" "bp_budget s'' = bp_budget ?s" by auto
  with r a s0 show ?thesis by blast
qed

text \<open>
  Only a single probe is meant to be in flight. But \<open>cancel\<close> clears the mark of the probe whatever
  item it is given: cancelling an item that is not even queued lets a second probe in while the
  first is still at work.
\<close>

theorem foreign_cancel_admits_second_probe:
  assumes "nfc_ascii L" "controller_ok L s" "cb_state (bp_circuit s) = HALF_OPEN" "cb_inflight (bp_circuit s)"
    and "wk_id item \<notin> wk_id ` set (q_items (bp_queue s))" "timestamp now = Inr t"
  shows "\<exists>s'. bp_cancel L s item = (Inr (), s') \<and> q_items (bp_queue s') = q_items (bp_queue s) \<and>
     (\<exists>d c. before_call (bp_circuit s) now = (Inr d, bp_circuit s) \<and> \<not> cd_allowed d \<and>
        before_call (bp_circuit s') now = (Inr c, bp_circuit s) \<and> cd_allowed c)"
proof -
  have "map_of (q_by_id (bp_queue s)) (wk_id item) = None"
    using by_id_mem [of L "q_items (bp_queue s)" "bp_queue s" "wk_id item"] assms(2,5) by (auto simp: controller_ok_def queue_ok_def)
  then have "remove L (bp_queue s) (wk_id item) = (Inr False, bp_queue s)" by (simp add: remove_def)
  moreover have "(bp_circuit s)\<lparr>cb_inflight := True\<rparr> = bp_circuit s" using assms(4) by (cases "bp_circuit s") simp
  ultimately show ?thesis using assms(3,4,6) by (simp add: bp_cancel_def cancel_probe_def before_call_def probe_def)
qed

end
