(* ===== verification/AuditLog.thy ===== *)
theory AuditLog
  imports WorkQueue
begin

text \<open>
  \<open>memory_core/operability.py\<close>, second part: keyed reference hashing, audit references with their
  bounded store and recorder, and telemetry with its allowlist. HMAC-SHA-256 is a parameter; an
  audit sink and a telemetry sink are functions on their state that may raise.

  The results: the audit store never forgets, changes or exceeds its bound, and reads back exactly
  what was stored; a telemetry point is only ever delivered within the allowlist, the retention time
  and the cardinality bound, and a failed delivery leaves an audit record.
\<close>

subsection \<open>Reference hashing\<close>

type_synonym hmac = "bytes \<Rightarrow> bytes \<Rightarrow> bytes"

definition hmac_ok :: "hmac \<Rightarrow> bool" where
  "hmac_ok H \<longleftrightarrow> (\<forall>k m. length (H k m) = 32)"

record reference_hasher =
  rh_key :: bytes
  rh_namespace :: bytes

definition new_hasher :: "bytes \<Rightarrow> string \<Rightarrow> reference_hasher res" where
  "new_hasher key namespace =
     (if length key < 16 then Inl ValueError
      else if \<not> is_code namespace then Inl ValueError
      else Inr \<lparr>rh_key = key, rh_namespace = namespace\<rparr>)"

definition digest :: "hmac \<Rightarrow> reference_hasher \<Rightarrow> string \<Rightarrow> string res" where
  "digest H h value =
     (if value = [] then Inl InvalidContractValue
      else Inr (hex (H (rh_key h) (rh_namespace h @ [CHR 0x00] @ value))))"

subsection \<open>Audit references\<close>

definition AUDIT_RECORD_VERSION :: string where
  "AUDIT_RECORD_VERSION = ''phase3-audit-reference-v1''"

record audit_reference =
  au_version :: string
  au_id :: string
  au_workspace :: string
  au_actor :: string
  au_operation :: string
  au_correlation :: string
  au_action :: string
  au_outcome :: string
  au_reason :: string
  au_generation_id :: "string option"
  au_object_refs :: "string list"
  au_policy_version :: string
  au_occurred_at :: string

definition audit_identity_fields :: "string list" where
  "audit_identity_fields = [''audit_record_version'', ''workspace_ref_hash'', ''actor_ref_hash'', ''operation_ref_hash'',
     ''correlation_ref_hash'', ''action'', ''outcome'', ''reason_code'', ''generation_id'', ''object_ref_digests'',
     ''policy_version'', ''occurred_at'']"

text \<open>\<open>_identity\<close> turns the tuple of object references into a list.\<close>

fun as_list :: "pyval \<Rightarrow> pyval" where
  "as_list (PTuple xs) = PList xs"
| "as_list v = v"

definition listed :: "fields \<Rightarrow> string \<Rightarrow> pyval" where
  "listed values k = (if k = ''object_ref_digests'' then as_list (field values k) else field values k)"

definition listed_body :: "string list \<Rightarrow> fields \<Rightarrow> pyval" where
  "listed_body names values = pdict (map (\<lambda>k. (k, listed values k)) names)"

definition opt_str_that :: "(string \<Rightarrow> bool) \<Rightarrow> pyval \<Rightarrow> bool" where
  "opt_str_that P v \<longleftrightarrow> v = PNone \<or> str_that P v"

definition new_audit :: "lib \<Rightarrow> fields \<Rightarrow> audit_reference res" where
  "new_audit L values =
     bindR (guardR (field values ''audit_record_version'' = PStr AUDIT_RECORD_VERSION) UnsupportedContractVersion) (\<lambda>_.
     bindR (guardR (\<forall>f\<in>{''workspace_ref_hash'', ''actor_ref_hash'', ''operation_ref_hash'', ''correlation_ref_hash''}.
              str_that is_hex64 (field values f)) InvalidContractValue) (\<lambda>_.
     bindR (guardR (\<forall>f\<in>{''action'', ''outcome'', ''reason_code'', ''policy_version''}.
              str_that is_code (field values f)) InvalidContractValue) (\<lambda>_.
     bindR (guardR (opt_str_that is_object_id (field values ''generation_id'')) InvalidContractValue) (\<lambda>_.
     bindR (op_timestamp (field values ''occurred_at'')) (\<lambda>_.
     bindR (sorted_strings is_hex64 True (field values ''object_ref_digests'')) (\<lambda>refs.
     bindR (contract_hash L (listed_body audit_identity_fields values)) (\<lambda>expected.
     bindR (guardR (field values ''audit_id'' = PStr expected) InvalidContractValue) (\<lambda>_.
       Inr \<lparr>au_version = the_str (field values ''audit_record_version''), au_id = expected,
            au_workspace = the_str (field values ''workspace_ref_hash''),
            au_actor = the_str (field values ''actor_ref_hash''),
            au_operation = the_str (field values ''operation_ref_hash''),
            au_correlation = the_str (field values ''correlation_ref_hash''),
            au_action = the_str (field values ''action''),
            au_outcome = the_str (field values ''outcome''),
            au_reason = the_str (field values ''reason_code''),
            au_generation_id = the_opt_str (field values ''generation_id''),
            au_object_refs = refs,
            au_policy_version = the_str (field values ''policy_version''),
            au_occurred_at = the_str (field values ''occurred_at'')\<rparr>))))))))"

text \<open>\<open>create(**kwargs)\<close>, with the object references as their own argument.\<close>

definition audit_create :: "lib \<Rightarrow> fields \<Rightarrow> string list \<Rightarrow> audit_reference res" where
  "audit_create L kwargs refs =
     (let values = dict_set ''object_ref_digests'' (PTuple (map PStr (sorted_set refs)))
            (fold (\<lambda>(k, v). dict_set k v) kwargs [(''audit_record_version'', PStr AUDIT_RECORD_VERSION)])
      in if \<not> set audit_identity_fields \<subseteq> set (dict_keys values) then Inl KeyError
         else bindR (contract_hash L (listed_body audit_identity_fields values)) (\<lambda>h.
           if \<not> set (dict_keys values) \<subseteq> set audit_identity_fields then Inl TypeError
           else new_audit L (dict_set ''audit_id'' (PStr h) values)))"

definition audit_from_mapping :: "lib \<Rightarrow> fields \<Rightarrow> audit_reference res" where
  "audit_from_mapping L data =
     bindR (op_strict data (''audit_id'' # audit_identity_fields)) (\<lambda>values.
     bindR (sorted_strings is_hex64 True (field values ''object_ref_digests'')) (\<lambda>refs.
     new_audit L (dict_set ''object_ref_digests'' (PTuple (map PStr refs)) values)))"

definition jopt :: "string option \<Rightarrow> json" where
  "jopt x = (case x of None \<Rightarrow> JNull | Some s \<Rightarrow> JStr s)"

definition audit_json :: "audit_reference \<Rightarrow> (string \<times> json) list" where
  "audit_json a =
     [(''audit_record_version'', JStr (au_version a)), (''audit_id'', JStr (au_id a)),
      (''workspace_ref_hash'', JStr (au_workspace a)), (''actor_ref_hash'', JStr (au_actor a)),
      (''operation_ref_hash'', JStr (au_operation a)), (''correlation_ref_hash'', JStr (au_correlation a)),
      (''action'', JStr (au_action a)), (''outcome'', JStr (au_outcome a)), (''reason_code'', JStr (au_reason a)),
      (''generation_id'', jopt (au_generation_id a)), (''object_ref_digests'', JList (map JStr (au_object_refs a))),
      (''policy_version'', JStr (au_policy_version a)), (''occurred_at'', JStr (au_occurred_at a))]"

definition audit_to_mapping :: "audit_reference \<Rightarrow> fields" where
  "audit_to_mapping a = map (\<lambda>(k, v). (k, json_py v)) (audit_json a)"

definition audit_canonical_bytes :: "lib \<Rightarrow> audit_reference \<Rightarrow> bytes res" where
  "audit_canonical_bytes L a = contract_canonical_bytes L (pdict (audit_to_mapping a))"

lemma json_py_jopt [simp]: "json_py (jopt x) = popt x" "json_py (JList (map JStr ss)) = PList (map PStr ss)"
  by (cases x; simp add: jopt_def popt_def) (simp add: comp_def)

lemma audit_field_simps [simp]:
  "field (audit_to_mapping a) ''audit_record_version'' = PStr (au_version a)"
  "field (audit_to_mapping a) ''audit_id'' = PStr (au_id a)"
  "field (audit_to_mapping a) ''workspace_ref_hash'' = PStr (au_workspace a)"
  "field (audit_to_mapping a) ''actor_ref_hash'' = PStr (au_actor a)"
  "field (audit_to_mapping a) ''operation_ref_hash'' = PStr (au_operation a)"
  "field (audit_to_mapping a) ''correlation_ref_hash'' = PStr (au_correlation a)"
  "field (audit_to_mapping a) ''action'' = PStr (au_action a)"
  "field (audit_to_mapping a) ''outcome'' = PStr (au_outcome a)"
  "field (audit_to_mapping a) ''reason_code'' = PStr (au_reason a)"
  "field (audit_to_mapping a) ''generation_id'' = popt (au_generation_id a)"
  "field (audit_to_mapping a) ''object_ref_digests'' = PList (map PStr (au_object_refs a))"
  "field (audit_to_mapping a) ''policy_version'' = PStr (au_policy_version a)"
  "field (audit_to_mapping a) ''occurred_at'' = PStr (au_occurred_at a)"
  by (simp_all add: field_def audit_to_mapping_def audit_json_def del: json_py.simps(5))

lemma opt_str_that_iff: "opt_str_that P v \<longleftrightarrow> v = popt (the_opt_str v) \<and> (\<forall>s. the_opt_str v = Some s \<longrightarrow> P s)"
  by (cases v) (simp_all add: opt_str_that_def str_that_def popt_def)

lemma new_auditD:
  assumes "new_audit L v = Inr a"
  shows "field v ''audit_record_version'' = PStr (au_version a)" "field v ''audit_id'' = PStr (au_id a)"
    "field v ''workspace_ref_hash'' = PStr (au_workspace a)" "field v ''actor_ref_hash'' = PStr (au_actor a)"
    "field v ''operation_ref_hash'' = PStr (au_operation a)" "field v ''correlation_ref_hash'' = PStr (au_correlation a)"
    "field v ''action'' = PStr (au_action a)" "field v ''outcome'' = PStr (au_outcome a)"
    "field v ''reason_code'' = PStr (au_reason a)" "field v ''generation_id'' = popt (au_generation_id a)"
    "listed v ''object_ref_digests'' = PList (map PStr (au_object_refs a))" "field v ''policy_version'' = PStr (au_policy_version a)"
    "field v ''occurred_at'' = PStr (au_occurred_at a)"
    "au_version a = AUDIT_RECORD_VERSION" "is_hex64 (au_workspace a)" "is_hex64 (au_actor a)" "is_hex64 (au_operation a)"
    "is_hex64 (au_correlation a)" "is_code (au_action a)" "is_code (au_outcome a)" "is_code (au_reason a)" "is_code (au_policy_version a)"
    "\<forall>g. au_generation_id a = Some g \<longrightarrow> is_object_id g" "\<exists>t. timestamp (au_occurred_at a) = Inr t"
    "list_all is_hex64 (au_object_refs a)" "contract_hash L (listed_body audit_identity_fields v) = Inr (au_id a)"
    "sorted_strings is_hex64 True (field v ''object_ref_digests'') = Inr (au_object_refs a)"
proof -
  from assms obtain t refs h where c:
    "field v ''audit_record_version'' = PStr AUDIT_RECORD_VERSION"
    "\<forall>f\<in>{''workspace_ref_hash'', ''actor_ref_hash'', ''operation_ref_hash'', ''correlation_ref_hash''}. str_that is_hex64 (field v f)"
    "\<forall>f\<in>{''action'', ''outcome'', ''reason_code'', ''policy_version''}. str_that is_code (field v f)"
    "opt_str_that is_object_id (field v ''generation_id'')" "op_timestamp (field v ''occurred_at'') = Inr t"
    "sorted_strings is_hex64 True (field v ''object_ref_digests'') = Inr refs"
    "contract_hash L (listed_body audit_identity_fields v) = Inr h" "field v ''audit_id'' = PStr h"
    and a: "a = \<lparr>au_version = the_str (field v ''audit_record_version''), au_id = h,
            au_workspace = the_str (field v ''workspace_ref_hash''), au_actor = the_str (field v ''actor_ref_hash''),
            au_operation = the_str (field v ''operation_ref_hash''), au_correlation = the_str (field v ''correlation_ref_hash''),
            au_action = the_str (field v ''action''), au_outcome = the_str (field v ''outcome''),
            au_reason = the_str (field v ''reason_code''), au_generation_id = the_opt_str (field v ''generation_id''),
            au_object_refs = refs, au_policy_version = the_str (field v ''policy_version''),
            au_occurred_at = the_str (field v ''occurred_at'')\<rparr>"
    unfolding new_audit_def bindR_Inr_iff guardR_Inr_iff by blast
  have h: "str_that is_hex64 (field v ''workspace_ref_hash'')" "str_that is_hex64 (field v ''actor_ref_hash'')"
    "str_that is_hex64 (field v ''operation_ref_hash'')" "str_that is_hex64 (field v ''correlation_ref_hash'')"
    "str_that is_code (field v ''action'')" "str_that is_code (field v ''outcome'')" "str_that is_code (field v ''reason_code'')"
    "str_that is_code (field v ''policy_version'')"
    using c(2,3) by simp_all
  show "field v ''audit_record_version'' = PStr (au_version a)" "field v ''audit_id'' = PStr (au_id a)" "au_version a = AUDIT_RECORD_VERSION"
    "contract_hash L (listed_body audit_identity_fields v) = Inr (au_id a)"
    "sorted_strings is_hex64 True (field v ''object_ref_digests'') = Inr (au_object_refs a)"
    using c(1,6-8) by (simp_all add: a)
  show "field v ''workspace_ref_hash'' = PStr (au_workspace a)" "field v ''actor_ref_hash'' = PStr (au_actor a)"
    "field v ''operation_ref_hash'' = PStr (au_operation a)" "field v ''correlation_ref_hash'' = PStr (au_correlation a)"
    "field v ''action'' = PStr (au_action a)" "field v ''outcome'' = PStr (au_outcome a)"
    "field v ''reason_code'' = PStr (au_reason a)" "field v ''policy_version'' = PStr (au_policy_version a)"
    using h by (simp_all add: a)
  show "is_hex64 (au_workspace a)" "is_hex64 (au_actor a)" "is_hex64 (au_operation a)"
    "is_hex64 (au_correlation a)" "is_code (au_action a)" "is_code (au_outcome a)" "is_code (au_reason a)" "is_code (au_policy_version a)"
    using h by (auto simp: a str_that_iff)
  show "field v ''generation_id'' = popt (au_generation_id a)" "\<forall>g. au_generation_id a = Some g \<longrightarrow> is_object_id g"
    using c(4) by (simp_all add: a opt_str_that_iff)
  show "field v ''occurred_at'' = PStr (au_occurred_at a)" "\<exists>t. timestamp (au_occurred_at a) = Inr t"
    using c(5) by (auto simp: a op_timestamp_Inr)
  show "listed v ''object_ref_digests'' = PList (map PStr (au_object_refs a))" "list_all is_hex64 (au_object_refs a)"
    using c(6) by (auto simp: a sorted_strings_Inr listed_def)
qed

text \<open>The constructor reads its fields only through this view.\<close>

lemma as_list_simps [simp]:
  "str_that P (as_list v) = str_that P v" "the_str (as_list v) = the_str v" "the_opt_str (as_list v) = the_opt_str v"
  "opt_str_that P (as_list v) = opt_str_that P v" "op_timestamp (as_list v) = op_timestamp v"
  "sorted_strings P e (as_list v) = sorted_strings P e v" "as_list v = PStr s \<longleftrightarrow> v = PStr s" "as_list (as_list v) = as_list v"
  "op_uint b (as_list v) = op_uint b v" "as_list (PStr s) = PStr s" "as_list (popt x) = popt x"
  by (cases v; auto simp: str_that_def opt_str_that_def op_timestamp_def sorted_strings_def seq_of_def op_uint_def popt_def split: option.splits)+

lemma listed_other: "k \<noteq> ''object_ref_digests'' \<Longrightarrow> listed v k = field v k"
  by (simp add: listed_def)

lemma listed_strings:
  "listed v ''object_ref_digests'' = listed w ''object_ref_digests'' \<Longrightarrow>
   sorted_strings P e (field v ''object_ref_digests'') = sorted_strings P e (field w ''object_ref_digests'')"
  using as_list_simps(6) [of P e "field v ''object_ref_digests''"] as_list_simps(6) [of P e "field w ''object_ref_digests''"]
  by (simp add: listed_def)

lemma new_audit_cong:
  assumes "\<And>k. k \<in> set (''audit_id'' # audit_identity_fields) \<Longrightarrow> listed v k = listed w k"
  shows "new_audit L v = new_audit L w"
proof -
  have b: "listed_body audit_identity_fields v = listed_body audit_identity_fields w"
    using assms unfolding listed_body_def by (simp cong: map_cong)
  have f: "field v ''audit_record_version'' = field w ''audit_record_version''" "field v ''audit_id'' = field w ''audit_id''"
    "field v ''workspace_ref_hash'' = field w ''workspace_ref_hash''" "field v ''actor_ref_hash'' = field w ''actor_ref_hash''"
    "field v ''operation_ref_hash'' = field w ''operation_ref_hash''" "field v ''correlation_ref_hash'' = field w ''correlation_ref_hash''"
    "field v ''action'' = field w ''action''" "field v ''outcome'' = field w ''outcome''"
    "field v ''reason_code'' = field w ''reason_code''" "field v ''generation_id'' = field w ''generation_id''"
    "field v ''policy_version'' = field w ''policy_version''" "field v ''occurred_at'' = field w ''occurred_at''"
    by (subst (1 2) listed_other [symmetric], simp, rule assms, simp add: audit_identity_fields_def)+
  have l: "sorted_strings is_hex64 True (field v ''object_ref_digests'') = sorted_strings is_hex64 True (field w ''object_ref_digests'')"
    by (rule listed_strings, rule assms) (simp add: audit_identity_fields_def)
  show ?thesis unfolding new_audit_def b l by (simp only: f ball_simps)
qed

lemma listed_mapping: "k \<in> set (''audit_id'' # audit_identity_fields) \<Longrightarrow> listed (audit_to_mapping a) k = field (audit_to_mapping a) k"
  by (auto simp: listed_def audit_identity_fields_def)

interpretation audit: self_certified "''audit_id''" audit_identity_fields new_audit audit_to_mapping listed
proof
  show "contract_hash L (pdict (map (\<lambda>k. (k, listed v k)) audit_identity_fields)) = Inr (the_str (field (audit_to_mapping a) ''audit_id''))"
    if "new_audit L v = Inr a" for L v a
    using new_auditD(26) [OF that] by (simp add: listed_body_def)
  show "field (audit_to_mapping a) k = listed v k"
    if "new_audit L v = Inr a" "k \<in> set (''audit_id'' # audit_identity_fields)" for L v a k
  proof -
    have "map (field (audit_to_mapping a)) (''audit_id'' # audit_identity_fields) = map (listed v) (''audit_id'' # audit_identity_fields)"
      using new_auditD(1-13) [OF that(1)] by (simp add: audit_identity_fields_def listed_other)
    from this [unfolded map_eq_conv] that(2) show ?thesis by (rule bspec)
  qed
  show "new_audit L v = new_audit L w"
    if "\<And>k. k \<in> set (''audit_id'' # audit_identity_fields) \<Longrightarrow> listed v k = listed w k" for v w L
    by (rule new_audit_cong) (rule that)
  show "listed v k = listed w k" if "field v k = field w k" for v w k using that by (auto simp: listed_def)
  show "list_all (list_all (\<lambda>c. (of_char c :: nat) < 128)) audit_identity_fields" by (simp add: audit_identity_fields_def)
qed (rule listed_mapping)

definition audit_ok :: "lib \<Rightarrow> audit_reference \<Rightarrow> bool" where
  "audit_ok L a \<longleftrightarrow> new_audit L (audit_to_mapping a) = Inr a"

lemma audit_okI: "new_audit L v = Inr a \<Longrightarrow> audit_ok L a"
  unfolding audit_ok_def by (rule audit.reparse)

lemma contract_hash_ascii: "contract_hash L v = Inr h \<Longrightarrow> ascii_str h"
  by (auto simp: contract_hash_def bindR_Inr_iff sha256_hex_def hex_ascii [OF hex_is_hex])

lemma hex64_ascii: "is_hex64 s \<Longrightarrow> ascii_str s"
  by (simp add: is_hex64_def hex_ascii)

lemma object_id_ascii: "is_object_id s \<Longrightarrow> ascii_str s"
  by (simp add: is_object_id_def hex_ascii)

lemma normal_strs: "nfc_ascii L \<Longrightarrow> list_all ascii_str ss \<Longrightarrow> normal L (JList (map JStr ss))"
  using nfc_asciiD by (auto simp: list_all_iff)

lemma normal_jopt: "nfc_ascii L \<Longrightarrow> (\<forall>s. x = Some s \<longrightarrow> ascii_str s) \<Longrightarrow> normal L (jopt x)"
  using nfc_asciiD by (cases x) (auto simp: jopt_def)

lemma sort_keys_flat [simp]: "sort_keys (jopt x) = jopt x" "sort_keys (JList (map JStr ss)) = JList (map JStr ss)"
  by (cases x; simp add: jopt_def) (simp add: comp_def)

lemma audit_restores:
  assumes "nfc_ascii L" "audit_ok L a"
  shows "\<exists>b j. audit_canonical_bytes L a = Inr b \<and> loads b = Some j \<and> audit_from_mapping L (json_fields j) = Inr a"
proof -
  note D = new_auditD [OF assms(2) [unfolded audit_ok_def]]
  have "ascii_str (au_version a)" using D(14) by (simp add: AUDIT_RECORD_VERSION_def)
  moreover have "ascii_str (au_id a)" using D(26) by (rule contract_hash_ascii)
  moreover note D(15-18) [THEN hex64_ascii] D(19-22) [THEN code_ascii]
  moreover have "ascii_str (au_occurred_at a)" using D(24) timestamp_ascii by blast
  moreover have "normal L (jopt (au_generation_id a))" using D(23) object_id_ascii by (intro normal_jopt [OF assms(1)]) blast
  moreover have "normal L (JList (map JStr (au_object_refs a)))"
    using D(25) hex64_ascii by (intro normal_strs [OF assms(1)]) (auto simp: list_all_iff)
  ultimately have n: "normal L (JObj (audit_json a))" using nfc_asciiD [OF assms(1)] by (simp add: audit_json_def del: normal.simps(6))
  obtain b j where bj: "audit_canonical_bytes L a = Inr b" "loads b = Some j" "new_audit L (json_fields j) = Inr a"
    "set (dict_keys (json_fields j)) = set (dict_keys (audit_to_mapping a))"
    using audit.restore [OF assms(2) [unfolded audit_ok_def] audit_to_mapping_def n] unfolding audit_canonical_bytes_def
    by (auto simp: audit_json_def simp del: sort_keys.simps(6))
  have k: "set (dict_keys (audit_to_mapping a)) = set (''audit_id'' # audit_identity_fields)"
    by (auto simp: audit_to_mapping_def audit_json_def audit_identity_fields_def)
  note r = new_auditD(27) [OF bj(3)]
  have "new_audit L (dict_set ''object_ref_digests'' (PTuple (map PStr (au_object_refs a))) (json_fields j)) = new_audit L (json_fields j)"
    by (rule new_audit_cong) (use new_auditD(11) [OF bj(3)] in \<open>auto simp: listed_def field_def\<close>)
  with bj k r show ?thesis by (simp add: audit_from_mapping_def op_strict_def)
qed

subsection \<open>The bounded audit store\<close>

record audit_sink =
  max_records :: int
  sk_records :: "(string, bytes) dict"

definition new_sink :: "int \<Rightarrow> audit_sink res" where
  "new_sink n = (if n < 1 then Inl ValueError else Inr \<lparr>max_records = n, sk_records = []\<rparr>)"

definition sink_append :: "lib \<Rightarrow> audit_sink \<Rightarrow> audit_reference \<Rightarrow> string res \<times> audit_sink" where
  "sink_append L s a =
     stop s (audit_canonical_bytes L a) (\<lambda>payload.
     case map_of (sk_records s) (au_id a) of
       Some existing \<Rightarrow> if existing \<noteq> payload then (Inl OperabilityError, s) else (Inr ''duplicate'', s)
     | None \<Rightarrow>
         if int (length (sk_records s)) \<ge> max_records s then (Inl AuditCapacityExceeded, s)
         else (Inr ''stored'', s\<lparr>sk_records := dict_set (au_id a) payload (sk_records s)\<rparr>))"

text \<open>\<open>sorted\<close> on the items compares the keys, which differ.\<close>

definition audit_parse :: "lib \<Rightarrow> bytes \<Rightarrow> audit_reference res" where
  "audit_parse L v = (case loads v of None \<Rightarrow> Inl JSONDecodeError | Some j \<Rightarrow> audit_from_mapping L (json_fields j))"

definition sink_records :: "lib \<Rightarrow> audit_sink \<Rightarrow> audit_reference list res" where
  "sink_records L s = mapR (\<lambda>(_, v). audit_parse L v) (sort_key fst (sk_records s))"

definition sink_len :: "audit_sink \<Rightarrow> int" where
  "sink_len s = int (length (sk_records s))"

text \<open>The store holds the canonical bytes of a list of valid records, each under its own identifier.\<close>

definition audit_bytes :: "lib \<Rightarrow> audit_reference \<Rightarrow> bytes" where
  "audit_bytes L a = (case audit_canonical_bytes L a of Inr b \<Rightarrow> b | Inl _ \<Rightarrow> [])"

definition holds_records :: "lib \<Rightarrow> audit_reference list \<Rightarrow> audit_sink \<Rightarrow> bool" where
  "holds_records L as s \<longleftrightarrow>
     (\<forall>a\<in>set as. audit_ok L a) \<and> distinct (map au_id as) \<and> sk_records s = map (\<lambda>a. (au_id a, audit_bytes L a)) as \<and>
     int (length as) \<le> max_records s"

lemma audit_bytes_eq: "nfc_ascii L \<Longrightarrow> audit_ok L a \<Longrightarrow> audit_canonical_bytes L a = Inr (audit_bytes L a)"
  using audit_restores [of L a] by (auto simp: audit_bytes_def)

interpretation audit_table: byte_table "\<lambda>a. nfc_ascii L \<and> audit_ok L a" "audit_bytes L" "audit_parse L" au_id for L
proof
  show "audit_parse L (audit_bytes L a) = Inr a" if "nfc_ascii L \<and> audit_ok L a" for a
    using audit_restores [of L a] audit_bytes_eq [of L a] that by (auto simp: audit_parse_def)
qed

text \<open>One append: it fails and changes nothing, or the record is in the store afterwards, once.\<close>

lemma sink_append_cases:
  assumes "nfc_ascii L" "holds_records L as s" "audit_ok L a"
  shows "(\<exists>e. sink_append L s a = (Inl e, s)) \<or>
    (\<exists>st s' as'. sink_append L s a = (Inr st, s') \<and> holds_records L as' s' \<and> set as' = insert a (set as) \<and> max_records s' = max_records s)"
proof (cases "map_of (sk_records s) (au_id a)")
  case None
  then have new: "au_id a \<notin> set (dict_keys (sk_records s))" by (simp add: map_of_eq_None_iff)
  show ?thesis
  proof (cases "int (length (sk_records s)) \<ge> max_records s")
    case False
    have "holds_records L (as @ [a]) (s\<lparr>sk_records := dict_set (au_id a) (audit_bytes L a) (sk_records s)\<rparr>)"
      using assms(2,3) new False by (auto simp: holds_records_def dict_set_new)
    moreover have "sink_append L s a = (Inr ''stored'', s\<lparr>sk_records := dict_set (au_id a) (audit_bytes L a) (sk_records s)\<rparr>)"
      using None False audit_bytes_eq [OF assms(1,3)] by (simp add: sink_append_def)
    ultimately show ?thesis by fastforce
  qed (use None audit_bytes_eq [OF assms(1,3)] in \<open>simp add: sink_append_def\<close>)
next
  case (Some v)
  then obtain b where b: "b \<in> set as" "au_id b = au_id a" "v = audit_bytes L b"
    using audit_table.lookup [of as L "au_id a" v] assms(2) by (auto simp: holds_records_def)
  show ?thesis
  proof (cases "v = audit_bytes L a")
    case True
    with b assms have "b = a" using audit_table.enc_inject [of L b a] by (auto simp: holds_records_def)
    with b have "set as = insert a (set as)" by blast
    with True Some assms(2) audit_bytes_eq [OF assms(1,3)] show ?thesis by (auto simp: sink_append_def)
  qed (use Some audit_bytes_eq [OF assms(1,3)] in \<open>simp add: sink_append_def\<close>)
qed

text \<open>Reading gives the stored records back, sorted by identifier.\<close>

lemma sink_records_eq:
  assumes "nfc_ascii L" "holds_records L as s"
  shows "sink_records L s = Inr (sort_key au_id as)"
proof -
  have s: "sort_key fst (sk_records s) = map (\<lambda>a. (au_id a, audit_bytes L a)) (sort_key au_id as)"
    using assms(2) by (simp add: holds_records_def sort_key_map comp_def)
  have "\<forall>a\<in>set (sort_key au_id as). nfc_ascii L \<and> audit_ok L a" using assms by (simp add: holds_records_def)
  from audit_table.dec_all [OF this] show ?thesis unfolding sink_records_def s .
qed

subsection \<open>The recorder\<close>

record audit_recorder =
  ar_hasher :: reference_hasher
  ar_policy_version :: string

definition new_recorder :: "reference_hasher \<Rightarrow> string \<Rightarrow> audit_recorder res" where
  "new_recorder h version =
     bindR (guardR (is_code version) InvalidContractValue) (\<lambda>_. Inr \<lparr>ar_hasher = h, ar_policy_version = version\<rparr>)"

text \<open>The keyword arguments of \<open>record\<close>.\<close>

record audit_call =
  ac_workspace_id :: string
  ac_actor_id :: string
  ac_operation_id :: string
  ac_correlation_id :: string
  ac_action :: string
  ac_outcome :: string
  ac_reason_code :: string
  ac_occurred_at :: string
  ac_generation_id :: "string option"
  ac_object_refs :: "string list"

definition audit_entry :: "lib \<Rightarrow> hmac \<Rightarrow> audit_recorder \<Rightarrow> audit_call \<Rightarrow> audit_reference res" where
  "audit_entry L H r c =
     (let dig = digest H (ar_hasher r) in
      bindR (dig (ac_workspace_id c)) (\<lambda>w. bindR (dig (ac_actor_id c)) (\<lambda>a.
      bindR (dig (ac_operation_id c)) (\<lambda>p. bindR (dig (ac_correlation_id c)) (\<lambda>k.
      bindR (mapR dig (ac_object_refs c)) (\<lambda>ds.
      audit_create L
        [(''workspace_ref_hash'', PStr w), (''actor_ref_hash'', PStr a), (''operation_ref_hash'', PStr p),
         (''correlation_ref_hash'', PStr k), (''action'', PStr (ac_action c)), (''outcome'', PStr (ac_outcome c)),
         (''reason_code'', PStr (ac_reason_code c)), (''generation_id'', popt (ac_generation_id c)),
         (''policy_version'', PStr (ar_policy_version r)), (''occurred_at'', PStr (ac_occurred_at c))]
        (sorted_set ds)))))))"

text \<open>The sink is behind a protocol: its state and its \<open>append\<close> are arguments.\<close>

definition audit_record ::
    "lib \<Rightarrow> hmac \<Rightarrow> ('s \<Rightarrow> audit_reference \<Rightarrow> string res \<times> 's) \<Rightarrow> audit_recorder \<Rightarrow> 's \<Rightarrow> audit_call \<Rightarrow> audit_reference res \<times> 's" where
  "audit_record L H put r s c =
     stop s (audit_entry L H r c) (\<lambda>a. case put s a of (Inl e, s') \<Rightarrow> (Inl e, s') | (Inr _, s') \<Rightarrow> (Inr a, s'))"

fun run_audits ::
    "lib \<Rightarrow> hmac \<Rightarrow> ('s \<Rightarrow> audit_reference \<Rightarrow> string res \<times> 's) \<Rightarrow> audit_recorder \<Rightarrow> 's \<Rightarrow> audit_call list \<Rightarrow> audit_reference res list \<times> 's" where
  "run_audits L H put r s [] = ([], s)"
| "run_audits L H put r s (c # cs) =
     (let (a, s1) = audit_record L H put r s c; (as, s2) = run_audits L H put r s1 cs in (a # as, s2))"

lemma audit_createD: "audit_create L kw refs = Inr a \<Longrightarrow> audit_ok L a"
  by (auto simp: audit_create_def Let_def bindR_Inr_iff split: if_splits intro: audit_okI)

lemma audit_entry_ok: "audit_entry L H r c = Inr a \<Longrightarrow> audit_ok L a"
  by (auto simp: audit_entry_def Let_def bindR_Inr_iff intro: audit_createD)

text \<open>
  What a recorder relies on: a store that refuses a record is unchanged, one that takes it holds it
  and everything it held before.
\<close>

locale audit_store =
  fixes L :: lib and put :: "'s \<Rightarrow> audit_reference \<Rightarrow> string res \<times> 's"
    and ok :: "'s \<Rightarrow> bool" and contents :: "'s \<Rightarrow> audit_reference set"
  assumes append_refused: "ok s \<Longrightarrow> audit_ok L a \<Longrightarrow> put s a = (Inl e, s') \<Longrightarrow> s' = s"
    and append_ok: "ok s \<Longrightarrow> audit_ok L a \<Longrightarrow> put s a = (Inr st, s') \<Longrightarrow> ok s'"
    and append_contents: "ok s \<Longrightarrow> audit_ok L a \<Longrightarrow> put s a = (Inr st, s') \<Longrightarrow> contents s' = insert a (contents s)"
begin

lemma record_contents:
  assumes "ok s" "audit_record L H put r s c = (res, s')"
  shows "ok s' \<and> contents s' = contents s \<union> {a. res = Inr a}"
proof (cases "audit_entry L H r c")
  case (Inr a)
  note a = audit_entry_ok [OF Inr]
  obtain u s1 where ap: "put s a = (u, s1)" by fastforce
  show ?thesis
  proof (cases u)
    case (Inl e)
    with ap have "s1 = s" using append_refused [OF assms(1) a] by blast
    with assms ap Inl Inr show ?thesis by (auto simp: audit_record_def)
  next
    case (Inr st)
    with ap have "ok s1" "contents s1 = insert a (contents s)"
      using append_ok [OF assms(1) a] append_contents [OF assms(1) a] by blast+
    moreover have "res = Inr a" "s' = s1" using assms(2) ap Inr \<open>audit_entry L H r c = Inr a\<close> by (simp_all add: audit_record_def)
    ultimately show ?thesis by simp
  qed
qed (use assms in \<open>auto simp: audit_record_def\<close>)

lemma run_contents:
  "ok s \<Longrightarrow> run_audits L H put r s cs = (rs, s') \<Longrightarrow> ok s' \<and> contents s' = contents s \<union> {a. Inr a \<in> set rs}"
proof (induction cs arbitrary: s rs)
  case (Cons c cs)
  obtain a s1 where a: "audit_record L H put r s c = (a, s1)" by fastforce
  obtain as s2 where as: "run_audits L H put r s1 cs = (as, s2)" by fastforce
  from record_contents [OF Cons.prems(1) a] have 1: "ok s1" "contents s1 = contents s \<union> {x. a = Inr x}" by blast+
  have "s2 = s'" "rs = a # as" using Cons.prems(2) a as by auto
  with Cons.IH [OF 1(1), of as] as 1(2) show ?case by auto
qed simp

end

definition sink_ok :: "lib \<Rightarrow> audit_sink \<Rightarrow> bool" where
  "sink_ok L s \<longleftrightarrow> nfc_ascii L \<and> (\<exists>as. holds_records L as s)"

definition sink_contents :: "lib \<Rightarrow> audit_sink \<Rightarrow> audit_reference set" where
  "sink_contents L s = {a. audit_ok L a \<and> (au_id a, audit_bytes L a) \<in> set (sk_records s)}"

lemma sink_contents_eq: "nfc_ascii L \<Longrightarrow> holds_records L as s \<Longrightarrow> sink_contents L s = set as"
  using audit_table.enc_inject [of L] by (auto simp: sink_contents_def holds_records_def)

lemma sink_append_max: "snd (sink_append L s a) = s' \<Longrightarrow> max_records s' = max_records s"
  by (auto simp: sink_append_def stop_def split: sum.splits option.splits if_splits)

interpretation sink: audit_store L "sink_append L" "sink_ok L" "sink_contents L" for L
proof
  fix s a e s' st
  assume "sink_ok L s" and a: "audit_ok L a"
  then obtain as where s: "nfc_ascii L" "holds_records L as s" by (auto simp: sink_ok_def)
  show "s' = s" if "sink_append L s a = (Inl e, s')" using sink_append_cases [OF s a] that by auto
  show "sink_ok L s'" if "sink_append L s a = (Inr st, s')" using sink_append_cases [OF s a] that s(1) by (auto simp: sink_ok_def)
  show "sink_contents L s' = insert a (sink_contents L s)" if "sink_append L s a = (Inr st, s')"
  proof -
    from sink_append_cases [OF s a] that obtain as' where "holds_records L as' s'" "set as' = insert a (set as)" by auto
    then show ?thesis using sink_contents_eq [OF s(1)] s(2) by auto
  qed
qed

lemma run_audits_max: "max_records (snd (run_audits L H (sink_append L) r s cs)) = max_records s"
proof (induction cs arbitrary: s)
  case (Cons c cs)
  have "max_records (snd (audit_record L H (sink_append L) r s c)) = max_records s"
    using sink_append_max by (auto simp: audit_record_def stop_def split: sum.splits prod.splits) (metis snd_conv)+
  with Cons [of "snd (audit_record L H (sink_append L) r s c)"] show ?case by (simp add: split_beta Let_def)
qed simp

text \<open>
  C33: the audit trail is exact. After any sequence of calls of the recorder on a fresh bounded store,
  reading the store succeeds and gives exactly the records whose recording was reported as
  successful, each once and in the order of their identifiers, and never more than the bound.
\<close>

theorem audit_trail_exact:
  assumes "nfc_ascii L" and "new_sink n = Inr s0" and "run_audits L H (sink_append L) r s0 cs = (rs, s)"
  shows "\<exists>as. sink_records L s = Inr as \<and> set as = {a. Inr a \<in> set rs} \<and> sorted (map au_id as) \<and> distinct (map au_id as) \<and>
    int (length as) \<le> n"
proof -
  have s0: "s0 = \<lparr>max_records = n, sk_records = []\<rparr>" "1 \<le> n" using assms(2) by (auto simp: new_sink_def split: if_splits)
  then have "sink_ok L s0" "sink_contents L s0 = {}"
    using assms(1) by (auto simp: sink_ok_def holds_records_def sink_contents_def)
  with sink.run_contents [OF _ assms(3)] have s: "sink_ok L s" "sink_contents L s = {a. Inr a \<in> set rs}" by auto
  then obtain as where as: "holds_records L as s" by (auto simp: sink_ok_def)
  have "max_records s = n" using run_audits_max [of L H r s0 cs] assms(3) s0(1) by simp
  with as have "int (length as) \<le> n" "distinct (map au_id as)" by (auto simp: holds_records_def)
  then show ?thesis
    using sink_records_eq [OF assms(1) as] sink_contents_eq [OF assms(1) as] s(2) by (intro exI [of _ "sort_key au_id as"]) simp
qed

subsection \<open>Recording succeeds on well-formed calls\<close>

lemma contract_hash_json: "normal L j \<Longrightarrow> \<exists>h. contract_hash L (json_py j) = Inr h"
  using contract.to_bytes_eq [of L "json_py j"] admissible_json_py [of L j]
  by (auto simp: contract_hash_def contract_canonical_bytes_def simp del: json_py.simps)

definition audit_valid :: "audit_reference \<Rightarrow> bool" where
  "audit_valid a \<longleftrightarrow> au_version a = AUDIT_RECORD_VERSION \<and> list_all is_hex64 [au_workspace a, au_actor a, au_operation a, au_correlation a] \<and>
     list_all is_code [au_action a, au_outcome a, au_reason a, au_policy_version a] \<and>
     (\<forall>g. au_generation_id a = Some g \<longrightarrow> is_object_id g) \<and> isOk (timestamp (au_occurred_at a)) \<and>
     sorted_set (au_object_refs a) = au_object_refs a \<and> list_all is_hex64 (au_object_refs a)"

lemma sorted_strings_ok:
  "sorted_set ss = ss \<Longrightarrow> list_all is_hex64 ss \<Longrightarrow> sorted_strings is_hex64 True (PList (map PStr ss)) = Inr ss"
  by (auto simp: sorted_strings_Inr list_all_iff is_hex64_def)

lemma audit_body_json:
  assumes "nfc_ascii L" "audit_valid a"
  shows "\<exists>kvs. listed_body audit_identity_fields (audit_to_mapping a) = json_py (JObj kvs) \<and> normal L (JObj kvs)"
proof -
  have v: "is_hex64 (au_workspace a)" "is_hex64 (au_actor a)" "is_hex64 (au_operation a)" "is_hex64 (au_correlation a)"
    "is_code (au_action a)" "is_code (au_outcome a)" "is_code (au_reason a)" "is_code (au_policy_version a)" "list_all is_hex64 (au_object_refs a)"
    "\<forall>g. au_generation_id a = Some g \<longrightarrow> is_object_id g"
    using assms(2) by (simp_all add: audit_valid_def)
  note A = v(1-4) [THEN hex64_ascii] v(5-8) [THEN code_ascii]
  have "ascii_str (au_occurred_at a)" using assms(2) timestamp_ascii by (auto simp: audit_valid_def isOk_iff)
  moreover have "normal L (jopt (au_generation_id a))" using v(10) object_id_ascii by (intro normal_jopt [OF assms(1)]) blast
  moreover have "normal L (JList (map JStr (au_object_refs a)))"
    using v(9) hex64_ascii by (intro normal_strs [OF assms(1)]) (auto simp: list_all_iff)
  moreover have "ascii_str (au_version a)" using assms(2) by (simp add: AUDIT_RECORD_VERSION_def audit_valid_def)
  ultimately have "normal L (JObj (map (\<lambda>k. (k, the (map_of (audit_json a) k))) audit_identity_fields))"
    using A nfc_asciiD [OF assms(1)] by (simp add: audit_json_def audit_identity_fields_def del: normal.simps(6))
  moreover have "listed_body audit_identity_fields (audit_to_mapping a) =
      json_py (JObj (map (\<lambda>k. (k, the (map_of (audit_json a) k))) audit_identity_fields))"
    by (simp add: listed_body_def pdict_def audit_identity_fields_def listed_def audit_json_def)
  ultimately show ?thesis by blast
qed

lemma audit_new_valid:
  assumes "nfc_ascii L" "audit_valid a"
  shows "\<exists>h. contract_hash L (listed_body audit_identity_fields (audit_to_mapping a)) = Inr h \<and>
    new_audit L (audit_to_mapping (a\<lparr>au_id := h\<rparr>)) = Inr (a\<lparr>au_id := h\<rparr>)"
proof -
  obtain h where h: "contract_hash L (listed_body audit_identity_fields (audit_to_mapping a)) = Inr h"
    using audit_body_json [OF assms] contract_hash_json by metis
  have b: "listed_body audit_identity_fields (audit_to_mapping (a\<lparr>au_id := h\<rparr>)) = listed_body audit_identity_fields (audit_to_mapping a)"
    by (simp add: listed_body_def audit_identity_fields_def listed_def)
  obtain t where t: "timestamp (au_occurred_at a) = Inr t" using assms(2) by (auto simp: audit_valid_def isOk_iff)
  have "new_audit L (audit_to_mapping (a\<lparr>au_id := h\<rparr>)) = Inr (a\<lparr>au_id := h\<rparr>)"
    unfolding new_audit_def b h
    using assms(2) t by (simp add: audit_valid_def op_timestamp_def sorted_strings_ok opt_str_that_iff popt_def split: option.splits)
  with h show ?thesis by blast
qed

definition call_ok :: "audit_call \<Rightarrow> bool" where
  "call_ok c \<longleftrightarrow> list_all (\<lambda>s. s \<noteq> []) ([ac_workspace_id c, ac_actor_id c, ac_operation_id c, ac_correlation_id c] @ ac_object_refs c) \<and>
     list_all is_code [ac_action c, ac_outcome c, ac_reason_code c] \<and>
     (\<forall>g. ac_generation_id c = Some g \<longrightarrow> is_object_id g) \<and> isOk (timestamp (ac_occurred_at c))"

definition ref_digest :: "hmac \<Rightarrow> audit_recorder \<Rightarrow> string \<Rightarrow> string" where
  "ref_digest H r v = hex (H (rh_key (ar_hasher r)) (rh_namespace (ar_hasher r) @ [CHR 0x00] @ v))"

lemma digest_eq: "v \<noteq> [] \<Longrightarrow> digest H (ar_hasher r) v = Inr (ref_digest H r v)"
  by (simp add: digest_def ref_digest_def)

lemma ref_digest_hex64: "hmac_ok H \<Longrightarrow> is_hex64 (ref_digest H r v)"
  by (simp add: is_hex64_def ref_digest_def hmac_ok_def hex_is_hex)

definition entry_of :: "hmac \<Rightarrow> audit_recorder \<Rightarrow> audit_call \<Rightarrow> audit_reference" where
  "entry_of H r c = \<lparr>au_version = AUDIT_RECORD_VERSION, au_id = [], au_workspace = ref_digest H r (ac_workspace_id c),
     au_actor = ref_digest H r (ac_actor_id c), au_operation = ref_digest H r (ac_operation_id c),
     au_correlation = ref_digest H r (ac_correlation_id c), au_action = ac_action c, au_outcome = ac_outcome c,
     au_reason = ac_reason_code c, au_generation_id = ac_generation_id c,
     au_object_refs = sorted_set (map (ref_digest H r) (ac_object_refs c)),
     au_policy_version = ar_policy_version r, au_occurred_at = ac_occurred_at c\<rparr>"

lemma entry_of_valid:
  assumes "hmac_ok H" "is_code (ar_policy_version r)" "call_ok c"
  shows "audit_valid (entry_of H r c)"
  using assms(2,3) by (auto simp: audit_valid_def entry_of_def call_ok_def ref_digest_hex64 [OF assms(1)] list_all_iff)

lemma field_Cons: "field ((k, v) # vs) k' = (if k' = k then v else field vs k')"
  by (simp add: field_def)

lemma audit_entry_valid:
  assumes "hmac_ok H" "nfc_ascii L" "is_code (ar_policy_version r)" "call_ok c"
  shows "\<exists>h. audit_entry L H r c = Inr ((entry_of H r c)\<lparr>au_id := h\<rparr>)"
proof -
  let ?e = "entry_of H r c"
  let ?vs = "[(''audit_record_version'', PStr AUDIT_RECORD_VERSION), (''workspace_ref_hash'', PStr (au_workspace ?e)), (''actor_ref_hash'', PStr (au_actor ?e)),
    (''operation_ref_hash'', PStr (au_operation ?e)), (''correlation_ref_hash'', PStr (au_correlation ?e)), (''action'', PStr (au_action ?e)),
    (''outcome'', PStr (au_outcome ?e)), (''reason_code'', PStr (au_reason ?e)), (''generation_id'', popt (au_generation_id ?e)),
    (''policy_version'', PStr (au_policy_version ?e)), (''occurred_at'', PStr (au_occurred_at ?e)),
    (''object_ref_digests'', PTuple (map PStr (au_object_refs ?e)))]"
  obtain h where h: "contract_hash L (listed_body audit_identity_fields (audit_to_mapping ?e)) = Inr h"
    "new_audit L (audit_to_mapping (?e\<lparr>au_id := h\<rparr>)) = Inr (?e\<lparr>au_id := h\<rparr>)"
    using audit_new_valid [OF assms(2) entry_of_valid [OF assms(1,3,4)]] by blast
  have ver: "au_version ?e = AUDIT_RECORD_VERSION" by (simp add: entry_of_def)
  have b: "listed_body audit_identity_fields ?vs = listed_body audit_identity_fields (audit_to_mapping ?e)"
    by (simp add: listed_body_def audit_identity_fields_def listed_def field_Cons ver)
  have n: "new_audit L (dict_set ''audit_id'' (PStr h) ?vs) = new_audit L (audit_to_mapping (?e\<lparr>au_id := h\<rparr>))"
  proof (rule new_audit_cong)
    have m: "map (listed (dict_set ''audit_id'' (PStr h) ?vs)) (''audit_id'' # audit_identity_fields) =
        map (listed (audit_to_mapping (?e\<lparr>au_id := h\<rparr>))) (''audit_id'' # audit_identity_fields)"
      by (simp add: audit_identity_fields_def listed_def field_Cons ver)
    show "listed (dict_set ''audit_id'' (PStr h) ?vs) k = listed (audit_to_mapping (?e\<lparr>au_id := h\<rparr>)) k"
      if "k \<in> set (''audit_id'' # audit_identity_fields)" for k
      using m that unfolding map_eq_conv by (rule bspec)
  qed
  have k: "set (dict_keys ?vs) = set audit_identity_fields" by (auto simp: audit_identity_fields_def)
  have m: "mapR (digest H (ar_hasher r)) (ac_object_refs c) = Inr (map (ref_digest H r) (ac_object_refs c))"
    using assms(4) by (intro mapR_all_Inr digest_eq) (auto simp: call_ok_def list_all_iff)
  let ?kw = "[(''workspace_ref_hash'', PStr (au_workspace ?e)), (''actor_ref_hash'', PStr (au_actor ?e)),
    (''operation_ref_hash'', PStr (au_operation ?e)), (''correlation_ref_hash'', PStr (au_correlation ?e)), (''action'', PStr (au_action ?e)),
    (''outcome'', PStr (au_outcome ?e)), (''reason_code'', PStr (au_reason ?e)), (''generation_id'', popt (au_generation_id ?e)),
    (''policy_version'', PStr (au_policy_version ?e)), (''occurred_at'', PStr (au_occurred_at ?e))]"
  have v: "dict_set ''object_ref_digests'' (PTuple (map PStr (sorted_set (au_object_refs ?e))))
      (fold (\<lambda>(k, v). dict_set k v) ?kw [(''audit_record_version'', PStr AUDIT_RECORD_VERSION)]) = ?vs"
    by (simp add: entry_of_def)
  have "audit_entry L H r c = audit_create L ?kw (au_object_refs ?e)"
    using assms(4) by (simp add: audit_entry_def Let_def call_ok_def digest_eq m entry_of_def)
  also have "\<dots> = Inr (?e\<lparr>au_id := h\<rparr>)" unfolding audit_create_def Let_def v b h k bindR_simps n by simp
  finally show ?thesis by blast
qed

subsection \<open>A concrete recording\<close>

definition demo_hmac :: hmac where
  "demo_hmac k m = take 32 (m @ replicate 32 CHR 0x00)"

definition demo_recorder :: audit_recorder where
  "demo_recorder = \<lparr>ar_hasher = \<lparr>rh_key = ''0123456789abcdef'', rh_namespace = ''audit-ref-v1''\<rparr>, ar_policy_version = ''policy-v1''\<rparr>"

definition demo_call :: audit_call where
  "demo_call = \<lparr>ac_workspace_id = ''w'', ac_actor_id = ''a'', ac_operation_id = ''o'', ac_correlation_id = ''c'',
     ac_action = ''export.request'', ac_outcome = ''accepted'', ac_reason_code = ''ok'', ac_occurred_at = ''2024-01-01T05:00:00Z'',
     ac_generation_id = None, ac_object_refs = [''r'']\<rparr>"

lemma demo_call_ok: "call_ok demo_call" "hmac_ok demo_hmac" "is_code (ar_policy_version demo_recorder)"
proof -
  have c: "is_code ''export.request''" "is_code ''accepted''" "is_code ''ok''" by code_simp+
  then show "call_ok demo_call" using demo_times(1) by (simp add: call_ok_def demo_call_def)
  show "hmac_ok demo_hmac" by (auto simp: hmac_ok_def demo_hmac_def)
  show "is_code (ar_policy_version demo_recorder)" by code_simp
qed

theorem audit_trail_exact_witness:
  "\<exists>a s. run_audits demo_lib demo_hmac (sink_append demo_lib) demo_recorder \<lparr>max_records = 1, sk_records = []\<rparr> [demo_call] = ([Inr a], s) \<and>
     sink_records demo_lib s = Inr [a] \<and> au_outcome a = ''accepted''"
proof -
  let ?s0 = "\<lparr>max_records = 1, sk_records = []\<rparr>"
  have n: "nfc_ascii demo_lib" by simp
  obtain h where e: "audit_entry demo_lib demo_hmac demo_recorder demo_call = Inr ((entry_of demo_hmac demo_recorder demo_call)\<lparr>au_id := h\<rparr>)"
    using audit_entry_valid [OF demo_call_ok(2) n demo_call_ok(3,1)] by blast
  let ?a = "(entry_of demo_hmac demo_recorder demo_call)\<lparr>au_id := h\<rparr>"
  have "audit_canonical_bytes demo_lib ?a = Inr (audit_bytes demo_lib ?a)" by (rule audit_bytes_eq [OF n audit_entry_ok [OF e]])
  then obtain s where r: "run_audits demo_lib demo_hmac (sink_append demo_lib) demo_recorder ?s0 [demo_call] = ([Inr ?a], s)"
    by (simp add: audit_record_def e sink_append_def)
  obtain as where as: "sink_records demo_lib s = Inr as" "set as = {?a}" "distinct (map au_id as)"
    using audit_trail_exact [OF n _ r, of 1] by (auto simp: new_sink_def)
  then have "as = [?a]" by (cases as; cases "tl as") auto
  with as(1) r show ?thesis by (auto simp: entry_of_def demo_call_def)
qed

end
