(* ===== verification/Telemetry.thy ===== *)
theory Telemetry
  imports AuditLog
begin

text \<open>
  \<open>memory_core/operability.py\<close>, third part: telemetry points, the allowlist and the emitter that
  applies it. The telemetry sink is behind a protocol, a function on its own state that may raise.

  The results: a point reaches the sink only within the allowlist, the retention time and the
  cardinality bound of its metric; the memory of admitted points stays within that bound; a
  delivery that fails is audited, and when that fails too the caller is told.
\<close>

subsection \<open>Telemetry points\<close>

definition TELEMETRY_POINT_VERSION :: string where
  "TELEMETRY_POINT_VERSION = ''phase3-telemetry-point-v1''"

record telemetry_point =
  tp_version :: string
  tp_id :: string
  tp_workspace :: string
  tp_metric_name :: string
  tp_time_bucket :: string
  tp_value_bucket :: string
  tp_count :: string
  tp_status_code :: string

definition telemetry_identity_fields :: "string list" where
  "telemetry_identity_fields = [''telemetry_point_version'', ''workspace_ref_hash'', ''metric_name'', ''time_bucket'',
     ''value_bucket'', ''count'', ''status_code'']"

definition new_point :: "lib \<Rightarrow> fields \<Rightarrow> telemetry_point res" where
  "new_point L values =
     bindR (guardR (field values ''telemetry_point_version'' = PStr TELEMETRY_POINT_VERSION) UnsupportedContractVersion) (\<lambda>_.
     bindR (guardR (str_that is_hex64 (field values ''workspace_ref_hash'')) InvalidContractValue) (\<lambda>_.
     bindR (guardR (\<forall>f\<in>{''metric_name'', ''value_bucket'', ''status_code''}. str_that is_code (field values f)) InvalidContractValue) (\<lambda>_.
     bindR (op_timestamp (field values ''time_bucket'')) (\<lambda>_.
     bindR (op_uint True (field values ''count'')) (\<lambda>_.
     bindR (contract_hash L (identity_body telemetry_identity_fields values)) (\<lambda>expected.
     bindR (guardR (field values ''point_id'' = PStr expected) InvalidContractValue) (\<lambda>_.
       Inr \<lparr>tp_version = the_str (field values ''telemetry_point_version''), tp_id = expected,
            tp_workspace = the_str (field values ''workspace_ref_hash''),
            tp_metric_name = the_str (field values ''metric_name''),
            tp_time_bucket = the_str (field values ''time_bucket''),
            tp_value_bucket = the_str (field values ''value_bucket''),
            tp_count = the_str (field values ''count''),
            tp_status_code = the_str (field values ''status_code'')\<rparr>)))))))"

definition point_create :: "lib \<Rightarrow> fields \<Rightarrow> telemetry_point res" where
  "point_create L kwargs =
     create_certified ''point_id'' telemetry_identity_fields new_point L
       (fold (\<lambda>(k, v). dict_set k v) kwargs [(''telemetry_point_version'', PStr TELEMETRY_POINT_VERSION)])"

definition point_from_mapping :: "lib \<Rightarrow> fields \<Rightarrow> telemetry_point res" where
  "point_from_mapping L data = bindR (op_strict data (''point_id'' # telemetry_identity_fields)) (new_point L)"

definition point_json :: "telemetry_point \<Rightarrow> (string \<times> json) list" where
  "point_json p =
     [(''telemetry_point_version'', JStr (tp_version p)), (''point_id'', JStr (tp_id p)),
      (''workspace_ref_hash'', JStr (tp_workspace p)), (''metric_name'', JStr (tp_metric_name p)),
      (''time_bucket'', JStr (tp_time_bucket p)), (''value_bucket'', JStr (tp_value_bucket p)),
      (''count'', JStr (tp_count p)), (''status_code'', JStr (tp_status_code p))]"

definition point_to_mapping :: "telemetry_point \<Rightarrow> fields" where
  "point_to_mapping p = map (\<lambda>(k, v). (k, json_py v)) (point_json p)"

definition point_canonical_bytes :: "lib \<Rightarrow> telemetry_point \<Rightarrow> bytes res" where
  "point_canonical_bytes L p = contract_canonical_bytes L (pdict (point_to_mapping p))"

lemma point_field_simps [simp]:
  "field (point_to_mapping p) ''telemetry_point_version'' = PStr (tp_version p)"
  "field (point_to_mapping p) ''point_id'' = PStr (tp_id p)"
  "field (point_to_mapping p) ''workspace_ref_hash'' = PStr (tp_workspace p)"
  "field (point_to_mapping p) ''metric_name'' = PStr (tp_metric_name p)"
  "field (point_to_mapping p) ''time_bucket'' = PStr (tp_time_bucket p)"
  "field (point_to_mapping p) ''value_bucket'' = PStr (tp_value_bucket p)"
  "field (point_to_mapping p) ''count'' = PStr (tp_count p)"
  "field (point_to_mapping p) ''status_code'' = PStr (tp_status_code p)"
  by (simp_all add: field_def point_to_mapping_def point_json_def)

lemma new_pointD:
  assumes "new_point L v = Inr p"
  shows "field v ''telemetry_point_version'' = PStr (tp_version p)" "field v ''point_id'' = PStr (tp_id p)"
    "field v ''workspace_ref_hash'' = PStr (tp_workspace p)" "field v ''metric_name'' = PStr (tp_metric_name p)"
    "field v ''time_bucket'' = PStr (tp_time_bucket p)" "field v ''value_bucket'' = PStr (tp_value_bucket p)"
    "field v ''count'' = PStr (tp_count p)" "field v ''status_code'' = PStr (tp_status_code p)"
    "\<exists>t. timestamp (tp_time_bucket p) = Inr t" "contract_hash L (identity_body telemetry_identity_fields v) = Inr (tp_id p)"
    "tp_version p = TELEMETRY_POINT_VERSION" "is_hex64 (tp_workspace p)" "is_code (tp_metric_name p)" "is_code (tp_value_bucket p)"
    "is_code (tp_status_code p)" "canonical_pos (tp_count p)"
proof -
  from assms obtain t n h where c:
    "field v ''telemetry_point_version'' = PStr TELEMETRY_POINT_VERSION" "str_that is_hex64 (field v ''workspace_ref_hash'')"
    "\<forall>f\<in>{''metric_name'', ''value_bucket'', ''status_code''}. str_that is_code (field v f)"
    "op_timestamp (field v ''time_bucket'') = Inr t" "op_uint True (field v ''count'') = Inr n"
    "contract_hash L (identity_body telemetry_identity_fields v) = Inr h" "field v ''point_id'' = PStr h"
    and p: "p = \<lparr>tp_version = the_str (field v ''telemetry_point_version''), tp_id = h,
            tp_workspace = the_str (field v ''workspace_ref_hash''), tp_metric_name = the_str (field v ''metric_name''),
            tp_time_bucket = the_str (field v ''time_bucket''), tp_value_bucket = the_str (field v ''value_bucket''),
            tp_count = the_str (field v ''count''), tp_status_code = the_str (field v ''status_code'')\<rparr>"
    unfolding new_point_def bindR_Inr_iff guardR_Inr_iff by blast
  have h: "str_that is_code (field v ''metric_name'')" "str_that is_code (field v ''value_bucket'')" "str_that is_code (field v ''status_code'')"
    using c(3) by simp_all
  show "field v ''telemetry_point_version'' = PStr (tp_version p)" "field v ''point_id'' = PStr (tp_id p)" "tp_version p = TELEMETRY_POINT_VERSION"
    "contract_hash L (identity_body telemetry_identity_fields v) = Inr (tp_id p)"
    using c(1,6,7) by (simp_all add: p)
  show "field v ''workspace_ref_hash'' = PStr (tp_workspace p)" "field v ''metric_name'' = PStr (tp_metric_name p)"
    "field v ''value_bucket'' = PStr (tp_value_bucket p)" "field v ''status_code'' = PStr (tp_status_code p)"
    using h c(2) by (simp_all add: p)
  show "is_hex64 (tp_workspace p)" "is_code (tp_metric_name p)" "is_code (tp_value_bucket p)" "is_code (tp_status_code p)"
    using h c(2) by (auto simp: p str_that_iff)
  show "field v ''time_bucket'' = PStr (tp_time_bucket p)" "\<exists>t. timestamp (tp_time_bucket p) = Inr t"
    using c(4) by (auto simp: p op_timestamp_Inr)
  show "field v ''count'' = PStr (tp_count p)" "canonical_pos (tp_count p)" using c(5) by (auto simp: p op_uint_Inr)
qed

lemma new_point_cong:
  assumes "\<And>k. k \<in> set (''point_id'' # telemetry_identity_fields) \<Longrightarrow> field v k = field w k"
  shows "new_point L v = new_point L w"
proof -
  have b: "identity_body telemetry_identity_fields v = identity_body telemetry_identity_fields w"
    using assms unfolding identity_body_def by (simp cong: map_cong)
  have f: "field v ''telemetry_point_version'' = field w ''telemetry_point_version''" "field v ''point_id'' = field w ''point_id''"
    "field v ''workspace_ref_hash'' = field w ''workspace_ref_hash''" "field v ''metric_name'' = field w ''metric_name''"
    "field v ''time_bucket'' = field w ''time_bucket''" "field v ''value_bucket'' = field w ''value_bucket''"
    "field v ''count'' = field w ''count''" "field v ''status_code'' = field w ''status_code''"
    by (rule assms, simp add: telemetry_identity_fields_def)+
  show ?thesis unfolding new_point_def b by (simp add: f)
qed

interpretation point: self_certified "''point_id''" telemetry_identity_fields new_point point_to_mapping field
proof
  show "contract_hash L (pdict (map (\<lambda>k. (k, field v k)) telemetry_identity_fields)) = Inr (the_str (field (point_to_mapping a) ''point_id''))"
    if "new_point L v = Inr a" for L v a
    using new_pointD(10) [OF that] by (simp add: identity_body_def)
  show "field (point_to_mapping a) k = field v k"
    if "new_point L v = Inr a" "k \<in> set (''point_id'' # telemetry_identity_fields)" for L v a k
    using that(2) new_pointD(1-8) [OF that(1)] by (auto simp: telemetry_identity_fields_def)
  show "new_point L v = new_point L w"
    if "\<And>k. k \<in> set (''point_id'' # telemetry_identity_fields) \<Longrightarrow> field v k = field w k" for v w L
    by (rule new_point_cong) (rule that)
  show "list_all (list_all (\<lambda>c. (of_char c :: nat) < 128)) telemetry_identity_fields" by (simp add: telemetry_identity_fields_def)
qed (rule refl)

subsection \<open>Allowlists\<close>

record metric_allowlist =
  value_buckets :: "string list"
  status_codes :: "string list"
  max_cardinality :: int
  retention_seconds :: int

definition new_metric_allowlist :: "pyval \<Rightarrow> pyval \<Rightarrow> int \<Rightarrow> int \<Rightarrow> metric_allowlist res" where
  "new_metric_allowlist buckets statuses cardinality retention =
     bindR (sorted_strings is_code False buckets) (\<lambda>vs.
     bindR (sorted_strings is_code False statuses) (\<lambda>ss.
     bindR (guardR (\<not> (cardinality < 1 \<or> retention < 1)) ValueError) (\<lambda>_.
       Inr \<lparr>value_buckets = vs, status_codes = ss, max_cardinality = cardinality, retention_seconds = retention\<rparr>)))"

type_synonym allowlist = "(string, metric_allowlist) dict"

definition new_allowlist :: "allowlist \<Rightarrow> allowlist res" where
  "new_allowlist metrics =
     (if metrics = [] then Inl ValueError
      else if \<not> list_all is_code (dict_keys metrics) then Inl InvalidContractValue
      else Inr metrics)"

definition DEFAULT_TELEMETRY_ALLOWLIST :: "allowlist res" where
  "DEFAULT_TELEMETRY_ALLOWLIST =
     bindR (new_metric_allowlist (PTuple [PStr ''small'']) (PTuple [PStr ''ok'']) 256 86400) (\<lambda>m. new_allowlist [(''queue.depth'', m)])"

subsection \<open>The emitter\<close>

text \<open>Per metric, the points admitted and when.\<close>

type_synonym metric_points = "(string, (string, int) dict) dict"

definition seen_of :: "metric_points \<Rightarrow> string \<Rightarrow> (string, int) dict" where
  "seen_of pts m = (case map_of pts m of None \<Rightarrow> [] | Some d \<Rightarrow> d)"

definition unexpired :: "metric_allowlist \<Rightarrow> int \<Rightarrow> (string, int) dict \<Rightarrow> (string, int) dict" where
  "unexpired policy current seen = filter (\<lambda>(_, admitted_at). \<not> current - admitted_at > retention_seconds policy) seen"

definition admit :: "allowlist \<Rightarrow> metric_points \<Rightarrow> telemetry_point \<Rightarrow> string \<Rightarrow> string option res \<times> metric_points" where
  "admit A pts p occurred_at =
     (case map_of A (tp_metric_name p) of
        None \<Rightarrow> (Inr (Some ''telemetry_metric_not_allowed''), pts)
      | Some policy \<Rightarrow>
          if tp_value_bucket p \<notin> set (value_buckets policy) then (Inr (Some ''telemetry_value_bucket_not_allowed''), pts)
          else if tp_status_code p \<notin> set (status_codes policy) then (Inr (Some ''telemetry_status_not_allowed''), pts)
          else
            stop pts (timestamp occurred_at) (\<lambda>current.
            stop pts (timestamp (tp_time_bucket p)) (\<lambda>bucket.
            if bucket > current \<or> current - bucket > retention_seconds policy
            then (Inr (Some ''telemetry_retention_exceeded''), pts)
            else
              let seen = unexpired policy current (seen_of pts (tp_metric_name p))
              in if tp_id p \<notin> set (dict_keys seen) \<and> int (length seen) \<ge> max_cardinality policy
                 then (Inr (Some ''telemetry_cardinality_exceeded''), dict_set (tp_metric_name p) seen pts)
                 else (Inr None, dict_set (tp_metric_name p) (dict_set (tp_id p) current seen) pts))))"

record telemetry_delivery_result =
  dl_status :: string
  dl_point_id :: string
  dl_error_code :: "string option"
  dl_audit_id :: "string option"

record emit_call =
  ec_workspace_id :: string
  ec_actor_id :: string
  ec_operation_id :: string
  ec_correlation_id :: string
  ec_occurred_at :: string

record ('t, 's) telemetry =
  tl_points :: metric_points
  tl_sink :: 't
  tl_audit :: 's

definition degraded_call :: "telemetry_point \<Rightarrow> emit_call \<Rightarrow> audit_call" where
  "degraded_call p c =
     \<lparr>ac_workspace_id = ec_workspace_id c, ac_actor_id = ec_actor_id c, ac_operation_id = ec_operation_id c,
      ac_correlation_id = ec_correlation_id c, ac_action = ''telemetry.emit'', ac_outcome = ''degraded'',
      ac_reason_code = ''telemetry_unavailable'', ac_occurred_at = ec_occurred_at c, ac_generation_id = None, ac_object_refs = [tp_id p]\<rparr>"

definition emit ::
    "lib \<Rightarrow> hmac \<Rightarrow> ('t \<Rightarrow> telemetry_point \<Rightarrow> unit res \<times> 't) \<Rightarrow> ('s \<Rightarrow> audit_reference \<Rightarrow> string res \<times> 's) \<Rightarrow> allowlist \<Rightarrow> audit_recorder \<Rightarrow>
     ('t, 's) telemetry \<Rightarrow> telemetry_point \<Rightarrow> emit_call \<Rightarrow> telemetry_delivery_result res \<times> ('t, 's) telemetry" where
  "emit L H deliver put A r w p c =
     (case admit A (tl_points w) p (ec_occurred_at c) of
        (Inl e, pts) \<Rightarrow> (Inl e, w\<lparr>tl_points := pts\<rparr>)
      | (Inr (Some rejection), pts) \<Rightarrow>
          (Inr \<lparr>dl_status = ''rejected'', dl_point_id = tp_id p, dl_error_code = Some rejection, dl_audit_id = None\<rparr>, w\<lparr>tl_points := pts\<rparr>)
      | (Inr None, pts) \<Rightarrow>
          (case deliver (tl_sink w) p of
             (Inr _, t) \<Rightarrow>
               (Inr \<lparr>dl_status = ''delivered'', dl_point_id = tp_id p, dl_error_code = None, dl_audit_id = None\<rparr>,
                w\<lparr>tl_points := pts, tl_sink := t\<rparr>)
           | (Inl _, t) \<Rightarrow>
               (case audit_record L H put r (tl_audit w) (degraded_call p c) of
                  (Inl _, s) \<Rightarrow> (Inl TelemetryAuditUnavailable, w\<lparr>tl_points := pts, tl_sink := t, tl_audit := s\<rparr>)
                | (Inr a, s) \<Rightarrow>
                    (Inr \<lparr>dl_status = ''audit_only'', dl_point_id = tp_id p, dl_error_code = Some ''telemetry_unavailable'',
                          dl_audit_id = Some (au_id a)\<rparr>,
                     w\<lparr>tl_points := pts, tl_sink := t, tl_audit := s\<rparr>))))"

subsection \<open>Properties\<close>

definition points_ok :: "allowlist \<Rightarrow> metric_points \<Rightarrow> bool" where
  "points_ok A pts \<longleftrightarrow>
     (\<forall>m seen. map_of pts m = Some seen \<longrightarrow> distinct (dict_keys seen) \<and>
        (\<exists>policy. map_of A m = Some policy \<and> int (length seen) \<le> max_cardinality policy))"

text \<open>What the allowlist demands of a point at a time.\<close>

definition within :: "allowlist \<Rightarrow> telemetry_point \<Rightarrow> string \<Rightarrow> bool" where
  "within A p at \<longleftrightarrow>
     (\<exists>policy current bucket. map_of A (tp_metric_name p) = Some policy \<and> tp_value_bucket p \<in> set (value_buckets policy) \<and>
        tp_status_code p \<in> set (status_codes policy) \<and> timestamp at = Inr current \<and> timestamp (tp_time_bucket p) = Inr bucket \<and>
        bucket \<le> current \<and> current - bucket \<le> retention_seconds policy)"

lemma points_okI:
  assumes "points_ok A pts" "map_of A m = Some policy" "distinct (dict_keys seen)" "int (length seen) \<le> max_cardinality policy"
  shows "points_ok A (dict_set m seen pts)"
  using assms by (simp add: points_ok_def)

lemma seen_ok:
  assumes "points_ok A pts" "map_of A m = Some policy" "1 \<le> max_cardinality policy"
  shows "distinct (dict_keys (unexpired policy now (seen_of pts m)))"
    "int (length (unexpired policy now (seen_of pts m))) \<le> max_cardinality policy"
proof -
  have "distinct (dict_keys (seen_of pts m))" "int (length (seen_of pts m)) \<le> max_cardinality policy"
    using assms by (fastforce simp: points_ok_def seen_of_def split: option.splits)+
  moreover have "length (unexpired policy now (seen_of pts m)) \<le> length (seen_of pts m)" by (simp add: unexpired_def)
  ultimately show "int (length (unexpired policy now (seen_of pts m))) \<le> max_cardinality policy"
    "distinct (dict_keys (unexpired policy now (seen_of pts m)))"
    by (linarith, simp add: distinct_map_filter unexpired_def)
qed

definition allowlist_ok :: "allowlist \<Rightarrow> bool" where
  "allowlist_ok A \<longleftrightarrow> (\<forall>policy\<in>snd ` set A. 1 \<le> max_cardinality policy)"

lemma admit_cases:
  assumes "allowlist_ok A" "points_ok A pts" "admit A pts p at = (res, pts')"
  shows "points_ok A pts'" "res = Inr None \<Longrightarrow> within A p at \<and> (\<exists>seen. map_of pts' (tp_metric_name p) = Some seen \<and> tp_id p \<in> set (dict_keys seen))"
    "res = Inl e \<Longrightarrow> pts' = pts"
proof -
  have "points_ok A pts' \<and> (res = Inr None \<longrightarrow> within A p at \<and> (\<exists>seen. map_of pts' (tp_metric_name p) = Some seen \<and> tp_id p \<in> set (dict_keys seen))) \<and>
    (res = Inl e \<longrightarrow> pts' = pts)"
  proof (cases "\<exists>policy current bucket. map_of A (tp_metric_name p) = Some policy \<and> tp_value_bucket p \<in> set (value_buckets policy) \<and>
      tp_status_code p \<in> set (status_codes policy) \<and> timestamp at = Inr current \<and> timestamp (tp_time_bucket p) = Inr bucket \<and>
      bucket \<le> current \<and> current - bucket \<le> retention_seconds policy")
    case True
    then obtain policy current bucket where t: "map_of A (tp_metric_name p) = Some policy" "tp_value_bucket p \<in> set (value_buckets policy)"
      "tp_status_code p \<in> set (status_codes policy)" "timestamp at = Inr current" "timestamp (tp_time_bucket p) = Inr bucket"
      "\<not> (bucket > current \<or> current - bucket > retention_seconds policy)" by fastforce
    let ?seen = "unexpired policy current (seen_of pts (tp_metric_name p))"
    have c: "1 \<le> max_cardinality policy" using assms(1) t(1) by (force simp: allowlist_ok_def dest: map_of_SomeD)
    note s = seen_ok [OF assms(2) t(1) c, of current]
    have a: "(res, pts') = (if tp_id p \<notin> set (dict_keys ?seen) \<and> int (length ?seen) \<ge> max_cardinality policy
        then (Inr (Some ''telemetry_cardinality_exceeded''), dict_set (tp_metric_name p) ?seen pts)
        else (Inr None, dict_set (tp_metric_name p) (dict_set (tp_id p) current ?seen) pts))"
      using assms(3) t by (simp add: admit_def Let_def)
    show ?thesis
    proof (cases "tp_id p \<notin> set (dict_keys ?seen) \<and> int (length ?seen) \<ge> max_cardinality policy")
      case True
      then show ?thesis using a points_okI [OF assms(2) t(1) s] by simp
    next
      case False
      have "distinct (dict_keys (dict_set (tp_id p) current ?seen))" using s(1) by (rule distinct_keys_set)
      moreover have "int (length (dict_set (tp_id p) current ?seen)) \<le> max_cardinality policy"
        using False s by (auto simp: length_dict_set)
      ultimately have "points_ok A (dict_set (tp_metric_name p) (dict_set (tp_id p) current ?seen) pts)" by (rule points_okI [OF assms(2) t(1)])
      moreover have "tp_id p \<in> set (dict_keys (dict_set (tp_id p) current ?seen))" unfolding dict_keys_set by simp
      moreover have "within A p at" using \<open>\<exists>policy current bucket. _\<close> unfolding within_def .
      moreover have "res = Inr None" "pts' = dict_set (tp_metric_name p) (dict_set (tp_id p) current ?seen) pts"
        using a unfolding if_not_P [OF False] by simp_all
      ultimately show ?thesis by simp
    qed
  next
    case False
    then have "pts' = pts \<and> res \<noteq> Inr None"
      using assms(3) by (auto simp: admit_def Let_def stop_def not_less split: option.splits if_splits sum.splits)
    with assms(2) show ?thesis by simp
  qed
  then show "points_ok A pts'" "res = Inr None \<Longrightarrow> within A p at \<and> (\<exists>seen. map_of pts' (tp_metric_name p) = Some seen \<and> tp_id p \<in> set (dict_keys seen))"
    "res = Inl e \<Longrightarrow> pts' = pts" by blast+
qed

lemma audit_record_Inr: "audit_record L H put r s c = (Inr a, s') \<Longrightarrow> audit_entry L H r c = Inr a"
  by (auto simp: audit_record_def stop_def split: sum.splits prod.splits)

lemma audit_create_new:
  assumes "audit_create L kw refs = Inr a"
  obtains h where "new_audit L (dict_set ''audit_id'' (PStr h) (dict_set ''object_ref_digests'' (PTuple (map PStr (sorted_set refs)))
    (fold (\<lambda>(k, v). dict_set k v) kw [(''audit_record_version'', PStr AUDIT_RECORD_VERSION)]))) = Inr a"
  using assms unfolding audit_create_def Let_def by (auto simp: bindR_Inr_iff simp del: set_map split: if_splits)

lemma entry_fields:
  assumes "audit_entry L H r c = Inr a"
  shows "au_action a = ac_action c" "au_outcome a = ac_outcome c" "au_reason a = ac_reason_code c" "au_occurred_at a = ac_occurred_at c"
proof -
  from assms obtain w x p k ds where "audit_create L
        [(''workspace_ref_hash'', PStr w), (''actor_ref_hash'', PStr x), (''operation_ref_hash'', PStr p),
         (''correlation_ref_hash'', PStr k), (''action'', PStr (ac_action c)), (''outcome'', PStr (ac_outcome c)),
         (''reason_code'', PStr (ac_reason_code c)), (''generation_id'', popt (ac_generation_id c)),
         (''policy_version'', PStr (ar_policy_version r)), (''occurred_at'', PStr (ac_occurred_at c))] (sorted_set ds) = Inr a"
    unfolding audit_entry_def Let_def bindR_Inr_iff by blast
  then obtain h where n: "new_audit L (dict_set ''audit_id'' (PStr h) (dict_set ''object_ref_digests'' (PTuple (map PStr (sorted_set (sorted_set ds))))
      (fold (\<lambda>(k, v). dict_set k v) [(''workspace_ref_hash'', PStr w), (''actor_ref_hash'', PStr x), (''operation_ref_hash'', PStr p),
         (''correlation_ref_hash'', PStr k), (''action'', PStr (ac_action c)), (''outcome'', PStr (ac_outcome c)),
         (''reason_code'', PStr (ac_reason_code c)), (''generation_id'', popt (ac_generation_id c)),
         (''policy_version'', PStr (ar_policy_version r)), (''occurred_at'', PStr (ac_occurred_at c))]
      [(''audit_record_version'', PStr AUDIT_RECORD_VERSION)]))) = Inr a"
    using audit_create_new by blast
  show "au_action a = ac_action c" using new_auditD(7) [OF n] by (simp add: field_Cons)
  show "au_outcome a = ac_outcome c" using new_auditD(8) [OF n] by (simp add: field_Cons)
  show "au_reason a = ac_reason_code c" using new_auditD(9) [OF n] by (simp add: field_Cons)
  show "au_occurred_at a = ac_occurred_at c" using new_auditD(13) [OF n] by (simp add: field_Cons)
qed

lemma timestamp_error: "timestamp s = Inl e \<Longrightarrow> e = InvalidContractValue"
  by (auto simp: timestamp_def split: if_splits)

lemma sink_refused: "sink_ok L s \<Longrightarrow> audit_record L H (sink_append L) r s c = (Inl e, s') \<Longrightarrow> s' = s"
  using sink.append_refused audit_entry_ok by (fastforce simp: audit_record_def stop_def split: sum.splits prod.splits)

text \<open>
  telemetry leaves the process only as the allowlist says. Emitting a point keeps the memory of
  each metric within its cardinality bound. Either neither the telemetry sink nor the audit store
  is touched and nothing is reported as delivered; or the point is of an allowed metric, bucket and status,
  not from the future and within the retention time, and has been counted, and then: it was
  delivered, or the sink raised and exactly one audit record of the degradation was added and its
  identifier reported, or neither was possible and the caller gets \<open>TelemetryAuditUnavailable\<close>.
\<close>

theorem telemetry_bounded_and_audited:
  assumes "allowlist_ok A" and "points_ok A (tl_points w)" and "sink_ok L (tl_audit w)"
    and "emit L H deliver (sink_append L) A r w p c = (res, w')"
  shows "points_ok A (tl_points w') \<and> sink_ok L (tl_audit w') \<and>
    (tl_sink w' = tl_sink w \<and> tl_audit w' = tl_audit w \<and>
       (res = Inl InvalidContractValue \<or> (\<exists>d. res = Inr d \<and> dl_status d = ''rejected'' \<and> dl_audit_id d = None)) \<or>
     within A p (ec_occurred_at c) \<and>
     (\<exists>seen. map_of (tl_points w') (tp_metric_name p) = Some seen \<and> tp_id p \<in> set (dict_keys seen)) \<and>
     (tl_audit w' = tl_audit w \<and> deliver (tl_sink w) p = (Inr (), tl_sink w') \<and> (\<exists>d. res = Inr d \<and> dl_status d = ''delivered'') \<or>
      (\<exists>e. deliver (tl_sink w) p = (Inl e, tl_sink w')) \<and>
      (tl_audit w' = tl_audit w \<and> res = Inl TelemetryAuditUnavailable \<or>
       (\<exists>a d. res = Inr d \<and> dl_status d = ''audit_only'' \<and> dl_audit_id d = Some (au_id a) \<and>
          sink_contents L (tl_audit w') = insert a (sink_contents L (tl_audit w)) \<and>
          au_action a = ''telemetry.emit'' \<and> au_outcome a = ''degraded''))))"
proof -
  obtain g pts where g: "admit A (tl_points w) p (ec_occurred_at c) = (g, pts)" by fastforce
  note A = admit_cases [OF assms(1,2) g]
  show ?thesis
  proof (cases "g = Inr None")
    case False
    have "g = Inl InvalidContractValue \<or> (\<exists>x. g = Inr (Some x))"
      using g False timestamp_error by (auto simp: admit_def Let_def stop_def split: option.splits if_splits sum.splits)
    then show ?thesis using assms(3,4) g A(1) by (auto simp: emit_def)
  next
    case True
    note w = A(2) [OF True]
    obtain u t where d: "deliver (tl_sink w) p = (u, t)" by fastforce
    obtain v s where a: "audit_record L H (sink_append L) r (tl_audit w) (degraded_call p c) = (v, s)" by fastforce
    note R = sink.record_contents [OF assms(3) a]
    show ?thesis
    proof (cases u)
      case (Inr x)
      then show ?thesis using assms(3,4) g True d w A(1) by (auto simp: emit_def)
    next
      case (Inl e)
      show ?thesis
      proof (cases v)
        case (Inl e')
        then have "s = tl_audit w" using a sink_refused [OF assms(3)] by blast
        then show ?thesis using assms(3,4) g True d w A(1) a Inl \<open>u = Inl e\<close> by (auto simp: emit_def)
      next
        case (Inr b)
        have "au_action b = ''telemetry.emit''" "au_outcome b = ''degraded''"
          using entry_fields [OF audit_record_Inr [OF a [unfolded Inr]]] by (simp_all add: degraded_call_def)
        then show ?thesis using assms(4) g True d w A(1) a R Inr \<open>u = Inl e\<close> by (auto simp: emit_def)
      qed
    qed
  qed
qed

definition demo_allowlist :: allowlist where
  "demo_allowlist = [(''queue.depth'', \<lparr>value_buckets = [''small''], status_codes = [''ok''], max_cardinality = 1, retention_seconds = 60\<rparr>)]"

definition demo_point :: telemetry_point where
  "demo_point = \<lparr>tp_version = TELEMETRY_POINT_VERSION, tp_id = ''p'', tp_workspace = ''w'', tp_metric_name = ''queue.depth'',
     tp_time_bucket = ''2024-01-01T05:00:00Z'', tp_value_bucket = ''small'', tp_count = ''1'', tp_status_code = ''ok''\<rparr>"

definition demo_emit :: emit_call where
  "demo_emit = \<lparr>ec_workspace_id = ''w'', ec_actor_id = ''a'', ec_operation_id = ''o'', ec_correlation_id = ''c'',
     ec_occurred_at = ''2024-01-01T05:00:00Z''\<rparr>"

text \<open>A sink that is down: the degradation is audited.\<close>

theorem telemetry_bounded_and_audited_witness:
  "\<exists>d w'. emit demo_lib demo_hmac (\<lambda>n p. (Inl HandlerException, n + 1)) (sink_append demo_lib) demo_allowlist demo_recorder
       \<lparr>tl_points = [], tl_sink = 0 :: nat, tl_audit = \<lparr>max_records = 1, sk_records = []\<rparr>\<rparr> demo_point demo_emit = (Inr d, w') \<and>
     dl_status d = ''audit_only'' \<and> tl_sink w' = 1 \<and> points_ok demo_allowlist (tl_points w') \<and>
     (\<exists>a. sink_contents demo_lib (tl_audit w') = {a} \<and> au_outcome a = ''degraded'')"
proof -
  let ?s = "\<lparr>max_records = 1, sk_records = []\<rparr>" and ?D = "\<lambda>(n :: nat) (p :: telemetry_point). (Inl HandlerException :: unit res, n + 1)"
  let ?w = "\<lparr>tl_points = [], tl_sink = 0 :: nat, tl_audit = ?s\<rparr>" and ?c = "degraded_call demo_point demo_emit"
  have n: "nfc_ascii demo_lib" by simp
  have k: "is_code ''telemetry.emit''" "is_code ''degraded''" "is_code ''telemetry_unavailable''" by code_simp+
  have "call_ok ?c" using k demo_times(1) by (simp add: call_ok_def degraded_call_def demo_point_def demo_emit_def)
  then obtain a where e: "audit_entry demo_lib demo_hmac demo_recorder ?c = Inr a"
    using audit_entry_valid [OF demo_call_ok(2) n demo_call_ok(3)] by blast
  then have "audit_canonical_bytes demo_lib a = Inr (audit_bytes demo_lib a)" by (intro audit_bytes_eq [OF n] audit_entry_ok)
  then obtain s where r: "audit_record demo_lib demo_hmac (sink_append demo_lib) demo_recorder ?s ?c = (Inr a, s)"
    by (simp add: audit_record_def e sink_append_def)
  have "admit demo_allowlist [] demo_point (ec_occurred_at demo_emit) = (Inr None, [(''queue.depth'', [(''p'', 63839682000)])])"
    using demo_times(1) by (simp add: admit_def demo_allowlist_def demo_point_def demo_emit_def seen_of_def unexpired_def)
  with r obtain d w' where m: "emit demo_lib demo_hmac ?D (sink_append demo_lib) demo_allowlist demo_recorder ?w demo_point demo_emit = (Inr d, w')"
    "dl_status d = ''audit_only''" "tl_sink w' = 1" by (simp add: emit_def)
  have h: "allowlist_ok demo_allowlist" "points_ok demo_allowlist (tl_points ?w)" "sink_ok demo_lib (tl_audit ?w)" "sink_contents demo_lib (tl_audit ?w) = {}"
    by (simp_all add: allowlist_ok_def demo_allowlist_def points_ok_def sink_ok_def holds_records_def sink_contents_def)
  from telemetry_bounded_and_audited [OF h(1-3) m(1)] m(2,3) h(4)
  have "points_ok demo_allowlist (tl_points w')" "\<exists>a. sink_contents demo_lib (tl_audit w') = {a} \<and> au_outcome a = ''degraded''" by auto
  with m show ?thesis by blast
qed

end
