(* ===== verification/ExportContracts.thy ===== *)
theory ExportContracts
  imports Telemetry Kinds
begin

text \<open>
  \<open>memory_core/operability.py\<close>, fourth part: export requests and the projection jobs made from
  them. A request is refused at construction when it asks for a forbidden field or for more
  sensitivity than its target class may hold; a job repeats the request's limits.
\<close>

subsection \<open>Limits\<close>

definition EXPORT_REQUEST_VERSION :: string where
  "EXPORT_REQUEST_VERSION = ''phase3-export-request-v1''"

definition EXPORT_JOB_VERSION :: string where
  "EXPORT_JOB_VERSION = ''phase3-export-projection-job-v1''"

definition FORBIDDEN_EXPORT_FIELDS :: "string list" where
  "FORBIDDEN_EXPORT_FIELDS = [''body'', ''content'', ''raw_content'', ''prompt'', ''response'', ''token'',
     ''api_key'', ''private_key'', ''secret'', ''credential'', ''redaction_mapping'']"

definition EXPORT_TARGET_CEILINGS :: "(string, sensitivity) dict" where
  "EXPORT_TARGET_CEILINGS = [(''public_bundle'', PUBLIC), (''internal_projection'', INTERNAL), (''private_archive'', PRIVATE)]"

text \<open>A lookup in a dictionary hashes the value first.\<close>

fun hashable :: "pyval \<Rightarrow> bool" where
  "hashable (PList _) = False"
| "hashable (PDict _) = False"
| "hashable (PTuple vs) = list_all hashable vs"
| "hashable _ = True"

definition ceiling_of :: "pyval \<Rightarrow> sensitivity res" where
  "ceiling_of v =
     (if \<not> hashable v then Inl TypeError
      else case v of
        PStr s \<Rightarrow> (case map_of EXPORT_TARGET_CEILINGS s of None \<Rightarrow> Inl InvalidContractValue | Some c \<Rightarrow> Inr c)
      | _ \<Rightarrow> Inl InvalidContractValue)"

definition sensitivity_of :: "pyval \<Rightarrow> sensitivity res" where
  "sensitivity_of v = (case v of PStr s \<Rightarrow> parse_sensitivity (JStr s) | _ \<Rightarrow> Inl ValueError)"

text \<open>\<open>_identity\<close> turns the tuple of field names into a list.\<close>

definition allow_listed :: "fields \<Rightarrow> string \<Rightarrow> pyval" where
  "allow_listed values k = (if k = ''field_allowlist'' then as_list (field values k) else field values k)"

definition allow_body :: "string list \<Rightarrow> fields \<Rightarrow> pyval" where
  "allow_body names values = pdict (map (\<lambda>k. (k, allow_listed values k)) names)"

definition forbidden_field :: "string \<Rightarrow> bool" where
  "forbidden_field f \<longleftrightarrow> set (split_on CHR ''.'' f) \<inter> set FORBIDDEN_EXPORT_FIELDS \<noteq> {}"

subsection \<open>Export requests\<close>

record export_request =
  xr_version :: string
  xr_id :: string
  xr_workspace_id :: string
  xr_actor_id :: string
  xr_as_of_generation_id :: string
  xr_target_class :: string
  xr_projection_profile :: string
  xr_field_allowlist :: "string list"
  xr_max_sensitivity :: string
  xr_delivery_intent_ref :: string
  xr_requested_at :: string

definition xreq_identity_fields :: "string list" where
  "xreq_identity_fields = [''export_request_version'', ''workspace_id'', ''actor_id'', ''as_of_generation_id'', ''target_class'', ''projection_profile'', ''field_allowlist'', ''max_sensitivity'', ''delivery_intent_ref'', ''requested_at'']"

definition new_xreq :: "lib \<Rightarrow> fields \<Rightarrow> export_request res" where
  "new_xreq L values =
     bindR (guardR (field values ''export_request_version'' = PStr EXPORT_REQUEST_VERSION) UnsupportedContractVersion) (\<lambda>_.
     bindR (guardR (nonempty_str (field values ''workspace_id'')) InvalidContractValue) (\<lambda>_.
     bindR (guardR (nonempty_str (field values ''actor_id'')) InvalidContractValue) (\<lambda>_.
     bindR (guardR (str_that is_object_id (field values ''as_of_generation_id'')) InvalidContractValue) (\<lambda>_.
     bindR (ceiling_of (field values ''target_class'')) (\<lambda>ceiling.
     bindR (guardR (str_that is_code (field values ''projection_profile'')) InvalidContractValue) (\<lambda>_.
     bindR (sorted_strings is_field_path False (field values ''field_allowlist'')) (\<lambda>fs.
     bindR (guardR (\<not> list_ex forbidden_field fs) InvalidContractValue) (\<lambda>_.
     bindR (sensitivity_of (field values ''max_sensitivity'')) (\<lambda>s.
     bindR (guardR (\<not> rank s > rank ceiling) InvalidContractValue) (\<lambda>_.
     bindR (guardR (str_that is_hex64 (field values ''delivery_intent_ref'')) InvalidContractValue) (\<lambda>_.
     bindR (op_timestamp (field values ''requested_at'')) (\<lambda>_.
     bindR (contract_hash L (allow_body xreq_identity_fields values)) (\<lambda>expected.
     bindR (guardR (field values ''request_id'' = PStr expected) InvalidContractValue) (\<lambda>_.
       Inr \<lparr>xr_version = the_str (field values ''export_request_version''),
            xr_id = expected,
            xr_workspace_id = the_str (field values ''workspace_id''),
            xr_actor_id = the_str (field values ''actor_id''),
            xr_as_of_generation_id = the_str (field values ''as_of_generation_id''),
            xr_target_class = the_str (field values ''target_class''),
            xr_projection_profile = the_str (field values ''projection_profile''),
            xr_field_allowlist = fs,
            xr_max_sensitivity = the_str (field values ''max_sensitivity''),
            xr_delivery_intent_ref = the_str (field values ''delivery_intent_ref''),
            xr_requested_at = the_str (field values ''requested_at'')\<rparr>))))))))))))))"

definition xreq_from_mapping :: "lib \<Rightarrow> fields \<Rightarrow> export_request res" where
  "xreq_from_mapping L data =
     bindR (op_strict data (''request_id'' # xreq_identity_fields)) (\<lambda>values.
     bindR (sorted_strings is_field_path False (field values ''field_allowlist'')) (\<lambda>fs.
     new_xreq L (dict_set ''field_allowlist'' (PTuple (map PStr fs)) values)))"

definition xreq_json :: "export_request \<Rightarrow> (string \<times> json) list" where
  "xreq_json x =
     [(''export_request_version'', JStr (xr_version x)),
      (''request_id'', JStr (xr_id x)),
      (''workspace_id'', JStr (xr_workspace_id x)),
      (''actor_id'', JStr (xr_actor_id x)),
      (''as_of_generation_id'', JStr (xr_as_of_generation_id x)),
      (''target_class'', JStr (xr_target_class x)),
      (''projection_profile'', JStr (xr_projection_profile x)),
      (''field_allowlist'', JList (map JStr (xr_field_allowlist x))),
      (''max_sensitivity'', JStr (xr_max_sensitivity x)),
      (''delivery_intent_ref'', JStr (xr_delivery_intent_ref x)),
      (''requested_at'', JStr (xr_requested_at x))]"

definition xreq_to_mapping :: "export_request \<Rightarrow> fields" where
  "xreq_to_mapping x = map (\<lambda>(k, v). (k, json_py v)) (xreq_json x)"

definition xreq_canonical_bytes :: "lib \<Rightarrow> export_request \<Rightarrow> bytes res" where
  "xreq_canonical_bytes L x = contract_canonical_bytes L (pdict (xreq_to_mapping x))"

lemma xreq_field_simps [simp]:
  "field (xreq_to_mapping x) ''export_request_version'' = PStr (xr_version x)"
  "field (xreq_to_mapping x) ''request_id'' = PStr (xr_id x)"
  "field (xreq_to_mapping x) ''workspace_id'' = PStr (xr_workspace_id x)"
  "field (xreq_to_mapping x) ''actor_id'' = PStr (xr_actor_id x)"
  "field (xreq_to_mapping x) ''as_of_generation_id'' = PStr (xr_as_of_generation_id x)"
  "field (xreq_to_mapping x) ''target_class'' = PStr (xr_target_class x)"
  "field (xreq_to_mapping x) ''projection_profile'' = PStr (xr_projection_profile x)"
  "field (xreq_to_mapping x) ''field_allowlist'' = PList (map PStr (xr_field_allowlist x))"
  "field (xreq_to_mapping x) ''max_sensitivity'' = PStr (xr_max_sensitivity x)"
  "field (xreq_to_mapping x) ''delivery_intent_ref'' = PStr (xr_delivery_intent_ref x)"
  "field (xreq_to_mapping x) ''requested_at'' = PStr (xr_requested_at x)"
  by (simp_all add: field_def xreq_to_mapping_def xreq_json_def del: json_py.simps(5))

subsection \<open>Export projection jobs\<close>

record export_job =
  xj_version :: string
  xj_id :: string
  xj_request_id :: string
  xj_workspace_id :: string
  xj_as_of_generation_id :: string
  xj_target_class :: string
  xj_projection_profile :: string
  xj_field_allowlist :: "string list"
  xj_max_sensitivity :: string
  xj_delivery_intent_ref :: string

definition xjob_identity_fields :: "string list" where
  "xjob_identity_fields = [''export_job_version'', ''request_id'', ''workspace_id'', ''as_of_generation_id'', ''target_class'', ''projection_profile'', ''field_allowlist'', ''max_sensitivity'', ''delivery_intent_ref'']"

definition new_xjob :: "lib \<Rightarrow> fields \<Rightarrow> export_job res" where
  "new_xjob L values =
     bindR (guardR (field values ''export_job_version'' = PStr EXPORT_JOB_VERSION) UnsupportedContractVersion) (\<lambda>_.
     bindR (guardR (str_that is_hex64 (field values ''request_id'')) InvalidContractValue) (\<lambda>_.
     bindR (guardR (nonempty_str (field values ''workspace_id'')) InvalidContractValue) (\<lambda>_.
     bindR (guardR (str_that is_object_id (field values ''as_of_generation_id'')) InvalidContractValue) (\<lambda>_.
     bindR (ceiling_of (field values ''target_class'')) (\<lambda>ceiling.
     bindR (guardR (str_that is_code (field values ''projection_profile'')) InvalidContractValue) (\<lambda>_.
     bindR (sorted_strings is_field_path False (field values ''field_allowlist'')) (\<lambda>fs.
     bindR (sensitivity_of (field values ''max_sensitivity'')) (\<lambda>s.
     bindR (guardR (\<not> rank s > rank ceiling) InvalidContractValue) (\<lambda>_.
     bindR (guardR (str_that is_hex64 (field values ''delivery_intent_ref'')) InvalidContractValue) (\<lambda>_.
     bindR (contract_hash L (allow_body xjob_identity_fields values)) (\<lambda>expected.
     bindR (guardR (field values ''job_id'' = PStr expected) InvalidContractValue) (\<lambda>_.
       Inr \<lparr>xj_version = the_str (field values ''export_job_version''),
            xj_id = expected,
            xj_request_id = the_str (field values ''request_id''),
            xj_workspace_id = the_str (field values ''workspace_id''),
            xj_as_of_generation_id = the_str (field values ''as_of_generation_id''),
            xj_target_class = the_str (field values ''target_class''),
            xj_projection_profile = the_str (field values ''projection_profile''),
            xj_field_allowlist = fs,
            xj_max_sensitivity = the_str (field values ''max_sensitivity''),
            xj_delivery_intent_ref = the_str (field values ''delivery_intent_ref'')\<rparr>))))))))))))"

definition xjob_from_mapping :: "lib \<Rightarrow> fields \<Rightarrow> export_job res" where
  "xjob_from_mapping L data =
     bindR (op_strict data (''job_id'' # xjob_identity_fields)) (\<lambda>values.
     bindR (sorted_strings is_field_path False (field values ''field_allowlist'')) (\<lambda>fs.
     new_xjob L (dict_set ''field_allowlist'' (PTuple (map PStr fs)) values)))"

definition xjob_json :: "export_job \<Rightarrow> (string \<times> json) list" where
  "xjob_json x =
     [(''export_job_version'', JStr (xj_version x)),
      (''job_id'', JStr (xj_id x)),
      (''request_id'', JStr (xj_request_id x)),
      (''workspace_id'', JStr (xj_workspace_id x)),
      (''as_of_generation_id'', JStr (xj_as_of_generation_id x)),
      (''target_class'', JStr (xj_target_class x)),
      (''projection_profile'', JStr (xj_projection_profile x)),
      (''field_allowlist'', JList (map JStr (xj_field_allowlist x))),
      (''max_sensitivity'', JStr (xj_max_sensitivity x)),
      (''delivery_intent_ref'', JStr (xj_delivery_intent_ref x))]"

definition xjob_to_mapping :: "export_job \<Rightarrow> fields" where
  "xjob_to_mapping x = map (\<lambda>(k, v). (k, json_py v)) (xjob_json x)"

definition xjob_canonical_bytes :: "lib \<Rightarrow> export_job \<Rightarrow> bytes res" where
  "xjob_canonical_bytes L x = contract_canonical_bytes L (pdict (xjob_to_mapping x))"

lemma xjob_field_simps [simp]:
  "field (xjob_to_mapping x) ''export_job_version'' = PStr (xj_version x)"
  "field (xjob_to_mapping x) ''job_id'' = PStr (xj_id x)"
  "field (xjob_to_mapping x) ''request_id'' = PStr (xj_request_id x)"
  "field (xjob_to_mapping x) ''workspace_id'' = PStr (xj_workspace_id x)"
  "field (xjob_to_mapping x) ''as_of_generation_id'' = PStr (xj_as_of_generation_id x)"
  "field (xjob_to_mapping x) ''target_class'' = PStr (xj_target_class x)"
  "field (xjob_to_mapping x) ''projection_profile'' = PStr (xj_projection_profile x)"
  "field (xjob_to_mapping x) ''field_allowlist'' = PList (map PStr (xj_field_allowlist x))"
  "field (xjob_to_mapping x) ''max_sensitivity'' = PStr (xj_max_sensitivity x)"
  "field (xjob_to_mapping x) ''delivery_intent_ref'' = PStr (xj_delivery_intent_ref x)"
  by (simp_all add: field_def xjob_to_mapping_def xjob_json_def del: json_py.simps(5))

subsection \<open>What the constructors accept\<close>

lemma nonempty_str_iff: "nonempty_str v \<longleftrightarrow> (\<exists>s. v = PStr s \<and> s \<noteq> [])"
  by (cases v) auto

lemma ceiling_ofD: "ceiling_of v = Inr c \<Longrightarrow> \<exists>s. v = PStr s \<and> map_of EXPORT_TARGET_CEILINGS s = Some c"
  by (cases v) (auto simp: ceiling_of_def split: if_splits option.splits)

lemma sensitivity_ofD: "sensitivity_of v = Inr u \<Longrightarrow> \<exists>s. v = PStr s \<and> parse_sensitivity (JStr s) = Inr u"
  by (cases v) (auto simp: sensitivity_of_def)

lemma allow_listed_other: "k \<noteq> ''field_allowlist'' \<Longrightarrow> allow_listed v k = field v k"
  by (simp add: allow_listed_def)

lemma allow_listed_strings:
  "allow_listed v ''field_allowlist'' = allow_listed w ''field_allowlist'' \<Longrightarrow>
   sorted_strings P e (field v ''field_allowlist'') = sorted_strings P e (field w ''field_allowlist'')"
  using as_list_simps(6) [of P e "field v ''field_allowlist''"] as_list_simps(6) [of P e "field w ''field_allowlist''"]
  by (simp add: allow_listed_def)

lemma new_xreqD:
  assumes "new_xreq L v = Inr x"
  shows "contract_hash L (allow_body xreq_identity_fields v) = Inr (xr_id x)"
    "field v ''export_request_version'' = PStr (xr_version x)"
    "field v ''request_id'' = PStr (xr_id x)"
    "field v ''workspace_id'' = PStr (xr_workspace_id x)"
    "field v ''actor_id'' = PStr (xr_actor_id x)"
    "field v ''as_of_generation_id'' = PStr (xr_as_of_generation_id x)"
    "field v ''target_class'' = PStr (xr_target_class x)"
    "field v ''projection_profile'' = PStr (xr_projection_profile x)"
    "allow_listed v ''field_allowlist'' = PList (map PStr (xr_field_allowlist x))"
    "field v ''max_sensitivity'' = PStr (xr_max_sensitivity x)"
    "field v ''delivery_intent_ref'' = PStr (xr_delivery_intent_ref x)"
    "field v ''requested_at'' = PStr (xr_requested_at x)"
    "xr_version x = EXPORT_REQUEST_VERSION"
    "xr_workspace_id x \<noteq> []"
    "xr_actor_id x \<noteq> []"
    "is_object_id (xr_as_of_generation_id x)"
    "is_code (xr_projection_profile x)"
    "sorted_strings is_field_path False (field v ''field_allowlist'') = Inr (xr_field_allowlist x)"
    "is_hex64 (xr_delivery_intent_ref x)"
    "\<exists>t. timestamp (xr_requested_at x) = Inr t"
    "\<exists>c u. map_of EXPORT_TARGET_CEILINGS (xr_target_class x) = Some c \<and> parse_sensitivity (JStr (xr_max_sensitivity x)) = Inr u \<and> rank u \<le> rank c"
    "\<not> list_ex forbidden_field (xr_field_allowlist x)"
proof -
  from assms obtain ceiling fs s t h where c:
    "field v ''export_request_version'' = PStr EXPORT_REQUEST_VERSION"
    "nonempty_str (field v ''workspace_id'')"
    "nonempty_str (field v ''actor_id'')"
    "str_that is_object_id (field v ''as_of_generation_id'')"
    "ceiling_of (field v ''target_class'') = Inr ceiling"
    "str_that is_code (field v ''projection_profile'')"
    "sorted_strings is_field_path False (field v ''field_allowlist'') = Inr fs"
    "sensitivity_of (field v ''max_sensitivity'') = Inr s"
    "str_that is_hex64 (field v ''delivery_intent_ref'')"
    "op_timestamp (field v ''requested_at'') = Inr t"
    "\<not> list_ex forbidden_field fs"
    "\<not> rank s > rank ceiling"
    "contract_hash L (allow_body xreq_identity_fields v) = Inr h"
    "field v ''request_id'' = PStr h"
    and x: "x = \<lparr>xr_version = the_str (field v ''export_request_version''), xr_id = h, xr_workspace_id = the_str (field v ''workspace_id''), xr_actor_id = the_str (field v ''actor_id''), xr_as_of_generation_id = the_str (field v ''as_of_generation_id''), xr_target_class = the_str (field v ''target_class''), xr_projection_profile = the_str (field v ''projection_profile''), xr_field_allowlist = fs, xr_max_sensitivity = the_str (field v ''max_sensitivity''), xr_delivery_intent_ref = the_str (field v ''delivery_intent_ref''), xr_requested_at = the_str (field v ''requested_at'')\<rparr>"
    unfolding new_xreq_def bindR_Inr_iff guardR_Inr_iff by blast
  show "contract_hash L (allow_body xreq_identity_fields v) = Inr (xr_id x)" "field v ''request_id'' = PStr (xr_id x)"
    using c by (simp_all add: x)
  show "field v ''export_request_version'' = PStr (xr_version x)" "xr_version x = EXPORT_REQUEST_VERSION" using c(1) by (simp_all add: x)
  show "field v ''workspace_id'' = PStr (xr_workspace_id x)" "xr_workspace_id x \<noteq> []" using c(2) by (auto simp: x nonempty_str_iff)
  show "field v ''actor_id'' = PStr (xr_actor_id x)" "xr_actor_id x \<noteq> []" using c(3) by (auto simp: x nonempty_str_iff)
  show "field v ''as_of_generation_id'' = PStr (xr_as_of_generation_id x)" "is_object_id (xr_as_of_generation_id x)" using c(4) by (auto simp: x str_that_iff)
  show "field v ''projection_profile'' = PStr (xr_projection_profile x)" "is_code (xr_projection_profile x)" using c(6) by (auto simp: x str_that_iff)
  show "allow_listed v ''field_allowlist'' = PList (map PStr (xr_field_allowlist x))" "sorted_strings is_field_path False (field v ''field_allowlist'') = Inr (xr_field_allowlist x)"
    using c(7) by (auto simp: x sorted_strings_Inr allow_listed_def)
  show "field v ''delivery_intent_ref'' = PStr (xr_delivery_intent_ref x)" "is_hex64 (xr_delivery_intent_ref x)" using c(9) by (auto simp: x str_that_iff)
  show "field v ''requested_at'' = PStr (xr_requested_at x)" "\<exists>t. timestamp (xr_requested_at x) = Inr t" using c(10) by (auto simp: x op_timestamp_Inr)
  show "field v ''target_class'' = PStr (xr_target_class x)" "field v ''max_sensitivity'' = PStr (xr_max_sensitivity x)"
    "\<exists>c u. map_of EXPORT_TARGET_CEILINGS (xr_target_class x) = Some c \<and> parse_sensitivity (JStr (xr_max_sensitivity x)) = Inr u \<and> rank u \<le> rank c"
    using ceiling_ofD [OF c(5)] sensitivity_ofD [OF c(8)] c(12) by (auto simp: x)
  show "\<not> list_ex forbidden_field (xr_field_allowlist x)" using c(11) by (simp add: x)
qed

lemma new_xreq_cong:
  assumes "\<And>k. k \<in> set (''request_id'' # xreq_identity_fields) \<Longrightarrow> allow_listed v k = allow_listed w k"
  shows "new_xreq L v = new_xreq L w"
proof -
  have b: "allow_body xreq_identity_fields v = allow_body xreq_identity_fields w"
    using assms unfolding allow_body_def by (simp cong: map_cong)
  have f: "field v ''export_request_version'' = field w ''export_request_version''"
    "field v ''request_id'' = field w ''request_id''"
    "field v ''workspace_id'' = field w ''workspace_id''"
    "field v ''actor_id'' = field w ''actor_id''"
    "field v ''as_of_generation_id'' = field w ''as_of_generation_id''"
    "field v ''target_class'' = field w ''target_class''"
    "field v ''projection_profile'' = field w ''projection_profile''"
    "field v ''max_sensitivity'' = field w ''max_sensitivity''"
    "field v ''delivery_intent_ref'' = field w ''delivery_intent_ref''"
    "field v ''requested_at'' = field w ''requested_at''"
    by (subst (1 2) allow_listed_other [symmetric], simp, rule assms, simp add: xreq_identity_fields_def)+
  have l: "sorted_strings is_field_path False (field v ''field_allowlist'') = sorted_strings is_field_path False (field w ''field_allowlist'')"
    by (rule allow_listed_strings, rule assms) (simp add: xreq_identity_fields_def)
  show ?thesis unfolding new_xreq_def b l f ..
qed

interpretation xreq: self_certified "''request_id''" xreq_identity_fields new_xreq xreq_to_mapping allow_listed
proof
  show "contract_hash L (pdict (map (\<lambda>k. (k, allow_listed v k)) xreq_identity_fields)) = Inr (the_str (field (xreq_to_mapping a) ''request_id''))"
    if "new_xreq L v = Inr a" for L v a
    using new_xreqD(1) [OF that] by (simp add: allow_body_def)
  show "field (xreq_to_mapping a) k = allow_listed v k"
    if "new_xreq L v = Inr a" "k \<in> set (''request_id'' # xreq_identity_fields)" for L v a k
  proof -
    have "map (field (xreq_to_mapping a)) (''request_id'' # xreq_identity_fields) = map (allow_listed v) (''request_id'' # xreq_identity_fields)"
      using new_xreqD(2-12) [OF that(1)] by (simp add: xreq_identity_fields_def allow_listed_other)
    from this [unfolded map_eq_conv] that(2) show ?thesis by (rule bspec)
  qed
  show "new_xreq L v = new_xreq L w"
    if "\<And>k. k \<in> set (''request_id'' # xreq_identity_fields) \<Longrightarrow> allow_listed v k = allow_listed w k" for v w L
    by (rule new_xreq_cong) (rule that)
  show "allow_listed (xreq_to_mapping a) k = field (xreq_to_mapping a) k" if "k \<in> set (''request_id'' # xreq_identity_fields)" for a k
    using that by (auto simp: xreq_identity_fields_def allow_listed_def)
  show "allow_listed v k = allow_listed w k" if "field v k = field w k" for v w k using that by (auto simp: allow_listed_def)
  show "list_all (list_all (\<lambda>c. (of_char c :: nat) < 128)) xreq_identity_fields" by (simp add: xreq_identity_fields_def)
qed

lemma new_xjobD:
  assumes "new_xjob L v = Inr x"
  shows "contract_hash L (allow_body xjob_identity_fields v) = Inr (xj_id x)"
    "field v ''export_job_version'' = PStr (xj_version x)"
    "field v ''job_id'' = PStr (xj_id x)"
    "field v ''request_id'' = PStr (xj_request_id x)"
    "field v ''workspace_id'' = PStr (xj_workspace_id x)"
    "field v ''as_of_generation_id'' = PStr (xj_as_of_generation_id x)"
    "field v ''target_class'' = PStr (xj_target_class x)"
    "field v ''projection_profile'' = PStr (xj_projection_profile x)"
    "allow_listed v ''field_allowlist'' = PList (map PStr (xj_field_allowlist x))"
    "field v ''max_sensitivity'' = PStr (xj_max_sensitivity x)"
    "field v ''delivery_intent_ref'' = PStr (xj_delivery_intent_ref x)"
    "xj_version x = EXPORT_JOB_VERSION"
    "is_hex64 (xj_request_id x)"
    "xj_workspace_id x \<noteq> []"
    "is_object_id (xj_as_of_generation_id x)"
    "is_code (xj_projection_profile x)"
    "sorted_strings is_field_path False (field v ''field_allowlist'') = Inr (xj_field_allowlist x)"
    "is_hex64 (xj_delivery_intent_ref x)"
    "\<exists>c u. map_of EXPORT_TARGET_CEILINGS (xj_target_class x) = Some c \<and> parse_sensitivity (JStr (xj_max_sensitivity x)) = Inr u \<and> rank u \<le> rank c"
proof -
  from assms obtain ceiling fs s h where c:
    "field v ''export_job_version'' = PStr EXPORT_JOB_VERSION"
    "str_that is_hex64 (field v ''request_id'')"
    "nonempty_str (field v ''workspace_id'')"
    "str_that is_object_id (field v ''as_of_generation_id'')"
    "ceiling_of (field v ''target_class'') = Inr ceiling"
    "str_that is_code (field v ''projection_profile'')"
    "sorted_strings is_field_path False (field v ''field_allowlist'') = Inr fs"
    "sensitivity_of (field v ''max_sensitivity'') = Inr s"
    "str_that is_hex64 (field v ''delivery_intent_ref'')"
    "\<not> rank s > rank ceiling"
    "contract_hash L (allow_body xjob_identity_fields v) = Inr h"
    "field v ''job_id'' = PStr h"
    and x: "x = \<lparr>xj_version = the_str (field v ''export_job_version''), xj_id = h, xj_request_id = the_str (field v ''request_id''), xj_workspace_id = the_str (field v ''workspace_id''), xj_as_of_generation_id = the_str (field v ''as_of_generation_id''), xj_target_class = the_str (field v ''target_class''), xj_projection_profile = the_str (field v ''projection_profile''), xj_field_allowlist = fs, xj_max_sensitivity = the_str (field v ''max_sensitivity''), xj_delivery_intent_ref = the_str (field v ''delivery_intent_ref'')\<rparr>"
    unfolding new_xjob_def bindR_Inr_iff guardR_Inr_iff by blast
  show "contract_hash L (allow_body xjob_identity_fields v) = Inr (xj_id x)" "field v ''job_id'' = PStr (xj_id x)"
    using c by (simp_all add: x)
  show "field v ''export_job_version'' = PStr (xj_version x)" "xj_version x = EXPORT_JOB_VERSION" using c(1) by (simp_all add: x)
  show "field v ''request_id'' = PStr (xj_request_id x)" "is_hex64 (xj_request_id x)" using c(2) by (auto simp: x str_that_iff)
  show "field v ''workspace_id'' = PStr (xj_workspace_id x)" "xj_workspace_id x \<noteq> []" using c(3) by (auto simp: x nonempty_str_iff)
  show "field v ''as_of_generation_id'' = PStr (xj_as_of_generation_id x)" "is_object_id (xj_as_of_generation_id x)" using c(4) by (auto simp: x str_that_iff)
  show "field v ''projection_profile'' = PStr (xj_projection_profile x)" "is_code (xj_projection_profile x)" using c(6) by (auto simp: x str_that_iff)
  show "allow_listed v ''field_allowlist'' = PList (map PStr (xj_field_allowlist x))" "sorted_strings is_field_path False (field v ''field_allowlist'') = Inr (xj_field_allowlist x)"
    using c(7) by (auto simp: x sorted_strings_Inr allow_listed_def)
  show "field v ''delivery_intent_ref'' = PStr (xj_delivery_intent_ref x)" "is_hex64 (xj_delivery_intent_ref x)" using c(9) by (auto simp: x str_that_iff)
  show "field v ''target_class'' = PStr (xj_target_class x)" "field v ''max_sensitivity'' = PStr (xj_max_sensitivity x)"
    "\<exists>c u. map_of EXPORT_TARGET_CEILINGS (xj_target_class x) = Some c \<and> parse_sensitivity (JStr (xj_max_sensitivity x)) = Inr u \<and> rank u \<le> rank c"
    using ceiling_ofD [OF c(5)] sensitivity_ofD [OF c(8)] c(10) by (auto simp: x)
qed

lemma new_xjob_cong:
  assumes "\<And>k. k \<in> set (''job_id'' # xjob_identity_fields) \<Longrightarrow> allow_listed v k = allow_listed w k"
  shows "new_xjob L v = new_xjob L w"
proof -
  have b: "allow_body xjob_identity_fields v = allow_body xjob_identity_fields w"
    using assms unfolding allow_body_def by (simp cong: map_cong)
  have f: "field v ''export_job_version'' = field w ''export_job_version''"
    "field v ''job_id'' = field w ''job_id''"
    "field v ''request_id'' = field w ''request_id''"
    "field v ''workspace_id'' = field w ''workspace_id''"
    "field v ''as_of_generation_id'' = field w ''as_of_generation_id''"
    "field v ''target_class'' = field w ''target_class''"
    "field v ''projection_profile'' = field w ''projection_profile''"
    "field v ''max_sensitivity'' = field w ''max_sensitivity''"
    "field v ''delivery_intent_ref'' = field w ''delivery_intent_ref''"
    by (subst (1 2) allow_listed_other [symmetric], simp, rule assms, simp add: xjob_identity_fields_def)+
  have l: "sorted_strings is_field_path False (field v ''field_allowlist'') = sorted_strings is_field_path False (field w ''field_allowlist'')"
    by (rule allow_listed_strings, rule assms) (simp add: xjob_identity_fields_def)
  show ?thesis unfolding new_xjob_def b l f ..
qed

interpretation xjob: self_certified "''job_id''" xjob_identity_fields new_xjob xjob_to_mapping allow_listed
proof
  show "contract_hash L (pdict (map (\<lambda>k. (k, allow_listed v k)) xjob_identity_fields)) = Inr (the_str (field (xjob_to_mapping a) ''job_id''))"
    if "new_xjob L v = Inr a" for L v a
    using new_xjobD(1) [OF that] by (simp add: allow_body_def)
  show "field (xjob_to_mapping a) k = allow_listed v k"
    if "new_xjob L v = Inr a" "k \<in> set (''job_id'' # xjob_identity_fields)" for L v a k
  proof -
    have "map (field (xjob_to_mapping a)) (''job_id'' # xjob_identity_fields) = map (allow_listed v) (''job_id'' # xjob_identity_fields)"
      using new_xjobD(2-11) [OF that(1)] by (simp add: xjob_identity_fields_def allow_listed_other)
    from this [unfolded map_eq_conv] that(2) show ?thesis by (rule bspec)
  qed
  show "new_xjob L v = new_xjob L w"
    if "\<And>k. k \<in> set (''job_id'' # xjob_identity_fields) \<Longrightarrow> allow_listed v k = allow_listed w k" for v w L
    by (rule new_xjob_cong) (rule that)
  show "allow_listed (xjob_to_mapping a) k = field (xjob_to_mapping a) k" if "k \<in> set (''job_id'' # xjob_identity_fields)" for a k
    using that by (auto simp: xjob_identity_fields_def allow_listed_def)
  show "allow_listed v k = allow_listed w k" if "field v k = field w k" for v w k using that by (auto simp: allow_listed_def)
  show "list_all (list_all (\<lambda>c. (of_char c :: nat) < 128)) xjob_identity_fields" by (simp add: xjob_identity_fields_def)
qed

text \<open>\<open>ExportRequest.create(**kwargs)\<close>, with the field names as their own argument, and \<open>from_request\<close>.\<close>

definition create_listed :: "string \<Rightarrow> string list \<Rightarrow> (lib \<Rightarrow> fields \<Rightarrow> 'a res) \<Rightarrow> lib \<Rightarrow> fields \<Rightarrow> 'a res" where
  "create_listed idf names new L values =
     (if \<not> set names \<subseteq> set (dict_keys values) then Inl KeyError
      else bindR (contract_hash L (allow_body names values)) (\<lambda>h.
        if \<not> set (dict_keys values) \<subseteq> set names then Inl TypeError
        else new L (dict_set idf (PStr h) values)))"

definition xreq_create :: "lib \<Rightarrow> fields \<Rightarrow> string list \<Rightarrow> export_request res" where
  "xreq_create L kwargs allowlist =
     create_listed ''request_id'' xreq_identity_fields new_xreq L
       (dict_set ''field_allowlist'' (PTuple (map PStr (sorted_set allowlist)))
         (fold (\<lambda>(k, v). dict_set k v) kwargs [(''export_request_version'', PStr EXPORT_REQUEST_VERSION)]))"

definition job_values :: "export_request \<Rightarrow> fields" where
  "job_values r =
     [(''export_job_version'', PStr EXPORT_JOB_VERSION), (''request_id'', PStr (xr_id r)), (''workspace_id'', PStr (xr_workspace_id r)),
      (''as_of_generation_id'', PStr (xr_as_of_generation_id r)), (''target_class'', PStr (xr_target_class r)),
      (''projection_profile'', PStr (xr_projection_profile r)), (''field_allowlist'', PTuple (map PStr (xr_field_allowlist r))),
      (''max_sensitivity'', PStr (xr_max_sensitivity r)), (''delivery_intent_ref'', PStr (xr_delivery_intent_ref r))]"

definition from_request :: "lib \<Rightarrow> export_request \<Rightarrow> export_job res" where
  "from_request L r =
     bindR (contract_hash L (allow_body xjob_identity_fields (job_values r))) (\<lambda>h.
       new_xjob L ((''job_id'', PStr h) # job_values r))"

subsection \<open>Valid contracts and their bytes\<close>

definition xreq_ok :: "lib \<Rightarrow> export_request \<Rightarrow> bool" where
  "xreq_ok L x \<longleftrightarrow> new_xreq L (xreq_to_mapping x) = Inr x"

definition xjob_ok :: "lib \<Rightarrow> export_job \<Rightarrow> bool" where
  "xjob_ok L x \<longleftrightarrow> new_xjob L (xjob_to_mapping x) = Inr x"

lemma xreq_okI: "new_xreq L v = Inr x \<Longrightarrow> xreq_ok L x"
  unfolding xreq_ok_def by (rule xreq.reparse)

lemma xjob_okI: "new_xjob L v = Inr x \<Longrightarrow> xjob_ok L x"
  unfolding xjob_ok_def by (rule xjob.reparse)

lemma field_path_ascii: "is_field_path s \<Longrightarrow> ascii_str s"
  by (cases s) (auto simp: is_field_path_def list_all_iff lower_char_def is_digit_def)

lemma limits_ascii:
  "map_of EXPORT_TARGET_CEILINGS s = Some c \<Longrightarrow> ascii_str s"
  "parse_sensitivity (JStr u) = Inr x \<Longrightarrow> ascii_str u"
  by (auto simp: EXPORT_TARGET_CEILINGS_def parse_sensitivity_def split: if_splits option.splits)

lemma allowlist_ascii: "sorted_strings is_field_path False v = Inr fs \<Longrightarrow> list_all ascii_str fs"
  using field_path_ascii by (auto simp: sorted_strings_Inr list_all_iff)

lemma xjob_restores:
  assumes "nfc_ascii L" "xjob_ok L x" "nfc L (xj_workspace_id x) = xj_workspace_id x"
  shows "\<exists>b j. xjob_canonical_bytes L x = Inr b \<and> loads b = Some j \<and> xjob_from_mapping L (json_fields j) = Inr x"
proof -
  note D = new_xjobD [OF assms(2) [unfolded xjob_ok_def]]
  obtain c u where cu: "map_of EXPORT_TARGET_CEILINGS (xj_target_class x) = Some c" "parse_sensitivity (JStr (xj_max_sensitivity x)) = Inr u"
    using D(19) by blast
  have "ascii_str (xj_version x)" using D(12) by (simp add: EXPORT_JOB_VERSION_def)
  moreover have "ascii_str (xj_id x)" using D(1) by (rule contract_hash_ascii)
  moreover note hex64_ascii [OF D(13)] object_id_ascii [OF D(15)] code_ascii [OF D(16)] hex64_ascii [OF D(18)]
    limits_ascii(1) [OF cu(1)] limits_ascii(2) [OF cu(2)]
  moreover have "normal L (JList (map JStr (xj_field_allowlist x)))" by (rule normal_strs [OF assms(1) allowlist_ascii [OF D(17)]])
  ultimately have n: "normal L (JObj (xjob_json x))"
    using nfc_asciiD [OF assms(1)] assms(3) by (simp add: xjob_json_def del: normal.simps(6))
  obtain b j where bj: "xjob_canonical_bytes L x = Inr b" "loads b = Some j" "new_xjob L (json_fields j) = Inr x"
    "set (dict_keys (json_fields j)) = set (dict_keys (xjob_to_mapping x))"
    using xjob.restore [OF assms(2) [unfolded xjob_ok_def] xjob_to_mapping_def n] unfolding xjob_canonical_bytes_def
    by (auto simp: xjob_json_def simp del: sort_keys.simps(6))
  have k: "set (dict_keys (xjob_to_mapping x)) = set (''job_id'' # xjob_identity_fields)"
    by (auto simp: xjob_to_mapping_def xjob_json_def xjob_identity_fields_def)
  have "new_xjob L (dict_set ''field_allowlist'' (PTuple (map PStr (xj_field_allowlist x))) (json_fields j)) = new_xjob L (json_fields j)"
    by (rule new_xjob_cong) (use new_xjobD(9) [OF bj(3)] in \<open>auto simp: allow_listed_def field_def\<close>)
  with bj k new_xjobD(17) [OF bj(3)] show ?thesis by (simp add: xjob_from_mapping_def op_strict_def)
qed

end
