(* ===== verification/Export.thy ===== *)
theory Export
  imports ExportContracts
begin

text \<open>
  \<open>memory_core/operability.py\<close>, last part: the bounded queue of projection jobs and the gateway that
  checks a request against the policy, queues a job and audits what it did. The job queue and the
  audit store are behind protocols; the gateway's lemmas are proved from what it relies on.

  The results: the queue hands out exactly the jobs it accepted, in order and within its bound; a
  job is queued only for an authorised request and never without an audit record, and an error
  of the audit store takes the job back.
\<close>

subsection \<open>The bounded queue of jobs\<close>

record job_submitter =
  max_jobs :: int
  js_jobs :: "(string, bytes) dict"
  js_order :: "string list"

definition new_submitter :: "int \<Rightarrow> job_submitter res" where
  "new_submitter n = (if n < 1 then Inl ValueError else Inr \<lparr>max_jobs = n, js_jobs = [], js_order = []\<rparr>)"

definition job_submit :: "lib \<Rightarrow> job_submitter \<Rightarrow> export_job \<Rightarrow> string res \<times> job_submitter" where
  "job_submit L s job =
     stop s (xjob_canonical_bytes L job) (\<lambda>payload.
     case map_of (js_jobs s) (xj_id job) of
       Some existing \<Rightarrow> if existing \<noteq> payload then (Inl OperabilityError, s) else (Inr ''duplicate'', s)
     | None \<Rightarrow>
         if int (length (js_jobs s)) \<ge> max_jobs s then (Inr ''queue_full'', s)
         else (Inr ''accepted'', s\<lparr>js_jobs := dict_set (xj_id job) payload (js_jobs s), js_order := js_order s @ [xj_id job]\<rparr>))"

definition job_cancel :: "job_submitter \<Rightarrow> string \<Rightarrow> bool res \<times> job_submitter" where
  "job_cancel s jid =
     (if jid \<notin> set (dict_keys (js_jobs s)) then (Inr False, s)
      else (Inr True, s\<lparr>js_jobs := dict_pop jid (js_jobs s), js_order := filter (\<lambda>v. v \<noteq> jid) (js_order s)\<rparr>))"

definition job_parse :: "lib \<Rightarrow> bytes \<Rightarrow> export_job res" where
  "job_parse L v = (case loads v of None \<Rightarrow> Inl JSONDecodeError | Some j \<Rightarrow> xjob_from_mapping L (json_fields j))"


definition job_count :: "job_submitter \<Rightarrow> int" where
  "job_count s = int (length (js_jobs s))"

text \<open>A job that its canonical bytes restore: valid, with a workspace name in normal form.\<close>

definition job_stable :: "lib \<Rightarrow> export_job \<Rightarrow> bool" where
  "job_stable L x \<longleftrightarrow> nfc_ascii L \<and> xjob_ok L x \<and> nfc L (xj_workspace_id x) = xj_workspace_id x"

definition job_bytes :: "lib \<Rightarrow> export_job \<Rightarrow> bytes" where
  "job_bytes L x = (case xjob_canonical_bytes L x of Inr b \<Rightarrow> b | Inl _ \<Rightarrow> [])"

lemma job_bytes_eq: "job_stable L x \<Longrightarrow> xjob_canonical_bytes L x = Inr (job_bytes L x)"
  using xjob_restores [of L x] by (auto simp: job_bytes_def job_stable_def)

interpretation job_table: byte_table "job_stable L" "job_bytes L" "job_parse L" xj_id for L
proof
  show "job_parse L (job_bytes L x) = Inr x" if "job_stable L x" for x
    using xjob_restores [of L x] job_bytes_eq [OF that] that by (auto simp: job_parse_def job_stable_def)
qed

text \<open>The dictionary and the deque hold a list of jobs, in the same order.\<close>

definition holds_jobs :: "lib \<Rightarrow> export_job list \<Rightarrow> job_submitter \<Rightarrow> bool" where
  "holds_jobs L js s \<longleftrightarrow>
     (\<forall>x\<in>set js. job_stable L x) \<and> distinct (map xj_id js) \<and> js_jobs s = map (\<lambda>x. (xj_id x, job_bytes L x)) js \<and>
     js_order s = map xj_id js \<and> int (length js) \<le> max_jobs s"

lemma job_keys: "holds_jobs L js s \<Longrightarrow> set (dict_keys (js_jobs s)) = xj_id ` set js"
  by (auto simp: holds_jobs_def)

lemma dict_pop_table: "dict_pop k (map (\<lambda>x. (f x, g x)) xs) = map (\<lambda>x. (f x, g x)) (filter (\<lambda>x. f x \<noteq> k) xs)"
  by (induction xs) auto

lemma job_submit_spec:
  assumes "holds_jobs L js s" "job_stable L x"
  shows "\<exists>r s'. job_submit L s x = (r, s') \<and> max_jobs s' = max_jobs s \<and>
    (if xj_id x \<in> xj_id ` set js then s' = s \<and> (r = Inr ''duplicate'' \<and> x \<in> set js \<or> r = Inl OperabilityError \<and> x \<notin> set js)
     else if int (length js) \<ge> max_jobs s then s' = s \<and> r = Inr ''queue_full''
     else r = Inr ''accepted'' \<and> holds_jobs L (js @ [x]) s')"
proof (cases "map_of (js_jobs s) (xj_id x)")
  case None
  then have new: "xj_id x \<notin> set (dict_keys (js_jobs s))" by (simp add: map_of_eq_None_iff)
  then have n: "xj_id x \<notin> xj_id ` set js" using job_keys [OF assms(1)] by simp
  have len: "length (js_jobs s) = length js" using assms(1) by (simp add: holds_jobs_def)
  let ?s = "s\<lparr>js_jobs := dict_set (xj_id x) (job_bytes L x) (js_jobs s), js_order := js_order s @ [xj_id x]\<rparr>"
  have "holds_jobs L (js @ [x]) ?s" if "\<not> int (length js) \<ge> max_jobs s"
    using assms new n that by (auto simp: holds_jobs_def dict_set_new)
  then show ?thesis using None n job_bytes_eq [OF assms(2)] by (simp add: job_submit_def len)
next
  case (Some v)
  have d: "distinct (map xj_id js)" "\<forall>y\<in>set js. job_stable L y" "js_jobs s = map (\<lambda>x. (xj_id x, job_bytes L x)) js"
    using assms(1) by (simp_all add: holds_jobs_def)
  obtain y where y: "y \<in> set js" "xj_id y = xj_id x" "v = job_bytes L y"
    using job_table.lookup [OF d(1), of L "xj_id x" v] Some d(3) by auto
  then have i: "xj_id x \<in> xj_id ` set js" by (metis imageI)
  have "v = job_bytes L x \<longleftrightarrow> x \<in> set js"
  proof
    assume "v = job_bytes L x"
    then show "x \<in> set js" using job_table.lookup_self [OF d(1,2) assms(2)] Some d(3) by simp
  next
    assume "x \<in> set js"
    then have "x = y" using y(1,2) d(1) by (auto simp: distinct_map inj_on_def)
    then show "v = job_bytes L x" using y(3) by simp
  qed
  then show ?thesis using Some i job_bytes_eq [OF assms(2)] by (auto simp: job_submit_def)
qed

lemma job_submit_cases:
  assumes "holds_jobs L js s" "job_stable L x"
  obtains (duplicate) "job_submit L s x = (Inr ''duplicate'', s)" "x \<in> set js"
  | (conflict) "job_submit L s x = (Inl OperabilityError, s)"
  | (full) "job_submit L s x = (Inr ''queue_full'', s)"
  | (accepted) s' where "job_submit L s x = (Inr ''accepted'', s')" "holds_jobs L (js @ [x]) s'" "xj_id x \<notin> xj_id ` set js"
  using job_submit_spec [OF assms] by metis

lemma job_cancel_spec:
  assumes "holds_jobs L js s"
  shows "\<exists>b s'. job_cancel s jid = (Inr b, s') \<and> (b \<longleftrightarrow> jid \<in> xj_id ` set js) \<and> holds_jobs L (filter (\<lambda>x. xj_id x \<noteq> jid) js) s' \<and> max_jobs s' = max_jobs s"
proof -
  have "length (filter (\<lambda>x. xj_id x \<noteq> jid) js) \<le> length js" "int (length js) \<le> max_jobs s" using assms by (simp_all add: holds_jobs_def)
  then have "int (length (filter (\<lambda>x. xj_id x \<noteq> jid) js)) \<le> max_jobs s" by linarith
  moreover have "filter (\<lambda>x. xj_id x \<noteq> jid) js = js" if "jid \<notin> xj_id ` set js" using that by (auto simp: filter_id_conv)
  ultimately show ?thesis using assms job_keys [OF assms]
    by (auto simp: job_cancel_def holds_jobs_def dict_pop_table filter_map comp_def distinct_map_filter)
qed


subsection \<open>The gateway\<close>

record export_submission_result =
  xs_status :: string
  xs_request_id :: string
  xs_job_id :: "string option"
  xs_error_code :: "string option"
  xs_audit_id :: "string option"

record export_gateway =
  xg_recorder :: audit_recorder
  xg_now :: string

record ('q, 's) export_world =
  xw_jobs :: 'q
  xw_audit :: 's

definition export_policy_request :: "export_gateway \<Rightarrow> export_request \<Rightarrow> sensitivity \<Rightarrow> policy_request" where
  "export_policy_request g req s =
     \<lparr>rq_workspace_id = xr_workspace_id req, rq_actor_id = xr_actor_id req, rq_action = ''export.request'', rq_now = xg_now g,
      rq_object_sensitivity = s\<rparr>"

definition export_audit_call :: "export_gateway \<Rightarrow> export_request \<Rightarrow> string \<Rightarrow> string \<Rightarrow> string \<Rightarrow> string list \<Rightarrow> audit_call" where
  "export_audit_call g req correlation out_come why refs =
     \<lparr>ac_workspace_id = xr_workspace_id req, ac_actor_id = xr_actor_id req, ac_operation_id = xr_id req, ac_correlation_id = correlation,
      ac_action = ''export.request'', ac_outcome = out_come, ac_reason_code = why, ac_occurred_at = xg_now g,
      ac_generation_id = Some (xr_as_of_generation_id req), ac_object_refs = refs\<rparr>"

text \<open>The second half of \<open>submit\<close>: the request is authorised and the job is made.\<close>

definition export_queue ::
    "lib \<Rightarrow> hmac \<Rightarrow> ('q \<Rightarrow> export_job \<Rightarrow> string res \<times> 'q) \<Rightarrow> ('q \<Rightarrow> string \<Rightarrow> bool res \<times> 'q) \<Rightarrow>
     ('s \<Rightarrow> audit_reference \<Rightarrow> string res \<times> 's) \<Rightarrow> export_gateway \<Rightarrow> ('q, 's) export_world \<Rightarrow>
     export_request \<Rightarrow> string \<Rightarrow> export_job \<Rightarrow> export_submission_result res \<times> ('q, 's) export_world" where
  "export_queue L H enq cancel put g w req correlation job =
     (let (q, jobs) = enq (xw_jobs w) job; w1 = w\<lparr>xw_jobs := jobs\<rparr>;
          st = (case q of Inl _ \<Rightarrow> ''unavailable'' | Inr st \<Rightarrow> st) in
      if st = ''duplicate''
      then (Inr \<lparr>xs_status = ''accepted'', xs_request_id = xr_id req, xs_job_id = Some (xj_id job), xs_error_code = None,
                 xs_audit_id = None\<rparr>, w1)
      else if st \<noteq> ''accepted''
      then
        let why = (if st = ''queue_full'' then ''export_queue_full'' else ''export_queue_unavailable'') in
        (case audit_record L H put (xg_recorder g) (xw_audit w1)
                (export_audit_call g req correlation ''deferred'' why [xj_id job, xr_delivery_intent_ref req]) of
           (Inl e, a) \<Rightarrow> (Inl e, w1\<lparr>xw_audit := a\<rparr>)
         | (Inr rec, a) \<Rightarrow>
             (Inr \<lparr>xs_status = ''retry_later'', xs_request_id = xr_id req, xs_job_id = None, xs_error_code = Some why,
                   xs_audit_id = Some (au_id rec)\<rparr>, w1\<lparr>xw_audit := a\<rparr>))
      else
        (case audit_record L H put (xg_recorder g) (xw_audit w1)
                (export_audit_call g req correlation ''accepted'' ''projection_job_queued'' [xj_id job, xr_delivery_intent_ref req]) of
           (Inl e, a) \<Rightarrow>
             (case cancel jobs (xj_id job) of
                (Inl e', jobs') \<Rightarrow> (Inl e', w1\<lparr>xw_audit := a, xw_jobs := jobs'\<rparr>)
              | (Inr _, jobs') \<Rightarrow> (Inl e, w1\<lparr>xw_audit := a, xw_jobs := jobs'\<rparr>))
         | (Inr rec, a) \<Rightarrow>
             (Inr \<lparr>xs_status = ''accepted'', xs_request_id = xr_id req, xs_job_id = Some (xj_id job), xs_error_code = None,
                   xs_audit_id = Some (au_id rec)\<rparr>, w1\<lparr>xw_audit := a\<rparr>)))"

definition export_submit ::
    "lib \<Rightarrow> hmac \<Rightarrow> ('q \<Rightarrow> export_job \<Rightarrow> string res \<times> 'q) \<Rightarrow> ('q \<Rightarrow> string \<Rightarrow> bool res \<times> 'q) \<Rightarrow>
     ('s \<Rightarrow> audit_reference \<Rightarrow> string res \<times> 's) \<Rightarrow> export_gateway \<Rightarrow> ('q, 's) export_world \<Rightarrow>
     export_request \<Rightarrow> capability_token \<Rightarrow> string \<Rightarrow> export_submission_result res \<times> ('q, 's) export_world" where
  "export_submit L H enq cancel put g w req token correlation =
     stop w (parse_sensitivity (JStr (xr_max_sensitivity req))) (\<lambda>s.
     let d = authorize token (export_policy_request g req s) in
     if \<not> allowed d
     then
       (case audit_record L H put (xg_recorder g) (xw_audit w)
               (export_audit_call g req correlation ''denied'' (reason_value (reason d)) [xr_delivery_intent_ref req]) of
          (Inl e, a) \<Rightarrow> (Inl e, w\<lparr>xw_audit := a\<rparr>)
        | (Inr rec, a) \<Rightarrow>
            (Inr \<lparr>xs_status = ''rejected'', xs_request_id = xr_id req, xs_job_id = None,
                  xs_error_code = Some (reason_value (reason d)), xs_audit_id = Some (au_id rec)\<rparr>, w\<lparr>xw_audit := a\<rparr>))
     else stop w (from_request L req) (\<lambda>job. export_queue L H enq cancel put g w req correlation job))"

subsection \<open>What the gateway relies on and what it gives\<close>

locale job_port =
  fixes L :: lib and enq :: "'q \<Rightarrow> export_job \<Rightarrow> string res \<times> 'q" and cancel :: "'q \<Rightarrow> string \<Rightarrow> bool res \<times> 'q"
    and jok :: "'q \<Rightarrow> bool" and queued :: "'q \<Rightarrow> export_job list"
  assumes enq_accepted: "jok q \<Longrightarrow> job_stable L x \<Longrightarrow> enq q x = (Inr ''accepted'', q') \<Longrightarrow>
      jok q' \<and> queued q' = queued q @ [x] \<and> xj_id x \<notin> xj_id ` set (queued q)"
    and enq_refused: "jok q \<Longrightarrow> job_stable L x \<Longrightarrow> enq q x = (r, q') \<Longrightarrow> r \<noteq> Inr ''accepted'' \<Longrightarrow> q' = q"
    and enq_duplicate: "jok q \<Longrightarrow> job_stable L x \<Longrightarrow> enq q x = (Inr ''duplicate'', q') \<Longrightarrow> x \<in> set (queued q)"
    and cancel_removes: "jok q \<Longrightarrow> \<exists>b q'. cancel q jid = (Inr b, q') \<and> jok q' \<and> queued q' = filter (\<lambda>x. xj_id x \<noteq> jid) (queued q)"

locale export_ports = job_port L enq cancel jok queued + audit_store L put aok contents
  for L :: lib and enq :: "'q \<Rightarrow> export_job \<Rightarrow> string res \<times> 'q" and cancel jok queued
    and put :: "'s \<Rightarrow> audit_reference \<Rightarrow> string res \<times> 's" and aok contents
begin

lemma record_error:
  assumes "aok s" "audit_record L H put r s c = (Inl e, s')"
  shows "s' = s"
proof (cases "audit_entry L H r c")
  case (Inr a)
  obtain u t where p: "put s a = (u, t)" by fastforce
  with assms(2) Inr have "u = Inl e" "t = s'" by (auto simp: audit_record_def split: sum.splits)
  with p append_refused [OF assms(1) audit_entry_ok [OF Inr]] show ?thesis by blast
qed (use assms(2) in \<open>simp add: audit_record_def\<close>)

lemma record_stored:
  assumes "aok s" "audit_record L H put r s c = (Inr a, s')"
  shows "aok s'" "contents s' = insert a (contents s)" "au_outcome a = ac_outcome c"
  using record_contents [OF assms] entry_fields(2) [OF audit_record_Inr [OF assms(2)]] by auto

text \<open>Queueing: the job is there already, or it is deferred, or queued and audited, or an error leaves no trace.\<close>

lemma queueing_cases:
  assumes "jok (xw_jobs w)" "aok (xw_audit w)" "job_stable L job"
    and "export_queue L H enq cancel put g w req correlation job = (res, w')"
  shows "jok (xw_jobs w') \<and> aok (xw_audit w') \<and>
    ((\<exists>e. res = Inl e) \<and> queued (xw_jobs w') = queued (xw_jobs w) \<and> contents (xw_audit w') = contents (xw_audit w) \<or>
     (\<exists>d a. res = Inr d \<and> xs_job_id d = None \<and> xs_audit_id d = Some (au_id a) \<and> au_outcome a = ''deferred'' \<and>
        queued (xw_jobs w') = queued (xw_jobs w) \<and> contents (xw_audit w') = insert a (contents (xw_audit w))) \<or>
     (\<exists>d. res = Inr d \<and> xs_job_id d = Some (xj_id job) \<and>
        (job \<in> set (queued (xw_jobs w)) \<and> queued (xw_jobs w') = queued (xw_jobs w) \<and> contents (xw_audit w') = contents (xw_audit w) \<or>
         (\<exists>a. xs_audit_id d = Some (au_id a) \<and> au_outcome a = ''accepted'' \<and> queued (xw_jobs w') = queued (xw_jobs w) @ [job] \<and>
            contents (xw_audit w') = insert a (contents (xw_audit w))))))"
proof -
  obtain q jobs where q: "enq (xw_jobs w) job = (q, jobs)" by fastforce
  consider "q = Inr ''accepted''" | "q = Inr ''duplicate''" | "q \<noteq> Inr ''accepted''" "q \<noteq> Inr ''duplicate''" by blast
  then show ?thesis
  proof cases
    case 1
    have J: "jok jobs" "queued jobs = queued (xw_jobs w) @ [job]" "xj_id job \<notin> xj_id ` set (queued (xw_jobs w))"
      using enq_accepted [OF assms(1,3)] q 1 by blast+
    obtain v a where r: "audit_record L H put (xg_recorder g) (xw_audit w)
        (export_audit_call g req correlation ''accepted'' ''projection_job_queued'' [xj_id job, xr_delivery_intent_ref req]) = (v, a)" by fastforce
    show ?thesis
    proof (cases v)
      case (Inl e)
      then have "a = xw_audit w" using record_error [OF assms(2)] r by blast
      moreover obtain b jobs' where c: "cancel jobs (xj_id job) = (Inr b, jobs')" "jok jobs'" "queued jobs' = filter (\<lambda>x. xj_id x \<noteq> xj_id job) (queued jobs)"
        using cancel_removes [OF J(1)] by blast
      moreover have "filter (\<lambda>x. xj_id x \<noteq> xj_id job) (queued (xw_jobs w)) = queued (xw_jobs w)" using J(3) by (auto simp: filter_id_conv) (metis imageI)
      ultimately show ?thesis using assms(2,4) q 1 r Inl J(2) by (auto simp: export_queue_def Let_def)
    next
      case (Inr b)
      note S = record_stored [OF assms(2) r [unfolded Inr]]
      have "au_outcome b = ''accepted''" using S(3) by (simp add: export_audit_call_def)
      then show ?thesis using assms(4) q 1 r Inr J S(1,2) by (auto simp: export_queue_def Let_def)
    qed
  next
    case 2
    then have "jobs = xw_jobs w" "job \<in> set (queued (xw_jobs w))" using enq_refused [OF assms(1,3) q] enq_duplicate [OF assms(1,3)] q by auto
    then show ?thesis using assms(1,2,4) q 2 by (auto simp: export_queue_def Let_def)
  next
    case 3
    have J: "jobs = xw_jobs w" using enq_refused [OF assms(1,3) q 3(1)] .
    define st where "st = (case q of Inl _ \<Rightarrow> ''unavailable'' | Inr st \<Rightarrow> st)"
    define why where "why = (if st = ''queue_full'' then ''export_queue_full'' else ''export_queue_unavailable'')"
    have st: "st \<noteq> ''duplicate''" "st \<noteq> ''accepted''" using 3 by (auto simp: st_def split: sum.splits)
    have w: "w\<lparr>xw_jobs := jobs\<rparr> = w" by (simp add: J)
    obtain v a where r: "audit_record L H put (xg_recorder g) (xw_audit w)
        (export_audit_call g req correlation ''deferred'' why [xj_id job, xr_delivery_intent_ref req]) = (v, a)" by fastforce
    have e: "(res, w') = (case v of
           Inl e \<Rightarrow> (Inl e, w\<lparr>xw_audit := a\<rparr>)
         | Inr rec \<Rightarrow>
             (Inr \<lparr>xs_status = ''retry_later'', xs_request_id = xr_id req, xs_job_id = None, xs_error_code = Some why,
                   xs_audit_id = Some (au_id rec)\<rparr>, w\<lparr>xw_audit := a\<rparr>))"
      using assms(4) unfolding export_queue_def q Let_def prod.case st_def [symmetric] why_def [symmetric] w if_not_P [OF st(1)] if_P [OF st(2)] r
      by (simp split: sum.splits)
    show ?thesis
    proof (cases v)
      case (Inl x)
      then have "a = xw_audit w" using record_error [OF assms(2)] r by blast
      then show ?thesis using e Inl assms(1,2) by auto
    next
      case (Inr b)
      note S = record_stored [OF assms(2) r [unfolded Inr]]
      have "au_outcome b = ''deferred''" using S(3) by (simp add: export_audit_call_def)
      then show ?thesis using e Inr assms(1) S(1,2) by auto
    qed
  qed
qed

text \<open>The four ways a submission ends.\<close>

lemma submission_cases:
  assumes "jok (xw_jobs w)" "aok (xw_audit w)" "\<And>job. from_request L req = Inr job \<Longrightarrow> job_stable L job"
    and "export_submit L H enq cancel put g w req token correlation = (res, w')"
  shows "jok (xw_jobs w') \<and> aok (xw_audit w') \<and>
    ((\<exists>e. res = Inl e) \<and> queued (xw_jobs w') = queued (xw_jobs w) \<and> contents (xw_audit w') = contents (xw_audit w) \<or>
     (\<exists>d a. res = Inr d \<and> xs_job_id d = None \<and> xs_audit_id d = Some (au_id a) \<and> au_outcome a \<in> {''denied'', ''deferred''} \<and>
        queued (xw_jobs w') = queued (xw_jobs w) \<and> contents (xw_audit w') = insert a (contents (xw_audit w))) \<or>
     (\<exists>u d job. parse_sensitivity (JStr (xr_max_sensitivity req)) = Inr u \<and> allowed (authorize token (export_policy_request g req u)) \<and>
        from_request L req = Inr job \<and> res = Inr d \<and> xs_job_id d = Some (xj_id job) \<and>
        (job \<in> set (queued (xw_jobs w)) \<and> queued (xw_jobs w') = queued (xw_jobs w) \<and> contents (xw_audit w') = contents (xw_audit w) \<or>
         (\<exists>a. xs_audit_id d = Some (au_id a) \<and> au_outcome a = ''accepted'' \<and> queued (xw_jobs w') = queued (xw_jobs w) @ [job] \<and>
            contents (xw_audit w') = insert a (contents (xw_audit w))))))"
proof (cases "parse_sensitivity (JStr (xr_max_sensitivity req))")
  case (Inl e)
  then show ?thesis using assms(1,2,4) by (auto simp: export_submit_def)
next
  case (Inr u)
  note u = this
  let ?d = "authorize token (export_policy_request g req u)"
  show ?thesis
  proof (cases "allowed ?d")
    case False
    obtain v a where r: "audit_record L H put (xg_recorder g) (xw_audit w)
        (export_audit_call g req correlation ''denied'' (reason_value (reason ?d)) [xr_delivery_intent_ref req]) = (v, a)" by fastforce
    show ?thesis
    proof (cases v)
      case (Inl e)
      then have "a = xw_audit w" using record_error [OF assms(2)] r by blast
      then show ?thesis using assms(1,2,4) u False r Inl by (auto simp: export_submit_def Let_def)
    next
      case (Inr b)
      note S = record_stored [OF assms(2) r [unfolded Inr]]
      have "au_outcome b = ''denied''" using S(3) by (simp add: export_audit_call_def)
      then show ?thesis using assms(1,4) u False r Inr S(1,2) by (auto simp: export_submit_def Let_def)
    qed
  next
    case True
    show ?thesis
    proof (cases "from_request L req")
      case (Inl e)
      then show ?thesis using assms(1,2,4) u True by (auto simp: export_submit_def Let_def)
    next
      case (Inr job)
      have "export_queue L H enq cancel put g w req correlation job = (res, w')"
        using assms(4) u True Inr by (simp add: export_submit_def Let_def)
      from queueing_cases [OF assms(1,2) assms(3) [OF Inr] this] u True Inr show ?thesis by blast
    qed
  qed
qed

end

subsection \<open>The gateway over the bounded stores\<close>

definition jobs_ok :: "lib \<Rightarrow> job_submitter \<Rightarrow> bool" where
  "jobs_ok L s \<longleftrightarrow> (\<exists>js. holds_jobs L js s)"

definition queued_jobs :: "lib \<Rightarrow> job_submitter \<Rightarrow> export_job list" where
  "queued_jobs L s = (case mapR (\<lambda>(_, v). job_parse L v) (js_jobs s) of Inr js \<Rightarrow> js | Inl _ \<Rightarrow> [])"

lemma queued_jobs_eq: "holds_jobs L js s \<Longrightarrow> queued_jobs L s = js"
  using job_table.dec_all [of js L] by (simp add: queued_jobs_def holds_jobs_def)

interpretation jobs: job_port L "job_submit L" job_cancel "jobs_ok L" "queued_jobs L" for L
proof
  fix q x q' r jid
  assume "jobs_ok L q"
  then obtain js where js: "holds_jobs L js q" by (auto simp: jobs_ok_def)
  note Q = queued_jobs_eq [OF js]
  show "\<exists>b q'. job_cancel q jid = (Inr b, q') \<and> jobs_ok L q' \<and> queued_jobs L q' = filter (\<lambda>x. xj_id x \<noteq> jid) (queued_jobs L q)"
  proof -
    obtain b q' where c: "job_cancel q jid = (Inr b, q')" "holds_jobs L (filter (\<lambda>x. xj_id x \<noteq> jid) js) q'"
      using job_cancel_spec [OF js, of jid] by blast
    then have "jobs_ok L q'" "queued_jobs L q' = filter (\<lambda>x. xj_id x \<noteq> jid) (queued_jobs L q)"
      unfolding jobs_ok_def Q queued_jobs_eq [OF c(2)] by blast+
    with c(1) show ?thesis by blast
  qed
  assume x: "job_stable L x"
  show "jobs_ok L q' \<and> queued_jobs L q' = queued_jobs L q @ [x] \<and> xj_id x \<notin> xj_id ` set (queued_jobs L q)"
    if "job_submit L q x = (Inr ''accepted'', q')"
    using js x
  proof (cases rule: job_submit_cases)
    case (accepted s')
    with that have "s' = q'" by simp
    with accepted queued_jobs_eq [OF accepted(2)] show ?thesis unfolding jobs_ok_def Q by blast
  qed (use that in simp_all)
  show "q' = q" if "job_submit L q x = (r, q')" "r \<noteq> Inr ''accepted''"
    using js x by (cases rule: job_submit_cases) (use that in simp_all)
  show "x \<in> set (queued_jobs L q)" if "job_submit L q x = (Inr ''duplicate'', q')"
    using js x by (cases rule: job_submit_cases) (use that Q in simp_all)
qed

interpretation export: export_ports L "job_submit L" job_cancel "jobs_ok L" "queued_jobs L" "sink_append L" "sink_ok L" "sink_contents L" for L ..

lemma from_requestD:
  assumes "from_request L req = Inr job"
  shows "xjob_ok L job" "xj_request_id job = xr_id req" "xj_workspace_id job = xr_workspace_id req" "xj_target_class job = xr_target_class req"
    "xj_field_allowlist job = xr_field_allowlist req" "xj_max_sensitivity job = xr_max_sensitivity req"
    "xj_as_of_generation_id job = xr_as_of_generation_id req"
proof -
  obtain h where n: "new_xjob L ((''job_id'', PStr h) # job_values req) = Inr job"
    using assms by (auto simp: from_request_def bindR_Inr_iff)
  note D = new_xjobD [OF n]
  show "xjob_ok L job" by (rule xjob_okI [OF n])
  show "xj_request_id job = xr_id req" using D(4) by (simp add: job_values_def field_Cons)
  show "xj_workspace_id job = xr_workspace_id req" using D(5) by (simp add: job_values_def field_Cons)
  show "xj_target_class job = xr_target_class req" using D(7) by (simp add: job_values_def field_Cons)
  show "xj_max_sensitivity job = xr_max_sensitivity req" using D(10) by (simp add: job_values_def field_Cons)
  show "xj_as_of_generation_id job = xr_as_of_generation_id req" using D(6) by (simp add: job_values_def field_Cons)
  have "map PStr (xr_field_allowlist req) = map PStr (xj_field_allowlist job)" using D(9) by (simp add: job_values_def field_Cons allow_listed_def)
  then show "xj_field_allowlist job = xr_field_allowlist req" by (simp add: inj_map_eq_map inj_on_def)
qed

text \<open>What may leave: the limits of the target class and of the capability, and no forbidden field.\<close>

definition permitted :: "capability_token \<Rightarrow> string \<Rightarrow> export_request \<Rightarrow> export_job \<Rightarrow> bool" where
  "permitted token now req job \<longleftrightarrow>
     xj_request_id job = xr_id req \<and> xj_workspace_id job = ct_workspace_id token \<and> xr_actor_id req = ct_actor_id token \<and>
     ''export.request'' \<in> set (ct_actions token) \<and> now < ct_expires_at token \<and>
     \<not> list_ex forbidden_field (xj_field_allowlist job) \<and>
     (\<exists>c u. map_of EXPORT_TARGET_CEILINGS (xj_target_class job) = Some c \<and> parse_sensitivity (JStr (xj_max_sensitivity job)) = Inr u \<and>
        rank u \<le> rank c \<and> rank u \<le> rank (ct_max_sensitivity token))"

lemma permittedI:
  assumes "xreq_ok L req" "from_request L req = Inr job" "parse_sensitivity (JStr (xr_max_sensitivity req)) = Inr u"
    "allowed (authorize token (export_policy_request g req u))"
  shows "permitted token (xg_now g) req job"
proof -
  note J = from_requestD [OF assms(2)]
  have "\<not> list_ex forbidden_field (xr_field_allowlist req)" using new_xreqD(22) [OF assms(1) [unfolded xreq_ok_def]] .
  moreover obtain c where "map_of EXPORT_TARGET_CEILINGS (xr_target_class req) = Some c" "rank u \<le> rank c"
    using new_xreqD(21) [OF assms(1) [unfolded xreq_ok_def]] assms(3) by auto
  ultimately show ?thesis
    using J assms(3,4) by (simp add: permitted_def authorize_allowed_iff export_policy_request_def)
qed

text \<open>
  C30: nothing is exported without authority and record. For a constructed request on the bounded job queue and
  audit store, one call of the gateway ends in one of four ways: it raises and neither the queue
  nor the trail has changed (a job that was queued before the audit failed is taken back); it is
  denied or deferred, the queue has not changed and the trail has one more record; the very same job is queued already and nothing
  changes; or one job is added at the end of the queue and the trail has its record. In the
  last two cases the capability is live and names workspace, actor and action, and the job has no
  forbidden field and stays within the sensitivity of capability and target class.
\<close>

theorem export_authorised_and_audited:
  assumes "nfc_ascii L" and "xreq_ok L req" and "nfc L (xr_workspace_id req) = xr_workspace_id req"
    and "jobs_ok L (xw_jobs w)" and "sink_ok L (xw_audit w)"
    and "export_submit L H (job_submit L) job_cancel (sink_append L) g w req token correlation = (res, w')"
  shows "jobs_ok L (xw_jobs w') \<and> sink_ok L (xw_audit w') \<and>
    ((\<exists>e. res = Inl e) \<and> queued_jobs L (xw_jobs w') = queued_jobs L (xw_jobs w) \<and> sink_contents L (xw_audit w') = sink_contents L (xw_audit w) \<or>
     (\<exists>d a. res = Inr d \<and> xs_job_id d = None \<and> xs_audit_id d = Some (au_id a) \<and> au_outcome a \<in> {''denied'', ''deferred''} \<and>
        queued_jobs L (xw_jobs w') = queued_jobs L (xw_jobs w) \<and> sink_contents L (xw_audit w') = insert a (sink_contents L (xw_audit w))) \<or>
     (\<exists>d job. res = Inr d \<and> xs_job_id d = Some (xj_id job) \<and> permitted token (xg_now g) req job \<and>
        (job \<in> set (queued_jobs L (xw_jobs w)) \<and> queued_jobs L (xw_jobs w') = queued_jobs L (xw_jobs w) \<and>
           sink_contents L (xw_audit w') = sink_contents L (xw_audit w) \<or>
         (\<exists>a. xs_audit_id d = Some (au_id a) \<and> au_outcome a = ''accepted'' \<and> queued_jobs L (xw_jobs w') = queued_jobs L (xw_jobs w) @ [job] \<and>
            sink_contents L (xw_audit w') = insert a (sink_contents L (xw_audit w))))))"
proof -
  have st: "job_stable L job" if "from_request L req = Inr job" for job
    using from_requestD(1,3) [OF that] assms(1,3) by (simp add: job_stable_def)
  from export.submission_cases [OF assms(4,5) st assms(6)] permittedI [OF assms(2)] show ?thesis by blast
qed


subsection \<open>A concrete export\<close>

lemma contract_hash_pdict:
  assumes "nfc_ascii L" "list_all ascii_str ks" "distinct ks" "\<forall>k\<in>set ks. admissible L False (f k)"
  shows "\<exists>h. contract_hash L (pdict (map (\<lambda>k. (k, f k)) ks)) = Inr h"
proof -
  have "map (\<lambda>k. nfc L k) ks = ks" using nfc_asciiD [OF assms(1)] assms(2) by (induction ks) auto
  then have "admissible L False (pdict (map (\<lambda>k. (k, f k)) ks))"
    using assms(3,4) by (auto simp: pdict_def admissible_PDict comp_def)
  then show ?thesis using contract.to_bytes_eq [of L "pdict (map (\<lambda>k. (k, f k)) ks)"]
    by (auto simp: contract_hash_def contract_canonical_bytes_def)
qed

lemma from_request_total:
  assumes "nfc_ascii L" "xreq_ok L r" "is_hex64 (xr_id r)"
  shows "\<exists>job. from_request L r = Inr job"
proof -
  note D = new_xreqD [OF assms(2) [unfolded xreq_ok_def]]
  obtain c u where cu: "map_of EXPORT_TARGET_CEILINGS (xr_target_class r) = Some c" "parse_sensitivity (JStr (xr_max_sensitivity r)) = Inr u" "rank u \<le> rank c"
    using D(21) by blast
  have fs: "sorted_strings is_field_path False (PTuple (map PStr (xr_field_allowlist r))) = Inr (xr_field_allowlist r)"
    using D(18) by (simp add: sorted_strings_Inr)
  have "\<forall>k\<in>set xjob_identity_fields. admissible L False (allow_listed (job_values r) k)"
    by (simp add: xjob_identity_fields_def job_values_def allow_listed_def field_Cons list_all_iff)
  then obtain h where h: "contract_hash L (allow_body xjob_identity_fields (job_values r)) = Inr h"
    using contract_hash_pdict [OF assms(1), of xjob_identity_fields] unfolding allow_body_def by (auto simp: xjob_identity_fields_def)
  have b: "allow_body xjob_identity_fields ((''job_id'', PStr h) # job_values r) = allow_body xjob_identity_fields (job_values r)"
    by (simp add: allow_body_def xjob_identity_fields_def allow_listed_def field_Cons)
  have "\<exists>x. new_xjob L ((''job_id'', PStr h) # job_values r) = Inr x"
    unfolding new_xjob_def b h using D(14,16,17,19) cu assms(3) fs
    by (simp add: job_values_def field_Cons ceiling_of_def sensitivity_of_def)
  then show ?thesis using h by (simp add: from_request_def)
qed

definition demo_export :: export_request where
  "demo_export = \<lparr>xr_version = EXPORT_REQUEST_VERSION, xr_id = [], xr_workspace_id = ''w'', xr_actor_id = ''a'',
     xr_as_of_generation_id = replicate 40 CHR ''a'', xr_target_class = ''internal_projection'', xr_projection_profile = ''brief'',
     xr_field_allowlist = [''title''], xr_max_sensitivity = ''internal'', xr_delivery_intent_ref = replicate 64 CHR ''b'',
     xr_requested_at = ''2024-01-01T05:00:00Z''\<rparr>"

lemma demo_export_checks:
  "is_object_id (xr_as_of_generation_id demo_export)" "is_code (xr_projection_profile demo_export)"
  "sorted_strings is_field_path False (PList (map PStr (xr_field_allowlist demo_export))) = Inr (xr_field_allowlist demo_export)"
  "\<not> list_ex forbidden_field (xr_field_allowlist demo_export)" "is_hex64 (xr_delivery_intent_ref demo_export)"
  "ceiling_of (PStr (xr_target_class demo_export)) = Inr INTERNAL" "sensitivity_of (PStr (xr_max_sensitivity demo_export)) = Inr INTERNAL"
  "parse_sensitivity (JStr (xr_max_sensitivity demo_export)) = Inr INTERNAL"
  by code_simp+

lemma demo_hash_hex64: "contract_hash demo_lib v = Inr h \<Longrightarrow> is_hex64 h"
  by (auto simp: contract_hash_def bindR_Inr_iff sha256_hex_def is_hex64_def hex_is_hex demo_lib_def)


lemma demo_export_ok: "\<exists>h. xreq_ok demo_lib (demo_export\<lparr>xr_id := h\<rparr>) \<and> is_hex64 h"
proof -
  let ?v = "xreq_to_mapping demo_export"
  have "\<forall>k\<in>set xreq_identity_fields. admissible demo_lib False (allow_listed ?v k)"
    by (simp add: xreq_identity_fields_def allow_listed_def list_all_iff)
  then obtain h where h: "contract_hash demo_lib (allow_body xreq_identity_fields ?v) = Inr h"
    using contract_hash_pdict [of demo_lib xreq_identity_fields] unfolding allow_body_def by (auto simp: xreq_identity_fields_def)
  have b: "allow_body xreq_identity_fields (xreq_to_mapping (demo_export\<lparr>xr_id := h\<rparr>)) = allow_body xreq_identity_fields ?v"
    by (simp add: allow_body_def xreq_identity_fields_def allow_listed_def)
  have v: "xr_version demo_export = EXPORT_REQUEST_VERSION" "xr_workspace_id demo_export \<noteq> []" "xr_actor_id demo_export \<noteq> []"
    "op_timestamp (PStr (xr_requested_at demo_export)) = Inr 63839682000"
    using demo_times(1) by (simp_all add: demo_export_def op_timestamp_def)
  have "new_xreq demo_lib (xreq_to_mapping (demo_export\<lparr>xr_id := h\<rparr>)) = Inr (demo_export\<lparr>xr_id := h\<rparr>)"
    unfolding new_xreq_def b h using v demo_export_checks by simp
  moreover have "is_hex64 h" by (rule demo_hash_hex64 [OF h])
  ultimately show ?thesis by (auto simp: xreq_ok_def)
qed

definition export_token :: capability_token where
  "export_token = \<lparr>ct_token_id = ''t'', ct_workspace_id = ''w'', ct_actor_id = ''a'', ct_actions = [''export.request''],
     ct_max_sensitivity = INTERNAL, ct_expires_at = ''2024-01-01T06:00:00Z''\<rparr>"

definition demo_gateway :: export_gateway where
  "demo_gateway = \<lparr>xg_recorder = demo_recorder, xg_now = ''2024-01-01T05:00:00Z''\<rparr>"

lemma demo_export_authorised:
  "allowed (authorize export_token (export_policy_request demo_gateway (demo_export\<lparr>xr_id := h\<rparr>) INTERNAL))"
proof -
  have "''2024-01-01T05:00:00Z'' < (''2024-01-01T06:00:00Z'' :: string)" by code_simp
  then show ?thesis by (simp add: authorize_allowed_iff export_policy_request_def export_token_def demo_gateway_def demo_export_def)
qed

theorem export_authorised_and_audited_witness:
  "\<exists>req d job a w'. export_submit demo_lib demo_hmac (job_submit demo_lib) job_cancel (sink_append demo_lib) demo_gateway
       \<lparr>xw_jobs = \<lparr>max_jobs = 1, js_jobs = [], js_order = []\<rparr>, xw_audit = \<lparr>max_records = 1, sk_records = []\<rparr>\<rparr> req export_token ''c'' = (Inr d, w') \<and>
     permitted export_token ''2024-01-01T05:00:00Z'' req job \<and> queued_jobs demo_lib (xw_jobs w') = [job] \<and>
     sink_contents demo_lib (xw_audit w') = {a} \<and> au_outcome a = ''accepted''"
proof -
  let ?q = "\<lparr>max_jobs = 1, js_jobs = [], js_order = []\<rparr>" and ?s = "\<lparr>max_records = 1, sk_records = []\<rparr>"
  let ?w = "\<lparr>xw_jobs = ?q, xw_audit = ?s\<rparr>"
  obtain h where h: "xreq_ok demo_lib (demo_export\<lparr>xr_id := h\<rparr>)" "is_hex64 h" using demo_export_ok by blast
  define req where "req = demo_export\<lparr>xr_id := h\<rparr>"
  have r: "xr_workspace_id req = ''w''" "xr_actor_id req = ''a''" "xr_id req = h" "is_object_id (xr_as_of_generation_id req)"
    "is_hex64 (xr_delivery_intent_ref req)" "parse_sensitivity (JStr (xr_max_sensitivity req)) = Inr INTERNAL"
    using demo_export_checks by (simp_all add: req_def) (simp_all add: demo_export_def)
  obtain job where job: "from_request demo_lib req = Inr job" using from_request_total [of demo_lib req] h r(3) by (auto simp: req_def)
  have nw: "nfc demo_lib (xr_workspace_id req) = xr_workspace_id req" by (simp add: demo_lib_def)
  have js: "job_stable demo_lib job" using from_requestD(1,3) [OF job] nw by (simp add: job_stable_def)
  have q0: "holds_jobs demo_lib [] ?q" by (simp add: holds_jobs_def)
  obtain q' where q: "job_submit demo_lib ?q job = (Inr ''accepted'', q')" using job_submit_spec [OF q0 js] by auto
  let ?c = "export_audit_call demo_gateway req ''c'' ''accepted'' ''projection_job_queued'' [xj_id job, xr_delivery_intent_ref req]"
  have k: "is_code ''export.request''" "is_code ''accepted''" "is_code ''projection_job_queued''" by code_simp+
  have ne: "xj_id job \<noteq> []" "xr_delivery_intent_ref req \<noteq> []" "h \<noteq> []"
    using demo_hash_hex64 [OF new_xjobD(1) [OF from_requestD(1) [OF job, unfolded xjob_ok_def]]] r(5) h(2) by (auto simp: is_hex64_def)
  have "call_ok ?c" using k ne r demo_times(1) by (simp add: call_ok_def export_audit_call_def demo_gateway_def)
  then obtain a where e: "audit_entry demo_lib demo_hmac demo_recorder ?c = Inr a"
    using audit_entry_valid [OF demo_call_ok(2) demo_lib_ascii demo_call_ok(3)] by blast
  then have "audit_canonical_bytes demo_lib a = Inr (audit_bytes demo_lib a)" by (intro audit_bytes_eq audit_entry_ok) simp_all
  then obtain s where s: "audit_record demo_lib demo_hmac (sink_append demo_lib) demo_recorder ?s ?c = (Inr a, s)"
    by (simp add: audit_record_def e sink_append_def)
  have "allowed (authorize export_token (export_policy_request demo_gateway req INTERNAL))" unfolding req_def by (rule demo_export_authorised)
  then obtain d w' where m: "export_submit demo_lib demo_hmac (job_submit demo_lib) job_cancel (sink_append demo_lib) demo_gateway ?w req export_token ''c'' = (Inr d, w')"
    "xs_job_id d = Some (xj_id job)"
    using r(6) job q s by (simp add: export_submit_def export_queue_def Let_def demo_gateway_def)
  have h0: "jobs_ok demo_lib (xw_jobs ?w)" "queued_jobs demo_lib (xw_jobs ?w) = []" "sink_ok demo_lib (xw_audit ?w)" "sink_contents demo_lib (xw_audit ?w) = {}"
    using q0 by (auto simp: jobs_ok_def queued_jobs_def sink_ok_def holds_records_def sink_contents_def)
  from export_authorised_and_audited [OF demo_lib_ascii h(1) [folded req_def] nw h0(1,3) m(1)] m(2) h0(2,4)
  obtain job' a' where z: "permitted export_token (xg_now demo_gateway) req job'" "queued_jobs demo_lib (xw_jobs w') = [job']"
    "sink_contents demo_lib (xw_audit w') = {a'}" "au_outcome a' = ''accepted''" by auto
  have now: "xg_now demo_gateway = ''2024-01-01T05:00:00Z''" by (simp add: demo_gateway_def)
  from m(1) z [unfolded now] show ?thesis by blast
qed


end
