(* ===== verification/Plugins.thy ===== *)
theory Plugins
  imports ExportContracts
begin

text \<open>
  \<open>memory_core/plugins.py\<close>: plugin manifests and requests, the quota store, the output validator and
  the gateway that calls an out-of-process plugin. The runner is behind a protocol: a function on its own
  state that returns bytes, returns something else, times out or raises.

  The results: the runner is called only for a request that the manifest, the capability, the egress class, the size limit
  and the quota allow, at most as often as the quota says; an answer counts only if it is bound to the
  request and its normalised output passes the validator.
\<close>

subsection \<open>Value checks\<close>

definition PLUGIN_MANIFEST_VERSION :: string where
  "PLUGIN_MANIFEST_VERSION = ''phase3-plugin-manifest-v1''"

definition PLUGIN_REQUEST_VERSION :: string where
  "PLUGIN_REQUEST_VERSION = ''phase3-plugin-request-v1''"

definition PLUGIN_RESPONSE_VERSION :: string where
  "PLUGIN_RESPONSE_VERSION = ''phase3-plugin-response-v1''"

definition positive_integer :: "int option \<Rightarrow> pyval \<Rightarrow> int res" where
  "positive_integer maximum v =
     bindR (op_uint True v) (\<lambda>n.
     case maximum of
       Some m \<Rightarrow> if n > m then Inl InvalidContractValue else Inr n
     | None \<Rightarrow> Inr n)"

definition string_sequence :: "pyval \<Rightarrow> string list res" where
  "string_sequence v =
     (case seq_of v of
        None \<Rightarrow> Inl InvalidContractValue
      | Some xs \<Rightarrow> if xs = [] \<or> \<not> list_all nonempty_str xs then Inl InvalidContractValue else Inr (map the_str xs))"

datatype egress_class = EgressNone | EgressPublic | EgressInternal | EgressPrivate | EgressRestricted

fun egress_value :: "egress_class \<Rightarrow> string" where
  "egress_value EgressNone = ''none''" | "egress_value EgressPublic = ''public''"
| "egress_value EgressInternal = ''internal''" | "egress_value EgressPrivate = ''private''"
| "egress_value EgressRestricted = ''secret''"

fun egress_rank :: "egress_class \<Rightarrow> int" where
  "egress_rank EgressNone = -1" | "egress_rank EgressPublic = 0" | "egress_rank EgressInternal = 1"
| "egress_rank EgressPrivate = 2" | "egress_rank EgressRestricted = 3"

definition parse_egress :: "string \<Rightarrow> egress_class res" where
  "parse_egress s =
     (case find (\<lambda>x. egress_value x = s) [EgressNone, EgressPublic, EgressInternal, EgressPrivate, EgressRestricted] of
        None \<Rightarrow> Inl ValueError | Some x \<Rightarrow> Inr x)"

definition egress_of :: "pyval \<Rightarrow> egress_class res" where
  "egress_of v = (case v of PStr s \<Rightarrow> parse_egress s | _ \<Rightarrow> Inl ValueError)"

subsection \<open>Manifests\<close>

record plugin_manifest =
  pl_schema_version :: string
  pl_manifest_id :: string
  pl_plugin_id :: string
  pl_plugin_version :: string
  pl_runner_mode :: string
  pl_allowed_operations :: "string list"
  pl_required_capabilities :: "string list"
  pl_egress_class :: string
  pl_max_request_bytes :: string
  pl_max_response_bytes :: string
  pl_timeout_ms :: string
  pl_max_calls :: string
  pl_output_schema_id :: string

definition plugin_identity_fields :: "string list" where
  "plugin_identity_fields = [''plugin_schema_version'', ''plugin_id'', ''plugin_version'', ''runner_mode'', ''allowed_operations'',
     ''required_capabilities'', ''egress_class'', ''max_request_bytes'', ''max_response_bytes'', ''timeout_ms'',
     ''max_calls_per_operation'', ''output_schema_id'']"

definition plugin_listed :: "fields \<Rightarrow> string \<Rightarrow> pyval" where
  "plugin_listed values k = (if k \<in> {''allowed_operations'', ''required_capabilities''} then as_list (field values k) else field values k)"

definition plugin_body :: "fields \<Rightarrow> pyval" where
  "plugin_body values = pdict (map (\<lambda>k. (k, plugin_listed values k)) plugin_identity_fields)"

text \<open>\<open>cls(**values)\<close> with \<open>__post_init__\<close>; \<open>create\<close> and \<open>from_mapping\<close> pass the two sequences as tuples of strings.\<close>

definition new_plugin :: "lib \<Rightarrow> fields \<Rightarrow> string list \<Rightarrow> string list \<Rightarrow> plugin_manifest res" where
  "new_plugin L values ops caps =
     bindR (guardR (field values ''plugin_schema_version'' = PStr PLUGIN_MANIFEST_VERSION) UnsupportedContractVersion) (\<lambda>_.
     bindR (guardR (\<forall>f\<in>{''plugin_id'', ''plugin_version'', ''output_schema_id''}. nonempty_str (field values f)) InvalidContractValue) (\<lambda>_.
     bindR (guardR (field values ''runner_mode'' = PStr ''out_of_process'') InvalidContractValue) (\<lambda>_.
     bindR (guardR (ops \<noteq> [] \<and> sorted_set ops = ops \<and> [] \<notin> set ops) InvalidContractValue) (\<lambda>_.
     bindR (guardR (caps \<noteq> [] \<and> sorted_set caps = caps \<and> [] \<notin> set caps) InvalidContractValue) (\<lambda>_.
     bindR (egress_of (field values ''egress_class'')) (\<lambda>_.
     bindR (positive_integer None (field values ''max_request_bytes'')) (\<lambda>_.
     bindR (positive_integer None (field values ''max_response_bytes'')) (\<lambda>_.
     bindR (positive_integer (Some 120000) (field values ''timeout_ms'')) (\<lambda>_.
     bindR (positive_integer None (field values ''max_calls_per_operation'')) (\<lambda>_.
     bindR (contract_hash L (plugin_body (dict_set ''allowed_operations'' (PList (map PStr ops))
              (dict_set ''required_capabilities'' (PList (map PStr caps)) values)))) (\<lambda>expected.
     bindR (guardR (field values ''manifest_id'' = PStr expected) InvalidContractValue) (\<lambda>_.
       Inr \<lparr>pl_schema_version = the_str (field values ''plugin_schema_version''), pl_manifest_id = expected,
            pl_plugin_id = the_str (field values ''plugin_id''),
            pl_plugin_version = the_str (field values ''plugin_version''),
            pl_runner_mode = the_str (field values ''runner_mode''),
            pl_allowed_operations = ops, pl_required_capabilities = caps,
            pl_egress_class = the_str (field values ''egress_class''),
            pl_max_request_bytes = the_str (field values ''max_request_bytes''),
            pl_max_response_bytes = the_str (field values ''max_response_bytes''),
            pl_timeout_ms = the_str (field values ''timeout_ms''),
            pl_max_calls = the_str (field values ''max_calls_per_operation''),
            pl_output_schema_id = the_str (field values ''output_schema_id'')\<rparr>))))))))))))"

definition plugin_create :: "lib \<Rightarrow> fields \<Rightarrow> plugin_manifest res" where
  "plugin_create L kwargs =
     (let values = fold (\<lambda>(k, v). dict_set k v) kwargs [(''plugin_schema_version'', PStr PLUGIN_MANIFEST_VERSION)] in
      if ''allowed_operations'' \<notin> set (dict_keys values) then Inl KeyError
      else bindR (string_sequence (field values ''allowed_operations'')) (\<lambda>ops.
        if ''required_capabilities'' \<notin> set (dict_keys values) then Inl KeyError
        else bindR (string_sequence (field values ''required_capabilities'')) (\<lambda>caps.
          let values' = dict_set ''required_capabilities'' (PTuple (map PStr (sorted_set caps)))
                (dict_set ''allowed_operations'' (PTuple (map PStr (sorted_set ops))) values) in
          if \<not> set plugin_identity_fields \<subseteq> set (dict_keys values') then Inl KeyError
          else bindR (contract_hash L (plugin_body values')) (\<lambda>h.
            if \<not> set (dict_keys values') \<subseteq> set plugin_identity_fields then Inl TypeError
            else new_plugin L (dict_set ''manifest_id'' (PStr h) values') (sorted_set ops) (sorted_set caps)))))"

definition plugin_parse :: "lib \<Rightarrow> fields \<Rightarrow> plugin_manifest res" where
  "plugin_parse L values =
     bindR (string_sequence (field values ''allowed_operations'')) (\<lambda>ops.
     bindR (string_sequence (field values ''required_capabilities'')) (\<lambda>caps.
     new_plugin L values ops caps))"

definition plugin_from_mapping :: "lib \<Rightarrow> fields \<Rightarrow> plugin_manifest res" where
  "plugin_from_mapping L data = bindR (op_strict data (''manifest_id'' # plugin_identity_fields)) (plugin_parse L)"

definition plugin_json :: "plugin_manifest \<Rightarrow> (string \<times> json) list" where
  "plugin_json x =
     [(''plugin_schema_version'', JStr (pl_schema_version x)), (''manifest_id'', JStr (pl_manifest_id x)),
      (''plugin_id'', JStr (pl_plugin_id x)), (''plugin_version'', JStr (pl_plugin_version x)),
      (''runner_mode'', JStr (pl_runner_mode x)), (''allowed_operations'', JList (map JStr (pl_allowed_operations x))),
      (''required_capabilities'', JList (map JStr (pl_required_capabilities x))), (''egress_class'', JStr (pl_egress_class x)),
      (''max_request_bytes'', JStr (pl_max_request_bytes x)), (''max_response_bytes'', JStr (pl_max_response_bytes x)),
      (''timeout_ms'', JStr (pl_timeout_ms x)), (''max_calls_per_operation'', JStr (pl_max_calls x)),
      (''output_schema_id'', JStr (pl_output_schema_id x))]"

definition plugin_to_mapping :: "plugin_manifest \<Rightarrow> fields" where
  "plugin_to_mapping x = map (\<lambda>(k, v). (k, json_py v)) (plugin_json x)"

definition plugin_canonical_bytes :: "lib \<Rightarrow> plugin_manifest \<Rightarrow> bytes res" where
  "plugin_canonical_bytes L x = contract_canonical_bytes L (pdict (plugin_to_mapping x))"

subsection \<open>Requests\<close>

record plugin_request =
  pq_version :: string
  pq_request_id :: string
  pq_plugin_id :: string
  pq_plugin_version :: string
  pq_workspace_id :: string
  pq_actor_id :: string
  pq_operation_id :: string
  pq_operation_type :: string
  pq_capability_token_ref :: string
  pq_sensitivity :: string
  pq_deadline_at :: string
  pq_correlation_id :: string
  pq_payload :: "(string, json) dict"

definition plugin_request_str_fields :: "string list" where
  "plugin_request_str_fields = [''plugin_request_version'', ''request_id'', ''plugin_id'', ''plugin_version'', ''workspace_id'', ''actor_id'',
     ''operation_id'', ''operation_type'', ''capability_token_ref'', ''sensitivity'', ''deadline_at'', ''correlation_id'']"

text \<open>\<open>json.loads(canonical_bytes({k: v}))[k]\<close>.\<close>

definition normalized_member :: "lib \<Rightarrow> string \<Rightarrow> pyval \<Rightarrow> json res" where
  "normalized_member L k v =
     bindR (contract_canonical_bytes L (pdict [(k, v)])) (\<lambda>b.
     case loads b of
       None \<Rightarrow> Inl JSONDecodeError
     | Some j \<Rightarrow> (case jget j k of None \<Rightarrow> Inl KeyError | Some x \<Rightarrow> Inr x))"

definition new_plugin_request :: "lib \<Rightarrow> fields \<Rightarrow> plugin_request res" where
  "new_plugin_request L values =
     bindR (guardR (field values ''plugin_request_version'' = PStr PLUGIN_REQUEST_VERSION) UnsupportedContractVersion) (\<lambda>_.
     bindR (guardR (\<forall>f\<in>set plugin_request_str_fields. nonempty_str (field values f)) InvalidContractValue) (\<lambda>_.
     bindR (sensitivity_of (field values ''sensitivity'')) (\<lambda>_.
     bindR (guardR (case field values ''payload'' of PDict _ \<Rightarrow> True | _ \<Rightarrow> False) InvalidContractValue) (\<lambda>_.
     bindR (normalized_member L ''payload'' (field values ''payload'')) (\<lambda>j.
       Inr \<lparr>pq_version = the_str (field values ''plugin_request_version''), pq_request_id = the_str (field values ''request_id''),
            pq_plugin_id = the_str (field values ''plugin_id''), pq_plugin_version = the_str (field values ''plugin_version''),
            pq_workspace_id = the_str (field values ''workspace_id''), pq_actor_id = the_str (field values ''actor_id''),
            pq_operation_id = the_str (field values ''operation_id''), pq_operation_type = the_str (field values ''operation_type''),
            pq_capability_token_ref = the_str (field values ''capability_token_ref''),
            pq_sensitivity = the_str (field values ''sensitivity''), pq_deadline_at = the_str (field values ''deadline_at''),
            pq_correlation_id = the_str (field values ''correlation_id''),
            pq_payload = (case j of JObj kvs \<Rightarrow> kvs | _ \<Rightarrow> [])\<rparr>)))))"

text \<open>\<open>cls(plugin_request_version=..., **kwargs)\<close>: a missing, unexpected or repeated argument is a \<open>TypeError\<close>.\<close>

definition plugin_request_create :: "lib \<Rightarrow> fields \<Rightarrow> plugin_request res" where
  "plugin_request_create L kwargs =
     (if set (dict_keys kwargs) \<noteq> set (plugin_request_str_fields @ [''payload'']) - {''plugin_request_version''} then Inl TypeError
      else new_plugin_request L ((''plugin_request_version'', PStr PLUGIN_REQUEST_VERSION) # kwargs))"

definition plugin_request_from_mapping :: "lib \<Rightarrow> fields \<Rightarrow> plugin_request res" where
  "plugin_request_from_mapping L data =
     bindR (op_strict data (plugin_request_str_fields @ [''payload''])) (\<lambda>values.
     bindR (guardR (case field values ''payload'' of PDict _ \<Rightarrow> True | _ \<Rightarrow> False) InvalidContractValue) (\<lambda>_.
     new_plugin_request L values))"

definition plugin_request_to_mapping :: "plugin_request \<Rightarrow> fields" where
  "plugin_request_to_mapping r =
     [(''plugin_request_version'', PStr (pq_version r)), (''request_id'', PStr (pq_request_id r)),
      (''plugin_id'', PStr (pq_plugin_id r)), (''plugin_version'', PStr (pq_plugin_version r)),
      (''workspace_id'', PStr (pq_workspace_id r)), (''actor_id'', PStr (pq_actor_id r)),
      (''operation_id'', PStr (pq_operation_id r)), (''operation_type'', PStr (pq_operation_type r)),
      (''capability_token_ref'', PStr (pq_capability_token_ref r)), (''sensitivity'', PStr (pq_sensitivity r)),
      (''deadline_at'', PStr (pq_deadline_at r)), (''correlation_id'', PStr (pq_correlation_id r)),
      (''payload'', json_py (JObj (pq_payload r)))]"

definition plugin_request_canonical_bytes :: "lib \<Rightarrow> plugin_request \<Rightarrow> bytes res" where
  "plugin_request_canonical_bytes L r = contract_canonical_bytes L (pdict (plugin_request_to_mapping r))"

subsection \<open>Quota, validator and gateway\<close>

type_synonym quota_key = "string \<times> string \<times> string"
type_synonym quota_store = "(quota_key, int) dict"

definition consume :: "quota_store \<Rightarrow> quota_key \<Rightarrow> int \<Rightarrow> bool \<times> quota_store" where
  "consume q key limit =
     (let current = (case map_of q key of None \<Rightarrow> 0 | Some n \<Rightarrow> n) in
      if current \<ge> limit then (False, q) else (True, dict_set key (current + 1) q))"

type_synonym output_validators = "(string, (string, json) dict \<Rightarrow> bool res) dict"

definition validate_output :: "output_validators \<Rightarrow> string \<Rightarrow> (string, json) dict \<Rightarrow> bool res" where
  "validate_output vs schema_id out = (case map_of vs schema_id of None \<Rightarrow> Inr False | Some f \<Rightarrow> f out)"

datatype runner_outcome = Returned bytes | ReturnedOther | TimedOut | Crashed

record plugin_invocation_result =
  px_status :: string
  px_request_id :: string
  px_plugin_id :: string
  px_output :: "(string, json) dict"
  px_output_digest :: "string option"
  px_error_code :: "string option"

definition plugin_result :: "lib \<Rightarrow> plugin_request \<Rightarrow> string \<Rightarrow> string option \<Rightarrow> (string, json) dict \<Rightarrow> plugin_invocation_result res" where
  "plugin_result L req st err out =
     bindR (if st = ''ok'' then bindR (contract_hash L (pdict [(''output'', json_py (JObj out))])) (\<lambda>h. Inr (Some h)) else Inr None) (\<lambda>dg.
     Inr \<lparr>px_status = st, px_request_id = pq_request_id req, px_plugin_id = pq_plugin_id req, px_output = out, px_output_digest = dg,
          px_error_code = err\<rparr>)"

abbreviation rejected :: "lib \<Rightarrow> plugin_request \<Rightarrow> string \<Rightarrow> plugin_invocation_result res" where
  "rejected L req err \<equiv> plugin_result L req ''rejected'' (Some err) []"

definition RESPONSE_FIELDS :: "string list" where
  "RESPONSE_FIELDS = [''plugin_response_version'', ''request_id'', ''plugin_id'', ''plugin_version'', ''output_schema_id'', ''output'']"

text \<open>\<open>json.loads\<close> converts integer literals with \<open>int\<close>, which refuses more than 4300 digits with a plain \<open>ValueError\<close>.\<close>

fun long_int :: "json \<Rightarrow> bool" where
  "long_int (JNum n) = (let ds = (case n of c # cs \<Rightarrow> if c = CHR ''-'' then cs else n | [] \<Rightarrow> []) in list_all is_digit ds \<and> length ds > 4300)"
| "long_int (JList js) = list_ex long_int js"
| "long_int (JObj kvs) = list_ex (\<lambda>(_, v). long_int v) kvs"
| "long_int _ = False"

definition parse_document :: "bytes \<Rightarrow> json res" where
  "parse_document raw =
     bindR (decode_utf8 raw) (\<lambda>t.
     case loads t of None \<Rightarrow> Inl JSONDecodeError | Some j \<Rightarrow> if long_int j then Inl ValueError else Inr j)"

text \<open>The part of \<open>invoke\<close> after the runner returned bytes. A repeated key of the document keeps its last value.\<close>

definition check_response ::
    "lib \<Rightarrow> output_validators \<Rightarrow> plugin_manifest \<Rightarrow> plugin_request \<Rightarrow> bytes \<Rightarrow> plugin_invocation_result res" where
  "check_response L vs m req raw =
     bindR (positive_integer None (PStr (pl_max_response_bytes m))) (\<lambda>limit.
     if int (length raw) > limit then rejected L req ''plugin_response_oversized''
     else case parse_document raw of
       Inl e \<Rightarrow> if e = ValueError then Inl e else rejected L req ''plugin_response_malformed''
     | Inr (JObj kvs) \<Rightarrow>
         let get = jget (JObj kvs) in
         if set (dict_keys kvs) \<noteq> set RESPONSE_FIELDS then rejected L req ''plugin_response_fields_invalid''
         else if get ''plugin_response_version'' \<noteq> Some (JStr PLUGIN_RESPONSE_VERSION) then rejected L req ''plugin_response_version_unsupported''
         else if get ''request_id'' \<noteq> Some (JStr (pq_request_id req)) \<or> get ''plugin_id'' \<noteq> Some (JStr (pl_plugin_id m)) \<or>
                 get ''plugin_version'' \<noteq> Some (JStr (pl_plugin_version m)) \<or> get ''output_schema_id'' \<noteq> Some (JStr (pl_output_schema_id m))
         then rejected L req ''plugin_response_binding_mismatch''
         else (case get ''output'' of
             Some (JObj out) \<Rightarrow>
               (case normalized_member L ''output'' (json_py (JObj out)) of
                  Inl _ \<Rightarrow> rejected L req ''plugin_output_invalid''
                | Inr j \<Rightarrow>
                    let norm = (case j of JObj o' \<Rightarrow> o' | _ \<Rightarrow> []) in
                    bindR (validate_output vs (pl_output_schema_id m) norm) (\<lambda>good.
                    if \<not> good then rejected L req ''plugin_output_schema_failed''
                    else plugin_result L req ''ok'' None norm))
           | _ \<Rightarrow> rejected L req ''plugin_output_invalid'')
     | Inr _ \<Rightarrow> rejected L req ''plugin_response_malformed'')"

definition plugin_policy_request :: "string \<Rightarrow> plugin_manifest \<Rightarrow> plugin_request \<Rightarrow> sensitivity \<Rightarrow> policy_request" where
  "plugin_policy_request now m req s =
     \<lparr>rq_workspace_id = pq_workspace_id req, rq_actor_id = pq_actor_id req, rq_action = ''plugin.invoke:'' @ pl_plugin_id m,
      rq_now = now, rq_object_sensitivity = s\<rparr>"

text \<open>The checks of \<open>invoke\<close> before the quota: the bytes to send, or the outcome.\<close>

definition plugin_precheck ::
    "lib \<Rightarrow> string \<Rightarrow> plugin_manifest \<Rightarrow> plugin_request \<Rightarrow> capability_token \<Rightarrow> (plugin_invocation_result res) + bytes" where
  "plugin_precheck L now m req token =
     (if pq_plugin_id req \<noteq> pl_plugin_id m \<or> pq_plugin_version req \<noteq> pl_plugin_version m
      then Inl (rejected L req ''plugin_manifest_mismatch'')
      else if pq_operation_type req \<notin> set (pl_allowed_operations m) then Inl (rejected L req ''plugin_operation_denied'')
      else if now \<ge> pq_deadline_at req then Inl (rejected L req ''plugin_deadline_expired'')
      else case parse_sensitivity (JStr (pq_sensitivity req)) of
        Inl e \<Rightarrow> Inl (Inl e)
      | Inr s \<Rightarrow>
          let d = authorize token (plugin_policy_request now m req s) in
          if \<not> allowed d then Inl (rejected L req (''plugin_policy_'' @ reason_value (reason d)))
          else if \<not> set (pl_required_capabilities m) \<subseteq> set (ct_actions token) then Inl (rejected L req ''plugin_capability_missing'')
          else case bindR (parse_egress (pl_egress_class m)) (\<lambda>e. bindR (parse_egress (pq_sensitivity req)) (\<lambda>l. Inr (e, l))) of
            Inl e \<Rightarrow> Inl (Inl e)
          | Inr (egress, level) \<Rightarrow>
              if egress = EgressNone \<and> pq_payload req \<noteq> [] then Inl (rejected L req ''plugin_egress_denied'')
              else if egress \<noteq> EgressNone \<and> egress_rank level > egress_rank egress then Inl (rejected L req ''plugin_egress_denied'')
              else case bindR (plugin_request_canonical_bytes L req) (\<lambda>b.
                         bindR (positive_integer None (PStr (pl_max_request_bytes m))) (\<lambda>limit. Inr (b, limit))) of
                Inl e \<Rightarrow> Inl (Inl e)
              | Inr (b, limit) \<Rightarrow> if int (length b) > limit then Inl (rejected L req ''plugin_request_oversized'') else Inr b)"

definition quota_key_of :: "plugin_manifest \<Rightarrow> plugin_request \<Rightarrow> quota_key" where
  "quota_key_of m req = (pq_workspace_id req, pq_operation_id req, pl_plugin_id m)"

definition invoke ::
    "lib \<Rightarrow> ('r \<Rightarrow> plugin_manifest \<Rightarrow> bytes \<Rightarrow> int \<Rightarrow> runner_outcome \<times> 'r) \<Rightarrow> output_validators \<Rightarrow> string \<Rightarrow> quota_store \<times> 'r \<Rightarrow>
     plugin_manifest \<Rightarrow> plugin_request \<Rightarrow> capability_token \<Rightarrow> plugin_invocation_result res \<times> quota_store \<times> 'r" where
  "invoke L run vs now st m req token =
     (let (q, r) = st in
      case plugin_precheck L now m req token of
        Inl outcome \<Rightarrow> (outcome, q, r)
      | Inr b \<Rightarrow>
          (case positive_integer None (PStr (pl_max_calls m)) of
             Inl e \<Rightarrow> (Inl e, q, r)
           | Inr calls \<Rightarrow>
               let (granted, q1) = consume q (quota_key_of m req) calls in
               if \<not> granted then (rejected L req ''plugin_quota_exceeded'', q1, r)
               else case positive_integer (Some 120000) (PStr (pl_timeout_ms m)) of
                 Inl _ \<Rightarrow> (plugin_result L req ''retry_later'' (Some ''plugin_crashed'') [], q1, r)
               | Inr timeout \<Rightarrow>
                   (case run r m b timeout of
                      (TimedOut, r1) \<Rightarrow> (plugin_result L req ''retry_later'' (Some ''plugin_timeout'') [], q1, r1)
                    | (Crashed, r1) \<Rightarrow> (plugin_result L req ''retry_later'' (Some ''plugin_crashed'') [], q1, r1)
                    | (ReturnedOther, r1) \<Rightarrow> (rejected L req ''plugin_response_not_bytes'', q1, r1)
                    | (Returned raw, r1) \<Rightarrow> (check_response L vs m req raw, q1, r1))))"

subsection \<open>What the gateway lets through\<close>

text \<open>What may be sent to a plugin.\<close>

definition sendable :: "lib \<Rightarrow> string \<Rightarrow> plugin_manifest \<Rightarrow> plugin_request \<Rightarrow> capability_token \<Rightarrow> bytes \<Rightarrow> bool" where
  "sendable L now m req token b \<longleftrightarrow>
     pq_plugin_id req = pl_plugin_id m \<and> pq_plugin_version req = pl_plugin_version m \<and>
     pq_operation_type req \<in> set (pl_allowed_operations m) \<and> now < pq_deadline_at req \<and>
     ct_workspace_id token = pq_workspace_id req \<and> ct_actor_id token = pq_actor_id req \<and> now < ct_expires_at token \<and>
     insert (''plugin.invoke:'' @ pl_plugin_id m) (set (pl_required_capabilities m)) \<subseteq> set (ct_actions token) \<and>
     (\<exists>u egress level limit. parse_sensitivity (JStr (pq_sensitivity req)) = Inr u \<and> rank u \<le> rank (ct_max_sensitivity token) \<and>
        parse_egress (pl_egress_class m) = Inr egress \<and> parse_egress (pq_sensitivity req) = Inr level \<and>
        (if egress = EgressNone then pq_payload req = [] else egress_rank level \<le> egress_rank egress) \<and>
        plugin_request_canonical_bytes L req = Inr b \<and>
        positive_integer None (PStr (pl_max_request_bytes m)) = Inr limit \<and> int (length b) \<le> limit)"

lemma precheck_sendable:
  assumes "plugin_precheck L now m req token = Inr b"
  shows "sendable L now m req token b"
proof -
  from assms have 1: "pq_plugin_id req = pl_plugin_id m" "pq_plugin_version req = pl_plugin_version m"
    "pq_operation_type req \<in> set (pl_allowed_operations m)" "now < pq_deadline_at req"
    by (auto simp: plugin_precheck_def not_le split: if_splits)
  from assms 1 obtain u where u: "parse_sensitivity (JStr (pq_sensitivity req)) = Inr u"
    by (cases "parse_sensitivity (JStr (pq_sensitivity req))") (auto simp: plugin_precheck_def split: if_splits)
  from assms 1 u have 2: "allowed (authorize token (plugin_policy_request now m req u))" "set (pl_required_capabilities m) \<subseteq> set (ct_actions token)"
    by (simp_all add: plugin_precheck_def Let_def split: if_splits)
  obtain egress level where e: "parse_egress (pl_egress_class m) = Inr egress" "parse_egress (pq_sensitivity req) = Inr level"
    using assms 1 u 2 by (cases "parse_egress (pl_egress_class m)"; cases "parse_egress (pq_sensitivity req)")
      (simp_all add: plugin_precheck_def Let_def split: if_splits)
  from assms 1 u 2 e have 3: "if egress = EgressNone then pq_payload req = [] else egress_rank level \<le> egress_rank egress"
    by (auto simp: plugin_precheck_def Let_def not_less split: if_splits)
  obtain limit where 4: "plugin_request_canonical_bytes L req = Inr b" "positive_integer None (PStr (pl_max_request_bytes m)) = Inr limit"
    "int (length b) \<le> limit"
    using assms 1 u 2 e 3 by (cases "plugin_request_canonical_bytes L req"; cases "positive_integer None (PStr (pl_max_request_bytes m))")
      (auto simp: plugin_precheck_def Let_def split: if_splits)
  from 2(1) have "ct_workspace_id token = pq_workspace_id req" "ct_actor_id token = pq_actor_id req" "now < ct_expires_at token"
    "''plugin.invoke:'' @ pl_plugin_id m \<in> set (ct_actions token)" "rank u \<le> rank (ct_max_sensitivity token)"
    by (simp_all add: authorize_allowed_iff plugin_policy_request_def)
  with 1 u 2(2) e 3 4 show ?thesis unfolding sendable_def by blast
qed

lemma precheck_outcome: "plugin_precheck L now m req token = Inl (Inr x) \<Longrightarrow> px_status x \<noteq> ''ok''"
  by (auto simp: plugin_precheck_def plugin_result_def Let_def split: if_splits sum.splits)

text \<open>What an accepted answer is.\<close>

definition bound_answer :: "lib \<Rightarrow> output_validators \<Rightarrow> plugin_manifest \<Rightarrow> plugin_request \<Rightarrow> bytes \<Rightarrow> plugin_invocation_result \<Rightarrow> bool" where
  "bound_answer L vs m req raw x \<longleftrightarrow>
     (\<exists>kvs out limit. positive_integer None (PStr (pl_max_response_bytes m)) = Inr limit \<and> int (length raw) \<le> limit \<and>
        parse_document raw = Inr (JObj kvs) \<and> set (dict_keys kvs) = set RESPONSE_FIELDS \<and>
        map_of kvs ''plugin_response_version'' = Some (JStr PLUGIN_RESPONSE_VERSION) \<and>
        map_of kvs ''request_id'' = Some (JStr (pq_request_id req)) \<and> map_of kvs ''plugin_id'' = Some (JStr (pl_plugin_id m)) \<and>
        map_of kvs ''plugin_version'' = Some (JStr (pl_plugin_version m)) \<and>
        map_of kvs ''output_schema_id'' = Some (JStr (pl_output_schema_id m)) \<and> map_of kvs ''output'' = Some (JObj out) \<and>
        (\<exists>j. normalized_member L ''output'' (json_py (JObj out)) = Inr j \<and> px_output x = (case j of JObj o' \<Rightarrow> o' | _ \<Rightarrow> [])) \<and>
        validate_output vs (pl_output_schema_id m) (px_output x) = Inr True \<and>
        (\<exists>h. contract_hash L (pdict [(''output'', json_py (JObj (px_output x)))]) = Inr h \<and> px_output_digest x = Some h))"

lemma check_response_ok:
  assumes "check_response L vs m req raw = Inr x" "px_status x = ''ok''"
  shows "bound_answer L vs m req raw x"
proof -
  have rej: "rejected L req err \<noteq> Inr x" for err using assms(2) by (auto simp: plugin_result_def)
  obtain limit where 1: "positive_integer None (PStr (pl_max_response_bytes m)) = Inr limit"
    using assms(1) by (cases "positive_integer None (PStr (pl_max_response_bytes m))") (simp_all add: check_response_def)
  have 2: "int (length raw) \<le> limit" using assms(1) 1 rej by (simp add: check_response_def split: if_splits)
  obtain kvs where 3: "parse_document raw = Inr (JObj kvs)"
    using assms(1) 1 2 rej by (cases "parse_document raw") (auto simp: check_response_def split: json.splits if_splits)
  note R = assms(1) [unfolded check_response_def 1 bindR_simps Let_def 3 sum.case json.case if_not_P [OF leD [OF 2]] jget_def]
  have 4: "set (dict_keys kvs) = set RESPONSE_FIELDS" using R rej by (auto split: if_splits)
  have 5: "map_of kvs ''plugin_response_version'' = Some (JStr PLUGIN_RESPONSE_VERSION)" using R 4 rej by (auto split: if_splits)
  have 6: "map_of kvs ''request_id'' = Some (JStr (pq_request_id req))" "map_of kvs ''plugin_id'' = Some (JStr (pl_plugin_id m))"
    "map_of kvs ''plugin_version'' = Some (JStr (pl_plugin_version m))" "map_of kvs ''output_schema_id'' = Some (JStr (pl_output_schema_id m))"
    using R 4 5 rej by (simp_all split: if_splits)
  have R2: "(case map_of kvs ''output'' of
             Some (JObj out) \<Rightarrow>
               (case normalized_member L ''output'' (json_py (JObj out)) of
                  Inl _ \<Rightarrow> rejected L req ''plugin_output_invalid''
                | Inr j \<Rightarrow>
                    bindR (validate_output vs (pl_output_schema_id m) (case j of JObj o' \<Rightarrow> o' | _ \<Rightarrow> [])) (\<lambda>good.
                    if \<not> good then rejected L req ''plugin_output_schema_failed''
                    else plugin_result L req ''ok'' None (case j of JObj o' \<Rightarrow> o' | _ \<Rightarrow> [])))
           | _ \<Rightarrow> rejected L req ''plugin_output_invalid'') = Inr x"
    using R 4 5 6 by simp
  obtain out where 7: "map_of kvs ''output'' = Some (JObj out)" using R2 rej by (auto split: option.splits json.splits)
  obtain j where 8: "normalized_member L ''output'' (json_py (JObj out)) = Inr j"
    using R2 7 rej by (cases "normalized_member L ''output'' (json_py (JObj out))") (auto simp del: json_py.simps)
  let ?o = "case j of JObj o' \<Rightarrow> o' | _ \<Rightarrow> []"
  have R3: "bindR (validate_output vs (pl_output_schema_id m) ?o) (\<lambda>good. if \<not> good then rejected L req ''plugin_output_schema_failed''
      else plugin_result L req ''ok'' None ?o) = Inr x"
    using R2 by (simp add: 7 8 del: json_py.simps)
  then have 9: "validate_output vs (pl_output_schema_id m) ?o = Inr True" "plugin_result L req ''ok'' None ?o = Inr x"
    using rej by (auto simp: bindR_Inr_iff split: if_splits)
  then obtain h where "contract_hash L (pdict [(''output'', json_py (JObj ?o))]) = Inr h" "px_output_digest x = Some h" "px_output x = ?o"
    by (auto simp: plugin_result_def bindR_Inr_iff simp del: json_py.simps)
  with 1 2 3 4 5 6 7 8 9(1) show ?thesis unfolding bound_answer_def by metis
qed

text \<open>An answer with an integer literal over Python's limit of digits makes the gateway raise; it is not rejected.\<close>

lemma long_integer_answer_raises:
  assumes "positive_integer None (PStr (pl_max_response_bytes m)) = Inr limit" "int (length raw) \<le> limit"
    and "decode_utf8 raw = Inr t" "loads t = Some j" "long_int j"
  shows "check_response L vs m req raw = Inl ValueError"
  using assms by (simp add: check_response_def parse_document_def)

lemma plugin_step:
  assumes "invoke L run vs now (q, r) m req token = (res, q', r')" and "(q', r') \<noteq> (q, r)"
  shows "\<exists>b calls. sendable L now m req token b \<and> positive_integer None (PStr (pl_max_calls m)) = Inr calls \<and>
     (case map_of q (quota_key_of m req) of None \<Rightarrow> 0 | Some n \<Rightarrow> n) < calls \<and>
     q' = dict_set (quota_key_of m req) ((case map_of q (quota_key_of m req) of None \<Rightarrow> 0 | Some n \<Rightarrow> n) + 1) q"
proof (cases "plugin_precheck L now m req token")
  case (Inl outcome)
  then show ?thesis using assms by (simp add: invoke_def)
next
  case (Inr b)
  obtain calls where c: "positive_integer None (PStr (pl_max_calls m)) = Inr calls"
    using assms Inr by (cases "positive_integer None (PStr (pl_max_calls m))") (simp_all add: invoke_def)
  have n: "(case map_of q (quota_key_of m req) of None \<Rightarrow> 0 | Some n \<Rightarrow> n) < calls"
    using assms Inr c by (auto simp: invoke_def consume_def Let_def not_le split: if_splits)
  have "q' = dict_set (quota_key_of m req) ((case map_of q (quota_key_of m req) of None \<Rightarrow> 0 | Some n \<Rightarrow> n) + 1) q"
    using assms(1) Inr c n by (auto simp: invoke_def consume_def Let_def split: sum.splits prod.splits runner_outcome.splits)
  with n c precheck_sendable [OF Inr] show ?thesis by blast
qed

text \<open>
  C28: plugins are called only as allowed and believed only as bound. If a call of the gateway touches the
  quota store or the runner, then the request fits the manifest, its deadline has not passed, the capability
  is live, of this workspace and actor, and lists the plugin and all required capabilities, the sensitivity is
  within the capability and the egress class (with no payload at all for class \<open>none\<close>) and the bytes are
  within the limit; and the quota was below its limit and went up by one. If the result is \<open>ok\<close>, the runner was
  called on exactly these bytes with at most two minutes and returned a document within the size limit that names this request,
  plugin, version and schema, and the output is its normalised output, accepted by the validator.
\<close>

theorem plugin_called_and_believed_as_allowed:
  assumes "invoke L run vs now (q, r) m req token = (res, q', r')"
  shows "((q', r') \<noteq> (q, r) \<longrightarrow>
      (\<exists>b calls. sendable L now m req token b \<and> positive_integer None (PStr (pl_max_calls m)) = Inr calls \<and>
         (case map_of q (quota_key_of m req) of None \<Rightarrow> 0 | Some n \<Rightarrow> n) < calls \<and>
         q' = dict_set (quota_key_of m req) ((case map_of q (quota_key_of m req) of None \<Rightarrow> 0 | Some n \<Rightarrow> n) + 1) q)) \<and>
    (\<forall>x. res = Inr x \<and> px_status x = ''ok'' \<longrightarrow>
      (\<exists>b t raw. sendable L now m req token b \<and> t \<le> 120000 \<and> run r m b t = (Returned raw, r') \<and> bound_answer L vs m req raw x))"
proof (cases "plugin_precheck L now m req token")
  case (Inl outcome)
  then show ?thesis using assms precheck_outcome by (auto simp: invoke_def)
next
  case (Inr b)
  note b = precheck_sendable [OF Inr]
  let ?n = "case map_of q (quota_key_of m req) of None \<Rightarrow> 0 | Some n \<Rightarrow> n"
  show ?thesis
  proof (cases "positive_integer None (PStr (pl_max_calls m))")
    case (Inl e)
    then show ?thesis using assms Inr by (auto simp: invoke_def)
  next
    case calls: (Inr calls)
    show ?thesis
    proof (cases "?n \<ge> calls")
      case True
      then show ?thesis using assms Inr calls by (auto simp: invoke_def consume_def Let_def plugin_result_def)
    next
      case False
      let ?q = "dict_set (quota_key_of m req) (?n + 1) q"
      have q: "consume q (quota_key_of m req) calls = (True, ?q)" using False by (simp add: consume_def Let_def)
      have "q' = ?q \<and> (\<forall>x. res = Inr x \<and> px_status x = ''ok'' \<longrightarrow>
          (\<exists>t raw. t \<le> 120000 \<and> run r m b t = (Returned raw, r') \<and> bound_answer L vs m req raw x))"
      proof (cases "positive_integer (Some 120000) (PStr (pl_timeout_ms m))")
        case (Inl e)
        then show ?thesis using assms Inr calls q by (auto simp: invoke_def plugin_result_def)
      next
        case t: (Inr t)
        then have le: "t \<le> 120000" by (auto simp: positive_integer_def bindR_Inr_iff split: if_splits)
        obtain out r1 where run: "run r m b t = (out, r1)" by fastforce
        show ?thesis
        proof (cases out)
          case (Returned raw)
          then have e: "res = check_response L vs m req raw" "q' = ?q" "run r m b t = (Returned raw, r')"
            using assms Inr calls q t run by (auto simp: invoke_def)
          have "\<exists>t raw. t \<le> 120000 \<and> run r m b t = (Returned raw, r') \<and> bound_answer L vs m req raw x"
            if "res = Inr x \<and> px_status x = ''ok''" for x
            using check_response_ok [of L vs m req raw x] e(1,3) that le by (intro exI [of _ t] exI [of _ raw]) simp
          with e(2) show ?thesis by blast
        qed (use assms Inr calls q t run in \<open>auto simp: invoke_def plugin_result_def\<close>)
      qed
      then show ?thesis using b calls False by auto
    qed
  qed
qed

text \<open>A run of calls, with the keys for which the runner was touched.\<close>

fun run_plugins ::
    "lib \<Rightarrow> ('r \<Rightarrow> plugin_manifest \<Rightarrow> bytes \<Rightarrow> int \<Rightarrow> runner_outcome \<times> 'r) \<Rightarrow> output_validators \<Rightarrow> quota_store \<times> 'r \<Rightarrow>
     (string \<times> plugin_manifest \<times> plugin_request \<times> capability_token) list \<Rightarrow> quota_key list \<times> quota_store \<times> 'r" where
  "run_plugins L run vs st [] = ([], st)"
| "run_plugins L run vs st ((now, m, req, token) # cs) =
     (let (res, st1) = invoke L run vs now st m req token; (ks, st2) = run_plugins L run vs st1 cs
      in (if snd st1 \<noteq> snd st then quota_key_of m req # ks else ks, st2))"

definition used :: "quota_store \<Rightarrow> quota_key \<Rightarrow> int" where
  "used q k = (case map_of q k of None \<Rightarrow> 0 | Some n \<Rightarrow> n)"

lemma invoke_used:
  assumes "invoke L run vs now (q, r) m req token = (res, q', r')"
    and "\<And>calls. quota_key_of m req = k \<Longrightarrow> positive_integer None (PStr (pl_max_calls m)) = Inr calls \<Longrightarrow> calls \<le> limit"
    and "used q k \<le> limit"
  shows "used q k + (if r' \<noteq> r \<and> quota_key_of m req = k then 1 else 0) \<le> used q' k" "used q' k \<le> limit"
proof -
  have "used q k + (if r' \<noteq> r \<and> quota_key_of m req = k then 1 else 0) \<le> used q' k \<and> used q' k \<le> limit"
  proof (cases "(q', r') = (q, r)")
    case False
    then obtain calls where c: "positive_integer None (PStr (pl_max_calls m)) = Inr calls" "used q (quota_key_of m req) < calls"
      "q' = dict_set (quota_key_of m req) (used q (quota_key_of m req) + 1) q"
      using plugin_step [OF assms(1)] unfolding used_def by blast
    then show ?thesis using assms(2) [OF _ c(1)] assms(3) by (auto simp: used_def)
  qed (use assms(3) in auto)
  then show "used q k + (if r' \<noteq> r \<and> quota_key_of m req = k then 1 else 0) \<le> used q' k" "used q' k \<le> limit" by blast+
qed

text \<open>
  C29: the quota bounds the calls. In any sequence of requests on an empty quota store, the runner is
  reached for one workspace, operation and plugin at most as often as the largest
  \<open>max_calls_per_operation\<close> of the manifests used with that key.
\<close>

theorem plugin_calls_within_quota:
  assumes "run_plugins L run vs ([], r) cs = (ks, q, r')" and "0 \<le> limit"
    and "\<forall>(now, m, req, token)\<in>set cs. quota_key_of m req = k \<longrightarrow>
           (\<forall>calls. positive_integer None (PStr (pl_max_calls m)) = Inr calls \<longrightarrow> calls \<le> limit)"
  shows "int (count_list ks k) \<le> used q k \<and> used q k \<le> limit"
proof -
  have "used q0 k \<le> limit \<Longrightarrow> run_plugins L run vs (q0, r) cs = (ks, q, r') \<Longrightarrow>
      (\<forall>(now, m, req, token)\<in>set cs. quota_key_of m req = k \<longrightarrow>
           (\<forall>calls. positive_integer None (PStr (pl_max_calls m)) = Inr calls \<longrightarrow> calls \<le> limit)) \<Longrightarrow>
      used q0 k + int (count_list ks k) \<le> used q k \<and> used q k \<le> limit" for q0
  proof (induction cs arbitrary: q0 r ks)
    case (Cons c cs)
    obtain now m req token where c: "c = (now, m, req, token)" by (metis prod_cases4)
    obtain res q1 r1 where i: "invoke L run vs now (q0, r) m req token = (res, q1, r1)" by (metis prod_cases3)
    obtain ks1 st where s: "run_plugins L run vs (q1, r1) cs = (ks1, st)" by (cases "run_plugins L run vs (q1, r1) cs") simp
    have st: "st = (q, r')" "ks = (if r1 \<noteq> r then quota_key_of m req # ks1 else ks1)" using Cons.prems(2) i s by (auto simp: c Let_def)
    have lim: "calls \<le> limit" if "quota_key_of m req = k" "positive_integer None (PStr (pl_max_calls m)) = Inr calls" for calls
      using Cons.prems(3) that by (auto simp: c)
    note U = invoke_used [OF i lim Cons.prems(1)]
    have "used q1 k + int (count_list ks1 k) \<le> used q k \<and> used q k \<le> limit"
      using Cons.IH [OF U(2)] s st(1) Cons.prems(3) by auto
    with U(1) st(2) show ?case by auto
  qed simp
  from this [of "[]"] assms show ?thesis by (simp add: used_def)
qed

subsection \<open>A concrete call\<close>

definition demo_manifest :: plugin_manifest where
  "demo_manifest = \<lparr>pl_schema_version = PLUGIN_MANIFEST_VERSION, pl_manifest_id = ''m'', pl_plugin_id = ''p'', pl_plugin_version = ''1'',
     pl_runner_mode = ''out_of_process'', pl_allowed_operations = [''op''], pl_required_capabilities = [''net''], pl_egress_class = ''none'',
     pl_max_request_bytes = ''9999'', pl_max_response_bytes = ''9999'', pl_timeout_ms = ''10'', pl_max_calls = ''1'', pl_output_schema_id = ''s''\<rparr>"

definition demo_plugin_request :: plugin_request where
  "demo_plugin_request = \<lparr>pq_version = PLUGIN_REQUEST_VERSION, pq_request_id = ''r'', pq_plugin_id = ''p'', pq_plugin_version = ''1'',
     pq_workspace_id = ''w'', pq_actor_id = ''a'', pq_operation_id = ''o'', pq_operation_type = ''op'', pq_capability_token_ref = ''t'',
     pq_sensitivity = ''public'', pq_deadline_at = ''6'', pq_correlation_id = ''c'', pq_payload = []\<rparr>"

definition demo_plugin_token :: capability_token where
  "demo_plugin_token = \<lparr>ct_token_id = ''t'', ct_workspace_id = ''w'', ct_actor_id = ''a'', ct_actions = [''net'', ''plugin.invoke:p''],
     ct_max_sensitivity = PUBLIC, ct_expires_at = ''9''\<rparr>"

definition demo_answer :: bytes where
  "demo_answer = dumps (JObj [(''plugin_response_version'', JStr PLUGIN_RESPONSE_VERSION), (''request_id'', JStr ''r''), (''plugin_id'', JStr ''p''),
     (''plugin_version'', JStr ''1''), (''output_schema_id'', JStr ''s''), (''output'', JObj [])])"

definition demo_invoke :: "plugin_invocation_result res \<times> quota_store \<times> nat" where
  "demo_invoke = invoke demo_lib (\<lambda>n m b t. (Returned demo_answer, Suc n)) [(''s'', \<lambda>_. Inr True)] ''5'' ([], 0) demo_manifest
     demo_plugin_request demo_plugin_token"

lemma demo_invoke_result: "map_prod (map_sum id px_status) id demo_invoke = (Inr ''ok'', [((''w'', ''o'', ''p''), 1)], 1)"
  by code_simp

lemma demo_invoke_shape:
  obtains x where "demo_invoke = (Inr x, [((''w'', ''o'', ''p''), 1)], 1)" and "px_status x = ''ok''"
proof -
  obtain a q r where d: "demo_invoke = (a, q, r)" by (rule prod_cases3)
  have a: "map_sum id px_status a = Inr ''ok''" and q: "q = [((''w'', ''o'', ''p''), 1)]" and r: "r = 1"
    using demo_invoke_result by (simp_all only: d map_prod_simp prod.inject id_apply)
  obtain x where "a = Inr x" "px_status x = ''ok''" using a by (cases a) simp_all
  with d q r that show thesis by simp
qed

theorem plugin_called_and_believed_as_allowed_witness:
  "\<exists>x b t raw. fst demo_invoke = Inr x \<and> px_status x = ''ok'' \<and>
     sendable demo_lib ''5'' demo_manifest demo_plugin_request demo_plugin_token b \<and> t \<le> (120000 :: int) \<and>
     bound_answer demo_lib [(''s'', \<lambda>_. Inr True)] demo_manifest demo_plugin_request raw x"
proof -
  obtain x where d: "demo_invoke = (Inr x, [((''w'', ''o'', ''p''), 1)], 1)" and x: "px_status x = ''ok''"
    by (rule demo_invoke_shape)
  from plugin_called_and_believed_as_allowed [OF d [unfolded demo_invoke_def]] x obtain b and t :: int and raw
    where "sendable demo_lib ''5'' demo_manifest demo_plugin_request demo_plugin_token b" "t \<le> 120000"
      "bound_answer demo_lib [(''s'', \<lambda>_. Inr True)] demo_manifest demo_plugin_request raw x" by blast
  moreover have "fst demo_invoke = Inr x" unfolding d by (rule fst_conv)
  ultimately show ?thesis using x by blast
qed

theorem plugin_calls_within_quota_witness:
  "\<exists>ks q r. run_plugins demo_lib (\<lambda>n m b t. (Returned demo_answer, Suc n)) [(''s'', \<lambda>_. Inr True)] ([], 0)
       [(''5'', demo_manifest, demo_plugin_request, demo_plugin_token)] = (ks, q, r) \<and>
     ks = [(''w'', ''o'', ''p'')] \<and> int (count_list ks (''w'', ''o'', ''p'')) \<le> 1"
proof -
  let ?c = "[(''5'', demo_manifest, demo_plugin_request, demo_plugin_token)]"
  have k: "quota_key_of demo_manifest demo_plugin_request = (''w'', ''o'', ''p'')" by code_simp
  have p: "positive_integer None (PStr (pl_max_calls demo_manifest)) = Inr 1" by code_simp
  obtain x where d: "demo_invoke = (Inr x, [((''w'', ''o'', ''p''), 1)], 1)" by (rule demo_invoke_shape)
  have r: "run_plugins demo_lib (\<lambda>n m b t. (Returned demo_answer, Suc n)) [(''s'', \<lambda>_. Inr True)] ([], 0) ?c =
      ([(''w'', ''o'', ''p'')], [((''w'', ''o'', ''p''), 1)], 1)"
    using d [unfolded demo_invoke_def] by (simp add: split_beta Let_def k)
  have "int (count_list [(''w'', ''o'', ''p'')] (''w'', ''o'', ''p'')) \<le> 1"
    using plugin_calls_within_quota [OF r, of 1 "(''w'', ''o'', ''p'')"] p by auto
  with r show ?thesis by blast
qed

end
