(* ===== verification/ChangeSets.thy ===== *)
theory ChangeSets
  imports Publish Contracts
begin

text \<open>
  \<open>memory_core/changeset_publication.py\<close>: accepted change sets and the adapter that publishes them
  through the publisher. A change set names its claims by references that carry the hash of their content;
  the adapter publishes it only on the parent it was accepted for and only after recomputing all hashes.

  The results: a built change set is accepted by the adapter and resolves to the objects it was built from; a
  publication reported as done really extends the parent's knowledge by the resolved claims, and any other
  answer leaves the current generation; publishing the same change set again is recognised as a replay.
\<close>

record resolved_change_object =
  rc_object_ref :: string
  rc_revision_hash :: string
  rc_compiled_claim :: compiled_claim

definition compiled_claim_value :: "compiled_claim \<Rightarrow> pyval" where
  "compiled_claim_value c =
     (let i = identity c; a = assertion c; e = evidence c in pdict
        [(''identity'', pdict [(''claim_id'', PStr (claim_id i)), (''subject_id'', PStr (subject_id i)),
            (''predicate_id'', PStr (predicate_id i)), (''object'', PStr (obj i)), (''polarity'', PStr (polarity i)),
            (''scope'', pstr_dict (scope i))]),
         (''assertion'', pdict [(''assertion_id'', PStr (assertion_id a)), (''claim_id'', PStr (a_claim_id a)),
            (''source_id'', PStr (a_source_id a)), (''evidence_ids'', PList (map PStr (evidence_ids a))),
            (''modality'', PStr (modality a))]),
         (''evidence'', pdict [(''evidence_id'', PStr (evidence_id e)), (''source_object_hash'', PStr (source_object_hash e)),
            (''representation_hash'', PStr (representation_hash e)), (''quote_hash'', PStr (quote_hash e)),
            (''locators'', PList (map pstr_dict (locators e)))])])"

definition compiled_claim_hash :: "lib \<Rightarrow> compiled_claim \<Rightarrow> string res" where
  "compiled_claim_hash L c = canonical_hash L (compiled_claim_value c)"

definition claim_object_ref :: "lib \<Rightarrow> compiled_claim \<Rightarrow> string res" where
  "claim_object_ref L c =
     bindR (compiled_claim_hash L c) (\<lambda>h. Inr (''claim_assertion:'' @ assertion_id (assertion c) @ '':'' @ h))"

definition compute_changes_root ::
    "lib \<Rightarrow> string \<Rightarrow> string option \<Rightarrow> string list \<Rightarrow> resolved_change_object list \<Rightarrow> string res" where
  "compute_changes_root L ws parent cmds objs = contract_hash L (pdict
     [(''workspace_id'', PStr ws), (''parent_generation_id'', popt parent), (''command_ids'', PList (map PStr (sort cmds))),
      (''objects'', PList (map (\<lambda>x. pdict [(''object_ref'', PStr (rc_object_ref x)), (''revision_hash'', PStr (rc_revision_hash x))])
         (sort_key rc_object_ref objs)))])"

text \<open>The content that the id of a change set hashes.\<close>

definition changeset_identity :: "string \<Rightarrow> string \<Rightarrow> string option \<Rightarrow> string list \<Rightarrow> string list \<Rightarrow> string \<Rightarrow> pyval" where
  "changeset_identity version ws parent cmds refs root = pdict
     [(''contract_version'', PStr version), (''workspace_id'', PStr ws), (''parent_generation_id'', popt parent),
      (''command_ids'', PList (map PStr cmds)), (''object_refs'', PList (map PStr refs)), (''changes_root'', PStr root)]"

definition build_changeset ::
    "lib \<Rightarrow> string \<Rightarrow> string option \<Rightarrow> string list \<Rightarrow> resolved_change_object list \<Rightarrow> accepted_changeset res" where
  "build_changeset L ws parent cmds objs =
     (let commands = sort cmds; refs = sort (map rc_object_ref objs) in
      if ws = [] \<or> commands = [] \<or> refs = [] then Inl ChangeSetIncomplete
      else if \<not> distinct commands \<or> \<not> distinct refs then Inl ChangeSetIncomplete
      else
        bindR (compute_changes_root L ws parent commands objs) (\<lambda>root.
        bindR (contract_hash L (changeset_identity CONTRACT_VERSION ws parent commands refs root)) (\<lambda>cid.
        Inr \<lparr>ac_contract_version = CONTRACT_VERSION, ac_changeset_id = cid, ac_workspace_id = ws,
             ac_parent_generation_id = parent, ac_command_ids = commands, ac_object_refs = refs, ac_changes_root = root\<rparr>)))"

subsection \<open>The object store\<close>

type_synonym change_object_store = "(string \<times> string, resolved_change_object) dict"
type_synonym change_object_resolver = "string \<Rightarrow> string \<Rightarrow> resolved_change_object option res"

definition add_change_object ::
    "lib \<Rightarrow> change_object_store \<Rightarrow> string \<Rightarrow> compiled_claim \<Rightarrow> (resolved_change_object \<times> change_object_store) res" where
  "add_change_object L store ws c =
     bindR (compiled_claim_hash L c) (\<lambda>h.
     bindR (claim_object_ref L c) (\<lambda>ref.
     let item = \<lparr>rc_object_ref = ref, rc_revision_hash = h, rc_compiled_claim = c\<rparr>
     in Inr (item, dict_set (ws, ref) item store)))"

definition resolve_change_object :: "change_object_store \<Rightarrow> change_object_resolver" where
  "resolve_change_object store ws ref = Inr (map_of store (ws, ref))"

subsection \<open>The publication adapter\<close>

text \<open>One round of the loop of \<open>_resolve\<close>.\<close>

definition resolve_ref :: "lib \<Rightarrow> change_object_resolver \<Rightarrow> string \<Rightarrow> string \<Rightarrow> resolved_change_object res" where
  "resolve_ref L R ws ref =
     bindR (R ws ref) (\<lambda>found. case found of
       None \<Rightarrow> Inl ChangeSetIncomplete
     | Some item \<Rightarrow>
         if rc_object_ref item \<noteq> ref then Inl ChangeSetBindingMismatch
         else bindR (compiled_claim_hash L (rc_compiled_claim item)) (\<lambda>h.
              if rc_revision_hash item \<noteq> h then Inl ChangeSetBindingMismatch
              else bindR (claim_object_ref L (rc_compiled_claim item)) (\<lambda>ref'.
                   if ref' \<noteq> ref then Inl ChangeSetBindingMismatch else Inr item)))"

definition resolve_changeset :: "lib \<Rightarrow> change_object_resolver \<Rightarrow> accepted_changeset \<Rightarrow> resolved_change_object list res" where
  "resolve_changeset L R c =
     (if ac_contract_version c \<noteq> CONTRACT_VERSION then Inl ChangeSetIncomplete
      else if sort (ac_command_ids c) \<noteq> ac_command_ids c then Inl ChangeSetIncomplete
      else if sort (ac_object_refs c) \<noteq> ac_object_refs c then Inl ChangeSetIncomplete
      else if \<not> distinct (ac_command_ids c) then Inl ChangeSetIncomplete
      else if \<not> distinct (ac_object_refs c) then Inl ChangeSetIncomplete
      else
        bindR (mapR (resolve_ref L R (ac_workspace_id c)) (ac_object_refs c)) (\<lambda>resolved.
        bindR (compute_changes_root L (ac_workspace_id c) (ac_parent_generation_id c) (ac_command_ids c) resolved) (\<lambda>root.
        if root \<noteq> ac_changes_root c then Inl ChangeSetRootMismatch
        else
          bindR (contract_hash L (changeset_identity (ac_contract_version c) (ac_workspace_id c) (ac_parent_generation_id c)
                   (ac_command_ids c) (ac_object_refs c) (ac_changes_root c))) (\<lambda>cid.
          if cid \<noteq> ac_changeset_id c then Inl ChangeSetBindingMismatch else Inr resolved))))"

definition changeset_binding :: "accepted_changeset \<Rightarrow> (string \<times> pyval) list" where
  "changeset_binding c =
     [(''contract_version'', PStr (ac_contract_version c)), (''changeset_id'', PStr (ac_changeset_id c)),
      (''workspace_id'', PStr (ac_workspace_id c)), (''parent_generation_id'', PStr (or_empty (ac_parent_generation_id c))),
      (''command_ids'', PList (map PStr (ac_command_ids c))), (''object_refs'', PList (map PStr (ac_object_refs c))),
      (''changes_root'', PStr (ac_changes_root c))]"

text \<open>\<open>candidate.descriptor.get("accepted_changeset") == self._binding(changeset)\<close>; dictionaries are equal in any order.\<close>

definition bound_to :: "accepted_changeset \<Rightarrow> candidate_result \<Rightarrow> bool" where
  "bound_to c cand =
     (case cand_descriptor cand of
        PDict kvs \<Rightarrow> (case map_of kvs (PStr ''accepted_changeset'') of
            Some (PDict b) \<Rightarrow> dict_eq b (map (\<lambda>(k, v). (PStr k, v)) (changeset_binding c))
          | _ \<Rightarrow> False)
      | _ \<Rightarrow> False)"

definition current_changeset_matches :: "'g generation_builder \<Rightarrow> 'g publisher \<Rightarrow> accepted_changeset \<Rightarrow> string option res" where
  "current_changeset_matches B s c =
     (case current_pointer (pub_cp s) of
        None \<Rightarrow> Inr None
      | Some gid \<Rightarrow>
          (case generation_commit (pub_cp s) gid of
             None \<Rightarrow> Inr None
           | Some commit \<Rightarrow>
               bindR (verify_manifest B (pub_repo s) commit gid) (\<lambda>ok.
               if \<not> ok then Inr None
               else
                 bindR (cat_file (gb_git B) (pub_repo s) (at_path commit (''manifest/'' @ gid @ ''.json''))) (\<lambda>raw.
                 case loads raw of
                   None \<Rightarrow> Inl JSONDecodeError
                 | Some manifest \<Rightarrow>
                     bindR (get_obj manifest ''descriptor'') (\<lambda>descriptor.
                     bindR (jget_or_none descriptor ''accepted_changeset'') (\<lambda>binding.
                     Inr (if jget binding ''changeset_id'' = Some (JStr (ac_changeset_id c)) then Some gid else None)))))))"

record prepared_changeset =
  pc_changeset :: accepted_changeset
  pc_publication :: prepared_publication

definition prepare_changeset ::
    "'g generation_builder \<Rightarrow> change_object_resolver \<Rightarrow> accepted_changeset \<Rightarrow> ('g publisher, prepared_changeset) prog" where
  "prepare_changeset B R c s =
     (if current_pointer (pub_cp s) \<noteq> ac_parent_generation_id c then (Inl ChangeSetStaleParent, s)
      else
        thenP (liftP (resolve_changeset (gb_lib B) R c)) (\<lambda>resolved.
        thenP (liftP (canonical_hash (gb_lib B)
                 (pdict [(''changeset_id'', PStr (ac_changeset_id c)), (''changes_root'', PStr (ac_changes_root c))]))) (\<lambda>src_hash.
        thenP (prepare B (map rc_compiled_claim resolved) src_hash [] (ExpectParent (ac_parent_generation_id c))
                 (Some (pdict (changeset_binding c))) 1) (\<lambda>pp.
        case pp_candidate pp of
          Some cand \<Rightarrow>
            if bound_to c cand then retP \<lparr>pc_changeset = c, pc_publication = pp\<rparr> else liftP (Inl ChangeSetBindingMismatch)
        | None \<Rightarrow> retP \<lparr>pc_changeset = c, pc_publication = pp\<rparr>))) s)"

definition changeset_result ::
    "accepted_changeset \<Rightarrow> string \<Rightarrow> string option \<Rightarrow> string option \<Rightarrow> (string, json) dict \<Rightarrow> core_result" where
  "changeset_result c st gid err res =
     \<lparr>rs_contract_version = CONTRACT_VERSION, rs_request_id = ac_changeset_id c, rs_status = st, rs_generation_id = gid,
      rs_result = res, rs_error_code = err\<rparr>"

definition json_opt :: "string option \<Rightarrow> json" where
  "json_opt x = (case x of None \<Rightarrow> JNull | Some s \<Rightarrow> JStr s)"

text \<open>\<open>x or y\<close> on optional strings.\<close>

definition or_else :: "string option \<Rightarrow> string option \<Rightarrow> string option" where
  "or_else x y = (if x = None \<or> x = Some [] then y else x)"

definition activate_changeset :: "prepared_changeset \<Rightarrow> ('g publisher, core_result) prog" where
  "activate_changeset p s =
     (let c = pc_changeset p; pp = pc_publication p in
      if (case pp_candidate pp of Some cand \<Rightarrow> \<not> bound_to c cand | None \<Rightarrow> False)
      then (Inr (changeset_result c ''rejected'' (current_pointer (pub_cp s)) (Some ''changeset_binding_mismatch'') []), s)
      else case activate_prepared pp s of
        (Inl CASConflict, s') \<Rightarrow>
          (Inr (changeset_result c ''retry_later'' (current_pointer (pub_cp s')) (Some ''stale_generation'') []), s')
      | (Inl e, s') \<Rightarrow> (Inl e, s')
      | (Inr r, s') \<Rightarrow>
          (Inr (changeset_result c ''ok'' (or_else (pr_generation_id r) (current_pointer (pub_cp s'))) None
             [(''changeset_id'', JStr (ac_changeset_id c)), (''candidate_commit_oid'', json_opt (pr_candidate_commit_oid r)),
              (''release_commit_oid'', json_opt (pr_release_commit_oid r)), (''replayed'', JBool False),
              (''noop'', JBool (pr_noop r))]), s'))"

text \<open>The error codes of the exception classes of this file.\<close>

definition changeset_error_code :: "exn \<Rightarrow> string option" where
  "changeset_error_code e = map_of
     [(ChangeSetRootMismatch, ''changeset_root_mismatch''), (ChangeSetIncomplete, ''changeset_incomplete''),
      (ChangeSetStaleParent, ''stale_generation''), (ChangeSetBindingMismatch, ''changeset_binding_mismatch'')] e"

text \<open>Between preparation and activation other publishers may work: \<open>env\<close> is what they do.\<close>

definition publish_changeset ::
    "'g generation_builder \<Rightarrow> ('g publisher \<Rightarrow> 'g publisher) \<Rightarrow> change_object_resolver \<Rightarrow> accepted_changeset \<Rightarrow>
     ('g publisher, core_result) prog" where
  "publish_changeset B env R c s =
     thenP (liftP (current_changeset_matches B s c)) (\<lambda>found s0.
     case found of
       Some gid \<Rightarrow>
         thenP (repair_published_generation B gid) (\<lambda>_.
         retP (changeset_result c ''ok'' (Some gid) None
           [(''changeset_id'', JStr (ac_changeset_id c)), (''replayed'', JBool True)])) s0
     | None \<Rightarrow>
         (case prepare_changeset B R c s0 of
            (Inr p, s') \<Rightarrow> activate_changeset p (env s')
          | (Inl e, s') \<Rightarrow>
              let current = current_pointer (pub_cp s') in
              (case changeset_error_code e of
                 Some code \<Rightarrow>
                   (Inr (changeset_result c (if e = ChangeSetStaleParent then ''retry_later'' else ''rejected'') current (Some code) []), s')
               | None \<Rightarrow>
                   if e = CASConflict
                   then (Inr (changeset_result c ''retry_later'' current (Some ''stale_generation'') []), s')
                   else (Inr (changeset_result c ''retry_later'' current (Some ''storage_prepare_failed'') []), s')))) s"

subsection \<open>Building and resolving\<close>

text \<open>The claims of one workspace added one after the other.\<close>

fun add_change_objects ::
    "lib \<Rightarrow> change_object_store \<Rightarrow> string \<Rightarrow> compiled_claim list \<Rightarrow> (resolved_change_object list \<times> change_object_store) res" where
  "add_change_objects L store ws [] = Inr ([], store)"
| "add_change_objects L store ws (c # cs) =
     bindR (add_change_object L store ws c) (\<lambda>(x, store1).
     bindR (add_change_objects L store1 ws cs) (\<lambda>(xs, store2). Inr (x # xs, store2)))"

text \<open>An object whose reference and hash are those of its content.\<close>

definition sealed_object :: "lib \<Rightarrow> resolved_change_object \<Rightarrow> bool" where
  "sealed_object L x \<longleftrightarrow>
     compiled_claim_hash L (rc_compiled_claim x) = Inr (rc_revision_hash x) \<and>
     claim_object_ref L (rc_compiled_claim x) = Inr (rc_object_ref x)"

lemma add_change_objectD:
  assumes "add_change_object L store ws c = Inr (x, store')"
  shows "sealed_object L x" "rc_compiled_claim x = c" "store' = dict_set (ws, rc_object_ref x) x store"
  using assms by (auto simp: add_change_object_def sealed_object_def bindR_Inr_iff Let_def)

lemma add_change_objects_found:
  assumes "add_change_objects L store ws cs = Inr (xs, store')" "distinct (map rc_object_ref xs)"
  shows "map rc_compiled_claim xs = cs" "x \<in> set xs \<Longrightarrow> sealed_object L x \<and> map_of store' (ws, rc_object_ref x) = Some x"
    "ref \<notin> set (map rc_object_ref xs) \<Longrightarrow> map_of store' (ws, ref) = map_of store (ws, ref)"
proof -
  have "map rc_compiled_claim xs = cs \<and> (\<forall>x\<in>set xs. sealed_object L x \<and> map_of store' (ws, rc_object_ref x) = Some x) \<and>
      (\<forall>ref. ref \<notin> set (map rc_object_ref xs) \<longrightarrow> map_of store' (ws, ref) = map_of store (ws, ref))"
    using assms
  proof (induction cs arbitrary: store xs)
    case (Cons c cs)
    then obtain x store1 ys where a: "add_change_object L store ws c = Inr (x, store1)"
      "add_change_objects L store1 ws cs = Inr (ys, store')" "xs = x # ys"
      by (auto simp: bindR_Inr_iff)
    have d: "distinct (map rc_object_ref ys)" "rc_object_ref x \<notin> set (map rc_object_ref ys)" using Cons.prems(2) a(3) by auto
    note A = add_change_objectD [OF a(1)] and IH = Cons.IH [OF a(2) d(1)]
    have "map_of store' (ws, rc_object_ref x) = Some x" using IH d(2) A(3) by auto
    with IH A a(3) show ?case by auto
  qed simp
  then show "map rc_compiled_claim xs = cs" "x \<in> set xs \<Longrightarrow> sealed_object L x \<and> map_of store' (ws, rc_object_ref x) = Some x"
    "ref \<notin> set (map rc_object_ref xs) \<Longrightarrow> map_of store' (ws, ref) = map_of store (ws, ref)"
    by auto
qed

lemma resolve_ref_Inr_iff:
  "resolve_ref L R ws ref = Inr x \<longleftrightarrow> R ws ref = Inr (Some x) \<and> rc_object_ref x = ref \<and> sealed_object L x"
  by (auto simp: resolve_ref_def sealed_object_def bindR_Inr_iff split: option.splits if_splits)

lemma changes_root_sorted:
  "compute_changes_root L ws parent (sort cmds) objs = compute_changes_root L ws parent cmds objs"
  "compute_changes_root L ws parent cmds (sort_key rc_object_ref objs) = compute_changes_root L ws parent cmds objs"
proof -
  have "sort_key rc_object_ref (sort_key rc_object_ref objs) = sort_key rc_object_ref objs"
    by (simp add: sort_key_id_if_sorted)
  then show "compute_changes_root L ws parent cmds (sort_key rc_object_ref objs) = compute_changes_root L ws parent cmds objs"
    by (simp add: compute_changes_root_def)
  show "compute_changes_root L ws parent (sort cmds) objs = compute_changes_root L ws parent cmds objs"
    by (simp add: compute_changes_root_def sorted_sort_id)
qed

text \<open>What a change set that the adapter accepts is.\<close>

lemma resolve_changesetD:
  assumes "resolve_changeset L R c = Inr xs"
  shows "ac_contract_version c = CONTRACT_VERSION" "sorted (ac_command_ids c)" "sorted (ac_object_refs c)"
    "distinct (ac_command_ids c)" "distinct (ac_object_refs c)"
    "map rc_object_ref xs = ac_object_refs c" "\<forall>x\<in>set xs. sealed_object L x \<and> R (ac_workspace_id c) (rc_object_ref x) = Inr (Some x)"
    "compute_changes_root L (ac_workspace_id c) (ac_parent_generation_id c) (ac_command_ids c) xs = Inr (ac_changes_root c)"
    "contract_hash L (changeset_identity (ac_contract_version c) (ac_workspace_id c) (ac_parent_generation_id c)
       (ac_command_ids c) (ac_object_refs c) (ac_changes_root c)) = Inr (ac_changeset_id c)"
proof -
  have g: "ac_contract_version c = CONTRACT_VERSION" "sort (ac_command_ids c) = ac_command_ids c" "sort (ac_object_refs c) = ac_object_refs c"
    "distinct (ac_command_ids c)" "distinct (ac_object_refs c)"
    using assms by (simp_all add: resolve_changeset_def split: if_splits)
  then have m: "mapR (resolve_ref L R (ac_workspace_id c)) (ac_object_refs c) = Inr xs"
    "compute_changes_root L (ac_workspace_id c) (ac_parent_generation_id c) (ac_command_ids c) xs = Inr (ac_changes_root c)"
    "contract_hash L (changeset_identity (ac_contract_version c) (ac_workspace_id c) (ac_parent_generation_id c)
       (ac_command_ids c) (ac_object_refs c) (ac_changes_root c)) = Inr (ac_changeset_id c)"
    using assms by (auto simp: resolve_changeset_def bindR_Inr_iff split: if_splits)
  from m(1) have l: "list_all2 (\<lambda>ref x. R (ac_workspace_id c) ref = Inr (Some x) \<and> rc_object_ref x = ref \<and> sealed_object L x) (ac_object_refs c) xs"
    by (simp add: mapR_Inr_iff resolve_ref_Inr_iff)
  then show "map rc_object_ref xs = ac_object_refs c" by (simp add: list_all2_conv_all_nth list_eq_iff_nth_eq)
  from l show "\<forall>x\<in>set xs. sealed_object L x \<and> R (ac_workspace_id c) (rc_object_ref x) = Inr (Some x)"
    by (auto simp: list_all2_conv_all_nth in_set_conv_nth)
  show "sorted (ac_command_ids c)" "sorted (ac_object_refs c)" using g(2,3) by (metis sorted_sort)+
  show "ac_contract_version c = CONTRACT_VERSION" "distinct (ac_command_ids c)" "distinct (ac_object_refs c)" using g by auto
  show "compute_changes_root L (ac_workspace_id c) (ac_parent_generation_id c) (ac_command_ids c) xs = Inr (ac_changes_root c)"
    "contract_hash L (changeset_identity (ac_contract_version c) (ac_workspace_id c) (ac_parent_generation_id c)
       (ac_command_ids c) (ac_object_refs c) (ac_changes_root c)) = Inr (ac_changeset_id c)" using m by auto
qed

lemma built_resolves:
  assumes "add_change_objects L store ws cs = Inr (objs, store')" and "build_changeset L ws parent cmds objs = Inr c"
  shows "resolve_changeset L (resolve_change_object store') c = Inr (sort_key rc_object_ref objs) \<and>
    mset (map rc_compiled_claim (sort_key rc_object_ref objs)) = mset cs"
proof -
  from assms(2) have d: "distinct (sort cmds)" "distinct (map rc_object_ref objs)"
    by (auto simp: build_changeset_def Let_def split: if_splits)
  with assms(2) obtain root cid where b: "compute_changes_root L ws parent (sort cmds) objs = Inr root"
    "contract_hash L (changeset_identity CONTRACT_VERSION ws parent (sort cmds) (sort (map rc_object_ref objs)) root) = Inr cid"
    and c: "c = \<lparr>ac_contract_version = CONTRACT_VERSION, ac_changeset_id = cid, ac_workspace_id = ws, ac_parent_generation_id = parent,
       ac_command_ids = sort cmds, ac_object_refs = sort (map rc_object_ref objs), ac_changes_root = root\<rparr>"
    by (auto simp: build_changeset_def Let_def bindR_Inr_iff split: if_splits)
  note F = add_change_objects_found [OF assms(1) d(2)]
  have refs: "sort (map rc_object_ref objs) = map rc_object_ref (sort_key rc_object_ref objs)" by (simp add: sort_key_map comp_def)
  have "mapR (resolve_ref L (resolve_change_object store') ws) (sort (map rc_object_ref objs)) = Inr (sort_key rc_object_ref objs)"
    unfolding refs mapR_Inr_iff using F(2)
    by (auto simp: list_all2_conv_all_nth resolve_ref_Inr_iff resolve_change_object_def intro: nth_mem [of _ "sort_key rc_object_ref objs", simplified])
  with b d have "resolve_changeset L (resolve_change_object store') c = Inr (sort_key rc_object_ref objs)"
    by (simp add: resolve_changeset_def c changes_root_sorted sorted_sort_id distinct_sort del: sort_key_simps)
  then show ?thesis using F(1) by (metis mset_map mset_sort)
qed

text \<open>
  C6: building and resolving a change set are inverse. When claims are added to the store and a change set is
  built of the resulting objects, the adapter accepts the change set and resolves it to exactly these objects, in the
  order of their references.
\<close>

theorem built_changeset_resolves:
  assumes "add_change_objects L store ws cs = Inr (objs, store')" and "build_changeset L ws parent cmds objs = Inr c"
  shows "resolve_changeset L (resolve_change_object store') c = Inr (sort_key rc_object_ref objs) \<and>
    mset (map rc_compiled_claim (sort_key rc_object_ref objs)) = mset cs"
  by (rule built_resolves [OF assms])

subsection \<open>Publishing a change set\<close>

lemma prepare_changesetD:
  assumes "prepare_changeset B R c s = (Inr p, s')"
  obtains xs src where "current_pointer (pub_cp s) = ac_parent_generation_id c" "resolve_changeset (gb_lib B) R c = Inr xs"
    "prepare B (map rc_compiled_claim xs) src [] (ExpectParent (ac_parent_generation_id c)) (Some (pdict (changeset_binding c))) 1 s =
      (Inr (pc_publication p), s')" "pc_changeset p = c"
  using assms that
  by (auto simp: prepare_changeset_def thenP_Inr_iff split: if_splits option.splits)

lemma steady_prepare_changeset: "steady (prepare_changeset B R c)"
proof -
  have "steady (thenP (prepare B cs src revs ex bd n) (\<lambda>pp. case pp_candidate pp of
          Some cand \<Rightarrow> if bound_to c cand then retP \<lparr>pc_changeset = c, pc_publication = pp\<rparr> else liftP (Inl ChangeSetBindingMismatch)
        | None \<Rightarrow> retP \<lparr>pc_changeset = c, pc_publication = pp\<rparr>))" for cs src revs ex bd n
    by (rule steady_thenP [OF steady_prepare]) (simp add: steady_liftP split: option.splits)
  then have "steady (thenP (liftP (resolve_changeset (gb_lib B) R c)) (\<lambda>resolved.
        thenP (liftP h) (\<lambda>src_hash.
        thenP (prepare B (map rc_compiled_claim resolved) src_hash [] ex bd 1) (\<lambda>pp.
        case pp_candidate pp of
          Some cand \<Rightarrow> if bound_to c cand then retP \<lparr>pc_changeset = c, pc_publication = pp\<rparr> else liftP (Inl ChangeSetBindingMismatch)
        | None \<Rightarrow> retP \<lparr>pc_changeset = c, pc_publication = pp\<rparr>))))" for h ex bd
    by (intro steady_thenP [OF steady_liftP])
  then show ?thesis unfolding steady_def prepare_changeset_def by simp
qed

lemma repair_steady: "repair_published_generation B gid s = (r, s') \<Longrightarrow> current_pointer (pub_cp s') = current_pointer (pub_cp s)"
  by (auto simp: repair_published_generation_def thenP_liftP current_pointer_def split: sum.splits dest!: keepsD [OF keeps_post_publish])

lemma matches_current: "current_changeset_matches B s c = Inr (Some gid) \<Longrightarrow> current_pointer (pub_cp s) = Some gid"
  by (auto simp: current_changeset_matches_def bindR_Inr_iff split: option.splits if_splits)

text \<open>The three ways in which activation answers.\<close>

lemma activate_changesetD:
  assumes "activate_changeset p s = (Inr r, s')"
  obtains (refused) "rs_status r \<noteq> ''ok''" "rs_error_code r \<noteq> None" "rs_generation_id r = current_pointer (pub_cp s)" "s' = s"
      "rs_result r = []"
  | (published) res where "activate_prepared (pc_publication p) s = (Inr res, s')" "rs_status r = ''ok''"
      "rs_generation_id r = current_pointer (pub_cp s')" "rs_error_code r = None"
      "map_of (rs_result r) ''noop'' = Some (JBool (pr_noop res))" "map_of (rs_result r) ''replayed'' = Some (JBool False)"
      "rs_request_id r = ac_changeset_id (pc_changeset p)"
proof (cases "case pp_candidate (pc_publication p) of Some cand \<Rightarrow> \<not> bound_to (pc_changeset p) cand | None \<Rightarrow> False")
  case True
  with assms show thesis by (intro refused) (auto simp: activate_changeset_def changeset_result_def Let_def)
next
  case False
  note unb = this
  obtain out s1 where o: "activate_prepared (pc_publication p) s = (out, s1)" by fastforce
  show thesis
  proof (cases out)
    case (Inl e)
    with assms unb o have "e = CASConflict" by (cases e) (simp_all add: activate_changeset_def Let_def)
    with assms unb o Inl activate_conflict_frame [of "pc_publication p" s s1] show thesis
      by (intro refused) (auto simp: activate_changeset_def changeset_result_def Let_def)
  next
    case (Inr res)
    with assms unb o have r: "r = changeset_result (pc_changeset p) ''ok'' (or_else (pr_generation_id res) (current_pointer (pub_cp s'))) None
             [(''changeset_id'', JStr (ac_changeset_id (pc_changeset p))), (''candidate_commit_oid'', json_opt (pr_candidate_commit_oid res)),
              (''release_commit_oid'', json_opt (pr_release_commit_oid res)), (''replayed'', JBool False),
              (''noop'', JBool (pr_noop res))]" "s1 = s'" by (auto simp: activate_changeset_def Let_def)
    have "or_else (pr_generation_id res) (current_pointer (pub_cp s')) = current_pointer (pub_cp s')"
      using activated_pointer [of "pc_publication p" s res s'] o Inr r(2) by (auto simp: or_else_def)
    with o Inr r show thesis by (intro published [of res]) (simp_all add: changeset_result_def)
  qed
qed

lemma error_code_not_ok: "changeset_error_code e = Some code \<Longrightarrow> code \<noteq> []"
  by (auto simp: changeset_error_code_def split: if_splits)

text \<open>The ways in which a publication answers.\<close>

lemma publish_changesetD:
  assumes "publish_changeset B env R c s = (Inr r, s')"
  obtains (replay) gid where "current_changeset_matches B s c = Inr (Some gid)" "rs_status r = ''ok''"
      "rs_generation_id r = Some gid" "current_pointer (pub_cp s) = Some gid" "current_pointer (pub_cp s') = Some gid"
      "map_of (rs_result r) ''replayed'' = Some (JBool True)" "map_of (rs_result r) ''noop'' = None"
  | (refused) e where "rs_status r \<noteq> ''ok''" "rs_error_code r \<noteq> None" "rs_generation_id r = current_pointer (pub_cp s')"
      "prepare_changeset B R c s = (Inl e, s')" "rs_result r = []"
  | (activated) p s1 where "current_changeset_matches B s c = Inr None" "prepare_changeset B R c s = (Inr p, s1)"
      "activate_changeset p (env s1) = (Inr r, s')"
proof -
  from assms obtain found where f: "current_changeset_matches B s c = Inr found"
    by (cases "current_changeset_matches B s c") (auto simp: publish_changeset_def thenP_liftP)
  show thesis
  proof (cases found)
    case (Some gid)
    note P = matches_current [OF f [unfolded Some]]
    from assms f Some obtain u where "repair_published_generation B gid s = (Inr u, s')"
      "r = changeset_result c ''ok'' (Some gid) None [(''changeset_id'', JStr (ac_changeset_id c)), (''replayed'', JBool True)]"
      by (auto simp: publish_changeset_def thenP_liftP thenP_Inr_iff)
    with f Some P repair_steady [of B gid s "Inr u" s'] show thesis by (intro replay [of gid]) (simp_all add: changeset_result_def)
  next
    case None
    obtain out s1 where o: "prepare_changeset B R c s = (out, s1)" by fastforce
    show thesis
    proof (cases out)
      case (Inl e)
      then have "s1 = s'" "rs_status r \<noteq> ''ok''" "rs_error_code r \<noteq> None" "rs_generation_id r = current_pointer (pub_cp s')" "rs_result r = []"
        using assms f None o
        by (auto simp: publish_changeset_def thenP_liftP changeset_result_def Let_def split: option.splits if_splits)
      with o Inl show thesis by (intro refused) simp_all
    next
      case (Inr p)
      with assms f None o show thesis by (intro activated [of p s1]) (simp_all add: publish_changeset_def thenP_liftP)
    qed
  qed
qed

text \<open>
  C3: a change set is published as accepted. Whatever an undisturbed publication answers, the generation it names is the
  current one. An answer other than \<open>ok\<close> carries an error code and leaves the current generation. The answer \<open>ok\<close>
  means a replay, which also leaves it, or that the current generation was the parent the change set was accepted for, every
  reference resolved to content with the recorded hashes, and the knowledge, read back from the signed artifact, has
  exactly the assertions of the parent and the resolved claims; unless it was a no-op, it is the parent's knowledge updated by these claims.
\<close>

theorem changeset_published_as_accepted:
  assumes "builder_ok B V" "anchored V s" "parent_claims B s (current_pointer (pub_cp s)) = Inr old"
    and "\<forall>k\<in>set old. good_claim (gb_lib B) k"
    and "\<forall>ws ref x. R ws ref = Inr (Some x) \<longrightarrow> good_claim (gb_lib B) (rc_compiled_claim x)"
    and "publish_changeset B id R c s = (Inr r, s')"
  shows "rs_generation_id r = current_pointer (pub_cp s') \<and>
    (rs_status r \<noteq> ''ok'' \<longrightarrow> rs_error_code r \<noteq> None \<and> current_pointer (pub_cp s') = current_pointer (pub_cp s)) \<and>
    (rs_status r = ''ok'' \<longrightarrow>
       (\<exists>gid. current_changeset_matches B s c = Inr (Some gid) \<and> current_pointer (pub_cp s) = Some gid \<and> current_pointer (pub_cp s') = Some gid) \<or>
       current_pointer (pub_cp s) = ac_parent_generation_id c \<and>
       (\<exists>xs know. resolve_changeset (gb_lib B) R c = Inr xs \<and> parent_claims B s' (current_pointer (pub_cp s')) = Inr know \<and>
          set (map aid_of know) = aid_of ` updated old (map rc_compiled_claim xs) [] \<and> anchored V s' \<and>
          (map_of (rs_result r) ''noop'' = Some (JBool False) \<longrightarrow> set know = sort_claim ` updated old (map rc_compiled_claim xs) [])))"
  using assms(6)
proof (cases rule: publish_changesetD)
  case (refused e)
  with steadyD [OF steady_prepare_changeset refused(4)] show ?thesis by auto
next
  case (activated p s1)
  obtain xs src where p: "current_pointer (pub_cp s) = ac_parent_generation_id c" "resolve_changeset (gb_lib B) R c = Inr xs"
    "prepare B (map rc_compiled_claim xs) src [] (ExpectParent (ac_parent_generation_id c)) (Some (pdict (changeset_binding c))) 1 s =
      (Inr (pc_publication p), s1)"
    by (rule prepare_changesetD [OF activated(2)])
  have good: "\<forall>k\<in>set old \<union> set (map rc_compiled_claim xs). good_claim (gb_lib B) k"
    using assms(4,5) resolve_changesetD(7) [OF p(2)] by auto
  have "activate_changeset p s1 = (Inr r, s')" using activated(3) by simp
  then show ?thesis
  proof (cases rule: activate_changesetD)
    case refused
    with steadyD [OF steady_prepare_changeset activated(2)] show ?thesis by auto
  next
    case (published res)
    have a: "publish_attempt B (\<lambda>_. id) (map rc_compiled_claim xs) src [] (ExpectParent (ac_parent_generation_id c))
        (Some (pdict (changeset_binding c))) 1 s = (Inr res, s')"
      using p(3) published(1) by (simp add: publish_attempt_def thenP_def)
    from publish_refines [OF assms(1-3) good a] p(1,2) published(2-5) show ?thesis by auto
  qed
qed auto

subsection \<open>Replays\<close>

lemma contract_hash_hex: "contract_hash L v = Inr h \<Longrightarrow> \<exists>d. h = hex d"
  by (auto simp: contract_hash_def bindR_Inr_iff sha256_hex_def)

lemma descriptor_binding:
  assumes "nfc_ascii L"
  shows "jget (canonical_form_of L (descriptor_of profile parent sh root w cd sd (Some b))) ''accepted_changeset'' = Some (canonical_form_of L b)"
  using nfc_asciiD [OF assms] by (simp add: descriptor_of_def canonical_form_pdict jget_def)

lemma binding_changeset_id:
  assumes "nfc_ascii L"
  shows "jget (canonical_form_of L (pdict (changeset_binding c))) ''changeset_id'' = Some (JStr (nfc L (ac_changeset_id c)))"
  using nfc_asciiD [OF assms] by (simp add: changeset_binding_def canonical_form_pdict jget_def)

lemma jwf_jget: "jwf j \<Longrightarrow> jget j k = Some v \<Longrightarrow> jwf v"
  by (cases j) (auto simp: jget_def list_all_iff dest: map_of_SomeD)

text \<open>The binding in a sealed candidate is found again.\<close>

lemma sealed_binding_found:
  assumes ok: "builder_ok B V" and sl: "seal B sv parent src root (Some (pdict (changeset_binding c))) = Inr sl"
    and files: "holds_files V (pub_repo s) commit (map_of (sealed_files sl))"
    and cp: "current_pointer (pub_cp s) = Some (sl_gid sl)" "generation_commit (pub_cp s) (sl_gid sl) = Some commit"
    and ver: "verify_manifest B (pub_repo s) commit (sl_gid sl) = Inr True"
    and cid: "nfc (gb_lib B) (ac_changeset_id c) = ac_changeset_id c"
  shows "current_changeset_matches B s c = Inr (Some (sl_gid sl))"
proof -
  let ?L = "gb_lib B"
  note D = sealD [OF sl] and ok = builder_okD [OF ok]
  let ?m = "canonical_form_of ?L (sl_manifest sl)" and ?d = "canonical_form_of ?L (sl_descriptor sl)"
    and ?b = "canonical_form_of ?L (pdict (changeset_binding c))"
  obtain sig where "sl_manifest sl = manifest_value (sl_descriptor sl) (sl_gid sl) (gb_key_id B) (hex sig)" using D(10) by blast
  then have md: "jget ?m ''descriptor'' = Some ?d" using manifest_get(1) [OF ok(4)] by simp
  note re = canonical_bytes_reload [OF D(9)] and wd = canonical_hash_wf [OF D(8)]
  have m: "get_obj (sort_keys ?m) ''descriptor'' = Inr (sort_keys ?d)" by (rule get_sort_keys(2) [OF conjunct2 [OF re] md])
  have d: "jget ?d ''accepted_changeset'' = Some ?b" unfolding D(7) by (rule descriptor_binding [OF ok(4)])
  then have b: "jget_or_none (sort_keys ?d) ''accepted_changeset'' = Inr (sort_keys ?b)" by (rule get_sort_keys(1) [OF wd])
  have i: "jget (sort_keys ?b) ''changeset_id'' = Some (JStr (ac_changeset_id c))"
    using jget_sort_keys [OF jwf_jget [OF wd d], of "''changeset_id''"] binding_changeset_id [OF ok(4), of c] cid by simp
  have "cat_file (gb_git B) (pub_repo s) (at_path commit (manifest_path (sl_gid sl))) = Inr (sl_manifest_bytes sl)"
    unfolding at_path_def by (rule cat_file_holds [OF ok(1) files], rule candidate_files_get)
  then show ?thesis using cp ver re m b i by (simp add: current_changeset_matches_def)
qed

text \<open>
  C5: publishing twice is publishing once. After a change set was published, a second publication of it, whatever the resolver now
  answers, is recognised: it returns \<open>ok\<close> and \<open>replayed\<close>, names the same generation, which stays current with the same knowledge,
  and leaves it searchable.
\<close>

theorem changeset_replay_recognised:
  assumes "builder_ok B V" "anchored V s" "parent_claims B s (current_pointer (pub_cp s)) = Inr old"
    and "\<forall>k\<in>set old. good_claim (gb_lib B) k"
    and "\<forall>ws ref x. R ws ref = Inr (Some x) \<longrightarrow> good_claim (gb_lib B) (rc_compiled_claim x)"
    and "publish_changeset B id R c s = (Inr r, s')" "map_of (rs_result r) ''noop'' = Some (JBool False)"
  shows "\<exists>r2 s2. publish_changeset B env R2 c s' = (Inr r2, s2) \<and> rs_status r2 = ''ok'' \<and>
     map_of (rs_result r2) ''replayed'' = Some (JBool True) \<and> rs_generation_id r2 = rs_generation_id r \<and>
     current_pointer (pub_cp s2) = current_pointer (pub_cp s') \<and> current_search_pointer (pub_cp s2) = rs_generation_id r \<and>
     parent_claims B s2 (current_pointer (pub_cp s2)) = parent_claims B s' (current_pointer (pub_cp s'))"
  using assms(6)
proof (cases rule: publish_changesetD)
  case (activated p s1)
  obtain xs src where p: "resolve_changeset (gb_lib B) R c = Inr xs"
    "prepare B (map rc_compiled_claim xs) src [] (ExpectParent (ac_parent_generation_id c)) (Some (pdict (changeset_binding c))) 1 s =
      (Inr (pc_publication p), s1)"
    by (rule prepare_changesetD [OF activated(2)])
  have good: "\<forall>k\<in>set old \<union> set (map rc_compiled_claim xs). good_claim (gb_lib B) k"
    using assms(4,5) resolve_changesetD(7) [OF p(1)] by auto
  have "activate_changeset p s1 = (Inr r, s')" using activated(3) by simp
  then obtain res where a: "activate_prepared (pc_publication p) s1 = (Inr res, s')" "rs_generation_id r = current_pointer (pub_cp s')" "\<not> pr_noop res"
    by (rule activate_changesetD) (use assms(7) in auto)
  obtain cand where cand: "pp_candidate (pc_publication p) = Some cand"
    using activate_prepared_frame(1) [OF a(1)] a(3) by (cases "pp_candidate (pc_publication p)") auto
  obtain rel root sl where C: "pp_release_commit_oid (pc_publication p) = Some rel" "\<not> pp_noop (pc_publication p)"
    "seal B (surviving_claims old (map rc_compiled_claim xs) []) (current_pointer (pub_cp s)) src root (Some (pdict (changeset_binding c))) = Inr sl"
    "cand_generation_id cand = sl_gid sl" "holds_files V (pub_repo s1) (cand_commit_oid cand) (map_of (sealed_files sl))"
    "generation_commit (pub_cp s1) (cand_generation_id cand) = Some (cand_commit_oid cand)"
    "verify_manifest B (pub_repo s1) (cand_commit_oid cand) (cand_generation_id cand) = Inr True"
    "parent_claims B s1 (Some (cand_generation_id cand)) = Inr (map sort_claim (surviving_claims old (map rc_compiled_claim xs) []))"
    by (rule prepared_candidate [OF assms(1-3) good p(2) cand])
  note F = activate_prepared_frame(2) [OF a(1) cand C(1,2)]
  have rows: "rows (pub_cp s') = rows (pub_cp s1)" "pub_repo s' = pub_repo s1" "current_pointer (pub_cp s') = Some (sl_gid sl)"
    using F C(4) by (simp_all add: current_pointer_def)
  obtain d where "ac_changeset_id c = hex d" using contract_hash_hex [OF resolve_changesetD(9) [OF p(1)]] ..
  then have cid: "nfc (gb_lib B) (ac_changeset_id c) = ac_changeset_id c" using nfc_hex [OF builder_okD(4) [OF assms(1)]] by simp
  have m: "current_changeset_matches B s' c = Inr (Some (sl_gid sl))"
    by (rule sealed_binding_found [OF assms(1) C(3) _ rows(3) _ _ cid, of "cand_commit_oid cand"])
      (use C(4-7) rows in \<open>simp_all add: generation_commit_rows\<close>)
  have pc: "parent_claims B s' (Some (sl_gid sl)) = Inr (map sort_claim (surviving_claims old (map rc_compiled_claim xs) []))"
    using C(4,8) parent_claims_cong [OF rows(2,1)] by simp
  have "sl_gid sl \<in> set (gen_ids (pub_cp s'))"
    using C(4,6) rows(1) rows_keys [of "pub_cp s'"] by (simp add: generation_commit_rows) (metis map_of_eq_None_iff option.distinct(1) set_map)
  then obtain s2 where s2: "post_publish (sl_gid sl) (map sort_claim (surviving_claims old (map rc_compiled_claim xs) [])) [] s' = (Inr (), s2)"
    "current_search_pointer (pub_cp s2) = Some (sl_gid sl)" using post_publish_total by blast
  note K = keepsD [OF keeps_post_publish s2(1)]
  have ptr: "current_pointer (pub_cp s2) = current_pointer (pub_cp s')" using K by (simp add: current_pointer_def)
  have "repair_published_generation B (sl_gid sl) s' = (Inr (), s2)"
    using pc s2(1) by (simp add: repair_published_generation_def thenP_liftP)
  then have "publish_changeset B env R2 c s' = (Inr (changeset_result c ''ok'' (Some (sl_gid sl)) None
      [(''changeset_id'', JStr (ac_changeset_id c)), (''replayed'', JBool True)]), s2)"
    using m by (simp add: publish_changeset_def thenP_liftP thenP_def liftP_def)
  moreover have "parent_claims B s2 (current_pointer (pub_cp s2)) = parent_claims B s' (current_pointer (pub_cp s'))"
    unfolding ptr using K by (intro parent_claims_cong) simp_all
  ultimately show ?thesis using s2(2) rows(3) a(2) ptr by (simp add: changeset_result_def)
qed (use assms(7) in auto)

subsection \<open>Progress\<close>

lemma sealed_bound_to:
  assumes "cand_descriptor cand = descriptor_of profile parent src root w cd sd (Some (pdict (changeset_binding c)))"
  shows "bound_to c cand"
  using assms by (simp add: bound_to_def descriptor_of_def pdict_def dict_eq_def list_all_iff)

lemma prepared_bound_to:
  assumes "prepare B new src revs expected (Some (pdict (changeset_binding c))) n s = (Inr pp, s')" "pp_candidate pp = Some cand"
  shows "bound_to c cand"
proof -
  obtain parents s1 where "prepare_generation B (current_pointer (pub_cp s)) (surviving_claims parents new revs) (sorted_set revs) src
      (Some (pdict (changeset_binding c))) n s1 = (Inr pp, s')"
    using prepareD [OF assms(1)] assms(2) by (metis (no_types, lifting) option.distinct(1) prepared_publication.select_convs(2))
  then obtain root g1 where "build_candidate B (surviving_claims parents new revs) (current_pointer (pub_cp s)) src root
      (Some (pdict (changeset_binding c))) (pub_repo s1) = (Inr cand, g1)"
    using assms(2) by (rule_tac prepare_generationD) auto
  then obtain sl where "seal B (surviving_claims parents new revs) (current_pointer (pub_cp s)) src root (Some (pdict (changeset_binding c))) = Inr sl"
    "cand_descriptor cand = sl_descriptor sl" by (rule build_candidateD)
  then show ?thesis using sealed_bound_to sealD(7) by metis
qed

lemma source_hash_total:
  "nfc_ascii L \<Longrightarrow> \<exists>h. canonical_hash L (pdict [(''changeset_id'', PStr x), (''changes_root'', PStr y)]) = Inr h"
  by (rule canonical_total(2)) (simp add: admissible_pdict nfc_asciiD)

lemma binding_admissible: "nfc_ascii L \<Longrightarrow> admissible L True (pdict (changeset_binding c))"
  by (simp add: changeset_binding_def admissible_pdict nfc_asciiD list_all_iff)

text \<open>A publication that is neither a replay nor stale is the publisher's attempt on the resolved claims.\<close>

lemma publish_changeset_attempt:
  assumes "current_changeset_matches B s c = Inr None" "current_pointer (pub_cp s) = ac_parent_generation_id c"
    and "resolve_changeset (gb_lib B) R c = Inr xs"
    and "canonical_hash (gb_lib B) (pdict [(''changeset_id'', PStr (ac_changeset_id c)), (''changes_root'', PStr (ac_changes_root c))]) = Inr src"
    and "publish_attempt B (\<lambda>_. id) (map rc_compiled_claim xs) src [] (ExpectParent (ac_parent_generation_id c))
        (Some (pdict (changeset_binding c))) 1 s = (Inr res, s')"
  shows "\<exists>r. publish_changeset B id R c s = (Inr r, s') \<and> rs_status r = ''ok'' \<and> rs_generation_id r = current_pointer (pub_cp s') \<and>
    map_of (rs_result r) ''noop'' = Some (JBool (pr_noop res))"
proof -
  from assms(5) obtain pp s1 where p: "prepare B (map rc_compiled_claim xs) src [] (ExpectParent (ac_parent_generation_id c))
        (Some (pdict (changeset_binding c))) 1 s = (Inr pp, s1)" "activate_prepared pp s1 = (Inr res, s')"
    by (auto simp: publish_attempt_def thenP_Inr_iff)
  have b: "bound_to c cand" if "pp_candidate pp = Some cand" for cand by (rule prepared_bound_to [OF p(1) that])
  have "prepare_changeset B R c s = (Inr \<lparr>pc_changeset = c, pc_publication = pp\<rparr>, s1)"
    using assms(2-4) p(1) b by (auto simp: prepare_changeset_def thenP_liftP thenP_def liftP_def split: option.splits)
  then have "publish_changeset B id R c s = activate_changeset \<lparr>pc_changeset = c, pc_publication = pp\<rparr> s1"
    using assms(1) by (simp add: publish_changeset_def thenP_liftP)
  moreover have "or_else (pr_generation_id res) (current_pointer (pub_cp s')) = current_pointer (pub_cp s')"
    using activated_pointer [OF p(2)] by (auto simp: or_else_def)
  ultimately show ?thesis using b p(2)
    by (auto simp: activate_changeset_def changeset_result_def Let_def split: option.splits)
qed

lemma updated_aids: "aid_of ` updated old new [] = aid_of ` (set old \<union> set new)"
proof
  have "updated old new [] \<subseteq> set old \<union> set new" using surviving_members [of _ old new "[]"] unfolding surviving_updated by blast
  then show "aid_of ` updated old new [] \<subseteq> aid_of ` (set old \<union> set new)" by blast
  show "aid_of ` (set old \<union> set new) \<subseteq> aid_of ` updated old new []"
  proof
    fix a assume "a \<in> aid_of ` (set old \<union> set new)"
    then have "find (\<lambda>k. aid_of k = a) (rev (old @ new)) \<noteq> None" by (auto simp: find_None_iff)
    then obtain c where c: "find (\<lambda>k. aid_of k = a) (rev (old @ new)) = Some c" by blast
    then have "aid_of c = a" by (auto simp: find_Some_iff)
    with c show "a \<in> aid_of ` updated old new []" by (auto simp: updated_def)
  qed
qed

lemma changeset_total:
  assumes "builder_ok B V" "git_total (gb_git B) V" "sha_sized (gb_lib B)"
    and "cp_inv (pub_cp s)" "anchored V s" "head_present V s"
    and "parent_claims B s (current_pointer (pub_cp s)) = Inr old"
    and "\<forall>k\<in>set old. good_claim (gb_lib B) k" "\<forall>x\<in>set xs. good_claim (gb_lib B) (rc_compiled_claim x)"
    and "current_changeset_matches B s c = Inr None" "current_pointer (pub_cp s) = ac_parent_generation_id c"
    and "resolve_changeset (gb_lib B) R c = Inr xs"
    and "\<not> aid_of ` rc_compiled_claim ` set xs \<subseteq> aid_of ` set old"
    and "canonical_hash (gb_lib B) (pdict [(''changeset_id'', PStr (ac_changeset_id c)), (''changes_root'', PStr (ac_changes_root c))]) = Inr src"
    and "fresh_generation B V s (surviving_claims old (map rc_compiled_claim xs) []) src (Some (pdict (changeset_binding c)))"
  shows "\<exists>r s' gid. publish_changeset B id R c s = (Inr r, s') \<and> rs_status r = ''ok'' \<and> map_of (rs_result r) ''noop'' = Some (JBool False) \<and>
     rs_generation_id r = Some gid \<and> current_pointer (pub_cp s') = Some gid \<and> current_search_pointer (pub_cp s') = Some gid"
proof -
  note L = builder_okD(4) [OF assms(1)]
  let ?new = "map rc_compiled_claim xs"
  have good: "\<forall>k\<in>set old \<union> set ?new. good_claim (gb_lib B) k" using assms(8,9) by auto
  have "set (map aid_of (surviving_claims old ?new [])) \<noteq> set (map aid_of old)"
    using assms(13) by (simp add: surviving_updated updated_aids) blast
  from publish_total [OF assms(1-7) good _ this assms(15), where expected = "ExpectParent (ac_parent_generation_id c)" and n = 1]
  obtain res s' gid where a: "publish_attempt B (\<lambda>_. id) ?new src [] (ExpectParent (ac_parent_generation_id c))
        (Some (pdict (changeset_binding c))) 1 s = (Inr res, s')" "\<not> pr_noop res" "current_pointer (pub_cp s') = Some gid"
      "current_search_pointer (pub_cp s') = Some gid"
    using binding_admissible [OF L] assms(11) by auto
  from publish_changeset_attempt [OF assms(10-12,14) a(1)] a(2-4) show ?thesis by auto
qed

text \<open>
  C4: an accepted change set gets published. On a repository that works and holds the commit of the current
  generation, when the change set was accepted for the current generation, resolves to well-formed claims, at least one
  with a new assertion, and no row or reference exists yet of the very generation that these claims and the hash of the
  change set give, an undisturbed publication answers \<open>ok\<close>, and the generation it names is current and searched.
\<close>

theorem accepted_changeset_publishes:
  assumes "builder_ok B V" "git_total (gb_git B) V" "sha_sized (gb_lib B)"
    and "cp_inv (pub_cp s)" "anchored V s" "head_present V s"
    and "parent_claims B s (current_pointer (pub_cp s)) = Inr old"
    and "\<forall>k\<in>set old. good_claim (gb_lib B) k" "\<forall>x\<in>set xs. good_claim (gb_lib B) (rc_compiled_claim x)"
    and "current_changeset_matches B s c = Inr None" "current_pointer (pub_cp s) = ac_parent_generation_id c"
    and "resolve_changeset (gb_lib B) R c = Inr xs"
    and "\<not> aid_of ` rc_compiled_claim ` set xs \<subseteq> aid_of ` set old"
    and "canonical_hash (gb_lib B) (pdict [(''changeset_id'', PStr (ac_changeset_id c)), (''changes_root'', PStr (ac_changes_root c))]) = Inr src"
    and "fresh_generation B V s (surviving_claims old (map rc_compiled_claim xs) []) src (Some (pdict (changeset_binding c)))"
  shows "\<exists>r s' gid. publish_changeset B id R c s = (Inr r, s') \<and> rs_status r = ''ok'' \<and> map_of (rs_result r) ''noop'' = Some (JBool False) \<and>
     rs_generation_id r = Some gid \<and> current_pointer (pub_cp s') = Some gid \<and> current_search_pointer (pub_cp s') = Some gid"
  by (rule changeset_total [OF assms])

lemma prepared_release:
  "prepare B new src revs expected binding n s = (Inr pp, s') \<Longrightarrow> pp_candidate pp = Some cand \<Longrightarrow>
     \<exists>rel. pp_release_commit_oid pp = Some rel \<and> \<not> pp_noop pp"
  by (erule prepareD) (auto elim!: prepare_generationD)

lemma prepared_parent:
  "prepare B new src revs expected binding n s = (Inr pp, s') \<Longrightarrow> pp_parent_generation_id pp = current_pointer (pub_cp s)"
  by (erule prepareD) (auto elim!: prepare_generationD)

text \<open>
  a lost race writes nothing. When another publisher moved the current generation between preparation and
  activation, to something other than this very candidate, an answer leaves everything as that publisher left it and names its
  generation; unless there was nothing to publish, the answer is to retry.
\<close>

theorem lost_race_writes_nothing:
  assumes "current_changeset_matches B s c = Inr None" "prepare_changeset B R c s = (Inr p, s1)"
    and "publish_changeset B env R c s = (Inr r, s')"
    and "current_pointer (pub_cp (env s1)) \<noteq> ac_parent_generation_id c"
    and "\<forall>cand. pp_candidate (pc_publication p) = Some cand \<longrightarrow> current_pointer (pub_cp (env s1)) \<noteq> Some (cand_generation_id cand)"
  shows "s' = env s1 \<and> rs_generation_id r = current_pointer (pub_cp (env s1)) \<and>
     (pp_candidate (pc_publication p) \<noteq> None \<longrightarrow> rs_status r \<noteq> ''ok'')"
proof -
  obtain xs src where p: "current_pointer (pub_cp s) = ac_parent_generation_id c" "resolve_changeset (gb_lib B) R c = Inr xs"
    "prepare B (map rc_compiled_claim xs) src [] (ExpectParent (ac_parent_generation_id c)) (Some (pdict (changeset_binding c))) 1 s =
      (Inr (pc_publication p), s1)"
    by (rule prepare_changesetD [OF assms(2)])
  have parent: "pp_parent_generation_id (pc_publication p) = ac_parent_generation_id c" using prepared_parent [OF p(3)] p(1) by simp
  have "activate_changeset p (env s1) = (Inr r, s')" using assms(1-3) by (simp add: publish_changeset_def thenP_liftP)
  then show ?thesis
  proof (cases rule: activate_changesetD)
    case (published res)
    have "pp_candidate (pc_publication p) = None"
    proof (rule ccontr)
      assume "pp_candidate (pc_publication p) \<noteq> None"
      then obtain cand where c: "pp_candidate (pc_publication p) = Some cand" by blast
      obtain rel where rel: "pp_release_commit_oid (pc_publication p) = Some rel" "\<not> pp_noop (pc_publication p)"
        using prepared_release [OF p(3) c] by blast
      from published(1) c rel assms(5) obtain cp where
        "activate (pub_cp (env s1)) (cand_generation_id cand) (ac_parent_generation_id c) rel = Inr cp"
        by (auto simp: activate_prepared_def Let_def thenP_Inr_iff on_cp_res_Inr parent)
      then show False using assms(4) by (simp add: activate_Inr_iff activation_ready_def current_pointer_def)
    qed
    with activate_prepared_frame(1) [OF published(1)] published(3) show ?thesis by simp
  qed auto
qed

text \<open>
  A change set that brings only new content for assertions the parent already has is answered with \<open>ok\<close>, and
  nothing of it is published: the publisher compares the ids of assertions, not the claims.
\<close>

theorem revised_assertions_not_published:
  assumes "nfc_ascii (gb_lib B)" "parent_claims B s (current_pointer (pub_cp s)) = Inr old"
    and "current_changeset_matches B s c = Inr None" "current_pointer (pub_cp s) = ac_parent_generation_id c"
    and "resolve_changeset (gb_lib B) R c = Inr xs" "aid_of ` rc_compiled_claim ` set xs \<subseteq> aid_of ` set old"
  shows "\<exists>r s'. publish_changeset B id R c s = (Inr r, s') \<and> rs_status r = ''ok'' \<and>
     parent_claims B s' (current_pointer (pub_cp s')) = Inr old"
proof -
  let ?new = "map rc_compiled_claim xs"
  obtain src where src: "canonical_hash (gb_lib B) (pdict [(''changeset_id'', PStr (ac_changeset_id c)), (''changes_root'', PStr (ac_changes_root c))]) = Inr src"
    using source_hash_total [OF assms(1)] by blast
  have same: "set (map aid_of (surviving_claims old ?new [])) = set (map aid_of old)"
    using assms(6) by (simp add: surviving_updated updated_aids) blast
  let ?s = "s\<lparr>pub_cp := fold (\<lambda>c cp. upsert_claim_and_assertion cp c) ?new (pub_cp s)\<rparr>"
  have up: "rows (pub_cp ?s) = rows (pub_cp s)" "current_pointer (pub_cp ?s) = current_pointer (pub_cp s)"
    by (simp_all add: rows_def upsert_fold_simps current_pointer_def)
  have pc: "parent_claims B ?s (current_pointer (pub_cp s)) = Inr old" using assms(2) parent_claims_cong [of ?s s, OF _ up(1)] by simp
  obtain res where "publish_attempt B (\<lambda>_. id) ?new src [] (ExpectParent (ac_parent_generation_id c)) (Some (pdict (changeset_binding c))) 1 s = (Inr res, ?s)"
    using same pc assms(4)
    by (simp add: publish_attempt_def prepare_def Let_def thenP_def liftP_def on_cp_def activate_prepared_def)
  from publish_changeset_attempt [OF assms(3-5) src this] pc up(2) show ?thesis by auto
qed

subsection \<open>A concrete change set\<close>

text \<open>Claims can be hashed and change sets built whenever dictionary keys stay distinct under normalisation.\<close>

lemma contract_hash_total: "admissible L False v \<Longrightarrow> \<exists>h. contract_hash L v = Inr h"
  by (simp add: contract_hash_def contract_canonical_bytes_def contract.norm_eq)

lemma add_change_object_total:
  "admissible L True (compiled_claim_value c) \<Longrightarrow> \<exists>x store'. add_change_object L store ws c = Inr (x, store')"
  using canonical_total(2) [of L "compiled_claim_value c"]
  by (auto simp: add_change_object_def claim_object_ref_def compiled_claim_hash_def Let_def)

lemma build_changeset_total:
  assumes "nfc_ascii L" "ws \<noteq> []" "cmds \<noteq> []" "objs \<noteq> []" "distinct cmds" "distinct (map rc_object_ref objs)"
  shows "\<exists>c. build_changeset L ws parent cmds objs = Inr c"
proof -
  have "admissible L False (popt parent)" by (cases parent) (simp_all add: popt_def)
  then have h: "\<exists>h. compute_changes_root L ws parent (sort cmds) objs = Inr h"
    "\<exists>h. contract_hash L (changeset_identity v ws parent cs refs root) = Inr h" for v cs refs root
    unfolding compute_changes_root_def changeset_identity_def using assms(1)
    by (intro contract_hash_total; simp add: admissible_pdict list_all_iff nfc_asciiD)+
  obtain root where root: "compute_changes_root L ws parent (sort cmds) objs = Inr root" using h(1) ..
  obtain cid where cid: "contract_hash L (changeset_identity CONTRACT_VERSION ws parent (sort cmds) (sort (map rc_object_ref objs)) root) = Inr cid"
    using h(2) by blast
  have "set (sort cmds) \<noteq> {}" "set (sort (map rc_object_ref objs)) \<noteq> {}" using assms(3,4) by simp_all
  then have "sort cmds \<noteq> []" "sort (map rc_object_ref objs) \<noteq> []" by (metis set_empty)+
  with root cid assms(2,5,6) show ?thesis by (simp add: build_changeset_def Let_def)
qed

lemma demo_changesetE:
  obtains xs store c where "add_change_objects demo_lib [] ''w'' [demo_claim] = Inr (xs, store)"
    "build_changeset demo_lib ''w'' None [''k''] xs = Inr c"
    "resolve_changeset demo_lib (resolve_change_object store) c = Inr xs" "map rc_compiled_claim xs = [demo_claim]"
    "ac_parent_generation_id c = None"
    "\<forall>ws ref x. resolve_change_object store ws ref = Inr (Some x) \<longrightarrow> good_claim demo_lib (rc_compiled_claim x)"
proof -
  have L: "nfc_ascii demo_lib" using builder_okD(4) [OF demo_builder_ok] by (simp add: demo_builder_def)
  have "admissible demo_lib True (compiled_claim_value demo_claim)"
    using nfc_asciiD [OF L]
    by (simp add: compiled_claim_value_def demo_claim_def demo_identity_def admissible_pdict pstr_dict_def admissible_PDict Let_def)
  then obtain x store where x: "add_change_object demo_lib [] ''w'' demo_claim = Inr (x, store)" using add_change_object_total by blast
  then have a: "add_change_objects demo_lib [] ''w'' [demo_claim] = Inr ([x], store)" by simp
  obtain c where b: "build_changeset demo_lib ''w'' None [''k''] [x] = Inr c" using build_changeset_total [OF L, of "''w''" "[''k'']" "[x]" None] by auto
  note X = add_change_objectD [OF x]
  have r: "resolve_changeset demo_lib (resolve_change_object store) c = Inr [x]" using built_resolves [OF a b] by simp
  have p: "ac_parent_generation_id c = None" using b by (auto simp: build_changeset_def Let_def bindR_Inr_iff split: if_splits)
  have g: "\<forall>ws ref x. resolve_change_object store ws ref = Inr (Some x) \<longrightarrow> good_claim demo_lib (rc_compiled_claim x)"
    using X(2,3) demo_claim_good by (auto simp: resolve_change_object_def split: if_splits)
  from that [OF a b r _ p g] X(2) show thesis by simp
qed

theorem built_changeset_resolves_witness:
  "\<exists>xs store c. add_change_objects demo_lib [] ''w'' [demo_claim] = Inr (xs, store) \<and>
     build_changeset demo_lib ''w'' None [''k''] xs = Inr c \<and>
     resolve_changeset demo_lib (resolve_change_object store) c = Inr (sort_key rc_object_ref xs)"
  by (rule demo_changesetE) (use built_changeset_resolves in blast)

lemma demo_start:
  "current_changeset_matches demo_builder demo_publisher c = Inr None" "current_pointer (pub_cp demo_publisher) = None"
  "gb_lib demo_builder = demo_lib"
  by (simp_all add: current_changeset_matches_def demo_publisher_def current_pointer_def cp_init_def demo_builder_def)

lemma demo_claims_facts:
  assumes "map rc_compiled_claim xs = [demo_claim]"
  shows "\<forall>x\<in>set xs. good_claim (gb_lib demo_builder) (rc_compiled_claim x)" "\<forall>k\<in>set []. good_claim (gb_lib demo_builder) k"
    "\<not> aid_of ` rc_compiled_claim ` set xs \<subseteq> aid_of ` set []"
proof -
  obtain x where "xs = [x]" "rc_compiled_claim x = demo_claim" using assms by auto
  then show "\<forall>x\<in>set xs. good_claim (gb_lib demo_builder) (rc_compiled_claim x)" "\<not> aid_of ` rc_compiled_claim ` set xs \<subseteq> aid_of ` set []"
    "\<forall>k\<in>set []. good_claim (gb_lib demo_builder) k"
    using demo_claim_good demo_start(3) by auto
qed

theorem accepted_changeset_publishes_witness:
  "\<exists>R c r s' gid. publish_changeset demo_builder id R c demo_publisher = (Inr r, s') \<and> rs_status r = ''ok'' \<and> current_pointer (pub_cp s') = Some gid"
proof -
  obtain xs store c where d: "resolve_changeset demo_lib (resolve_change_object store) c = Inr xs" "map rc_compiled_claim xs = [demo_claim]"
    "ac_parent_generation_id c = None" by (rule demo_changesetE)
  note C = demo_claims_facts [OF d(2)]
  have "current_pointer (pub_cp demo_publisher) = ac_parent_generation_id c" using d(3) demo_start(2) by simp
  moreover obtain src where "canonical_hash (gb_lib demo_builder) (pdict [(''changeset_id'', PStr (ac_changeset_id c)),
      (''changes_root'', PStr (ac_changes_root c))]) = Inr src"
    using source_hash_total [OF builder_okD(4) [OF demo_builder_ok]] by blast
  ultimately show ?thesis
    using accepted_changeset_publishes [OF demo_builder_ok demo_builder_works demo_publisher_facts(1-4) C(2,1) demo_start(1) _
      d(1) [folded demo_start(3)] C(3) _ demo_publisher_facts(5)] by blast
qed

lemma demo_changeset_publishes:
  obtains R c xs r s' where "publish_changeset demo_builder id R c demo_publisher = (Inr r, s')" "rs_status r = ''ok''"
    "map_of (rs_result r) ''noop'' = Some (JBool False)" "resolve_changeset (gb_lib demo_builder) R c = Inr xs"
    "map rc_compiled_claim xs = [demo_claim]"
    "\<forall>ws ref x. R ws ref = Inr (Some x) \<longrightarrow> good_claim (gb_lib demo_builder) (rc_compiled_claim x)"
proof -
  obtain xs store c where d: "resolve_changeset demo_lib (resolve_change_object store) c = Inr xs" "map rc_compiled_claim xs = [demo_claim]"
    "ac_parent_generation_id c = None"
    "\<forall>ws ref x. resolve_change_object store ws ref = Inr (Some x) \<longrightarrow> good_claim demo_lib (rc_compiled_claim x)" by (rule demo_changesetE)
  note C = demo_claims_facts [OF d(2)] and D = d(1,4) [folded demo_start(3)]
  have "current_pointer (pub_cp demo_publisher) = ac_parent_generation_id c" using d(3) demo_start(2) by simp
  moreover obtain src where "canonical_hash (gb_lib demo_builder) (pdict [(''changeset_id'', PStr (ac_changeset_id c)),
      (''changes_root'', PStr (ac_changes_root c))]) = Inr src"
    using source_hash_total [OF builder_okD(4) [OF demo_builder_ok]] by blast
  ultimately obtain r s' where "publish_changeset demo_builder id (resolve_change_object store) c demo_publisher = (Inr r, s')" "rs_status r = ''ok''"
    "map_of (rs_result r) ''noop'' = Some (JBool False)"
    using changeset_total [OF demo_builder_ok demo_builder_works demo_publisher_facts(1-4) C(2,1) demo_start(1) _ D(1) C(3) _ demo_publisher_facts(5)] by blast
  from that [OF this D(1) d(2) D(2)] show thesis .
qed

theorem changeset_published_as_accepted_witness:
  "\<exists>R c r s' know. publish_changeset demo_builder id R c demo_publisher = (Inr r, s') \<and>
     parent_claims demo_builder s' (rs_generation_id r) = Inr know \<and> set know = {sort_claim demo_claim}"
proof -
  obtain R c xs r s' where p: "publish_changeset demo_builder id R c demo_publisher = (Inr r, s')" "rs_status r = ''ok''"
    "map_of (rs_result r) ''noop'' = Some (JBool False)" "resolve_changeset (gb_lib demo_builder) R c = Inr xs"
    "map rc_compiled_claim xs = [demo_claim]"
    "\<forall>ws ref x. R ws ref = Inr (Some x) \<longrightarrow> good_claim (gb_lib demo_builder) (rc_compiled_claim x)" by (rule demo_changeset_publishes)
  from changeset_published_as_accepted [OF demo_builder_ok demo_publisher_facts(2,4) demo_claims_facts(2) [OF p(5)] p(6,1)] p(2-5) demo_start(1)
  obtain know where k: "rs_generation_id r = current_pointer (pub_cp s')" "parent_claims demo_builder s' (current_pointer (pub_cp s')) = Inr know"
    "set know = sort_claim ` updated [] [demo_claim] []" by auto
  then have "parent_claims demo_builder s' (rs_generation_id r) = Inr know" "set know = {sort_claim demo_claim}"
    by (simp_all add: demo_updated)
  with p(1) show ?thesis by blast
qed

theorem changeset_replay_recognised_witness:
  "\<exists>R c r s' r2 s2. publish_changeset demo_builder id R c demo_publisher = (Inr r, s') \<and>
     publish_changeset demo_builder id R c s' = (Inr r2, s2) \<and> map_of (rs_result r2) ''replayed'' = Some (JBool True) \<and>
     rs_generation_id r2 = rs_generation_id r"
proof -
  obtain R c xs r s' where p: "publish_changeset demo_builder id R c demo_publisher = (Inr r, s')"
    "map_of (rs_result r) ''noop'' = Some (JBool False)" "resolve_changeset (gb_lib demo_builder) R c = Inr xs" "map rc_compiled_claim xs = [demo_claim]"
    "\<forall>ws ref x. R ws ref = Inr (Some x) \<longrightarrow> good_claim (gb_lib demo_builder) (rc_compiled_claim x)" by (rule demo_changeset_publishes)
  from changeset_replay_recognised [OF demo_builder_ok demo_publisher_facts(2,4) demo_claims_facts(2) [OF p(4)] p(5,1,2), of id R] p(1)
  show ?thesis by blast
qed

text \<open>Another publisher moves the pointer to \<open>x\<close>.\<close>

definition moved_to :: "string \<Rightarrow> 'g publisher \<Rightarrow> 'g publisher" where
  "moved_to x s = s\<lparr>pub_cp := (pub_cp s)\<lparr>current_generation_id := Some x\<rparr>\<rparr>"

lemma moved_to_simps: "current_pointer (pub_cp (moved_to x s)) = Some x" "required_from_manifest (pub_cp (moved_to x s)) g = required_from_manifest (pub_cp s) g"
  by (simp_all add: moved_to_def current_pointer_def required_from_manifest_def find_gen_def)

lemma demo_race:
  assumes "activate_prepared (pc_publication p) s1 = (Inr res, s')" "\<not> pr_noop res"
    and "pp_parent_generation_id (pc_publication p) = None" "current_pointer (pub_cp s1) = None"
    and "pp_candidate (pc_publication p) = Some cand" "bound_to (pc_changeset p) cand" "x \<noteq> cand_generation_id cand"
  shows "\<exists>r. activate_changeset p (moved_to x s1) = (Inr r, moved_to x s1)"
proof -
  obtain rel where rel: "pp_release_commit_oid (pc_publication p) = Some rel" "\<not> pp_noop (pc_publication p)"
    using assms(1,2,5) by (cases "pp_release_commit_oid (pc_publication p)") (auto simp: activate_prepared_def split: if_splits)
  with assms(1,3,4,5) obtain cp where "activate (pub_cp s1) (cand_generation_id cand) None rel = Inr cp"
    by (auto simp: activate_prepared_def Let_def thenP_Inr_iff on_cp_res_Inr)
  then obtain req where "required_from_manifest (pub_cp s1) (cand_generation_id cand) = Inr req" "req \<noteq> []"
    by (auto simp: activate_def bindR_Inr_iff split: if_splits)
  then have "activate (pub_cp (moved_to x s1)) (cand_generation_id cand) None rel = Inl CASConflict"
    by (simp add: activate_def moved_to_simps) (simp add: moved_to_def)
  then have "activate_prepared (pc_publication p) (moved_to x s1) = (Inl CASConflict, moved_to x s1)"
    using rel assms(3,5,7) by (simp add: activate_prepared_def Let_def thenP_def on_cp_res_def moved_to_simps)
  then show ?thesis using assms(5,6) by (simp add: activate_changeset_def Let_def)
qed

theorem lost_race_writes_nothing_witness:
  "\<exists>R c p s1 x r s'. prepare_changeset demo_builder R c demo_publisher = (Inr p, s1) \<and> pp_candidate (pc_publication p) \<noteq> None \<and>
     publish_changeset demo_builder (moved_to x) R c demo_publisher = (Inr r, s') \<and> s' = moved_to x s1 \<and> rs_status r \<noteq> ''ok''"
proof -
  obtain R c xs r s' where p: "publish_changeset demo_builder id R c demo_publisher = (Inr r, s')"
    "map_of (rs_result r) ''noop'' = Some (JBool False)" "resolve_changeset (gb_lib demo_builder) R c = Inr xs"
    "map rc_compiled_claim xs = [demo_claim]" by (rule demo_changeset_publishes)
  from p(1) obtain q s1 where q: "prepare_changeset demo_builder R c demo_publisher = (Inr q, s1)" "activate_changeset q s1 = (Inr r, s')"
    by (rule publish_changesetD) (use p(2) in \<open>auto simp: id_def\<close>)
  from q(2) obtain res where a: "activate_prepared (pc_publication q) s1 = (Inr res, s')" "\<not> pr_noop res"
    by (rule activate_changesetD) (use p(2) in auto)
  obtain cand where cand: "pp_candidate (pc_publication q) = Some cand"
    using activate_prepared_frame(1) [OF a(1)] a(2) by (cases "pp_candidate (pc_publication q)") auto
  obtain ys src where d: "current_pointer (pub_cp demo_publisher) = ac_parent_generation_id c" "resolve_changeset (gb_lib demo_builder) R c = Inr ys"
    "prepare demo_builder (map rc_compiled_claim ys) src [] (ExpectParent (ac_parent_generation_id c)) (Some (pdict (changeset_binding c))) 1 demo_publisher =
      (Inr (pc_publication q), s1)" "pc_changeset q = c" by (rule prepare_changesetD [OF q(1)])
  have parent: "ac_parent_generation_id c = None" "pp_parent_generation_id (pc_publication q) = None" "current_pointer (pub_cp s1) = None"
    using d(1) prepared_parent [OF d(3)] steadyD [OF steady_prepare_changeset q(1)] demo_start(2) by simp_all
  let ?x = "CHR ''x'' # cand_generation_id cand"
  obtain r2 where r2: "activate_changeset q (moved_to ?x s1) = (Inr r2, moved_to ?x s1)"
    using demo_race [OF a parent(2,3) cand, of ?x] prepared_bound_to [OF d(3) cand] d(4) by auto
  have pub: "publish_changeset demo_builder (moved_to ?x) R c demo_publisher = (Inr r2, moved_to ?x s1)"
    using demo_start(1) q(1) r2 by (simp add: publish_changeset_def thenP_liftP)
  have "rs_status r2 \<noteq> ''ok''"
    using lost_race_writes_nothing [OF demo_start(1) q(1) pub] cand parent(1) by (simp add: moved_to_simps)
  with q(1) cand pub show ?thesis by blast
qed

end
