(* ===== verification/PyText.thy ===== *)
theory PyText
  imports Prelude
begin

text \<open>
  Python's \<open>str\<close> as a sequence of code points. A string of the development is the UTF-8 encoding; \<open>codepoints\<close>
  cuts it where \<open>len\<close> and slicing count. On lists of code points: white space, \<open>strip\<close>, \<open>split\<close>, \<open>splitlines\<close>,
  \<open>find\<close>, \<open>count\<close>, \<open>int\<close>, and the regular expressions that \<open>verify.py\<close> uses.
\<close>

type_synonym codes = "string list"

definition cont :: "char \<Rightarrow> bool" where
  "cont c \<longleftrightarrow> cont_byte (of_char c)"

function codepoints :: "string \<Rightarrow> codes" where
  "codepoints [] = []"
| "codepoints (c # s) = (c # takeWhile cont s) # codepoints (dropWhile cont s)"
  by pat_completeness auto
termination
  by (relation "measure length") (auto simp: le_imp_less_Suc length_dropWhile_le)

lemma concat_codepoints [simp]: "concat (codepoints s) = s"
  by (induction s rule: codepoints.induct) auto

lemma codepoints_nonempty: "[] \<notin> set (codepoints s)"
  by (induction s rule: codepoints.induct) auto

lemma codepoints_ascii: "list_all (\<lambda>c. (of_char c :: nat) < 128) s \<Longrightarrow> codepoints s = map (\<lambda>c. [c]) s"
proof (induction s)
  case (Cons c s)
  then have "takeWhile cont s = [] \<and> dropWhile cont s = s" by (cases s) (auto simp: cont_def)
  with Cons show ?case by simp
qed simp

text \<open>The UTF-8 encoding of a code point, and the text of a list of code points.\<close>

definition utf8_of :: "nat \<Rightarrow> string" where
  "utf8_of n = map char_of
     (if n < 0x80 then [n]
      else if n < 0x800 then [0xC0 + n div 64, 0x80 + n mod 64]
      else if n < 0x10000 then [0xE0 + n div 4096, 0x80 + n div 64 mod 64, 0x80 + n mod 64]
      else [0xF0 + n div 262144, 0x80 + n div 4096 mod 64, 0x80 + n div 64 mod 64, 0x80 + n mod 64])"

text \<open>The code points that \<open>isspace\<close> and \<open>\s\<close> accept, and those at which \<open>splitlines\<close> cuts.\<close>

definition SPACES :: codes where
  "SPACES = map utf8_of ([9, 10, 11, 12, 13, 0x1C, 0x1D, 0x1E, 0x1F, 32, 0x85, 0xA0, 0x1680] @ [0x2000..<0x200B] @
     [0x2028, 0x2029, 0x202F, 0x205F, 0x3000])"

definition LINE_BREAKS :: codes where
  "LINE_BREAKS = map utf8_of [10, 11, 12, 13, 0x1C, 0x1D, 0x1E, 0x85, 0x2028, 0x2029]"

definition white :: "string \<Rightarrow> bool" where
  "white c \<longleftrightarrow> c \<in> set SPACES"

definition strip :: "codes \<Rightarrow> codes" where
  "strip t = rev (dropWhile white (rev (dropWhile white t)))"

text \<open>\<open>t.split(sep)\<close>, \<open>t.split(sep, 1)\<close> and \<open>t.splitlines(keepends=True)\<close>.\<close>

fun add_first :: "'a \<Rightarrow> 'a list list \<Rightarrow> 'a list list" where
  "add_first c [] = [[c]]"
| "add_first c (w # ws) = (c # w) # ws"

lemma add_first_eq: "ws \<noteq> [] \<Longrightarrow> add_first c ws = (c # hd ws) # tl ws"
  by (cases ws) simp_all

lemma add_first_nonempty [simp]: "add_first c ws \<noteq> []"
  by (cases ws) simp_all

fun pieces_at :: "'a \<Rightarrow> 'a list \<Rightarrow> 'a list list" where
  "pieces_at x [] = [[]]"
| "pieces_at x (c # cs) = (if c = x then [] # pieces_at x cs else add_first c (pieces_at x cs))"

definition before :: "'a \<Rightarrow> 'a list \<Rightarrow> 'a list" where
  "before x t = takeWhile (\<lambda>c. c \<noteq> x) t"

definition after :: "'a \<Rightarrow> 'a list \<Rightarrow> 'a list" where
  "after x t = tl (dropWhile (\<lambda>c. c \<noteq> x) t)"

fun splitlines :: "codes \<Rightarrow> codes list" where
  "splitlines [] = []"
| "splitlines [c] = [[c]]"
| "splitlines (c # d # t) =
     (if c = [CHR 0x0D] \<and> d = [CHR 0x0A] then [c, d] # splitlines t
      else if c \<in> set LINE_BREAKS then [c] # splitlines (d # t)
      else add_first c (splitlines (d # t)))"

text \<open>\<open>t.find(p)\<close> (\<open>None\<close> for \<open>-1\<close>), \<open>t.count(p)\<close> for non-empty \<open>p\<close>, and \<open>t[i:j]\<close> for \<open>0 \<le> i\<close>.\<close>

fun find_sub :: "'a list \<Rightarrow> 'a list \<Rightarrow> nat option" where
  "find_sub p [] = (if p = [] then Some 0 else None)"
| "find_sub p (c # t) = (if take (length p) (c # t) = p then Some 0 else map_option Suc (find_sub p t))"

function count_sub :: "'a list \<Rightarrow> 'a list \<Rightarrow> nat" where
  "count_sub p t =
     (if t = [] \<or> p = [] then 0
      else if take (length p) t = p then Suc (count_sub p (drop (length p) t))
      else count_sub p (tl t))"
  by pat_completeness auto
termination
  by (relation "measure (\<lambda>(p, t). length t)") auto

declare count_sub.simps [simp del]

definition slice :: "nat \<Rightarrow> nat \<Rightarrow> 'a list \<Rightarrow> 'a list" where
  "slice i j t = take (j - i) (drop i t)"

subsection \<open>Integers and regular expressions\<close>

text \<open>What Unicode says of the code points above ASCII: decimal digits and word characters.\<close>

record unicode =
  u_decimal :: "string \<Rightarrow> nat option"
  u_word :: "string \<Rightarrow> bool"

definition digit_of :: "unicode \<Rightarrow> string \<Rightarrow> nat option" where
  "digit_of U c =
     (case c of [b] \<Rightarrow> if is_digit b then Some (digit_val b) else None | _ \<Rightarrow> u_decimal U c)"

text \<open>Digits, a single underscore allowed between two of them: their number and value.\<close>

fun digits_from :: "unicode \<Rightarrow> nat \<Rightarrow> int \<Rightarrow> codes \<Rightarrow> (nat \<times> int) option" where
  "digits_from U n v [] = Some (n, v)"
| "digits_from U n v (c # t) =
     (case digit_of U c of
        Some d \<Rightarrow> digits_from U (Suc n) (10 * v + int d) t
      | None \<Rightarrow>
          if c = ''_'' \<and> n > 0 then
            (case t of [] \<Rightarrow> None | d # _ \<Rightarrow> if digit_of U d = None then None else digits_from U n v t)
          else None)"

text \<open>\<open>int(s)\<close>, which refuses more than 4300 digits.\<close>

definition py_int :: "unicode \<Rightarrow> string \<Rightarrow> int res" where
  "py_int U s =
     (let t = strip (codepoints s);
          (sign, body) = (case t of c # r \<Rightarrow> if c = ''-'' then (-1, r) else if c = ''+'' then (1, r) else (1, t) | [] \<Rightarrow> (1, t)) in
      case digits_from U 0 0 body of
        Some (n, v) \<Rightarrow> if 0 < n \<and> n \<le> 4300 then Inr (sign * v) else Inl ValueError
      | None \<Rightarrow> Inl ValueError)"

datatype piece = Lit codes | Spaces | Boundary | Optional codes | OneOf "codes list"

definition word_char :: "unicode \<Rightarrow> string \<Rightarrow> bool" where
  "word_char U c =
     (case c of
        [b] \<Rightarrow> let n = of_char b :: nat in 48 \<le> n \<and> n \<le> 57 \<or> 65 \<le> n \<and> n \<le> 90 \<or> 97 \<le> n \<and> n \<le> 122 \<or> n = 95
      | _ \<Rightarrow> u_word U c)"

definition word_at :: "unicode \<Rightarrow> string option \<Rightarrow> bool" where
  "word_at U x = (case x of None \<Rightarrow> False | Some c \<Rightarrow> word_char U c)"

definition last_of :: "string option \<Rightarrow> codes \<Rightarrow> string option" where
  "last_of b t = (if t = [] then b else Some (last t))"

definition first_of :: "codes \<Rightarrow> string option" where
  "first_of t = (case t of [] \<Rightarrow> None | c # _ \<Rightarrow> Some c)"

fun weight :: "piece \<Rightarrow> nat" where
  "weight (Optional l) = 2"
| "weight (OneOf ls) = 2"
| "weight _ = 1"

text \<open>A match of the pieces at this place, \<open>b\<close> the code point before it.\<close>

function match_here :: "unicode \<Rightarrow> piece list \<Rightarrow> string option \<Rightarrow> codes \<Rightarrow> bool" where
  "match_here U [] b t = True"
| "match_here U (Lit l # ps) b t =
     (take (length l) t = l \<and> match_here U ps (last_of b l) (drop (length l) t))"
| "match_here U (Spaces # ps) b t =
     (match_here U ps b t \<or> (case t of [] \<Rightarrow> False | c # r \<Rightarrow> white c \<and> match_here U (Spaces # ps) (Some c) r))"
| "match_here U (Boundary # ps) b t = (word_at U b \<noteq> word_at U (first_of t) \<and> match_here U ps b t)"
| "match_here U (Optional l # ps) b t = (match_here U (Lit l # ps) b t \<or> match_here U ps b t)"
| "match_here U (OneOf ls # ps) b t = list_ex (\<lambda>l. match_here U (Lit l # ps) b t) ls"
  by pat_completeness auto
termination
  by (relation "measures [\<lambda>(U, ps, b, t). sum_list (map weight ps), \<lambda>(U, ps, b, t). length t]") auto

text \<open>\<open>re.search\<close>: a match at some place.\<close>

fun search_from :: "unicode \<Rightarrow> piece list \<Rightarrow> string option \<Rightarrow> codes \<Rightarrow> bool" where
  "search_from U ps b [] = match_here U ps b []"
| "search_from U ps b (c # t) = (match_here U ps b (c # t) \<or> search_from U ps (Some c) t)"

definition re_search :: "unicode \<Rightarrow> piece list \<Rightarrow> string \<Rightarrow> bool" where
  "re_search U ps s = search_from U ps None (codepoints s)"

subsection \<open>Properties\<close>

text \<open>A part of a text: a contiguous piece.\<close>

definition part :: "'a list \<Rightarrow> 'a list \<Rightarrow> bool" where
  "part p t \<longleftrightarrow> (\<exists>a b. t = a @ p @ b)"

lemma part_refl [simp]: "part t t"
  unfolding part_def by (metis append_Nil append_Nil2)

lemma part_Nil [simp]: "part [] t"
  unfolding part_def by (metis append_Nil append_Nil2)

lemma part_trans: "part p q \<Longrightarrow> part q t \<Longrightarrow> part p t"
  unfolding part_def by (metis append.assoc)

lemma part_take: "part (take n t) t" and part_drop: "part (drop n t) t"
  unfolding part_def by (metis append_Nil append_take_drop_id, metis append_Nil2 append_take_drop_id)

lemma part_takeWhile: "part (takeWhile P t) t" and part_dropWhile: "part (dropWhile P t) t"
  unfolding part_def by (metis append_Nil takeWhile_dropWhile_id, metis append_Nil2 takeWhile_dropWhile_id)

lemma part_tl: "part (tl t) t"
  using part_drop [of 1 t] by (simp add: drop_Suc)

lemma part_rev: "part (rev p) t \<longleftrightarrow> part p (rev t)"
  unfolding part_def by (metis append.assoc rev_append rev_rev_ident)

lemma part_slice: "part (slice i j t) t"
  unfolding slice_def by (rule part_trans [OF part_take part_drop])

lemma part_strip: "part (strip t) t"
  unfolding strip_def part_rev by (rule part_trans [OF part_dropWhile]) (metis part_dropWhile part_rev rev_rev_ident)

lemma part_before: "part (before x t) t" and part_after: "part (after x t) t"
  unfolding before_def after_def by (rule part_takeWhile, rule part_trans [OF part_tl part_dropWhile])

lemma pieces_at_nonempty [simp]: "pieces_at x t \<noteq> []"
  by (cases t) auto

lemma hd_pieces_at: "\<exists>r. t = hd (pieces_at x t) @ r"
  by (induction t) (auto simp: add_first_eq)

lemma part_pieces_at: "p \<in> set (pieces_at x t) \<Longrightarrow> part p t"
proof (induction t arbitrary: p)
  case Nil
  then show ?case by simp
next
  case (Cons c t)
  have cons: "part q (c # t)" if "q \<in> set (pieces_at x t)" for q
    using Cons.IH [OF that] part_tl [of "c # t"] part_trans by (metis list.sel(3))
  show ?case
  proof (cases "p \<in> set (pieces_at x t)")
    case False
    with Cons.prems have "p = [] \<or> p = c # hd (pieces_at x t)"
      by (auto simp: add_first_eq split: if_splits dest: list.set_sel(2) [rotated])
    then show ?thesis
    proof
      assume "p = c # hd (pieces_at x t)"
      with hd_pieces_at [of t x] show ?thesis unfolding part_def by (metis append_Cons append_Nil)
    qed simp
  qed (rule cons)
qed

lemma length_pieces_at: "length (pieces_at x t) = Suc (count_list t x)"
  by (induction t) (auto simp: add_first_eq)

lemma splitlines_nonempty: "t \<noteq> [] \<Longrightarrow> splitlines t \<noteq> []"
  by (induction t rule: splitlines.induct) auto

lemma concat_splitlines: "concat (splitlines t) = t"
proof (induction t rule: splitlines.induct)
  case (3 c d t)
  have "splitlines (d # t) \<noteq> []" by (simp add: splitlines_nonempty)
  then have "hd (splitlines (d # t)) @ concat (tl (splitlines (d # t))) = concat (splitlines (d # t))"
    by (cases "splitlines (d # t)") simp_all
  with 3 show ?case by (auto simp: add_first_eq splitlines_nonempty)
qed simp_all

lemma find_sub_Some: "find_sub p t = Some i \<Longrightarrow> take (length p) (drop i t) = p \<and> i + length p \<le> length t"
proof (induction t arbitrary: i)
  case (Cons c t)
  show ?case
  proof (cases "take (length p) (c # t) = p")
    case True
    with Cons.prems have "i = 0" by simp
    moreover have "length p \<le> length (c # t)" using arg_cong [OF True, of length] by (simp add: min_def split: if_splits)
    ultimately show ?thesis using True by simp
  next
    case False
    then obtain j where "find_sub p t = Some j" "i = Suc j" using Cons.prems by auto
    with Cons.IH [of j] show ?thesis by simp
  qed
qed (auto split: if_splits)

lemma find_sub_exists: "part p t \<Longrightarrow> find_sub p t \<noteq> None"
proof (induction t)
  case (Cons c t)
  show ?case
  proof (cases "take (length p) (c # t) = p")
    case False
    obtain a b where t: "c # t = a @ p @ b" using Cons.prems unfolding part_def by blast
    with False have "a \<noteq> []" by (cases a) auto
    with t have "part p t" unfolding part_def by (metis append_eq_Cons_conv)
    with Cons.IH show ?thesis by auto
  qed simp
qed (auto simp: part_def)

lemma slice_append: "slice (length a + i) (length a + j) (a @ t) = slice i j t"
  by (simp add: slice_def)

lemma hd_dropWhile_stop: "t \<noteq> [] \<Longrightarrow> \<not> P (hd t) \<Longrightarrow> dropWhile P t = t"
  by (cases t) simp_all

lemma strip_id: "t \<noteq> [] \<Longrightarrow> \<not> white (hd t) \<Longrightarrow> \<not> white (last t) \<Longrightarrow> strip t = t"
  by (simp add: strip_def hd_dropWhile_stop hd_rev)

lemma utf8_of_single: "utf8_of n = [c] \<Longrightarrow> n < 0x80 \<and> (of_char c :: nat) = n"
  by (auto simp: utf8_of_def of_char_of take_bit_eq_mod split: if_splits)

lemma digit_not_space: "is_digit c \<Longrightarrow> \<not> white [c]"
proof
  assume c: "is_digit c" and "white [c]"
  then obtain n where n: "utf8_of n = [c]" and mem: "n \<in> set ([9, 10, 11, 12, 13, 0x1C, 0x1D, 0x1E, 0x1F, 32, 0x85, 0xA0, 0x1680] @ [0x2000..<0x200B] @
     [0x2028, 0x2029, 0x202F, 0x205F, 0x3000])"
    unfolding white_def SPACES_def set_map image_iff by force
  from mem have "n \<le> 32 \<or> n \<ge> 0x80" by auto
  with utf8_of_single [OF n] c show False by (auto simp: is_digit_def)
qed

lemma digit_not_sign: "is_digit c \<Longrightarrow> c \<noteq> CHR ''-'' \<and> c \<noteq> CHR ''+''"
  by (auto simp: is_digit_def)

lemma digits_from_digits:
  "list_all is_digit s \<Longrightarrow>
     digits_from U n v (map (\<lambda>c. [c]) s) = Some (n + length s, foldl (\<lambda>acc c. acc * 10 + int (digit_val c)) v s)"
  by (induction s arbitrary: n v) (simp_all add: digit_of_def algebra_simps)

lemma foldl_digits: "foldl (\<lambda>acc c. acc * 10 + int (digit_val c)) (int k) s = int (foldl (\<lambda>acc c. acc * 10 + digit_val c) k s)"
proof (induction s arbitrary: k)
  case (Cons c s)
  show ?case using Cons.IH [of "k * 10 + digit_val c"] by simp
qed simp

lemma length_str_nat: "n < 10 ^ k \<Longrightarrow> 0 < k \<Longrightarrow> length (str_nat n) \<le> k"
proof (induction k arbitrary: n)
  case (Suc k)
  show ?case
  proof (cases "n < 10")
    case True
    then show ?thesis by (subst str_nat.simps) simp
  next
    case False
    with Suc.prems have k: "0 < k" by (cases k) auto
    have "n div 10 < 10 ^ k" using Suc.prems(1) by (simp add: less_mult_imp_div_less mult.commute)
    with Suc.IH k False show ?thesis by (subst str_nat.simps) simp
  qed
qed simp

text \<open>The offsets that \<open>int(str(n))\<close> reads back.\<close>

definition int_limit :: nat where
  "int_limit = 10 ^ 4300"

lemma int_limit_ge: "n < 100 \<Longrightarrow> n < int_limit"
proof -
  assume "n < 100"
  also have "(100::nat) = 10 ^ 2" by simp
  also have "(10::nat) ^ 2 \<le> 10 ^ 4300" by (rule power_increasing) simp_all
  finally show ?thesis unfolding int_limit_def .
qed

lemma py_int_str_nat:
  assumes "n < int_limit"
  shows "py_int U (str_nat n) = Inr (int n)"
proof -
  let ?s = "str_nat n"
  have d: "list_all is_digit ?s" by (rule str_nat_digits)
  then have "list_all (\<lambda>c. (of_char c :: nat) < 128) ?s" by (auto simp: list_all_iff is_digit_def)
  then have cp: "codepoints ?s = map (\<lambda>c. [c]) ?s" by (rule codepoints_ascii)
  obtain c r where s: "?s = c # r" by (cases ?s) simp_all
  have c: "is_digit c" "is_digit (last ?s)" using d s by (simp, simp add: list_all_iff)
  have ends: "hd (map (\<lambda>c. [c]) ?s) = [c]" "last (map (\<lambda>c. [c]) ?s) = [last ?s]" using s by (simp_all add: last_map)
  have st: "strip (map (\<lambda>c. [c]) ?s) = map (\<lambda>c. [c]) ?s"
    by (rule strip_id) (simp_all only: ends digit_not_space [OF c(1)] digit_not_space [OF c(2)] not_False_eq_True, simp)
  have fold: "foldl (\<lambda>acc c. acc * 10 + int (digit_val c)) 0 ?s = int n"
    using foldl_digits [of 0 ?s] int_str_nat [of n] by (simp add: int_str_def)
  have "length ?s \<le> 4300" by (rule length_str_nat [OF assms [unfolded int_limit_def]]) simp
  then have "digits_from U 0 0 (map (\<lambda>c. [c]) ?s) = Some (length ?s, int n)" "0 < length ?s \<and> length ?s \<le> 4300"
    by (simp_all add: digits_from_digits [OF d] fold)
  moreover have "(case map (\<lambda>c. [c]) ?s of c # r \<Rightarrow> if c = ''-'' then (- 1, r) else if c = ''+'' then (1, r) else (1, map (\<lambda>c. [c]) ?s)
      | [] \<Rightarrow> (1, map (\<lambda>c. [c]) ?s)) = (1 :: int, map (\<lambda>c. [c]) ?s)"
    using s digit_not_sign [OF c(1)] by simp
  ultimately show ?thesis unfolding py_int_def cp st Let_def by simp
qed

lemma code_of_utf8: "n < 0x80 \<Longrightarrow> utf8_of n = [char_of n]"
  by (simp add: utf8_of_def)

lemma single_mem: "[c] \<in> utf8_of ` A \<longleftrightarrow> (of_char c :: nat) < 0x80 \<and> of_char c \<in> A"
proof
  assume "[c] \<in> utf8_of ` A"
  then obtain n where n: "utf8_of n = [c]" "n \<in> A" by auto
  from utf8_of_single [OF n(1)] n(2) show "(of_char c :: nat) < 0x80 \<and> of_char c \<in> A" by auto
next
  assume a: "(of_char c :: nat) < 0x80 \<and> of_char c \<in> A"
  then have "utf8_of (of_char c) = [c]" using code_of_utf8 [of "of_char c"] by simp
  with a show "[c] \<in> utf8_of ` A" by (metis imageI)
qed

lemma white_single: "white [c] \<longleftrightarrow> (of_char c :: nat) \<in> {9, 10, 11, 12, 13, 28, 29, 30, 31, 32}"
  unfolding white_def SPACES_def set_map single_mem by auto

lemma line_break_single: "[c] \<in> set LINE_BREAKS \<longleftrightarrow> (of_char c :: nat) \<in> {10, 11, 12, 13, 28, 29, 30}"
  unfolding LINE_BREAKS_def set_map single_mem by auto

end
