(* ===== verification/Extractors.thy ===== *)
theory Extractors
  imports PyText Ingest Generation
begin

text \<open>
  \<open>claims.py\<close>, \<open>verify.py\<close> and \<open>extraction.py\<close>: the deterministic extractor, the checks that tie a claim to its
  source (Layer D, preservation of hedges, entailment), and the extractor that takes the proposals of a language model.
  The model's client, an entailment checker, Unicode's character tables and \<open>str\<close> and \<open>int\<close> of values other than strings
  are parameters.

  The results: whatever a source or a model says, every extracted claim is grounded, that is, its
  locator points to the text whose hash it carries; the claims are well-formed, so that the rest of the
  pipeline accepts them; a model cannot raise the certainty of a hedged span, and never revokes.
\<close>

subsection \<open>Spans\<close>

definition span_evidence :: "lib \<Rightarrow> string \<Rightarrow> string \<Rightarrow> codes \<Rightarrow> nat \<Rightarrow> nat \<Rightarrow> evidence" where
  "span_evidence L sid rep t i j =
     \<lparr>evidence_id = sha256_hex L (sid @ '':'' @ str_nat i @ '':'' @ str_nat j), source_object_hash = sid,
      representation_hash = rep, quote_hash = sha256_hex L (concat (slice i j t)),
      locators = [[(''type'', ''text_span''), (''offset_unit'', ''unicode_codepoint''), (''start'', str_nat i), (''end'', str_nat j)]]\<rparr>"

definition span_claim ::
    "lib \<Rightarrow> string \<Rightarrow> evidence \<Rightarrow> claim_identity \<Rightarrow> string \<Rightarrow> compiled_claim res" where
  "span_claim L sid ev i m =
     bindR (canonical_hash L (pdict [(''claim_id'', PStr (claim_id i)), (''source_id'', PStr sid), (''evidence_id'', PStr (evidence_id ev))])) (\<lambda>aid.
     Inr \<lparr>identity = i,
          assertion = \<lparr>assertion_id = aid, a_claim_id = claim_id i, a_source_id = sid, evidence_ids = [evidence_id ev], modality = m\<rparr>,
          evidence = ev\<rparr>)"

subsection \<open>The deterministic extractor\<close>

definition MODALITY :: "string list" where
  "MODALITY = [''asserted'', ''likely'', ''possible'']"

definition parse_scope :: "codes \<Rightarrow> (string, string) dict" where
  "parse_scope raw =
     fold (\<lambda>part sc. let p = strip part in
            if p = [] then sc
            else if ''='' \<in> set p
            then dict_set (concat (strip (before ''='' p))) (concat (strip (after ''='' p))) sc
            else sc)
       (pieces_at '';'' raw) []"

datatype line_outcome = Ignored | Revocation string | Extracted compiled_claim

definition extract_line :: "lib \<Rightarrow> string \<Rightarrow> string \<Rightarrow> codes \<Rightarrow> nat \<Rightarrow> codes \<Rightarrow> line_outcome res" where
  "extract_line L sid rep t start line =
     (let stripped = strip line; bars = count_list stripped ''|'' in
      if stripped = [] \<or> hd stripped = ''#'' \<or> bars < 1 then Inr Ignored
      else if concat (strip (before ''|'' stripped)) = ''REVOKE'' then Inr (Revocation (concat (strip (after ''|'' stripped))))
      else if bars < 4 then Inr Ignored
      else
        let fields = map strip (pieces_at ''|'' stripped);
            subject = concat (fields ! 0); predicate = concat (fields ! 1); object_text = concat (fields ! 2);
            pol = concat (fields ! 3);
            m = (if length fields > 5 \<and> concat (strip (fields ! 5)) \<in> set MODALITY then concat (strip (fields ! 5)) else ''asserted'') in
        if pol \<notin> {''positive'', ''negative''} then Inr Ignored
        else
          let sc = parse_scope (fields ! 4) in
          case find_sub stripped line of
            None \<Rightarrow> Inl ValueError
          | Some i \<Rightarrow>
              let ev = span_evidence L sid rep t (start + i) (start + i + length stripped) in
              bindR (create_identity L subject predicate object_text pol sc) (\<lambda>ident.
              bindR (span_claim L sid ev ident m) (\<lambda>c. Inr (Extracted c))))"

fun extract_lines :: "lib \<Rightarrow> string \<Rightarrow> string \<Rightarrow> codes \<Rightarrow> nat \<Rightarrow> codes list \<Rightarrow> extract_result res" where
  "extract_lines L sid rep t offset [] = Inr \<lparr>claims = [], revokes = []\<rparr>"
| "extract_lines L sid rep t offset (line # lines) =
     bindR (extract_line L sid rep t offset line) (\<lambda>out.
     bindR (extract_lines L sid rep t (offset + length line) lines) (\<lambda>r.
     Inr (case out of
            Ignored \<Rightarrow> r
          | Revocation c \<Rightarrow> r\<lparr>revokes := c # revokes r\<rparr>
          | Extracted c \<Rightarrow> r\<lparr>claims := c # claims r\<rparr>)))"

definition mock_extract :: "lib \<Rightarrow> extractor" where
  "mock_extract L source sid rep =
     (let t = codepoints source in extract_lines L sid rep t 0 (splitlines t))"

subsection \<open>Verification layers\<close>

definition locator_bounds :: "unicode \<Rightarrow> compiled_claim \<Rightarrow> (int \<times> int) res" where
  "locator_bounds U c =
     (case locators (evidence c) of
        [] \<Rightarrow> Inl IndexError
      | loc # _ \<Rightarrow>
          (case map_of loc ''start'' of
             None \<Rightarrow> Inl KeyError
           | Some a \<Rightarrow>
               bindR (py_int U a) (\<lambda>start.
               case map_of loc ''end'' of None \<Rightarrow> Inl KeyError | Some b \<Rightarrow> bindR (py_int U b) (\<lambda>finish. Inr (start, finish)))))"

definition layer_d_ok :: "lib \<Rightarrow> unicode \<Rightarrow> compiled_claim \<Rightarrow> string \<Rightarrow> bool res" where
  "layer_d_ok L U c source =
     bindR (locator_bounds U c) (\<lambda>(start, finish).
     let t = codepoints source in
     if \<not> (0 \<le> start \<and> start < finish \<and> finish \<le> int (length t)) then Inr False
     else Inr (sha256_hex L (concat (slice (nat start) (nat finish) t)) = quote_hash (evidence c)))"

definition MODALITY_RANK :: "(string, nat) dict" where
  "MODALITY_RANK = [(''possible'', 0), (''likely'', 1), (''asserted'', 2)]"

definition word_pattern :: "string \<Rightarrow> piece list" where
  "word_pattern w = [Boundary, Lit (codepoints w), Boundary]"

definition word_opt_pattern :: "string \<Rightarrow> string \<Rightarrow> piece list" where
  "word_opt_pattern w x = [Boundary, Lit (codepoints w), Optional (codepoints x), Boundary]"

definition LIKELY_PATTERNS :: "piece list list" where
  "LIKELY_PATTERNS =
     [word_pattern ''likely'', word_pattern ''probably'', word_opt_pattern ''appear'' ''s'', word_opt_pattern ''seem'' ''s'',
      word_opt_pattern ''suggest'' ''s'',
      [Lit (map utf8_of [0xAC00, 0xB2A5, 0xC131, 0xC774]), Spaces, OneOf [[utf8_of 0xB192], [utf8_of 0xD06C]]],
      [Lit (map utf8_of [0xAC83, 0xC73C, 0xB85C]), Spaces, Lit (map utf8_of [0xBCF4, 0xC778, 0xB2E4])]]"

definition POSSIBLE_PATTERNS :: "piece list list" where
  "POSSIBLE_PATTERNS =
     [word_pattern ''may'', word_pattern ''might'', word_pattern ''could'', word_pattern ''possibly'', word_pattern ''perhaps'',
      word_opt_pattern ''potential'' ''ly'',
      [Lit [utf8_of 0xC218], Spaces, Lit [utf8_of 0xC788]], [Lit [utf8_of 0xC77C], Spaces, Lit [utf8_of 0xC218]],
      [Lit (map utf8_of [0xAC00, 0xB2A5, 0xC131])], [Lit (map utf8_of [0xC544, 0xB9C8])], [Lit [utf8_of 0xC778], Spaces, Lit [utf8_of 0xB4EF]],
      [Lit (map utf8_of [0xB4EF, 0xD558, 0xB2E4])]]"

definition infer_source_modality :: "lib \<Rightarrow> unicode \<Rightarrow> string \<Rightarrow> string" where
  "infer_source_modality L U span =
     (let s = lower L span in
      if list_ex (\<lambda>p. re_search U p s) POSSIBLE_PATTERNS then ''possible''
      else if list_ex (\<lambda>p. re_search U p s) LIKELY_PATTERNS then ''likely''
      else ''asserted'')"

definition detect_hedge :: "lib \<Rightarrow> unicode \<Rightarrow> string \<Rightarrow> bool" where
  "detect_hedge L U span \<longleftrightarrow> infer_source_modality L U span \<noteq> ''asserted''"

definition modality_rank :: "string \<Rightarrow> nat" where
  "modality_rank m = (case map_of MODALITY_RANK m of None \<Rightarrow> 2 | Some r \<Rightarrow> r)"

text \<open>\<open>min\<close> keeps the first of two equal ranks.\<close>

definition preserve_modality :: "lib \<Rightarrow> unicode \<Rightarrow> string \<Rightarrow> string \<Rightarrow> string" where
  "preserve_modality L U span proposed =
     (let p = (if proposed \<in> set (dict_keys MODALITY_RANK) then proposed else ''asserted''); source = infer_source_modality L U span in
      if modality_rank p < modality_rank source then p else source)"

text \<open>\<open>t[a:b]\<close> with negative bounds counted from the end.\<close>

definition py_slice :: "int \<Rightarrow> int \<Rightarrow> 'a list \<Rightarrow> 'a list" where
  "py_slice a b t = (let n = int (length t); pos = (\<lambda>i. nat (if i < 0 then i + n else i)) in slice (pos a) (pos b) t)"

definition modality_preserved :: "lib \<Rightarrow> unicode \<Rightarrow> compiled_claim \<Rightarrow> string \<Rightarrow> bool res" where
  "modality_preserved L U c source =
     bindR (locator_bounds U c) (\<lambda>(start, finish).
     Inr (modality_rank (modality (assertion c)) \<le>
          modality_rank (infer_source_modality L U (concat (py_slice start finish (codepoints source))))))"

datatype layer_p_decision = ENTAILED | UNRESOLVED | CONTRADICTED

fun decision_value :: "layer_p_decision \<Rightarrow> string" where
  "decision_value ENTAILED = ''entailed''"
| "decision_value UNRESOLVED = ''unresolved''"
| "decision_value CONTRADICTED = ''contradicted''"

type_synonym entailment_checker = "compiled_claim \<Rightarrow> string \<Rightarrow> layer_p_decision res"

definition mock_check :: "lib \<Rightarrow> unicode \<Rightarrow> entailment_checker" where
  "mock_check L U c source = bindR (layer_d_ok L U c source) (\<lambda>ok. Inr (if ok then ENTAILED else UNRESOLVED))"

definition VERIFICATION_SYSTEM :: string where
  "VERIFICATION_SYSTEM =
     ''You are a strict entailment judge. Given SOURCE, a CLAIM, and the EVIDENCE span, '' @
     ''decide whether the evidence supports the claim. Return STRICT JSON only: '' @
     ''{\"decision\":\"entailed|unresolved|contradicted\"}. '' @
     ''Use 'entailed' ONLY if the evidence clearly supports the claim; 'contradicted' if it '' @
     ''opposes; 'unresolved' if the evidence is insufficient. Never guess.''"

type_synonym llm_client = "string \<Rightarrow> string \<Rightarrow> string \<Rightarrow> pyval res"

definition newline :: string where
  "newline = [CHR 0x0A]"

definition llm_check :: "llm_client \<Rightarrow> string \<Rightarrow> unicode \<Rightarrow> entailment_checker" where
  "llm_check client model U c source =
     bindR (locator_bounds U c) (\<lambda>(start, finish).
     let span = concat (py_slice start finish (codepoints source)); i = identity c;
         user = ''SOURCE:'' @ newline @ source @ newline @ newline @ ''CLAIM: '' @ subject_id i @ '' '' @ predicate_id i @ '' '' @ obj i @
           '' (polarity='' @ polarity i @ '')'' @ newline @ ''EVIDENCE: '' @ span in
     case client model VERIFICATION_SYSTEM user of
       Inr (PDict kvs) \<Rightarrow>
         Inr (if map_of kvs (PStr ''decision'') = Some (PStr ''entailed'') then ENTAILED
              else if map_of kvs (PStr ''decision'') = Some (PStr ''contradicted'') then CONTRADICTED
              else UNRESOLVED)
     | _ \<Rightarrow> Inr UNRESOLVED)"

subsection \<open>The model-backed extractor\<close>

definition EXTRACTION_SYSTEM :: string where
  "EXTRACTION_SYSTEM =
     ''You extract atomic factual claims from the SOURCE. Return STRICT JSON only:'' @ newline @
     ''{\"claims\":[{\"subject\",\"predicate\",\"object\",\"polarity\":\"positive|negative\",'' @
     ''\"modality\":\"asserted|likely|possible\",\"scope\":{},\"evidence_quote\",\"offset\":[start,end]}],'' @
     ''\"abstain\":false}'' @ newline @
     ''Rules: use ONLY facts present in the SOURCE; evidence_quote MUST be an exact substring '' @
     ''of the SOURCE; never raise the certainty of a hedged statement; if nothing is supported, '' @
     ''return {\"claims\":[],\"abstain\":true}.''"

text \<open>\<open>str\<close> and \<open>int\<close> of the values that a JSON document can hold: of strings as above, of others as the parameters say.\<close>

record conversions =
  cv_unicode :: unicode
  cv_str :: "pyval \<Rightarrow> string"
  cv_float_int :: "string \<Rightarrow> int res"

definition to_str :: "conversions \<Rightarrow> pyval \<Rightarrow> string" where
  "to_str V v = (case v of PStr s \<Rightarrow> s | _ \<Rightarrow> cv_str V v)"

fun to_int :: "conversions \<Rightarrow> pyval \<Rightarrow> int res" where
  "to_int V (PInt n) = Inr n"
| "to_int V (PBool b) = Inr (if b then 1 else 0)"
| "to_int V (PFloat f) = cv_float_int V f"
| "to_int V (PStr s) = py_int (cv_unicode V) s"
| "to_int V _ = Inl TypeError"

definition REQUIRED :: "string list" where
  "REQUIRED = [''subject'', ''predicate'', ''object'', ''polarity'', ''evidence_quote'', ''offset'']"

type_synonym proposal = "(pyval \<times> pyval) list"

definition member_of :: "proposal \<Rightarrow> string \<Rightarrow> pyval" where
  "member_of raw k = (case map_of raw (PStr k) of None \<Rightarrow> PNone | Some v \<Rightarrow> v)"

definition valid_proposal :: "proposal \<Rightarrow> bool" where
  "valid_proposal raw \<longleftrightarrow>
     (\<forall>k\<in>set REQUIRED. map_of raw (PStr k) \<noteq> None) \<and>
     member_of raw ''polarity'' \<in> {PStr ''positive'', PStr ''negative''} \<and>
     (case member_of raw ''offset'' of PList off \<Rightarrow> length off = 2 | _ \<Rightarrow> False)"

text \<open>\<open>bool(v)\<close>; a float is zero if its mantissa has no digit but zero.\<close>

fun py_true :: "pyval \<Rightarrow> bool" where
  "py_true PNone = False"
| "py_true (PBool b) = b"
| "py_true (PInt n) = (n \<noteq> 0)"
| "py_true (PFloat f) = list_ex (\<lambda>c. is_digit c \<and> c \<noteq> CHR ''0'') (takeWhile (\<lambda>c. c \<notin> set ''eE'') f)"
| "py_true (PStr s) = (s \<noteq> [])"
| "py_true (PList xs) = (xs \<noteq> [])"
| "py_true (PTuple xs) = (xs \<noteq> [])"
| "py_true (PDict kvs) = (kvs \<noteq> [])"
| "py_true (POther s) = True"

definition proposal_scope :: "conversions \<Rightarrow> proposal \<Rightarrow> (string, string) dict res" where
  "proposal_scope V raw =
     (let v = member_of raw ''scope'' in
      if \<not> py_true v then Inr []
      else case v of
        PDict kvs \<Rightarrow> Inr (fold (\<lambda>(k, x). dict_set (to_str V k) (to_str V x)) kvs [])
      | _ \<Rightarrow> Inl AttributeError)"

text \<open>Layer D: the span at the offset, else the only occurrence of the quote, else none.\<close>

definition proposal_span :: "codes \<Rightarrow> int \<Rightarrow> int \<Rightarrow> pyval \<Rightarrow> (nat \<times> nat) option" where
  "proposal_span t start finish quoted =
     (if 0 \<le> start \<and> start < finish \<and> finish \<le> int (length t) \<and> quoted = PStr (concat (slice (nat start) (nat finish) t))
      then Some (nat start, nat finish)
      else case quoted of
        PStr q \<Rightarrow>
          let p = codepoints q in
          if p \<noteq> [] \<and> count_sub p t = 1
          then (case find_sub p t of Some i \<Rightarrow> Some (i, i + length p) | None \<Rightarrow> None)
          else None
      | _ \<Rightarrow> None)"

definition proposal_modality :: "proposal \<Rightarrow> string" where
  "proposal_modality raw =
     (case map_of raw (PStr ''modality'') of
        Some (PStr m) \<Rightarrow> if m \<in> set MODALITY then m else ''asserted''
      | _ \<Rightarrow> ''asserted'')"

text \<open>One round of the loop: the claim of a proposal, if it has one.\<close>

definition compile_proposal ::
    "lib \<Rightarrow> conversions \<Rightarrow> string \<Rightarrow> string \<Rightarrow> codes \<Rightarrow> proposal \<Rightarrow> compiled_claim option res" where
  "compile_proposal L V sid rep t raw =
     (case member_of raw ''offset'' of
        PList off \<Rightarrow>
          bindR (to_int V (off ! 0)) (\<lambda>start.
          bindR (to_int V (off ! 1)) (\<lambda>finish.
          case proposal_span t start finish (member_of raw ''evidence_quote'') of
            None \<Rightarrow> Inr None
          | Some (i, j) \<Rightarrow>
              let m = preserve_modality L (cv_unicode V) (concat (slice i j t)) (proposal_modality raw) in
              bindR (proposal_scope V raw) (\<lambda>sc.
              bindR (create_identity L (to_str V (member_of raw ''subject'')) (to_str V (member_of raw ''predicate''))
                       (to_str V (member_of raw ''object'')) (to_str V (member_of raw ''polarity'')) sc) (\<lambda>ident.
              bindR (span_claim L sid (span_evidence L sid rep t i j) ident m) (\<lambda>c. Inr (Some c))))))
      | _ \<Rightarrow> Inr None)"

record llm_outcome =
  lo_claims :: "compiled_claim list"
  lo_structured_ok :: bool
  lo_decisions :: "string list"

fun extract_proposals ::
    "lib \<Rightarrow> conversions \<Rightarrow> entailment_checker option \<Rightarrow> string \<Rightarrow> string \<Rightarrow> codes \<Rightarrow> llm_outcome \<Rightarrow> pyval list \<Rightarrow> llm_outcome res" where
  "extract_proposals L V checker sid rep t out [] = Inr out"
| "extract_proposals L V checker sid rep t out (v # vs) =
     (case v of
        PDict raw \<Rightarrow>
          if \<not> valid_proposal raw then extract_proposals L V checker sid rep t (out\<lparr>lo_structured_ok := False\<rparr>) vs
          else
            bindR (compile_proposal L V sid rep t raw) (\<lambda>found.
            case found of
              None \<Rightarrow> extract_proposals L V checker sid rep t out vs
            | Some c \<Rightarrow>
                (case checker of
                   None \<Rightarrow> extract_proposals L V checker sid rep t (out\<lparr>lo_claims := lo_claims out @ [c]\<rparr>) vs
                 | Some check \<Rightarrow>
                     bindR (check c (concat t)) (\<lambda>d.
                     let out1 = out\<lparr>lo_decisions := lo_decisions out @ [decision_value d]\<rparr> in
                     extract_proposals L V checker sid rep t
                       (if d = ENTAILED then out1\<lparr>lo_claims := lo_claims out1 @ [c]\<rparr> else out1) vs)))
      | _ \<Rightarrow> extract_proposals L V checker sid rep t (out\<lparr>lo_structured_ok := False\<rparr>) vs)"

definition llm_run ::
    "lib \<Rightarrow> conversions \<Rightarrow> llm_client \<Rightarrow> string \<Rightarrow> entailment_checker option \<Rightarrow> string \<Rightarrow> string \<Rightarrow> string \<Rightarrow> llm_outcome res" where
  "llm_run L V client model checker source sid rep =
     (let norm = nfc L source; empty = \<lparr>lo_claims = [], lo_structured_ok = True, lo_decisions = []\<rparr> in
      bindR (client model EXTRACTION_SYSTEM (''SOURCE:'' @ newline @ norm)) (\<lambda>resp.
      case resp of
        PDict kvs \<Rightarrow>
          (case (case map_of kvs (PStr ''claims'') of None \<Rightarrow> PList [] | Some v \<Rightarrow> v) of
             PList vs \<Rightarrow> extract_proposals L V checker sid rep (codepoints norm) empty vs
           | _ \<Rightarrow> Inr (empty\<lparr>lo_structured_ok := False\<rparr>))
      | _ \<Rightarrow> Inr (empty\<lparr>lo_structured_ok := False\<rparr>)))"

definition llm_extract ::
    "lib \<Rightarrow> conversions \<Rightarrow> llm_client \<Rightarrow> string \<Rightarrow> entailment_checker option \<Rightarrow> extractor" where
  "llm_extract L V client model checker source sid rep =
     bindR (llm_run L V client model checker source sid rep) (\<lambda>out. Inr \<lparr>claims = lo_claims out, revokes = []\<rparr>)"

subsection \<open>Every claim has a span\<close>

text \<open>
  The claim was built from the span between two places of the text: its evidence is that of the span,
  its assertion names the claim, the source and the evidence.
\<close>

definition spans :: "lib \<Rightarrow> string \<Rightarrow> string \<Rightarrow> codes \<Rightarrow> nat \<Rightarrow> nat \<Rightarrow> compiled_claim \<Rightarrow> bool" where
  "spans L sid rep t i j c \<longleftrightarrow>
     i < j \<and> j \<le> length t \<and> evidence c = span_evidence L sid rep t i j \<and>
     (let d = identity c in create_identity L (subject_id d) (predicate_id d) (obj d) (polarity d) (scope d) = Inr d) \<and>
     span_claim L sid (evidence c) (identity c) (modality (assertion c)) = Inr c"

lemma create_identity_fields:
  assumes "create_identity L s p ob pol sc = Inr d"
  shows "subject_id d = s" "predicate_id d = p" "obj d = ob" "polarity d = pol" "scope d = sc"
    "create_identity L (subject_id d) (predicate_id d) (obj d) (polarity d) (scope d) = Inr d"
  using assms by (auto simp: create_identity_def bindR_Inr_iff)

lemma span_claim_fields:
  assumes "span_claim L sid ev d m = Inr c"
  shows "identity c = d" "evidence c = ev" "modality (assertion c) = m" "a_claim_id (assertion c) = claim_id d"
    "a_source_id (assertion c) = sid" "evidence_ids (assertion c) = [evidence_id ev]" "\<exists>b. assertion_id (assertion c) = hex b"
  using assms by (auto simp: span_claim_def bindR_Inr_iff dest: canonical_hash_hex)

lemma spansI:
  assumes "i < j" "j \<le> length t" "create_identity L s p ob pol sc = Inr d" "span_claim L sid (span_evidence L sid rep t i j) d m = Inr c"
  shows "spans L sid rep t i j c"
  using assms(1,2,4) create_identity_fields(6) [OF assms(3)] span_claim_fields(1-3) [OF assms(4)] by (simp add: spans_def)

lemma strip_nonempty_span:
  assumes "t = pre @ line @ rest" "find_sub p line = Some i" "p \<noteq> []"
  shows "length pre + i < length pre + i + length p" "length pre + i + length p \<le> length t"
    "slice (length pre + i) (length pre + i + length p) t = p"
  using assms find_sub_Some [OF assms(2)] by (auto simp: slice_def)

text \<open>A claim says what the fields of a line say, and quotes the line.\<close>

definition states_line :: "lib \<Rightarrow> codes \<Rightarrow> compiled_claim \<Rightarrow> bool" where
  "states_line L line c \<longleftrightarrow>
     (let fields = map strip (pieces_at ''|'' (strip line)); i = identity c in
      [subject_id i, predicate_id i, obj i, polarity i] = map (\<lambda>n. concat (fields ! n)) [0, 1, 2, 3] \<and> scope i = parse_scope (fields ! 4) \<and>
      quote_hash (evidence c) = sha256_hex L (concat (strip line)))"

lemma extract_line_spans:
  assumes "extract_line L sid rep t (length pre) line = Inr (Extracted c)" "t = pre @ line @ rest"
  shows "\<exists>i j. spans L sid rep t i j c \<and> states_line L line c"
proof -
  let ?p = "strip line"
  let ?f = "\<lambda>n. map strip (pieces_at ''|'' ?p) ! n"
  from assms(1) obtain i d m where i: "find_sub ?p line = Some i" and ne: "?p \<noteq> []"
      and d: "create_identity L (concat (?f 0)) (concat (?f 1)) (concat (?f 2)) (concat (?f 3)) (parse_scope (?f 4)) = Inr d"
      and c: "span_claim L sid (span_evidence L sid rep t (length pre + i) (length pre + i + length ?p)) d m = Inr c"
    unfolding extract_line_def Let_def by (auto simp: bindR_Inr_iff simp del: nth_map split: if_splits option.splits)
  note sp = strip_nonempty_span [OF assms(2) i ne]
  have "states_line L line c"
    using create_identity_fields(1-5) [OF d] span_claim_fields(1,2) [OF c] sp(3)
    by (simp add: states_line_def Let_def span_evidence_def del: nth_map)
  with spansI [OF sp(1,2) d c] show ?thesis by blast
qed

lemma extract_lines_spans:
  assumes "extract_lines L sid rep t (length pre) ls = Inr r" "t = pre @ concat ls" "c \<in> set (claims r)"
  shows "(\<exists>i j. spans L sid rep t i j c) \<and> (\<exists>line\<in>set ls. states_line L line c)"
  using assms
proof (induction ls arbitrary: pre r)
  case (Cons line ls)
  from Cons.prems(1) obtain out r0 where o: "extract_line L sid rep t (length pre) line = Inr out"
    and r0: "extract_lines L sid rep t (length (pre @ line)) ls = Inr r0"
    and r: "r = (case out of Ignored \<Rightarrow> r0 | Revocation c \<Rightarrow> r0\<lparr>revokes := c # revokes r0\<rparr> | Extracted c \<Rightarrow> r0\<lparr>claims := c # claims r0\<rparr>)"
    by (auto simp: bindR_Inr_iff)
  have t: "t = pre @ line @ concat ls" using Cons.prems(2) by simp
  show ?case
  proof (cases "c \<in> set (claims r0)")
    case True
    with Cons.IH [OF r0] t show ?thesis by simp
  next
    case False
    with Cons.prems(3) r have "out = Extracted c" by (cases out) auto
    with extract_line_spans [OF _ t] o show ?thesis by (metis list.set_intros(1))
  qed
qed simp

lemma mock_extract_spans:
  assumes "mock_extract L source sid rep = Inr r" "c \<in> set (claims r)"
  shows "(\<exists>i j. spans L sid rep (codepoints source) i j c) \<and> (\<exists>line\<in>set (splitlines (codepoints source)). states_line L line c)"
proof (rule extract_lines_spans [where pre = "[]" and ls = "splitlines (codepoints source)"])
  show "extract_lines L sid rep (codepoints source) (length []) (splitlines (codepoints source)) = Inr r"
    using assms(1) by (simp add: mock_extract_def Let_def)
qed (simp_all add: concat_splitlines assms(2))

lemma proposal_span_sound:
  assumes "proposal_span t start finish q = Some (i, j)"
  shows "i < j \<and> j \<le> length t" "q = PStr (concat (slice i j t))"
  using assms concat_codepoints
  by (auto simp: proposal_span_def Let_def nat_less_iff slice_def dest!: find_sub_Some split: if_splits pyval.splits option.splits)

text \<open>What the loop makes of a proposal it keeps.\<close>

definition states_proposal :: "conversions \<Rightarrow> proposal \<Rightarrow> compiled_claim \<Rightarrow> bool" where
  "states_proposal V raw c \<longleftrightarrow>
     (let i = identity c in
      [subject_id i, predicate_id i, obj i, polarity i] = map (to_str V \<circ> member_of raw) [''subject'', ''predicate'', ''object'', ''polarity''])"

lemma compile_proposal_spans:
  assumes "compile_proposal L V sid rep t raw = Inr (Some c)"
  shows "\<exists>i j. spans L sid rep t i j c \<and>
    modality (assertion c) = preserve_modality L (cv_unicode V) (concat (slice i j t)) (proposal_modality raw) \<and>
    member_of raw ''evidence_quote'' = PStr (concat (slice i j t)) \<and>
    states_proposal V raw c"
proof -
  let ?s = "\<lambda>k. to_str V (member_of raw k)"
  from assms obtain a b i j sc d where ij: "proposal_span t a b (member_of raw ''evidence_quote'') = Some (i, j)"
      and d: "create_identity L (?s ''subject'') (?s ''predicate'') (?s ''object'') (?s ''polarity'') sc = Inr d"
      and c: "span_claim L sid (span_evidence L sid rep t i j) d
        (preserve_modality L (cv_unicode V) (concat (slice i j t)) (proposal_modality raw)) = Inr c"
    unfolding compile_proposal_def Let_def by (auto simp: bindR_Inr_iff split: pyval.splits option.splits)
  note sp = proposal_span_sound [OF ij]
  have "states_proposal V raw c"
    using create_identity_fields(1-4) [OF d] span_claim_fields(1) [OF c] by (simp add: states_proposal_def)
  with sp spansI [OF _ _ d c] span_claim_fields(3) [OF c] show ?thesis by blast
qed

text \<open>A kept claim: from one of the proposals, and found entailed if there is a checker.\<close>

definition kept :: "lib \<Rightarrow> conversions \<Rightarrow> entailment_checker option \<Rightarrow> string \<Rightarrow> string \<Rightarrow> codes \<Rightarrow> pyval list \<Rightarrow> compiled_claim \<Rightarrow> bool" where
  "kept L V checker sid rep t vs c \<longleftrightarrow>
     (\<exists>raw. PDict raw \<in> set vs \<and> compile_proposal L V sid rep t raw = Inr (Some c)) \<and>
     (\<forall>check. checker = Some check \<longrightarrow> check c (concat t) = Inr ENTAILED)"

lemma extract_proposals_kept:
  assumes "extract_proposals L V checker sid rep t out vs = Inr out'" "c \<in> set (lo_claims out')"
  shows "c \<in> set (lo_claims out) \<or> kept L V checker sid rep t vs c"
  using assms
proof (induction vs arbitrary: out)
  case (Cons v vs)
  show ?case
  proof (cases "\<exists>raw. v = PDict raw \<and> valid_proposal raw")
    case False
    with Cons.prems have "extract_proposals L V checker sid rep t (out\<lparr>lo_structured_ok := False\<rparr>) vs = Inr out'"
      by (cases v) auto
    from Cons.IH [OF this Cons.prems(2)] show ?thesis by (auto simp: kept_def)
  next
    case True
    then obtain raw where v: "v = PDict raw" "valid_proposal raw" by blast
    with Cons.prems(1) obtain found where f: "compile_proposal L V sid rep t raw = Inr found" by (auto simp: bindR_Inr_iff)
    show ?thesis
    proof (cases "\<exists>k. found = Some k \<and> (\<forall>check. checker = Some check \<longrightarrow> check k (concat t) = Inr ENTAILED)")
      case False
      with Cons.prems(1) v f obtain ds where "extract_proposals L V checker sid rep t (out\<lparr>lo_decisions := ds\<rparr>) vs = Inr out'"
        by (auto simp: bindR_Inr_iff Let_def split: option.splits if_splits intro: that [of "lo_decisions out"])
      from Cons.IH [OF this Cons.prems(2)] show ?thesis by (auto simp: kept_def)
    next
      case True
      then obtain k where k: "found = Some k" "\<And>check. checker = Some check \<Longrightarrow> check k (concat t) = Inr ENTAILED" by blast
      with Cons.prems(1) v f obtain ds where
          "extract_proposals L V checker sid rep t (out\<lparr>lo_decisions := ds, lo_claims := lo_claims out @ [k]\<rparr>) vs = Inr out'"
        by (cases checker) (auto simp: bindR_Inr_iff Let_def intro: that [of "lo_decisions out"])
      from Cons.IH [OF this Cons.prems(2)] k f v(1) show ?thesis by (auto simp: kept_def)
    qed
  qed
qed simp

text \<open>The proposals of an answer.\<close>

definition proposed :: "lib \<Rightarrow> llm_client \<Rightarrow> string \<Rightarrow> string \<Rightarrow> pyval list \<Rightarrow> bool" where
  "proposed L client model source vs \<longleftrightarrow>
     (\<exists>kvs. client model EXTRACTION_SYSTEM (''SOURCE:'' @ newline @ nfc L source) = Inr (PDict kvs) \<and> map_of kvs (PStr ''claims'') = Some (PList vs))"

lemma llm_run_kept:
  assumes "llm_run L V client model checker source sid rep = Inr out" "c \<in> set (lo_claims out)"
  shows "\<exists>vs. proposed L client model source vs \<and> kept L V checker sid rep (codepoints (nfc L source)) vs c"
proof -
  let ?t = "codepoints (nfc L source)" and ?empty = "\<lparr>lo_claims = [], lo_structured_ok = True, lo_decisions = []\<rparr> :: llm_outcome"
  let ?vs = "\<lambda>kvs. case map_of kvs (PStr ''claims'') of None \<Rightarrow> PList [] | Some v \<Rightarrow> v"
  obtain resp where resp: "client model EXTRACTION_SYSTEM (''SOURCE:'' @ newline @ nfc L source) = Inr resp" and r: "(case resp of
        PDict kvs \<Rightarrow> (case ?vs kvs of PList vs \<Rightarrow> extract_proposals L V checker sid rep ?t ?empty vs | _ \<Rightarrow> Inr (?empty\<lparr>lo_structured_ok := False\<rparr>))
      | _ \<Rightarrow> Inr (?empty\<lparr>lo_structured_ok := False\<rparr>)) = Inr out"
    using assms(1) unfolding llm_run_def Let_def bindR_Inr_iff by blast
  have "\<exists>kvs vs. resp = PDict kvs \<and> ?vs kvs = PList vs"
  proof (rule ccontr)
    assume neg: "\<not> ?thesis"
    have "out = ?empty\<lparr>lo_structured_ok := False\<rparr>"
    proof (cases resp)
      case (PDict kvs)
      then show ?thesis using r neg by (cases "?vs kvs") simp_all
    qed (use r in simp_all)
    with assms(2) show False by simp
  qed
  then obtain kvs vs where kvs: "resp = PDict kvs" "?vs kvs = PList vs" by blast
  then have "extract_proposals L V checker sid rep ?t ?empty vs = Inr out" using r by simp
  from extract_proposals_kept [OF this assms(2)] have k: "kept L V checker sid rep ?t vs c" by simp
  moreover have "proposed L client model source vs"
    using resp kvs k by (cases "map_of kvs (PStr ''claims'')") (auto simp: proposed_def kept_def)
  ultimately show ?thesis by blast
qed

lemma llm_extract_kept:
  assumes "llm_extract L V client model checker source sid rep = Inr r"
  shows "revokes r = []"
    "c \<in> set (claims r) \<Longrightarrow> \<exists>vs. proposed L client model source vs \<and> kept L V checker sid rep (codepoints (nfc L source)) vs c"
  using assms by (auto simp: llm_extract_def bindR_Inr_iff dest: llm_run_kept)

lemma llm_extract_spans:
  assumes "llm_extract L V client model checker source sid rep = Inr r" "c \<in> set (claims r)"
  shows "\<exists>i j. spans L sid rep (codepoints (nfc L source)) i j c"
  using llm_extract_kept(2) [OF assms] unfolding kept_def by (blast dest: compile_proposal_spans)

subsection \<open>Grounding\<close>

lemma span_bounds:
  assumes "spans L sid rep t i j c" "length t < int_limit"
  shows "locator_bounds U c = Inr (int i, int j)"
proof -
  have "i < int_limit" "j < int_limit" using assms by (auto simp: spans_def)
  with assms(1) show ?thesis by (simp add: spans_def locator_bounds_def span_evidence_def py_int_str_nat)
qed

lemma span_grounded:
  assumes "spans L sid rep (codepoints source) i j c" "length (codepoints source) < int_limit"
  shows "layer_d_ok L U c source = Inr True"
  using assms by (simp add: layer_d_ok_def span_bounds [OF assms]) (simp add: spans_def span_evidence_def Let_def)

lemma py_slice_nat: "py_slice (int i) (int j) t = slice i j t"
  by (simp add: py_slice_def Let_def)

lemma modality_preserved_span:
  assumes "spans L sid rep (codepoints source) i j c" "length (codepoints source) < int_limit"
  shows "modality_preserved L U c source = Inr (modality_rank (modality (assertion c)) \<le>
    modality_rank (infer_source_modality L U (concat (slice i j (codepoints source)))))"
  by (simp add: modality_preserved_def span_bounds [OF assms] py_slice_nat)

lemma preserve_modality_le: "modality_rank (preserve_modality L U span m) \<le> modality_rank (infer_source_modality L U span)"
  by (simp add: preserve_modality_def Let_def)

lemma compiled_extracts:
  assumes "compile L ex s sid = (Inr cr, s')"
  shows "\<exists>raw t r. cas_get L (in_cas s) sid = Inr raw \<and> decode_utf8 raw = Inr t \<and>
    ex (snd (representation L t)) sid (fst (representation L t)) = Inr r \<and> cr_claims cr = claims r"
  using assms by (auto simp: compile_def Let_def stop_Inr_iff split_beta split: if_splits)

text \<open>
  What an extractor promises the ingest service: each claim has a span of the text that the extractor
  reads, which is the text it is given or, for the model-backed one, its normal form.
\<close>

locale span_extractor =
  fixes L :: lib and ex :: extractor and reads :: "string \<Rightarrow> string"
  assumes claim_spans: "ex source sid rep = Inr r \<Longrightarrow> c \<in> set (claims r) \<Longrightarrow>
    \<exists>i j. spans L sid rep (codepoints (reads source)) i j c"
begin

lemma claim_grounded:
  assumes "ex source sid rep = Inr r" "c \<in> set (claims r)" "length (codepoints (reads source)) < int_limit"
  shows "layer_d_ok L U c (reads source) = Inr True"
  using claim_spans [OF assms(1,2)] span_grounded assms(3) by blast

lemma claim_traced:
  assumes "ex source sid rep = Inr r" "c \<in> set (claims r)"
  shows "a_source_id (assertion c) = sid" "source_object_hash (evidence c) = sid" "representation_hash (evidence c) = rep"
    "evidence_ids (assertion c) = [evidence_id (evidence c)]" "a_claim_id (assertion c) = claim_id (identity c)"
proof -
  obtain i j where sp: "spans L sid rep (codepoints (reads source)) i j c" using claim_spans [OF assms] by blast
  then have "span_claim L sid (evidence c) (identity c) (modality (assertion c)) = Inr c"
    and ev: "evidence c = span_evidence L sid rep (codepoints (reads source)) i j" unfolding spans_def by blast+
  note F = span_claim_fields(4-6) [OF this(1)]
  show "a_source_id (assertion c) = sid" "a_claim_id (assertion c) = claim_id (identity c)"
    "evidence_ids (assertion c) = [evidence_id (evidence c)]" by (rule F)+
  show "source_object_hash (evidence c) = sid" "representation_hash (evidence c) = rep" by (simp_all add: ev span_evidence_def)
qed

lemma compiled_grounded:
  assumes "compile L ex s sid = (Inr cr, s')" "c \<in> set (cr_claims cr)"
  shows "\<exists>raw t. map_of (objects (in_cas s)) sid = Some raw \<and> sha256_hex L raw = sid \<and> decode_utf8 raw = Inr t \<and>
    source_object_hash (evidence c) = sid \<and> representation_hash (evidence c) = fst (representation L t) \<and>
    (length (codepoints (reads (snd (representation L t)))) < int_limit \<longrightarrow>
     layer_d_ok L U c (reads (snd (representation L t))) = Inr True)"
proof -
  obtain raw t r where raw: "cas_get L (in_cas s) sid = Inr raw" "decode_utf8 raw = Inr t"
      and r: "ex (snd (representation L t)) sid (fst (representation L t)) = Inr r" "cr_claims cr = claims r"
    using compiled_extracts [OF assms(1)] by blast
  have c: "c \<in> set (claims r)" using assms(2) r(2) by simp
  from raw claim_traced(2,3) [OF r(1) c] claim_grounded [OF r(1) c] show ?thesis by (auto simp: cas_get_Inr_iff)
qed

end

interpretation mock: span_extractor L "mock_extract L" id for L
  by unfold_locales (auto dest: mock_extract_spans)

interpretation llm: span_extractor L "llm_extract L V client model checker" "nfc L" for L V client model checker
  by unfold_locales (rule llm_extract_spans)

text \<open>
  C14: the claims that the ingest service compiles with the deterministic extractor are grounded in the stored source:
  the object named by the source id is in the store with the right hash, the evidence names it and its
  normalised representation; the claim says what the fields of one line of that representation say and carries the hash of that line, stripped; and
  Layer D accepts the claim on the representation: the text between the
  offsets of its locator is the text whose hash it carries. Offsets of more than 4300 digits, which
  \<open>int\<close> does not read back, are excluded.
\<close>

theorem compiled_claims_grounded:
  assumes "compile L (mock_extract L) s sid = (Inr cr, s')" "c \<in> set (cr_claims cr)"
  shows "\<exists>raw t. map_of (objects (in_cas s)) sid = Some raw \<and> sha256_hex L raw = sid \<and> decode_utf8 raw = Inr t \<and>
    source_object_hash (evidence c) = sid \<and> representation_hash (evidence c) = fst (representation L t) \<and>
    (\<exists>line\<in>set (splitlines (codepoints (snd (representation L t)))). states_line L line c) \<and>
    (length (codepoints (snd (representation L t))) < int_limit \<longrightarrow> layer_d_ok L U c (snd (representation L t)) = Inr True)"
proof -
  obtain raw t r where raw: "cas_get L (in_cas s) sid = Inr raw" "decode_utf8 raw = Inr t"
      and r: "mock_extract L (snd (representation L t)) sid (fst (representation L t)) = Inr r" "cr_claims cr = claims r"
    using compiled_extracts [OF assms(1)] by blast
  have "c \<in> set (claims r)" using assms(2) r(2) by simp
  note line = mock_extract_spans [OF r(1) this] and ground = mock.compiled_grounded [OF assms, of U]
  from raw have "map_of (objects (in_cas s)) sid = Some raw" by (simp add: cas_get_Inr_iff)
  with ground raw(2) line show ?thesis by auto
qed

text \<open>
  C15: whatever the language model answers, each claim that the extractor takes from it was proposed in that answer, with the subject,
  predicate, object and polarity it has, and the quote of the proposal stands word for word in the normalised source between the offsets of the claim's
  evidence, which carries its hash; it is no more certain than that span, and was found entailed when a checker is
  configured; and nothing is ever revoked.
\<close>

theorem llm_claims_supported:
  assumes "llm_extract L V client model checker source sid rep = Inr r" "length (codepoints (nfc L source)) < int_limit"
  shows "revokes r = [] \<and>
    (\<forall>c\<in>set (claims r).
       layer_d_ok L (cv_unicode V) c (nfc L source) = Inr True \<and>
       modality_preserved L (cv_unicode V) c (nfc L source) = Inr True \<and>
       a_source_id (assertion c) = sid \<and> source_object_hash (evidence c) = sid \<and> representation_hash (evidence c) = rep \<and>
       (\<exists>vs raw i j. proposed L client model source vs \<and> PDict raw \<in> set vs \<and> locator_bounds (cv_unicode V) c = Inr (int i, int j) \<and>
         member_of raw ''evidence_quote'' = PStr (concat (slice i j (codepoints (nfc L source)))) \<and>
         states_proposal V raw c) \<and>
       (\<forall>check. checker = Some check \<longrightarrow> check c (nfc L source) = Inr ENTAILED))"
proof (intro conjI ballI)
  let ?t = "codepoints (nfc L source)"
  show "revokes r = []" by (rule llm_extract_kept(1) [OF assms(1)])
  fix c assume c: "c \<in> set (claims r)"
  show "layer_d_ok L (cv_unicode V) c (nfc L source) = Inr True" by (rule llm.claim_grounded [OF assms(1) c assms(2)])
  show "a_source_id (assertion c) = sid" "source_object_hash (evidence c) = sid" "representation_hash (evidence c) = rep"
    by (rule llm.claim_traced [OF assms(1) c])+
  obtain vs where vs: "proposed L client model source vs" and k: "kept L V checker sid rep ?t vs c" using llm_extract_kept(2) [OF assms(1) c] by blast
  from k show "\<forall>check. checker = Some check \<longrightarrow> check c (nfc L source) = Inr ENTAILED" by (simp add: kept_def)
  obtain raw where raw: "PDict raw \<in> set vs" "compile_proposal L V sid rep ?t raw = Inr (Some c)" using k unfolding kept_def by blast
  obtain i j where sp: "spans L sid rep ?t i j c"
    and m: "modality (assertion c) = preserve_modality L (cv_unicode V) (concat (slice i j ?t)) (proposal_modality raw)"
    and q: "member_of raw ''evidence_quote'' = PStr (concat (slice i j ?t))"
      "states_proposal V raw c"
    using compile_proposal_spans [OF raw(2)] by blast
  show "modality_preserved L (cv_unicode V) c (nfc L source) = Inr True"
    by (simp add: modality_preserved_span [OF sp assms(2)] m preserve_modality_le)
  show "\<exists>vs raw i j. proposed L client model source vs \<and> PDict raw \<in> set vs \<and> locator_bounds (cv_unicode V) c = Inr (int i, int j) \<and>
         member_of raw ''evidence_quote'' = PStr (concat (slice i j ?t)) \<and>
         states_proposal V raw c"
    using vs raw(1) span_bounds [OF sp assms(2)] q by blast
qed

subsection \<open>Well-formed claims\<close>

text \<open>Unicode's normal forms are closed under substrings (Unicode Standard Annex 15, section 1.3).\<close>

definition nfc_parts :: "lib \<Rightarrow> bool" where
  "nfc_parts L \<longleftrightarrow> (\<forall>s p. nfc L s = s \<longrightarrow> part p (codepoints s) \<longrightarrow> nfc L (concat p) = concat p)"

definition normal_text :: "lib \<Rightarrow> codes \<Rightarrow> bool" where
  "normal_text L t \<longleftrightarrow> (\<forall>p. part p t \<longrightarrow> nfc L (concat p) = concat p)"

lemma normal_text_part: "normal_text L t \<Longrightarrow> part p t \<Longrightarrow> normal_text L p"
  unfolding normal_text_def using part_trans by blast

lemma normal_textD: "normal_text L t \<Longrightarrow> nfc L (concat t) = concat t"
  by (simp add: normal_text_def)

definition normal_dict :: "lib \<Rightarrow> (string, string) dict \<Rightarrow> bool" where
  "normal_dict L d \<longleftrightarrow> distinct (dict_keys d) \<and> (\<forall>(k, v)\<in>set d. nfc L k = k \<and> nfc L v = v)"

lemma dict_set_mem: "x \<in> set (dict_set k v d) \<Longrightarrow> x = (k, v) \<or> x \<in> set d"
  by (induction d) (auto split: if_splits)

lemma normal_dict_set: "normal_dict L d \<Longrightarrow> nfc L k = k \<Longrightarrow> nfc L v = v \<Longrightarrow> normal_dict L (dict_set k v d)"
  by (auto simp: normal_dict_def distinct_keys_set dest!: dict_set_mem)

lemma parse_scope_normal:
  assumes "normal_text L raw"
  shows "normal_dict L (parse_scope raw)"
proof -
  let ?step = "\<lambda>part sc. let p = strip part in if p = [] then sc
    else if ''='' \<in> set p then dict_set (concat (strip (before ''='' p))) (concat (strip (after ''='' p))) sc else sc"
  have step: "normal_dict L (?step p sc)" if "part p raw" "normal_dict L sc" for p sc
  proof -
    have "normal_text L (strip p)" using normal_text_part [OF assms] that(1) part_strip part_trans by blast
    then have "normal_text L (strip (before ''='' (strip p)))" "normal_text L (strip (after ''='' (strip p)))"
      by (meson normal_text_part part_strip part_before part_after)+
    from this [THEN normal_textD] that(2) show ?thesis by (simp add: Let_def normal_dict_set)
  qed
  have "normal_dict L (fold ?step ps sc)" if "\<forall>p\<in>set ps. part p raw" "normal_dict L sc" for ps sc
    using that
  proof (induction ps arbitrary: sc)
    case (Cons p ps)
    from Cons.prems have p: "part p raw" "\<forall>q\<in>set ps. part q raw" by simp_all
    show ?case unfolding fold_simps by (rule Cons.IH [OF p(2) step [OF p(1) Cons.prems(2)]])
  qed simp
  from this [of "pieces_at '';'' raw" "[]"] show ?thesis
    unfolding parse_scope_def by (simp add: part_pieces_at normal_dict_def)
qed

lemma payload_admissible:
  assumes "nfc_ascii L" "normal_dict L sc"
  shows "admissible L True (claim_payload s p ob pol sc)"
proof -
  have keys: "map (\<lambda>kv. nfc L (fst kv)) sc = dict_keys sc" using assms(2) by (auto simp: normal_dict_def)
  have "distinct (dict_keys sc)" using assms(2) by (simp add: normal_dict_def)
  then have "admissible L True (pstr_dict sc)"
    by (auto simp add: pstr_dict_def admissible_PDict comp_def split_beta keys)
  then show ?thesis by (simp add: claim_payload_def admissible_pdict nfc_asciiD [OF assms(1)])
qed

lemma create_identity_total:
  assumes "nfc_ascii L" "normal_dict L sc" "pol \<in> {''positive'', ''negative''}"
  shows "\<exists>b. create_identity L s p ob pol sc =
    Inr \<lparr>claim_id = hex b, subject_id = s, predicate_id = p, obj = ob, polarity = pol, scope = sc\<rparr>"
proof -
  obtain h where h: "canonical_hash L (claim_payload s p ob pol sc) = Inr h"
    using canonical_total(2) [OF payload_admissible [OF assms(1,2)]] by blast
  with canonical_hash_hex [OF h] assms(3) show ?thesis by (auto simp: create_identity_def compute_claim_id_def)
qed

lemma span_claim_total:
  assumes "nfc_ascii L"
  shows "\<exists>c. span_claim L sid ev d m = Inr c"
proof -
  have "admissible L True (pdict [(''claim_id'', PStr (claim_id d)), (''source_id'', PStr sid), (''evidence_id'', PStr (evidence_id ev))])"
    by (simp add: admissible_pdict nfc_asciiD [OF assms])
  from canonical_total(2) [OF this] show ?thesis by (auto simp: span_claim_def)
qed

lemma nfc_str_nat: "nfc_ascii L \<Longrightarrow> nfc L (str_nat n) = str_nat n"
  by (rule nfc_asciiD) (use str_nat_digits [of n] in \<open>auto simp: list_all_iff is_digit_def\<close>)

lemma nfc_sha256_hex: "nfc_ascii L \<Longrightarrow> nfc L (sha256_hex L b) = sha256_hex L b"
  by (simp add: sha256_hex_def nfc_hex)

lemma span_claim_good:
  assumes L: "nfc_ascii L" and texts: "nfc L sid = sid" "nfc L rep = rep" "nfc L s = s" "nfc L p = p" "nfc L ob = ob" "nfc L m = m"
    and sc: "normal_dict L sc" and pol: "pol \<in> {''positive'', ''negative''}"
    and d: "create_identity L s p ob pol sc = Inr d" and c: "span_claim L sid (span_evidence L sid rep t i j) d m = Inr c"
  shows "good_claim L c"
proof -
  let ?ev = "span_evidence L sid rep t i j"
  obtain b where "d = \<lparr>claim_id = hex b, subject_id = s, predicate_id = p, obj = ob, polarity = pol, scope = sc\<rparr>"
    using create_identity_total [OF L sc pol, of s p ob] d by auto
  note dd = this
  note F = span_claim_fields [OF c]
  from F(7) obtain a where a: "assertion_id (assertion c) = hex a" by blast
  have pol': "nfc L pol = pol" using pol by (auto intro: nfc_asciiD [OF L])
  have id: "normal L (identity_json d)"
    using texts pol' sc
    by (auto simp: dd identity_json_def str_json_def normal_dict_def nfc_hex [OF L] nfc_asciiD [OF L] list_all_iff comp_def split_beta)
  have as: "normal L (assertion_json (assertion c))"
    using texts by (simp add: assertion_json_def F(3-6) a dd nfc_hex [OF L] nfc_asciiD [OF L] span_evidence_def nfc_sha256_hex [OF L])
  have ev: "normal L (evidence_json ?ev)"
    using texts by (simp add: evidence_json_def span_evidence_def str_json_def nfc_asciiD [OF L] nfc_sha256_hex [OF L] nfc_str_nat [OF L])
  have "compute_claim_id L s p ob pol sc = Inr (claim_id d)" using d by (auto simp: create_identity_def bindR_Inr_iff)
  then show ?thesis using id as ev F(1,2,4,6) by (simp add: good_claim_def claim_json_def dd Let_def nfc_asciiD [OF L])
qed

lemma modality_ascii: "m \<in> set MODALITY \<Longrightarrow> nfc_ascii L \<Longrightarrow> nfc L m = m"
  by (auto simp: MODALITY_def intro: nfc_asciiD)

lemma extract_line_good:
  assumes L: "nfc_ascii L" and texts: "nfc L sid = sid" "nfc L rep = rep" and line: "normal_text L line"
  shows "\<exists>out. extract_line L sid rep t start line = Inr out \<and> (\<forall>c. out = Extracted c \<longrightarrow> good_claim L c)"
proof -
  let ?p = "strip line" and ?fields = "map strip (pieces_at ''|'' (strip line))"
  let ?pol = "concat (?fields ! 3)"
    and ?m = "if length ?fields > 5 \<and> concat (strip (?fields ! 5)) \<in> set MODALITY then concat (strip (?fields ! 5)) else ''asserted''"
  consider (early) "?p = [] \<or> hd ?p = ''#'' \<or> count_list ?p ''|'' < 4 \<or> concat (strip (before ''|'' ?p)) = ''REVOKE'' \<or> ?pol \<notin> {''positive'', ''negative''}"
    | (claim) "?p \<noteq> []" "hd ?p \<noteq> ''#''" "4 \<le> count_list ?p ''|''" "concat (strip (before ''|'' ?p)) \<noteq> ''REVOKE''"
        "?pol \<in> {''positive'', ''negative''}" by force
  then show ?thesis
  proof cases
    case early
    then show ?thesis unfolding extract_line_def Let_def by (auto split: if_splits)
  next
    case claim
    have p: "normal_text L ?p" by (rule normal_text_part [OF line part_strip])
    have field: "normal_text L (?fields ! k)" if "k < 5" for k
    proof -
      have "k < length (pieces_at ''|'' ?p)" using that claim(3) by (simp add: length_pieces_at)
      then show ?thesis by (simp, meson normal_text_part [OF p] nth_mem part_pieces_at part_strip part_trans)
    qed
    obtain i where i: "find_sub ?p line = Some i" using find_sub_exists [OF part_strip, of line] by blast
    let ?ev = "span_evidence L sid rep t (start + i) (start + i + length ?p)"
    have sc: "normal_dict L (parse_scope (?fields ! 4))" by (rule parse_scope_normal [OF field]) simp
    have m: "nfc L ?m = ?m" by (rule modality_ascii [OF _ L]) (simp add: MODALITY_def del: nth_map)
    obtain d where d: "create_identity L (concat (?fields ! 0)) (concat (?fields ! 1)) (concat (?fields ! 2)) ?pol (parse_scope (?fields ! 4)) = Inr d"
      using create_identity_total [OF L sc claim(5)] by blast
    obtain c where c: "span_claim L sid ?ev d ?m = Inr c" using span_claim_total [OF L] by blast
    have "good_claim L c"
      by (rule span_claim_good [OF L texts _ _ _ m sc claim(5) d c]) (rule normal_textD [OF field], simp)+
    moreover have "extract_line L sid rep t start line = Inr (Extracted c)"
      using claim d c i unfolding extract_line_def Let_def by (simp del: insert_iff)
    ultimately show ?thesis by simp
  qed
qed

lemma extract_lines_good:
  assumes "nfc_ascii L" "nfc L sid = sid" "nfc L rep = rep" "\<forall>l\<in>set ls. normal_text L l"
  shows "\<exists>r. extract_lines L sid rep t start ls = Inr r \<and> (\<forall>c\<in>set (claims r). good_claim L c)"
  using assms(4)
proof (induction ls arbitrary: start)
  case (Cons line ls)
  obtain out where out: "extract_line L sid rep t start line = Inr out" "\<forall>c. out = Extracted c \<longrightarrow> good_claim L c"
    using extract_line_good [OF assms(1-3)] Cons.prems by (meson list.set_intros(1))
  obtain r where "extract_lines L sid rep t (start + length line) ls = Inr r" "\<forall>c\<in>set (claims r). good_claim L c"
    using Cons.IH Cons.prems by (meson list.set_intros(2))
  with out show ?case by (cases out) auto
qed simp

text \<open>
  C16: on a source in normal form the deterministic extractor never fails, and every claim it returns is
  well-formed: its id is the hash of its identity, assertion and evidence are bound to it, and all its texts are in normal form, so
  that the snapshot of an accepted set of these claims reads back as it was written.
\<close>

theorem mock_extract_total_and_good:
  assumes "nfc_ascii L" "nfc_parts L" "nfc L source = source" "nfc L sid = sid" "nfc L rep = rep"
  shows "\<exists>r. mock_extract L source sid rep = Inr r \<and> (\<forall>c\<in>set (claims r). good_claim L c)"
proof -
  have "normal_text L (codepoints source)" using assms(2,3) by (simp add: nfc_parts_def normal_text_def)
  moreover have "part l (codepoints source)" if "l \<in> set (splitlines (codepoints source))" for l
  proof -
    from split_list [OF that] obtain a b where "splitlines (codepoints source) = a @ l # b" by blast
    then have "codepoints source = concat a @ l @ concat b" by (metis concat_splitlines concat.simps(2) concat_append)
    then show ?thesis unfolding part_def by blast
  qed
  ultimately have "\<forall>l\<in>set (splitlines (codepoints source)). normal_text L l" using normal_text_part by blast
  from extract_lines_good [OF assms(1,4,5) this] show ?thesis by (simp add: mock_extract_def Let_def)
qed

subsection \<open>A pattern that never decides\<close>

lemma search_mono:
  assumes "\<And>b t. match_here U ps b t \<Longrightarrow> match_here U qs b t" "search_from U ps b t"
  shows "search_from U qs b t"
  using assms(2) by (induction t arbitrary: b) (auto intro: assms(1))

lemma search_prefix:
  assumes "re_search U (Lit (l @ l') # ps) s"
  shows "re_search U [Lit l] s"
  unfolding re_search_def
proof (rule search_mono [OF _ assms [unfolded re_search_def]])
  fix b t assume "match_here U (Lit (l @ l') # ps) b t"
  then have "take (length l + length l') t = l @ l'" by simp
  then have "take (length l) (take (length l + length l') t) = l" by simp
  then show "match_here U [Lit l] b t" by (simp add: min_def)
qed

text \<open>
  The sixth of the patterns for \<open>likely\<close> begins with the ninth of the patterns for \<open>possible\<close>, which are
  tried first: a span that matches it is always found \<open>possible\<close>.
\<close>

theorem likely_pattern_shadowed:
  assumes "re_search U (LIKELY_PATTERNS ! 5) (lower L span)"
  shows "infer_source_modality L U span = ''possible''"
proof -
  have "LIKELY_PATTERNS ! 5 = Lit (map utf8_of [0xAC00, 0xB2A5, 0xC131] @ [utf8_of 0xC774]) # [Spaces, OneOf [[utf8_of 0xB192], [utf8_of 0xD06C]]]"
    by (simp add: LIKELY_PATTERNS_def)
  with assms have "re_search U [Lit (map utf8_of [0xAC00, 0xB2A5, 0xC131])] (lower L span)" by (metis search_prefix)
  moreover have "[Lit (map utf8_of [0xAC00, 0xB2A5, 0xC131])] \<in> set POSSIBLE_PATTERNS" by (simp add: POSSIBLE_PATTERNS_def)
  ultimately have "list_ex (\<lambda>p. re_search U p (lower L span)) POSSIBLE_PATTERNS" unfolding list_ex_iff by blast
  then show ?thesis by (simp add: infer_source_modality_def Let_def)
qed

subsection \<open>A demonstration\<close>

definition demo_source :: string where
  "demo_source = ''a|b|c|positive|k=v''"

definition demo_text :: codes where
  "demo_text = map (\<lambda>c. [c]) demo_source"

lemma demo_text_eq: "demo_text = [''a'', ''|'', ''b'', ''|'', ''c'', ''|'', ''p'', ''o'', ''s'', ''i'', ''t'', ''i'', ''v'', ''e'', ''|'', ''k'', ''='', ''v'']"
  by (simp add: demo_text_def demo_source_def)

lemma codes_demo: "codepoints demo_source = demo_text"
  unfolding demo_text_def by (rule codepoints_ascii) (simp add: demo_source_def)

lemma strip_demo: "strip demo_text = demo_text"
  by (rule strip_id) (simp_all add: demo_text_eq white_single)

lemma lines_demo: "splitlines demo_text = [demo_text]"
  by (simp add: demo_text_eq line_break_single)

lemma split_demo: "pieces_at ''|'' demo_text = [[''a''], [''b''], [''c''], map (\<lambda>c. [c]) ''positive'', [''k'', ''='', ''v'']]"
  by (simp add: demo_text_eq)

lemma fields_demo: "map strip (pieces_at ''|'' demo_text) = [[''a''], [''b''], [''c''], map (\<lambda>c. [c]) ''positive'', [''k'', ''='', ''v'']]"
  unfolding split_demo by (simp add: strip_id white_single)

lemma demo_misc: "find_sub demo_text demo_text = Some 0" "hd demo_text = ''a''" "count_list demo_text ''|'' = 4" "demo_text \<noteq> []"
  "concat (strip (before ''|'' demo_text)) = ''a''"
  by (simp_all add: demo_text_eq before_def strip_id white_single)

lemma nfc_parts_demo: "nfc_parts demo_lib"
  by (simp add: nfc_parts_def)

lemma extract_demo: "\<exists>c. mock_extract demo_lib demo_source sid rep = Inr \<lparr>claims = [c], revokes = []\<rparr>"
proof -
  let ?f = "map strip (pieces_at ''|'' demo_text)"
  have four: "?f ! 4 = [''k'', ''='', ''v'']" "?f ! 3 = map (\<lambda>c. [c]) ''positive''" "length ?f = 5"
    unfolding fields_demo by (simp_all add: numeral_eq_Suc)
  have "normal_text demo_lib (?f ! 4)" by (simp add: normal_text_def)
  then have sc: "normal_dict demo_lib (parse_scope (?f ! 4))" by (rule parse_scope_normal)
  have pol: "concat (?f ! 3) = ''positive''" unfolding four by simp
  obtain d where d: "create_identity demo_lib (concat (?f ! 0)) (concat (?f ! 1)) (concat (?f ! 2)) ''positive'' (parse_scope (?f ! 4)) = Inr d"
    using create_identity_total [OF demo_lib_ascii sc, of "''positive''"] by blast
  obtain c where c: "span_claim demo_lib sid (span_evidence demo_lib sid rep demo_text 0 (length demo_text)) d ''asserted'' = Inr c"
    using span_claim_total [OF demo_lib_ascii] by blast
  have "extract_line demo_lib sid rep demo_text 0 demo_text = Inr (Extracted c)"
    unfolding extract_line_def Let_def strip_demo demo_misc four(3) pol using d c by (simp add: demo_misc(4))
  then show ?thesis by (simp add: mock_extract_def codes_demo lines_demo Let_def)
qed

theorem mock_extract_total_and_good_witness:
  "\<exists>c. mock_extract demo_lib demo_source ''s'' ''r'' = Inr \<lparr>claims = [c], revokes = []\<rparr> \<and> good_claim demo_lib c"
proof -
  obtain c where c: "mock_extract demo_lib demo_source ''s'' ''r'' = Inr \<lparr>claims = [c], revokes = []\<rparr>" using extract_demo by blast
  with mock_extract_total_and_good [of demo_lib demo_source "''s''" "''r''"] nfc_parts_demo show ?thesis by auto
qed

definition demo_store :: cas where
  "demo_store = \<lparr>objects = [(sha256_hex demo_lib demo_source, demo_source)], tombstones = []\<rparr>"

lemma representation_demo: "representation demo_lib demo_source = (sha256_hex demo_lib demo_source, demo_source)"
proof -
  have a: "str_replace [CHR 0x0D, CHR 0x0A] [CHR 0x0A] demo_source = demo_source"
    by (simp add: demo_source_def str_replace.simps)
  have "str_replace [CHR 0x0D] [CHR 0x0A] demo_source = demo_source"
    by (simp add: demo_source_def str_replace_char)
  with a show ?thesis by (simp add: representation_def Let_def)
qed

lemma decode_demo: "decode_utf8 demo_source = Inr demo_source"
  by (simp add: demo_source_def decode_utf8_def)

lemma compile_demo:
  defines "sid \<equiv> sha256_hex demo_lib demo_source"
  shows "\<exists>cr s' c. compile demo_lib (mock_extract demo_lib) (fresh_service demo_store) sid = (Inr cr, s') \<and> cr_claims cr = [c]"
proof -
  obtain c where c: "mock_extract demo_lib demo_source sid sid = Inr \<lparr>claims = [c], revokes = []\<rparr>" using extract_demo by blast
  have ex: "cas_exists (in_cas (fresh_service demo_store)) sid" "cas_get demo_lib (in_cas (fresh_service demo_store)) sid = Inr demo_source"
    by (simp_all add: fresh_service_def demo_store_def cas_exists_def cas_get_Inr_iff sid_def)
  have ok: "compilable (fresh_service demo_store) sid" by (simp add: compilable_def fresh_service_def)
  have "compiled_from demo_lib (mock_extract demo_lib) demo_source sid = Inr \<lparr>claims = [c], revokes = []\<rparr>"
    using c by (simp add: compiled_from_def decode_demo representation_demo sid_def)
  with fst_compile [OF ok, of demo_lib "mock_extract demo_lib"] ex
  have "fst (compile demo_lib (mock_extract demo_lib) (fresh_service demo_store) sid) =
    Inr \<lparr>cr_source_id = sid, cr_claims = [c], cr_revokes = [], cr_status = ''validated''\<rparr>" by simp
  then show ?thesis by (metis compile_result.select_convs(2) prod.collapse)
qed

theorem compiled_claims_grounded_witness:
  "\<exists>cr s' c. compile demo_lib (mock_extract demo_lib) (fresh_service demo_store) (sha256_hex demo_lib demo_source) = (Inr cr, s') \<and>
     c \<in> set (cr_claims cr) \<and> (\<forall>U. layer_d_ok demo_lib U c demo_source = Inr True)"
proof -
  obtain cr s' c where c: "compile demo_lib (mock_extract demo_lib) (fresh_service demo_store) (sha256_hex demo_lib demo_source) = (Inr cr, s')"
      "cr_claims cr = [c]" using compile_demo by blast
  have len: "length (codepoints demo_source) < int_limit" by (rule int_limit_ge) (simp add: codes_demo demo_text_eq)
  have "layer_d_ok demo_lib U c demo_source = Inr True" for U
    using compiled_claims_grounded [OF c(1), of c U] c(2) len
    by (auto simp: fresh_service_def demo_store_def decode_demo representation_demo)
  with c show ?thesis by (metis list.set_intros(1))
qed

definition demo_unicode :: unicode where
  "demo_unicode = \<lparr>u_decimal = (\<lambda>_. None), u_word = (\<lambda>_. False)\<rparr>"

definition demo_conversions :: conversions where
  "demo_conversions = \<lparr>cv_unicode = demo_unicode, cv_str = (\<lambda>_. []), cv_float_int = (\<lambda>_. Inl ValueError)\<rparr>"

definition demo_proposal :: proposal where
  "demo_proposal = map (\<lambda>(k, v). (PStr k, v))
     [(''subject'', PStr ''a''), (''predicate'', PStr ''b''), (''object'', PStr ''c''), (''polarity'', PStr ''positive''),
      (''evidence_quote'', PStr ''may''), (''offset'', PList [PInt 0, PInt 3])]"

definition demo_client :: llm_client where
  "demo_client model system user = Inr (PDict [(PStr ''claims'', PList [PDict demo_proposal])])"

lemma demo_proposal_compiles: "\<exists>c. compile_proposal demo_lib demo_conversions sid rep [''m'', ''a'', ''y''] demo_proposal = Inr (Some c)"
proof -
  have sc: "normal_dict demo_lib []" by (simp add: normal_dict_def)
  have sp: "proposal_span [''m'', ''a'', ''y''] 0 3 (PStr ''may'') = Some (0, 3)" by (simp add: proposal_span_def slice_def)
  obtain d where "create_identity demo_lib ''a'' ''b'' ''c'' ''positive'' [] = Inr d"
    using create_identity_total [OF demo_lib_ascii sc, of "''positive''"] by blast
  then show ?thesis using span_claim_total [OF demo_lib_ascii]
    by (simp add: compile_proposal_def demo_proposal_def member_of_def sp proposal_scope_def to_str_def Let_def) (metis bindR_simps(2))
qed

lemma demo_proposal_valid: "valid_proposal demo_proposal"
  by (simp add: valid_proposal_def demo_proposal_def REQUIRED_def member_of_def)

theorem llm_claims_supported_witness:
  "\<exists>c. llm_extract demo_lib demo_conversions demo_client ''m'' (Some (mock_check demo_lib demo_unicode)) ''may'' ''s'' ''r'' =
         Inr \<lparr>claims = [c], revokes = []\<rparr> \<and>
     modality_preserved demo_lib demo_unicode c ''may'' = Inr True"
proof -
  let ?k = "mock_check demo_lib demo_unicode"
  have t: "codepoints ''may'' = [''m'', ''a'', ''y'']" by (simp add: cont_def)
  have len: "length (codepoints ''may'') < int_limit" by (rule int_limit_ge) (simp add: t)
  obtain c where c: "compile_proposal demo_lib demo_conversions ''s'' ''r'' (codepoints ''may'') demo_proposal = Inr (Some c)"
    using demo_proposal_compiles t by metis
  then obtain i j where "spans demo_lib ''s'' ''r'' (codepoints ''may'') i j c" using compile_proposal_spans by blast
  then have "layer_d_ok demo_lib demo_unicode c ''may'' = Inr True" by (rule span_grounded [OF _ len])
  then have k: "?k c ''may'' = Inr ENTAILED" by (simp add: mock_check_def)
  have e: "llm_extract demo_lib demo_conversions demo_client ''m'' (Some ?k) ''may'' ''s'' ''r'' = Inr \<lparr>claims = [c], revokes = []\<rparr>"
    using c k demo_proposal_valid by (simp add: llm_extract_def llm_run_def demo_client_def Let_def del: codepoints.simps)
  from llm_claims_supported [OF this] len have "modality_preserved demo_lib demo_unicode c ''may'' = Inr True"
    by (simp add: demo_conversions_def del: codepoints.simps)
  with e show ?thesis by blast
qed

end
