(* ===== verification/RuntimeContracts.thy ===== *)
theory RuntimeContracts
  imports SelfCertified PyText
begin

text \<open>
  \<open>memory_runtime/contracts.py\<close>: the states of an operation, canonical UTC timestamps, and the contract values of the
  runtime: requests, cancellation signals, references to stage results, status and response, each with the checks of its
  \<open>from_mapping\<close>. Instances are reparsed at the boundaries (\<open>from_mapping(x.to_mapping())\<close>): all fields are present there
  and have their types, so the records carry strings, and the checks of presence and type are not written out.
\<close>

subsection \<open>Canonical UTC timestamps\<close>

text \<open>
  A \<open>datetime\<close> is its number of seconds, as in theory \<open>Times\<close>. The fields of a date: the year whose days include the ordinal,
  the month of that year, the day.
\<close>

lemma days_before_year_ge: "days_before_year (Suc y) \<ge> 365 * int y"
  by (simp add: days_before_year_def Let_def zdiv_mono2 [of "int y" 4 100] pos_imp_zdiv_nonneg_iff
      add_increasing2 order_trans [OF zdiv_mono2 [of "int y" 4 100]])

function year_from :: "int \<Rightarrow> nat \<Rightarrow> nat" where
  "year_from n y = (if n \<le> days_before_year (Suc y) then y else year_from n (Suc y))"
  by pat_completeness auto

termination
proof (relation "measure (\<lambda>(n, y). nat (n - 365 * int y))")
  fix n y assume "\<not> n \<le> days_before_year (Suc y)"
  with days_before_year_ge [of y] show "((n, Suc y), n, y) \<in> measure (\<lambda>(n, y). nat (n - 365 * int y))" by simp
qed simp

declare year_from.simps [simp del]

definition year_of :: "int \<Rightarrow> nat" where
  "year_of n = year_from n (nat ((n - 1) div 366) + 1)"

definition month_of :: "nat \<Rightarrow> nat \<Rightarrow> nat" where
  "month_of y r = (case find (\<lambda>m. r \<le> days_before_month y m + days_in_month y m) [1..<13] of Some m \<Rightarrow> m | None \<Rightarrow> 12)"

definition pad2 :: "nat \<Rightarrow> string" where
  "pad2 n = [digit_char (n div 10 mod 10), digit_char (n mod 10)]"

definition format_utc_timestamp :: "int \<Rightarrow> string" where
  "format_utc_timestamp n =
     (let ord = n div 86400 + 1; y = year_of ord; r = nat (ord - days_before_year y); m = month_of y r;
          d = r - days_before_month y m; t = nat (n mod 86400) in
      str_nat y @ ''-'' @ pad2 m @ ''-'' @ pad2 d @ ''T'' @ pad2 (t div 3600) @ '':'' @ pad2 (t div 60 mod 60) @ '':'' @ pad2 (t mod 60) @ ''Z'')"

text \<open>A year before 1000 is printed without padding and is therefore not canonical.\<close>

definition parse_utc_timestamp :: "string \<Rightarrow> int res" where
  "parse_utc_timestamp s =
     (if \<not> fits (local_part @ ''Z'') s \<or> \<not> valid_civil s \<or> num 0 4 s < 1000 then Inl InvalidContractValue
      else Inr (civil_seconds s))"

lemma days_before_year_le: "days_before_year (Suc y) \<le> 366 * int y"
proof (induction y)
  case (Suc y)
  then show ?case using days_before_year_Suc [of "Suc y"] by (auto split: if_splits)
qed (simp add: days_before_year_def)

lemma year_from_correct:
  assumes "days_before_year y < n" "1 \<le> y"
  shows "days_before_year (year_from n y) < n \<and> n \<le> days_before_year (Suc (year_from n y)) \<and> 1 \<le> year_from n y"
  using assms
proof (induction n y rule: year_from.induct)
  case (1 n y)
  then show ?case by (cases "n \<le> days_before_year (Suc y)") (simp_all add: year_from.simps [of n y])
qed

lemma year_of_correct:
  assumes "1 \<le> n"
  shows "days_before_year (year_of n) < n" "n \<le> days_before_year (Suc (year_of n))" "1 \<le> year_of n"
proof -
  let ?k = "nat ((n - 1) div 366)"
  have "0 \<le> (n - 1) div 366" using assms by (simp add: pos_imp_zdiv_nonneg_iff)
  then have "days_before_year (Suc ?k) \<le> 366 * ((n - 1) div 366)" using days_before_year_le [of ?k] by simp
  also have "\<dots> \<le> n - 1" by (simp add: minus_mod_eq_mult_div [symmetric])
  finally have "days_before_year (?k + 1) < n" by simp
  from year_from_correct [OF this] show "days_before_year (year_of n) < n" "n \<le> days_before_year (Suc (year_of n))" "1 \<le> year_of n"
    unfolding year_of_def by simp_all
qed

lemma month_of_correct:
  assumes "1 \<le> r" "r \<le> days_before_month y 13"
  defines "m \<equiv> month_of y r"
  shows "1 \<le> m" "m \<le> 12" "days_before_month y m < r" "r \<le> days_before_month y m + days_in_month y m"
proof -
  let ?P = "\<lambda>m. r \<le> days_before_month y m + days_in_month y m"
  have "?P 12" using assms(2) by (simp add: eval_nat_numeral)
  then obtain k where k: "find ?P [1..<13] = Some k" by (cases "find ?P [1..<13]") (auto simp: find_None_iff)
  then obtain i where i: "i < 12" "k = Suc i" "?P k" "\<forall>j<i. \<not> ?P (Suc j)" unfolding find_Some_iff by auto
  have m: "m = k" unfolding m_def month_of_def k by simp
  show "1 \<le> m" "m \<le> 12" "r \<le> days_before_month y m + days_in_month y m" using i unfolding m by simp_all
  show "days_before_month y m < r"
  proof (cases i)
    case 0
    then show ?thesis using i assms(1) unfolding m by simp
  next
    case (Suc j)
    then have "\<not> ?P (Suc j)" using i(4) by simp
    then show ?thesis using i(2) Suc unfolding m by simp
  qed
qed

lemma pad2_simps: "length (pad2 n) = 2" "list_all is_digit (pad2 n)" "n < 100 \<Longrightarrow> int_str (pad2 n) = n"
  by (simp_all add: pad2_def is_digit_char int_str_def digit_val_char)

text \<open>The times whose text has a year of four digits.\<close>

definition in_years :: "int \<Rightarrow> bool" where
  "in_years n \<longleftrightarrow> days_before_year 1000 * 86400 \<le> n \<and> n < days_before_year 10000 * 86400"

lemma year_of_range:
  assumes "in_years n"
  shows "1000 \<le> year_of (n div 86400 + 1)" "year_of (n div 86400 + 1) < 10000"
proof -
  let ?o = "n div 86400 + 1" and ?y = "year_of (n div 86400 + 1)"
  have d: "days_before_year 1000 \<le> n div 86400" "n div 86400 < days_before_year 10000"
    using assms unfolding in_years_def by linarith+
  have "1 \<le> ?o" using d(1) by (simp add: days_before_year_def)
  note Y = year_of_correct [OF this]
  show "1000 \<le> ?y"
  proof (rule ccontr)
    assume "\<not> 1000 \<le> ?y"
    with Y(3) have "days_before_year (Suc ?y) \<le> days_before_year 1000" using days_before_year_mono [of ?y 1000] by simp
    with Y(2) d(1) show False by simp
  qed
  show "?y < 10000"
  proof (rule ccontr)
    assume "\<not> ?y < 10000"
    then have "days_before_year 10000 \<le> days_before_year ?y"
      using days_before_year_mono [of 9999 ?y] by (cases "?y = 10000") simp_all
    with Y(1) d(2) show False by simp
  qed
qed

lemma str_nat_year: "1000 \<le> y \<Longrightarrow> y < 10000 \<Longrightarrow> length (str_nat y) = 4"
proof -
  assume y: "1000 \<le> y" "y < 10000"
  then have "length (str_nat y) \<le> 4" using length_str_nat [of y 4] by simp
  moreover have "y < 10 ^ length (str_nat y)" using int_str_bound [OF str_nat_digits [of y]] by simp
  then have "\<not> length (str_nat y) \<le> 3" using y power_increasing [of "length (str_nat y)" 3 "10::nat"] by fastforce
  ultimately show ?thesis by simp
qed

text \<open>Printing and parsing are inverse.\<close>

lemma parse_format:
  assumes "in_years n"
  shows "parse_utc_timestamp (format_utc_timestamp n) = Inr n"
proof -
  define ord where "ord = n div 86400 + 1"
  define y where "y = year_of ord"
  define r where "r = nat (ord - days_before_year y)"
  define m where "m = month_of y r"
  define d where "d = r - days_before_month y m"
  define t where "t = nat (n mod 86400)"
  have yr: "1000 \<le> y" "y < 10000" using year_of_range [OF assms] by (simp_all add: y_def ord_def)
  have "1 \<le> ord" using assms unfolding in_years_def ord_def by (simp add: days_before_year_def pos_imp_zdiv_nonneg_iff)
  note Y = year_of_correct [OF this, folded y_def]
  have r: "1 \<le> r" "r \<le> days_before_month y 13"
    using Y days_before_year_Suc [OF Y(3)] days_in_year [of y] by (auto simp: r_def)
  note M = month_of_correct [OF r, folded m_def]
  have dd: "1 \<le> d" "d \<le> days_in_month y m" "days_before_month y m + d = r" using M by (auto simp: d_def)
  have "days_in_month y m \<le> 31" by (simp add: days_in_month_def)
  then have lt: "d < 100" "m < 100" "t div 3600 < 24" "t div 60 mod 60 < 60" "t mod 60 < 60"
    using dd M by (simp_all add: t_def div_less_iff_less_mult nat_less_iff)
  have ord_eq: "ordinal y m d = ord" using Y(1) dd(3) by (simp add: ordinal_def r_def flip: of_nat_add)
  let ?s = "format_utc_timestamp n"
  have s: "?s = str_nat y @ ''-'' @ pad2 m @ ''-'' @ pad2 d @ ''T'' @ pad2 (t div 3600) @ '':'' @ pad2 (t div 60 mod 60) @ '':'' @ pad2 (t mod 60) @ ''Z''"
    unfolding format_utc_timestamp_def Let_def ord_def [symmetric] y_def [symmetric] r_def [symmetric] m_def [symmetric]
      d_def [symmetric] t_def [symmetric] ..
  have len: "length (str_nat y) = 4" using str_nat_year yr by blast
  have f: "fits (local_part @ ''Z'') ?s"
  proof -
    obtain a b c e where y4: "str_nat y = [a, b, c, e]" using len by (auto simp: length_Suc_conv numeral_eq_Suc)
    with str_nat_digits [of y] have "is_digit a" "is_digit b" "is_digit c" "is_digit e" by simp_all
    then show ?thesis unfolding s y4 fits_def local_part_def by (simp add: pad2_def is_digit_char)
  qed
  have n: "num 0 4 ?s = y" "num 5 2 ?s = m" "num 8 2 ?s = d" "num 11 2 ?s = t div 3600" "num 14 2 ?s = t div 60 mod 60" "num 17 2 ?s = t mod 60"
    using lt unfolding s num_def by (simp_all add: len pad2_simps)
  have le: "t div 60 mod 60 \<le> 59" "t mod 60 \<le> 59" using lt(4,5) by linarith+
  have v: "valid_civil ?s" unfolding valid_civil_def n using yr M dd lt by (simp add: le)
  have tt: "int t = n mod 86400" by (simp add: t_def)
  have "t div 60 div 60 = t div 3600" by (simp add: div_mult2_eq [symmetric])
  then have "t div 60 = t div 3600 * 60 + t div 60 mod 60" using div_mult_mod_eq [of "t div 60" 60] by simp
  then have "t = t div 3600 * 3600 + t div 60 mod 60 * 60 + t mod 60" using div_mult_mod_eq [of t 60] by linarith
  from arg_cong [OF this, of int] have "int (t div 3600) * 3600 + int (t div 60 mod 60) * 60 + int (t mod 60) = n mod 86400"
    unfolding tt [symmetric] of_nat_add of_nat_mult of_nat_numeral by (rule sym)
  then have "civil_seconds ?s = (ord - 1) * 86400 + n mod 86400" unfolding civil_seconds_def n ord_eq by simp
  also have "\<dots> = n" by (simp add: ord_def)
  finally show ?thesis using f v n(1) yr(1) by (simp add: parse_utc_timestamp_def)
qed

subsection \<open>States\<close>

datatype operation_state = RECEIVED | PLANNED | RETRIEVED | GENERATED | VERIFIED | PROPOSED
  | COMPLETED | REJECTED | ABSTAINED | DEGRADED | FAILED | CANCELLED

fun op_state_value :: "operation_state \<Rightarrow> string" where
  "op_state_value RECEIVED = ''received''"
| "op_state_value PLANNED = ''planned''"
| "op_state_value RETRIEVED = ''retrieved''"
| "op_state_value GENERATED = ''generated''"
| "op_state_value VERIFIED = ''verified''"
| "op_state_value PROPOSED = ''proposed''"
| "op_state_value COMPLETED = ''completed''"
| "op_state_value REJECTED = ''rejected''"
| "op_state_value ABSTAINED = ''abstained''"
| "op_state_value DEGRADED = ''degraded''"
| "op_state_value FAILED = ''failed''"
| "op_state_value CANCELLED = ''cancelled''"

definition TERMINAL_STATES :: "operation_state list" where
  "TERMINAL_STATES = [COMPLETED, REJECTED, ABSTAINED, DEGRADED, FAILED, CANCELLED]"

definition STAGE_STATES :: "operation_state list" where
  "STAGE_STATES = [PLANNED, RETRIEVED, GENERATED, VERIFIED, PROPOSED]"

text \<open>The stages by name with their place, and \<open>OperationState(name)\<close>.\<close>

definition STAGE_NAMES :: "string list" where
  "STAGE_NAMES = map op_state_value STAGE_STATES"

definition stage_order :: "(string, nat) dict" where
  "stage_order = zip STAGE_NAMES [0..<length STAGE_NAMES]"

definition order_of :: "string \<Rightarrow> nat" where
  "order_of name = (case map_of stage_order name of Some i \<Rightarrow> i | None \<Rightarrow> length STAGE_NAMES)"

definition ALL_STATES :: "operation_state list" where
  "ALL_STATES = RECEIVED # STAGE_STATES @ TERMINAL_STATES"

definition operation_state_of :: "string \<Rightarrow> operation_state option" where
  "operation_state_of name = find (\<lambda>s. op_state_value s = name) ALL_STATES"

datatype stage_disposition = CONTINUE | COMPLETE | REJECT | ABSTAIN | DEGRADE

fun disposition_value :: "stage_disposition \<Rightarrow> string" where
  "disposition_value CONTINUE = ''continue''"
| "disposition_value COMPLETE = ''complete''"
| "disposition_value REJECT = ''reject''"
| "disposition_value ABSTAIN = ''abstain''"
| "disposition_value DEGRADE = ''degrade''"

datatype response_status = S_COMPLETED | S_REJECTED | S_ABSTAINED | S_DEGRADED | S_FAILED | S_CANCELLED | RETRY_LATER

fun response_status_for_state :: "operation_state \<Rightarrow> response_status" where
  "response_status_for_state COMPLETED = S_COMPLETED"
| "response_status_for_state REJECTED = S_REJECTED"
| "response_status_for_state ABSTAINED = S_ABSTAINED"
| "response_status_for_state DEGRADED = S_DEGRADED"
| "response_status_for_state FAILED = S_FAILED"
| "response_status_for_state CANCELLED = S_CANCELLED"
| "response_status_for_state _ = RETRY_LATER"

subsection \<open>Value checks\<close>

definition rt_nonempty :: "lib \<Rightarrow> string \<Rightarrow> string res" where
  "rt_nonempty L s = (if nfc L s = [] then Inl InvalidContractValue else Inr (nfc L s))"

definition rt_that :: "(string \<Rightarrow> bool) \<Rightarrow> lib \<Rightarrow> string \<Rightarrow> string res" where
  "rt_that ok L s = bindR (rt_nonempty L s) (\<lambda>t. if ok t then Inr t else Inl InvalidContractValue)"

abbreviation rt_hex64 :: "lib \<Rightarrow> string \<Rightarrow> string res" where
  "rt_hex64 \<equiv> rt_that is_hex64"

definition is_safe_code :: "string \<Rightarrow> bool" where
  "is_safe_code s \<longleftrightarrow> s \<noteq> [] \<and> length s \<le> 128 \<and> lower_char (hd s) \<and>
     list_all (\<lambda>c. lower_char c \<or> is_digit c \<or> c \<in> set ''_.-'') (tl s)"

abbreviation rt_safe_code :: "lib \<Rightarrow> string \<Rightarrow> string res" where
  "rt_safe_code \<equiv> rt_that is_safe_code"

definition rt_optional :: "(string \<Rightarrow> string res) \<Rightarrow> string option \<Rightarrow> string option res" where
  "rt_optional f v = (case v of None \<Rightarrow> Inr None | Some s \<Rightarrow> bindR (f s) (\<lambda>t. Inr (Some t)))"

text \<open>\<open>canonical_bytes\<close> with the core's errors translated, \<open>_hash\<close> and \<open>_canonical_object\<close>.\<close>

definition rt_canonical_bytes :: "lib \<Rightarrow> pyval \<Rightarrow> bytes res" where
  "rt_canonical_bytes L v = (case contract_canonical_bytes L v of Inl _ \<Rightarrow> Inl InvalidContractValue | Inr b \<Rightarrow> Inr b)"

definition rt_hash :: "lib \<Rightarrow> bytes \<Rightarrow> pyval \<Rightarrow> string res" where
  "rt_hash L domain v = bindR (rt_canonical_bytes L v) (\<lambda>b. Inr (sha256_hex L (domain @ b)))"

definition canonical_object :: "lib \<Rightarrow> json \<Rightarrow> json res" where
  "canonical_object L j =
     bindR (rt_canonical_bytes L (pdict [(''value'', json_py j)])) (\<lambda>b.
     case loads b of
       Some d \<Rightarrow> (case jget d ''value'' of Some (JObj kvs) \<Rightarrow> Inr (JObj kvs) | _ \<Rightarrow> Inl InvalidContractValue)
     | None \<Rightarrow> Inl InvalidContractValue)"

definition opt_py :: "string option \<Rightarrow> pyval" where
  "opt_py v = (case v of None \<Rightarrow> PNone | Some s \<Rightarrow> PStr s)"

subsection \<open>Requests\<close>

definition RUNTIME_REQUEST_VERSION :: string where
  "RUNTIME_REQUEST_VERSION = ''phase4-runtime-request-v1''"

definition OPERATION_DOMAIN :: bytes where
  "OPERATION_DOMAIN = ''wiki.runtime.operation.v1'' @ [CHR 0x00]"

record runtime_request =
  rt_version :: string
  rt_request_id :: string
  rt_operation_id :: string
  rt_idempotency_key :: string
  rt_workspace_id :: string
  rt_actor_id :: string
  rt_request_type :: string
  rt_received_at :: string
  rt_deadline_at :: string
  rt_generation_id :: "string option"
  rt_payload :: json

definition operation_identity :: "runtime_request \<Rightarrow> pyval" where
  "operation_identity r = pdict
     [(''runtime_request_version'', PStr RUNTIME_REQUEST_VERSION), (''idempotency_key'', PStr (rt_idempotency_key r)),
      (''workspace_id'', PStr (rt_workspace_id r)), (''actor_id'', PStr (rt_actor_id r)),
      (''request_type'', PStr (rt_request_type r)), (''deadline_at'', PStr (rt_deadline_at r)),
      (''requested_generation_id'', opt_py (rt_generation_id r)), (''payload'', json_py (rt_payload r))]"

text \<open>\<open>RuntimeRequest.from_mapping(request.to_mapping())\<close>.\<close>

definition reparse_request :: "lib \<Rightarrow> runtime_request \<Rightarrow> runtime_request res" where
  "reparse_request L r =
     bindR (canonical_object L (rt_payload r)) (\<lambda>copied.
     bindR (guardR (rt_version r = RUNTIME_REQUEST_VERSION) UnsupportedContractVersion) (\<lambda>_.
     bindR (rt_nonempty L (rt_request_id r)) (\<lambda>request_id.
     bindR (rt_nonempty L (rt_idempotency_key r)) (\<lambda>key.
     bindR (rt_nonempty L (rt_workspace_id r)) (\<lambda>ws.
     bindR (rt_nonempty L (rt_actor_id r)) (\<lambda>actor.
     bindR (rt_nonempty L (rt_request_type r)) (\<lambda>typ.
     bindR (rt_hex64 L (rt_operation_id r)) (\<lambda>op_id.
     bindR (rt_optional (rt_nonempty L) (rt_generation_id r)) (\<lambda>gid.
     bindR (canonical_object L copied) (\<lambda>payload.
     bindR (parse_utc_timestamp (rt_received_at r)) (\<lambda>received.
     bindR (parse_utc_timestamp (rt_deadline_at r)) (\<lambda>deadline.
     bindR (guardR (received < deadline) InvalidContractValue) (\<lambda>_.
     let r' = r\<lparr>rt_request_id := request_id, rt_operation_id := op_id, rt_idempotency_key := key, rt_workspace_id := ws,
                rt_actor_id := actor, rt_request_type := typ, rt_generation_id := gid, rt_payload := payload\<rparr> in
     bindR (rt_hash L OPERATION_DOMAIN (operation_identity r')) (\<lambda>expected.
     bindR (guardR (op_id = expected) InvalidContractValue) (\<lambda>_. Inr r')))))))))))))))"

subsection \<open>Cancellation signals\<close>

definition CANCELLATION_SIGNAL_VERSION :: string where
  "CANCELLATION_SIGNAL_VERSION = ''phase4-cancellation-signal-v1''"

definition CANCELLATION_DOMAIN :: bytes where
  "CANCELLATION_DOMAIN = ''wiki.runtime.cancellation.v1'' @ [CHR 0x00]"

record cancellation_signal =
  cs_version :: string
  cs_cancellation_id :: string
  cs_workspace_id :: string
  cs_actor_id :: string
  cs_operation_id :: string
  cs_requested_at :: string
  cs_reason_code :: string

definition cancellation_identity :: "cancellation_signal \<Rightarrow> pyval" where
  "cancellation_identity c = pdict
     [(''cancellation_signal_version'', PStr CANCELLATION_SIGNAL_VERSION), (''workspace_id'', PStr (cs_workspace_id c)),
      (''actor_id'', PStr (cs_actor_id c)), (''operation_id'', PStr (cs_operation_id c)),
      (''requested_at'', PStr (cs_requested_at c)), (''reason_code'', PStr (cs_reason_code c))]"

definition reparse_signal :: "lib \<Rightarrow> cancellation_signal \<Rightarrow> cancellation_signal res" where
  "reparse_signal L c =
     bindR (guardR (cs_version c = CANCELLATION_SIGNAL_VERSION) UnsupportedContractVersion) (\<lambda>_.
     bindR (rt_hex64 L (cs_cancellation_id c)) (\<lambda>cid.
     bindR (rt_hex64 L (cs_operation_id c)) (\<lambda>op_id.
     bindR (rt_nonempty L (cs_workspace_id c)) (\<lambda>ws.
     bindR (rt_nonempty L (cs_actor_id c)) (\<lambda>actor.
     bindR (rt_safe_code L (cs_reason_code c)) (\<lambda>why.
     bindR (parse_utc_timestamp (cs_requested_at c)) (\<lambda>_.
     let c' = c\<lparr>cs_cancellation_id := cid, cs_operation_id := op_id, cs_workspace_id := ws, cs_actor_id := actor, cs_reason_code := why\<rparr> in
     bindR (rt_hash L CANCELLATION_DOMAIN (cancellation_identity c')) (\<lambda>expected.
     bindR (guardR (cid = expected) InvalidContractValue) (\<lambda>_. Inr c')))))))))"

definition create_signal :: "lib \<Rightarrow> string \<Rightarrow> string \<Rightarrow> string \<Rightarrow> string \<Rightarrow> string \<Rightarrow> cancellation_signal res" where
  "create_signal L ws actor op_id requested_at why =
     (let c = \<lparr>cs_version = CANCELLATION_SIGNAL_VERSION, cs_cancellation_id = [], cs_workspace_id = ws, cs_actor_id = actor,
               cs_operation_id = op_id, cs_requested_at = requested_at, cs_reason_code = why\<rparr> in
      bindR (rt_hash L CANCELLATION_DOMAIN (cancellation_identity c)) (\<lambda>cid. reparse_signal L (c\<lparr>cs_cancellation_id := cid\<rparr>)))"

subsection \<open>References to stage results\<close>

definition STAGE_RESULT_REF_VERSION :: string where
  "STAGE_RESULT_REF_VERSION = ''phase4-stage-result-ref-v1''"

definition STAGE_RESULT_DOMAIN :: bytes where
  "STAGE_RESULT_DOMAIN = ''wiki.runtime.stage-result.v1'' @ [CHR 0x00]"

record stage_ref =
  sr_version :: string
  sr_result_id :: string
  sr_operation_id :: string
  sr_stage_name :: string
  sr_input_digest :: string
  sr_content_digest :: string
  sr_schema_id :: string
  sr_created_at :: string
  sr_provenance :: "string list"

definition stage_ref_identity :: "stage_ref \<Rightarrow> pyval" where
  "stage_ref_identity r = pdict
     [(''stage_result_ref_version'', PStr STAGE_RESULT_REF_VERSION), (''operation_id'', PStr (sr_operation_id r)),
      (''stage_name'', PStr (sr_stage_name r)), (''input_digest'', PStr (sr_input_digest r)),
      (''content_digest'', PStr (sr_content_digest r)), (''schema_id'', PStr (sr_schema_id r)),
      (''created_at'', PStr (sr_created_at r)), (''provenance_refs'', PList (map PStr (sr_provenance r)))]"

definition reparse_ref :: "lib \<Rightarrow> stage_ref \<Rightarrow> stage_ref res" where
  "reparse_ref L r =
     bindR (guardR (sr_version r = STAGE_RESULT_REF_VERSION) UnsupportedContractVersion) (\<lambda>_.
     bindR (rt_hex64 L (sr_result_id r)) (\<lambda>rid.
     bindR (rt_hex64 L (sr_operation_id r)) (\<lambda>op_id.
     bindR (rt_hex64 L (sr_input_digest r)) (\<lambda>input.
     bindR (rt_hex64 L (sr_content_digest r)) (\<lambda>content.
     bindR (rt_nonempty L (sr_stage_name r)) (\<lambda>stage.
     bindR (rt_nonempty L (sr_schema_id r)) (\<lambda>schema.
     bindR (guardR (stage \<in> set STAGE_NAMES) InvalidContractValue) (\<lambda>_.
     bindR (parse_utc_timestamp (sr_created_at r)) (\<lambda>_.
     bindR (mapR (rt_nonempty L) (sr_provenance r)) (\<lambda>prov.
     bindR (guardR (sorted_set prov = prov) InvalidContractValue) (\<lambda>_.
     let r' = r\<lparr>sr_result_id := rid, sr_operation_id := op_id, sr_stage_name := stage, sr_input_digest := input,
                sr_content_digest := content, sr_schema_id := schema, sr_provenance := prov\<rparr> in
     bindR (rt_hash L STAGE_RESULT_DOMAIN (stage_ref_identity r')) (\<lambda>expected.
     bindR (guardR (rid = expected) InvalidContractValue) (\<lambda>_. Inr r')))))))))))))"

definition create_ref ::
    "lib \<Rightarrow> string \<Rightarrow> string \<Rightarrow> string \<Rightarrow> string \<Rightarrow> string \<Rightarrow> string \<Rightarrow> string list \<Rightarrow> stage_ref res" where
  "create_ref L op_id stage input content schema created provenance =
     bindR (mapR (rt_nonempty L) provenance) (\<lambda>prov.
     let r = \<lparr>sr_version = STAGE_RESULT_REF_VERSION, sr_result_id = [], sr_operation_id = op_id, sr_stage_name = stage,
              sr_input_digest = input, sr_content_digest = content, sr_schema_id = schema, sr_created_at = created,
              sr_provenance = sorted_set prov\<rparr> in
     bindR (rt_hash L STAGE_RESULT_DOMAIN (stage_ref_identity r)) (\<lambda>rid. reparse_ref L (r\<lparr>sr_result_id := rid\<rparr>)))"

subsection \<open>Status and response\<close>

definition validate_stage_refs :: "stage_ref list \<Rightarrow> string \<Rightarrow> unit res" where
  "validate_stage_refs refs op_id =
     bindR (guardR (distinct (map sr_stage_name refs)) InvalidContractValue) (\<lambda>_.
     bindR (guardR (list_all (\<lambda>r. sr_operation_id r = op_id) refs) InvalidContractValue) (\<lambda>_.
     guardR (sorted (map (order_of \<circ> sr_stage_name) refs)) InvalidContractValue))"

definition validate_state_ref_semantics :: "operation_state \<Rightarrow> stage_ref list \<Rightarrow> string option \<Rightarrow> unit res" where
  "validate_state_ref_semantics st refs current =
     (if st = RECEIVED then
        guardR (refs = [] \<and> (current = None \<or> current = Some (op_state_value PLANNED))) InvalidContractValue
      else if st \<in> set STAGE_STATES then
        guardR (refs \<noteq> [] \<and> sr_stage_name (last refs) = op_state_value st \<and>
          (case current of None \<Rightarrow> True | Some c \<Rightarrow> order_of (op_state_value st) < order_of c)) InvalidContractValue
      else guardR (\<not> (st = COMPLETED \<and> refs = [])) InvalidContractValue)"

definition validate_terminal_error_semantics :: "operation_state \<Rightarrow> string option \<Rightarrow> unit res" where
  "validate_terminal_error_semantics st err =
     (if st = COMPLETED then guardR (err = None) InvalidContractValue
      else guardR (st \<in> set TERMINAL_STATES \<longrightarrow> err \<noteq> None) InvalidContractValue)"

definition RUNTIME_STATUS_VERSION :: string where
  "RUNTIME_STATUS_VERSION = ''phase4-runtime-status-v1''"

record runtime_status =
  rs_operation_id :: string
  rs_workspace_id :: string
  rs_state :: operation_state
  rs_current_stage :: "string option"
  rs_attempt :: string
  rs_revision :: string
  rs_deadline_at :: string
  rs_cancellation_id :: "string option"
  rs_stage_result_refs :: "stage_ref list"
  rs_updated_at :: string
  rs_error_code :: "string option"

text \<open>\<open>RuntimeStatus.from_mapping\<close> on the mapping of these values.\<close>

definition new_status :: "lib \<Rightarrow> runtime_status \<Rightarrow> runtime_status res" where
  "new_status L v =
     bindR (rt_hex64 L (rs_operation_id v)) (\<lambda>op_id.
     bindR (rt_nonempty L (rs_workspace_id v)) (\<lambda>ws.
     bindR (rt_optional (rt_nonempty L) (rs_current_stage v)) (\<lambda>current.
     bindR (guardR (case current of None \<Rightarrow> True | Some c \<Rightarrow> c \<in> set STAGE_NAMES) InvalidContractValue) (\<lambda>_.
     bindR (guardR (canonical_uint (rs_attempt v)) InvalidContractValue) (\<lambda>_.
     bindR (guardR (canonical_uint (rs_revision v)) InvalidContractValue) (\<lambda>_.
     bindR (parse_utc_timestamp (rs_deadline_at v)) (\<lambda>_.
     bindR (parse_utc_timestamp (rs_updated_at v)) (\<lambda>_.
     bindR (rt_optional (rt_hex64 L) (rs_cancellation_id v)) (\<lambda>cid.
     bindR (rt_optional (rt_safe_code L) (rs_error_code v)) (\<lambda>err.
     bindR (mapR (reparse_ref L) (rs_stage_result_refs v)) (\<lambda>refs.
     bindR (validate_stage_refs refs op_id) (\<lambda>_.
     bindR (guardR (rs_state v \<in> set TERMINAL_STATES \<longleftrightarrow> current = None) InvalidContractValue) (\<lambda>_.
     bindR (validate_state_ref_semantics (rs_state v) refs current) (\<lambda>_.
     bindR (validate_terminal_error_semantics (rs_state v) err) (\<lambda>_.
     Inr (v\<lparr>rs_operation_id := op_id, rs_workspace_id := ws, rs_current_stage := current, rs_cancellation_id := cid,
            rs_stage_result_refs := refs, rs_error_code := err\<rparr>))))))))))))))))"

definition RUNTIME_RESPONSE_VERSION :: string where
  "RUNTIME_RESPONSE_VERSION = ''phase4-runtime-response-v1''"

record runtime_response =
  rr_request_id :: string
  rr_operation_id :: string
  rr_workspace_id :: string
  rr_response_status :: response_status
  rr_state :: operation_state
  rr_generation_id :: "string option"
  rr_stage_result_refs :: "stage_ref list"
  rr_result_ref :: "stage_ref option"
  rr_retryable :: bool
  rr_error_code :: "string option"
  rr_updated_at :: string

definition response_semantics :: "response_status \<Rightarrow> operation_state \<Rightarrow> stage_ref list \<Rightarrow> stage_ref option \<Rightarrow> bool \<Rightarrow> string option \<Rightarrow> bool" where
  "response_semantics rst st refs result retry err =
     (if rst = RETRY_LATER then st \<notin> set TERMINAL_STATES \<and> retry \<and> result = None \<and> err \<noteq> None
      else rst = response_status_for_state st \<and> \<not> retry \<and>
        (if rst = S_COMPLETED then err = None \<and> result \<noteq> None
         else if rst \<in> {S_FAILED, S_CANCELLED} then err \<noteq> None \<and> result = None
         else if rst = S_REJECTED then err \<noteq> None \<and> (result = None \<longrightarrow> refs = [])
         else err \<noteq> None \<and> result \<noteq> None))"

definition new_response :: "lib \<Rightarrow> runtime_response \<Rightarrow> runtime_response res" where
  "new_response L v =
     bindR (rt_nonempty L (rr_request_id v)) (\<lambda>request_id.
     bindR (rt_hex64 L (rr_operation_id v)) (\<lambda>op_id.
     bindR (rt_nonempty L (rr_workspace_id v)) (\<lambda>ws.
     bindR (rt_optional (rt_nonempty L) (rr_generation_id v)) (\<lambda>gid.
     bindR (rt_optional (rt_safe_code L) (rr_error_code v)) (\<lambda>err.
     bindR (parse_utc_timestamp (rr_updated_at v)) (\<lambda>_.
     bindR (mapR (reparse_ref L) (rr_stage_result_refs v)) (\<lambda>refs.
     bindR (validate_stage_refs refs op_id) (\<lambda>_.
     bindR (case rr_result_ref v of None \<Rightarrow> Inr None | Some x \<Rightarrow> bindR (reparse_ref L x) (\<lambda>y. Inr (Some y))) (\<lambda>result.
     bindR (guardR (case result of None \<Rightarrow> True | Some x \<Rightarrow> x \<in> set refs \<and> refs \<noteq> [] \<and> x = last refs) InvalidContractValue) (\<lambda>_.
     bindR (validate_state_ref_semantics (rr_state v) refs None) (\<lambda>_.
     bindR (guardR (response_semantics (rr_response_status v) (rr_state v) refs result (rr_retryable v) err) InvalidContractValue) (\<lambda>_.
     Inr (v\<lparr>rr_request_id := request_id, rr_operation_id := op_id, rr_workspace_id := ws, rr_generation_id := gid,
            rr_stage_result_refs := refs, rr_result_ref := result, rr_error_code := err\<rparr>)))))))))))))"

subsection \<open>Reparsing\<close>

lemma rt_nonempty_Inr [simp]: "rt_nonempty L s = Inr t \<longleftrightarrow> t = nfc L s \<and> t \<noteq> []"
  by (auto simp: rt_nonempty_def)

lemma rt_that_Inr [simp]: "rt_that ok L s = Inr t \<longleftrightarrow> t = nfc L s \<and> t \<noteq> [] \<and> ok t"
  by (auto simp: rt_that_def bindR_Inr_iff)

lemma rt_optional_Inr: "rt_optional f v = Inr w \<longleftrightarrow> (case v of None \<Rightarrow> w = None | Some s \<Rightarrow> \<exists>t. f s = Inr t \<and> w = Some t)"
  by (auto simp: rt_optional_def bindR_Inr_iff split: option.splits)

text \<open>A parsed value is reparsed to itself.\<close>

lemma mapR_nonempty_idem:
  assumes "nfc_idem L" "mapR (rt_nonempty L) xs = Inr ys"
  shows "mapR (rt_nonempty L) ys = Inr ys"
  using assms(2) assms(1) by (induction xs arbitrary: ys) (auto simp: bindR_Inr_iff nfc_idem_def)

lemma reparse_ref_idem:
  assumes "nfc_idem L" "reparse_ref L r = Inr q"
  shows "reparse_ref L q = Inr q"
proof -
  have idem: "nfc L (nfc L s) = nfc L s" for s using assms(1) by (simp add: nfc_idem_def)
  from assms(2) show ?thesis
    by (auto simp: reparse_ref_def bindR_Inr_iff guardR_Inr_iff Let_def idem mapR_nonempty_idem [OF assms(1)])
qed

end
