(* ===== verification/OperationStore.thy ===== *)
theory OperationStore
  imports RuntimeContracts Ingest
begin

text \<open>
  The operation store of \<open>memory_runtime/orchestrator.py\<close>: the record of an operation, and \<open>InMemoryOperationStore\<close>, which
  registers operations, hands out one stage at a time under a lease, and commits, releases or fails it. Every method runs under the
  store's lock, so each is one step; a method returns its outcome and the store it leaves.

  The results: in every store that can be reached a record is well-formed (its results are those of the first stages of
  its pipeline, in order), a terminal record never changes again, results are only ever appended, and only the holder of the
  current claim commits.
\<close>

subsection \<open>Pipelines and records\<close>

record pipeline =
  pd_pipeline_id :: string
  pd_request_type :: string
  pd_stages :: "string list"

definition stages_ok :: "string list \<Rightarrow> bool" where
  "stages_ok stages \<longleftrightarrow>
     stages \<noteq> [] \<and> set stages \<subseteq> set STAGE_NAMES \<and>
     (let indexes = map order_of stages in indexes = sorted_set indexes) \<and>
     stages ! 0 = op_state_value PLANNED \<and>
     (op_state_value GENERATED \<in> set stages \<longrightarrow> op_state_value VERIFIED \<in> set stages) \<and>
     (op_state_value PROPOSED \<in> set stages \<longrightarrow> op_state_value VERIFIED \<in> set stages \<and> last stages = op_state_value PROPOSED)"

definition new_pipeline :: "lib \<Rightarrow> string \<Rightarrow> string \<Rightarrow> string list \<Rightarrow> pipeline res" where
  "new_pipeline L pid typ stages =
     bindR (guardR (pid \<noteq> []) InvalidContractValue) (\<lambda>_.
     bindR (guardR (typ \<noteq> []) InvalidContractValue) (\<lambda>_.
     bindR (guardR (stages_ok stages) InvalidContractValue) (\<lambda>_.
     Inr \<lparr>pd_pipeline_id = nfc L pid, pd_request_type = nfc L typ, pd_stages = stages\<rparr>)))"

record stage_claim =
  sc_token :: string
  sc_stage_name :: string
  sc_attempt :: nat
  sc_input_digest :: string

record active_claim =
  ac_token :: string
  ac_request_id :: string
  ac_stage_name :: string
  ac_attempt :: nat
  ac_lease_expires_at :: int
  ac_input_digest :: string

record operation_record =
  op_operation_id :: string
  op_idempotency_key :: string
  op_workspace_id :: string
  op_actor_id :: string
  op_request_type :: string
  op_generation_id :: "string option"
  op_deadline_at :: string
  op_pipeline_id :: string
  op_stages :: "string list"
  op_state :: operation_state
  op_stage_index :: nat
  op_refs :: "stage_ref list"
  op_attempts :: "(string, nat) dict"
  op_revision :: nat
  op_created_at :: string
  op_updated_at :: string
  op_cancellation :: "cancellation_signal option"
  op_active :: "active_claim option"
  op_error :: "string option"

definition attempt_for :: "operation_record \<Rightarrow> string \<Rightarrow> nat" where
  "attempt_for r stage = (case map_of (op_attempts r) stage of None \<Rightarrow> 0 | Some n \<Rightarrow> n)"

definition with_attempt :: "operation_record \<Rightarrow> string \<Rightarrow> nat \<Rightarrow> operation_record" where
  "with_attempt r stage n = r\<lparr>op_attempts := sort_key fst (dict_set stage n (op_attempts r))\<rparr>"

abbreviation terminal :: "operation_record \<Rightarrow> bool" where
  "terminal r \<equiv> op_state r \<in> set TERMINAL_STATES"

text \<open>\<open>replace(record, \<dots>, revision=record.revision + 1, updated_at=\<dots>)\<close>.\<close>

definition revised :: "int \<Rightarrow> operation_record \<Rightarrow> operation_record" where
  "revised now r = r\<lparr>op_revision := op_revision r + 1, op_updated_at := format_utc_timestamp now\<rparr>"

definition finished :: "operation_state \<Rightarrow> string option \<Rightarrow> int \<Rightarrow> operation_record \<Rightarrow> operation_record" where
  "finished st err now r = revised now (r\<lparr>op_active := None, op_state := st, op_error := err\<rparr>)"

subsection \<open>The store\<close>

record op_store =
  os_records :: "(string \<times> string, operation_record) dict"
  os_idempotency :: "(string \<times> string, string) dict"

definition new_op_store :: op_store where
  "new_op_store = \<lparr>os_records = [], os_idempotency = []\<rparr>"

definition get_operation :: "op_store \<Rightarrow> string \<times> string \<Rightarrow> operation_record option" where
  "get_operation s key = map_of (os_records s) key"

definition put_operation :: "string \<times> string \<Rightarrow> operation_record \<Rightarrow> op_store \<Rightarrow> op_store" where
  "put_operation key r s = s\<lparr>os_records := dict_set key r (os_records s)\<rparr>"

definition request_key :: "runtime_request \<Rightarrow> string \<times> string" where
  "request_key q = (rt_workspace_id q, rt_operation_id q)"

definition same_binding :: "runtime_request \<Rightarrow> pipeline \<Rightarrow> operation_record \<Rightarrow> bool" where
  "same_binding q p r \<longleftrightarrow>
     (op_actor_id r, op_request_type r, op_generation_id r, op_deadline_at r, op_pipeline_id r, op_stages r) =
     (rt_actor_id q, rt_request_type q, rt_generation_id q, rt_deadline_at q, pd_pipeline_id p, pd_stages p)"

definition fresh_record :: "runtime_request \<Rightarrow> pipeline \<Rightarrow> int \<Rightarrow> operation_record" where
  "fresh_record q p now =
     \<lparr>op_operation_id = rt_operation_id q, op_idempotency_key = rt_idempotency_key q, op_workspace_id = rt_workspace_id q,
      op_actor_id = rt_actor_id q, op_request_type = rt_request_type q, op_generation_id = rt_generation_id q,
      op_deadline_at = rt_deadline_at q, op_pipeline_id = pd_pipeline_id p, op_stages = pd_stages p, op_state = RECEIVED,
      op_stage_index = 0, op_refs = [], op_attempts = [], op_revision = 0, op_created_at = format_utc_timestamp now,
      op_updated_at = format_utc_timestamp now, op_cancellation = None, op_active = None, op_error = None\<rparr>"

definition register_new :: "op_store \<Rightarrow> runtime_request \<Rightarrow> pipeline \<Rightarrow> int \<Rightarrow> operation_record res \<times> op_store" where
  "register_new s q p now =
     (case get_operation s (request_key q) of
        Some r \<Rightarrow> (if same_binding q p r then Inr r else Inl (OperationConflict ''operation_binding_mismatch''), s)
      | None \<Rightarrow>
          let r = fresh_record q p now; s1 = put_operation (request_key q) r s in
          (Inr r, s1\<lparr>os_idempotency := dict_set (rt_workspace_id q, rt_idempotency_key q) (rt_operation_id q) (os_idempotency s1)\<rparr>))"

definition register_operation :: "op_store \<Rightarrow> runtime_request \<Rightarrow> pipeline \<Rightarrow> int \<Rightarrow> operation_record res \<times> op_store" where
  "register_operation s q p now =
     (case map_of (os_idempotency s) (rt_workspace_id q, rt_idempotency_key q) of
        Some x \<Rightarrow> if x \<noteq> rt_operation_id q then (Inl (OperationConflict ''idempotency_payload_mismatch''), s)
                  else register_new s q p now
      | None \<Rightarrow> register_new s q p now)"

definition normalize_terminal :: "operation_record \<Rightarrow> int \<Rightarrow> operation_record res" where
  "normalize_terminal r now =
     (if terminal r then Inr r
      else if op_cancellation r \<noteq> None \<and> op_active r = None
      then Inr (revised now (r\<lparr>op_state := CANCELLED, op_error := Some ''cancelled''\<rparr>))
      else
        bindR (parse_utc_timestamp (op_deadline_at r)) (\<lambda>deadline.
        if now \<ge> deadline \<and> op_active r = None
        then Inr (revised now (r\<lparr>op_state := FAILED, op_error := Some ''deadline_exceeded''\<rparr>))
        else if op_stage_index r \<ge> length (op_stages r) \<and> op_active r = None
        then Inr (revised now (r\<lparr>op_state := COMPLETED, op_error := None\<rparr>))
        else Inr r))"

text \<open>The lease of a claim that has expired is dropped.\<close>

definition drop_expired :: "operation_record \<Rightarrow> int \<Rightarrow> operation_record" where
  "drop_expired r now =
     (case op_active r of
        Some a \<Rightarrow> if ac_lease_expires_at a \<le> now then revised now (r\<lparr>op_active := None\<rparr>) else r
      | None \<Rightarrow> r)"

text \<open>A write that stores what is stored already, which the code skips, changes nothing.\<close>

definition refresh :: "op_store \<Rightarrow> string \<times> string \<Rightarrow> int \<Rightarrow> operation_record option res \<times> op_store" where
  "refresh s key now =
     (case get_operation s key of
        None \<Rightarrow> (Inr None, s)
      | Some r \<Rightarrow>
          stop s (normalize_terminal (drop_expired r now) now) (\<lambda>r'. (Inr (Some r'), put_operation key r' s)))"

definition MAX_CANCELLATION_CLOCK_SKEW :: int where
  "MAX_CANCELLATION_CLOCK_SKEW = 300"

definition cancel_record :: "operation_record \<Rightarrow> cancellation_signal \<Rightarrow> int \<Rightarrow> operation_record" where
  "cancel_record r c now =
     (let u = revised now (r\<lparr>op_cancellation := Some c\<rparr>) in
      if \<not> terminal u \<and> op_active u = None
      then u\<lparr>op_state := CANCELLED, op_error := Some ''cancelled'', op_revision := op_revision u + 1\<rparr>
      else u)"

definition request_cancel :: "op_store \<Rightarrow> cancellation_signal \<Rightarrow> int \<Rightarrow> operation_record option res \<times> op_store" where
  "request_cancel s c now =
     (let key = (cs_workspace_id c, cs_operation_id c) in
      case get_operation s key of
        None \<Rightarrow> (Inr None, s)
      | Some r \<Rightarrow>
          if cs_actor_id c \<noteq> op_actor_id r then (Inl (OperationConflict ''cancellation_actor_mismatch''), s)
          else
            stop s (parse_utc_timestamp (cs_requested_at c)) (\<lambda>requested_at.
            stop s (parse_utc_timestamp (op_created_at r)) (\<lambda>created_at.
            if requested_at < created_at then (Inl (OperationConflict ''cancellation_precedes_operation''), s)
            else if requested_at > now + MAX_CANCELLATION_CLOCK_SKEW
            then (Inl (OperationConflict ''cancellation_timestamp_too_far_in_future''), s)
            else if terminal r \<or> op_cancellation r \<noteq> None then (Inr (Some r), s)
            else let u = cancel_record r c now in (Inr (Some u), put_operation key u s))))"

definition is_cancelled :: "op_store \<Rightarrow> string \<times> string \<Rightarrow> bool" where
  "is_cancelled s key = (case get_operation s key of None \<Rightarrow> False | Some r \<Rightarrow> op_cancellation r \<noteq> None)"

subsection \<open>Claims\<close>

datatype claim_outcome = Terminal | Busy | Claimed stage_claim

definition CLAIM_DOMAIN :: bytes where
  "CLAIM_DOMAIN = ''wiki.runtime.stage-claim.v1'' @ [CHR 0x00]"

definition claim_body :: "operation_record \<Rightarrow> string \<Rightarrow> nat \<Rightarrow> string \<Rightarrow> string \<Rightarrow> pyval" where
  "claim_body r stage attempt request_id input = pdict
     [(''operation_id'', PStr (op_operation_id r)), (''stage_name'', PStr stage), (''attempt'', PStr (str_nat attempt)),
      (''request_id'', PStr request_id), (''input_digest'', PStr input)]"

text \<open>The end of \<open>claim_next\<close>: a new claim on the next stage of a record that is neither terminal nor claimed.\<close>

definition claim_stage ::
    "lib \<Rightarrow> op_store \<Rightarrow> string \<times> string \<Rightarrow> operation_record \<Rightarrow> string \<Rightarrow> int \<Rightarrow> int \<Rightarrow> string \<Rightarrow> nat \<Rightarrow> bool \<Rightarrow>
     (operation_record \<times> claim_outcome) res \<times> op_store" where
  "claim_stage L s key r request_id now lease input max_attempts allow_exhausted =
     (if \<not> op_stage_index r < length (op_stages r) then (Inl IndexError, s)
      else
        let stage = op_stages r ! op_stage_index r in
        if attempt_for r stage \<ge> max_attempts \<and> \<not> allow_exhausted
        then let u = finished FAILED (Some ''retry_budget_exhausted'') now r in (Inr (u, Terminal), put_operation key u s)
        else
          let attempt = attempt_for r stage + 1 in
          stop s (rt_hash L CLAIM_DOMAIN (claim_body r stage attempt request_id input)) (\<lambda>token.
          stop s (parse_utc_timestamp (op_deadline_at r)) (\<lambda>deadline.
          let a = \<lparr>ac_token = token, ac_request_id = request_id, ac_stage_name = stage, ac_attempt = attempt,
                   ac_lease_expires_at = min deadline (now + lease), ac_input_digest = input\<rparr>;
              u = revised now ((with_attempt r stage attempt)\<lparr>op_active := Some a\<rparr>) in
          (Inr (u, Claimed \<lparr>sc_token = token, sc_stage_name = stage, sc_attempt = attempt, sc_input_digest = input\<rparr>),
           put_operation key u s))))"

definition claim_next ::
    "lib \<Rightarrow> op_store \<Rightarrow> string \<times> string \<Rightarrow> string \<Rightarrow> int \<Rightarrow> int \<Rightarrow> string \<Rightarrow> nat \<Rightarrow> bool \<Rightarrow>
     (operation_record \<times> claim_outcome) res \<times> op_store" where
  "claim_next L s key request_id now lease input max_attempts allow_exhausted =
     (case get_operation s key of
        None \<Rightarrow> (Inl KeyError, s)
      | Some r0 \<Rightarrow>
          let r1 = drop_expired r0 now; s1 = put_operation key r1 s in
          stop s1 (normalize_terminal r1 now) (\<lambda>r.
          let s2 = put_operation key r s1 in
          if terminal r then (Inr (r, Terminal), s2)
          else if (case op_active r of None \<Rightarrow> False | Some a \<Rightarrow> ac_lease_expires_at a > now) then (Inr (r, Busy), s2)
          else claim_stage L s2 key r request_id now lease input max_attempts allow_exhausted))"

definition require_claim :: "operation_record \<Rightarrow> stage_claim \<Rightarrow> int option \<Rightarrow> active_claim res" where
  "require_claim r c now =
     (case op_active r of
        None \<Rightarrow> Inl StageClaimConflict
      | Some a \<Rightarrow>
          if ac_token a \<noteq> sc_token c then Inl StageClaimConflict
          else if ac_stage_name a \<noteq> sc_stage_name c \<or> ac_attempt a \<noteq> sc_attempt c \<or> ac_input_digest a \<noteq> sc_input_digest c
          then Inl StageClaimConflict
          else if (case now of None \<Rightarrow> False | Some t \<Rightarrow> ac_lease_expires_at a \<le> t) then Inl StageClaimConflict
          else Inr a)"

text \<open>
  What commit, release and fail begin with: the record, whether the deadline is reached, and that the claim is the
  current one; its lease may have run out when the operation is cancelled or past its deadline.
\<close>

definition claimed_record :: "op_store \<Rightarrow> string \<times> string \<Rightarrow> stage_claim \<Rightarrow> bool \<Rightarrow> int \<Rightarrow> (operation_record \<times> bool) res" where
  "claimed_record s key c allow_expired now =
     (case get_operation s key of
        None \<Rightarrow> Inl KeyError
      | Some r \<Rightarrow>
          bindR (parse_utc_timestamp (op_deadline_at r)) (\<lambda>deadline.
          bindR (require_claim r c (if allow_expired \<or> op_cancellation r \<noteq> None \<or> now \<ge> deadline then None else Some now)) (\<lambda>_.
          Inr (r, now \<ge> deadline))))"

definition committed :: "operation_record \<Rightarrow> stage_ref \<Rightarrow> stage_disposition \<Rightarrow> string option \<Rightarrow> (operation_state \<times> string option) res" where
  "committed r ref d err =
     (case operation_state_of (sr_stage_name ref) of
        None \<Rightarrow> Inl ValueError
      | Some st \<Rightarrow>
          let final = op_stage_index r + 1 \<ge> length (op_stages r);
              or_else = (\<lambda>e code. case e of Some (c # cs) \<Rightarrow> Some (c # cs) | _ \<Rightarrow> Some code) in
          (case d of
             REJECT \<Rightarrow> Inr (REJECTED, or_else err ''stage_rejected'')
           | ABSTAIN \<Rightarrow> Inr (ABSTAINED, or_else err ''stage_abstained'')
           | DEGRADE \<Rightarrow> Inr (DEGRADED, or_else err ''stage_degraded'')
           | COMPLETE \<Rightarrow> if \<not> final then Inl (OperationConflict ''early_stage_completion_denied'') else Inr (COMPLETED, None)
           | CONTINUE \<Rightarrow> if final then Inr (COMPLETED, None) else Inr (st, err)))"

definition commit_stage ::
    "op_store \<Rightarrow> string \<times> string \<Rightarrow> stage_claim \<Rightarrow> stage_ref \<Rightarrow> stage_disposition \<Rightarrow> string option \<Rightarrow> int \<Rightarrow>
     operation_record res \<times> op_store" where
  "commit_stage s key c ref d err now =
     stop s (claimed_record s key c False now) (\<lambda>(r, late).
     if sr_operation_id ref \<noteq> snd key then (Inl StageClaimConflict, s)
     else if sr_stage_name ref \<noteq> sc_stage_name c \<or> sr_input_digest ref \<noteq> sc_input_digest c then (Inl StageClaimConflict, s)
     else if op_cancellation r \<noteq> None
     then let u = finished CANCELLED (Some ''cancelled'') now r in (Inr u, put_operation key u s)
     else if late then let u = finished FAILED (Some ''deadline_exceeded'') now r in (Inr u, put_operation key u s)
     else if sr_stage_name ref \<in> set (map sr_stage_name (op_refs r)) then (Inl StageClaimConflict, s)
     else
       stop s (committed r ref d err) (\<lambda>(st, e).
       let u = finished st e now (r\<lparr>op_stage_index := op_stage_index r + 1, op_refs := op_refs r @ [ref]\<rparr>) in
       (Inr u, put_operation key u s)))"

definition release_transient :: "op_store \<Rightarrow> string \<times> string \<Rightarrow> stage_claim \<Rightarrow> string \<Rightarrow> int \<Rightarrow> operation_record res \<times> op_store" where
  "release_transient s key c err now =
     stop s (claimed_record s key c False now) (\<lambda>(r, late).
     let u = (if op_cancellation r \<noteq> None then finished CANCELLED (Some ''cancelled'') now r
              else if late then finished FAILED (Some ''deadline_exceeded'') now r
              else revised now (r\<lparr>op_active := None, op_error := Some err\<rparr>)) in
     (Inr u, put_operation key u s))"

definition fail_stage :: "op_store \<Rightarrow> string \<times> string \<Rightarrow> stage_claim \<Rightarrow> string \<Rightarrow> int \<Rightarrow> bool \<Rightarrow> operation_record res \<times> op_store" where
  "fail_stage s key c err now allow_expired =
     stop s (claimed_record s key c allow_expired now) (\<lambda>(r, late).
     let u = (if op_cancellation r \<noteq> None then finished CANCELLED (Some ''cancelled'') now r
              else finished FAILED (Some (if late then ''deadline_exceeded'' else err)) now r) in
     (Inr u, put_operation key u s))"

subsection \<open>Well-formed records\<close>

text \<open>Error codes as the runtime's contracts accept them, and references that were parsed.\<close>

definition code_ok :: "lib \<Rightarrow> string \<Rightarrow> bool" where
  "code_ok L e \<longleftrightarrow> rt_safe_code L e = Inr e"

definition ref_ok :: "lib \<Rightarrow> stage_ref \<Rightarrow> bool" where
  "ref_ok L r \<longleftrightarrow> reparse_ref L r = Inr r"

definition time_ok :: "string \<Rightarrow> bool" where
  "time_ok t \<longleftrightarrow> isOk (parse_utc_timestamp t)"

text \<open>
  The results of a record are those of the first stages of its pipeline. While an operation runs its state is the last
  of them; a completed one has them all. A claim is on the next stage, with the current attempt, and ends with the deadline.
\<close>

definition progress_ok :: "operation_record \<Rightarrow> bool" where
  "progress_ok r \<longleftrightarrow>
     stages_ok (op_stages r) \<and> op_stage_index r \<le> length (op_stages r) \<and>
     map sr_stage_name (op_refs r) = take (op_stage_index r) (op_stages r) \<and>
     (if terminal r then
        (op_state r = COMPLETED \<longrightarrow> op_stage_index r = length (op_stages r)) \<and>
        (op_state r \<in> {REJECTED, ABSTAINED, DEGRADED} \<longrightarrow> 0 < op_stage_index r)
      else op_stage_index r < length (op_stages r) \<and>
        (if op_stage_index r = 0 then op_state r = RECEIVED
         else op_state r \<in> set STAGE_STATES \<and> op_state_value (op_state r) = op_stages r ! (op_stage_index r - 1)))"

definition ending_ok :: "lib \<Rightarrow> operation_record \<Rightarrow> bool" where
  "ending_ok L r \<longleftrightarrow>
     (terminal r \<longrightarrow> op_active r = None \<and> (op_state r = COMPLETED \<longleftrightarrow> op_error r = None)) \<and>
     (\<forall>e. op_error r = Some e \<longrightarrow> code_ok L e)"

definition claim_ok :: "operation_record \<Rightarrow> bool" where
  "claim_ok r \<longleftrightarrow> distinct (dict_keys (op_attempts r)) \<and>
     (case op_active r of
        None \<Rightarrow> True
      | Some a \<Rightarrow>
          ac_stage_name a = op_stages r ! op_stage_index r \<and> ac_attempt a = attempt_for r (ac_stage_name a) \<and>
          (\<forall>d. parse_utc_timestamp (op_deadline_at r) = Inr d \<longrightarrow> ac_lease_expires_at a \<le> d))"

definition texts_ok :: "lib \<Rightarrow> operation_record \<Rightarrow> bool" where
  "texts_ok L r \<longleftrightarrow>
     rt_hex64 L (op_operation_id r) = Inr (op_operation_id r) \<and> rt_nonempty L (op_workspace_id r) = Inr (op_workspace_id r) \<and>
     time_ok (op_deadline_at r) \<and> time_ok (op_created_at r) \<and> time_ok (op_updated_at r) \<and>
     (\<forall>c. op_cancellation r = Some c \<longrightarrow> rt_hex64 L (cs_cancellation_id c) = Inr (cs_cancellation_id c)) \<and>
     (\<forall>x\<in>set (op_refs r). sr_operation_id x = op_operation_id r \<and> ref_ok L x)"

definition record_ok :: "lib \<Rightarrow> operation_record \<Rightarrow> bool" where
  "record_ok L r \<longleftrightarrow> progress_ok r \<and> ending_ok L r \<and> claim_ok r \<and> texts_ok L r"

definition store_ok :: "lib \<Rightarrow> op_store \<Rightarrow> bool" where
  "store_ok L s \<longleftrightarrow>
     (\<forall>key r. get_operation s key = Some r \<longrightarrow> record_ok L r \<and> key = (op_workspace_id r, op_operation_id r))"

lemmas record_defs = progress_ok_def ending_ok_def claim_ok_def texts_ok_def

text \<open>What is passed to the store: parsed requests, pipelines, signals, references and codes, and a clock within four-digit years.\<close>

definition request_ok :: "lib \<Rightarrow> runtime_request \<Rightarrow> bool" where
  "request_ok L q \<longleftrightarrow> reparse_request L q = Inr q"

definition signal_ok :: "lib \<Rightarrow> cancellation_signal \<Rightarrow> bool" where
  "signal_ok L c \<longleftrightarrow> reparse_signal L c = Inr c"

lemma request_okD:
  assumes "request_ok L q"
  shows "rt_hex64 L (rt_operation_id q) = Inr (rt_operation_id q)" "rt_nonempty L (rt_workspace_id q) = Inr (rt_workspace_id q)"
    "rt_nonempty L (rt_request_id q) = Inr (rt_request_id q)" "rt_optional (rt_nonempty L) (rt_generation_id q) = Inr (rt_generation_id q)"
    "time_ok (rt_deadline_at q)"
proof -
  show "rt_hex64 L (rt_operation_id q) = Inr (rt_operation_id q)" "rt_nonempty L (rt_workspace_id q) = Inr (rt_workspace_id q)"
    "rt_nonempty L (rt_request_id q) = Inr (rt_request_id q)" "rt_optional (rt_nonempty L) (rt_generation_id q) = Inr (rt_generation_id q)"
    "time_ok (rt_deadline_at q)"
    using assms unfolding request_ok_def reparse_request_def Let_def bindR_Inr_iff guardR_Inr_iff
    by (elim exE conjE, cases q, auto simp: time_ok_def isOk_def)+
qed

lemma signal_okD: "signal_ok L c \<Longrightarrow> rt_hex64 L (cs_cancellation_id c) = Inr (cs_cancellation_id c)"
  unfolding signal_ok_def reparse_signal_def Let_def bindR_Inr_iff guardR_Inr_iff by (elim exE conjE, cases c) auto

lemma terminal_simps [simp]:
  "COMPLETED \<in> set TERMINAL_STATES" "REJECTED \<in> set TERMINAL_STATES" "ABSTAINED \<in> set TERMINAL_STATES" "DEGRADED \<in> set TERMINAL_STATES"
  "FAILED \<in> set TERMINAL_STATES" "CANCELLED \<in> set TERMINAL_STATES" "RECEIVED \<notin> set TERMINAL_STATES"
  "st \<in> set STAGE_STATES \<Longrightarrow> st \<notin> set TERMINAL_STATES" "RECEIVED \<notin> set STAGE_STATES" "COMPLETED \<notin> set STAGE_STATES"
  by (auto simp: TERMINAL_STATES_def STAGE_STATES_def)

lemma fixed_codes [simp]:
  assumes "nfc_ascii L"
  shows "code_ok L ''cancelled''" "code_ok L ''deadline_exceeded''" "code_ok L ''retry_budget_exhausted''"
    "code_ok L ''stage_rejected''" "code_ok L ''stage_abstained''" "code_ok L ''stage_degraded''"
  by (simp_all add: code_ok_def nfc_asciiD [OF assms] is_safe_code_def lower_char_def)

lemma time_ok_format [simp]: "in_years now \<Longrightarrow> time_ok (format_utc_timestamp now)"
  by (simp add: time_ok_def isOk_def parse_format)

lemma attempt_for_updates [simp]:
  "attempt_for (r\<lparr>op_active := a\<rparr>) = attempt_for r" "attempt_for (r\<lparr>op_state := st\<rparr>) = attempt_for r"
  "attempt_for (r\<lparr>op_error := e\<rparr>) = attempt_for r" "attempt_for (r\<lparr>op_revision := n\<rparr>) = attempt_for r"
  "attempt_for (r\<lparr>op_updated_at := t\<rparr>) = attempt_for r" "attempt_for (r\<lparr>op_cancellation := c\<rparr>) = attempt_for r"
  "attempt_for (r\<lparr>op_stage_index := n\<rparr>) = attempt_for r" "attempt_for (r\<lparr>op_refs := xs\<rparr>) = attempt_for r"
  by (simp_all add: attempt_for_def fun_eq_iff)

subsection \<open>How a record evolves\<close>

text \<open>
  A record keeps its identity, its results and its first cancellation; a terminal one keeps everything. Attempts are only
  counted up, and a new claim has a new attempt.
\<close>

definition evolves :: "operation_record \<Rightarrow> operation_record \<Rightarrow> bool" where
  "evolves r r' \<longleftrightarrow>
     (terminal r \<longrightarrow> r' = r) \<and>
     (op_operation_id r', op_idempotency_key r', op_workspace_id r', op_actor_id r', op_request_type r', op_generation_id r',
      op_deadline_at r', op_pipeline_id r', op_stages r', op_created_at r') =
     (op_operation_id r, op_idempotency_key r, op_workspace_id r, op_actor_id r, op_request_type r, op_generation_id r,
      op_deadline_at r, op_pipeline_id r, op_stages r, op_created_at r) \<and>
     (\<exists>new. op_refs r' = op_refs r @ new) \<and> op_revision r \<le> op_revision r' \<and>
     (op_cancellation r \<noteq> None \<longrightarrow> op_cancellation r' = op_cancellation r) \<and>
     (\<forall>st. attempt_for r st \<le> attempt_for r' st) \<and>
     (\<forall>a. op_active r' = Some a \<longrightarrow> op_active r = Some a \<or> attempt_for r (ac_stage_name a) < ac_attempt a)"

lemma evolves_refl [simp]: "evolves r r"
  by (simp add: evolves_def)

lemma evolves_trans: "evolves a b \<Longrightarrow> evolves b c \<Longrightarrow> evolves a c"
proof (cases "terminal a")
  case False
  assume ab: "evolves a b" and bc: "evolves b c"
  have act: "op_active a = Some x \<or> attempt_for a (ac_stage_name x) < ac_attempt x" if "op_active c = Some x" for x
    using ab bc that unfolding evolves_def by (meson le_less_trans)
  have "attempt_for a st \<le> attempt_for c st" for st using ab bc unfolding evolves_def by (meson order_trans)
  moreover have "\<exists>new. op_refs c = op_refs a @ new" using ab bc unfolding evolves_def by (metis append.assoc)
  ultimately show ?thesis using False act ab bc unfolding evolves_def by auto
qed (auto simp: evolves_def)

lemma evolves_finished [simp]: "\<not> terminal r \<Longrightarrow> evolves r (finished st e now r)"
  by (simp add: evolves_def finished_def revised_def)

lemma finished_ok:
  assumes "record_ok L r" "\<not> terminal r" "code_ok L e" "in_years now" "st \<in> {FAILED, CANCELLED}"
  shows "record_ok L (finished st (Some e) now r)"
  using assms by (auto simp: record_ok_def record_defs finished_def revised_def)

lemma unclaimed_ok:
  assumes "record_ok L r" "in_years now"
  shows "record_ok L (revised now (r\<lparr>op_active := None\<rparr>))"
  using assms unfolding record_ok_def record_defs revised_def by simp

lemma drop_expired_cases: "drop_expired r now = r \<or> drop_expired r now = revised now (r\<lparr>op_active := None\<rparr>) \<and> op_active r \<noteq> None"
  by (auto simp: drop_expired_def split: option.splits)

lemma drop_expired_ok:
  assumes "record_ok L r" "in_years now"
  shows "record_ok L (drop_expired r now)" "evolves r (drop_expired r now)"
    "op_active (drop_expired r now) = Some a \<Longrightarrow> now < ac_lease_expires_at a" "op_state (drop_expired r now) = op_state r"
proof -
  have "terminal r \<Longrightarrow> op_active r = None" using assms(1) by (simp add: record_ok_def ending_ok_def)
  then show "record_ok L (drop_expired r now)" "evolves r (drop_expired r now)" "op_state (drop_expired r now) = op_state r"
    using drop_expired_cases [of r now] assms(1) unclaimed_ok [OF assms] by (auto simp: evolves_def revised_def)
  show "now < ac_lease_expires_at a" if "op_active (drop_expired r now) = Some a"
    using that by (cases "op_active r") (auto simp: drop_expired_def revised_def split: if_splits)
qed

lemma normalize_terminal_ok:
  assumes "nfc_ascii L" "record_ok L r" "in_years now"
  shows "\<exists>r'. normalize_terminal r now = Inr r' \<and> record_ok L r' \<and> evolves r r' \<and> (\<not> terminal r' \<longrightarrow> r' = r)"
proof -
  obtain d where d: "parse_utc_timestamp (op_deadline_at r) = Inr d"
    using assms(2) by (auto simp: record_ok_def texts_ok_def time_ok_def isOk_def split: sum.splits)
  have idx: "\<not> terminal r \<Longrightarrow> op_stage_index r < length (op_stages r)"
    using assms(2) by (simp add: record_ok_def progress_ok_def)
  have "op_active r = None \<Longrightarrow> revised now (r\<lparr>op_state := st, op_error := e\<rparr>) = finished st e now r" for st e
    by (simp add: finished_def revised_def)
  moreover have "\<not> terminal (finished st e now r) \<longleftrightarrow> st \<notin> set TERMINAL_STATES" for st e by (simp add: finished_def revised_def)
  ultimately show ?thesis
    using assms idx d finished_ok [OF assms(2) _ _ assms(3)] by (auto simp: normalize_terminal_def)
qed

lemma normalize_terminal_live:
  assumes "normalize_terminal r now = Inr r'" "\<not> terminal r'" "op_active r = None"
  shows "op_cancellation r = None" "parse_utc_timestamp (op_deadline_at r) = Inr d \<Longrightarrow> now < d"
  using assms by (auto simp: normalize_terminal_def revised_def split: if_splits)

lemma cancel_record_ok:
  assumes "nfc_ascii L" "record_ok L r" "signal_ok L c" "in_years now" "\<not> terminal r" "op_cancellation r = None"
  shows "record_ok L (cancel_record r c now)" "evolves r (cancel_record r c now)"
  using assms signal_okD [OF assms(3)]
  by (auto simp: record_ok_def record_defs cancel_record_def revised_def evolves_def Let_def)

lemma with_attempt_simps:
  assumes "distinct (dict_keys (op_attempts r))"
  shows "distinct (dict_keys (op_attempts (with_attempt r st n)))" "attempt_for (with_attempt r st n) k = (if k = st then n else attempt_for r k)"
proof -
  have d: "distinct (dict_keys (dict_set st n (op_attempts r)))" by (rule distinct_keys_set [OF assms])
  then have e: "distinct (dict_keys (sort_key fst (dict_set st n (op_attempts r))))"
    by (subst mset_eq_imp_distinct_iff [of _ "dict_keys (dict_set st n (op_attempts r))"]) simp_all
  then show "distinct (dict_keys (op_attempts (with_attempt r st n)))" by (simp add: with_attempt_def)
  have "map_of (sort_key fst (dict_set st n (op_attempts r))) = map_of (dict_set st n (op_attempts r))"
    by (rule map_of_inject_set [THEN iffD2, OF e d]) simp
  then show "attempt_for (with_attempt r st n) k = (if k = st then n else attempt_for r k)"
    by (simp add: attempt_for_def with_attempt_def dict_simps)
qed

lemma state_of_stage: "name \<in> set STAGE_NAMES \<Longrightarrow> \<exists>st\<in>set STAGE_STATES. operation_state_of name = Some st \<and> op_state_value st = name"
  by (auto simp: STAGE_NAMES_def STAGE_STATES_def operation_state_of_def ALL_STATES_def TERMINAL_STATES_def)

lemma require_claimD:
  assumes "require_claim r c now = Inr a"
  shows "op_active r = Some a" "ac_token a = sc_token c" "ac_stage_name a = sc_stage_name c" "ac_attempt a = sc_attempt c"
    "ac_input_digest a = sc_input_digest c"
  using assms by (auto simp: require_claim_def split: option.splits if_splits)

text \<open>The current claim of a record: what commit, release and fail insist on.\<close>

definition holds_claim :: "operation_record \<Rightarrow> stage_claim \<Rightarrow> bool" where
  "holds_claim r c \<longleftrightarrow> (\<exists>a. op_active r = Some a \<and> ac_token a = sc_token c \<and> ac_stage_name a = sc_stage_name c \<and>
     ac_attempt a = sc_attempt c \<and> ac_input_digest a = sc_input_digest c)"

lemma claimed_recordD:
  assumes "claimed_record s key c x now = Inr (r, late)"
  shows "get_operation s key = Some r" "holds_claim r c"
  using assms by (auto simp: claimed_record_def holds_claim_def bindR_Inr_iff dest: require_claimD split: option.splits)

lemma holds_claim_running:
  assumes "record_ok L r" "holds_claim r c"
  shows "\<not> terminal r" "op_stage_index r < length (op_stages r)" "sc_stage_name c = op_stages r ! op_stage_index r"
proof -
  show "\<not> terminal r" using assms by (auto simp: record_ok_def ending_ok_def holds_claim_def)
  with assms show "op_stage_index r < length (op_stages r)" "sc_stage_name c = op_stages r ! op_stage_index r"
    by (auto simp: record_ok_def progress_ok_def claim_ok_def holds_claim_def)
qed

lemma committed_ok:
  assumes L: "nfc_ascii L" and r: "record_ok L r" "holds_claim r c" and ref: "ref_ok L ref" "sr_operation_id ref = op_operation_id r"
      "sr_stage_name ref = sc_stage_name c"
    and err: "\<forall>e. err = Some e \<longrightarrow> code_ok L e" and "in_years now" and com: "committed r ref d err = Inr (st, e)"
  defines "u \<equiv> finished st e now (r\<lparr>op_stage_index := op_stage_index r + 1, op_refs := op_refs r @ [ref]\<rparr>)"
  shows "record_ok L u" "evolves r u" "op_refs u = op_refs r @ [ref]"
proof -
  note run = holds_claim_running [OF r]
  have name: "sr_stage_name ref = op_stages r ! op_stage_index r" using run(3) ref(3) by simp
  moreover have "op_stages r ! op_stage_index r \<in> set STAGE_NAMES"
    using r(1) run(2) nth_mem unfolding record_ok_def progress_ok_def stages_ok_def by blast
  ultimately obtain s0 where s0: "s0 \<in> set STAGE_STATES" "operation_state_of (sr_stage_name ref) = Some s0"
      "op_state_value s0 = op_stages r ! op_stage_index r" using state_of_stage by metis
  have refs: "map sr_stage_name (op_refs r @ [ref]) = take (op_stage_index r + 1) (op_stages r)"
    using r(1) run(2) name by (simp add: record_ok_def progress_ok_def take_Suc_conv_app_nth)
  have cases: "st \<in> {REJECTED, ABSTAINED, DEGRADED} \<and> (\<exists>x. e = Some x \<and> code_ok L x) \<or>
      st = COMPLETED \<and> e = None \<and> op_stage_index r + 1 = length (op_stages r) \<or>
      st = s0 \<and> e = err \<and> op_stage_index r + 1 < length (op_stages r)"
    using com s0(2) run(2) err fixed_codes [OF L]
    by (auto simp: committed_def Let_def split: stage_disposition.splits option.splits list.splits if_splits)
  have u: "op_stages u = op_stages r" "op_stage_index u = Suc (op_stage_index r)" "op_state u = st" "op_refs u = op_refs r @ [ref]"
    by (simp_all add: u_def finished_def revised_def)
  have base: "stages_ok (op_stages r)" using r(1) by (simp add: record_ok_def progress_ok_def)
  have "map sr_stage_name (op_refs u) = take (op_stage_index u) (op_stages u)" using refs unfolding u by simp
  then have prog: "progress_ok u"
    using cases base run(2) s0(1,3) unfolding progress_ok_def u(1-3) by (elim disjE) auto
  moreover have "ending_ok L u" using cases err s0(1) unfolding ending_ok_def u_def finished_def revised_def by auto
  moreover have "claim_ok u" using r(1) unfolding record_ok_def claim_ok_def u_def finished_def revised_def by simp
  moreover have "texts_ok L u" using r(1) ref assms(8) unfolding record_ok_def texts_ok_def u_def finished_def revised_def by auto
  ultimately show "record_ok L u" by (simp add: record_ok_def)
  show "evolves r u" "op_refs u = op_refs r @ [ref]" using run(1) by (simp_all add: u_def evolves_def finished_def revised_def)
qed

lemma claim_record_ok:
  assumes "record_ok L r" "\<not> terminal r" "in_years now" "parse_utc_timestamp (op_deadline_at r) = Inr d" "ac_lease_expires_at a \<le> d"
    and "ac_stage_name a = op_stages r ! op_stage_index r" "ac_attempt a = n" "n = attempt_for r (ac_stage_name a) + 1"
  defines "u \<equiv> revised now ((with_attempt r (ac_stage_name a) n)\<lparr>op_active := Some a\<rparr>)"
  shows "record_ok L u" "evolves r u"
proof -
  have d: "distinct (dict_keys (op_attempts r))" using assms(1) by (simp add: record_ok_def claim_ok_def)
  note w = with_attempt_simps [OF d, of "ac_stage_name a" n]
  have same: "op_stages (with_attempt r x n) = op_stages r" "op_stage_index (with_attempt r x n) = op_stage_index r"
    "op_deadline_at (with_attempt r x n) = op_deadline_at r" for x by (simp_all add: with_attempt_def)
  have "claim_ok u" using assms(4-7) w by (simp add: claim_ok_def u_def revised_def same)
  moreover have "progress_ok u" "ending_ok L u" "texts_ok L u"
    using assms(1-3) unfolding record_ok_def progress_ok_def ending_ok_def texts_ok_def u_def revised_def with_attempt_def by simp_all
  ultimately show "record_ok L u" by (simp add: record_ok_def)
  show "evolves r u" using assms(2,7,8) w unfolding u_def evolves_def revised_def by (simp, simp add: with_attempt_def)
qed

subsection \<open>Every step keeps the store well-formed\<close>

definition store_evolves :: "op_store \<Rightarrow> op_store \<Rightarrow> bool" where
  "store_evolves s s' \<longleftrightarrow> (\<forall>key r. get_operation s key = Some r \<longrightarrow> (\<exists>r'. get_operation s' key = Some r' \<and> evolves r r'))"

definition kept_ok :: "lib \<Rightarrow> op_store \<Rightarrow> op_store \<Rightarrow> bool" where
  "kept_ok L s s' \<longleftrightarrow> store_ok L s' \<and> store_evolves s s'"

lemma get_put [simp]: "get_operation (put_operation key r s) k = (if k = key then Some r else get_operation s k)"
  by (simp add: get_operation_def put_operation_def dict_simps)

lemma kept_refl: "store_ok L s \<Longrightarrow> kept_ok L s s"
  by (auto simp: kept_ok_def store_evolves_def)

lemma kept_trans: "kept_ok L s s' \<Longrightarrow> kept_ok L s' s'' \<Longrightarrow> kept_ok L s s''"
  unfolding kept_ok_def store_evolves_def by (meson evolves_trans)

lemma kept_put:
  assumes "store_ok L s" "get_operation s key = Some r" "record_ok L r'" "evolves r r'"
  shows "kept_ok L s (put_operation key r' s)"
  using assms by (auto simp: kept_ok_def store_ok_def store_evolves_def) (auto simp: evolves_def)

lemma store_okD: "store_ok L s \<Longrightarrow> get_operation s key = Some r \<Longrightarrow> record_ok L r \<and> key = (op_workspace_id r, op_operation_id r)"
  unfolding store_ok_def by blast

lemma stop_kept:
  assumes "store_ok L s" "\<And>a. x = Inr a \<Longrightarrow> kept_ok L s (snd (f a))"
  shows "kept_ok L s (snd (stop s x f))"
  using assms kept_refl by (cases x) auto

lemma fresh_record_ok:
  assumes "request_ok L q" "stages_ok (pd_stages p)" "in_years now"
  shows "record_ok L (fresh_record q p now)"
  using assms request_okD [OF assms(1)]
  by (auto simp: record_ok_def record_defs fresh_record_def stages_ok_def Let_def)

lemma register_kept:
  assumes "store_ok L s" "request_ok L q" "stages_ok (pd_stages p)" "in_years now"
  shows "kept_ok L s (snd (register_operation s q p now))"
proof -
  have "kept_ok L s (snd (register_new s q p now))"
  proof (cases "get_operation s (request_key q)")
    case None
    let ?s1 = "snd (register_new s q p now)"
    have g: "get_operation ?s1 k = (if k = request_key q then Some (fresh_record q p now) else get_operation s k)" for k
      using None by (simp add: register_new_def get_operation_def put_operation_def Let_def dict_simps)
    have key: "request_key q = (op_workspace_id (fresh_record q p now), op_operation_id (fresh_record q p now))"
      by (simp add: request_key_def fresh_record_def)
    show ?thesis unfolding kept_ok_def store_ok_def store_evolves_def g
      using None key fresh_record_ok [OF assms(2-4)] store_okD [OF assms(1)] by auto
  qed (simp add: register_new_def kept_refl [OF assms(1)])
  then show ?thesis using kept_refl [OF assms(1)] by (simp add: register_operation_def split: option.splits)
qed

lemma refresh_kept:
  assumes "nfc_ascii L" "store_ok L s" "in_years now"
  shows "kept_ok L s (snd (refresh s key now))"
proof (cases "get_operation s key")
  case (Some r)
  then have r: "record_ok L r" using store_okD [OF assms(2)] by blast
  note d = drop_expired_ok [OF r assms(3)]
  obtain r' where "normalize_terminal (drop_expired r now) now = Inr r'" "record_ok L r'" "evolves (drop_expired r now) r'"
    using normalize_terminal_ok [OF assms(1) d(1) assms(3)] by blast
  with kept_put [OF assms(2) Some] evolves_trans [OF d(2)] Some show ?thesis by (simp add: refresh_def)
qed (simp add: refresh_def kept_refl [OF assms(2)])

lemma cancel_kept:
  assumes "nfc_ascii L" "store_ok L s" "signal_ok L c" "in_years now"
  shows "kept_ok L s (snd (request_cancel s c now))"
proof (cases "get_operation s (cs_workspace_id c, cs_operation_id c)")
  case (Some r)
  then have r: "record_ok L r" using store_okD [OF assms(2)] by blast
  have "kept_ok L s (put_operation (cs_workspace_id c, cs_operation_id c) (cancel_record r c now) s)"
    if "\<not> terminal r" "op_cancellation r = None"
    using kept_put [OF assms(2) Some] cancel_record_ok [OF assms(1) r assms(3,4) that] by blast
  with kept_refl [OF assms(2)] Some show ?thesis
    unfolding request_cancel_def Let_def by (auto simp: stop_def split: sum.splits)
qed (simp add: request_cancel_def kept_refl [OF assms(2)])

lemma claim_stage_kept:
  assumes "nfc_ascii L" "store_ok L s" "in_years now" "get_operation s key = Some r" "\<not> terminal r"
  shows "kept_ok L s (snd (claim_stage L s key r request_id now lease input max_attempts exhausted))"
proof -
  have r: "record_ok L r" using store_okD [OF assms(2,4)] by blast
  have fin: "kept_ok L s (put_operation key (finished FAILED (Some ''retry_budget_exhausted'') now r) s)"
    by (rule kept_put [OF assms(2,4) finished_ok [OF r assms(5) _ assms(3)]]) (simp_all add: assms(1,5))
  have "kept_ok L s (put_operation key (revised now ((with_attempt r (op_stages r ! op_stage_index r) n)\<lparr>op_active := Some a\<rparr>)) s)"
    if "parse_utc_timestamp (op_deadline_at r) = Inr d" "ac_lease_expires_at a \<le> d" "ac_stage_name a = op_stages r ! op_stage_index r" "ac_attempt a = n" "n = attempt_for r (ac_stage_name a) + 1" for a n d
    using claim_record_ok [OF r assms(5,3) that] kept_put [OF assms(2,4)] unfolding that(3) by blast
  with fin kept_refl [OF assms(2)] show ?thesis
    by (auto simp: claim_stage_def Let_def stop_def split: sum.splits)
qed

lemma claim_kept:
  assumes "nfc_ascii L" "store_ok L s" "in_years now"
  shows "kept_ok L s (snd (claim_next L s key request_id now lease input max_attempts exhausted))"
proof (cases "get_operation s key")
  case (Some r0)
  then have r0: "record_ok L r0" using store_okD [OF assms(2)] by blast
  note d = drop_expired_ok [OF r0 assms(3)]
  let ?r1 = "drop_expired r0 now"
  let ?s1 = "put_operation key ?r1 s"
  have k1: "kept_ok L s ?s1" by (rule kept_put [OF assms(2) Some d(1,2)])
  obtain r where r: "normalize_terminal ?r1 now = Inr r" "record_ok L r" "evolves ?r1 r"
    using normalize_terminal_ok [OF assms(1) d(1) assms(3)] by blast
  let ?s2 = "put_operation key r ?s1"
  have k2: "kept_ok L ?s1 ?s2" by (rule kept_put [OF _ _ r(2,3)]) (use k1 in \<open>simp_all add: kept_ok_def\<close>)
  have "kept_ok L ?s2 (snd (claim_stage L ?s2 key r request_id now lease input max_attempts exhausted))" if "\<not> terminal r"
    by (rule claim_stage_kept [OF assms(1) _ assms(3) _ that]) (use k2 in \<open>simp_all add: kept_ok_def\<close>)
  then show ?thesis using Some r(1) kept_trans [OF k1 k2] kept_trans by (auto simp: claim_next_def Let_def split: option.splits)
qed (simp add: claim_next_def kept_refl [OF assms(2)])

text \<open>Ending a claimed stage: the operation is cancelled or fails.\<close>

lemma ended_kept:
  assumes "nfc_ascii L" "store_ok L s" "in_years now" "claimed_record s key c x now = Inr (r, late)" "code_ok L e" "st \<in> {FAILED, CANCELLED}"
  shows "kept_ok L s (put_operation key (finished st (Some e) now r) s)"
proof -
  note cr = claimed_recordD [OF assms(4)]
  have r: "record_ok L r" using store_okD [OF assms(2) cr(1)] by blast
  note run = holds_claim_running(1) [OF r cr(2)]
  show ?thesis by (rule kept_put [OF assms(2) cr(1) finished_ok [OF r run assms(5,3,6)]]) (simp add: run)
qed

text \<open>What a successful commit did: appended the result, or ended the operation without it.\<close>

lemma commit_stage_cases:
  assumes "commit_stage s key c ref d err now = (Inr u, s')"
  obtains (ended) r late st e where "claimed_record s key c False now = Inr (r, late)" "u = finished st (Some e) now r" "s' = put_operation key u s"
      "(st, e) = (if op_cancellation r \<noteq> None then (CANCELLED, ''cancelled'') else (FAILED, ''deadline_exceeded''))" "op_cancellation r \<noteq> None \<or> late"
    | (committed) r st e where "claimed_record s key c False now = Inr (r, False)" "sr_operation_id ref = snd key" "sr_stage_name ref = sc_stage_name c"
      "sr_input_digest ref = sc_input_digest c" "op_cancellation r = None" "committed r ref d err = Inr (st, e)"
      "u = finished st e now (r\<lparr>op_stage_index := op_stage_index r + 1, op_refs := op_refs r @ [ref]\<rparr>)" "s' = put_operation key u s"
proof -
  from assms obtain r late where cr: "claimed_record s key c False now = Inr (r, late)"
    unfolding commit_stage_def stop_Inr_iff by auto
  show thesis
  proof (cases "op_cancellation r \<noteq> None \<or> late")
    case True
    show thesis
    proof (cases "op_cancellation r")
      case None
      with True assms cr show thesis
        by (intro ended [of r late FAILED "''deadline_exceeded''"]) (auto simp: commit_stage_def Let_def split: if_splits)
    next
      case (Some y)
      with assms cr show thesis
        by (intro ended [of r late CANCELLED "''cancelled''"]) (auto simp: commit_stage_def Let_def split: if_splits)
    qed
  next
    case False
    with assms cr obtain st e where "committed r ref d err = Inr (st, e)"
        "u = finished st e now (r\<lparr>op_stage_index := op_stage_index r + 1, op_refs := op_refs r @ [ref]\<rparr>)" "s' = put_operation key u s"
        "sr_operation_id ref = snd key" "sr_stage_name ref = sc_stage_name c" "sr_input_digest ref = sc_input_digest c"
      by (auto simp: commit_stage_def Let_def stop_Inr_iff split: if_splits)
    with False cr show thesis by (intro committed) auto
  qed
qed

lemma commit_kept:
  assumes "nfc_ascii L" "store_ok L s" "ref_ok L ref" "\<forall>e. err = Some e \<longrightarrow> code_ok L e" "in_years now"
  shows "kept_ok L s (snd (commit_stage s key c ref d err now))"
proof (cases "fst (commit_stage s key c ref d err now)")
  case (Inl e)
  then have "snd (commit_stage s key c ref d err now) = s"
    by (auto simp: commit_stage_def Let_def stop_def split: sum.splits if_splits)
  with kept_refl [OF assms(2)] show ?thesis by simp
next
  case (Inr u)
  then have eq: "commit_stage s key c ref d err now = (Inr u, snd (commit_stage s key c ref d err now))" by (metis prod.collapse)
  show ?thesis
  proof (cases rule: commit_stage_cases [OF eq])
    case (1 r late st e)
    have "code_ok L e" "st \<in> {FAILED, CANCELLED}" using 1(4) assms(1) by (auto split: if_splits)
    from ended_kept [OF assms(1,2,5) 1(1) this] 1(2,3) show ?thesis by simp
  next
    case (2 r st e)
    note cr = claimed_recordD [OF 2(1)]
    have r: "record_ok L r" "key = (op_workspace_id r, op_operation_id r)" using store_okD [OF assms(2) cr(1)] by blast+
    have "sr_operation_id ref = op_operation_id r" using 2(2) r(2) by simp
    from committed_ok [OF assms(1) r(1) cr(2) assms(3) this 2(3) assms(4,5) 2(6)] kept_put [OF assms(2) cr(1)] 2(7,8)
    show ?thesis by simp
  qed
qed

lemma release_kept:
  assumes "nfc_ascii L" "store_ok L s" "code_ok L err" "in_years now"
  shows "kept_ok L s (snd (release_transient s key c err now))"
proof (cases "claimed_record s key c False now")
  case (Inr p)
  obtain r late where p: "claimed_record s key c False now = Inr (r, late)" using Inr by (cases p) simp
  note cr = claimed_recordD [OF p]
  have r: "record_ok L r" using store_okD [OF assms(2) cr(1)] by blast
  note run = holds_claim_running(1) [OF r cr(2)]
  have u: "record_ok L (revised now (r\<lparr>op_active := None, op_error := Some err\<rparr>))"
    using r run assms(3,4) unfolding record_ok_def record_defs revised_def by simp
  have "kept_ok L s (put_operation key (revised now (r\<lparr>op_active := None, op_error := Some err\<rparr>)) s)"
    by (rule kept_put [OF assms(2) cr(1) u]) (use run in \<open>simp add: evolves_def revised_def\<close>)
  with ended_kept [OF assms(1,2,4) p] assms(1) p show ?thesis by (auto simp: release_transient_def Let_def)
qed (simp add: release_transient_def kept_refl [OF assms(2)])

lemma fail_kept:
  assumes "nfc_ascii L" "store_ok L s" "code_ok L err" "in_years now"
  shows "kept_ok L s (snd (fail_stage s key c err now x))"
proof (cases "claimed_record s key c x now")
  case (Inr p)
  obtain r late where p: "claimed_record s key c x now = Inr (r, late)" using Inr by (cases p) simp
  from ended_kept [OF assms(1,2,4) p] assms(1,3) p show ?thesis by (auto simp: fail_stage_def Let_def)
qed (simp add: fail_stage_def kept_refl [OF assms(2)])

subsection \<open>Reachable stores\<close>

inductive op_step :: "lib \<Rightarrow> op_store \<Rightarrow> op_store \<Rightarrow> bool" for L where
  register: "request_ok L q \<Longrightarrow> stages_ok (pd_stages p) \<Longrightarrow> in_years now \<Longrightarrow> op_step L s (snd (register_operation s q p now))"
| refresh: "in_years now \<Longrightarrow> op_step L s (snd (refresh s key now))"
| cancel: "signal_ok L c \<Longrightarrow> in_years now \<Longrightarrow> op_step L s (snd (request_cancel s c now))"
| claim: "in_years now \<Longrightarrow> op_step L s (snd (claim_next L s key request_id now lease input max_attempts exhausted))"
| commit: "ref_ok L ref \<Longrightarrow> (\<forall>e. err = Some e \<longrightarrow> code_ok L e) \<Longrightarrow> in_years now \<Longrightarrow> op_step L s (snd (commit_stage s key c ref d err now))"
| release: "code_ok L err \<Longrightarrow> in_years now \<Longrightarrow> op_step L s (snd (release_transient s key c err now))"
| fail: "code_ok L err \<Longrightarrow> in_years now \<Longrightarrow> op_step L s (snd (fail_stage s key c err now x))"

lemma op_step_kept: "op_step L s s' \<Longrightarrow> nfc_ascii L \<Longrightarrow> store_ok L s \<Longrightarrow> kept_ok L s s'"
  by (induction rule: op_step.induct)
    (auto intro: register_kept refresh_kept cancel_kept claim_kept commit_kept release_kept fail_kept)

lemma op_steps_kept:
  assumes "(op_step L)\<^sup>*\<^sup>* s s'" "nfc_ascii L" "store_ok L s"
  shows "kept_ok L s s'"
  using assms(1)
proof (induction rule: rtranclp_induct)
  case base
  then show ?case by (rule kept_refl [OF assms(3)])
next
  case (step s1 s2)
  then have "store_ok L s1" by (simp add: kept_ok_def)
  from kept_trans [OF step.IH op_step_kept [OF step.hyps(2) assms(2) this]] show ?case .
qed

lemma new_store_ok: "store_ok L new_op_store"
  by (simp add: store_ok_def new_op_store_def get_operation_def)

lemma reachable_store_ok: "(op_step L)\<^sup>*\<^sup>* new_op_store s \<Longrightarrow> nfc_ascii L \<Longrightarrow> store_ok L s"
  using op_steps_kept new_store_ok by (auto simp: kept_ok_def)

lemma operations_evolve:
  assumes "(op_step L)\<^sup>*\<^sup>* new_op_store s" "nfc_ascii L" "get_operation s key = Some r" "(op_step L)\<^sup>*\<^sup>* s s'"
  shows "\<exists>r'. get_operation s' key = Some r' \<and> evolves r r' \<and> record_ok L r'"
proof -
  have "kept_ok L s s'" by (rule op_steps_kept [OF assms(4,2) reachable_store_ok [OF assms(1,2)]])
  with assms(3) show ?thesis unfolding kept_ok_def store_evolves_def store_ok_def by blast
qed

text \<open>
  C11: operations, whatever workers, pollers and cancellations do to the store. The results of an operation are those of the first
  stages of its pipeline in order, and a completed operation has the results of all of them; a running one has the
  state of its last result. Later it is still there with the same requester, deadline and pipeline and the same results,
  possibly with more behind them; once it is terminal, nothing about it changes any more.
\<close>

theorem operations_progress:
  assumes "nfc_ascii L" "(op_step L)\<^sup>*\<^sup>* new_op_store s" "get_operation s key = Some r" "(op_step L)\<^sup>*\<^sup>* s s'"
  shows "map sr_stage_name (op_refs r) = take (op_stage_index r) (op_stages r) \<and>
    (op_state r = COMPLETED \<longrightarrow> map sr_stage_name (op_refs r) = op_stages r) \<and>
    (\<not> terminal r \<longrightarrow> op_state_value (op_state r) = (if op_refs r = [] then ''received'' else sr_stage_name (last (op_refs r)))) \<and>
    (\<exists>r' new. get_operation s' key = Some r' \<and> (terminal r \<longrightarrow> r' = r) \<and> op_refs r' = op_refs r @ new \<and>
       (op_actor_id r', op_request_type r', op_deadline_at r', op_stages r') = (op_actor_id r, op_request_type r, op_deadline_at r, op_stages r))"
proof -
  have "record_ok L r" using store_okD [OF reachable_store_ok [OF assms(2,1)] assms(3)] by blast
  then have p: "progress_ok r" by (simp add: record_ok_def)
  then have refs: "map sr_stage_name (op_refs r) = take (op_stage_index r) (op_stages r)" by (simp add: progress_ok_def)
  moreover have "op_state_value (op_state r) = (if op_refs r = [] then ''received'' else sr_stage_name (last (op_refs r)))" if "\<not> terminal r"
  proof (cases "op_stage_index r = 0")
    case True
    with p that refs show ?thesis by (simp add: progress_ok_def)
  next
    case False
    with p that have i: "op_stage_index r < length (op_stages r)" "op_state_value (op_state r) = op_stages r ! (op_stage_index r - 1)"
      by (simp_all add: progress_ok_def)
    with False refs have ne: "op_refs r \<noteq> []" by auto
    then have "sr_stage_name (last (op_refs r)) = last (map sr_stage_name (op_refs r))" by (simp add: last_map)
    also have "\<dots> = op_stages r ! (op_stage_index r - 1)" using False i(1) unfolding refs by (cases "op_stage_index r") (simp_all add: take_Suc_conv_app_nth)
    finally show ?thesis using ne i(2) by simp
  qed
  moreover have "op_state r = COMPLETED \<longrightarrow> map sr_stage_name (op_refs r) = op_stages r" using p refs by (auto simp: progress_ok_def)
  ultimately show ?thesis using operations_evolve [OF assms(2,1,3,4)] unfolding evolves_def by auto
qed

text \<open>A claim that the record has counted and that is not its current one never becomes the current one again.\<close>

lemma spent_claim:
  assumes "evolves r r'" "sc_attempt c \<le> attempt_for r (sc_stage_name c)" "\<not> holds_claim r c"
  shows "\<not> holds_claim r' c"
  using assms unfolding evolves_def holds_claim_def by fastforce

text \<open>
  C12: fencing. A worker whose claim was superseded or has ended cannot commit, release or fail the stage any more, in any
  later store: each call raises \<open>StageClaimConflict\<close> and changes nothing.
\<close>

theorem stale_claims_fenced:
  assumes "nfc_ascii L" "(op_step L)\<^sup>*\<^sup>* new_op_store s" "get_operation s key = Some r"
    and "sc_attempt c \<le> attempt_for r (sc_stage_name c)" "\<not> holds_claim r c" "(op_step L)\<^sup>*\<^sup>* s s'"
  shows "commit_stage s' key c ref d err now = (Inl StageClaimConflict, s') \<and>
    release_transient s' key c code now = (Inl StageClaimConflict, s') \<and>
    fail_stage s' key c code now x = (Inl StageClaimConflict, s')"
proof -
  obtain r' where r': "get_operation s' key = Some r'" "evolves r r'" "record_ok L r'"
    using operations_evolve [OF assms(2,1,3,6)] by blast
  have no: "\<not> holds_claim r' c" by (rule spent_claim [OF r'(2) assms(4,5)])
  obtain dl where "parse_utc_timestamp (op_deadline_at r') = Inr dl"
    using r'(3) by (auto simp: record_ok_def texts_ok_def time_ok_def isOk_def split: sum.splits)
  moreover have "require_claim r' c t = Inl StageClaimConflict" for t
    using no by (auto simp: require_claim_def holds_claim_def split: option.splits)
  ultimately have "claimed_record s' key c y now = Inl StageClaimConflict" for y by (simp add: claimed_record_def r'(1))
  then show ?thesis by (simp add: commit_stage_def release_transient_def fail_stage_def)
qed

text \<open>
  C13: claims. A worker is given a stage only when the operation is running, not cancelled, before its deadline and under no
  live lease; it is the next stage of the pipeline, under an attempt that was not used before and, unless the result of the stage is there already,
  within the limit; the lease ends with the deadline at the latest, and the worker holds the claim.
\<close>

theorem claim_exclusive_and_bounded:
  assumes "nfc_ascii L" "(op_step L)\<^sup>*\<^sup>* new_op_store s" "get_operation s key = Some r" "in_years now"
    and "claim_next L s key request_id now lease input max_attempts exhausted = (Inr (u, Claimed c), s')"
  shows "\<not> terminal r \<and> op_cancellation r = None \<and> (\<forall>a. op_active r = Some a \<longrightarrow> ac_lease_expires_at a \<le> now) \<and>
    (\<forall>d. parse_utc_timestamp (op_deadline_at r) = Inr d \<longrightarrow> now < d) \<and>
    op_stage_index r < length (op_stages r) \<and> sc_stage_name c = op_stages r ! op_stage_index r \<and>
    sc_attempt c = attempt_for r (sc_stage_name c) + 1 \<and> (exhausted \<or> sc_attempt c \<le> max_attempts) \<and>
    get_operation s' key = Some u \<and> holds_claim u c \<and>
    (\<forall>a d. op_active u = Some a \<longrightarrow> parse_utc_timestamp (op_deadline_at r) = Inr d \<longrightarrow> ac_lease_expires_at a \<le> d)"
proof -
  have ok: "record_ok L r" using store_okD [OF reachable_store_ok [OF assms(2,1)] assms(3)] by blast
  let ?r1 = "drop_expired r now"
  note d = drop_expired_ok [OF ok assms(4)]
  obtain r2 where n: "normalize_terminal ?r1 now = Inr r2" "record_ok L r2" "\<not> terminal r2 \<longrightarrow> r2 = ?r1"
    using normalize_terminal_ok [OF assms(1) d(1) assms(4)] by blast
  let ?s2 = "put_operation key r2 (put_operation key ?r1 s)"
  have run: "\<not> terminal r2" "\<not> (case op_active r2 of None \<Rightarrow> False | Some a \<Rightarrow> ac_lease_expires_at a > now)"
    and cl: "claim_stage L ?s2 key r2 request_id now lease input max_attempts exhausted = (Inr (u, Claimed c), s')"
    using assms(3,5) n(1) by (auto simp: claim_next_def Let_def split: if_splits)
  have eq: "r2 = ?r1" using n(3) run(1) by blast
  have free: "op_active ?r1 = None" using run(2) d(3) unfolding eq by (cases "op_active ?r1") force+
  have same: "op_cancellation ?r1 = op_cancellation r" "op_deadline_at ?r1 = op_deadline_at r" "op_stages ?r1 = op_stages r"
      "op_stage_index ?r1 = op_stage_index r" "attempt_for ?r1 = attempt_for r" "op_state ?r1 = op_state r"
    using drop_expired_cases [of r now] by (auto simp: revised_def)
  have nt: "\<not> terminal r" using run(1) unfolding eq same .
  have live: "op_cancellation r = None" "\<And>dl. parse_utc_timestamp (op_deadline_at r) = Inr dl \<Longrightarrow> now < dl"
    using normalize_terminal_live [OF n(1) run(1) free] unfolding same by blast+
  have lease: "ac_lease_expires_at a \<le> now" if "op_active r = Some a" for a
    using free that by (auto simp: drop_expired_def split: if_splits)
  obtain token dl where c: "op_stage_index r < length (op_stages r)" "parse_utc_timestamp (op_deadline_at r) = Inr dl"
      "c = \<lparr>sc_token = token, sc_stage_name = op_stages r ! op_stage_index r, sc_attempt = attempt_for r (op_stages r ! op_stage_index r) + 1, sc_input_digest = input\<rparr>"
      "exhausted \<or> sc_attempt c \<le> max_attempts" "s' = put_operation key u ?s2"
      "op_active u = Some \<lparr>ac_token = token, ac_request_id = request_id, ac_stage_name = sc_stage_name c, ac_attempt = sc_attempt c,
         ac_lease_expires_at = min dl (now + lease), ac_input_digest = input\<rparr>"
    using cl unfolding claim_stage_def Let_def eq same
    by (auto simp: stop_Inr_iff revised_def split: if_splits)
  from c nt live lease show ?thesis by (auto simp: holds_claim_def)
qed

subsection \<open>An example\<close>

text \<open>A request, with the identity that the example library computes for it, a pipeline of one stage and a clock in 2024.\<close>

definition demo_op :: runtime_request where
  "demo_op = \<lparr>rt_version = RUNTIME_REQUEST_VERSION, rt_request_id = ''r1'',
     rt_operation_id = ''77696b692e72756e74696d652e6f7065726174696f6e2e7631007b226163746f'', rt_idempotency_key = ''k'',
     rt_workspace_id = ''w'', rt_actor_id = ''a'', rt_request_type = ''ask'', rt_received_at = ''2024-01-01T05:00:00Z'',
     rt_deadline_at = ''2024-01-01T06:00:00Z'', rt_generation_id = None, rt_payload = JObj []\<rparr>"

definition demo_pipeline :: pipeline where
  "demo_pipeline = \<lparr>pd_pipeline_id = ''p'', pd_request_type = ''ask'', pd_stages = [''planned'']\<rparr>"

definition demo_now :: int where
  "demo_now = 63839682000"

definition demo_ops :: op_store where
  "demo_ops = snd (register_operation new_op_store demo_op demo_pipeline demo_now)"

definition demo_claiming :: "(operation_record \<times> claim_outcome) res \<times> op_store" where
  "demo_claiming = claim_next demo_lib demo_ops (request_key demo_op) ''r1'' demo_now 60 (replicate 64 CHR ''0'') 3 False"

lemma demo_op_ok: "request_ok demo_lib demo_op"
proof -
  have "reparse_request demo_lib demo_op = Inr demo_op" by code_simp
  then show ?thesis by (simp add: request_ok_def)
qed

lemma demo_pipeline_ok: "stages_ok (pd_stages demo_pipeline)"
  by code_simp

lemma demo_years: "in_years demo_now" "in_years (demo_now + 61)"
  by (simp_all add: in_years_def demo_now_def days_before_year_def)

lemma demo_ops_reachable: "(op_step demo_lib)\<^sup>*\<^sup>* new_op_store demo_ops"
  unfolding demo_ops_def by (rule r_into_rtranclp, rule op_step.register [OF demo_op_ok demo_pipeline_ok demo_years(1)])

lemma demo_record: "get_operation demo_ops (request_key demo_op) = Some (fresh_record demo_op demo_pipeline demo_now)"
  by (simp add: demo_ops_def register_operation_def register_new_def new_op_store_def get_operation_def put_operation_def dict_simps Let_def)

lemma demo_claimed: "\<exists>u c s. demo_claiming = (Inr (u, Claimed c), s) \<and> get_operation s (request_key demo_op) = Some u \<and>
    sc_stage_name c = ''planned'' \<and> sc_attempt c = 1 \<and> attempt_for u ''planned'' = 1 \<and>
    (\<exists>a. op_active u = Some a \<and> ac_lease_expires_at a = demo_now + 60)"
proof -
  let ?r = "fresh_record demo_op demo_pipeline demo_now" and ?key = "request_key demo_op" and ?in = "replicate 64 CHR ''0''"
  have d: "parse_utc_timestamp ''2024-01-01T06:00:00Z'' = Inr 63839685600" by code_simp
  have now: "demo_now < 63839685600" "min 63839685600 (demo_now + 60) = demo_now + 60" by (simp_all add: demo_now_def)
  have r: "op_state ?r = RECEIVED" "op_active ?r = None" "op_cancellation ?r = None" "op_deadline_at ?r = ''2024-01-01T06:00:00Z''" "op_stage_index ?r = 0"
      "op_stages ?r = [''planned'']" "op_attempts ?r = []" by (simp_all add: fresh_record_def demo_op_def demo_pipeline_def)
  have at: "attempt_for ?r ''planned'' = 0" by (simp add: attempt_for_def r)
  have n: "drop_expired ?r demo_now = ?r" "normalize_terminal ?r demo_now = Inr ?r"
    using d now by (simp_all add: drop_expired_def normalize_terminal_def r)
  have "admissible demo_lib False (claim_body ?r ''planned'' 1 ''r1'' ?in)"
    by (simp add: claim_body_def pdict_def admissible_PDict nfc_asciiD [OF demo_lib_ascii])
  then obtain h where h: "rt_hash demo_lib CLAIM_DOMAIN (claim_body ?r ''planned'' 1 ''r1'' ?in) = Inr h"
    by (auto simp: rt_hash_def rt_canonical_bytes_def contract_canonical_bytes_def contract.norm_eq)
  have w: "attempt_for (with_attempt ?r ''planned'' 1) ''planned'' = 1" using with_attempt_simps(2) [of ?r "''planned''" 1 "''planned''"] r by simp
  let ?a = "\<lparr>ac_token = h, ac_request_id = ''r1'', ac_stage_name = ''planned'', ac_attempt = 1, ac_lease_expires_at = demo_now + 60, ac_input_digest = ?in\<rparr>"
  let ?u = "revised demo_now ((with_attempt ?r ''planned'' 1)\<lparr>op_active := Some ?a\<rparr>)"
  let ?c = "\<lparr>sc_token = h, sc_stage_name = ''planned'', sc_attempt = 1, sc_input_digest = ?in\<rparr>"
  have "demo_claiming = (Inr (?u, Claimed ?c), put_operation ?key ?u (put_operation ?key ?r (put_operation ?key ?r demo_ops)))"
    using d now unfolding demo_claiming_def claim_next_def demo_record option.case Let_def n stop_simps
    by (simp add: r claim_stage_def Let_def at h [unfolded One_nat_def])
  moreover have "attempt_for ?u ''planned'' = 1" using w by (simp add: revised_def)
  moreover have "op_active ?u = Some ?a" by (simp add: revised_def)
  ultimately show ?thesis
    by (intro exI [of _ ?u] exI [of _ ?c] exI [of _ "put_operation ?key ?u (put_operation ?key ?r (put_operation ?key ?r demo_ops))"]) simp
qed

theorem operations_progress_witness:
  "\<exists>r r'. get_operation demo_ops (request_key demo_op) = Some r \<and> op_refs r = [] \<and> op_state_value (op_state r) = ''received'' \<and>
     get_operation (snd demo_claiming) (request_key demo_op) = Some r' \<and> op_stages r' = [''planned'']"
proof -
  have s: "(op_step demo_lib)\<^sup>*\<^sup>* demo_ops (snd demo_claiming)"
    unfolding demo_claiming_def by (rule r_into_rtranclp, rule op_step.claim [OF demo_years(1)])
  have "\<not> terminal (fresh_record demo_op demo_pipeline demo_now)" by (simp add: fresh_record_def)
  moreover have "op_refs (fresh_record demo_op demo_pipeline demo_now) = []" "op_stages (fresh_record demo_op demo_pipeline demo_now) = [''planned'']"
    by (simp_all add: fresh_record_def demo_pipeline_def)
  ultimately show ?thesis
    using operations_progress [OF demo_lib_ascii demo_ops_reachable demo_record s] demo_record by auto
qed

theorem claim_exclusive_and_bounded_witness:
  "\<exists>u c s. demo_claiming = (Inr (u, Claimed c), s) \<and> sc_stage_name c = ''planned'' \<and> sc_attempt c \<le> 3 \<and> holds_claim u c"
proof -
  obtain u c s where d: "demo_claiming = (Inr (u, Claimed c), s)" "sc_stage_name c = ''planned''" using demo_claimed by blast
  from claim_exclusive_and_bounded [OF demo_lib_ascii demo_ops_reachable demo_record demo_years(1) d(1) [unfolded demo_claiming_def]] d
  show ?thesis by blast
qed

theorem stale_claims_fenced_witness:
  "\<exists>u c s. demo_claiming = (Inr (u, Claimed c), s) \<and>
     (let s' = snd (refresh s (request_key demo_op) (demo_now + 61)) in
      fail_stage s' (request_key demo_op) c ''late'' (demo_now + 61) True = (Inl StageClaimConflict, s'))"
proof -
  obtain u c s a where d: "demo_claiming = (Inr (u, Claimed c), s)" "get_operation s (request_key demo_op) = Some u" "sc_stage_name c = ''planned''"
      "sc_attempt c = 1" "attempt_for u ''planned'' = 1" "op_active u = Some a" "ac_lease_expires_at a = demo_now + 60" using demo_claimed by blast
  have s: "(op_step demo_lib)\<^sup>*\<^sup>* new_op_store s"
    using rtranclp.rtrancl_into_rtrancl [OF demo_ops_reachable op_step.claim [OF demo_years(1)]] d(1) unfolding demo_claiming_def by (metis snd_conv)
  let ?s' = "snd (refresh s (request_key demo_op) (demo_now + 61))"
  have s': "(op_step demo_lib)\<^sup>*\<^sup>* new_op_store ?s'" by (rule rtranclp.rtrancl_into_rtrancl [OF s op_step.refresh [OF demo_years(2)]])
  have ok: "record_ok demo_lib u" using store_okD [OF reachable_store_ok [OF s demo_lib_ascii] d(2)] by blast
  let ?u = "drop_expired u (demo_now + 61)"
  have u: "op_active ?u = None" "attempt_for ?u = attempt_for u" using d(6,7) by (simp_all add: drop_expired_def revised_def)
  obtain r where n: "normalize_terminal ?u (demo_now + 61) = Inr r" "record_ok demo_lib r" "evolves ?u r"
    using normalize_terminal_ok [OF demo_lib_ascii drop_expired_ok(1) [OF ok demo_years(2)] demo_years(2)] by blast
  have "op_active r = None" "attempt_for r = attempt_for u"
    using n(1) u by (auto simp: normalize_terminal_def revised_def bindR_Inr_iff split: if_splits)
  moreover have "get_operation ?s' (request_key demo_op) = Some r" using d(2) n(1) by (simp add: refresh_def)
  ultimately have "fail_stage ?s' (request_key demo_op) c ''late'' (demo_now + 61) True = (Inl StageClaimConflict, ?s')"
    using stale_claims_fenced [OF demo_lib_ascii s', of "request_key demo_op" r c ?s'] d(3-5) by (auto simp: holds_claim_def)
  with d(1) show ?thesis by (auto simp: Let_def)
qed

end
