(* ===== verification/Orchestrator.thy ===== *)
theory Orchestrator
  imports OperationStore Assembler
begin

text \<open>
  The rest of \<open>memory_runtime/orchestrator.py\<close>: stage results and their store, and \<open>RuntimeOrchestrator\<close> with \<open>run\<close>,
  \<open>cancel\<close> and \<open>status\<close>. Handlers are parameters. A method of a store is one step, since it holds the store's lock;
  before every such step, with or without a reading of the clock, other threads may have changed the two stores: the parameter \<open>others\<close> says how.
\<close>

subsection \<open>Stage results\<close>

record stage_result =
  sg_stage_name :: string
  sg_payload :: json
  sg_disposition :: stage_disposition
  sg_schema_id :: string
  sg_provenance :: "string list"
  sg_error :: "string option"

definition runtime_code :: "lib \<Rightarrow> string \<Rightarrow> string res" where
  "runtime_code L s = (if is_safe_code (nfc L s) then Inr (nfc L s) else Inl InvalidContractValue)"

fun terminal_default :: "stage_disposition \<Rightarrow> string option" where
  "terminal_default REJECT = Some ''stage_rejected''"
| "terminal_default ABSTAIN = Some ''stage_abstained''"
| "terminal_default DEGRADE = Some ''stage_degraded''"
| "terminal_default _ = None"

definition canonical_payload :: "lib \<Rightarrow> json \<Rightarrow> json res" where
  "canonical_payload L j =
     bindR (rt_canonical_bytes L (pdict [(''payload'', json_py j)])) (\<lambda>b.
     case loads b of
       Some d \<Rightarrow> (case jget d ''payload'' of Some (JObj kvs) \<Rightarrow> Inr (JObj kvs) | _ \<Rightarrow> Inl InvalidContractValue)
     | None \<Rightarrow> Inl InvalidContractValue)"

text \<open>\<open>RuntimeStageResult(\<dots>)\<close> with \<open>__post_init__\<close>.\<close>

definition new_stage_result :: "lib \<Rightarrow> stage_result \<Rightarrow> stage_result res" where
  "new_stage_result L x =
     bindR (guardR (sg_stage_name x \<in> set STAGE_NAMES) InvalidContractValue) (\<lambda>_.
     bindR (guardR (sg_schema_id x \<noteq> []) InvalidContractValue) (\<lambda>_.
     let default = terminal_default (sg_disposition x) in
     bindR (guardR (\<not> (default = None \<and> sg_error x \<noteq> None)) InvalidContractValue) (\<lambda>_.
     bindR (rt_optional (runtime_code L) (case sg_error x of None \<Rightarrow> default | Some e \<Rightarrow> Some e)) (\<lambda>err.
     let refs = map (nfc L) (sg_provenance x) in
     bindR (guardR (list_all (\<lambda>r. r \<noteq> []) refs) InvalidContractValue) (\<lambda>_.
     bindR (guardR (sorted_set refs = refs) InvalidContractValue) (\<lambda>_.
     bindR (guardR (case sg_payload x of JObj kvs \<Rightarrow> True | _ \<Rightarrow> False) InvalidContractValue) (\<lambda>_.
     bindR (canonical_payload L (sg_payload x)) (\<lambda>payload.
     Inr (x\<lparr>sg_stage_name := nfc L (sg_stage_name x), sg_schema_id := nfc L (sg_schema_id x), sg_error := err,
            sg_provenance := refs, sg_payload := payload\<rparr>)))))))))"

definition opt_json :: "string option \<Rightarrow> json" where
  "opt_json v = (case v of None \<Rightarrow> JNull | Some s \<Rightarrow> JStr s)"

definition semantic_json :: "stage_result \<Rightarrow> json \<Rightarrow> json" where
  "semantic_json x payload = JObj
     [(''stage_name'', JStr (sg_stage_name x)), (''payload'', payload), (''disposition'', JStr (disposition_value (sg_disposition x))),
      (''schema_id'', JStr (sg_schema_id x)), (''provenance_refs'', JList (map JStr (sg_provenance x))), (''error_code'', opt_json (sg_error x))]"

definition semantic_bytes :: "lib \<Rightarrow> stage_result \<Rightarrow> bytes res" where
  "semantic_bytes L x =
     bindR (canonical_payload L (sg_payload x)) (\<lambda>payload. rt_canonical_bytes L (json_py (semantic_json x payload)))"

subsection \<open>The store of results\<close>

record persisted_result =
  pr_ref :: stage_ref
  pr_bytes :: bytes

type_synonym result_key = "string \<times> string \<times> string \<times> string"
type_synonym result_store = "(result_key, persisted_result) dict"

definition disposition_of :: "string \<Rightarrow> stage_disposition option" where
  "disposition_of name = find (\<lambda>d. disposition_value d = name) [CONTINUE, COMPLETE, REJECT, ABSTAIN, DEGRADE]"

definition json_strings :: "json \<Rightarrow> string list res" where
  "json_strings j = (case j of JList xs \<Rightarrow> mapR as_str xs | _ \<Rightarrow> Inl TypeError)"

definition json_opt :: "json \<Rightarrow> string option res" where
  "json_opt j = (case j of JNull \<Rightarrow> Inr None | JStr s \<Rightarrow> Inr (Some s) | _ \<Rightarrow> Inl InvalidContractValue)"

text \<open>\<open>_restore\<close>.\<close>

definition restore_result :: "lib \<Rightarrow> persisted_result \<Rightarrow> (stage_ref \<times> stage_result) res" where
  "restore_result L p =
     (case loads (pr_bytes p) of
        None \<Rightarrow> Inl JSONDecodeError
      | Some j \<Rightarrow>
          bindR (jstr j ''stage_name'') (\<lambda>stage.
          bindR (jindex j ''payload'') (\<lambda>payload.
          bindR (jstr j ''disposition'') (\<lambda>disp.
          case disposition_of disp of
            None \<Rightarrow> Inl ValueError
          | Some d \<Rightarrow>
              bindR (jstr j ''schema_id'') (\<lambda>schema.
              bindR (bindR (jindex j ''provenance_refs'') json_strings) (\<lambda>prov.
              bindR (bindR (jindex j ''error_code'') json_opt) (\<lambda>err.
              bindR (new_stage_result L \<lparr>sg_stage_name = stage, sg_payload = payload, sg_disposition = d, sg_schema_id = schema,
                       sg_provenance = prov, sg_error = err\<rparr>) (\<lambda>x. Inr (pr_ref p, x)))))))))"

definition get_result :: "lib \<Rightarrow> result_store \<Rightarrow> result_key \<Rightarrow> (stage_ref \<times> stage_result) option res" where
  "get_result L rs key = (case map_of rs key of None \<Rightarrow> Inr None | Some p \<Rightarrow> bindR (restore_result L p) (\<lambda>x. Inr (Some x)))"

definition STAGE_CONTENT_DOMAIN :: bytes where
  "STAGE_CONTENT_DOMAIN = ''wiki.runtime.stage-content.v1'' @ [CHR 0x00]"

definition put_once ::
    "lib \<Rightarrow> result_store \<Rightarrow> string \<Rightarrow> string \<Rightarrow> string \<Rightarrow> stage_result \<Rightarrow> string \<Rightarrow> (stage_ref \<times> stage_result) res \<times> result_store" where
  "put_once L rs ws op_id input x created =
     stop rs (semantic_bytes L x) (\<lambda>b.
     stop rs (create_ref L op_id (sg_stage_name x) input (sha256_hex L (STAGE_CONTENT_DOMAIN @ b)) (sg_schema_id x) created (sg_provenance x)) (\<lambda>ref.
     let key = (ws, op_id, sg_stage_name x, input); p = \<lparr>pr_ref = ref, pr_bytes = b\<rparr> in
     case map_of rs key of
       None \<Rightarrow> (restore_result L p, dict_set key p rs)
     | Some old \<Rightarrow> (if pr_bytes old \<noteq> b then Inl StageResultConflict else restore_result L old, rs)))"

subsection \<open>The orchestrator\<close>

text \<open>What a handler sees of the request: not the fields that belong to one delivery of it.\<close>

record operation_input =
  oi_operation_id :: string
  oi_idempotency_key :: string
  oi_workspace_id :: string
  oi_actor_id :: string
  oi_request_type :: string
  oi_deadline_at :: string
  oi_generation_id :: "string option"
  oi_payload :: json

definition input_from_request :: "lib \<Rightarrow> runtime_request \<Rightarrow> operation_input res" where
  "input_from_request L q =
     bindR (canonical_payload L (rt_payload q)) (\<lambda>p.
     Inr \<lparr>oi_operation_id = rt_operation_id q, oi_idempotency_key = rt_idempotency_key q, oi_workspace_id = rt_workspace_id q,
          oi_actor_id = rt_actor_id q, oi_request_type = rt_request_type q, oi_deadline_at = rt_deadline_at q,
          oi_generation_id = rt_generation_id q, oi_payload = p\<rparr>)"

record stage_context =
  cx_request :: operation_input
  cx_stage_name :: string
  cx_previous :: "stage_ref list"
  cx_input_digest :: string
  cx_attempt :: string

record rt_world =
  w_ops :: op_store
  w_results :: result_store
  w_ticks :: nat

text \<open>
  A handler sees its context and the moment it is called; it returns a result (\<open>None\<close> for a value that is no
  \<open>RuntimeStageResult\<close>) or raises. The clock has whole seconds, as \<open>_now\<close> truncates it.
\<close>

record orchestrator =
  ro_lib :: lib
  ro_pipelines :: "(string, pipeline) dict"
  ro_handlers :: "string \<Rightarrow> stage_context \<Rightarrow> nat \<Rightarrow> stage_result option res"
  ro_clock :: "nat \<Rightarrow> int"
  ro_lease :: int
  ro_max_attempts :: nat
  ro_others :: "rt_world \<Rightarrow> rt_world"

text \<open>\<open>RuntimeOrchestrator.__init__\<close>: which handlers there are, by the name each carries, is given with them.\<close>

definition new_orchestrator ::
    "lib \<Rightarrow> pipeline list \<Rightarrow> (string, string) dict \<Rightarrow> (string \<Rightarrow> stage_context \<Rightarrow> nat \<Rightarrow> stage_result option res) \<Rightarrow>
     (nat \<Rightarrow> int) \<Rightarrow> int \<Rightarrow> int \<Rightarrow> (rt_world \<Rightarrow> rt_world) \<Rightarrow> orchestrator res" where
  "new_orchestrator L pipelines names handlers clock lease max_attempts others =
     bindR (guardR (lease > 0) InvalidContractValue) (\<lambda>_.
     bindR (guardR (max_attempts > 0) InvalidContractValue) (\<lambda>_.
     let table = fold (\<lambda>p. dict_set (pd_request_type p) p) pipelines [] in
     bindR (guardR (length table = length pipelines) InvalidContractValue) (\<lambda>_.
     bindR (guardR (\<forall>(_, p)\<in>set table. \<forall>stage\<in>set (pd_stages p). map_of names stage = Some stage) InvalidContractValue) (\<lambda>_.
     Inr \<lparr>ro_lib = L, ro_pipelines = table, ro_handlers = handlers, ro_clock = clock, ro_lease = lease,
          ro_max_attempts = nat max_attempts, ro_others = others\<rparr>))))"

text \<open>Reading the clock, and an access to a store without it: other threads may have come before.\<close>

definition between :: "orchestrator \<Rightarrow> rt_world \<Rightarrow> rt_world" where
  "between R w = (ro_others R w)\<lparr>w_ticks := w_ticks w\<rparr>"

definition tick :: "orchestrator \<Rightarrow> rt_world \<Rightarrow> int \<times> rt_world" where
  "tick R w = (ro_clock R (w_ticks w), let w' = ro_others R w in w'\<lparr>w_ticks := w_ticks w + 1\<rparr>)"

definition STAGE_INPUT_DOMAIN :: bytes where
  "STAGE_INPUT_DOMAIN = ''wiki.runtime.stage-input.v1'' @ [CHR 0x00]"

definition stage_input_digest :: "lib \<Rightarrow> runtime_request \<Rightarrow> string \<Rightarrow> stage_ref list \<Rightarrow> string res" where
  "stage_input_digest L q stage refs =
     rt_hash L STAGE_INPUT_DOMAIN (pdict
       [(''operation_id'', PStr (rt_operation_id q)), (''stage_name'', PStr stage),
        (''request_identity_digest'', PStr (rt_operation_id q)), (''previous_result_ids'', PList (map (PStr \<circ> sr_result_id) refs))])"

definition status_of :: "lib \<Rightarrow> operation_record \<Rightarrow> runtime_status res" where
  "status_of L r =
     (let current = (if \<not> terminal r \<and> op_stage_index r < length (op_stages r) then Some (op_stages r ! op_stage_index r) else None);
          attempt = (case current of
            Some stage \<Rightarrow> attempt_for r stage
          | None \<Rightarrow> if op_stages r \<noteq> [] then attempt_for r (op_stages r ! min (op_stage_index r) (length (op_stages r) - 1)) else 0) in
      new_status L
        \<lparr>rs_operation_id = op_operation_id r, rs_workspace_id = op_workspace_id r, rs_state = op_state r, rs_current_stage = current,
         rs_attempt = str_nat attempt, rs_revision = str_nat (op_revision r), rs_deadline_at = op_deadline_at r,
         rs_cancellation_id = map_option cs_cancellation_id (op_cancellation r), rs_stage_result_refs = op_refs r,
         rs_updated_at = op_updated_at r, rs_error_code = op_error r\<rparr>)"

text \<open>\<open>_response\<close>; a forced status is always \<open>RETRY_LATER\<close>.\<close>

definition response_of :: "lib \<Rightarrow> runtime_request \<Rightarrow> operation_record \<Rightarrow> bool \<Rightarrow> string option \<Rightarrow> runtime_response res" where
  "response_of L q r retry err =
     (let rst = (if terminal r then response_status_for_state (op_state r)
                 else if retry then RETRY_LATER else response_status_for_state (op_state r));
          refs = op_refs r;
          result = (if refs \<noteq> [] \<and> rst \<in> {S_COMPLETED, S_REJECTED, S_ABSTAINED, S_DEGRADED} then Some (last refs) else None) in
      new_response L
        \<lparr>rr_request_id = rt_request_id q, rr_operation_id = rt_operation_id q, rr_workspace_id = rt_workspace_id q,
         rr_response_status = rst, rr_state = op_state r, rr_generation_id = rt_generation_id q, rr_stage_result_refs = refs,
         rr_result_ref = result, rr_retryable = (rst = RETRY_LATER), rr_error_code = (case err of Some e \<Rightarrow> Some e | None \<Rightarrow> op_error r),
         rr_updated_at = op_updated_at r\<rparr>)"

definition claim_lost_response :: "orchestrator \<Rightarrow> runtime_request \<Rightarrow> operation_record \<Rightarrow> rt_world \<Rightarrow> runtime_response res \<times> rt_world" where
  "claim_lost_response R q r w0 =
     (let L = ro_lib R; w = between R w0; current = (case get_operation (w_ops w) (request_key q) of Some c \<Rightarrow> c | None \<Rightarrow> r) in
      (if terminal current then response_of L q current False None
       else response_of L q current True (Some ''stage_claim_lost''), w))"

definition reject_response :: "lib \<Rightarrow> runtime_request \<Rightarrow> string \<Rightarrow> int \<Rightarrow> runtime_response res" where
  "reject_response L q code now =
     new_response L
       \<lparr>rr_request_id = rt_request_id q, rr_operation_id = rt_operation_id q, rr_workspace_id = rt_workspace_id q,
        rr_response_status = S_REJECTED, rr_state = REJECTED, rr_generation_id = rt_generation_id q, rr_stage_result_refs = [],
        rr_result_ref = None, rr_retryable = False, rr_error_code = Some code, rr_updated_at = format_utc_timestamp now\<rparr>"

subsection \<open>Running a stage\<close>

definition lift_ops :: "rt_world \<Rightarrow> 'a \<times> op_store \<Rightarrow> 'a \<times> rt_world" where
  "lift_ops w x = (fst x, w\<lparr>w_ops := snd x\<rparr>)"

definition checkpoint :: "orchestrator \<Rightarrow> runtime_request \<Rightarrow> rt_world \<Rightarrow> unit res \<times> rt_world" where
  "checkpoint R q w0 =
     (let w = between R w0 in
      if is_cancelled (w_ops w) (request_key q) then (Inl OperationCancelled, w)
      else
        let (now, w1) = tick R w in
        (bindR (parse_utc_timestamp (rt_deadline_at q)) (\<lambda>deadline. guardR (now < deadline) OperationDeadlineExceeded), w1))"

text \<open>The \<open>try\<close> block: the handler between two checkpoints, its result validated and stored.\<close>

definition stage_body ::
    "orchestrator \<Rightarrow> runtime_request \<Rightarrow> stage_context \<Rightarrow> stage_claim \<Rightarrow> operation_record \<Rightarrow> rt_world \<Rightarrow>
     (stage_ref \<times> stage_result) res \<times> rt_world" where
  "stage_body R q cx c r w =
     (let (k1, w1) = checkpoint R q w in
      stop w1 k1 (\<lambda>_.
      stop w1 (ro_handlers R (sc_stage_name c) cx (w_ticks w1)) (\<lambda>out.
      let (k2, w2) = checkpoint R q w1 in
      stop w2 k2 (\<lambda>_.
      case out of
        None \<Rightarrow> (Inl (FatalStageError ''invalid_stage_result_type''), w2)
      | Some x0 \<Rightarrow>
          stop w2 (new_stage_result (ro_lib R) x0) (\<lambda>x.
          if sg_stage_name x \<noteq> sc_stage_name c then (Inl (FatalStageError ''stage_result_mismatch''), w2)
          else if sg_disposition x = COMPLETE \<and> op_stage_index r + 1 < length (op_stages r)
          then (Inl (FatalStageError ''early_stage_completion_denied''), w2)
          else
            let (now, w3) = tick R w2;
                (found, rs) = put_once (ro_lib R) (w_results w3) (rt_workspace_id q) (rt_operation_id q) (sc_input_digest c) x (format_utc_timestamp now) in
            (found, w3\<lparr>w_results := rs\<rparr>))))))"

text \<open>Failing the stage, the claim possibly lost meanwhile.\<close>

definition fail_response ::
    "orchestrator \<Rightarrow> runtime_request \<Rightarrow> stage_claim \<Rightarrow> operation_record \<Rightarrow> string \<Rightarrow> rt_world \<Rightarrow> runtime_response res \<times> rt_world" where
  "fail_response R q c r code w =
     (let (now, w1) = tick R w; (out, w2) = lift_ops w1 (fail_stage (w_ops w1) (request_key q) c code now False) in
      case out of
        Inl e \<Rightarrow> if e = StageClaimConflict then claim_lost_response R q r w2 else (Inl e, w2)
      | Inr u \<Rightarrow> (response_of (ro_lib R) q u False None, w2))"

definition cancelled_response ::
    "orchestrator \<Rightarrow> runtime_request \<Rightarrow> stage_claim \<Rightarrow> operation_record \<Rightarrow> rt_world \<Rightarrow> runtime_response res \<times> rt_world" where
  "cancelled_response R q c r w0 =
     (let w = between R w0; L = ro_lib R; key = request_key q; current = (case get_operation (w_ops w) key of Some x \<Rightarrow> x | None \<Rightarrow> r);
          (sig, w1) = (case op_cancellation current of
            Some x \<Rightarrow> (Inr (), w)
          | None \<Rightarrow>
              let (t, wa) = tick R w in
              stop wa (create_signal L (rt_workspace_id q) (rt_actor_id q) (rt_operation_id q) (format_utc_timestamp t) ''cooperative_cancel'') (\<lambda>signal.
              let (now, wb) = tick R wa; (out, wc) = lift_ops wb (request_cancel (w_ops wb) signal now) in
              (bindR out (\<lambda>_. Inr ()), wc))) in
      stop w1 sig (\<lambda>_.
      let (t, w2) = tick R w1 in
      stop w2 (create_ref L (rt_operation_id q) (sc_stage_name c) (sc_input_digest c) (sha256_hex L ''cancelled'') ''phase4-cancelled-stage-v1''
                (format_utc_timestamp t) []) (\<lambda>placeholder.
      let (now, w3) = tick R w2; (out, w4) = lift_ops w3 (commit_stage (w_ops w3) key c placeholder CONTINUE (Some ''cancelled'') now) in
      stop w4 out (\<lambda>u. (response_of L q u False None, w4)))))"

definition deadline_response ::
    "orchestrator \<Rightarrow> runtime_request \<Rightarrow> stage_claim \<Rightarrow> rt_world \<Rightarrow> runtime_response res \<times> rt_world" where
  "deadline_response R q c w =
     (let (now, w1) = tick R w; (out, w2) = lift_ops w1 (fail_stage (w_ops w1) (request_key q) c ''deadline_exceeded'' now True) in
      stop w2 out (\<lambda>u. (response_of (ro_lib R) q u False None, w2)))"

definition transient_response ::
    "orchestrator \<Rightarrow> runtime_request \<Rightarrow> stage_claim \<Rightarrow> operation_record \<Rightarrow> string \<Rightarrow> rt_world \<Rightarrow> runtime_response res \<times> rt_world" where
  "transient_response R q c r code w =
     (let (now, w1) = tick R w; key = request_key q;
          (out, w2) = lift_ops w1
            (if sc_attempt c \<ge> ro_max_attempts R then fail_stage (w_ops w1) key c ''retry_budget_exhausted'' now False
             else release_transient (w_ops w1) key c code now) in
      case out of
        Inl e \<Rightarrow> if e = StageClaimConflict then claim_lost_response R q r w2 else (Inl e, w2)
      | Inr u \<Rightarrow>
          (if terminal u then response_of (ro_lib R) q u False None else response_of (ro_lib R) q u True (Some code), w2))"

text \<open>The \<open>except\<close> clauses.\<close>

definition stage_failed ::
    "orchestrator \<Rightarrow> runtime_request \<Rightarrow> stage_claim \<Rightarrow> operation_record \<Rightarrow> exn \<Rightarrow> rt_world \<Rightarrow> runtime_response res \<times> rt_world" where
  "stage_failed R q c r e w =
     (case e of
        OperationCancelled \<Rightarrow> cancelled_response R q c r w
      | OperationDeadlineExceeded \<Rightarrow> deadline_response R q c w
      | TransientStageError code \<Rightarrow> transient_response R q c r code w
      | FatalStageError code \<Rightarrow> fail_response R q c r code w
      | StageResultConflict \<Rightarrow> fail_response R q c r ''nondeterministic_stage_result'' w
      | _ \<Rightarrow> fail_response R q c r ''stage_unhandled_failure'' w)"

text \<open>The end of a round: the result is committed, and the loop goes on unless the operation has ended.\<close>

datatype round_end = Respond "runtime_response res" | Continue

definition commit_round ::
    "orchestrator \<Rightarrow> runtime_request \<Rightarrow> stage_claim \<Rightarrow> operation_record \<Rightarrow> stage_ref \<times> stage_result \<Rightarrow> rt_world \<Rightarrow> round_end \<times> rt_world" where
  "commit_round R q c r found w =
     (let (now, w1) = tick R w;
          (out, w2) = lift_ops w1 (commit_stage (w_ops w1) (request_key q) c (fst found) (sg_disposition (snd found)) (sg_error (snd found)) now) in
      case out of
        Inl e \<Rightarrow> apfst Respond (if e = StageClaimConflict then claim_lost_response R q r w2 else (Inl e, w2))
      | Inr u \<Rightarrow> (if terminal u then Respond (response_of (ro_lib R) q u False None) else Continue, w2))"

text \<open>A round with its claim: the stored result, else the handler's.\<close>

definition claimed_round ::
    "orchestrator \<Rightarrow> runtime_request \<Rightarrow> stage_claim \<Rightarrow> operation_record \<Rightarrow> (stage_ref \<times> stage_result) option \<Rightarrow> rt_world \<Rightarrow> round_end \<times> rt_world" where
  "claimed_round R q c r existing w =
     (case existing of
        Some found \<Rightarrow> commit_round R q c r found w
      | None \<Rightarrow>
          (case input_from_request (ro_lib R) q of
             Inl e \<Rightarrow> (Respond (Inl e), w)
           | Inr input \<Rightarrow>
               let cx = \<lparr>cx_request = input, cx_stage_name = sc_stage_name c, cx_previous = op_refs r,
                         cx_input_digest = sc_input_digest c, cx_attempt = str_nat (sc_attempt c)\<rparr>;
                   (out, w1) = stage_body R q cx c r w in
               case out of
                 Inr found \<Rightarrow> commit_round R q c r found w1
               | Inl e \<Rightarrow> let (resp, w2) = stage_failed R q c r e w1 in (Respond resp, w2)))"

definition run_round :: "orchestrator \<Rightarrow> runtime_request \<Rightarrow> operation_record \<Rightarrow> rt_world \<Rightarrow> round_end \<times> rt_world" where
  "run_round R q r0 wa =
     (let w = between R wa; L = ro_lib R; key = request_key q; r = (case get_operation (w_ops w) key of Some x \<Rightarrow> x | None \<Rightarrow> r0) in
      if terminal r then (Respond (response_of L q r False None), w)
      else if op_stage_index r \<ge> length (op_stages r)
      then (Respond (response_of L q r True (Some ''operation_state_inconsistent'')), w)
      else
        let stage = op_stages r ! op_stage_index r in
        case stage_input_digest L q stage (op_refs r) of
          Inl e \<Rightarrow> (Respond (Inl e), w)
        | Inr input \<Rightarrow>
            (let wb = between R w in
             case get_result L (w_results wb) (rt_workspace_id q, rt_operation_id q, stage, input) of
               Inl e \<Rightarrow> (Respond (Inl e), wb)
             | Inr existing \<Rightarrow>
                 let (now, w1) = tick R wb;
                     (out, w2) = lift_ops w1 (claim_next L (w_ops w1) key (rt_request_id q) now (ro_lease R) input (ro_max_attempts R) (existing \<noteq> None)) in
                 case out of
                   Inl e \<Rightarrow> (Respond (Inl e), w2)
                 | Inr (u, Terminal) \<Rightarrow> (Respond (response_of L q u False None), w2)
                 | Inr (u, Busy) \<Rightarrow> (Respond (response_of L q u True (Some ''operation_stage_busy'')), w2)
                 | Inr (u, Claimed c) \<Rightarrow> claimed_round R q c u existing w2))"

text \<open>The loop over \<open>range(len(pipeline.stages) + 2)\<close>.\<close>

fun run_loop :: "orchestrator \<Rightarrow> runtime_request \<Rightarrow> operation_record \<Rightarrow> nat \<Rightarrow> rt_world \<Rightarrow> runtime_response res \<times> rt_world" where
  "run_loop R q r0 0 wa =
     (let w = between R wa in
      (response_of (ro_lib R) q (case get_operation (w_ops w) (request_key q) of Some x \<Rightarrow> x | None \<Rightarrow> r0) True
        (Some ''orchestrator_transition_limit''), w))"
| "run_loop R q r0 (Suc n) w =
     (case run_round R q r0 w of
        (Respond resp, w1) \<Rightarrow> (resp, w1)
      | (Continue, w1) \<Rightarrow> run_loop R q r0 n w1)"

definition run :: "orchestrator \<Rightarrow> runtime_request \<Rightarrow> rt_world \<Rightarrow> runtime_response res \<times> rt_world" where
  "run R q0 w =
     stop w (reparse_request (ro_lib R) q0) (\<lambda>q.
     case map_of (ro_pipelines R) (rt_request_type q) of
       None \<Rightarrow> let (now, w1) = tick R w in (reject_response (ro_lib R) q ''unknown_request_type'' now, w1)
     | Some p \<Rightarrow>
         let (now, w1) = tick R w; (out, w2) = lift_ops w1 (register_operation (w_ops w1) q p now) in
         case out of
           Inl (OperationConflict code) \<Rightarrow> let (t, w3) = tick R w2 in (reject_response (ro_lib R) q code t, w3)
         | Inl e \<Rightarrow> (Inl e, w2)
         | Inr r \<Rightarrow> run_loop R q r (length (pd_stages p) + 2) w2)"

definition cancel_operation :: "orchestrator \<Rightarrow> cancellation_signal \<Rightarrow> rt_world \<Rightarrow> runtime_status option res \<times> rt_world" where
  "cancel_operation R c0 w =
     stop w (reparse_signal (ro_lib R) c0) (\<lambda>c.
     let (now, w1) = tick R w; (out, w2) = lift_ops w1 (request_cancel (w_ops w1) c now) in
     (bindR out (\<lambda>r. case r of None \<Rightarrow> Inr None | Some x \<Rightarrow> bindR (status_of (ro_lib R) x) (\<lambda>st. Inr (Some st))), w2))"

definition operation_status :: "orchestrator \<Rightarrow> string \<Rightarrow> string \<Rightarrow> rt_world \<Rightarrow> runtime_status option res \<times> rt_world" where
  "operation_status R ws op_id w =
     (let (now, w1) = tick R w; (out, w2) = lift_ops w1 (refresh (w_ops w1) (ws, op_id) now) in
      (bindR out (\<lambda>r. case r of None \<Rightarrow> Inr None | Some x \<Rightarrow> bindR (status_of (ro_lib R) x) (\<lambda>st. Inr (Some st))), w2))"

subsection \<open>Answers are well-formed\<close>

lemma refs_reparse:
  assumes "\<forall>x\<in>set refs. ref_ok L x"
  shows "mapR (reparse_ref L) refs = Inr refs"
  using assms by (induction refs) (simp_all add: ref_ok_def)

lemma order_of_inj: "a \<in> set STAGE_NAMES \<Longrightarrow> b \<in> set STAGE_NAMES \<Longrightarrow> order_of a = order_of b \<Longrightarrow> a = b"
  by (auto simp: order_of_def stage_order_def STAGE_NAMES_def STAGE_STATES_def upt_rec split: if_splits)

lemma stages_sorted:
  assumes "stages_ok stages"
  shows "sorted (map order_of stages)" "distinct stages" "sorted_wrt (<) (map order_of stages)"
proof -
  have eq: "map order_of stages = sorted_set (map order_of stages)" using assms by (simp add: stages_ok_def Let_def)
  then show "sorted (map order_of stages)" by (metis sorted_set_simps(2))
  have d: "distinct (map order_of stages)" using eq by (metis sorted_set_simps(3))
  then show "distinct stages" by (simp add: distinct_map)
  from d \<open>sorted (map order_of stages)\<close> show "sorted_wrt (<) (map order_of stages)" by (simp add: strict_sorted_iff)
qed

lemma validate_refs:
  assumes "record_ok L r"
  shows "validate_stage_refs (op_refs r) (op_operation_id r) = Inr ()"
proof -
  have p: "stages_ok (op_stages r)" "map sr_stage_name (op_refs r) = take (op_stage_index r) (op_stages r)"
    using assms by (simp_all add: record_ok_def progress_ok_def)
  have "map (order_of \<circ> sr_stage_name) (op_refs r) = take (op_stage_index r) (map order_of (op_stages r))"
    by (simp add: p(2) take_map flip: map_map)
  then have "sorted (map (order_of \<circ> sr_stage_name) (op_refs r))" using stages_sorted(1) [OF p(1)] by (simp add: sorted_wrt_take)
  moreover have "distinct (map sr_stage_name (op_refs r))" using stages_sorted(2) [OF p(1)] by (simp add: p(2))
  ultimately show ?thesis using assms by (auto simp: validate_stage_refs_def record_ok_def texts_ok_def list_all_iff)
qed

lemma running_stage:
  assumes "record_ok L r" "\<not> terminal r" "op_stage_index r \<noteq> 0"
  shows "op_state r \<in> set STAGE_STATES" "op_refs r \<noteq> []" "sr_stage_name (last (op_refs r)) = op_state_value (op_state r)"
    "order_of (op_state_value (op_state r)) < order_of (op_stages r ! op_stage_index r)"
proof -
  have p: "stages_ok (op_stages r)" "map sr_stage_name (op_refs r) = take (op_stage_index r) (op_stages r)"
      "op_stage_index r < length (op_stages r)" "op_state r \<in> set STAGE_STATES"
      "op_state_value (op_state r) = op_stages r ! (op_stage_index r - 1)"
    using assms by (simp_all add: record_ok_def progress_ok_def)
  show "op_state r \<in> set STAGE_STATES" by (rule p(4))
  show ne: "op_refs r \<noteq> []" using p(2,3) assms(3) by auto
  have "sr_stage_name (last (op_refs r)) = last (take (op_stage_index r) (op_stages r))" using ne by (simp add: last_map flip: p(2))
  then show "sr_stage_name (last (op_refs r)) = op_state_value (op_state r)"
    using p(3,5) assms(3) by (cases "op_stage_index r") (simp_all add: take_Suc_conv_app_nth)
  show "order_of (op_state_value (op_state r)) < order_of (op_stages r ! op_stage_index r)"
    using stages_sorted(3) [OF p(1)] p(3,5) assms(3) by (simp add: sorted_wrt_iff_nth_less)
qed

lemma state_semantics:
  assumes "record_ok L r" "current = None \<or> \<not> terminal r \<and> current = Some (op_stages r ! op_stage_index r)"
  shows "validate_state_ref_semantics (op_state r) (op_refs r) current = Inr ()"
proof (cases "terminal r")
  case True
  then have "op_state r \<noteq> RECEIVED" "op_state r \<notin> set STAGE_STATES" by (auto simp: TERMINAL_STATES_def STAGE_STATES_def)
  moreover have "op_refs r \<noteq> []" if "op_state r = COMPLETED"
    using assms(1) that by (auto simp: record_ok_def progress_ok_def stages_ok_def)
  ultimately show ?thesis by (auto simp: validate_state_ref_semantics_def)
next
  case False
  show ?thesis
  proof (cases "op_stage_index r = 0")
    case True
    with assms False show ?thesis
      by (auto simp: record_ok_def progress_ok_def validate_state_ref_semantics_def stages_ok_def)
  next
    case i: False
    note S = running_stage [OF assms(1) False i]
    from S(1) have "op_state r \<noteq> RECEIVED" by (auto simp: STAGE_STATES_def)
    with S assms(2) show ?thesis by (auto simp: validate_state_ref_semantics_def)
  qed
qed

lemma new_response_id:
  assumes "rt_nonempty L (rr_request_id v) = Inr (rr_request_id v)" "rt_hex64 L (rr_operation_id v) = Inr (rr_operation_id v)"
    "rt_nonempty L (rr_workspace_id v) = Inr (rr_workspace_id v)" "rt_optional (rt_nonempty L) (rr_generation_id v) = Inr (rr_generation_id v)"
    "rt_optional (rt_safe_code L) (rr_error_code v) = Inr (rr_error_code v)" "parse_utc_timestamp (rr_updated_at v) = Inr t"
    "mapR (reparse_ref L) (rr_stage_result_refs v) = Inr (rr_stage_result_refs v)"
    "validate_stage_refs (rr_stage_result_refs v) (rr_operation_id v) = Inr ()"
    "(case rr_result_ref v of None \<Rightarrow> Inr None | Some x \<Rightarrow> bindR (reparse_ref L x) (\<lambda>y. Inr (Some y))) = Inr (rr_result_ref v)"
    "validate_state_ref_semantics (rr_state v) (rr_stage_result_refs v) None = Inr ()"
    and "case rr_result_ref v of None \<Rightarrow> True | Some x \<Rightarrow> x \<in> set (rr_stage_result_refs v) \<and> rr_stage_result_refs v \<noteq> [] \<and> x = last (rr_stage_result_refs v)"
    and "response_semantics (rr_response_status v) (rr_state v) (rr_stage_result_refs v) (rr_result_ref v) (rr_retryable v) (rr_error_code v)"
  shows "new_response L v = Inr v"
  unfolding new_response_def assms(1-10) bindR_simps guardR_def using assms(11,12) by simp

lemma response_ok:
  assumes "record_ok L r" "request_ok L q" "rt_operation_id q = op_operation_id r"
    and "terminal r \<and> err = None \<or> \<not> terminal r \<and> retry \<and> (\<exists>e. err = Some e \<and> code_ok L e)"
  shows "\<exists>resp. response_of L q r retry err = Inr resp \<and> rr_state resp = op_state r \<and> rr_stage_result_refs resp = op_refs r \<and>
    (rr_response_status resp = RETRY_LATER \<longleftrightarrow> \<not> terminal r) \<and> rr_request_id resp = rt_request_id q \<and> rr_operation_id resp = rt_operation_id q"
proof -
  note Q = request_okD [OF assms(2)]
  have T: "time_ok (op_updated_at r)" "\<forall>x\<in>set (op_refs r). ref_ok L x" using assms(1) by (simp_all add: record_ok_def texts_ok_def)
  then obtain t where t: "parse_utc_timestamp (op_updated_at r) = Inr t" by (auto simp: time_ok_def isOk_def split: sum.splits)
  note refs = refs_reparse [OF T(2)]
  have val: "validate_stage_refs (op_refs r) (rt_operation_id q) = Inr ()" using validate_refs [OF assms(1)] assms(3) by simp
  have sem: "validate_state_ref_semantics (op_state r) (op_refs r) None = Inr ()" by (rule state_semantics [OF assms(1)]) simp
  let ?err = "case err of Some e \<Rightarrow> Some e | None \<Rightarrow> op_error r"
  have err: "rt_optional (rt_safe_code L) ?err = Inr ?err"
    using assms(1,4) by (auto simp: rt_optional_Inr record_ok_def ending_ok_def code_ok_def split: option.splits)
  let ?rst = "if terminal r then response_status_for_state (op_state r) else if retry then RETRY_LATER else response_status_for_state (op_state r)"
  let ?result = "if op_refs r \<noteq> [] \<and> ?rst \<in> {S_COMPLETED, S_REJECTED, S_ABSTAINED, S_DEGRADED} then Some (last (op_refs r)) else None"
  have result: "(case ?result of None \<Rightarrow> Inr None | Some x \<Rightarrow> bindR (reparse_ref L x) (\<lambda>y. Inr (Some y))) = Inr ?result"
    using T(2) by (simp add: ref_ok_def)
  have guard: "case ?result of None \<Rightarrow> True | Some x \<Rightarrow> x \<in> set (op_refs r) \<and> op_refs r \<noteq> [] \<and> x = last (op_refs r)" by simp
  have rs: "response_semantics ?rst (op_state r) (op_refs r) ?result (?rst = RETRY_LATER) ?err"
  proof (cases "terminal r")
    case True
    have E: "op_state r = COMPLETED \<longleftrightarrow> op_error r = None" using assms(1) True by (simp add: record_ok_def ending_ok_def)
    have "map sr_stage_name (op_refs r) = take (op_stage_index r) (op_stages r)" "op_stages r \<noteq> []"
      using assms(1) by (simp_all add: record_ok_def progress_ok_def stages_ok_def)
    moreover have "op_state r \<in> {COMPLETED, REJECTED, ABSTAINED, DEGRADED} \<Longrightarrow> op_stage_index r \<noteq> 0"
      using assms(1) True by (auto simp: record_ok_def progress_ok_def stages_ok_def)
    ultimately have R: "op_state r \<in> {COMPLETED, REJECTED, ABSTAINED, DEGRADED} \<Longrightarrow> op_refs r \<noteq> []" by auto
    have "err = None" using assms(4) True by simp
    moreover have "op_state r \<in> {COMPLETED, REJECTED, ABSTAINED, DEGRADED, FAILED, CANCELLED}" using True by (simp add: TERMINAL_STATES_def)
    ultimately show ?thesis using True E R by (cases "op_state r") (simp_all add: response_semantics_def)
  next
    case False
    with assms(4) show ?thesis by (auto simp: response_semantics_def)
  qed
  have rl: "?rst = RETRY_LATER \<longleftrightarrow> \<not> terminal r" using assms(4) by (auto simp: TERMINAL_STATES_def)
  let ?v = "\<lparr>rr_request_id = rt_request_id q, rr_operation_id = rt_operation_id q, rr_workspace_id = rt_workspace_id q,
         rr_response_status = ?rst, rr_state = op_state r, rr_generation_id = rt_generation_id q, rr_stage_result_refs = op_refs r,
         rr_result_ref = ?result, rr_retryable = (?rst = RETRY_LATER), rr_error_code = ?err, rr_updated_at = op_updated_at r\<rparr>"
  have "new_response L ?v = Inr ?v"
    by (rule new_response_id) (simp_all only: runtime_response.select_convs Q err t refs val result guard sem rs)
  then have "response_of L q r retry err = Inr ?v" unfolding response_of_def Let_def .
  then show ?thesis using rl by simp
qed

lemma new_status_id:
  assumes "rt_hex64 L (rs_operation_id v) = Inr (rs_operation_id v)" "rt_nonempty L (rs_workspace_id v) = Inr (rs_workspace_id v)"
    "rt_optional (rt_nonempty L) (rs_current_stage v) = Inr (rs_current_stage v)" "parse_utc_timestamp (rs_deadline_at v) = Inr t"
    "parse_utc_timestamp (rs_updated_at v) = Inr t'" "rt_optional (rt_hex64 L) (rs_cancellation_id v) = Inr (rs_cancellation_id v)"
    "rt_optional (rt_safe_code L) (rs_error_code v) = Inr (rs_error_code v)"
    "mapR (reparse_ref L) (rs_stage_result_refs v) = Inr (rs_stage_result_refs v)"
    "validate_stage_refs (rs_stage_result_refs v) (rs_operation_id v) = Inr ()"
    "validate_state_ref_semantics (rs_state v) (rs_stage_result_refs v) (rs_current_stage v) = Inr ()"
    "validate_terminal_error_semantics (rs_state v) (rs_error_code v) = Inr ()"
    and "case rs_current_stage v of None \<Rightarrow> True | Some c \<Rightarrow> c \<in> set STAGE_NAMES" "canonical_uint (rs_attempt v)" "canonical_uint (rs_revision v)"
      "rs_state v \<in> set TERMINAL_STATES \<longleftrightarrow> rs_current_stage v = None"
  shows "new_status L v = Inr v"
  unfolding new_status_def assms(1-11) bindR_simps guardR_def using assms(12-15) by simp

lemma status_ok:
  assumes "nfc_ascii L" "record_ok L r"
  shows "\<exists>st. status_of L r = Inr st \<and> rs_state st = op_state r \<and> rs_stage_result_refs st = op_refs r \<and> rs_error_code st = op_error r"
proof -
  let ?current = "if \<not> terminal r \<and> op_stage_index r < length (op_stages r) then Some (op_stages r ! op_stage_index r) else None"
  have cur: "?current = (if terminal r then None else Some (op_stages r ! op_stage_index r))" "\<not> terminal r \<Longrightarrow> op_stage_index r < length (op_stages r)"
    using assms(2) by (auto simp: record_ok_def progress_ok_def)
  have T: "rt_hex64 L (op_operation_id r) = Inr (op_operation_id r)" "rt_nonempty L (op_workspace_id r) = Inr (op_workspace_id r)"
      "\<forall>x\<in>set (op_refs r). ref_ok L x" "rt_optional (rt_hex64 L) (map_option cs_cancellation_id (op_cancellation r)) = Inr (map_option cs_cancellation_id (op_cancellation r))"
    using assms(2) by (auto simp: record_ok_def texts_ok_def rt_optional_Inr split: option.splits)
  obtain t t' where t: "parse_utc_timestamp (op_deadline_at r) = Inr t" "parse_utc_timestamp (op_updated_at r) = Inr t'"
    using assms(2) by (auto simp: record_ok_def texts_ok_def time_ok_def isOk_def split: sum.splits)
  have err: "rt_optional (rt_safe_code L) (op_error r) = Inr (op_error r)"
    using assms(2) by (auto simp: rt_optional_Inr record_ok_def ending_ok_def code_ok_def split: option.splits)
  have names: "op_stages r ! op_stage_index r \<in> set STAGE_NAMES" if "\<not> terminal r"
    using assms(2) cur(2) [OF that] nth_mem unfolding record_ok_def progress_ok_def stages_ok_def by blast
  have "list_all (\<lambda>n. nfc L n = n \<and> n \<noteq> []) STAGE_NAMES" by (simp add: STAGE_NAMES_def STAGE_STATES_def nfc_asciiD [OF assms(1)])
  then have stage: "rt_optional (rt_nonempty L) ?current = Inr ?current"
    using names unfolding cur(1) by (auto simp: rt_optional_Inr list_all_iff)
  have ended: "validate_terminal_error_semantics (op_state r) (op_error r) = Inr ()"
    using assms(2) by (auto simp: validate_terminal_error_semantics_def record_ok_def ending_ok_def)
  have sem: "validate_state_ref_semantics (op_state r) (op_refs r) ?current = Inr ()"
    unfolding cur(1) by (rule state_semantics [OF assms(2)]) auto
  have "case ?current of None \<Rightarrow> True | Some c \<Rightarrow> c \<in> set STAGE_NAMES" "terminal r \<longleftrightarrow> ?current = None" using names cur by auto
  note all = T(1,2,4) t err stage ended sem this refs_reparse [OF T(3)] validate_refs [OF assms(2)] canonical_uint_str_nat
  let ?v = "\<lambda>k. \<lparr>rs_operation_id = op_operation_id r, rs_workspace_id = op_workspace_id r, rs_state = op_state r, rs_current_stage = ?current,
         rs_attempt = str_nat k, rs_revision = str_nat (op_revision r), rs_deadline_at = op_deadline_at r,
         rs_cancellation_id = map_option cs_cancellation_id (op_cancellation r), rs_stage_result_refs = op_refs r,
         rs_updated_at = op_updated_at r, rs_error_code = op_error r\<rparr>"
  have "new_status L (?v k) = Inr (?v k)" for k
    by (rule new_status_id [where t = t and t' = t']; unfold runtime_status.select_convs; fact all)
  then show ?thesis unfolding status_of_def Let_def by simp
qed

text \<open>
  what the runtime reports is accepted by its own contracts. For every operation that a store can reach, the status is
  accepted, and so is the response: for an ended operation with no further arguments, for a running one as a retry with an error code.
\<close>

theorem reports_accepted:
  assumes "nfc_ascii L" "(op_step L)\<^sup>*\<^sup>* new_op_store s" "get_operation s (request_key q) = Some r" "request_ok L q" "code_ok L e"
  shows "(\<exists>st. status_of L r = Inr st \<and> rs_state st = op_state r \<and> rs_stage_result_refs st = op_refs r) \<and>
    (terminal r \<longrightarrow> (\<exists>resp. response_of L q r False None = Inr resp \<and> rr_state resp = op_state r \<and> rr_stage_result_refs resp = op_refs r)) \<and>
    (\<not> terminal r \<longrightarrow> (\<exists>resp. response_of L q r True (Some e) = Inr resp \<and> rr_response_status resp = RETRY_LATER))"
proof -
  have r: "record_ok L r" "request_key q = (op_workspace_id r, op_operation_id r)"
    using store_okD [OF reachable_store_ok [OF assms(2,1)] assms(3)] by blast+
  then have id: "rt_operation_id q = op_operation_id r" by (simp add: request_key_def)
  show ?thesis using status_ok [OF assms(1) r(1)] response_ok [OF r(1) assms(4) id] assms(5) by blast
qed

subsection \<open>Stored results read back\<close>

lemma rt_bytes_json:
  assumes "normal L j"
  shows "\<exists>b. rt_canonical_bytes L (json_py j) = Inr b \<and> loads b = Some (sort_keys j)"
proof -
  have adm: "admissible L False (json_py j)" "canonical_form_of L (json_py j) = j"
    using admissible_json_py [OF assms] canonical_form_json_py [OF assms] by blast+
  obtain b where b: "contract_canonical_bytes L (json_py j) = Inr b"
    using contract.to_bytes_eq [of L "json_py j"] adm(1) unfolding contract_canonical_bytes_def by auto
  then have "loads b = Some (sort_keys j)"
    using contract.to_bytes_loads [of L "json_py j" b] unfolding contract_canonical_bytes_def adm(2) sort_keys_idem by blast
  with b show ?thesis by (simp add: rt_canonical_bytes_def)
qed

lemma rt_bytes_loads:
  assumes "nfc_idem L" "rt_canonical_bytes L v = Inr b"
  shows "\<exists>j. loads b = Some j \<and> normal L j \<and> sort_keys j = j"
proof -
  have "contract_canonical_bytes L v = Inr b" using assms(2) by (simp add: rt_canonical_bytes_def split: sum.splits)
  then obtain j where j: "contract_normalize L v = Inr j" "b = dumps_sorted j" by (auto simp: contract_canonical_bytes_def bindR_Inr_iff)
  from contract_normalize_normal [OF assms(1) j(1)] have n: "normal L j" "sort_keys j = j" by blast+
  with loads_canonical [OF n(1)] j(2) show ?thesis by simp
qed

lemma member_normal:
  assumes "nfc_idem L" "bindR (rt_canonical_bytes L (pdict [(k, json_py j)])) (\<lambda>b.
     case loads b of
       Some d \<Rightarrow> (case jget d k of Some (JObj kvs) \<Rightarrow> Inr (JObj kvs) | _ \<Rightarrow> Inl InvalidContractValue)
     | None \<Rightarrow> Inl InvalidContractValue) = Inr p"
  shows "normal L p" "sort_keys p = p" "\<exists>kvs. p = JObj kvs"
proof -
  from assms(2) obtain b d where b: "rt_canonical_bytes L (pdict [(k, json_py j)]) = Inr b" "loads b = Some d" "jget d k = Some p"
      and o: "\<exists>kvs. p = JObj kvs"
    unfolding bindR_Inr_iff by (force split: option.splits json.splits)
  from rt_bytes_loads [OF assms(1) b(1)] b(2) have d: "normal L d" "sort_keys d = d" by simp_all
  obtain kvs where kvs: "d = JObj kvs" "map_of kvs k = Some p" using b(3) by (cases d) (auto simp: jget_def)
  show "normal L p" using d(1) kvs by (auto simp: list_all_iff dest!: map_of_SomeD)
  have "jwf d" by (rule normal_jwf [OF d(1)])
  from jget_sort_keys [OF this, of k] d(2) b(3) show "sort_keys p = p" by simp
  show "\<exists>kvs. p = JObj kvs" by (rule o)
qed

lemmas canonical_payload_normal = member_normal [where k = "''payload''", folded canonical_payload_def]
lemmas canonical_object_normal = member_normal [where k = "''value''", folded canonical_object_def]

lemma canonical_payload_id:
  assumes "nfc_ascii L" "normal L (JObj kvs)" "sort_keys (JObj kvs) = JObj kvs"
  shows "canonical_payload L (JObj kvs) = Inr (JObj kvs)"
proof -
  let ?j = "JObj [(''payload'', JObj kvs)]"
  have n: "normal L ?j" using assms(2) nfc_asciiD [OF assms(1), of "''payload''"] by simp
  obtain b where b: "rt_canonical_bytes L (json_py ?j) = Inr b" "loads b = Some (sort_keys ?j)" using rt_bytes_json [OF n] by blast
  have "pdict [(''payload'', json_py (JObj kvs))] = json_py ?j" by (simp add: pdict_def)
  moreover have "jget (sort_keys ?j) ''payload'' = Some (JObj kvs)"
    using jget_sort_keys [OF normal_jwf [OF n], of "''payload''"] assms(3) by (simp add: jget_def del: sort_keys.simps)
  ultimately show ?thesis using b unfolding canonical_payload_def by simp
qed

text \<open>A validated result, and that validating it again returns it.\<close>

definition result_ok :: "lib \<Rightarrow> stage_result \<Rightarrow> bool" where
  "result_ok L x \<longleftrightarrow>
     sg_stage_name x \<in> set STAGE_NAMES \<and> nfc L (sg_schema_id x) = sg_schema_id x \<and>
     (\<forall>p\<in>set (sg_provenance x). nfc L p = p \<and> p \<noteq> []) \<and> sorted_set (sg_provenance x) = sg_provenance x \<and>
     (sg_error x = None \<longleftrightarrow> terminal_default (sg_disposition x) = None) \<and> (\<forall>e. sg_error x = Some e \<longrightarrow> code_ok L e) \<and>
     normal L (sg_payload x) \<and> sort_keys (sg_payload x) = sg_payload x \<and> (\<exists>kvs. sg_payload x = JObj kvs)"

lemma stage_name_normal: "nfc_ascii L \<Longrightarrow> n \<in> set STAGE_NAMES \<Longrightarrow> nfc L n = n \<and> n \<noteq> []"
  by (auto simp: STAGE_NAMES_def STAGE_STATES_def intro: nfc_asciiD)

lemma safe_code_ascii: "is_safe_code s \<Longrightarrow> list_all (\<lambda>c. (of_char c :: nat) < 128) s"
  by (cases s) (auto simp: is_safe_code_def lower_char_def is_digit_def list_all_iff)

lemma code_ok_iff: "nfc_ascii L \<Longrightarrow> code_ok L e \<longleftrightarrow> is_safe_code e"
  using nfc_asciiD [of L e] safe_code_ascii [of e] by (auto simp: code_ok_def) (auto simp: is_safe_code_def)

lemma new_stage_result_ok:
  assumes "nfc_ascii L" "nfc_idem L" "new_stage_result L x0 = Inr x"
  shows "result_ok L x"
proof -
  have idem: "nfc L (nfc L t) = nfc L t" for t using assms(2) by (simp add: nfc_idem_def)
  from assms(3) obtain err payload where x: "sg_stage_name x0 \<in> set STAGE_NAMES" "sg_schema_id x0 \<noteq> []"
      "\<not> (terminal_default (sg_disposition x0) = None \<and> sg_error x0 \<noteq> None)"
      "rt_optional (runtime_code L) (case sg_error x0 of None \<Rightarrow> terminal_default (sg_disposition x0) | Some e \<Rightarrow> Some e) = Inr err"
      "list_all (\<lambda>r. r \<noteq> []) (map (nfc L) (sg_provenance x0))" "sorted_set (map (nfc L) (sg_provenance x0)) = map (nfc L) (sg_provenance x0)"
      "canonical_payload L (sg_payload x0) = Inr payload"
      "x = x0\<lparr>sg_stage_name := nfc L (sg_stage_name x0), sg_schema_id := nfc L (sg_schema_id x0), sg_error := err,
            sg_provenance := map (nfc L) (sg_provenance x0), sg_payload := payload\<rparr>"
    unfolding new_stage_result_def Let_def bindR_Inr_iff guardR_Inr_iff by blast
  have err: "(err = None \<longleftrightarrow> terminal_default (sg_disposition x0) = None) \<and> (\<forall>e. err = Some e \<longrightarrow> code_ok L e)"
    using x(3,4) code_ok_iff [OF assms(1)]
    by (auto simp: rt_optional_Inr runtime_code_def split: option.splits if_splits)
  show ?thesis
    using x(1,2,5,6,8) err canonical_payload_normal [OF assms(2) x(7)] stage_name_normal [OF assms(1) x(1)]
    by (auto simp: result_ok_def idem list_all_iff)
qed

lemma new_stage_result_id:
  assumes "nfc_ascii L" "result_ok L x" "sg_schema_id x \<noteq> []"
  shows "new_stage_result L x = Inr x"
proof -
  note N = stage_name_normal [OF assms(1)]
  obtain kvs where kvs: "sg_payload x = JObj kvs" using assms(2) by (auto simp: result_ok_def)
  have p: "canonical_payload L (sg_payload x) = Inr (sg_payload x)"
    using canonical_payload_id [OF assms(1), of kvs] assms(2) by (simp add: result_ok_def kvs)
  have prov: "map (nfc L) (sg_provenance x) = sg_provenance x" using assms(2) by (auto simp: result_ok_def intro: map_idI)
  have err: "rt_optional (runtime_code L) (case sg_error x of None \<Rightarrow> terminal_default (sg_disposition x) | Some e \<Rightarrow> Some e) = Inr (sg_error x)"
  proof (cases "sg_error x")
    case None
    then have "terminal_default (sg_disposition x) = None" using assms(2) unfolding result_ok_def by blast
    with None show ?thesis by (simp add: rt_optional_def)
  next
    case (Some e)
    then have "code_ok L e" using assms(2) unfolding result_ok_def by blast
    then have "is_safe_code e" "nfc L e = e" by (simp_all add: code_ok_def)
    with Some show ?thesis by (simp add: rt_optional_def runtime_code_def)
  qed
  have g: "sg_stage_name x \<in> set STAGE_NAMES" "\<not> (terminal_default (sg_disposition x) = None \<and> sg_error x \<noteq> None)"
      "list_all (\<lambda>r. r \<noteq> []) (sg_provenance x)" "sorted_set (sg_provenance x) = sg_provenance x" "nfc L (sg_schema_id x) = sg_schema_id x"
      "(case sg_payload x of JObj kvs \<Rightarrow> True | _ \<Rightarrow> False) = True"
    using assms(2) kvs by (simp_all add: result_ok_def list_all_iff) (cases "terminal_default (sg_disposition x)", simp_all)
  show ?thesis
    unfolding new_stage_result_def Let_def prov err p guardR_def
    by (simp only: g N [OF g(1)] assms(3) if_True not_False_eq_True bindR_simps simp_thms) simp
qed

lemma semantic_normal:
  assumes "nfc_ascii L" "result_ok L x"
  shows "normal L (semantic_json x (sg_payload x))"
proof -
  have "nfc L (disposition_value d) = disposition_value d" for d by (cases d) (simp_all add: nfc_asciiD [OF assms(1)])
  moreover have "normal L (opt_json (sg_error x))" using assms(2) by (auto simp: opt_json_def result_ok_def code_ok_def split: option.splits)
  ultimately show ?thesis
    using assms(2) stage_name_normal [OF assms(1)] by (simp add: semantic_json_def result_ok_def list_all_iff nfc_asciiD [OF assms(1)])
qed

lemma semantic_bytes_loads:
  assumes "nfc_ascii L" "result_ok L x"
  shows "\<exists>b. semantic_bytes L x = Inr b \<and> loads b = Some (sort_keys (semantic_json x (sg_payload x)))"
proof -
  obtain kvs where kvs: "sg_payload x = JObj kvs" using assms(2) by (auto simp: result_ok_def)
  have "canonical_payload L (sg_payload x) = Inr (sg_payload x)"
    using canonical_payload_id [OF assms(1), of kvs] assms(2) by (simp add: result_ok_def kvs)
  with rt_bytes_json [OF semantic_normal [OF assms]] show ?thesis by (simp add: semantic_bytes_def del: json_py.simps sort_keys.simps)
qed

lemma disposition_of_value: "disposition_of (disposition_value d) = Some d"
  by (cases d) (simp_all add: disposition_of_def)

lemma restore_persisted:
  assumes "nfc_ascii L" "result_ok L x" "sg_schema_id x \<noteq> []" "semantic_bytes L x = Inr b"
  shows "restore_result L \<lparr>pr_ref = ref, pr_bytes = b\<rparr> = Inr (ref, x)"
proof -
  let ?j = "semantic_json x (sg_payload x)"
  have l: "loads b = Some (sort_keys ?j)" using semantic_bytes_loads [OF assms(1,2)] assms(4) by auto
  have w: "jwf ?j" by (rule normal_jwf [OF semantic_normal [OF assms(1,2)]])
  have g: "jget ?j ''stage_name'' = Some (JStr (sg_stage_name x))" "jget ?j ''payload'' = Some (sg_payload x)"
      "jget ?j ''disposition'' = Some (JStr (disposition_value (sg_disposition x)))" "jget ?j ''schema_id'' = Some (JStr (sg_schema_id x))"
      "jget ?j ''provenance_refs'' = Some (JList (map JStr (sg_provenance x)))" "jget ?j ''error_code'' = Some (opt_json (sg_error x))"
    by (simp_all add: semantic_json_def jget_def)
  have sorted: "sort_keys (sg_payload x) = sg_payload x" using assms(2) by (simp add: result_ok_def)
  have err: "json_opt (sort_keys (opt_json e)) = Inr e" for e by (cases e) (simp_all add: json_opt_def opt_json_def)
  have prov: "json_strings (sort_keys (JList (map JStr xs))) = Inr xs" for xs
    by (simp add: json_strings_def comp_def mapR_as_str)
  have i: "jindex (sort_keys ?j) ''payload'' = Inr (sg_payload x)"
      "bindR (jindex (sort_keys ?j) ''provenance_refs'') json_strings = Inr (sg_provenance x)"
      "bindR (jindex (sort_keys ?j) ''error_code'') json_opt = Inr (sg_error x)"
    by (simp_all only: jindex_sort_keys [OF w g(2)] jindex_sort_keys [OF w g(5)] jindex_sort_keys [OF w g(6)] bindR_simps sorted err prov)
  have "new_stage_result L \<lparr>sg_stage_name = sg_stage_name x, sg_payload = sg_payload x, sg_disposition = sg_disposition x,
      sg_schema_id = sg_schema_id x, sg_provenance = sg_provenance x, sg_error = sg_error x\<rparr> = Inr x"
    using new_stage_result_id [OF assms(1-3)] by (cases x) simp
  then show ?thesis
    unfolding restore_result_def persisted_result.select_convs l option.case jstr_sort_keys [OF w g(1)] jstr_sort_keys [OF w g(3)]
      jstr_sort_keys [OF w g(4)] i bindR_simps disposition_of_value by simp
qed

lemma stage_ref_admissible:
  assumes "nfc_ascii L"
  shows "\<exists>h. rt_hash L STAGE_RESULT_DOMAIN (stage_ref_identity r) = Inr h \<and> (\<exists>b. h = hex (sha256 L b))"
proof -
  have "admissible L False (stage_ref_identity r)"
    by (simp add: stage_ref_identity_def pdict_def admissible_PDict nfc_asciiD [OF assms] list_all_iff)
  then show ?thesis
    by (auto simp: rt_hash_def rt_canonical_bytes_def contract_canonical_bytes_def contract.norm_eq sha256_hex_def)
qed

lemma nfc_hex64: "nfc_ascii L \<Longrightarrow> is_hex64 t \<Longrightarrow> rt_hex64 L t = Inr t"
proof -
  assume L: "nfc_ascii L" and t: "is_hex64 t"
  have "list_all (\<lambda>c. (of_char c :: nat) < 128) t"
    using t by (auto simp: is_hex64_def is_hex_char_def is_digit_def list_all_iff)
  with nfc_asciiD [OF L this] t show ?thesis by (auto simp: is_hex64_def)
qed

text \<open>SHA-256 digests have 32 bytes.\<close>

definition sha256_size :: "lib \<Rightarrow> bool" where
  "sha256_size L \<longleftrightarrow> (\<forall>b. length (sha256 L b) = 32)"

lemma sha256_hex64: "sha256_size L \<Longrightarrow> is_hex64 (sha256_hex L b)"
  by (simp add: is_hex64_def sha256_hex_def sha256_size_def hex_is_hex)

lemma create_ref_total:
  assumes "nfc_ascii L" "sha256_size L" "is_hex64 op_id" "is_hex64 input" "is_hex64 content" "stage \<in> set STAGE_NAMES"
    and "nfc L schema = schema" "schema \<noteq> []" "time_ok created" "\<forall>p\<in>set prov. nfc L p = p \<and> p \<noteq> []" "sorted_set prov = prov"
  shows "\<exists>ref. create_ref L op_id stage input content schema created prov = Inr ref \<and> ref_ok L ref \<and>
    sr_operation_id ref = op_id \<and> sr_stage_name ref = stage \<and> sr_input_digest ref = input"
proof -
  let ?r = "\<lambda>rid. \<lparr>sr_version = STAGE_RESULT_REF_VERSION, sr_result_id = rid, sr_operation_id = op_id, sr_stage_name = stage,
      sr_input_digest = input, sr_content_digest = content, sr_schema_id = schema, sr_created_at = created, sr_provenance = prov\<rparr>"
  have prov: "mapR (rt_nonempty L) prov = Inr prov" using assms(10) by (induction prov) (auto simp: rt_nonempty_def)
  have same: "stage_ref_identity (?r a) = stage_ref_identity (?r b)" for a b by (simp add: stage_ref_identity_def)
  obtain h where h: "rt_hash L STAGE_RESULT_DOMAIN (stage_ref_identity (?r [])) = Inr h" "is_hex64 h"
    using stage_ref_admissible [OF assms(1), of "?r []"] sha256_hex64 [OF assms(2)] by (auto simp: sha256_hex_def)
  obtain t where t: "parse_utc_timestamp created = Inr t" using assms(9) by (auto simp: time_ok_def isOk_def split: sum.splits)
  note H = nfc_hex64 [OF assms(1) h(2)] nfc_hex64 [OF assms(1,3)] nfc_hex64 [OF assms(1,4)] nfc_hex64 [OF assms(1,5)]
  have n: "rt_nonempty L stage = Inr stage" "rt_nonempty L schema = Inr schema" using stage_name_normal [OF assms(1,6)] assms(7,8) by simp_all
  have "rt_hash L STAGE_RESULT_DOMAIN (stage_ref_identity (?r h)) = Inr h" using h(1) same by metis
  then have "reparse_ref L (?r h) = Inr (?r h)"
    unfolding reparse_ref_def stage_ref.select_convs H n prov t bindR_simps guardR_def Let_def using assms(6,11) by simp
  moreover have "create_ref L op_id stage input content schema created prov = reparse_ref L (?r h)"
    unfolding create_ref_def prov bindR_simps Let_def assms(11) h(1) by simp
  ultimately show ?thesis by (simp add: ref_ok_def)
qed

lemma create_ref_ok:
  assumes "nfc_idem L" "create_ref L op_id stage input content schema created prov = Inr ref"
  shows "ref_ok L ref" "sr_operation_id ref = nfc L op_id" "sr_stage_name ref = nfc L stage" "sr_input_digest ref = nfc L input" "nfc L schema \<noteq> []"
proof -
  from assms(2) obtain r where r: "reparse_ref L r = Inr ref" "sr_operation_id r = op_id" "sr_stage_name r = stage" "sr_input_digest r = input" "sr_schema_id r = schema"
    unfolding create_ref_def Let_def bindR_Inr_iff by force
  show "ref_ok L ref" using reparse_ref_idem [OF assms(1) r(1)] by (simp add: ref_ok_def)
  show "sr_operation_id ref = nfc L op_id" "sr_stage_name ref = nfc L stage" "sr_input_digest ref = nfc L input" "nfc L schema \<noteq> []"
    using r unfolding reparse_ref_def Let_def bindR_Inr_iff by auto
qed

theorem reports_accepted_witness:
  "\<exists>st. status_of demo_lib (fresh_record demo_op demo_pipeline demo_now) = Inr st \<and> rs_state st = RECEIVED"
proof -
  have "code_ok demo_lib ''busy''" by (simp add: code_ok_def nfc_asciiD [OF demo_lib_ascii] is_safe_code_def lower_char_def)
  moreover have "op_state (fresh_record demo_op demo_pipeline demo_now) = RECEIVED" by (simp add: fresh_record_def)
  ultimately show ?thesis using reports_accepted [OF demo_lib_ascii demo_ops_reachable demo_record demo_op_ok] by auto
qed

end
