(* ===== verification/OrchestratorRuns.thy ===== *)
theory OrchestratorRuns
  imports Orchestrator
begin

text \<open>
  Whole runs of \<open>RuntimeOrchestrator\<close>, with other threads before any access to a store: every part of a run keeps the
  two stores well-formed, the loop ends within its bound, and the caller gets what the record says.
\<close>

subsection \<open>What the stores keep\<close>

definition results_ok :: "lib \<Rightarrow> result_store \<Rightarrow> bool" where
  "results_ok L rs \<longleftrightarrow> (\<forall>ws op_id stage input p. map_of rs (ws, op_id, stage, input) = Some p \<longrightarrow>
     ref_ok L (pr_ref p) \<and> sr_operation_id (pr_ref p) = op_id \<and> sr_stage_name (pr_ref p) = stage \<and> sr_input_digest (pr_ref p) = input \<and>
     (\<exists>x. result_ok L x \<and> restore_result L p = Inr (pr_ref p, x)))"

lemma put_once_kept:
  assumes L: "nfc_ascii L" "nfc_idem L" and rs: "results_ok L rs" and x: "result_ok L x" and ids: "nfc L op_id = op_id" "nfc L input = input"
  shows "results_ok L (snd (put_once L rs ws op_id input x created))"
    "fst (put_once L rs ws op_id input x created) = Inr (ref, y) \<Longrightarrow>
       ref_ok L ref \<and> sr_operation_id ref = op_id \<and> sr_stage_name ref = sg_stage_name x \<and> sr_input_digest ref = input \<and> result_ok L y"
proof -
  let ?put = "put_once L rs ws op_id input x created" and ?key = "(ws, op_id, sg_stage_name x, input)"
  have "results_ok L (snd ?put) \<and> (\<forall>ref y. fst ?put = Inr (ref, y) \<longrightarrow>
       ref_ok L ref \<and> sr_operation_id ref = op_id \<and> sr_stage_name ref = sg_stage_name x \<and> sr_input_digest ref = input \<and> result_ok L y)"
  proof (cases "\<exists>b ref. semantic_bytes L x = Inr b \<and>
      create_ref L op_id (sg_stage_name x) input (sha256_hex L (STAGE_CONTENT_DOMAIN @ b)) (sg_schema_id x) created (sg_provenance x) = Inr ref")
    case True
    then obtain b ref where b: "semantic_bytes L x = Inr b"
      and ref: "create_ref L op_id (sg_stage_name x) input (sha256_hex L (STAGE_CONTENT_DOMAIN @ b)) (sg_schema_id x) created (sg_provenance x) = Inr ref" by blast
    note C = create_ref_ok [OF L(2) ref]
    have stage: "nfc L (sg_stage_name x) = sg_stage_name x" using x stage_name_normal [OF L(1)] by (simp add: result_ok_def)
    have "nfc L (sg_schema_id x) = sg_schema_id x" using x by (simp add: result_ok_def)
    with C(5) have rb: "restore_result L \<lparr>pr_ref = ref, pr_bytes = b\<rparr> = Inr (ref, x)" by (intro restore_persisted [OF L(1) x _ b]) simp
    show ?thesis
    proof (cases "map_of rs ?key")
      case None
      then have "?put = (Inr (ref, x), dict_set ?key \<lparr>pr_ref = ref, pr_bytes = b\<rparr> rs)"
        by (simp add: put_once_def b ref rb Let_def)
      with rs C x rb ids stage show ?thesis by (auto simp: results_ok_def dict_simps)
    next
      case (Some old)
      then have old: "ref_ok L (pr_ref old) \<and> sr_operation_id (pr_ref old) = op_id \<and> sr_stage_name (pr_ref old) = sg_stage_name x \<and>
          sr_input_digest (pr_ref old) = input" "\<exists>z. result_ok L z \<and> restore_result L old = Inr (pr_ref old, z)"
        using rs unfolding results_ok_def by blast+
      have "?put = (if pr_bytes old \<noteq> b then Inl StageResultConflict else restore_result L old, rs)"
        by (simp add: put_once_def b ref Some Let_def)
      with rs old show ?thesis by auto
    qed
  next
    case False
    then have "snd ?put = rs \<and> (\<exists>e. fst ?put = Inl e)" unfolding put_once_def by (auto simp: stop_def split: sum.splits)
    with rs show ?thesis by auto
  qed
  then show "results_ok L (snd ?put)" "fst ?put = Inr (ref, y) \<Longrightarrow>
       ref_ok L ref \<and> sr_operation_id ref = op_id \<and> sr_stage_name ref = sg_stage_name x \<and> sr_input_digest ref = input \<and> result_ok L y" by blast+
qed

subsection \<open>A run answers from the record\<close>

text \<open>
  Assumptions on the surroundings: digests have their size, the clock stays within four-digit years, the other threads use the stores through their
  methods, and the error codes that handlers raise passed the constructors of the two exceptions.
\<close>

definition surroundings_ok :: "orchestrator \<Rightarrow> bool" where
  "surroundings_ok R \<longleftrightarrow>
     nfc_ascii (ro_lib R) \<and> nfc_idem (ro_lib R) \<and> sha256_size (ro_lib R) \<and> (\<forall>n. in_years (ro_clock R n)) \<and>
     (\<forall>w. (op_step (ro_lib R))\<^sup>*\<^sup>* (w_ops w) (w_ops (ro_others R w))) \<and>
     (\<forall>w. results_ok (ro_lib R) (w_results w) \<longrightarrow> results_ok (ro_lib R) (w_results (ro_others R w))) \<and>
     (\<forall>stage cx n code. ro_handlers R stage cx n \<in> {Inl (TransientStageError code), Inl (FatalStageError code)} \<longrightarrow> code_ok (ro_lib R) code)"

definition world_inv :: "orchestrator \<Rightarrow> runtime_request \<Rightarrow> rt_world \<Rightarrow> bool" where
  "world_inv R q w \<longleftrightarrow>
     store_ok (ro_lib R) (w_ops w) \<and> results_ok (ro_lib R) (w_results w) \<and> (\<exists>r. get_operation (w_ops w) (request_key q) = Some r)"

text \<open>A response that says what the record says; a conflict is the only other outcome.\<close>

definition reports :: "runtime_request \<Rightarrow> runtime_response \<Rightarrow> op_store \<Rightarrow> bool" where
  "reports q resp s \<longleftrightarrow>
     (\<exists>r. get_operation s (request_key q) = Some r \<and> rr_state resp = op_state r \<and> rr_stage_result_refs resp = op_refs r \<and>
       (rr_response_status resp = RETRY_LATER \<longleftrightarrow> \<not> terminal r))"

definition conflict :: "exn \<Rightarrow> bool" where
  "conflict e \<longleftrightarrow> e = StageClaimConflict \<or> (\<exists>m. e = OperationConflict m)"

definition answers :: "runtime_request \<Rightarrow> runtime_response res \<times> rt_world \<Rightarrow> bool" where
  "answers q x \<longleftrightarrow> (case fst x of Inr resp \<Rightarrow> reports q resp (w_ops (snd x)) | Inl e \<Rightarrow> conflict e)"

lemma surroundings_okD:
  assumes "surroundings_ok R"
  shows "nfc_ascii (ro_lib R)" "nfc_idem (ro_lib R)" "sha256_size (ro_lib R)" "in_years (ro_clock R n)"
  using assms by (simp_all add: surroundings_ok_def)

lemma world_inv_kept:
  assumes "world_inv R q w" "kept_ok (ro_lib R) (w_ops w) s'"
  shows "world_inv R q (w\<lparr>w_ops := s'\<rparr>)"
  using assms unfolding world_inv_def kept_ok_def store_evolves_def by fastforce

lemma others_kept:
  assumes "surroundings_ok R" "world_inv R q w"
  shows "kept_ok (ro_lib R) (w_ops w) (w_ops (ro_others R w))" "world_inv R q (ro_others R w)"
proof -
  have "(op_step (ro_lib R))\<^sup>*\<^sup>* (w_ops w) (w_ops (ro_others R w))" using assms(1) by (simp add: surroundings_ok_def)
  then show k: "kept_ok (ro_lib R) (w_ops w) (w_ops (ro_others R w))"
    using op_steps_kept surroundings_okD(1) [OF assms(1)] assms(2) unfolding world_inv_def by blast
  have "results_ok (ro_lib R) (w_results (ro_others R w))" using assms by (simp add: surroundings_ok_def world_inv_def)
  with k show "world_inv R q (ro_others R w)"
    using assms(2) unfolding world_inv_def kept_ok_def store_evolves_def by fastforce
qed

lemma world_inv_ticks [simp]: "world_inv R q (w\<lparr>w_ticks := n\<rparr>) = world_inv R q w"
  by (simp add: world_inv_def)

lemma between_kept:
  assumes "surroundings_ok R" "world_inv R q w"
  shows "world_inv R q (between R w)" "store_evolves (w_ops w) (w_ops (between R w))"
  using others_kept [OF assms] by (simp_all add: between_def kept_ok_def)

lemma tick_kept:
  assumes "surroundings_ok R" "world_inv R q w" "tick R w = (now, w')"
  shows "kept_ok (ro_lib R) (w_ops w) (w_ops w')"
  using others_kept(1) [OF assms(1,2)] assms(3) by (auto simp: tick_def Let_def)

lemma world_inv_tick:
  assumes "surroundings_ok R" "world_inv R q w" "tick R w = (now, w')"
  shows "world_inv R q w'" "in_years now"
  using others_kept(2) [OF assms(1,2)] surroundings_okD(4) [OF assms(1)] assms(3) by (auto simp: tick_def Let_def)

lemma answers_record:
  assumes "request_ok (ro_lib R) q" "world_inv R q w" "get_operation (w_ops w) (request_key q) = Some r"
    and "terminal r \<and> err = None \<or> \<not> terminal r \<and> retry \<and> (\<exists>e. err = Some e \<and> code_ok (ro_lib R) e)"
  shows "answers q (response_of (ro_lib R) q r retry err, w)"
proof -
  have r: "record_ok (ro_lib R) r" "request_key q = (op_workspace_id r, op_operation_id r)"
    using store_okD assms(2,3) unfolding world_inv_def by blast+
  then have "rt_operation_id q = op_operation_id r" by (simp add: request_key_def)
  from response_ok [OF r(1) assms(1) this assms(4)] assms(3) show ?thesis by (auto simp: answers_def reports_def)
qed

lemma own_codes [simp]:
  assumes "nfc_ascii L"
  shows "code_ok L ''stage_claim_lost''" "code_ok L ''operation_stage_busy''" "code_ok L ''stage_unhandled_failure''"
    "code_ok L ''nondeterministic_stage_result''" "code_ok L ''invalid_stage_result_type''" "code_ok L ''stage_result_mismatch''"
    "code_ok L ''early_stage_completion_denied''" "code_ok L ''operation_state_inconsistent''" "code_ok L ''orchestrator_transition_limit''"
  by (simp_all add: code_ok_def nfc_asciiD [OF assms] is_safe_code_def lower_char_def)

lemma answers_lost:
  assumes "surroundings_ok R" "request_ok (ro_lib R) q" "world_inv R q w"
  shows "answers q (claim_lost_response R q r w)" "world_inv R q (snd (claim_lost_response R q r w))"
proof -
  note B = between_kept(1) [OF assms(1,3)]
  obtain x where x: "get_operation (w_ops (between R w)) (request_key q) = Some x" using B by (auto simp: world_inv_def)
  from answers_record [OF assms(2) B x, of None False] answers_record [OF assms(2) B x, of "Some ''stage_claim_lost''" True] own_codes(1) [OF surroundings_okD(1) [OF assms(1)]]
  show "answers q (claim_lost_response R q r w)" by (auto simp: claim_lost_response_def x Let_def)
  show "world_inv R q (snd (claim_lost_response R q r w))" using B by (simp add: claim_lost_response_def Let_def)
qed

lemma claimed_record_errors:
  assumes "store_ok L s" "get_operation s key = Some r" "claimed_record s key c x now = Inl e"
  shows "e = StageClaimConflict"
proof -
  have "time_ok (op_deadline_at r)" using store_okD [OF assms(1,2)] by (simp add: record_ok_def texts_ok_def)
  with assms(2,3) show ?thesis
    by (auto simp: claimed_record_def bindR_Inl_iff time_ok_def isOk_def require_claim_def split: sum.splits option.splits if_splits)
qed

lemma fail_stage_result:
  assumes "nfc_ascii L" "store_ok L s" "get_operation s key = Some r" "code_ok L code" "in_years now"
  shows "fst (fail_stage s key c code now x) = Inl StageClaimConflict \<or>
    (\<exists>u. fst (fail_stage s key c code now x) = Inr u \<and> terminal u \<and> get_operation (snd (fail_stage s key c code now x)) key = Some u)"
  using claimed_record_errors [OF assms(2,3), of c x now]
  by (cases "claimed_record s key c x now") (auto simp: fail_stage_def Let_def finished_def revised_def)

lemma release_result:
  assumes "nfc_ascii L" "store_ok L s" "get_operation s key = Some r"
  shows "fst (release_transient s key c code now) = Inl StageClaimConflict \<or>
    (\<exists>u. fst (release_transient s key c code now) = Inr u \<and> get_operation (snd (release_transient s key c code now)) key = Some u)"
  using claimed_record_errors [OF assms(2,3), of c False now]
  by (cases "claimed_record s key c False now") (auto simp: release_transient_def Let_def)

lemma reparse_ref_stage: "reparse_ref L r = Inr x \<Longrightarrow> sr_stage_name x \<in> set STAGE_NAMES"
  unfolding reparse_ref_def Let_def bindR_Inr_iff by (elim exE conjE) auto

lemma commit_result:
  assumes "nfc_ascii L" "store_ok L s" "get_operation s key = Some r" "ref_ok L ref"
  shows "(\<exists>e. fst (commit_stage s key c ref d err now) = Inl e \<and> conflict e) \<or>
    (\<exists>u. fst (commit_stage s key c ref d err now) = Inr u \<and> get_operation (snd (commit_stage s key c ref d err now)) key = Some u)"
proof -
  have "sr_stage_name ref \<in> set STAGE_NAMES" using assms(4) reparse_ref_stage unfolding ref_ok_def by blast
  then obtain st where "operation_state_of (sr_stage_name ref) = Some st" using state_of_stage by blast
  then have com: "conflict e" if "committed x ref d err = Inl e" for x e
    using that by (auto simp: committed_def conflict_def Let_def split: stage_disposition.splits if_splits)
  show ?thesis
  proof (cases "claimed_record s key c False now")
    case (Inl e)
    with claimed_record_errors [OF assms(2,3) Inl] show ?thesis by (simp add: commit_stage_def conflict_def)
  next
    case (Inr xl)
    obtain x late where xl: "xl = (x, late)" by (cases xl)
    show ?thesis
      by (cases "committed x ref d err") (use Inr xl com in \<open>auto simp: commit_stage_def conflict_def Let_def\<close>)
  qed
qed

lemma claim_next_result:
  assumes "nfc_ascii L" "store_ok L s" "get_operation s key = Some r" "in_years now"
  shows "\<exists>u out. fst (claim_next L s key request_id now lease input max_attempts exhausted) = Inr (u, out) \<and>
    get_operation (snd (claim_next L s key request_id now lease input max_attempts exhausted)) key = Some u \<and>
    (out = Terminal \<longrightarrow> terminal u) \<and> (out \<noteq> Terminal \<longrightarrow> \<not> terminal u) \<and>
    (\<forall>c. out = Claimed c \<longrightarrow> sc_input_digest c = input \<and> sc_stage_name c \<in> set STAGE_NAMES)"
proof -
  have ok: "record_ok L r" using store_okD [OF assms(2,3)] by blast
  note d = drop_expired_ok [OF ok assms(4)]
  obtain r2 where n: "normalize_terminal (drop_expired r now) now = Inr r2" "record_ok L r2"
    using normalize_terminal_ok [OF assms(1) d(1) assms(4)] by blast
  let ?s2 = "put_operation key r2 (put_operation key (drop_expired r now) s)"
  have "\<exists>u out. fst (claim_stage L ?s2 key r2 request_id now lease input max_attempts exhausted) = Inr (u, out) \<and>
      get_operation (snd (claim_stage L ?s2 key r2 request_id now lease input max_attempts exhausted)) key = Some u \<and>
      (out = Terminal \<longrightarrow> terminal u) \<and> (out \<noteq> Terminal \<longrightarrow> \<not> terminal u) \<and>
      (\<forall>c. out = Claimed c \<longrightarrow> sc_input_digest c = input \<and> sc_stage_name c \<in> set STAGE_NAMES)" if "\<not> terminal r2"
  proof -
    let ?stage = "op_stages r2 ! op_stage_index r2"
    have i: "op_stage_index r2 < length (op_stages r2)" using n(2) that by (simp add: record_ok_def progress_ok_def)
    then have stage: "?stage \<in> set STAGE_NAMES"
      using n(2) nth_mem unfolding record_ok_def progress_ok_def stages_ok_def by blast
    obtain dl where dl: "parse_utc_timestamp (op_deadline_at r2) = Inr dl"
      using n(2) by (auto simp: record_ok_def texts_ok_def time_ok_def isOk_def split: sum.splits)
    have "admissible L False (claim_body r2 ?stage k request_id input)" for k
      by (simp add: claim_body_def pdict_def admissible_PDict nfc_asciiD [OF assms(1)])
    then have "\<exists>h. rt_hash L CLAIM_DOMAIN (claim_body r2 ?stage k request_id input) = Inr h" for k
      by (auto simp: rt_hash_def rt_canonical_bytes_def contract_canonical_bytes_def contract.norm_eq)
    then obtain h where h: "rt_hash L CLAIM_DOMAIN (claim_body r2 ?stage (attempt_for r2 ?stage + 1) request_id input) = Inr h" by blast
    show ?thesis
    proof (cases "attempt_for r2 ?stage \<ge> max_attempts \<and> \<not> exhausted")
      case True
      then show ?thesis using i by (simp add: claim_stage_def Let_def finished_def revised_def)
    next
      case False
      have "op_state (with_attempt r2 ?stage k) = op_state r2" for k by (simp add: with_attempt_def)
      with i dl h that stage show ?thesis unfolding claim_stage_def Let_def if_not_P [OF False] by (simp add: revised_def)
    qed
  qed
  then show ?thesis using assms(3) n(1) by (auto simp: claim_next_def Let_def split: option.splits)
qed

lemma request_actor: "request_ok L q \<Longrightarrow> rt_nonempty L (rt_actor_id q) = Inr (rt_actor_id q)"
  unfolding request_ok_def reparse_request_def Let_def bindR_Inr_iff guardR_Inr_iff by (elim exE conjE, cases q) auto

lemma create_signal_total:
  assumes "nfc_ascii L" "sha256_size L" "request_ok L q" "in_years t"
  shows "\<exists>c. create_signal L (rt_workspace_id q) (rt_actor_id q) (rt_operation_id q) (format_utc_timestamp t) ''cooperative_cancel'' = Inr c \<and> signal_ok L c \<and>
    (cs_workspace_id c, cs_operation_id c) = request_key q"
proof -
  note Q = request_okD [OF assms(3)] request_actor [OF assms(3)]
  let ?c = "\<lambda>cid. \<lparr>cs_version = CANCELLATION_SIGNAL_VERSION, cs_cancellation_id = cid, cs_workspace_id = rt_workspace_id q, cs_actor_id = rt_actor_id q,
               cs_operation_id = rt_operation_id q, cs_requested_at = format_utc_timestamp t, cs_reason_code = ''cooperative_cancel''\<rparr>"
  have same: "cancellation_identity (?c a) = cancellation_identity (?c b)" for a b by (simp add: cancellation_identity_def)
  have "admissible L False (cancellation_identity (?c []))"
    by (simp add: cancellation_identity_def pdict_def admissible_PDict nfc_asciiD [OF assms(1)])
  then obtain h where h: "rt_hash L CANCELLATION_DOMAIN (cancellation_identity (?c [])) = Inr h" "is_hex64 h"
    using sha256_hex64 [OF assms(2)] by (auto simp: rt_hash_def rt_canonical_bytes_def contract_canonical_bytes_def contract.norm_eq)
  have code: "rt_safe_code L ''cooperative_cancel'' = Inr ''cooperative_cancel''"
    by (simp add: nfc_asciiD [OF assms(1)] is_safe_code_def lower_char_def)
  have "rt_hash L CANCELLATION_DOMAIN (cancellation_identity (?c h)) = Inr h" using h(1) same by metis
  then have "reparse_signal L (?c h) = Inr (?c h)"
    unfolding reparse_signal_def cancellation_signal.select_convs nfc_hex64 [OF assms(1) h(2)] Q code parse_format [OF assms(4)] bindR_simps
      guardR_def Let_def by simp
  moreover have "create_signal L (rt_workspace_id q) (rt_actor_id q) (rt_operation_id q) (format_utc_timestamp t) ''cooperative_cancel'' = reparse_signal L (?c h)"
    unfolding create_signal_def Let_def h(1) by simp
  ultimately show ?thesis by (simp add: signal_ok_def request_key_def)
qed

text \<open>Each part of a run keeps the stores well-formed and answers from the record.\<close>

lemma conflict_simps [simp]: "conflict StageClaimConflict" "conflict (OperationConflict m)"
  by (simp_all add: conflict_def)

lemma answers_Inl [simp]: "answers q (Inl e, w) \<longleftrightarrow> conflict e"
  by (simp add: answers_def)

lemma fail_response_answers:
  assumes "surroundings_ok R" "request_ok (ro_lib R) q" "world_inv R q w" "code_ok (ro_lib R) code"
  shows "answers q (fail_response R q c r code w)" "world_inv R q (snd (fail_response R q c r code w))"
proof -
  let ?L = "ro_lib R"
  obtain now w1 where t: "tick R w = (now, w1)" by (cases "tick R w")
  note T = world_inv_tick [OF assms(1,3) t]
  obtain x where x: "get_operation (w_ops w1) (request_key q) = Some x" using T(1) by (auto simp: world_inv_def)
  have so: "store_ok ?L (w_ops w1)" using T(1) by (simp add: world_inv_def)
  let ?f = "fail_stage (w_ops w1) (request_key q) c code now False"
  have k: "world_inv R q (w1\<lparr>w_ops := snd ?f\<rparr>)" by (rule world_inv_kept [OF T(1) fail_kept [OF surroundings_okD(1) [OF assms(1)] so assms(4) T(2)]])
  show "answers q (fail_response R q c r code w)"
    using fail_stage_result [OF surroundings_okD(1) [OF assms(1)] so x assms(4) T(2), of c False] answers_lost(1) [OF assms(1,2) k]
      answers_record [OF assms(2) k, of _ None False]
    by (auto simp: fail_response_def t lift_ops_def)
  show "world_inv R q (snd (fail_response R q c r code w))"
    using k answers_lost(2) [OF assms(1,2) k] by (simp add: fail_response_def t lift_ops_def split: sum.split)
qed

lemma transient_response_answers:
  assumes "surroundings_ok R" "request_ok (ro_lib R) q" "world_inv R q w" "code_ok (ro_lib R) code"
  shows "answers q (transient_response R q c r code w)" "world_inv R q (snd (transient_response R q c r code w))"
proof -
  let ?L = "ro_lib R"
  note L = surroundings_okD(1) [OF assms(1)]
  obtain now w1 where t: "tick R w = (now, w1)" by (cases "tick R w")
  note T = world_inv_tick [OF assms(1,3) t]
  obtain x where x: "get_operation (w_ops w1) (request_key q) = Some x" using T(1) by (auto simp: world_inv_def)
  have so: "store_ok ?L (w_ops w1)" using T(1) by (simp add: world_inv_def)
  let ?f = "if sc_attempt c \<ge> ro_max_attempts R then fail_stage (w_ops w1) (request_key q) c ''retry_budget_exhausted'' now False
             else release_transient (w_ops w1) (request_key q) c code now"
  have "kept_ok ?L (w_ops w1) (snd ?f)" using fail_kept [OF L so _ T(2)] release_kept [OF L so assms(4) T(2)] L by simp
  then have k: "world_inv R q (w1\<lparr>w_ops := snd ?f\<rparr>)" by (rule world_inv_kept [OF T(1)])
  have res: "fst ?f = Inl StageClaimConflict \<or> (\<exists>u. fst ?f = Inr u \<and> get_operation (snd ?f) (request_key q) = Some u)"
    using fail_stage_result [OF L so x _ T(2), of "''retry_budget_exhausted''" c False] release_result [OF L so x, of c code now] L by auto
  have eq: "transient_response R q c r code w = (case fst ?f of
      Inl e \<Rightarrow> if e = StageClaimConflict then claim_lost_response R q r (w1\<lparr>w_ops := snd ?f\<rparr>) else (Inl e, w1\<lparr>w_ops := snd ?f\<rparr>)
    | Inr u \<Rightarrow> (if terminal u then response_of ?L q u False None else response_of ?L q u True (Some code), w1\<lparr>w_ops := snd ?f\<rparr>))"
    unfolding transient_response_def t lift_ops_def Let_def prod.case by (simp split: sum.split)
  show "answers q (transient_response R q c r code w)"
    using res answers_lost(1) [OF assms(1,2) k, of r] answers_record [OF assms(2) k] assms(4) unfolding eq by auto
  show "world_inv R q (snd (transient_response R q c r code w))"
    using res k answers_lost(2) [OF assms(1,2) k, of r] unfolding eq by auto
qed

lemma deadline_response_answers:
  assumes "surroundings_ok R" "request_ok (ro_lib R) q" "world_inv R q w"
  shows "answers q (deadline_response R q c w)" "world_inv R q (snd (deadline_response R q c w))"
proof -
  note L = surroundings_okD(1) [OF assms(1)]
  obtain now w1 where t: "tick R w = (now, w1)" by (cases "tick R w")
  note T = world_inv_tick [OF assms(1,3) t]
  obtain x where x: "get_operation (w_ops w1) (request_key q) = Some x" using T(1) by (auto simp: world_inv_def)
  have so: "store_ok (ro_lib R) (w_ops w1)" using T(1) by (simp add: world_inv_def)
  let ?f = "fail_stage (w_ops w1) (request_key q) c ''deadline_exceeded'' now True"
  have code: "code_ok (ro_lib R) ''deadline_exceeded''" using L by simp
  have k: "world_inv R q (w1\<lparr>w_ops := snd ?f\<rparr>)" by (rule world_inv_kept [OF T(1) fail_kept [OF L so code T(2)]])
  have eq: "deadline_response R q c w = stop (w1\<lparr>w_ops := snd ?f\<rparr>) (fst ?f) (\<lambda>u. (response_of (ro_lib R) q u False None, w1\<lparr>w_ops := snd ?f\<rparr>))"
    by (simp add: deadline_response_def t lift_ops_def)
  note res = fail_stage_result [OF L so x code T(2), of c True]
  show "answers q (deadline_response R q c w)" using res answers_record [OF assms(2) k, of _ None False] unfolding eq by auto
  show "world_inv R q (snd (deadline_response R q c w))" using res k unfolding eq by auto
qed

lemma commit_answers:
  fixes c :: stage_claim and d :: stage_disposition
  assumes "surroundings_ok R" "request_ok (ro_lib R) q" "world_inv R q w" "ref_ok (ro_lib R) ref" "\<forall>e. err = Some e \<longrightarrow> code_ok (ro_lib R) e" "in_years now"
  defines "f \<equiv> commit_stage (w_ops w) (request_key q) c ref d err now"
  shows "world_inv R q (w\<lparr>w_ops := snd f\<rparr>)"
    "(\<exists>e. fst f = Inl e \<and> conflict e) \<or> (\<exists>u. fst f = Inr u \<and> get_operation (snd f) (request_key q) = Some u)"
proof -
  note L = surroundings_okD(1) [OF assms(1)]
  obtain x where x: "get_operation (w_ops w) (request_key q) = Some x" using assms(3) by (auto simp: world_inv_def)
  have so: "store_ok (ro_lib R) (w_ops w)" using assms(3) by (simp add: world_inv_def)
  show "world_inv R q (w\<lparr>w_ops := snd f\<rparr>)" unfolding f_def by (rule world_inv_kept [OF assms(3) commit_kept [OF L so assms(4-6)]])
  show "(\<exists>e. fst f = Inl e \<and> conflict e) \<or> (\<exists>u. fst f = Inr u \<and> get_operation (snd f) (request_key q) = Some u)"
    unfolding f_def by (rule commit_result [OF L so x assms(4)])
qed

lemma request_cancel_errors:
  assumes "store_ok L s" "time_ok (cs_requested_at c)" "fst (request_cancel s c now) = Inl e"
  shows "conflict e"
proof (cases "get_operation s (cs_workspace_id c, cs_operation_id c)")
  case (Some r)
  have "time_ok (op_created_at r)" using store_okD [OF assms(1) Some] by (simp add: record_ok_def texts_ok_def)
  then obtain a b where "parse_utc_timestamp (cs_requested_at c) = Inr a" "parse_utc_timestamp (op_created_at r) = Inr b"
    using assms(2) by (auto simp: time_ok_def isOk_def split: sum.splits)
  with assms(3) Some show ?thesis by (auto simp: request_cancel_def Let_def split: if_splits)
qed (use assms(3) in \<open>simp add: request_cancel_def\<close>)

text \<open>The cooperative cancellation: the signal, if there is none yet.\<close>

lemma cancel_signal_step:
  assumes "surroundings_ok R" "request_ok (ro_lib R) q" "world_inv R q w"
  defines "step \<equiv> (let (t, wa) = tick R w in
      stop wa (create_signal (ro_lib R) (rt_workspace_id q) (rt_actor_id q) (rt_operation_id q) (format_utc_timestamp t) ''cooperative_cancel'') (\<lambda>signal.
      let (now, wb) = tick R wa; (out, wc) = lift_ops wb (request_cancel (w_ops wb) signal now) in
      (bindR out (\<lambda>_. Inr ()), wc)))"
  shows "world_inv R q (snd step)" "fst step = Inl e \<Longrightarrow> conflict e"
    "fst step = Inr y \<Longrightarrow> \<exists>r. get_operation (w_ops (snd step)) (request_key q) = Some r \<and> (terminal r \<or> op_cancellation r \<noteq> None)"
proof -
  note L = surroundings_okD [OF assms(1)]
  obtain t wa where t: "tick R w = (t, wa)" by (cases "tick R w")
  note T = world_inv_tick [OF assms(1,3) t]
  obtain sg where sg: "create_signal (ro_lib R) (rt_workspace_id q) (rt_actor_id q) (rt_operation_id q) (format_utc_timestamp t) ''cooperative_cancel'' = Inr sg"
      "signal_ok (ro_lib R) sg" "(cs_workspace_id sg, cs_operation_id sg) = request_key q" using create_signal_total [OF L(1,3) assms(2) T(2)] by blast
  obtain now wb where t': "tick R wa = (now, wb)" by (cases "tick R wa")
  note T' = world_inv_tick [OF assms(1) T(1) t']
  have so: "store_ok (ro_lib R) (w_ops wb)" using T'(1) by (simp add: world_inv_def)
  have eq: "step = (bindR (fst (request_cancel (w_ops wb) sg now)) (\<lambda>_. Inr ()), wb\<lparr>w_ops := snd (request_cancel (w_ops wb) sg now)\<rparr>)"
    unfolding step_def t by (simp add: sg t' lift_ops_def)
  show "world_inv R q (snd step)" unfolding eq
    using world_inv_kept [OF T'(1) cancel_kept [OF L(1) so sg(2) T'(2)]] by simp
  have "time_ok (cs_requested_at sg)" using sg(2) unfolding signal_ok_def reparse_signal_def Let_def bindR_Inr_iff
    by (auto simp: time_ok_def isOk_def)
  then show "conflict e" if "fst step = Inl e"
    using that request_cancel_errors [OF so] unfolding eq by (auto simp: bindR_Inl_iff)
  obtain x where x: "get_operation (w_ops wb) (request_key q) = Some x" using T'(1) by (auto simp: world_inv_def)
  show "\<exists>r. get_operation (w_ops (snd step)) (request_key q) = Some r \<and> (terminal r \<or> op_cancellation r \<noteq> None)" if "fst step = Inr y"
    using that x unfolding eq
    by (auto simp: bindR_Inr_iff request_cancel_def sg(3) Let_def stop_Inr_iff stop_def cancel_record_def revised_def split: sum.splits if_splits)
qed

lemma cancelled_response_answers:
  assumes "surroundings_ok R" "request_ok (ro_lib R) q" "world_inv R q w" "is_hex64 (sc_input_digest c)" "sc_stage_name c \<in> set STAGE_NAMES"
  shows "answers q (cancelled_response R q c r w)" "world_inv R q (snd (cancelled_response R q c r w))"
proof -
  let ?L = "ro_lib R"
  note L = surroundings_okD [OF assms(1)]
  note B = between_kept(1) [OF assms(1,3)]
  let ?w0 = "between R w"
  let ?current = "case get_operation (w_ops ?w0) (request_key q) of Some x \<Rightarrow> x | None \<Rightarrow> r"
  let ?step = "(let (t, wa) = tick R ?w0 in
      stop wa (create_signal ?L (rt_workspace_id q) (rt_actor_id q) (rt_operation_id q) (format_utc_timestamp t) ''cooperative_cancel'') (\<lambda>signal.
      let (now, wb) = tick R wa; (out, wc) = lift_ops wb (request_cancel (w_ops wb) signal now) in
      (bindR out (\<lambda>_. Inr ()), wc)))"
  define sw where "sw = (case op_cancellation ?current of Some x \<Rightarrow> (Inr (), ?w0) | None \<Rightarrow> ?step)"
  obtain sig w1 where sw1: "sw = (sig, w1)" by (cases sw)
  obtain x0 where x0: "get_operation (w_ops ?w0) (request_key q) = Some x0" using B by (auto simp: world_inv_def)
  note step = cancel_signal_step [OF assms(1,2) B]
  have S: "world_inv R q w1" "sig = Inl e \<Longrightarrow> conflict e"
      "sig = Inr y \<Longrightarrow> \<exists>x. get_operation (w_ops w1) (request_key q) = Some x \<and> (terminal x \<or> op_cancellation x \<noteq> None)" for e y
    using step B sw1 x0 by (cases "op_cancellation ?current"; simp add: sw_def)+
  obtain t w2 where t: "tick R w1 = (t, w2)" by (cases "tick R w1")
  note T = world_inv_tick [OF assms(1) S(1) t]
  have "is_hex64 (rt_operation_id q)" using request_okD(1) [OF assms(2)] by simp
  then obtain ref where ref: "create_ref ?L (rt_operation_id q) (sc_stage_name c) (sc_input_digest c) (sha256_hex ?L ''cancelled'') ''phase4-cancelled-stage-v1''
      (format_utc_timestamp t) [] = Inr ref" "ref_ok ?L ref"
    using create_ref_total [OF L(1,3) _ assms(4) sha256_hex64 [OF L(3)] assms(5), of "rt_operation_id q" "''phase4-cancelled-stage-v1''" "format_utc_timestamp t" "[]"]
      T(2) nfc_asciiD [OF L(1), of "''phase4-cancelled-stage-v1''"] by (auto simp: sorted_set_def)
  obtain now w3 where t': "tick R w2 = (now, w3)" by (cases "tick R w2")
  note T' = world_inv_tick [OF assms(1) T(1) t']
  let ?f = "commit_stage (w_ops w3) (request_key q) c ref CONTINUE (Some ''cancelled'') now"
  have C: "world_inv R q (w3\<lparr>w_ops := snd ?f\<rparr>)"
      "(\<exists>e. fst ?f = Inl e \<and> conflict e) \<or> (\<exists>u. fst ?f = Inr u \<and> get_operation (snd ?f) (request_key q) = Some u)"
    using commit_answers [OF assms(1,2) T'(1) ref(2) _ T'(2), of "Some ''cancelled''" c CONTINUE] L(1) by simp_all
  have eq: "cancelled_response R q c r w = stop w1 sig (\<lambda>_. stop (w3\<lparr>w_ops := snd ?f\<rparr>) (fst ?f) (\<lambda>u. (response_of ?L q u False None, w3\<lparr>w_ops := snd ?f\<rparr>)))"
    unfolding cancelled_response_def Let_def sw_def [unfolded Let_def, symmetric] sw1 prod.case t
    by (simp add: ref(1) t' lift_ops_def)
  show "world_inv R q (snd (cancelled_response R q c r w))" using S C unfolding eq by (cases sig) (auto simp: stop_def split: sum.splits)
  have k: "store_evolves (w_ops w1) (w_ops w3)"
    using kept_trans [OF tick_kept [OF assms(1) S(1) t] tick_kept [OF assms(1) T(1) t']] by (simp add: kept_ok_def)
  have "terminal u" if fin: "fst ?f = Inr u" "sig = Inr y" for u y
  proof -
    have cm: "?f = (Inr u, snd ?f)" using fin(1) by (metis prod.collapse)
    show ?thesis
    proof (cases rule: commit_stage_cases [OF cm])
      case (1 r late st e)
      then show ?thesis by (auto simp: finished_def revised_def split: if_splits)
    next
      case (2 x st e)
      obtain x1 x3 where x: "get_operation (w_ops w1) (request_key q) = Some x1" "terminal x1 \<or> op_cancellation x1 \<noteq> None"
          "get_operation (w_ops w3) (request_key q) = Some x3" "evolves x1 x3"
        using S(3) [OF fin(2)] k unfolding store_evolves_def by blast
      then have "terminal x3 \<or> op_cancellation x3 \<noteq> None" unfolding evolves_def by auto
      moreover have "x = x3" "holds_claim x c" using claimed_recordD [OF 2(1)] x(3) by simp_all
      moreover have "record_ok ?L x3" using T'(1) store_okD x(3) unfolding world_inv_def by blast
      ultimately show ?thesis using holds_claim_running(1) [of ?L x3 c] 2(5) by auto
    qed
  qed
  then show "answers q (cancelled_response R q c r w)"
    using S(2) C answers_record [OF assms(2) C(1), of _ None False] unfolding eq by (cases sig) auto
qed

lemma checkpoint_kept:
  assumes "surroundings_ok R" "request_ok (ro_lib R) q" "world_inv R q w" "checkpoint R q w = (out, w')"
  shows "world_inv R q w'" "out = Inr () \<or> out \<in> {Inl OperationCancelled, Inl OperationDeadlineExceeded}"
proof -
  note B = between_kept(1) [OF assms(1,3)]
  obtain now w1 where t: "tick R (between R w) = (now, w1)" by (cases "tick R (between R w)")
  obtain dl where dl: "parse_utc_timestamp (rt_deadline_at q) = Inr dl"
    using request_okD(5) [OF assms(2)] by (auto simp: time_ok_def isOk_def split: sum.splits)
  show "world_inv R q w'" "out = Inr () \<or> out \<in> {Inl OperationCancelled, Inl OperationDeadlineExceeded}"
    using B assms(4) world_inv_tick(1) [OF assms(1) B t] by (auto simp: checkpoint_def Let_def t dl guardR_def split: if_splits)
qed

lemma guardR_Inl: "guardR b x = Inl e \<longleftrightarrow> \<not> b \<and> e = x"
  by (auto simp: guardR_def)

lemma canonical_payload_error: "canonical_payload L j = Inl e \<Longrightarrow> e = InvalidContractValue"
  by (auto simp: canonical_payload_def bindR_Inl_iff rt_canonical_bytes_def split: sum.splits option.splits json.splits)

lemma new_stage_result_error: "new_stage_result L x = Inl e \<Longrightarrow> e = InvalidContractValue"
  unfolding new_stage_result_def Let_def bindR_Inl_iff guardR_Inl rt_optional_def
  by (auto dest: canonical_payload_error simp: runtime_code_def bindR_Inl_iff split: option.splits if_splits)

lemma rt_that_error: "rt_that ok L t = Inl e \<Longrightarrow> e = InvalidContractValue"
  by (auto simp: rt_that_def rt_nonempty_def bindR_Inl_iff split: if_splits)

lemma rt_hash_error: "rt_hash L d v = Inl e \<Longrightarrow> e = InvalidContractValue"
  by (auto simp: rt_hash_def rt_canonical_bytes_def bindR_Inl_iff split: sum.splits)

lemma rt_nonempty_error: "rt_nonempty L t = Inl e \<Longrightarrow> e = InvalidContractValue" "mapR (rt_nonempty L) ts = Inl e \<Longrightarrow> e = InvalidContractValue"
  by (auto simp: rt_nonempty_def split: if_splits) (induction ts; auto simp: rt_nonempty_def bindR_Inl_iff split: if_splits)

lemma create_ref_error:
  "create_ref L op_id stage input content schema created prov = Inl e \<Longrightarrow> e \<in> {InvalidContractValue, UnsupportedContractVersion}"
  unfolding create_ref_def reparse_ref_def Let_def bindR_Inl_iff guardR_Inl
  by (elim disjE exE conjE)
    (auto dest: rt_that_error rt_hash_error rt_nonempty_error simp: parse_utc_timestamp_def split: if_splits)

lemma put_once_error:
  assumes "nfc_ascii L" "nfc_idem L" "results_ok L rs" "result_ok L x" "fst (put_once L rs ws op_id input x created) = Inl e"
  shows "e \<in> {InvalidContractValue, UnsupportedContractVersion, StageResultConflict}"
proof (rule ccontr)
  assume ne: "e \<notin> {InvalidContractValue, UnsupportedContractVersion, StageResultConflict}"
  obtain b where b: "semantic_bytes L x = Inr b" using semantic_bytes_loads [OF assms(1,4)] by blast
  with assms(5) ne obtain ref where ref: "create_ref L op_id (sg_stage_name x) input (sha256_hex L (STAGE_CONTENT_DOMAIN @ b)) (sg_schema_id x) created
      (sg_provenance x) = Inr ref"
    by (cases "create_ref L op_id (sg_stage_name x) input (sha256_hex L (STAGE_CONTENT_DOMAIN @ b)) (sg_schema_id x) created (sg_provenance x)")
      (auto simp: put_once_def dest: create_ref_error)
  have "nfc L (sg_schema_id x) = sg_schema_id x" using assms(4) by (simp add: result_ok_def)
  with create_ref_ok(5) [OF assms(2) ref] have rb: "restore_result L \<lparr>pr_ref = ref, pr_bytes = b\<rparr> = Inr (ref, x)"
    by (intro restore_persisted [OF assms(1,4) _ b]) simp
  have "\<exists>y. restore_result L p = Inr y" if "map_of rs (ws, op_id, sg_stage_name x, input) = Some p" for p
    using assms(3) that unfolding results_ok_def by blast
  with assms(5) ne b ref rb show False by (auto simp: put_once_def Let_def split: option.splits if_splits)
qed

text \<open>What the \<open>try\<close> block yields: a stored result of the claimed stage, or an error whose code the contracts accept.\<close>

definition raised_ok :: "lib \<Rightarrow> exn \<Rightarrow> bool" where
  "raised_ok L e \<longleftrightarrow> (\<forall>code. e \<in> {TransientStageError code, FatalStageError code} \<longrightarrow> code_ok L code)"

lemma store_evolves_trans: "store_evolves s t \<Longrightarrow> store_evolves t u \<Longrightarrow> store_evolves s u"
  unfolding store_evolves_def by (meson evolves_trans)

lemma tick_evolves: "surroundings_ok R \<Longrightarrow> world_inv R q w \<Longrightarrow> tick R w = (now, w') \<Longrightarrow> store_evolves (w_ops w) (w_ops w')"
  using tick_kept by (simp add: kept_ok_def)

lemma checkpoint_evolves:
  assumes "surroundings_ok R" "world_inv R q w" "checkpoint R q w = (out, w')"
  shows "store_evolves (w_ops w) (w_ops w')"
proof -
  note B = between_kept [OF assms(1,2)]
  obtain now w1 where t: "tick R (between R w) = (now, w1)" by (cases "tick R (between R w)")
  from store_evolves_trans [OF B(2) tick_evolves [OF assms(1) B(1) t]] B(2) assms(3) show ?thesis
    by (auto simp: checkpoint_def Let_def t split: if_splits)
qed

lemma raised_own:
  assumes "nfc_ascii L"
  shows "raised_ok L OperationCancelled" "raised_ok L OperationDeadlineExceeded" "raised_ok L InvalidContractValue"
    "raised_ok L (FatalStageError ''invalid_stage_result_type'')" "raised_ok L (FatalStageError ''stage_result_mismatch'')"
    "raised_ok L (FatalStageError ''early_stage_completion_denied'')"
  using assms by (simp_all add: raised_ok_def)

text \<open>The handler's value after both checkpoints: a result for the store, or an error.\<close>

definition body_result :: "orchestrator \<Rightarrow> stage_claim \<Rightarrow> operation_record \<Rightarrow> stage_result option \<Rightarrow> stage_result res" where
  "body_result R c r out =
     (case out of
        None \<Rightarrow> Inl (FatalStageError ''invalid_stage_result_type'')
      | Some x0 \<Rightarrow>
          bindR (new_stage_result (ro_lib R) x0) (\<lambda>x.
          if sg_stage_name x \<noteq> sc_stage_name c then Inl (FatalStageError ''stage_result_mismatch'')
          else if sg_disposition x = COMPLETE \<and> op_stage_index r + 1 < length (op_stages r)
          then Inl (FatalStageError ''early_stage_completion_denied'')
          else Inr x))"

lemma stage_body_eq:
  assumes "checkpoint R q w = (k1, w1)" "checkpoint R q w1 = (k2, w2)"
  shows "stage_body R q cx c r w =
     stop w1 k1 (\<lambda>_. stop w1 (ro_handlers R (sc_stage_name c) cx (w_ticks w1)) (\<lambda>out. stop w2 k2 (\<lambda>_. stop w2 (body_result R c r out) (\<lambda>x.
       let (now, w3) = tick R w2;
           (found, rs) = put_once (ro_lib R) (w_results w3) (rt_workspace_id q) (rt_operation_id q) (sc_input_digest c) x (format_utc_timestamp now) in
       (found, w3\<lparr>w_results := rs\<rparr>)))))"
proof -
  have push: "stop w2 (bindR a f) g = stop w2 a (\<lambda>x. stop w2 (f x) g)" for a f g by (cases a) simp_all
  have choose: "stop w2 (if p then x else y) g = (if p then stop w2 x g else stop w2 y g)" for p x y g by simp
  have opt: "stop w2 (case out of None \<Rightarrow> x | Some o1 \<Rightarrow> f o1) g = (case out of None \<Rightarrow> stop w2 x g | Some o1 \<Rightarrow> stop w2 (f o1) g)" for out x f g
    by (cases out) simp_all
  show ?thesis unfolding stage_body_def body_result_def assms prod.case Let_def push choose opt stop_simps ..
qed

lemma body_result_kept:
  assumes "surroundings_ok R"
  shows "body_result R c r out = Inl e \<Longrightarrow> raised_ok (ro_lib R) e" "body_result R c r out = Inr x \<Longrightarrow> result_ok (ro_lib R) x"
proof -
  note L = surroundings_okD [OF assms]
  show "raised_ok (ro_lib R) e" if "body_result R c r out = Inl e"
    using that raised_own [OF L(1)] new_stage_result_error [of "ro_lib R"]
    by (cases out) (auto simp: body_result_def bindR_Inl_iff split: if_splits)
  show "result_ok (ro_lib R) x" if "body_result R c r out = Inr x"
    using that new_stage_result_ok [OF L(1,2)]
    by (cases out) (auto simp: body_result_def bindR_Inr_iff split: if_splits)
qed

lemma handler_raises:
  assumes "surroundings_ok R" "ro_handlers R stage cx n = Inl e"
  shows "raised_ok (ro_lib R) e"
proof -
  have "\<forall>code. ro_handlers R stage cx n \<in> {Inl (TransientStageError code), Inl (FatalStageError code)} \<longrightarrow> code_ok (ro_lib R) code"
    using assms(1) unfolding surroundings_ok_def by blast
  with assms(2) show ?thesis by (auto simp: raised_ok_def)
qed

definition body_ends :: "orchestrator \<Rightarrow> runtime_request \<Rightarrow> rt_world \<Rightarrow> (stage_ref \<times> stage_result) res \<times> rt_world \<Rightarrow> bool" where
  "body_ends R q w x \<longleftrightarrow>
     world_inv R q (snd x) \<and> store_evolves (w_ops w) (w_ops (snd x)) \<and>
     (case fst x of Inl e \<Rightarrow> raised_ok (ro_lib R) e | Inr (ref, y) \<Rightarrow> ref_ok (ro_lib R) ref \<and> result_ok (ro_lib R) y)"

lemma put_ends:
  assumes R: "surroundings_ok R" and q: "request_ok (ro_lib R) q" and w: "world_inv R q w" and c: "is_hex64 input" and x: "result_ok (ro_lib R) x"
  shows "body_ends R q w (let (now, w3) = tick R w;
           (found, rs) = put_once (ro_lib R) (w_results w3) (rt_workspace_id q) (rt_operation_id q) input x (format_utc_timestamp now) in
       (found, w3\<lparr>w_results := rs\<rparr>))"
proof -
  let ?L = "ro_lib R"
  note L = surroundings_okD [OF R]
  obtain now w3 where t: "tick R w = (now, w3)" by (cases "tick R w")
  note T = world_inv_tick [OF R w t]
  have rs: "results_ok ?L (w_results w3)" using T(1) by (simp add: world_inv_def)
  let ?put = "put_once ?L (w_results w3) (rt_workspace_id q) (rt_operation_id q) input x (format_utc_timestamp now)"
  have n: "nfc ?L (rt_operation_id q) = rt_operation_id q" "nfc ?L input = input"
    using request_okD(1) [OF q] nfc_hex64 [OF L(1) c] by simp_all
  note P = put_once_kept [OF L(1,2) rs x n] put_once_error [OF L(1,2) rs x]
  have "raised_ok ?L e" if "e \<in> {InvalidContractValue, UnsupportedContractVersion, StageResultConflict}" for e
    using that by (auto simp: raised_ok_def)
  then have "case fst ?put of Inl e \<Rightarrow> raised_ok ?L e | Inr (ref, y) \<Rightarrow> ref_ok ?L ref \<and> result_ok ?L y"
    using P(2,3) by (auto split: sum.split)
  moreover have "world_inv R q (w3\<lparr>w_results := snd ?put\<rparr>)" using T(1) P(1) by (simp add: world_inv_def)
  ultimately show ?thesis using tick_evolves [OF R w t] by (simp add: body_ends_def t split_beta)
qed

lemma stage_body_ends:
  assumes R: "surroundings_ok R" and q: "request_ok (ro_lib R) q" and w: "world_inv R q w" and c: "is_hex64 (sc_input_digest c)"
  shows "body_ends R q w (stage_body R q cx c r w)"
proof -
  obtain k1 w1 where k1: "checkpoint R q w = (k1, w1)" by (cases "checkpoint R q w")
  note C1 = checkpoint_kept [OF R q w k1] checkpoint_evolves [OF R w k1]
  obtain k2 w2 where k2: "checkpoint R q w1 = (k2, w2)" by (cases "checkpoint R q w1")
  note C2 = checkpoint_kept [OF R q C1(1) k2] checkpoint_evolves [OF R C1(1) k2]
  note own = raised_own [OF surroundings_okD(1) [OF R]]
  have E: "body_ends R q w y" if "body_ends R q w2 y" for y
    using that store_evolves_trans [OF store_evolves_trans [OF C1(3) C2(3)]] by (simp add: body_ends_def)
  have I: "body_ends R q w (Inl e, w1)" "body_ends R q w (Inl e, w2)" if "raised_ok (ro_lib R) e" for e
    using that C1 C2 store_evolves_trans [OF C1(3) C2(3)] by (simp_all add: body_ends_def)
  have K: "k1 = Inr () \<or> (\<exists>e. k1 = Inl e \<and> raised_ok (ro_lib R) e)" "k2 = Inr () \<or> (\<exists>e. k2 = Inl e \<and> raised_ok (ro_lib R) e)"
    using C1(2) C2(2) own by blast+
  show ?thesis
  proof (cases "k1 = Inr ()")
    case k: True
    show ?thesis
    proof (cases "ro_handlers R (sc_stage_name c) cx (w_ticks w1)")
      case (Inl e)
      show ?thesis unfolding stage_body_eq [OF k1 k2] k Inl stop_simps by (rule I(1) [OF handler_raises [OF R Inl]])
    next
      case (Inr out)
      show ?thesis
        using K(2) I(2) body_result_kept [OF R, of c r out] E [OF put_ends [OF R q C2(1) c]]
        unfolding stage_body_eq [OF k1 k2] k Inr stop_simps by (cases "body_result R c r out") auto
    qed
  next
    case False
    with K(1) I(1) show ?thesis unfolding stage_body_eq [OF k1 k2] by auto
  qed
qed

subsection \<open>Rounds\<close>

text \<open>A round that goes on has added a result to the operation.\<close>

definition advances :: "runtime_request \<Rightarrow> op_store \<Rightarrow> op_store \<Rightarrow> bool" where
  "advances q s s' \<longleftrightarrow> (\<exists>r r'. get_operation s (request_key q) = Some r \<and> get_operation s' (request_key q) = Some r' \<and>
     op_stages r' = op_stages r \<and> length (op_refs r) < length (op_refs r'))"

definition round_ends :: "orchestrator \<Rightarrow> runtime_request \<Rightarrow> rt_world \<Rightarrow> round_end \<times> rt_world \<Rightarrow> bool" where
  "round_ends R q w x \<longleftrightarrow>
     world_inv R q (snd x) \<and>
     (case fst x of Respond resp \<Rightarrow> answers q (resp, snd x) | Continue \<Rightarrow> advances q (w_ops w) (w_ops (snd x)))"

lemma advances_after: "store_evolves s t \<Longrightarrow> get_operation s (request_key q) = Some r \<Longrightarrow> advances q t u \<Longrightarrow> advances q s u"
  unfolding store_evolves_def advances_def evolves_def by fastforce

lemma round_ends_after:
  assumes "world_inv R q w" "store_evolves (w_ops w) (w_ops w1)" "round_ends R q w1 x"
  shows "round_ends R q w x"
proof -
  obtain r where "get_operation (w_ops w) (request_key q) = Some r" using assms(1) by (auto simp: world_inv_def)
  from advances_after [OF assms(2) this] assms(3) show ?thesis by (auto simp: round_ends_def split: round_end.splits)
qed

lemma commit_round_ends:
  assumes "surroundings_ok R" "request_ok (ro_lib R) q" "world_inv R q w" "ref_ok (ro_lib R) ref" "result_ok (ro_lib R) y"
  shows "round_ends R q w (commit_round R q c r (ref, y) w)"
proof -
  obtain now w1 where t: "tick R w = (now, w1)" by (cases "tick R w")
  note T = world_inv_tick [OF assms(1,3) t]
  let ?f = "commit_stage (w_ops w1) (request_key q) c ref (sg_disposition y) (sg_error y) now"
  let ?w2 = "w1\<lparr>w_ops := snd ?f\<rparr>"
  have err: "\<forall>e. sg_error y = Some e \<longrightarrow> code_ok (ro_lib R) e" using assms(5) unfolding result_ok_def by blast
  note C = commit_answers [OF assms(1,2) T(1) assms(4) err T(2), of c "sg_disposition y"]
  have eq: "commit_round R q c r (ref, y) w = (case fst ?f of
        Inl e \<Rightarrow> apfst Respond (if e = StageClaimConflict then claim_lost_response R q r ?w2 else (Inl e, ?w2))
      | Inr u \<Rightarrow> (if terminal u then Respond (response_of (ro_lib R) q u False None) else Continue, ?w2))"
    unfolding commit_round_def t lift_ops_def Let_def prod.case by (simp split: sum.split)
  have adv: "advances q (w_ops w1) (snd ?f)" if u: "fst ?f = Inr u" "\<not> terminal u" for u
  proof -
    have cm: "?f = (Inr u, snd ?f)" using u(1) by (metis prod.collapse)
    show ?thesis
    proof (cases rule: commit_stage_cases [OF cm])
      case (1 x late st e)
      with u(2) show ?thesis by (auto simp: finished_def revised_def split: if_splits)
    next
      case (2 x st e)
      from claimed_recordD(1) [OF 2(1)] show ?thesis unfolding advances_def 2(7,8) by (simp add: finished_def revised_def)
    qed
  qed
  have "round_ends R q w1 (commit_round R q c r (ref, y) w)"
    using C adv answers_lost [OF assms(1,2) C(1), of r] answers_record [OF assms(2) C(1), of _ None False] unfolding eq
    by (auto simp: round_ends_def split: prod.splits)
  with round_ends_after [OF assms(3) tick_evolves [OF assms(1,3) t]] show ?thesis .
qed

lemma stage_failed_answers:
  assumes "surroundings_ok R" "request_ok (ro_lib R) q" "world_inv R q w" "is_hex64 (sc_input_digest c)" "sc_stage_name c \<in> set STAGE_NAMES"
    and "raised_ok (ro_lib R) e"
  shows "answers q (stage_failed R q c r e w)" "world_inv R q (snd (stage_failed R q c r e w))"
proof -
  consider "stage_failed R q c r e w = cancelled_response R q c r w" | "stage_failed R q c r e w = deadline_response R q c w"
    | code where "e = TransientStageError code" "stage_failed R q c r e w = transient_response R q c r code w"
    | code where "e = FatalStageError code" "stage_failed R q c r e w = fail_response R q c r code w"
    | "stage_failed R q c r e w = fail_response R q c r ''nondeterministic_stage_result'' w"
    | "stage_failed R q c r e w = fail_response R q c r ''stage_unhandled_failure'' w"
    by (cases e) (simp_all add: stage_failed_def)
  then have "answers q (stage_failed R q c r e w) \<and> world_inv R q (snd (stage_failed R q c r e w))"
  proof cases
    case 1
    with cancelled_response_answers [OF assms(1-5)] show ?thesis by simp
  next
    case 2
    with deadline_response_answers [OF assms(1-3)] show ?thesis by simp
  next
    case (3 code)
    with assms(6) have "code_ok (ro_lib R) code" by (simp add: raised_ok_def)
    with 3 transient_response_answers [OF assms(1-3)] show ?thesis by simp
  next
    case (4 code)
    with assms(6) have "code_ok (ro_lib R) code" by (simp add: raised_ok_def)
    with 4 fail_response_answers [OF assms(1-3)] show ?thesis by simp
  next
    case 5
    with fail_response_answers [OF assms(1-3) own_codes(4) [OF surroundings_okD(1) [OF assms(1)]]] show ?thesis by simp
  next
    case 6
    with fail_response_answers [OF assms(1-3) own_codes(3) [OF surroundings_okD(1) [OF assms(1)]]] show ?thesis by simp
  qed
  then show "answers q (stage_failed R q c r e w)" "world_inv R q (snd (stage_failed R q c r e w))" by blast+
qed

lemma request_payload:
  assumes "nfc_idem L" "request_ok L q"
  shows "normal L (rt_payload q)" "sort_keys (rt_payload q) = rt_payload q" "\<exists>kvs. rt_payload q = JObj kvs"
proof -
  obtain copied where "canonical_object L copied = Inr (rt_payload q)"
    using assms(2) unfolding request_ok_def reparse_request_def Let_def bindR_Inr_iff guardR_Inr_iff by (elim exE conjE, cases q) auto
  from canonical_object_normal [OF assms(1) this]
  show "normal L (rt_payload q)" "sort_keys (rt_payload q) = rt_payload q" "\<exists>kvs. rt_payload q = JObj kvs" by blast+
qed

lemma input_total:
  assumes "nfc_ascii L" "nfc_idem L" "request_ok L q"
  shows "\<exists>x. input_from_request L q = Inr x"
proof -
  note P = request_payload [OF assms(2,3)]
  then obtain kvs where kvs: "rt_payload q = JObj kvs" by blast
  have "canonical_payload L (rt_payload q) = Inr (rt_payload q)"
    unfolding kvs by (rule canonical_payload_id [OF assms(1) P(1,2) [unfolded kvs]])
  then show ?thesis by (simp add: input_from_request_def)
qed

lemma claimed_round_ends:
  assumes "surroundings_ok R" "request_ok (ro_lib R) q" "world_inv R q w" "is_hex64 (sc_input_digest c)" "sc_stage_name c \<in> set STAGE_NAMES"
    and "\<forall>ref y. existing = Some (ref, y) \<longrightarrow> ref_ok (ro_lib R) ref \<and> result_ok (ro_lib R) y"
  shows "round_ends R q w (claimed_round R q c r existing w)"
proof (cases existing)
  case (Some found)
  with assms(6) commit_round_ends [OF assms(1-3)] show ?thesis by (cases found) (simp add: claimed_round_def)
next
  case None
  obtain input where input: "input_from_request (ro_lib R) q = Inr input" using input_total [OF surroundings_okD(1,2) [OF assms(1)] assms(2)] by blast
  let ?cx = "\<lparr>cx_request = input, cx_stage_name = sc_stage_name c, cx_previous = op_refs r,
                         cx_input_digest = sc_input_digest c, cx_attempt = str_nat (sc_attempt c)\<rparr>"
  obtain out w1 where body: "stage_body R q ?cx c r w = (out, w1)" by (cases "stage_body R q ?cx c r w")
  have E: "world_inv R q w1" "store_evolves (w_ops w) (w_ops w1)"
      "case out of Inl e \<Rightarrow> raised_ok (ro_lib R) e | Inr (ref, y) \<Rightarrow> ref_ok (ro_lib R) ref \<and> result_ok (ro_lib R) y"
    using stage_body_ends [OF assms(1-4), of ?cx r] unfolding body by (simp_all add: body_ends_def)
  have eq: "claimed_round R q c r existing w = (case out of
      Inr found \<Rightarrow> commit_round R q c r found w1
    | Inl e \<Rightarrow> (Respond (fst (stage_failed R q c r e w1)), snd (stage_failed R q c r e w1)))"
    unfolding claimed_round_def None input by (simp add: body split_beta split: sum.split)
  show ?thesis
  proof (cases out)
    case (Inl e)
    with E(3) stage_failed_answers [OF assms(1,2) E(1) assms(4,5), of e r] show ?thesis unfolding eq by (simp add: round_ends_def)
  next
    case (Inr found)
    with E(3) commit_round_ends [OF assms(1,2) E(1)] show ?thesis unfolding eq by (cases found) (simp add: round_ends_after [OF assms(3) E(2)])
  qed
qed

lemma stage_digest_total:
  assumes "nfc_ascii L" "sha256_size L"
  shows "\<exists>h. stage_input_digest L q stage refs = Inr h \<and> is_hex64 h"
proof -
  have "admissible L False (pdict
       [(''operation_id'', PStr (rt_operation_id q)), (''stage_name'', PStr stage),
        (''request_identity_digest'', PStr (rt_operation_id q)), (''previous_result_ids'', PList (map (PStr \<circ> sr_result_id) refs))])"
    by (simp add: pdict_def admissible_PDict nfc_asciiD [OF assms(1)] list_all_iff)
  then show ?thesis using sha256_hex64 [OF assms(2)]
    by (auto simp: stage_input_digest_def rt_hash_def rt_canonical_bytes_def contract_canonical_bytes_def contract.norm_eq)
qed

lemma get_result_total:
  assumes "results_ok L rs"
  shows "\<exists>x. get_result L rs (ws, op_id, stage, input) = Inr x \<and> (\<forall>ref y. x = Some (ref, y) \<longrightarrow> ref_ok L ref \<and> result_ok L y)"
proof (cases "map_of rs (ws, op_id, stage, input)")
  case (Some p)
  with assms have "ref_ok L (pr_ref p)" "\<exists>x. result_ok L x \<and> restore_result L p = Inr (pr_ref p, x)" unfolding results_ok_def by blast+
  with Some show ?thesis by (auto simp: get_result_def)
qed (simp add: get_result_def)

lemma run_round_ends:
  assumes "surroundings_ok R" "request_ok (ro_lib R) q" "world_inv R q w"
  shows "round_ends R q w (run_round R q r0 w)"
proof -
  let ?L = "ro_lib R" and ?key = "request_key q"
  note L = surroundings_okD [OF assms(1)]
  let ?w0 = "between R w" let ?wb = "between R ?w0"
  note B0 = between_kept [OF assms(1,3)]
  note B1 = between_kept [OF assms(1) B0(1)]
  obtain r where r: "get_operation (w_ops ?w0) ?key = Some r" using B0(1) by (auto simp: world_inv_def)
  have ok: "record_ok ?L r" using store_okD B0(1) r unfolding world_inv_def by blast
  show ?thesis
  proof (cases "terminal r")
    case True
    with answers_record [OF assms(2) B0(1) r, of None False] B0(1) show ?thesis by (simp add: run_round_def r round_ends_def)
  next
    case False
    then have i: "\<not> op_stage_index r \<ge> length (op_stages r)" using ok by (simp add: record_ok_def progress_ok_def)
    let ?stage = "op_stages r ! op_stage_index r"
    obtain h where h: "stage_input_digest ?L q ?stage (op_refs r) = Inr h" "is_hex64 h" using stage_digest_total [OF L(1,3)] by blast
    obtain existing where ex: "get_result ?L (w_results ?wb) (rt_workspace_id q, rt_operation_id q, ?stage, h) = Inr existing"
        "\<forall>ref y. existing = Some (ref, y) \<longrightarrow> ref_ok ?L ref \<and> result_ok ?L y"
      using get_result_total B1(1) unfolding world_inv_def by blast
    obtain now w1 where t: "tick R ?wb = (now, w1)" by (cases "tick R ?wb")
    note T = world_inv_tick [OF assms(1) B1(1) t]
    have so: "store_ok ?L (w_ops w1)" using T(1) by (simp add: world_inv_def)
    obtain x where x: "get_operation (w_ops w1) ?key = Some x" using T(1) by (auto simp: world_inv_def)
    let ?f = "claim_next ?L (w_ops w1) ?key (rt_request_id q) now (ro_lease R) h (ro_max_attempts R) (existing \<noteq> None)"
    let ?w2 = "w1\<lparr>w_ops := snd ?f\<rparr>"
    obtain u out where f: "fst ?f = Inr (u, out)" "get_operation (snd ?f) ?key = Some u" "out = Terminal \<longrightarrow> terminal u" "out \<noteq> Terminal \<longrightarrow> \<not> terminal u"
        "\<forall>c. out = Claimed c \<longrightarrow> sc_input_digest c = h \<and> sc_stage_name c \<in> set STAGE_NAMES"
      using claim_next_result [OF L(1) so x T(2), of "rt_request_id q" "ro_lease R" h "ro_max_attempts R" "existing \<noteq> None"] by blast
    have k: "kept_ok ?L (w_ops w1) (snd ?f)" by (rule claim_kept [OF L(1) so T(2)])
    have I: "world_inv R q ?w2" by (rule world_inv_kept [OF T(1) k])
    have E: "store_evolves (w_ops w) (w_ops ?w2)"
      using store_evolves_trans [OF store_evolves_trans [OF store_evolves_trans [OF B0(2) B1(2)] tick_evolves [OF assms(1) B1(1) t]]] k by (simp add: kept_ok_def)
    have eq: "run_round R q r0 w = (case out of
        Terminal \<Rightarrow> (Respond (response_of ?L q u False None), ?w2)
      | Busy \<Rightarrow> (Respond (response_of ?L q u True (Some ''operation_stage_busy'')), ?w2)
      | Claimed c \<Rightarrow> claimed_round R q c u existing ?w2)"
      unfolding run_round_def Let_def r option.case if_not_P [OF False] if_not_P [OF i] h(1) sum.case ex(1) t prod.case lift_ops_def f(1) ..
    show ?thesis
    proof (cases out)
      case Terminal
      with f(2,3) answers_record [OF assms(2) I, of u None False] I show ?thesis unfolding eq by (simp add: round_ends_def)
    next
      case Busy
      with f(2,4) answers_record [OF assms(2) I, of u "Some ''operation_stage_busy''" True] I L(1) show ?thesis unfolding eq by (simp add: round_ends_def)
    next
      case (Claimed c)
      with f(5) h(2) claimed_round_ends [OF assms(1,2) I, of c existing u] ex(2) round_ends_after [OF assms(3) E] show ?thesis unfolding eq by simp
    qed
  qed
qed

lemma run_loop_answers:
  assumes "surroundings_ok R" "request_ok (ro_lib R) q"
  shows "world_inv R q w \<Longrightarrow> get_operation (w_ops w) (request_key q) = Some r \<Longrightarrow> length (op_stages r) < length (op_refs r) + n \<Longrightarrow>
    answers q (run_loop R q r0 n w) \<and> world_inv R q (snd (run_loop R q r0 n w))"
proof (induction n arbitrary: w r)
  case 0
  have "record_ok (ro_lib R) r" using store_okD 0(1,2) unfolding world_inv_def by blast
  then have "op_stage_index r \<le> length (op_stages r)" "map sr_stage_name (op_refs r) = take (op_stage_index r) (op_stages r)"
    by (simp_all add: record_ok_def progress_ok_def)
  then have "length (op_refs r) \<le> length (op_stages r)" by (metis length_map length_take min.cobounded1)
  with 0(3) show ?case by simp
next
  case (Suc n)
  obtain e w1 where run: "run_round R q r0 w = (e, w1)" by (cases "run_round R q r0 w")
  from run_round_ends [OF assms Suc.prems(1), of r0] have E: "world_inv R q w1"
      "case e of Respond resp \<Rightarrow> answers q (resp, w1) | Continue \<Rightarrow> advances q (w_ops w) (w_ops w1)"
    unfolding run round_ends_def fst_conv snd_conv by blast+
  show ?case
  proof (cases e)
    case (Respond resp)
    with E show ?thesis by (simp add: run)
  next
    case Continue
    with E(2) Suc.prems(2,3) obtain r' where "get_operation (w_ops w1) (request_key q) = Some r'" "length (op_stages r') < length (op_refs r') + n"
      by (auto simp: advances_def)
    from Suc.IH [OF E(1) this] Continue show ?thesis by (simp add: run)
  qed
qed

lemma reject_total:
  assumes "surroundings_ok R" "request_ok (ro_lib R) q" "code_ok (ro_lib R) code" "in_years now"
  shows "\<exists>resp. reject_response (ro_lib R) q code now = Inr resp \<and> rr_response_status resp = S_REJECTED \<and> rr_error_code resp = Some code \<and>
    rr_stage_result_refs resp = [] \<and> rr_request_id resp = rt_request_id q"
proof -
  note Q = request_okD [OF assms(2)]
  let ?v = "\<lparr>rr_request_id = rt_request_id q, rr_operation_id = rt_operation_id q, rr_workspace_id = rt_workspace_id q,
        rr_response_status = S_REJECTED, rr_state = REJECTED, rr_generation_id = rt_generation_id q, rr_stage_result_refs = [],
        rr_result_ref = None, rr_retryable = False, rr_error_code = Some code, rr_updated_at = format_utc_timestamp now\<rparr>"
  have err: "rt_optional (rt_safe_code (ro_lib R)) (Some code) = Inr (Some code)" using assms(3) unfolding code_ok_def by (simp only: rt_optional_def option.case bindR_simps)
  have refs: "mapR (reparse_ref (ro_lib R)) [] = Inr []" "validate_stage_refs [] (rt_operation_id q) = Inr ()"
      "validate_state_ref_semantics REJECTED [] None = Inr ()" "response_semantics S_REJECTED REJECTED [] None False (Some code)"
    by (simp_all add: validate_stage_refs_def validate_state_ref_semantics_def response_semantics_def STAGE_STATES_def)
  have "new_response (ro_lib R) ?v = Inr ?v"
    by (rule new_response_id) (simp_all only: runtime_response.select_convs Q err refs parse_format [OF assms(4)] option.case)
  then show ?thesis unfolding reject_response_def by simp
qed

lemma tick_stores:
  assumes "surroundings_ok R" "store_ok (ro_lib R) (w_ops w)" "results_ok (ro_lib R) (w_results w)" "tick R w = (now, w')"
  shows "store_ok (ro_lib R) (w_ops w') \<and> results_ok (ro_lib R) (w_results w') \<and> in_years now"
proof -
  have "(op_step (ro_lib R))\<^sup>*\<^sup>* (w_ops w) (w_ops (ro_others R w))" "results_ok (ro_lib R) (w_results (ro_others R w))"
    using assms(1,3) by (simp_all add: surroundings_ok_def)
  with op_steps_kept [OF _ surroundings_okD(1) [OF assms(1)] assms(2)] assms(4) surroundings_okD(4) [OF assms(1)] show ?thesis
    by (auto simp: tick_def Let_def kept_ok_def)
qed

lemma register_result:
  assumes "register_operation s q p now = (out, s')"
  shows "out \<in> {Inl (OperationConflict ''idempotency_payload_mismatch''), Inl (OperationConflict ''operation_binding_mismatch'')} \<and> s' = s \<or>
    (\<exists>r. out = Inr r \<and> get_operation s' (request_key q) = Some r \<and> op_stages r = pd_stages p \<and> op_actor_id r = rt_actor_id q)"
proof -
  have "get_operation (snd (register_new s q p now)) (request_key q) = Some (fresh_record q p now)" if "get_operation s (request_key q) = None"
    using that by (simp add: register_new_def get_operation_def put_operation_def Let_def dict_simps)
  then have "fst (register_new s q p now) \<in> {Inl (OperationConflict ''operation_binding_mismatch'')} \<and> snd (register_new s q p now) = s \<or>
    (\<exists>r. fst (register_new s q p now) = Inr r \<and> get_operation (snd (register_new s q p now)) (request_key q) = Some r \<and>
      op_stages r = pd_stages p \<and> op_actor_id r = rt_actor_id q)"
    by (cases "get_operation s (request_key q)") (auto simp: register_new_def same_binding_def fresh_record_def Let_def)
  with assms show ?thesis by (auto simp: register_operation_def split: option.splits if_splits)
qed

text \<open>
  C9: a run, with other workers, pollers and cancellations in between. It always comes to an end, and with one of: a response that reports the
  operation's record as it then is in the store, to be retried exactly when the operation is still running; a rejection that says that the request type
  is unknown, the idempotency key is taken by another payload or the operation is bound to another pipeline; or a conflict. In every case the stores
  stay well-formed.
\<close>

theorem run_answers:
  assumes "surroundings_ok R" "\<forall>(t, p)\<in>set (ro_pipelines R). stages_ok (pd_stages p)" "request_ok (ro_lib R) q"
    and "store_ok (ro_lib R) (w_ops w)" "results_ok (ro_lib R) (w_results w)" "run R q w = (out, w')"
  shows "store_ok (ro_lib R) (w_ops w') \<and> results_ok (ro_lib R) (w_results w') \<and>
    (case out of
       Inr resp \<Rightarrow> reports q resp (w_ops w') \<or>
         rr_response_status resp = S_REJECTED \<and> rr_stage_result_refs resp = [] \<and>
         (if map_of (ro_pipelines R) (rt_request_type q) = None then rr_error_code resp = Some ''unknown_request_type''
          else rr_error_code resp \<in> {Some ''idempotency_payload_mismatch'', Some ''operation_binding_mismatch''})
     | Inl e \<Rightarrow> e = StageClaimConflict \<or> (\<exists>code. e = OperationConflict code))"
proof -
  let ?L = "ro_lib R"
  note L = surroundings_okD [OF assms(1)]
  have codes: "code_ok ?L ''unknown_request_type''" "code_ok ?L ''idempotency_payload_mismatch''" "code_ok ?L ''operation_binding_mismatch''"
    by (simp_all add: code_ok_def nfc_asciiD [OF L(1)] is_safe_code_def lower_char_def)
  obtain now w1 where t: "tick R w = (now, w1)" by (cases "tick R w")
  note T = tick_stores [OF assms(1,4,5) t]
  have q: "reparse_request ?L q = Inr q" using assms(3) by (simp add: request_ok_def)
  show ?thesis
  proof (cases "map_of (ro_pipelines R) (rt_request_type q)")
    case None
    then have "out = reject_response ?L q ''unknown_request_type'' now" "w' = w1" using assms(6) by (simp_all add: run_def q t)
    moreover obtain resp where "reject_response ?L q ''unknown_request_type'' now = Inr resp" "rr_response_status resp = S_REJECTED"
        "rr_error_code resp = Some ''unknown_request_type''" "rr_stage_result_refs resp = []"
      using reject_total [OF assms(1,3) codes(1)] T by blast
    ultimately show ?thesis using T None by simp
  next
    case (Some p)
    then have p: "stages_ok (pd_stages p)" using assms(2) map_of_SomeD by fastforce
    obtain o1 s2 where reg: "register_operation (w_ops w1) q p now = (o1, s2)" by (cases "register_operation (w_ops w1) q p now")
    let ?w2 = "w1\<lparr>w_ops := s2\<rparr>"
    have so: "store_ok ?L s2" using register_kept [OF _ assms(3) p, of "w_ops w1" now] T reg by (simp add: kept_ok_def)
    from register_result [OF reg] show ?thesis
    proof (elim disjE exE conjE)
      assume o: "o1 \<in> {Inl (OperationConflict ''idempotency_payload_mismatch''), Inl (OperationConflict ''operation_binding_mismatch'')}"
      then obtain code where c: "o1 = Inl (OperationConflict code)" "code \<in> {''idempotency_payload_mismatch'', ''operation_binding_mismatch''}" by blast
      obtain t2 w3 where t2: "tick R ?w2 = (t2, w3)" by (cases "tick R ?w2")
      have T2: "store_ok ?L (w_ops w3) \<and> results_ok ?L (w_results w3) \<and> in_years t2" by (rule tick_stores [OF assms(1) _ _ t2]) (use so T in simp_all)
      have "out = reject_response ?L q code t2 \<and> w' = w3"
        using assms(6) unfolding run_def q stop_simps Some option.case Let_def t prod.case lift_ops_def reg fst_conv snd_conv c(1) by (simp add: t2)
      moreover have "code_ok ?L code" using c(2) codes by blast
      then obtain resp where "reject_response ?L q code t2 = Inr resp" "rr_response_status resp = S_REJECTED"
          "rr_error_code resp = Some code" "rr_stage_result_refs resp = []"
        using reject_total [OF assms(1,3)] T2 by blast
      ultimately show ?thesis using T2 c(2) Some by auto
    next
      fix r
      assume r: "o1 = Inr r" "get_operation s2 (request_key q) = Some r" "op_stages r = pd_stages p"
      have "world_inv R q ?w2" using so T r(2) by (simp add: world_inv_def)
      from run_loop_answers [OF assms(1,3) this, of r "length (pd_stages p) + 2" r] r(2,3)
      have "answers q (run_loop R q r (length (pd_stages p) + 2) ?w2) \<and> world_inv R q (snd (run_loop R q r (length (pd_stages p) + 2) ?w2))" by simp
      moreover have "run_loop R q r (length (pd_stages p) + 2) ?w2 = (out, w')"
        using assms(6) unfolding run_def q stop_simps Some option.case Let_def t prod.case lift_ops_def reg fst_conv snd_conv r(1) by simp
      ultimately show ?thesis by (auto simp: answers_def world_inv_def conflict_def split: sum.splits)
    qed
  qed
qed

text \<open>
  Two of the \<open>except\<close> clauses do not expect to have lost the claim. When a poll of the status at the deadline has dropped the expired lease before the worker
  reports the deadline, the worker's run ends with the conflict instead of a response.
\<close>

lemma lost_claim_escapes:
  assumes "tick R w = (now, w1)" "get_operation (w_ops w1) (request_key q) = Some x" "time_ok (op_deadline_at x)" "op_active x = None"
  shows "fst (stage_failed R q c r OperationDeadlineExceeded w) = Inl StageClaimConflict"
proof -
  obtain d where "parse_utc_timestamp (op_deadline_at x) = Inr d" using assms(3) by (auto simp: time_ok_def isOk_def split: sum.splits)
  with assms show ?thesis
    by (simp add: stage_failed_def deadline_response_def lift_ops_def fail_stage_def claimed_record_def require_claim_def)
qed

subsection \<open>An example\<close>

text \<open>One handler for every stage, a clock and the other threads as parameters.\<close>

definition demo_result :: "string \<Rightarrow> stage_result" where
  "demo_result stage = \<lparr>sg_stage_name = stage, sg_payload = JObj [], sg_disposition = CONTINUE, sg_schema_id = ''s'', sg_provenance = [], sg_error = None\<rparr>"

definition demo_orchestrator :: "(nat \<Rightarrow> int) \<Rightarrow> (rt_world \<Rightarrow> rt_world) \<Rightarrow> orchestrator" where
  "demo_orchestrator clock others =
     \<lparr>ro_lib = demo_lib, ro_pipelines = [(''ask'', demo_pipeline)], ro_handlers = (\<lambda>stage cx n. Inr (Some (demo_result stage))), ro_clock = clock,
      ro_lease = 60, ro_max_attempts = 3, ro_others = others\<rparr>"

definition demo_world :: rt_world where
  "demo_world = \<lparr>w_ops = new_op_store, w_results = [], w_ticks = 0\<rparr>"

lemma demo_orchestrator_simps [simp]:
  "ro_lib (demo_orchestrator clock others) = demo_lib" "ro_pipelines (demo_orchestrator clock others) = [(''ask'', demo_pipeline)]"
  "ro_handlers (demo_orchestrator clock others) stage cx n = Inr (Some (demo_result stage))" "ro_clock (demo_orchestrator clock others) = clock"
  "ro_lease (demo_orchestrator clock others) = 60" "ro_max_attempts (demo_orchestrator clock others) = 3" "ro_others (demo_orchestrator clock others) = others"
  by (simp_all add: demo_orchestrator_def)

lemma demo_lib_sizes: "nfc_idem demo_lib" "sha256_size demo_lib"
proof -
  show "nfc_idem demo_lib" by (simp add: nfc_idem_def demo_lib_def)
  have "length (take 32 (x @ replicate 32 CHR 0x00)) = 32" for x :: string by simp
  then show "sha256_size demo_lib" by (simp add: sha256_size_def demo_lib_def del: take_append length_take)
qed

lemma demo_surroundings:
  assumes "\<And>n. in_years (clock n)" "\<And>w. (op_step demo_lib)\<^sup>*\<^sup>* (w_ops w) (w_ops (others w))" "\<And>w. w_results (others w) = w_results w"
  shows "surroundings_ok (demo_orchestrator clock others)"
  using assms demo_lib_sizes by (simp add: surroundings_ok_def)

lemma demo_result_ok: "new_stage_result demo_lib (demo_result ''planned'') = Inr (demo_result ''planned'')"
  by code_simp

theorem run_answers_witness:
  "store_ok demo_lib (w_ops (snd (run (demo_orchestrator (\<lambda>n. demo_now) id) demo_op demo_world)))"
proof -
  let ?R = "demo_orchestrator (\<lambda>n. demo_now) id"
  have "surroundings_ok ?R" by (rule demo_surroundings) (simp_all add: demo_years)
  moreover have "\<forall>(t, p)\<in>set (ro_pipelines ?R). stages_ok (pd_stages p)" using demo_pipeline_ok by simp
  moreover have "store_ok demo_lib (w_ops demo_world)" "results_ok demo_lib (w_results demo_world)"
    using new_store_ok by (simp_all add: demo_world_def results_ok_def)
  ultimately show ?thesis
    using run_answers [of ?R demo_op demo_world "fst (run ?R demo_op demo_world)" "snd (run ?R demo_op demo_world)"] demo_op_ok by simp
qed

end
