(* ===== verification/RunCompletes.thy ===== *)
theory RunCompletes
  imports OrchestratorRuns
begin

text \<open>
  Liveness of \<open>RuntimeOrchestrator.run\<close>: with nobody else at the stores, every stage in time and handlers that let the pipeline continue, a run takes a new
  operation through all its stages.
\<close>

subsection \<open>An undisturbed run\<close>

text \<open>
  A run works alone when no other thread changes the stores between its steps. A stage takes five readings of the clock: one when it is claimed, one at
  each of the two checkpoints around its handler, one for the stored result and one when it is committed. It is in time when all five precede the deadline and
  the last comes before the lease taken with the first has run out; a handler that takes longer loses its claim and the run answers \<open>retry_later\<close>.
\<close>

definition alone :: "orchestrator \<Rightarrow> bool" where
  "alone R \<longleftrightarrow> (\<forall>w. ro_others R w = w) \<and> 0 < ro_max_attempts R"

definition stage_in_time :: "orchestrator \<Rightarrow> int \<Rightarrow> nat \<Rightarrow> bool" where
  "stage_in_time R d n \<longleftrightarrow> (\<forall>j<5. ro_clock R (n + j) < d) \<and> ro_clock R (n + 4) < ro_clock R n + ro_lease R"

text \<open>The run registers the operation at its first reading; the stages follow one another.\<close>

definition run_in_time :: "orchestrator \<Rightarrow> runtime_request \<Rightarrow> string list \<Rightarrow> nat \<Rightarrow> bool" where
  "run_in_time R q stages n \<longleftrightarrow>
     (\<forall>d. parse_utc_timestamp (rt_deadline_at q) = Inr d \<longrightarrow> (\<forall>i < length stages. stage_in_time R d (n + 1 + 5 * i)))"

definition handlers_continue :: "orchestrator \<Rightarrow> string list \<Rightarrow> bool" where
  "handlers_continue R stages \<longleftrightarrow>
     (\<forall>stage cx n. stage \<in> set stages \<longrightarrow> (\<exists>x0 x. ro_handlers R stage cx n = Inr (Some x0) \<and> new_stage_result (ro_lib R) x0 = Inr x \<and>
        sg_stage_name x = stage \<and> sg_disposition x = CONTINUE \<and> sg_schema_id x \<noteq> []))"

text \<open>An operation that waits for the stages from \<open>i\<close> on, none of which was tried.\<close>

definition waits :: "runtime_request \<Rightarrow> string list \<Rightarrow> nat \<Rightarrow> operation_record \<Rightarrow> bool" where
  "waits q stages i r \<longleftrightarrow>
     op_active r = None \<and> op_cancellation r = None \<and> op_stage_index r = i \<and> op_stages r = stages \<and>
     op_deadline_at r = rt_deadline_at q \<and> (\<forall>j. i \<le> j \<longrightarrow> j < length stages \<longrightarrow> attempt_for r (stages ! j) = 0)"

definition untried :: "runtime_request \<Rightarrow> string list \<Rightarrow> nat \<Rightarrow> result_store \<Rightarrow> bool" where
  "untried q stages i rs \<longleftrightarrow>
     (\<forall>j input. i \<le> j \<longrightarrow> j < length stages \<longrightarrow> map_of rs (rt_workspace_id q, rt_operation_id q, stages ! j, input) = None)"

lemma alone_tick: "alone R \<Longrightarrow> tick R w = (ro_clock R (w_ticks w), w\<lparr>w_ticks := w_ticks w + 1\<rparr>)"
  by (simp add: alone_def tick_def Let_def)

lemma alone_between [simp]: "alone R \<Longrightarrow> between R w = w"
  by (simp add: alone_def between_def)

lemma stage_in_timeD:
  assumes "stage_in_time R d n"
  shows "ro_clock R n < d" "ro_clock R (Suc n) < d" "ro_clock R (n + 2) < d" "ro_clock R (n + 4) < min d (ro_clock R n + ro_lease R)"
  using assms spec [of "\<lambda>j. j < 5 \<longrightarrow> ro_clock R (n + j) < d" 0] spec [of "\<lambda>j. j < 5 \<longrightarrow> ro_clock R (n + j) < d" 1]
    spec [of "\<lambda>j. j < 5 \<longrightarrow> ro_clock R (n + j) < d" 2] spec [of "\<lambda>j. j < 5 \<longrightarrow> ro_clock R (n + j) < d" 4]
  by (simp_all add: stage_in_time_def)

text \<open>The record with a claim on stage \<open>i\<close>.\<close>

definition claimed_at :: "runtime_request \<Rightarrow> string list \<Rightarrow> nat \<Rightarrow> stage_ref list \<Rightarrow> stage_claim \<Rightarrow> int \<Rightarrow> string \<Rightarrow> operation_record \<Rightarrow> bool" where
  "claimed_at q stages i refs c expires input u \<longleftrightarrow>
     \<not> terminal u \<and> sc_stage_name c = stages ! i \<and> sc_input_digest c = input \<and> op_refs u = refs \<and> op_stage_index u = i \<and>
     (\<exists>a. op_active u = Some a \<and> ac_token a = sc_token c \<and> ac_stage_name a = sc_stage_name c \<and> ac_attempt a = sc_attempt c \<and>
       ac_input_digest a = sc_input_digest c \<and> ac_lease_expires_at a = expires) \<and>
     waits q stages (Suc i) (u\<lparr>op_active := None, op_stage_index := Suc i\<rparr>)"

lemma calm_claim:
  assumes "nfc_ascii L" "waits q stages i r" "\<not> terminal r" "i < length stages" "get_operation s key = Some r" "0 < max_attempts"
    and "distinct (dict_keys (op_attempts r))" "distinct stages" "parse_utc_timestamp (rt_deadline_at q) = Inr d" "now < d"
  shows "\<exists>c u s'. claim_next L s key request_id now lease input max_attempts exhausted = (Inr (u, Claimed c), s') \<and>
    get_operation s' key = Some u \<and> claimed_at q stages i (op_refs r) c (min d (now + lease)) input u"
proof -
  note W = assms(2) [unfolded waits_def]
  let ?stage = "stages ! i"
  have "admissible L False (claim_body r ?stage 1 request_id input)"
    by (simp add: claim_body_def pdict_def admissible_PDict nfc_asciiD [OF assms(1)])
  then obtain h where h: "rt_hash L CLAIM_DOMAIN (claim_body r ?stage 1 request_id input) = Inr h"
    by (auto simp: rt_hash_def rt_canonical_bytes_def contract_canonical_bytes_def contract.norm_eq)
  have n: "drop_expired r now = r" "normalize_terminal r now = Inr r"
    using W assms(3,4,9,10) by (simp_all add: drop_expired_def normalize_terminal_def)
  have at: "attempt_for r ?stage = 0" using W assms(4) by simp
  let ?a = "\<lparr>ac_token = h, ac_request_id = request_id, ac_stage_name = ?stage, ac_attempt = 1, ac_lease_expires_at = min d (now + lease), ac_input_digest = input\<rparr>"
  let ?u = "revised now ((with_attempt r ?stage 1)\<lparr>op_active := Some ?a\<rparr>)"
  let ?c = "\<lparr>sc_token = h, sc_stage_name = ?stage, sc_attempt = 1, sc_input_digest = input\<rparr>"
  have eq: "claim_next L s key request_id now lease input max_attempts exhausted =
      (Inr (?u, Claimed ?c), put_operation key ?u (put_operation key r (put_operation key r s)))"
    using W assms(3-6,9) at h n by (simp add: claim_next_def claim_stage_def Let_def)
  have at': "attempt_for (with_attempt r ?stage 1) (stages ! j) = 0" if "Suc i \<le> j" "j < length stages" for j
    using that W with_attempt_simps(2) [OF assms(7), of ?stage 1] assms(8) by (simp add: nth_eq_iff_index_eq)
  have same: "op_state (with_attempt r k m) = op_state r" "op_refs (with_attempt r k m) = op_refs r" "op_stages (with_attempt r k m) = op_stages r"
      "op_stage_index (with_attempt r k m) = op_stage_index r" "op_cancellation (with_attempt r k m) = op_cancellation r"
      "op_deadline_at (with_attempt r k m) = op_deadline_at r" for k m by (simp_all add: with_attempt_def)
  have "claimed_at q stages i (op_refs r) ?c (min d (now + lease)) input ?u"
    using W assms(3) at' by (simp add: claimed_at_def waits_def revised_def same)
  with eq show ?thesis by simp
qed

text \<open>The handler's stage, up to the stored result.\<close>

lemma alone_checkpoint:
  assumes "alone R" "parse_utc_timestamp (rt_deadline_at q) = Inr d" "get_operation (w_ops w) (request_key q) = Some u" "op_cancellation u = None"
    and "ro_clock R (w_ticks w) < d"
  shows "checkpoint R q w = (Inr (), w\<lparr>w_ticks := w_ticks w + 1\<rparr>)"
  using assms by (simp add: checkpoint_def is_cancelled_def alone_tick [OF assms(1)])

lemma calm_body:
  assumes "surroundings_ok R" "request_ok (ro_lib R) q" "alone R" "handlers_continue R stages" "i < length stages" "parse_utc_timestamp (rt_deadline_at q) = Inr d"
    and "get_operation (w_ops w) (request_key q) = Some u" "claimed_at q stages i refs c expires input u" "is_hex64 input" "untried q stages i (w_results w)"
    and "distinct stages" "ro_clock R (w_ticks w) < d" "ro_clock R (Suc (w_ticks w)) < d"
  shows "\<exists>ref x rs. stage_body R q cx c u w = (Inr (ref, x), w\<lparr>w_results := rs, w_ticks := w_ticks w + 3\<rparr>) \<and> ref_ok (ro_lib R) ref \<and> sr_operation_id ref = rt_operation_id q \<and>
    sr_stage_name ref = stages ! i \<and> sr_input_digest ref = input \<and> sg_disposition x = CONTINUE \<and> result_ok (ro_lib R) x \<and> untried q stages (Suc i) rs"
proof -
  let ?L = "ro_lib R"
  note L = surroundings_okD [OF assms(1)] and W = assms(8) [unfolded claimed_at_def waits_def]
  have "op_cancellation u = None" using W by simp
  note K = alone_checkpoint [OF assms(3,6) _ this]
  let ?w1 = "w\<lparr>w_ticks := w_ticks w + 1\<rparr>" let ?w2 = "?w1\<lparr>w_ticks := w_ticks ?w1 + 1\<rparr>"
  have k: "checkpoint R q w = (Inr (), ?w1)" "checkpoint R q ?w1 = (Inr (), ?w2)" using K assms(7,12,13) by simp_all
  have "stages ! i \<in> set stages" using assms(5) by simp
  then obtain x0 x where x: "ro_handlers R (sc_stage_name c) cx (w_ticks ?w1) = Inr (Some x0)" "new_stage_result ?L x0 = Inr x"
      "sg_stage_name x = stages ! i" "sg_disposition x = CONTINUE" "sg_schema_id x \<noteq> []"
    using assms(4) W unfolding handlers_continue_def by metis
  have xo: "result_ok ?L x" by (rule new_stage_result_ok [OF L(1,2) x(2)])
  have b: "body_result R c u (Some x0) = Inr x" using x(2-4) W by (simp add: body_result_def)
  let ?w3 = "?w2\<lparr>w_ticks := w_ticks ?w2 + 1\<rparr>" let ?t = "format_utc_timestamp (ro_clock R (w_ticks ?w2))"
  obtain by1 where by1: "semantic_bytes ?L x = Inr by1" using semantic_bytes_loads [OF L(1) xo] by blast
  have id: "is_hex64 (rt_operation_id q)" using request_okD(1) [OF assms(2)] by simp
  have X: "sg_stage_name x \<in> set STAGE_NAMES" "nfc ?L (sg_schema_id x) = sg_schema_id x" "\<forall>p\<in>set (sg_provenance x). nfc ?L p = p \<and> p \<noteq> []"
      "sorted_set (sg_provenance x) = sg_provenance x" using xo by (simp_all add: result_ok_def)
  obtain ref where ref: "create_ref ?L (rt_operation_id q) (sg_stage_name x) input (sha256_hex ?L (STAGE_CONTENT_DOMAIN @ by1)) (sg_schema_id x) ?t (sg_provenance x) = Inr ref"
      "ref_ok ?L ref" "sr_operation_id ref = rt_operation_id q" "sr_stage_name ref = sg_stage_name x" "sr_input_digest ref = input"
    using create_ref_total [OF L(1,3) id assms(9) sha256_hex64 [OF L(3)] X(1,2) x(5) _ X(3,4), of ?t] time_ok_format [OF L(4)] by blast
  let ?rs = "dict_set (rt_workspace_id q, rt_operation_id q, stages ! i, input) \<lparr>pr_ref = ref, pr_bytes = by1\<rparr> (w_results w)"
  have "put_once ?L (w_results ?w3) (rt_workspace_id q) (rt_operation_id q) (sc_input_digest c) x ?t = (Inr (ref, x), ?rs)"
    using assms(5,10) W ref(1) restore_persisted [OF L(1) xo x(5) by1] x(3) by (simp add: put_once_def by1 untried_def Let_def)
  then have "stage_body R q cx c u w = (Inr (ref, x), w\<lparr>w_results := ?rs, w_ticks := w_ticks w + 3\<rparr>)"
    unfolding stage_body_eq [OF k] x(1) stop_simps b alone_tick [OF assms(3)] by simp
  moreover have "untried q stages (Suc i) ?rs"
    using assms(5,10,11) by (auto simp: untried_def dict_simps nth_eq_iff_index_eq)
  ultimately show ?thesis using ref(2-5) [unfolded x(3)] x(4) xo by blast
qed

lemma calm_commit:
  assumes "record_ok L u" "stages_ok stages" "i < length stages" "claimed_at q stages i refs c expires input u" "get_operation s key = Some u"
    and "parse_utc_timestamp (rt_deadline_at q) = Inr d" "now < d" "now < expires"
    and "sr_operation_id ref = snd key" "sr_stage_name ref = stages ! i" "sr_input_digest ref = input"
  shows "\<exists>v. commit_stage s key c ref CONTINUE None now = (Inr v, put_operation key v s) \<and>
    waits q stages (Suc i) v \<and> (if Suc i = length stages then op_state v = COMPLETED else \<not> terminal v)"
proof -
  note W = assms(4) [unfolded claimed_at_def waits_def]
  have dl: "op_deadline_at u = rt_deadline_at q" "op_cancellation u = None" "op_stages u = stages" "op_stage_index u = i" using W by simp_all
  have "require_claim u c (Some now) = Inr (the (op_active u))" using W assms(8) by (auto simp: require_claim_def)
  then have cr: "claimed_record s key c False now = Inr (u, False)" using assms(5-7) dl by (simp add: claimed_record_def)
  have "map sr_stage_name (op_refs u) = take i stages" using assms(1) dl by (simp add: record_ok_def progress_ok_def)
  moreover have "stages ! i \<notin> set (take i stages)"
    using stages_sorted(2) [OF assms(2)] assms(3) by (auto simp: in_set_conv_nth nth_eq_iff_index_eq)
  ultimately have new: "sr_stage_name ref \<notin> set (map sr_stage_name (op_refs u))" using assms(10) by simp
  have "stages ! i \<in> set STAGE_NAMES" using assms(2,3) nth_mem unfolding stages_ok_def by blast
  then obtain st where st: "st \<in> set STAGE_STATES" "operation_state_of (stages ! i) = Some st" using state_of_stage by blast
  let ?e = "if Suc i = length stages then (COMPLETED, None :: string option) else (st, None)"
  have com: "committed u ref CONTINUE None = Inr ?e" using st(2) assms(3,10) dl by (auto simp: committed_def Let_def)
  let ?v = "finished (fst ?e) (snd ?e) now (u\<lparr>op_stage_index := op_stage_index u + 1, op_refs := op_refs u @ [ref]\<rparr>)"
  have "commit_stage s key c ref CONTINUE None now = (Inr ?v, put_operation key ?v s)"
    using new assms(9-11) W com unfolding commit_stage_def cr stop_simps prod.case dl(2) by (simp add: Let_def split_beta)
  moreover have "waits q stages (Suc i) ?v" "if Suc i = length stages then op_state ?v = COMPLETED else \<not> terminal ?v"
    using st(1) W by (simp_all add: finished_def revised_def waits_def)
  ultimately show ?thesis by blast
qed

text \<open>The round of a claimed stage: its result is stored and committed.\<close>

lemma calm_claimed:
  assumes R: "surroundings_ok R" and q: "request_ok (ro_lib R) q" and A: "alone R" and H: "handlers_continue R stages" and S: "stages_ok stages"
    and w: "world_inv R q w" and u: "get_operation (w_ops w) (request_key q) = Some u" "claimed_at q stages i refs c expires h u"
    and d: "parse_utc_timestamp (rt_deadline_at q) = Inr d" and h: "is_hex64 h" and i: "i < length stages" and U: "untried q stages i (w_results w)"
    and t: "ro_clock R (w_ticks w) < d" "ro_clock R (Suc (w_ticks w)) < d" "ro_clock R (w_ticks w + 3) < d" "ro_clock R (w_ticks w + 3) < expires"
  shows "\<exists>v w'. claimed_round R q c u None w = (if terminal v then Respond (response_of (ro_lib R) q v False None) else Continue, w') \<and>
    get_operation (w_ops w') (request_key q) = Some v \<and> untried q stages (Suc i) (w_results w') \<and> w_ticks w' = w_ticks w + 4 \<and>
    waits q stages (Suc i) v \<and> (if Suc i = length stages then op_state v = COMPLETED else \<not> terminal v)"
proof -
  let ?L = "ro_lib R" and ?key = "request_key q"
  note L = surroundings_okD [OF R]
  obtain input where input: "input_from_request ?L q = Inr input" using input_total [OF L(1,2) q] by blast
  let ?cx = "\<lparr>cx_request = input, cx_stage_name = sc_stage_name c, cx_previous = op_refs u, cx_input_digest = sc_input_digest c, cx_attempt = str_nat (sc_attempt c)\<rparr>"
  from calm_body [OF R q A H i d u h U stages_sorted(2) [OF S] t(1,2), of ?cx]
  obtain ref x rs where body: "stage_body R q ?cx c u w = (Inr (ref, x), w\<lparr>w_results := rs, w_ticks := w_ticks w + 3\<rparr>)"
      "sr_operation_id ref = rt_operation_id q" "sr_stage_name ref = stages ! i" "sr_input_digest ref = h" "sg_disposition x = CONTINUE" "result_ok ?L x"
      "untried q stages (Suc i) rs" by (elim exE conjE)
  have err: "sg_error x = None" using body(5,6) by (simp add: result_ok_def)
  let ?n = "w_ticks w + 3" let ?w1 = "w\<lparr>w_results := rs, w_ticks := ?n\<rparr>"
  have uo: "record_ok ?L u" using store_okD [of ?L "w_ops w" ?key u] w u(1) by (simp add: world_inv_def)
  have id: "sr_operation_id ref = snd ?key" using body(2) by (simp add: request_key_def)
  obtain v where v: "commit_stage (w_ops w) ?key c ref CONTINUE None (ro_clock R ?n) = (Inr v, put_operation ?key v (w_ops w))"
      "waits q stages (Suc i) v" "if Suc i = length stages then op_state v = COMPLETED else \<not> terminal v"
    using calm_commit [OF uo S i u(2,1) d t(3,4) id body(3,4)] by blast
  let ?w2 = "?w1\<lparr>w_ticks := ?n + 1, w_ops := put_operation ?key v (w_ops w)\<rparr>"
  have "claimed_round R q c u None w = commit_round R q c u (ref, x) ?w1"
    by (simp add: claimed_round_def input body(1))
  also have "\<dots> = (if terminal v then Respond (response_of ?L q v False None) else Continue, ?w2)"
    by (simp add: commit_round_def alone_tick [OF A] lift_ops_def body(5) err v(1))
  finally have eq: "claimed_round R q c u None w = (if terminal v then Respond (response_of ?L q v False None) else Continue, ?w2)" .
  have "get_operation (w_ops ?w2) ?key = Some v" "untried q stages (Suc i) (w_results ?w2)" "w_ticks ?w2 = w_ticks w + 4" using body(7) by simp_all
  with eq v(2,3) show ?thesis by blast
qed

lemma calm_round:
  assumes R: "surroundings_ok R" and q: "request_ok (ro_lib R) q" and A: "alone R" and H: "handlers_continue R stages" and S: "stages_ok stages"
    and w: "world_inv R q w" and r: "get_operation (w_ops w) (request_key q) = Some r" "\<not> terminal r" "waits q stages i r"
    and i: "i < length stages" and U: "untried q stages i (w_results w)"
    and d: "parse_utc_timestamp (rt_deadline_at q) = Inr d" and t: "stage_in_time R d (w_ticks w)"
  shows "\<exists>v w'. run_round R q r0 w = (if terminal v then Respond (response_of (ro_lib R) q v False None) else Continue, w') \<and>
    get_operation (w_ops w') (request_key q) = Some v \<and> untried q stages (Suc i) (w_results w') \<and> w_ticks w' = w_ticks w + 5 \<and>
    waits q stages (Suc i) v \<and> (if Suc i = length stages then op_state v = COMPLETED else \<not> terminal v)"
proof -
  let ?L = "ro_lib R" and ?key = "request_key q"
  note L = surroundings_okD [OF R]
  have W: "op_stages r = stages" "op_stage_index r = i" using r(3) by (simp_all add: waits_def)
  note T = stage_in_timeD [OF t]
  have "record_ok ?L r" using store_okD [of ?L "w_ops w" ?key r] w r(1) by (simp add: world_inv_def)
  then have at: "distinct (dict_keys (op_attempts r))" by (simp add: record_ok_def claim_ok_def)
  obtain h where h: "stage_input_digest ?L q (stages ! i) (op_refs r) = Inr h" "is_hex64 h" using stage_digest_total [OF L(1,3)] by blast
  have none: "get_result ?L (w_results w) (rt_workspace_id q, rt_operation_id q, stages ! i, h) = Inr None"
    using U i by (simp add: get_result_def untried_def)
  let ?now = "ro_clock R (w_ticks w)" let ?w1 = "w\<lparr>w_ticks := w_ticks w + 1\<rparr>"
  have m: "0 < ro_max_attempts R" using A by (simp add: alone_def)
  from calm_claim [OF L(1) r(3,2) i r(1) m at stages_sorted(2) [OF S] d T(1), of "rt_request_id q" "ro_lease R" h False]
  obtain c u s' where cl: "claim_next ?L (w_ops w) ?key (rt_request_id q) ?now (ro_lease R) h (ro_max_attempts R) False = (Inr (u, Claimed c), s')"
      "get_operation s' ?key = Some u" "claimed_at q stages i (op_refs r) c (min d (?now + ro_lease R)) h u" by (elim exE conjE)
  let ?w2 = "?w1\<lparr>w_ops := s'\<rparr>"
  have w1: "world_inv R q ?w1" "store_ok ?L (w_ops w)" using w by (simp_all add: world_inv_def)
  have "kept_ok ?L (w_ops ?w1) s'"
    using claim_kept [OF L(1) w1(2) L(4), of ?key "rt_request_id q" "w_ticks w" "ro_lease R" h "ro_max_attempts R" False] cl(1) by simp
  then have w2: "world_inv R q ?w2" by (rule world_inv_kept [OF w1(1)])
  have idx: "\<not> op_stage_index r \<ge> length (op_stages r)" using W i by simp
  have "run_round R q r0 w = claimed_round R q c u None ?w2"
    unfolding run_round_def Let_def r(1) option.case if_not_P [OF r(2)] if_not_P [OF idx] W h(1) sum.case none alone_tick [OF A] alone_between [OF A] prod.case lift_ops_def
    using i by (simp add: cl(1))
  moreover have "get_operation (w_ops ?w2) ?key = Some u" "untried q stages i (w_results ?w2)" using cl(2) U by simp_all
  moreover have "ro_clock R (w_ticks ?w2) < d" "ro_clock R (Suc (w_ticks ?w2)) < d" "ro_clock R (w_ticks ?w2 + 3) < d"
      "ro_clock R (w_ticks ?w2 + 3) < min d (?now + ro_lease R)" "w_ticks ?w2 + 4 = w_ticks w + 5"
    using T by (simp_all add: numeral_eq_Suc)
  ultimately show ?thesis using calm_claimed [OF R q A H S w2 _ cl(3) d h(2) i] by metis
qed

lemma calm_loop:
  assumes R: "surroundings_ok R" and q: "request_ok (ro_lib R) q" and C: "alone R" "handlers_continue R stages" "stages_ok stages"
    and d: "parse_utc_timestamp (rt_deadline_at q) = Inr d" and t: "\<And>i. i < length stages \<Longrightarrow> stage_in_time R d (n0 + 1 + 5 * i)"
  shows "world_inv R q w \<Longrightarrow> get_operation (w_ops w) (request_key q) = Some r \<Longrightarrow> \<not> terminal r \<Longrightarrow> waits q stages i r \<Longrightarrow> i < length stages \<Longrightarrow>
    untried q stages i (w_results w) \<Longrightarrow> length stages \<le> i + n \<Longrightarrow> w_ticks w = n0 + 1 + 5 * i \<Longrightarrow>
    \<exists>v w'. run_loop R q r0 n w = (response_of (ro_lib R) q v False None, w') \<and> world_inv R q w' \<and> get_operation (w_ops w') (request_key q) = Some v \<and>
      op_state v = COMPLETED \<and> op_stages v = stages"
proof (induction n arbitrary: w r i)
  case (Suc n)
  from calm_round [OF R q C Suc.prems(1-6) d, of r0] t [OF Suc.prems(5)] Suc.prems(8)
  obtain v w1 where v: "run_round R q r0 w = (if terminal v then Respond (response_of (ro_lib R) q v False None) else Continue, w1)"
      "get_operation (w_ops w1) (request_key q) = Some v" "untried q stages (Suc i) (w_results w1)" "w_ticks w1 = n0 + 1 + 5 * Suc i"
      "waits q stages (Suc i) v" "if Suc i = length stages then op_state v = COMPLETED else \<not> terminal v" by auto
  have ends: "round_ends R q w (run_round R q r0 w)" by (rule run_round_ends [OF R q Suc.prems(1)])
  then have w1: "world_inv R q w1" unfolding v(1) by (simp add: round_ends_def)
  show ?case
  proof (cases "Suc i = length stages")
    case True
    then have "op_state v = COMPLETED" "op_stages v = stages" using v(5,6) by (simp_all add: waits_def)
    with v(1,2) w1 show ?thesis by simp
  next
    case False
    then have "\<not> terminal v" "Suc i < length stages" using v(6) Suc.prems(5) by simp_all
    with Suc.IH [OF w1 v(2) this(1) v(5) this(2) v(3) _ v(4)] Suc.prems(7) v(1) show ?thesis by simp
  qed
qed simp

text \<open>
  C10: liveness. When nobody else works on the stores, every stage is claimed, run and committed before the deadline and within the lease taken with its claim, and
  the handlers answer with results that let the pipeline continue, a run of a new operation returns a response for a completed operation with a result of every
  stage, in the pipeline's order, and the store has the completed operation.
\<close>

theorem run_completes:
  assumes "surroundings_ok R" "alone R" "request_ok (ro_lib R) q" "map_of (ro_pipelines R) (rt_request_type q) = Some p" "stages_ok (pd_stages p)"
    and "handlers_continue R (pd_stages p)" "store_ok (ro_lib R) (w_ops w)" "results_ok (ro_lib R) (w_results w)"
    and "get_operation (w_ops w) (request_key q) = None" "map_of (os_idempotency (w_ops w)) (rt_workspace_id q, rt_idempotency_key q) = None"
    and "untried q (pd_stages p) 0 (w_results w)" "run_in_time R q (pd_stages p) (w_ticks w)"
  shows "\<exists>resp w' v. run R q w = (Inr resp, w') \<and> rr_state resp = COMPLETED \<and> map sr_stage_name (rr_stage_result_refs resp) = pd_stages p \<and>
    get_operation (w_ops w') (request_key q) = Some v \<and> op_state v = COMPLETED \<and> op_refs v = rr_stage_result_refs resp"
proof -
  let ?L = "ro_lib R" and ?key = "request_key q" and ?stages = "pd_stages p"
  let ?now = "ro_clock R (w_ticks w)" let ?w1 = "w\<lparr>w_ticks := w_ticks w + 1\<rparr>"
  have yrs: "in_years ?now" by (rule surroundings_okD(4) [OF assms(1)])
  obtain s' where reg: "register_operation (w_ops ?w1) q p ?now = (Inr (fresh_record q p ?now), s')" "get_operation s' ?key = Some (fresh_record q p ?now)"
    using assms(9,10) by (simp add: register_operation_def register_new_def get_operation_def put_operation_def Let_def dict_simps)
  let ?w2 = "?w1\<lparr>w_ops := s'\<rparr>" let ?r = "fresh_record q p ?now"
  have "store_ok ?L s'" using register_kept [OF assms(7,3,5) yrs] reg(1) by (simp add: kept_ok_def)
  with reg(2) assms(8) have w2: "world_inv R q ?w2" "get_operation (w_ops ?w2) ?key = Some ?r" by (simp_all add: world_inv_def)
  have r: "\<not> terminal ?r" "waits q ?stages 0 ?r" by (simp_all add: fresh_record_def waits_def attempt_for_def)
  have "0 < length ?stages" "untried q ?stages 0 (w_results ?w2)" using assms(5,11) by (simp_all add: stages_ok_def)
  moreover obtain d where d: "parse_utc_timestamp (rt_deadline_at q) = Inr d"
    using request_okD(5) [OF assms(3)] by (auto simp: time_ok_def isOk_def split: sum.splits)
  moreover have "stage_in_time R d (w_ticks w + 1 + 5 * i)" if "i < length ?stages" for i using assms(12) d that by (simp add: run_in_time_def)
  ultimately
  obtain v w' where v: "run_loop R q ?r (length ?stages + 2) ?w2 = (response_of ?L q v False None, w')" "world_inv R q w'"
      "get_operation (w_ops w') ?key = Some v" "op_state v = COMPLETED" "op_stages v = ?stages"
    using calm_loop [OF assms(1,3,2,6,5) d, of "w_ticks w" ?w2 ?r 0 "length ?stages + 2" ?r] w2 r by auto
  have run: "run R q w = (response_of ?L q v False None, w')"
    using assms(3,4) reg(1) v(1) unfolding request_ok_def run_def by (simp add: alone_tick [OF assms(2)] lift_ops_def)
  have ok: "record_ok ?L v" "?key = (op_workspace_id v, op_operation_id v)" using store_okD [of ?L "w_ops w'" ?key v] v(2,3) by (simp_all add: world_inv_def)
  then have id: "rt_operation_id q = op_operation_id v" by (simp add: request_key_def)
  have "map sr_stage_name (op_refs v) = ?stages" using ok(1) v(4,5) by (simp add: record_ok_def progress_ok_def)
  moreover obtain resp where "response_of ?L q v False None = Inr resp" "rr_state resp = op_state v" "rr_stage_result_refs resp = op_refs v"
    using response_ok [OF ok(1) assms(3) id, of None False] v(4) by auto
  ultimately show ?thesis using run v(3,4) by simp
qed

theorem run_completes_witness:
  "\<exists>resp w'. run (demo_orchestrator (\<lambda>n. demo_now + 10 * int (min n 9)) id) demo_op demo_world = (Inr resp, w') \<and> rr_state resp = COMPLETED \<and>
     map sr_stage_name (rr_stage_result_refs resp) = [''planned'']"
proof -
  let ?R = "demo_orchestrator (\<lambda>n. demo_now + 10 * int (min n 9)) id"
  have d: "parse_utc_timestamp ''2024-01-01T06:00:00Z'' = Inr 63839685600" by code_simp
  have "alone ?R" by (simp add: alone_def)
  moreover have "run_in_time ?R demo_op [''planned''] (w_ticks demo_world)" by (auto simp: run_in_time_def stage_in_time_def demo_op_def d demo_world_def demo_now_def)
  moreover have "handlers_continue ?R [''planned'']" using demo_result_ok by (simp add: handlers_continue_def demo_result_def)
  moreover have "map_of (ro_pipelines ?R) (rt_request_type demo_op) = Some demo_pipeline" by (simp add: demo_op_def)
  moreover have "store_ok demo_lib (w_ops demo_world)" "results_ok demo_lib (w_results demo_world)" "get_operation (w_ops demo_world) k = None"
      "map_of (os_idempotency (w_ops demo_world)) k = None" "untried demo_op stages 0 (w_results demo_world)" for k stages
    using new_store_ok by (simp_all add: demo_world_def results_ok_def untried_def new_op_store_def get_operation_def)
  moreover have "surroundings_ok ?R" by (rule demo_surroundings) (simp_all add: in_years_def demo_now_def days_before_year_def)
  moreover have "pd_stages demo_pipeline = [''planned'']" by (simp add: demo_pipeline_def)
  ultimately show ?thesis using run_completes [of ?R demo_op demo_pipeline demo_world] demo_op_ok demo_pipeline_ok by auto
qed

end
