(* ===== verification/Spec2Isabelle.thy ===== *)
theory Spec2Isabelle
  imports Prelude Json Canonical Merkle Models ControlPlane History Search Cas Ingest Contracts
    Events Projections Schemas Kinds Signing Keys Gateways Assembler GitRepo Generation Publish Mirror Workspace
    Times SelfCertified WorkQueue Backpressure AuditLog Telemetry ExportContracts Export
    Plugins ChangeSets PyText Extractors RuntimeContracts OperationStore Orchestrator OrchestratorRuns RunCompletes
begin

text \<open>
  Verification of \<open>wiki_spike\<close> (\<open>src/src/wiki_spike\<close>): a compiler from raw sources to a signed,
  versioned wiki in Git, and the memory core (\<open>memory_core\<close>) of contracts, events, projections,
  registries, policy and operability that is built beside it, with the orchestrator of the memory runtime
  (\<open>memory_runtime\<close>) on top.

  \<^bold>\<open>The program.\<close> A source file is received into a content-addressed store (\<open>cas.py\<close>) and compiled
  into claims (\<open>ingest.py\<close>, \<open>models.py\<close>) by an extractor, either the deterministic one (\<open>claims.py\<close>) or
  a language model whose proposals are checked against the source (\<open>extraction.py\<close>, \<open>verify.py\<close>). The publisher (\<open>publish.py\<close>) merges the claims with those
  of the current generation, resolves conflicts, renders pages, citation index and knowledge snapshot (\<open>assembler.py\<close>), seals them
  in a Git commit with a signed manifest (\<open>generation.py\<close>, \<open>gitrepo.py\<close>, \<open>signing.py\<close>),
  registers the generation and its read models in an SQLite control plane (\<open>controlplane.py\<close>) and moves
  the publication pointer by compare-and-swap. The search service (\<open>search.py\<close>) answers from the index of the pointer's
  generation, the mirror (\<open>mirror.py\<close>) relays the outbox to a bare remote, and the workspace (\<open>workspace.py\<close>) runs the whole
  under a publisher lease. The memory core carries commands and queries in versioned envelopes
  (\<open>contracts.py\<close>) through gateways that enforce capabilities (\<open>policy.py\<close>, \<open>command_gateway.py\<close>,
  \<open>query_gateway.py\<close>), delivers operational events to consumers (\<open>events.py\<close>), rebuilds projections
  (\<open>projections.py\<close>), keeps schema, kind and key registries (\<open>registries.py\<close>), calls plugins within their manifests (\<open>plugins.py\<close>),
  publishes accepted change sets through the publisher (\<open>changeset_publication.py\<close>), and bounds its own work, audit,
  telemetry and export (\<open>operability.py\<close>). The runtime takes a request through the stages of a pipeline
  (\<open>memory_runtime/orchestrator.py\<close>): workers claim one stage at a time under a lease, a stage's result is stored once, and
  retries, cancellation and deadlines are decided by the operation's record.

  \<^bold>\<open>Conventions.\<close> Theory \<open>Prelude\<close>: an exception is a value of \<open>exn\<close> and a fallible call has type
  \<open>'a res = exn + 'a\<close>; messages are dropped. A Python \<open>str\<close> is the list of its UTF-8 bytes, so that
  \<open>str\<close> and \<open>bytes\<close> share a type and string order is byte order. A dictionary is an association list in insertion
  order. Integers are Python's and therefore \<open>int\<close>. A class with mutable state is a record, a method a
  function from the record to outcome and new record; after an error the state is the one
  reached when it was raised (\<open>stop\<close>, \<open>thenP\<close>). A lock or a database transaction makes a method atomic, so runs are sequences of method calls,
  given as \<open>inductive\<close> step relations and their closure; a method of several statements without either has its statements as steps
  (\<open>insert_generation\<close>), and what happens between the store accesses of a longer call is an argument (\<open>ro_others\<close>, and \<open>env\<close> or
  \<open>others\<close> of the publisher). Protocols and collaborators of the source are arguments of
  the definitions, with what the code relies on stated in a locale that the program's own implementation interprets.

  \<^bold>\<open>Theories and sources.\<close>
  \<^item> \<open>Json\<close>, \<open>Canonical\<close>, \<open>Merkle\<close>: \<open>json.dumps\<close> and \<open>json.loads\<close> on the values used, \<open>canonical.py\<close>,
    \<open>hashing.py\<close> and \<open>canonical_bytes\<close> of \<open>contracts.py\<close> (locale \<open>canonical_form\<close>, interpreted by both canonicalisers).
  \<^item> \<open>Models\<close>, \<open>Assembler\<close>, \<open>Cas\<close>, \<open>Ingest\<close>, \<open>Search\<close>, \<open>Signing\<close>, \<open>GitRepo\<close>, \<open>Generation\<close>, \<open>Publish\<close>, \<open>Mirror\<close>,
    \<open>Workspace\<close>: the files of the same names; \<open>ControlPlane\<close> and \<open>History\<close>: \<open>controlplane.py\<close>, its methods and its runs.
  \<^item> \<open>Contracts\<close>, \<open>Events\<close>, \<open>Projections\<close>: the files of the same names; \<open>Schemas\<close>, \<open>Kinds\<close>, \<open>Keys\<close>: \<open>registries.py\<close>;
    \<open>Gateways\<close>: \<open>policy.py\<close> and the two gateways.
  \<^item> \<open>Times\<close> to \<open>Export\<close>: \<open>operability.py\<close>. \<open>Times\<close> has \<open>_timestamp\<close> and the order of \<open>datetime\<close>, \<open>SelfCertified\<close> the
    value checks and two locales: contract classes whose identifier is the hash of their other fields, and tables of
    encoded records. \<open>WorkQueue\<close> and \<open>Backpressure\<close> have the queue, the retry budget, the circuit breaker and the
    controller; \<open>AuditLog\<close> and \<open>Telemetry\<close> the audit store, recorder and emitter; \<open>ExportContracts\<close> and \<open>Export\<close> the export gateway.
  \<^item> \<open>Plugins\<close>: \<open>plugins.py\<close>; \<open>ChangeSets\<close>: \<open>changeset_publication.py\<close> over \<open>Publish\<close>.
  \<^item> \<open>PyText\<close>: Python's string methods and the regular expressions in use, on code points. \<open>Extractors\<close>: \<open>claims.py\<close>, \<open>extraction.py\<close>
    and \<open>verify.py\<close>, with a locale for extractors whose claims quote the source, interpreted by both.
  \<^item> \<open>RuntimeContracts\<close>: \<open>memory_runtime/contracts.py\<close>. \<open>OperationStore\<close>, \<open>Orchestrator\<close>: \<open>memory_runtime/orchestrator.py\<close>,
    the operation store with its step relation \<open>op_step\<close>, and the store of results with \<open>RuntimeOrchestrator\<close>. \<open>OrchestratorRuns\<close> and \<open>RunCompletes\<close>:
    whole runs, among other threads and undisturbed.

  \<^bold>\<open>What is shown.\<close>
  \<^item> Publication: an attempt that returns refines an update of the set of published assertions, a publication of a new generation with working
    Git succeeds and leaves what the next one needs, a built candidate verifies, claims that were ingested are found by search with their own texts, a revoking source is quarantined, the outbox
    is relayed in order, publishing is leased.
  \<^item> Control plane: the pointer names the only published generation, sequence numbers have no gap (two connections may share one), search
    returns exactly the matching rows that the current generation accepts, activation is the compare-and-swap it should
    be and binds the signed read models, history is linear, fencing tokens are monotone.
  \<^item> Encodings: canonical bytes bind values, snapshots, events and stored objects are read back,
    claim and event identifiers bind their content unless SHA-256 collides.
  \<^item> Memory core: events are consumed exactly once and in order, replay catches up, poison events are dead-lettered;
    projections switch all or nothing; migrations end at the write version or where a validator or migration refuses; historical signatures stay valid;
    commands act only within a live capability and at most once, queries show exactly what the capability covers.
  \<^item> Operability: queue, budget, circuit, audit store, telemetry memory and job queue keep their bounds in every
    reachable state; refused submissions change nothing; the audit trail is exact; nothing is exported or
    measured outside policy, and what is exported is audited.
  \<^item> Plugins and change sets: a plugin is called and believed only as its manifest, the caller's capability and the quota allow; a change set
    is published exactly as accepted, a replay is recognised, a lost race writes nothing.
  \<^item> Extraction: claims of both extractors are grounded in the stored source, those of a language model quote it word for word and are no more certain than the
    span they quote, and the deterministic extractor is total.
  \<^item> Runtime: an operation's results are those of the first stages of its pipeline and a terminal operation never changes; stale
    workers are fenced off; claims are exclusive, bounded by retries and deadline; every run ends with what the record says or a conflict,
    and an undisturbed one with every stage within its lease completes.

  \<^bold>\<open>Hypotheses on code outside the repository.\<close> \<open>nfc_ascii\<close>, \<open>nfc_idem\<close>: Unicode normalisation leaves ASCII alone and is
  idempotent. \<open>sha_ok\<close>, \<open>no_collision\<close>, \<open>contract_no_collision\<close>: SHA-256 has 32 bytes (also \<open>sha256_size\<close>) and does not collide on the two
  byte strings at hand. \<open>hmac_ok\<close>: HMAC-SHA-256 has 32 bytes. \<open>ed_correct\<close>: a signature verifies under its key. \<open>git_ok\<close>:
  Git objects are immutable and references are set by compare-and-swap. \<open>git_total\<close>, when success is claimed: objects can be written,
  paths of two levels indexed, indexed blobs made a tree, existing trees and parents committed, and a reference of the publisher that is not there
  created. \<open>sha_sized\<close>: the hash has 32 bytes, so that generation ids are path components. \<open>nfc_parts\<close>: a substring of a normalised text is normalised.
  \<open>surroundings_ok\<close>: the clock stays within four-digit years, other threads use the stores through their methods, and handlers raise only checked codes. \<open>push_ok\<close>: a push sets the reference or leaves the remote alone. Conditions on the program's own state are not assumptions on code outside: \<open>fresh_generation\<close> (no row or reference of the one generation being
  built), \<open>head_present\<close>, \<open>upgradable\<close> (older versions have a migration; validators and migrations may refuse), \<open>alone\<close> and \<open>run_in_time\<close>
  (nobody else at the stores, every stage within deadline and lease). Each property that uses one
  has a witness in which a concrete function satisfies it.

  \<^bold>\<open>Loops and bounds.\<close> Every definition is a total HOL function. The parser of \<open>json.loads\<close> has fuel, twice the length of the text and two, and theory \<open>Json\<close>
  shows that this is enough for everything that is printed. The publisher's retry loop is bounded by \<open>max_attempts\<close> and the orchestrator's
  loop by the number of stages and two, as in the code, and the bound of the latter is shown never to be reached; the migration loop is a \<open>function\<close> whose
  measure is the set of versions not yet visited.

  \<^bold>\<open>Not modelled.\<close> Command line, bootstrap and directory layout checks (I/O); the HTTP clients of language models, whose answers are
  a parameter of the extractor; the counting of golden evaluations; \<open>git gc\<close> and existence probes; recovery; the parts of the memory runtime around the
  orchestrator (recall, intent, temporal reasoning, proposals), the second-brain product, snapshot import, database capture and export, applications,
  connectors, user interface and infrastructure adapters (SQLCipher, keychain, encrypted stores).
\<close>

end
